(* ===== verification/Prelude.thy ===== *)
theory Prelude
  imports Main "HOL-Library.Word"
begin

text \<open>
  The shared vocabulary of the development: the machine integers of \<^verbatim>\<open>include/types.h\<close>,
  the outcome of code that may stop the machine (\<^verbatim>\<open>BUG_ON\<close> of \<^verbatim>\<open>include/assert.h\<close>, a
  \<^verbatim>\<open>while (1);\<close>), the fact collections that carry the component proofs, and generic
  lemmas on words.
\<close>

unbundle bit_operations_syntax

section \<open>Types\<close>

type_synonym u8 = "8 word"
type_synonym u16 = "16 word"
type_synonym u32 = "32 word"
type_synonym u64 = "64 word"

text \<open>System addresses, lengths and counts are all \<^verbatim>\<open>uint64_t\<close> in \<^verbatim>\<open>include/types.h\<close>.\<close>

type_synonym ea_t = u64
type_synonym ra_t = u64
type_synonym length_t = u64
type_synonym count_t = u64

text \<open>The error codes of \<^verbatim>\<open>ERR_LIST\<close>, in the order of the enumeration.\<close>

datatype err_t = ERR_NONE | ERR_NOT_READY | ERR_UNSUPPORTED | ERR_NO_MEM | ERR_NOT_FOUND | ERR_INVALID

section \<open>Outcomes\<close>

text \<open>
  \<^verbatim>\<open>BUG_ON\<close> logs at level \<^verbatim>\<open>LOG_FATAL\<close>, and \<^verbatim>\<open>_log\<close> spins forever at that level: the
  machine stops. \<open>Bug\<close> names the check that fired; \<open>Hang\<close> names an endless loop the
  source enters on purpose. Code that can do either returns a sum, \<open>Inl\<close> for a stop.
\<close>

datatype halt = Bug string | Hang string

type_synonym 'a outcome = "halt + 'a"

definition bug_on :: "bool \<Rightarrow> string \<Rightarrow> 'a outcome \<Rightarrow> 'a outcome" where
  "bug_on c m k = (if c then Inl (Bug m) else k)"

definition bindE :: "'a outcome \<Rightarrow> ('a \<Rightarrow> 'b outcome) \<Rightarrow> 'b outcome" where
  "bindE m f = (case m of Inl h \<Rightarrow> Inl h | Inr x \<Rightarrow> f x)"

named_theorems outcome_simps \<open>inversion of successful outcomes\<close>
named_theorems word_nat \<open>reading word expressions as natural numbers\<close>

lemma bindE_simps [simp]: "bindE (Inl h) f = Inl h" "bindE (Inr x) f = f x"
  by (simp_all add: bindE_def)

lemma bindE_Inr_iff [outcome_simps]: "bindE m f = Inr y \<longleftrightarrow> (\<exists>x. m = Inr x \<and> f x = Inr y)"
  by (cases m) auto

lemma bindE_Inl_iff: "bindE m f = Inl h \<longleftrightarrow> m = Inl h \<or> (\<exists>x. m = Inr x \<and> f x = Inl h)"
  by (cases m) auto

lemma bindE_assoc: "bindE (bindE m f) g = bindE m (\<lambda>x. bindE (f x) g)"
  by (cases m) auto

lemma bug_on_simps [simp]: "bug_on True m k = Inl (Bug m)" "bug_on False m k = k"
  by (simp_all add: bug_on_def)

lemma bug_on_Inr_iff [outcome_simps]: "bug_on c m k = Inr y \<longleftrightarrow> \<not> c \<and> k = Inr y"
  by (simp add: bug_on_def)

lemma bug_on_Inl_iff: "bug_on c m k = Inl h \<longleftrightarrow> (c \<and> h = Bug m) \<or> (\<not> c \<and> k = Inl h)"
  by (auto simp: bug_on_def)

lemma bug_on_cong [cong]: "c = c' \<Longrightarrow> (\<not> c' \<Longrightarrow> k = k') \<Longrightarrow> bug_on c m k = bug_on c' m k'"
  by (simp add: bug_on_def)

lemma bindE_cong [cong]: "m = m' \<Longrightarrow> (\<And>x. m' = Inr x \<Longrightarrow> f x = g x) \<Longrightarrow> bindE m f = bindE m' g"
  by (cases m') auto

section \<open>Words\<close>

lemmas [word_nat] = word_le_nat_alt word_less_nat_alt unat_sub

lemma unat_less_exp: "unat (x :: 'a::len word) < 2 ^ LENGTH('a)"
  by (rule unsigned_less)

lemma unat_add_no_wrap [word_nat]:
  "unat x + unat y < 2 ^ LENGTH('a) \<Longrightarrow> unat (x + y :: 'a::len word) = unat x + unat y"
  by (simp add: unat_word_ariths)

lemma unat_Suc_less: "x < y \<Longrightarrow> unat (x + 1) = Suc (unat x)" for x y :: "'a::len word"
proof -
  assume "x < y"
  then have "unat x + 1 < 2 ^ LENGTH('a)"
    using unat_less_exp [of y] unfolding word_less_nat_alt by linarith
  then show ?thesis
    by (simp add: unat_word_ariths)
qed

lemma unat_pred_less: "x < y \<Longrightarrow> unat (y - 1) = unat y - 1" for x y :: "'a::len word"
  by (rule unat_minus_one) auto

lemma unat_interval_end:
  fixes a n :: "'a::len word"
  assumes "n \<noteq> 0" "unat a + unat n \<le> 2 ^ LENGTH('a)"
  shows "unat (a + n - 1) = unat a + unat n - 1"
proof -
  have n: "unat (n - 1) = unat n - 1" "0 < unat n"
    using assms(1) by (auto simp: unat_minus_one unat_gt_0)
  have "unat (a + (n - 1)) = unat a + unat (n - 1)"
    using assms(2) n by (intro unat_add_no_wrap) linarith
  with n show ?thesis
    by (simp add: add_diff_eq)
qed

lemma word_less_predD: "x < y \<Longrightarrow> x = y - 1 \<or> x < y - 1" for x y :: "'a::len word"
proof -
  assume "x < y"
  then have "unat x = unat (y - 1) \<or> unat x < unat (y - 1)"
    by (auto simp: unat_pred_less [of x y] word_less_nat_alt)
  then show ?thesis
    by (simp only: word_less_nat_alt word_unat_eq_iff)
qed

lemma word_le_predI: "x < y \<Longrightarrow> x \<le> y - 1" for x y :: "'a::len word"
  using word_less_predD [of x y] by auto

lemma word_pred_less: "x < y \<Longrightarrow> y - 1 < y" for x y :: "'a::len word"
  using unat_pred_less [of x y] by (simp add: word_less_nat_alt)

lemma word_less_SucI: "x < y \<Longrightarrow> x < x + 1" for x y :: "'a::len word"
  by (simp add: word_less_nat_alt unat_Suc_less [of x y])

lemma word_Suc_leI: "x < y \<Longrightarrow> x + 1 \<le> y" for x y :: "'a::len word"
  by (simp add: word_le_nat_alt unat_Suc_less [of x y]) (simp add: word_less_nat_alt)

lemma and_not_mask_div: "x AND NOT (mask n) = push_bit n (drop_bit n x)" for x :: "'a::len word"
  by (rule bit_word_eqI) (auto simp: bit_simps not_le dest: bit_imp_le_length)

lemma and_not_mask_sub: "x AND NOT (mask n) = x - (x AND mask n)" for x :: "'a::len word"
proof -
  have "x = (x AND NOT (mask n)) OR (x AND mask n)"
    by (rule bit_word_eqI) (auto simp: bit_simps)
  moreover have "(x AND NOT (mask n)) AND (x AND mask n) = 0"
    by (rule bit_word_eqI) (auto simp: bit_simps)
  ultimately have "x = (x AND NOT (mask n)) + (x AND mask n)"
    by (metis disjunctive_add_eq_or)
  then show ?thesis
    by (metis add_diff_cancel_right')
qed

lemma unat_and_mask: "unat (x AND mask n) = unat x mod 2 ^ n" for x :: "'a::len word"
proof -
  have "unat (take_bit n x) = take_bit n (unat x)"
    by (rule unsigned_take_bit_eq)
  then show ?thesis
    by (simp only: take_bit_eq_mask [symmetric] take_bit_eq_mod)
qed

lemma unat_and_not_mask: "unat (x AND NOT (mask n)) = unat x - unat x mod 2 ^ n"
  for x :: "'a::len word"
proof -
  have "x AND mask n \<le> x"
    by (simp add: word_le_nat_alt unat_and_mask)
  then show ?thesis
    by (simp add: and_not_mask_sub unat_sub unat_and_mask)
qed

lemma unat_mask: "n \<le> LENGTH('a) \<Longrightarrow> unat (mask n :: 'a::len word) = 2 ^ n - 1"
proof -
  assume "n \<le> LENGTH('a)"
  then have "uint (mask n :: 'a word) = mask n"
    by (simp add: uint_mask_eq min_def)
  then have "int (unat (mask n :: 'a word)) = int (2 ^ n - 1)"
    by (simp add: mask_eq_exp_minus_1 of_nat_diff)
  then show ?thesis
    by (simp only: of_nat_eq_iff)
qed

lemma unat_less_of_bits:
  fixes x :: "'a::len word"
  assumes "\<And>i. n \<le> i \<Longrightarrow> i < LENGTH('a) \<Longrightarrow> \<not> bit x i"
  shows "unat x < 2 ^ n"
proof -
  have "x = x AND mask n"
    by (rule bit_word_eqI) (use assms in \<open>auto simp: bit_simps intro: leI\<close>)
  then have "unat x = unat x mod 2 ^ n"
    by (metis unat_and_mask)
  then show ?thesis
    by (metis mod_less_divisor zero_less_numeral zero_less_power)
qed

lemma unat_ge_of_bit: "bit x n \<Longrightarrow> 2 ^ n \<le> unat x" for x :: "'a::len word"
proof -
  assume "bit x n"
  then have "odd (drop_bit n x)"
    by (simp add: bit_iff_odd_drop_bit)
  then have "unat (drop_bit n x) \<noteq> 0"
    by (metis even_zero unat_eq_zero)
  then have "0 < unat x div 2 ^ n"
    by (metis bot_nat_0.not_eq_extremum drop_bit_eq_div unat_drop_bit_eq)
  then show ?thesis
    by (simp add: div_greater_zero_iff)
qed

lemma unat_pow2: "n < LENGTH('a) \<Longrightarrow> unat (2 ^ n :: 'a::len word) = 2 ^ n"
proof -
  assume "n < LENGTH('a)"
  then have "(2::nat) ^ n < 2 ^ LENGTH('a)"
    by simp
  then have "unat (of_nat (2 ^ n) :: 'a word) = 2 ^ n"
    by (simp only: unat_of_nat mod_less)
  then show ?thesis
    by simp
qed

lemma word_bytesI:
  fixes x y :: "'a::len word"
  assumes "LENGTH('a) = 8 * k" "\<And>i j. j < k \<Longrightarrow> i < 8 \<Longrightarrow> bit x (8 * j + i) = bit y (8 * j + i)"
  shows "x = y"
proof (rule bit_word_eqI)
  fix n assume "n < LENGTH('a)"
  then have "n div 8 < k" "n mod 8 < 8"
    using assms(1) by auto
  from assms(2) [OF this] show "bit x n = bit y n" by simp
qed

lemma bit_push_bit_1: "bit (push_bit k 1 :: 'a::len word) n \<longleftrightarrow> n = k \<and> k < LENGTH('a)"
  by (auto simp: bit_simps)

lemma mask_eq_pow_minus_1: "(2 ^ n - 1 :: 'a::len word) = mask n"
  by (simp add: mask_eq_decr_exp)

end
