(* ===== verification/List_Head.thy ===== *)
theory List_Head
  imports Prelude
begin

text \<open>
  The intrusive doubly linked lists of \<^verbatim>\<open>include/list.h\<close>. A \<^verbatim>\<open>struct list_head\<close> is two
  pointers in memory, so the model is a store that gives the \<^verbatim>\<open>next\<close> and \<^verbatim>\<open>prev\<close> field of
  every address, and each operation is the sequence of assignments of its source. The
  abstraction \<open>dlist h hp xs\<close> says that the circular list at \<open>hp\<close> holds exactly the entries
  \<open>xs\<close>, in order, linked both ways; the lemmas show that the pointer operations are the list
  operations the range and timer components use. The iteration macros are walks along
  \<^verbatim>\<open>next\<close> with a bound on the number of entries (\<open>None\<close> when the bound is too small), and a walk
  over a well-formed list visits \<open>xs\<close>.
\<close>

section \<open>The store and the operations\<close>

record list_heap =
  nxt :: "u64 \<Rightarrow> u64"
  prv :: "u64 \<Rightarrow> u64"

definition set_next :: "u64 \<Rightarrow> u64 \<Rightarrow> list_heap \<Rightarrow> list_heap" where
  "set_next p v h = h\<lparr>nxt := (nxt h)(p := v)\<rparr>"

definition set_prev :: "u64 \<Rightarrow> u64 \<Rightarrow> list_heap \<Rightarrow> list_heap" where
  "set_prev p v h = h\<lparr>prv := (prv h)(p := v)\<rparr>"

definition LIST_POISON1 :: u64 where
  "LIST_POISON1 = 0x7F00000000000000"

definition LIST_POISON2 :: u64 where
  "LIST_POISON2 = 0x7E00000000000000"

definition INIT_LIST_HEAD :: "u64 \<Rightarrow> list_heap \<Rightarrow> list_heap" where
  "INIT_LIST_HEAD p h = set_prev p p (set_next p p h)"

definition list_add_between :: "u64 \<Rightarrow> u64 \<Rightarrow> u64 \<Rightarrow> list_heap \<Rightarrow> list_heap" where
  "list_add_between new pr ne h =
     (let h = set_prev ne new h;
          h = set_next new ne h;
          h = set_prev new pr h
      in set_next pr new h)"

definition list_add :: "u64 \<Rightarrow> u64 \<Rightarrow> list_heap \<Rightarrow> list_heap" where
  "list_add new head h = list_add_between new head (nxt h head) h"

definition list_add_tail :: "u64 \<Rightarrow> u64 \<Rightarrow> list_heap \<Rightarrow> list_heap" where
  "list_add_tail new head h = list_add_between new (prv h head) head h"

definition list_del_between :: "u64 \<Rightarrow> u64 \<Rightarrow> list_heap \<Rightarrow> list_heap" where
  "list_del_between pr ne h = set_next pr ne (set_prev ne pr h)"

definition list_del :: "u64 \<Rightarrow> list_heap \<Rightarrow> list_heap" where
  "list_del entry h =
     (let h = list_del_between (prv h entry) (nxt h entry) h;
          h = set_next entry LIST_POISON1 h
      in set_prev entry LIST_POISON2 h)"

definition list_del_init :: "u64 \<Rightarrow> list_heap \<Rightarrow> list_heap" where
  "list_del_init entry h =
     INIT_LIST_HEAD entry (list_del_between (prv h entry) (nxt h entry) h)"

definition list_move :: "u64 \<Rightarrow> u64 \<Rightarrow> list_heap \<Rightarrow> list_heap" where
  "list_move l head h = list_add l head (list_del_between (prv h l) (nxt h l) h)"

definition list_move_tail :: "u64 \<Rightarrow> u64 \<Rightarrow> list_heap \<Rightarrow> list_heap" where
  "list_move_tail l head h = list_add_tail l head (list_del_between (prv h l) (nxt h l) h)"

definition list_empty :: "u64 \<Rightarrow> list_heap \<Rightarrow> bool" where
  "list_empty head h \<longleftrightarrow> nxt h head = head"

definition list_splice_raw :: "u64 \<Rightarrow> u64 \<Rightarrow> list_heap \<Rightarrow> list_heap" where
  "list_splice_raw l head h =
     (let fst = nxt h l;
          lst = prv h l;
          at = nxt h head;
          h = set_prev fst head h;
          h = set_next head fst h;
          h = set_next lst at h
      in set_prev at lst h)"

definition list_splice :: "u64 \<Rightarrow> u64 \<Rightarrow> list_heap \<Rightarrow> list_heap" where
  "list_splice l head h = (if \<not> list_empty l h then list_splice_raw l head h else h)"

definition list_splice_init :: "u64 \<Rightarrow> u64 \<Rightarrow> list_heap \<Rightarrow> list_heap" where
  "list_splice_init l head h =
     (if \<not> list_empty l h then INIT_LIST_HEAD l (list_splice_raw l head h) else h)"

text \<open>
  \<open>list_walk h hp n pos\<close> is the order in which \<^verbatim>\<open>list_for_each (pos, hp)\<close> visits the entries
  from \<open>pos\<close> on, for at most \<open>n\<close> entries.
\<close>

fun list_walk :: "list_heap \<Rightarrow> u64 \<Rightarrow> nat \<Rightarrow> u64 \<Rightarrow> u64 list option" where
  "list_walk h hp n pos =
     (if pos = hp then Some []
      else case n of 0 \<Rightarrow> None
           | Suc m \<Rightarrow> map_option ((#) pos) (list_walk h hp m (nxt h pos)))"

definition list_for_each :: "nat \<Rightarrow> u64 \<Rightarrow> list_heap \<Rightarrow> u64 list option" where
  "list_for_each n hp h = list_walk h hp n (nxt h hp)"

section \<open>The abstraction\<close>

text \<open>\<open>seg h a xs b\<close>: from \<open>a\<close>, the links lead through \<open>xs\<close> to \<open>b\<close>, in both directions.\<close>

fun seg :: "list_heap \<Rightarrow> u64 \<Rightarrow> u64 list \<Rightarrow> u64 \<Rightarrow> bool" where
  "seg h a [] b \<longleftrightarrow> nxt h a = b \<and> prv h b = a"
| "seg h a (x # xs) b \<longleftrightarrow> nxt h a = x \<and> prv h x = a \<and> seg h x xs b"

definition dlist :: "list_heap \<Rightarrow> u64 \<Rightarrow> u64 list \<Rightarrow> bool" where
  "dlist h hp xs \<longleftrightarrow> distinct (hp # xs) \<and> seg h hp xs hp"

named_theorems list_head_defs \<open>the definitions of the pointer operations\<close>

lemmas [list_head_defs] = INIT_LIST_HEAD_def list_add_between_def
  list_add_def list_add_tail_def list_del_between_def list_del_def list_del_init_def
  list_move_def list_move_tail_def list_splice_raw_def

lemma set_next_sel [simp]:
  "nxt (set_next p v h) = (nxt h)(p := v)" "prv (set_next p v h) = prv h"
  by (simp_all add: set_next_def)

lemma set_prev_sel [simp]:
  "nxt (set_prev p v h) = nxt h" "prv (set_prev p v h) = (prv h)(p := v)"
  by (simp_all add: set_prev_def)

declare list_walk.simps [simp del]

lemma seg_append [simp]: "seg h a (xs @ y # ys) b \<longleftrightarrow> seg h a xs y \<and> seg h y ys b"
  by (induction xs arbitrary: a) auto

lemma seg_ends: "seg h a xs b \<Longrightarrow> nxt h a = hd (xs @ [b]) \<and> prv h b = last (a # xs)"
  by (induction xs arbitrary: a) auto

text \<open>A segment survives every write outside the fields it reads.\<close>

lemma seg_set_next [simp]: "p \<notin> set (a # xs) \<Longrightarrow> seg (set_next p v h) a xs b = seg h a xs b"
  by (induction xs arbitrary: a) auto

lemma seg_set_prev [simp]: "p \<notin> set xs \<Longrightarrow> p \<noteq> b \<Longrightarrow> seg (set_prev p v h) a xs b = seg h a xs b"
  by (induction xs arbitrary: a) auto

lemma dlist_distinct: "dlist h hp xs \<Longrightarrow> distinct xs \<and> hp \<notin> set xs"
  by (simp add: dlist_def)

lemma dlist_nxt_prv:
  "dlist h hp (xs @ p # ys) \<Longrightarrow> prv h p = last (hp # xs) \<and> nxt h p = hd (ys @ [hp])"
  by (auto simp: dlist_def dest!: seg_ends)

lemma dlist_head_ends: "dlist h hp xs \<Longrightarrow> nxt h hp = hd (xs @ [hp]) \<and> prv h hp = last (hp # xs)"
  by (auto simp: dlist_def dest!: seg_ends)

section \<open>What the operations do to the list\<close>

lemma init_list_head_dlist: "dlist (INIT_LIST_HEAD p h) p []"
  by (simp add: dlist_def list_head_defs)

lemma list_empty_dlist: "dlist h hp xs \<Longrightarrow> list_empty hp h \<longleftrightarrow> xs = []"
  by (cases xs) (auto simp: dlist_def list_empty_def)

text \<open>Insertion between two neighbours, whether or not one of them is the head.\<close>

lemma dlist_add_between:
  assumes "dlist h hp (xs @ ys)" "new \<notin> set (hp # xs @ ys)"
  shows "dlist (list_add_between new (last (hp # xs)) (hd (ys @ [hp])) h) hp (xs @ new # ys)"
  using assms
  by (cases xs rule: rev_cases; cases ys) (auto simp: dlist_def list_add_between_def)

lemma list_add_tail_before:
  assumes "dlist h hp (xs @ p # ys)" "new \<notin> set (hp # xs @ p # ys)"
  shows "dlist (list_add_tail new p h) hp (xs @ new # p # ys)"
  using dlist_add_between [of h hp xs "p # ys" new] dlist_nxt_prv [OF assms(1)] assms
  by (simp add: list_add_tail_def)

lemma list_add_tail_end:
  assumes "dlist h hp xs" "new \<notin> set (hp # xs)"
  shows "dlist (list_add_tail new hp h) hp (xs @ [new])"
  using dlist_add_between [of h hp xs "[]" new] dlist_head_ends [OF assms(1)] assms
  by (simp add: list_add_tail_def)

lemma list_add_front:
  assumes "dlist h hp xs" "new \<notin> set (hp # xs)"
  shows "dlist (list_add new hp h) hp (new # xs)"
  using dlist_add_between [of h hp "[]" xs new] dlist_head_ends [OF assms(1)] assms
  by (simp add: list_add_def)

lemma dlist_del_between:
  assumes "dlist h hp (xs @ p # ys)"
  shows "dlist (list_del_between (prv h p) (nxt h p) h) hp (xs @ ys)"
  using assms dlist_nxt_prv [OF assms]
  by (cases xs rule: rev_cases; cases ys) (auto simp: dlist_def list_del_between_def)

lemma dlist_set_outside [simp]:
  "p \<notin> set (hp # xs) \<Longrightarrow> dlist (set_next p v h) hp xs = dlist h hp xs"
  "p \<notin> set (hp # xs) \<Longrightarrow> dlist (set_prev p v h) hp xs = dlist h hp xs"
  by (simp_all add: dlist_def)

lemma list_del_dlist:
  assumes "dlist h hp (xs @ p # ys)"
  shows "dlist (list_del p h) hp (xs @ ys)"
    and "nxt (list_del p h) p = LIST_POISON1" "prv (list_del p h) p = LIST_POISON2"
  using dlist_del_between [OF assms] dlist_distinct [OF assms]
  by (auto simp: list_del_def)

lemma list_del_init_dlist:
  assumes "dlist h hp (xs @ p # ys)"
  shows "dlist (list_del_init p h) hp (xs @ ys)" "dlist (list_del_init p h) p []"
  using dlist_del_between [OF assms] dlist_distinct [OF assms]
  by (auto simp: list_del_init_def INIT_LIST_HEAD_def) (simp add: dlist_def)

lemma list_move_dlist:
  assumes "dlist h hp (xs @ p # ys)"
  shows "dlist (list_move p hp h) hp (p # xs @ ys)"
    and "dlist (list_move_tail p hp h) hp (xs @ ys @ [p])"
  using list_add_front [OF dlist_del_between [OF assms], of p]
    list_add_tail_end [OF dlist_del_between [OF assms], of p] dlist_distinct [OF assms]
  by (auto simp: list_move_def list_move_tail_def)

lemma list_splice_dlist:
  assumes "dlist h l xs" "dlist h hp ys" "set (l # xs) \<inter> set (hp # ys) = {}"
  shows "dlist (list_splice l hp h) hp (xs @ ys)"
proof (cases xs)
  case Nil
  with assms list_empty_dlist [OF assms(1)] show ?thesis
    by (simp add: list_splice_def)
next
  case (Cons x zs)
  with list_empty_dlist [OF assms(1)] have "list_splice l hp h = list_splice_raw l hp h"
    by (simp add: list_splice_def)
  with Cons assms dlist_head_ends [OF assms(1)] dlist_head_ends [OF assms(2)] show ?thesis
    by (cases zs rule: rev_cases; cases ys) (auto simp: dlist_def list_splice_raw_def Let_def)
qed

section \<open>Iteration\<close>

lemma list_walk_seg:
  "seg h a xs hp \<Longrightarrow> hp \<notin> set xs \<Longrightarrow> length xs \<le> n \<Longrightarrow> list_walk h hp n (nxt h a) = Some xs"
  by (induction xs arbitrary: a n) (auto simp: list_walk.simps split: nat.splits)

lemma list_walk_short:
  "seg h a xs hp \<Longrightarrow> hp \<notin> set xs \<Longrightarrow> n < length xs \<Longrightarrow> list_walk h hp n (nxt h a) = None"
  by (induction xs arbitrary: a n) (auto simp: list_walk.simps split: nat.splits)

lemma list_for_each_dlist: "dlist h hp xs \<Longrightarrow> length xs \<le> n \<Longrightarrow> list_for_each n hp h = Some xs"
  by (auto simp: dlist_def list_for_each_def list_walk_seg)

end
