(* ===== verification/Cstring.thy ===== *)
theory Cstring
  imports Prelude "HOL-Library.Monad_Syntax"
begin

text \<open>
  Bytes in memory, \<^verbatim>\<open>lib/ctype.c\<close> with \<^verbatim>\<open>include/ctype.h\<close>, and \<^verbatim>\<open>lib/string.c\<close>. Memory is a function
  from addresses to bytes; \<^verbatim>\<open>char\<close> is unsigned on this machine. A loop that ends at a NUL byte need
  not end: it is a \<open>partial_function\<close> into \<open>option\<close>, \<open>None\<close> standing for a loop that runs on. A
  loop with a count is a recursion on the count. Functions that write memory return it.
\<close>

type_synonym mem = "u64 \<Rightarrow> u8"

section \<open>Character classes\<close>

definition ctype_U :: u8 where "ctype_U = 0x01"
definition ctype_L :: u8 where "ctype_L = 0x02"
definition ctype_D :: u8 where "ctype_D = 0x04"
definition ctype_C :: u8 where "ctype_C = 0x08"
definition ctype_P :: u8 where "ctype_P = 0x10"
definition ctype_S :: u8 where "ctype_S = 0x20"
definition ctype_X :: u8 where "ctype_X = 0x40"
definition ctype_SP :: u8 where "ctype_SP = 0x80"

lemmas ctype_flags = ctype_U_def ctype_L_def ctype_D_def ctype_C_def ctype_P_def ctype_S_def
  ctype_X_def ctype_SP_def

definition ctype_table :: "u8 list" where
  "ctype_table =
     replicate 9 ctype_C @ replicate 5 (ctype_C OR ctype_S) @ replicate 18 ctype_C @
     [ctype_S OR ctype_SP] @ replicate 15 ctype_P @ replicate 10 ctype_D @ replicate 7 ctype_P @
     replicate 6 (ctype_U OR ctype_X) @ replicate 20 ctype_U @ replicate 6 ctype_P @
     replicate 6 (ctype_L OR ctype_X) @ replicate 20 ctype_L @ replicate 4 ctype_P @ [ctype_C] @
     replicate 32 0 @
     [ctype_S OR ctype_SP] @ replicate 31 ctype_P @
     replicate 23 ctype_U @ [ctype_P] @ replicate 7 ctype_U @ replicate 24 ctype_L @ [ctype_P] @
     replicate 8 ctype_L"

definition ismask :: "u8 \<Rightarrow> u8" where
  "ismask c = ctype_table ! unat c"

definition isalnum :: "u8 \<Rightarrow> bool" where
  "isalnum c \<longleftrightarrow> ismask c AND (ctype_U OR ctype_L OR ctype_D) \<noteq> 0"

definition isdigit :: "u8 \<Rightarrow> bool" where
  "isdigit c \<longleftrightarrow> ismask c AND ctype_D \<noteq> 0"

definition islower :: "u8 \<Rightarrow> bool" where
  "islower c \<longleftrightarrow> ismask c AND ctype_L \<noteq> 0"

definition isspace :: "u8 \<Rightarrow> bool" where
  "isspace c \<longleftrightarrow> ismask c AND ctype_S \<noteq> 0"

definition isupper :: "u8 \<Rightarrow> bool" where
  "isupper c \<longleftrightarrow> ismask c AND ctype_U \<noteq> 0"

definition isxdigit :: "u8 \<Rightarrow> bool" where
  "isxdigit c \<longleftrightarrow> ismask c AND (ctype_D OR ctype_X) \<noteq> 0"

text \<open>\<open>'A' - 'a'\<close> is \<open>-32\<close>.\<close>

definition tolower :: "u8 \<Rightarrow> u8" where
  "tolower c = (if isupper c then c - (- 32) else c)"

definition toupper :: "u8 \<Rightarrow> u8" where
  "toupper c = (if islower c then c - 32 else c)"

section \<open>Lengths and comparison\<close>

definition byte_diff :: "u8 \<Rightarrow> u8 \<Rightarrow> int" where
  "byte_diff a b = int (unat a) - int (unat b)"

partial_function (option) strlen_loop :: "mem \<Rightarrow> u64 \<Rightarrow> u64 \<Rightarrow> u64 option" where
  "strlen_loop m s sc = (if m sc \<noteq> 0 then strlen_loop m s (sc + 1) else Some (sc - s))"

definition strlen :: "mem \<Rightarrow> u64 \<Rightarrow> u64 option" where
  "strlen m s = strlen_loop m s s"

fun strnlen_loop :: "nat \<Rightarrow> mem \<Rightarrow> u64 \<Rightarrow> u64 \<Rightarrow> u64" where
  "strnlen_loop 0 m s sc = sc - s"
| "strnlen_loop (Suc n) m s sc = (if m sc \<noteq> 0 then strnlen_loop n m s (sc + 1) else sc - s)"

definition strnlen :: "mem \<Rightarrow> u64 \<Rightarrow> u64 \<Rightarrow> u64" where
  "strnlen m s count = strnlen_loop (unat count) m s s"

text \<open>
  One round of the loop of \<^verbatim>\<open>strnicmp\<close>: whether it breaks, and the value returned if the loop ends
  here. In the loop, \<open>n + 1\<close> is the length left.
\<close>

definition strnicmp_step :: "u8 \<Rightarrow> u8 \<Rightarrow> bool \<times> int" where
  "strnicmp_step c1 c2 =
     (if c1 = 0 \<or> c2 = 0 then (True, byte_diff c1 c2)
      else if c1 = c2 then (False, byte_diff c1 c2)
      else (tolower c1 \<noteq> tolower c2, byte_diff (tolower c1) (tolower c2)))"

fun strnicmp_loop :: "nat \<Rightarrow> mem \<Rightarrow> u64 \<Rightarrow> u64 \<Rightarrow> int" where
  "strnicmp_loop 0 m s1 s2 = snd (strnicmp_step (m s1) (m s2))"
| "strnicmp_loop (Suc n) m s1 s2 =
     (if fst (strnicmp_step (m s1) (m s2)) then snd (strnicmp_step (m s1) (m s2))
      else strnicmp_loop n m (s1 + 1) (s2 + 1))"

definition strnicmp :: "mem \<Rightarrow> u64 \<Rightarrow> u64 \<Rightarrow> u64 \<Rightarrow> int" where
  "strnicmp m s1 s2 len = (if len = 0 then 0 else strnicmp_loop (unat len - 1) m s1 s2)"

partial_function (option) strcasecmp :: "mem \<Rightarrow> u64 \<Rightarrow> u64 \<Rightarrow> int option" where
  "strcasecmp m s1 s2 =
     (let c1 = tolower (m s1); c2 = tolower (m s2)
      in if c1 = c2 \<and> c1 \<noteq> 0 then strcasecmp m (s1 + 1) (s2 + 1) else Some (byte_diff c1 c2))"

text \<open>\<open>n\<close> is decremented before it is tested, so a length of 0 wraps around.\<close>

partial_function (option) strncasecmp :: "mem \<Rightarrow> u64 \<Rightarrow> u64 \<Rightarrow> u64 \<Rightarrow> int option" where
  "strncasecmp m s1 s2 n =
     (let c1 = tolower (m s1); c2 = tolower (m s2)
      in if n - 1 > 0 \<and> c1 = c2 \<and> c1 \<noteq> 0 then strncasecmp m (s1 + 1) (s2 + 1) (n - 1)
         else Some (byte_diff c1 c2))"

partial_function (option) strcmp :: "mem \<Rightarrow> u64 \<Rightarrow> u64 \<Rightarrow> int option" where
  "strcmp m cs ct =
     (let c1 = m cs; c2 = m ct
      in if c1 \<noteq> c2 then Some (if c1 < c2 then - 1 else 1)
         else if c1 = 0 then Some 0
         else strcmp m (cs + 1) (ct + 1))"

fun strncmp_loop :: "nat \<Rightarrow> mem \<Rightarrow> u64 \<Rightarrow> u64 \<Rightarrow> int" where
  "strncmp_loop 0 m cs ct = 0"
| "strncmp_loop (Suc n) m cs ct =
     (let c1 = m cs; c2 = m ct
      in if c1 \<noteq> c2 then (if c1 < c2 then - 1 else 1)
         else if c1 = 0 then 0
         else strncmp_loop n m (cs + 1) (ct + 1))"

definition strncmp :: "mem \<Rightarrow> u64 \<Rightarrow> u64 \<Rightarrow> u64 \<Rightarrow> int" where
  "strncmp m cs ct count = strncmp_loop (unat count) m cs ct"

fun memcmp_loop :: "nat \<Rightarrow> int \<Rightarrow> mem \<Rightarrow> u64 \<Rightarrow> u64 \<Rightarrow> int" where
  "memcmp_loop 0 res m su1 su2 = res"
| "memcmp_loop (Suc n) res m su1 su2 =
     (let res = byte_diff (m su1) (m su2)
      in if res \<noteq> 0 then res else memcmp_loop n res m (su1 + 1) (su2 + 1))"

definition memcmp :: "mem \<Rightarrow> u64 \<Rightarrow> u64 \<Rightarrow> u64 \<Rightarrow> int" where
  "memcmp m cs ct count = memcmp_loop (unat count) 0 m cs ct"

section \<open>Searching\<close>

text \<open>Pointers that may be \<^verbatim>\<open>NULL\<close> are addresses; \<^verbatim>\<open>NULL\<close> is 0.\<close>

partial_function (option) strchr :: "mem \<Rightarrow> u64 \<Rightarrow> u8 \<Rightarrow> u64 option" where
  "strchr m s c = (if m s \<noteq> c then (if m s = 0 then Some 0 else strchr m (s + 1) c) else Some s)"

text \<open>The loop of \<^verbatim>\<open>strrchr\<close> walks down; it stops when the pointer passes the start of the string.\<close>

partial_function (option) strrchr_loop :: "mem \<Rightarrow> u64 \<Rightarrow> u64 \<Rightarrow> u8 \<Rightarrow> u64 option" where
  "strrchr_loop m s p c =
     (if m p = c then Some p else if p - 1 \<ge> s then strrchr_loop m s (p - 1) c else Some 0)"

definition strrchr :: "mem \<Rightarrow> u64 \<Rightarrow> u8 \<Rightarrow> u64 option" where
  "strrchr m s c = do { n \<leftarrow> strlen m s; strrchr_loop m s (s + n) c }"

fun strnchr_loop :: "nat \<Rightarrow> mem \<Rightarrow> u64 \<Rightarrow> u8 \<Rightarrow> u64" where
  "strnchr_loop 0 m s c = 0"
| "strnchr_loop (Suc n) m s c =
     (if m s \<noteq> 0 then (if m s = c then s else strnchr_loop n m (s + 1) c) else 0)"

definition strnchr :: "mem \<Rightarrow> u64 \<Rightarrow> u64 \<Rightarrow> u8 \<Rightarrow> u64" where
  "strnchr m s count c = strnchr_loop (unat count) m s c"

fun memscan_loop :: "nat \<Rightarrow> mem \<Rightarrow> u64 \<Rightarrow> u8 \<Rightarrow> u64" where
  "memscan_loop 0 m p c = p"
| "memscan_loop (Suc n) m p c = (if m p = c then p else memscan_loop n m (p + 1) c)"

definition memscan :: "mem \<Rightarrow> u64 \<Rightarrow> u8 \<Rightarrow> u64 \<Rightarrow> u64" where
  "memscan m addr c sz = memscan_loop (unat sz) m addr c"

fun memchr_loop :: "nat \<Rightarrow> mem \<Rightarrow> u64 \<Rightarrow> u8 \<Rightarrow> u64" where
  "memchr_loop 0 m p c = 0"
| "memchr_loop (Suc n) m p c = (if c = m p then p else memchr_loop n m (p + 1) c)"

definition memchr :: "mem \<Rightarrow> u64 \<Rightarrow> u8 \<Rightarrow> u64 \<Rightarrow> u64" where
  "memchr m s c n = memchr_loop (unat n) m s c"

text \<open>
  \<^verbatim>\<open>strstr\<close> and \<^verbatim>\<open>strnstr\<close>: \<open>l1 \<ge> l2\<close> is tested and \<open>l1\<close> decremented until it is below \<open>l2\<close>, which
  is not 0.
\<close>

function strstr_loop :: "mem \<Rightarrow> u64 \<Rightarrow> u64 \<Rightarrow> u64 \<Rightarrow> u64 \<Rightarrow> u64" where
  "strstr_loop m s1 s2 l1 l2 =
     (if l2 \<noteq> 0 \<and> l1 \<ge> l2 then
        (if memcmp m s1 s2 l2 = 0 then s1 else strstr_loop m (s1 + 1) s2 (l1 - 1) l2)
      else 0)"
  by pat_completeness auto
termination
proof (relation "measure (\<lambda>(m, s1, s2, l1, l2). unat l1)", simp)
  fix l1 l2 :: u64 and m s1 s2
  assume "l2 \<noteq> 0 \<and> l2 \<le> l1"
  then have "0 < l2" "l2 \<le> l1" by (simp_all add: word_neq_0_conv)
  then have "0 < l1" by (rule less_le_trans)
  then show "((m, s1 + 1, s2, l1 - 1, l2), m, s1, s2, l1, l2) \<in> measure (\<lambda>(m, s1, s2, l1, l2). unat l1)"
    using unat_pred_less[of 0 l1] by (simp add: word_less_nat_alt)
qed

declare strstr_loop.simps [simp del]

definition strstr :: "mem \<Rightarrow> u64 \<Rightarrow> u64 \<Rightarrow> u64 option" where
  "strstr m s1 s2 = do {
     l2 \<leftarrow> strlen m s2;
     if l2 = 0 then Some s1 else do { l1 \<leftarrow> strlen m s1; Some (strstr_loop m s1 s2 l1 l2) } }"

definition strnstr :: "mem \<Rightarrow> u64 \<Rightarrow> u64 \<Rightarrow> u64 \<Rightarrow> u64 option" where
  "strnstr m s1 s2 len = do {
     l2 \<leftarrow> strlen m s2;
     if l2 = 0 then Some s1 else Some (strstr_loop m s1 s2 len l2) }"

text \<open>Membership of a byte in a string of bytes, the inner loop of \<^verbatim>\<open>strspn\<close>, \<^verbatim>\<open>strcspn\<close> and \<^verbatim>\<open>strpbrk\<close>.\<close>

partial_function (option) str_member :: "mem \<Rightarrow> u64 \<Rightarrow> u8 \<Rightarrow> bool option" where
  "str_member m a c = (if m a \<noteq> 0 then (if c = m a then Some True else str_member m (a + 1) c) else Some False)"

partial_function (option) strspn_loop :: "mem \<Rightarrow> u64 \<Rightarrow> u64 \<Rightarrow> u64 \<Rightarrow> u64 option" where
  "strspn_loop m p accept count =
     (if m p \<noteq> 0 then
        Option.bind (str_member m accept (m p))
          (\<lambda>b. if b then strspn_loop m (p + 1) accept (count + 1) else Some count)
      else Some count)"

definition strspn :: "mem \<Rightarrow> u64 \<Rightarrow> u64 \<Rightarrow> u64 option" where
  "strspn m s accept = strspn_loop m s accept 0"

partial_function (option) strcspn_loop :: "mem \<Rightarrow> u64 \<Rightarrow> u64 \<Rightarrow> u64 \<Rightarrow> u64 option" where
  "strcspn_loop m p reject count =
     (if m p \<noteq> 0 then
        Option.bind (str_member m reject (m p))
          (\<lambda>b. if b then Some count else strcspn_loop m (p + 1) reject (count + 1))
      else Some count)"

definition strcspn :: "mem \<Rightarrow> u64 \<Rightarrow> u64 \<Rightarrow> u64 option" where
  "strcspn m s reject = strcspn_loop m s reject 0"

partial_function (option) strpbrk :: "mem \<Rightarrow> u64 \<Rightarrow> u64 \<Rightarrow> u64 option" where
  "strpbrk m sc1 ct =
     (if m sc1 \<noteq> 0 then
        Option.bind (str_member m ct (m sc1)) (\<lambda>b. if b then Some sc1 else strpbrk m (sc1 + 1) ct)
      else Some 0)"

text \<open>\<^verbatim>\<open>strsep\<close> takes the pointer \<open>sp\<close> and returns the token, the new pointer and memory.\<close>

definition strsep :: "mem \<Rightarrow> u64 \<Rightarrow> u64 \<Rightarrow> (u64 \<times> u64 \<times> mem) option" where
  "strsep m sp ct =
     (if sp = 0 then Some (0, sp, m)
      else do {
        e \<leftarrow> strpbrk m sp ct;
        Some (if e \<noteq> 0 then (sp, e + 1, m(e := 0)) else (sp, 0, m)) })"

section \<open>Copying and filling\<close>

fun memcpy_loop :: "nat \<Rightarrow> u64 \<Rightarrow> u64 \<Rightarrow> mem \<Rightarrow> mem" where
  "memcpy_loop 0 tmp s m = m"
| "memcpy_loop (Suc n) tmp s m = memcpy_loop n (tmp + 1) (s + 1) (m(tmp := m s))"

definition memcpy :: "u64 \<Rightarrow> u64 \<Rightarrow> u64 \<Rightarrow> mem \<Rightarrow> mem" where
  "memcpy dest src count m = memcpy_loop (unat count) dest src m"

fun memmove_down :: "nat \<Rightarrow> u64 \<Rightarrow> u64 \<Rightarrow> mem \<Rightarrow> mem" where
  "memmove_down 0 tmp s m = m"
| "memmove_down (Suc n) tmp s m = memmove_down n (tmp - 1) (s - 1) (m(tmp - 1 := m (s - 1)))"

definition memmove :: "u64 \<Rightarrow> u64 \<Rightarrow> u64 \<Rightarrow> mem \<Rightarrow> mem" where
  "memmove dest src count m =
     (if dest \<le> src then memcpy_loop (unat count) dest src m
      else memmove_down (unat count) (dest + count) (src + count) m)"

text \<open>A 32-bit store, least significant byte first.\<close>

definition store32_le :: "u64 \<Rightarrow> u32 \<Rightarrow> mem \<Rightarrow> mem" where
  "store32_le a v m =
     m(a := ucast v, a + 1 := ucast (drop_bit 8 v), a + 2 := ucast (drop_bit 16 v),
       a + 3 := ucast (drop_bit 24 v))"

definition load32_le :: "u64 \<Rightarrow> mem \<Rightarrow> u32" where
  "load32_le a m =
     ucast (m a) OR push_bit 8 (ucast (m (a + 1))) OR push_bit 16 (ucast (m (a + 2))) OR
     push_bit 24 (ucast (m (a + 3)))"

fun memset_bytes :: "nat \<Rightarrow> u64 \<Rightarrow> u32 \<Rightarrow> mem \<Rightarrow> mem" where
  "memset_bytes 0 xs c m = m"
| "memset_bytes (Suc n) xs c m = memset_bytes n (xs + 1) c (m(xs := ucast c))"

fun memset_loop :: "nat \<Rightarrow> u64 \<Rightarrow> u32 \<Rightarrow> u32 \<Rightarrow> mem \<Rightarrow> mem" where
  "memset_loop count xs ci c m =
     (if count > 4 then memset_loop (count - 4) (xs + 4) ci c (store32_le xs ci m)
      else memset_bytes count xs c m)"

declare memset_loop.simps [simp del]

definition memset :: "u64 \<Rightarrow> u32 \<Rightarrow> u64 \<Rightarrow> mem \<Rightarrow> mem" where
  "memset s c count m =
     (let ci = c OR push_bit 8 c OR push_bit 16 c OR push_bit 24 c
      in memset_loop (unat count) s ci c m)"

partial_function (option) strcpy_loop :: "u64 \<Rightarrow> u64 \<Rightarrow> mem \<Rightarrow> mem option" where
  "strcpy_loop dest src m =
     (let m' = m(dest := m src)
      in if m src \<noteq> 0 then strcpy_loop (dest + 1) (src + 1) m' else Some m')"

definition strcpy :: "u64 \<Rightarrow> u64 \<Rightarrow> mem \<Rightarrow> mem option" where
  "strcpy dest src m = strcpy_loop dest src m"

fun strncpy_loop :: "nat \<Rightarrow> u64 \<Rightarrow> u64 \<Rightarrow> mem \<Rightarrow> mem" where
  "strncpy_loop 0 tmp src m = m"
| "strncpy_loop (Suc n) tmp src m =
     strncpy_loop n (tmp + 1) (if m src \<noteq> 0 then src + 1 else src) (m(tmp := m src))"

definition strncpy :: "u64 \<Rightarrow> u64 \<Rightarrow> u64 \<Rightarrow> mem \<Rightarrow> mem" where
  "strncpy dest src count m = strncpy_loop (unat count) dest src m"

definition strlcpy :: "u64 \<Rightarrow> u64 \<Rightarrow> u64 \<Rightarrow> mem \<Rightarrow> (u64 \<times> mem) option" where
  "strlcpy dest src sz m = do {
     ret \<leftarrow> strlen m src;
     Some (if sz \<noteq> 0 then
             let len = (if ret \<ge> sz then sz - 1 else ret);
                 m = memcpy dest src len m
             in (ret, m(dest + len := 0))
           else (ret, m)) }"

definition strcat :: "u64 \<Rightarrow> u64 \<Rightarrow> mem \<Rightarrow> mem option" where
  "strcat dest src m = do { n \<leftarrow> strlen m dest; strcpy_loop (dest + n) src m }"

partial_function (option) strncat_loop :: "u64 \<Rightarrow> u64 \<Rightarrow> u64 \<Rightarrow> mem \<Rightarrow> mem option" where
  "strncat_loop dest src count m =
     (let m' = m(dest := m src)
      in if m src \<noteq> 0 then
           (if count - 1 = 0 then Some (m'(dest + 1 := 0))
            else strncat_loop (dest + 1) (src + 1) (count - 1) m')
         else Some m')"

definition strncat :: "u64 \<Rightarrow> u64 \<Rightarrow> u64 \<Rightarrow> mem \<Rightarrow> mem option" where
  "strncat dest src count m =
     (if count \<noteq> 0 then do { n \<leftarrow> strlen m dest; strncat_loop (dest + n) src count m } else Some m)"

definition strlcat :: "u64 \<Rightarrow> u64 \<Rightarrow> u64 \<Rightarrow> mem \<Rightarrow> (u64 \<times> mem) option" where
  "strlcat dest src count m = do {
     dsize \<leftarrow> strlen m dest;
     len \<leftarrow> strlen m src;
     let res = dsize + len; dest = dest + dsize; count = count - dsize;
         len = (if len \<ge> count then count - 1 else len);
         m = memcpy dest src len m
     in Some (res, m(dest + len := 0)) }"

partial_function (option) skip_spaces :: "mem \<Rightarrow> u64 \<Rightarrow> u64 option" where
  "skip_spaces m str = (if isspace (m str) then skip_spaces m (str + 1) else Some str)"

partial_function (option) strim_loop :: "mem \<Rightarrow> u64 \<Rightarrow> u64 \<Rightarrow> u64 option" where
  "strim_loop m s e = (if e \<ge> s \<and> isspace (m e) then strim_loop m s (e - 1) else Some e)"

definition strim :: "u64 \<Rightarrow> mem \<Rightarrow> (u64 \<times> mem) option" where
  "strim s m = do {
     s \<leftarrow> skip_spaces m s;
     sz \<leftarrow> strlen m s;
     if sz = 0 then Some (s, m)
     else do { e \<leftarrow> strim_loop m s (s + sz - 1); Some (s, m(e + 1 := 0)) } }"

text \<open>Stores of a list of bytes one after the other, the form the callers of a copy need.\<close>

fun store_bytes :: "u64 \<Rightarrow> u8 list \<Rightarrow> mem \<Rightarrow> mem" where
  "store_bytes a [] m = m"
| "store_bytes a (b # bs) m = store_bytes (a + 1) bs (m(a := b))"

end
