(* ===== verification/Cstring_Correct.thy ===== *)
theory Cstring_Correct
  imports Cstring
begin

text \<open>
  What the functions of \<^verbatim>\<open>lib/string.c\<close> compute, in terms of the byte strings in memory: \<open>cstr m p xs\<close>
  says that the NUL-terminated string at \<open>p\<close> is \<open>xs\<close>, \<open>bytes m p n\<close> are the \<open>n\<close> bytes from \<open>p\<close> on.
  Offsets are taken modulo \<open>2 ^ 64\<close>, so no statement needs an address that does not wrap unless it
  says so.
\<close>

section \<open>Strings in memory\<close>

lemma unat_of_nat_less: "n < 2 ^ 64 \<Longrightarrow> unat (of_nat n :: u64) = n"
  by (simp add: unat_of_nat)

fun cstr :: "mem \<Rightarrow> u64 \<Rightarrow> u8 list \<Rightarrow> bool" where
  "cstr m p [] \<longleftrightarrow> m p = 0"
| "cstr m p (c # cs) \<longleftrightarrow> c \<noteq> 0 \<and> m p = c \<and> cstr m (p + 1) cs"

definition bytes :: "mem \<Rightarrow> u64 \<Rightarrow> nat \<Rightarrow> u8 list" where
  "bytes m p n = map (\<lambda>i. m (p + of_nat i)) [0..<n]"

lemma bytes_0 [simp]: "bytes m p 0 = []"
  by (simp add: bytes_def)

lemma bytes_Suc [simp]: "bytes m p (Suc n) = m p # bytes m (p + 1) n"
  unfolding bytes_def by (simp add: upt_conv_Cons map_Suc_upt[symmetric] algebra_simps del: upt_Suc)

lemma length_bytes [simp]: "length (bytes m p n) = n"
  by (simp add: bytes_def)

lemma cstr_bytes: "cstr m p cs \<longleftrightarrow> 0 \<notin> set cs \<and> bytes m p (length cs + 1) = cs @ [0]"
  by (induction cs arbitrary: p) auto

text \<open>The string at an address is unique.\<close>

lemma cstr_unique: "cstr m p xs \<Longrightarrow> cstr m p ys \<Longrightarrow> xs = ys"
proof (induction xs arbitrary: p ys)
  case Nil
  then show ?case by (cases ys) auto
next
  case (Cons x xs)
  then show ?case by (cases ys) auto
qed

lemma cstr_drop: "cstr m p cs \<Longrightarrow> i \<le> length cs \<Longrightarrow> cstr m (p + of_nat i) (drop i cs)"
proof (induction i arbitrary: p cs)
  case (Suc i)
  then show ?case using Suc.IH[of "p + 1" "tl cs"] by (cases cs) (auto simp: add.assoc)
qed simp

lemma cstr_bytes_prefix: "cstr m p cs \<Longrightarrow> n \<le> length cs \<Longrightarrow> bytes m p n = take n cs"
proof (induction n arbitrary: p cs)
  case (Suc n)
  then show ?case by (cases cs) auto
qed simp

section \<open>Lengths and comparison\<close>

lemma strlen_loop_cstr: "cstr m sc cs \<Longrightarrow> strlen_loop m s sc = Some (sc + of_nat (length cs) - s)"
  by (induction cs arbitrary: sc) (auto simp: strlen_loop.simps algebra_simps)

lemma strlen_cstr: "cstr m p cs \<Longrightarrow> strlen m p = Some (of_nat (length cs))"
  by (simp add: strlen_def strlen_loop_cstr)

lemma strnlen_loop_cstr: "cstr m sc cs \<Longrightarrow> strnlen_loop n m s sc = sc + of_nat (min n (length cs)) - s"
proof (induction n arbitrary: sc cs)
  case (Suc n)
  then show ?case by (cases cs) (auto simp: algebra_simps)
qed simp

text \<open>The value a comparison returns: the sign of the first difference.\<close>

fun bytes_cmp :: "u8 list \<Rightarrow> u8 list \<Rightarrow> int" where
  "bytes_cmp [] [] = 0"
| "bytes_cmp [] (y # ys) = - 1"
| "bytes_cmp (x # xs) [] = 1"
| "bytes_cmp (x # xs) (y # ys) = (if x = y then bytes_cmp xs ys else if x < y then - 1 else 1)"

lemma bytes_cmp_0: "bytes_cmp xs ys = 0 \<longleftrightarrow> xs = ys"
  by (induction xs ys rule: bytes_cmp.induct) auto

lemma bytes_cmp_neg: "bytes_cmp xs ys < 0 \<longleftrightarrow> (xs, ys) \<in> lexord {(a, b). a < b}"
  by (induction xs ys rule: bytes_cmp.induct) auto

lemma strcmp_cstr: "cstr m p xs \<Longrightarrow> cstr m q ys \<Longrightarrow> strcmp m p q = Some (bytes_cmp xs ys)"
proof (induction xs arbitrary: p q ys)
  case Nil
  then show ?case by (cases ys) (simp_all add: strcmp.simps[of m p q] Let_def word_gt_0)
next
  case (Cons x xs)
  then show ?case by (cases ys) (simp_all add: strcmp.simps[of m p q] Let_def)
qed

lemma strncmp_loop_cstr:
  "cstr m p xs \<Longrightarrow> cstr m q ys \<Longrightarrow> strncmp_loop n m p q = bytes_cmp (take n xs) (take n ys)"
proof (induction n arbitrary: p q xs ys)
  case (Suc n)
  then show ?case
    by (cases xs; cases ys) (simp_all add: Let_def word_gt_0)
qed simp

lemma byte_diff_0: "byte_diff a b = 0 \<longleftrightarrow> a = b"
  by (simp add: byte_diff_def word_uint_eq_iff)

lemma memcmp_loop_0: "memcmp_loop n 0 m p q = 0 \<longleftrightarrow> bytes m p n = bytes m q n"
  by (induction n arbitrary: p q) (auto simp: Let_def byte_diff_0 byte_diff_0[THEN iffD2])

lemma memcmp_0: "memcmp m p q n = 0 \<longleftrightarrow> bytes m p (unat n) = bytes m q (unat n)"
  by (simp add: memcmp_def memcmp_loop_0)

section \<open>Searching\<close>

text \<open>The first place at which one string occurs in another.\<close>

definition occurs_at :: "u8 list \<Rightarrow> u8 list \<Rightarrow> nat \<Rightarrow> bool" where
  "occurs_at xs ys i \<longleftrightarrow> i + length ys \<le> length xs \<and> take (length ys) (drop i xs) = ys"

lemma strstr_loop_cstr:
  assumes "cstr m p xs" "cstr m q ys" "ys \<noteq> []" "length xs < 2 ^ 64" "length ys < 2 ^ 64"
  shows "strstr_loop m p q (of_nat (length xs)) (of_nat (length ys)) =
    (if \<exists>i. occurs_at xs ys i then p + of_nat (LEAST i. occurs_at xs ys i) else 0)"
  using assms
proof (induction xs arbitrary: p)
  case Nil
  have "(of_nat (length ys) :: u64) \<noteq> 0" using Nil.prems by (simp add: word_unat_eq_iff unat_of_nat)
  moreover have "\<not> occurs_at [] ys i" for i using Nil.prems by (auto simp: occurs_at_def)
  ultimately show ?case by (subst strstr_loop.simps) (auto simp: word_le_0_iff)
next
  case (Cons x xs)
  let ?n = "of_nat (length ys) :: u64"
  have u: "unat ?n = length ys" "unat (of_nat (length (x # xs)) :: u64) = length (x # xs)"
    using Cons.prems by (auto intro!: unat_of_nat_less simp del: of_nat_Suc list.size)
  have nz: "?n \<noteq> 0" using Cons.prems u by auto
  have le: "?n \<le> of_nat (length (x # xs)) \<longleftrightarrow> length ys \<le> length (x # xs)"
    using u by (simp add: word_le_nat_alt)
  have cmp: "memcmp m p q ?n = 0 \<longleftrightarrow> occurs_at (x # xs) ys 0" if "length ys \<le> length (x # xs)"
    using that cstr_bytes_prefix[OF Cons.prems(1) that] cstr_bytes_prefix[OF Cons.prems(2) order_refl] u(1)
    by (auto simp: memcmp_0 occurs_at_def)
  have suc: "occurs_at (x # xs) ys (Suc i) \<longleftrightarrow> occurs_at xs ys i" for i by (simp add: occurs_at_def)
  have IH: "strstr_loop m (p + 1) q (of_nat (length xs)) ?n =
    (if \<exists>i. occurs_at xs ys i then p + 1 + of_nat (LEAST i. occurs_at xs ys i) else 0)"
    using Cons by simp
  show ?case
  proof (cases "length ys \<le> length (x # xs)")
    case False
    then have "\<not> occurs_at (x # xs) ys i" for i by (auto simp: occurs_at_def)
    then have "\<not> (\<exists>i. occurs_at (x # xs) ys i)" by blast
    moreover have "strstr_loop m p q (of_nat (length (x # xs))) ?n = 0"
      using le False by (subst strstr_loop.simps) simp
    ultimately show ?thesis by (simp only: if_False)
  next
    case True
    have l: "strstr_loop m p q (of_nat (length (x # xs))) ?n =
       (if occurs_at (x # xs) ys 0 then p else strstr_loop m (p + 1) q (of_nat (length xs)) ?n)"
      using le True nz cmp[OF True] by (subst strstr_loop.simps) simp
    show ?thesis
    proof (cases "occurs_at (x # xs) ys 0")
      case True
      then have "(LEAST i. occurs_at (x # xs) ys i) = 0" by (intro Least_equality) auto
      then show ?thesis using l True by auto
    next
      case False
      have ex: "(\<exists>i. occurs_at (x # xs) ys i) \<longleftrightarrow> (\<exists>i. occurs_at xs ys i)"
        using False suc by (metis not0_implies_Suc)
      have L: "(LEAST i. occurs_at (x # xs) ys i) = Suc (LEAST i. occurs_at xs ys i)" if "\<exists>i. occurs_at xs ys i"
      proof -
        from that obtain i where "occurs_at (x # xs) ys (Suc i)" using suc by blast
        then show ?thesis using False Least_Suc[of "occurs_at (x # xs) ys" "Suc i"] by (simp only: suc simp_thms)
      qed
      have l': "strstr_loop m p q (of_nat (length (x # xs))) ?n =
          (if \<exists>i. occurs_at xs ys i then p + 1 + of_nat (LEAST i. occurs_at xs ys i) else 0)"
        using l False IH by (simp only: if_False)
      show ?thesis
      proof (cases "\<exists>i. occurs_at xs ys i")
        case True
        show ?thesis unfolding l' ex L[OF True] using True by (simp only: if_True of_nat_Suc add.assoc)
      qed (use l' ex in \<open>simp only: if_False\<close>)
    qed
  qed
qed

lemma strstr_cstr:
  assumes "cstr m p xs" "cstr m q ys" "length xs < 2 ^ 64" "length ys < 2 ^ 64"
  shows "strstr m p q = Some (if \<exists>i. occurs_at xs ys i then p + of_nat (LEAST i. occurs_at xs ys i) else 0)"
proof (cases "ys = []")
  case True
  then have "occurs_at xs ys 0" by (simp add: occurs_at_def)
  moreover from this have "(LEAST i. occurs_at xs ys i) = 0" by (intro Least_equality) auto
  ultimately show ?thesis using assms(2) True strlen_cstr[OF assms(2)] by (auto simp: strstr_def)
next
  case False
  then have "(of_nat (length ys) :: u64) \<noteq> 0"
    using unat_of_nat_less[OF assms(4)] by (metis length_greater_0_conv less_numeral_extra(3) unat_0)
  then show ?thesis
    using strstr_loop_cstr[OF assms(1,2) False assms(3,4)] strlen_cstr[OF assms(1)] strlen_cstr[OF assms(2)]
    by (simp add: strstr_def)
qed

text \<open>
  \<^verbatim>\<open>strcmp\<close> on two strings in memory returns, and its result is 0 exactly for equal strings and
  negative exactly when the first comes before the second in the order of unsigned bytes.
\<close>
theorem strcmp_correct:
  assumes "cstr m p xs" "cstr m q ys"
  shows "\<exists>r. strcmp m p q = Some r \<and> (r = 0 \<longleftrightarrow> xs = ys) \<and> (r < 0 \<longleftrightarrow> (xs, ys) \<in> lexord {(a, b). a < b})"
  using strcmp_cstr[OF assms] bytes_cmp_0 bytes_cmp_neg by blast

definition mem_of :: "(u64 \<times> u8 list) list \<Rightarrow> mem" where
  "mem_of rs a =
     (case filter (\<lambda>(p, bs). unat (a - p) < length bs) rs of [] \<Rightarrow> 0 | (p, bs) # _ \<Rightarrow> bs ! unat (a - p))"

definition mem_words :: mem where
  "mem_words = mem_of [(0x1000, [0x61, 0x62, 0]), (0x2000, [0x61, 0x63, 0])]"

lemma mem_words_cstr: "cstr mem_words 0x1000 [0x61, 0x62]" "cstr mem_words 0x2000 [0x61, 0x63]"
  by (simp_all add: mem_words_def mem_of_def)

theorem strcmp_correct_witness: "\<exists>r. strcmp mem_words 0x1000 0x2000 = Some r \<and> r < 0"
proof -
  have "([0x61, 0x62], [0x61, 0x63 :: u8]) \<in> lexord {(a, b). a < b}" by (simp add: lexord_cons_cons)
  then show ?thesis using strcmp_correct[OF mem_words_cstr] by blast
qed

text \<open>
  \<^verbatim>\<open>strstr\<close> on two strings in memory returns: a pointer to the first place where the second
  occurs in the first, or NULL when it occurs nowhere.
\<close>
theorem strstr_correct:
  assumes "cstr m p xs" "cstr m q ys" "length xs < 2 ^ 64" "length ys < 2 ^ 64"
  shows "\<exists>r. strstr m p q = Some r \<and>
    ((r = 0 \<and> (\<forall>i. \<not> occurs_at xs ys i)) \<or>
     (\<exists>i. r = p + of_nat i \<and> occurs_at xs ys i \<and> (\<forall>j < i. \<not> occurs_at xs ys j)))"
proof (cases "\<exists>i. occurs_at xs ys i")
  case True
  let ?i = "LEAST i. occurs_at xs ys i"
  have "strstr m p q = Some (p + of_nat ?i)" using True strstr_cstr[OF assms] by (simp only: if_True)
  moreover have "occurs_at xs ys ?i" "\<forall>j < ?i. \<not> occurs_at xs ys j"
    using LeastI_ex[OF True] not_less_Least by blast+
  ultimately show ?thesis by blast
next
  case False
  then have "strstr m p q = Some 0" using strstr_cstr[OF assms] by (simp only: if_False)
  then show ?thesis using False by blast
qed

definition mem_path :: mem where
  "mem_path = mem_of [(0x1000, [0x2f, 0x64, 0x3a, 0x31, 0]), (0x2000, [0x64, 0x3a, 0])]"

theorem strstr_correct_witness: "strstr mem_path 0x1000 0x2000 = Some 0x1001"
proof -
  define xs ys where "xs = [0x2f, 0x64, 0x3a, 0x31 :: u8]" and "ys = [0x64, 0x3a :: u8]"
  have c: "cstr mem_path 0x1000 xs" "cstr mem_path 0x2000 ys"
    by (simp_all add: mem_path_def mem_of_def xs_def ys_def)
  have o: "occurs_at xs ys 1" "\<not> occurs_at xs ys 0"
    by (simp_all add: occurs_at_def xs_def ys_def)
  have "length xs < 2 ^ 64" "length ys < 2 ^ 64" by (simp_all add: xs_def ys_def)
  from strstr_correct[OF c this] obtain r where r: "strstr mem_path 0x1000 0x2000 = Some r"
    "(r = 0 \<and> (\<forall>i. \<not> occurs_at xs ys i)) \<or>
     (\<exists>i. r = 0x1000 + of_nat i \<and> occurs_at xs ys i \<and> (\<forall>j < i. \<not> occurs_at xs ys j))" by (elim exE conjE)
  from r(2) obtain i where i: "r = 0x1000 + of_nat i" "occurs_at xs ys i" "\<forall>j < i. \<not> occurs_at xs ys j"
    using o(1) by (elim disjE exE conjE) simp_all
  have "\<not> 1 < i" using i(3) o(1) by blast
  moreover have "i \<noteq> 0" using i(2) o(2) by metis
  ultimately have "i = 1" by simp
  then show ?thesis using r(1) i(1) by simp
qed

section \<open>Copying and filling\<close>

text \<open>
  The contract of a copy of \<open>n\<close> bytes: where it is allowed, the destination gets the bytes and
  every other byte stays. An address is in the destination when its offset, modulo \<open>2 ^ 64\<close>, is
  below \<open>n\<close>.
\<close>

locale byte_copy =
  fixes copy :: "u64 \<Rightarrow> u64 \<Rightarrow> u64 \<Rightarrow> mem \<Rightarrow> mem" and allowed :: "u64 \<Rightarrow> u64 \<Rightarrow> u64 \<Rightarrow> bool"
  assumes copy_spec: "allowed d s n \<Longrightarrow> copy d s n m a = (if a - d < n then m (s + (a - d)) else m a)"
begin

lemma copy_bytes:
  assumes "allowed d s n" shows "bytes (copy d s n m) d (unat n) = bytes m s (unat n)"
proof -
  have "copy d s n m (d + of_nat i) = m (s + of_nat i)" if "i < unat n" for i
  proof -
    have "(of_nat i :: u64) < n"
      using that unat_less_exp[of n] by (simp add: word_less_nat_alt unat_of_nat)
    then show ?thesis using copy_spec[OF assms] by simp
  qed
  then show ?thesis by (simp add: bytes_def)
qed

text \<open>Copying a string with its terminator copies the string.\<close>

lemma copy_cstr:
  assumes "allowed d s n" "cstr m s cs" "unat n = length cs + 1"
  shows "cstr (copy d s n m) d cs"
  using copy_bytes[OF assms(1), of m] assms(2,3) unfolding cstr_bytes by simp

lemma copy_outside: "allowed d s n \<Longrightarrow> \<not> a - d < n \<Longrightarrow> copy d s n m a = m a"
  by (simp add: copy_spec)

end

text \<open>Copying upwards is right unless the destination starts inside the source.\<close>

definition copy_up_ok :: "u64 \<Rightarrow> u64 \<Rightarrow> nat \<Rightarrow> bool" where
  "copy_up_ok d s n \<longleftrightarrow> d = s \<or> n \<le> unat (d - s)"

lemma unat_offset_pred: "a \<noteq> d \<Longrightarrow> unat (a - (d + 1)) = unat (a - d) - 1" for a d :: u64
proof -
  assume "a \<noteq> d"
  then have "0 < a - d" by (simp add: word_gt_0)
  from unat_pred_less[OF this] show ?thesis by (simp add: diff_diff_eq)
qed

lemma memcpy_loop_spec:
  "copy_up_ok d s n \<Longrightarrow> n < 2 ^ 64 \<Longrightarrow>
   memcpy_loop n d s m a = (if unat (a - d) < n then m (s + (a - d)) else m a)"
proof (induction n arbitrary: d s m)
  case (Suc n)
  have ok: "copy_up_ok (d + 1) (s + 1) n" "n < 2 ^ 64" using Suc.prems by (auto simp: copy_up_ok_def)
  note IH = Suc.IH[OF ok, of "m(d := m s)"]
  show ?case
  proof (cases "a = d")
    case True
    have "\<not> unat (- 1 :: u64) < n" using Suc.prems(2) by (simp add: unsigned_minus_1_eq_mask mask_eq_exp_minus_1)
    then have "memcpy_loop n (d + 1) (s + 1) (m(d := m s)) a = m s" unfolding IH by (simp add: True)
    then show ?thesis by (simp add: True)
  next
    case False
    have u: "unat (a - (d + 1)) < n \<longleftrightarrow> unat (a - d) < Suc n"
    proof -
      have "0 < unat (a - d)" using False by (simp add: unat_gt_0)
      then show ?thesis using unat_offset_pred[OF False] by linarith
    qed
    have e: "s + 1 + (a - (d + 1)) = s + (a - d)" by (simp add: algebra_simps)
    have "s + (a - d) \<noteq> d" if "unat (a - d) < Suc n"
    proof
      assume "s + (a - d) = d"
      then have "d - s = a - d" by (simp add: algebra_simps)
      then show False using Suc.prems(1) that False by (auto simp: copy_up_ok_def)
    qed
    then show ?thesis using u e False by (simp add: IH)
  qed
qed simp

text \<open>Copying downwards, from the ends, is right unless the source starts inside the destination.\<close>

lemma memmove_down_spec:
  assumes "d = s \<or> n \<le> unat (s - d)" "n < 2 ^ 64"
  shows "memmove_down n (d + of_nat n) (s + of_nat n) m a = (if unat (a - d) < n then m (s + (a - d)) else m a)"
  using assms
proof (induction n arbitrary: m)
  case (Suc n)
  let ?m = "m(d + of_nat n := m (s + of_nat n))"
  have "memmove_down (Suc n) (d + of_nat (Suc n)) (s + of_nat (Suc n)) m a = memmove_down n (d + of_nat n) (s + of_nat n) ?m a"
    by (simp add: algebra_simps)
  also have "\<dots> = (if unat (a - d) < n then ?m (s + (a - d)) else ?m a)"
    using Suc.prems by (intro Suc.IH) auto
  also have "\<dots> = (if unat (a - d) < Suc n then m (s + (a - d)) else m a)"
  proof (cases "unat (a - d) < n")
    case True
    have "s + (a - d) \<noteq> d + of_nat n"
    proof
      assume "s + (a - d) = d + of_nat n"
      then have e: "s - d = of_nat n - (a - d)" by (simp add: algebra_simps)
      have n: "unat (of_nat n :: u64) = n" using Suc.prems(2) by (intro unat_of_nat_less) simp
      have "unat (s - d) = unat (of_nat n :: u64) - unat (a - d)"
        unfolding e using True by (intro unat_sub) (simp add: word_le_nat_alt n)
      then have "unat (s - d) = n - unat (a - d)" unfolding n .
      then show False using Suc.prems(1) True by auto
    qed
    then show ?thesis using True by simp
  next
    case False
    have "unat (a - d) = n \<longleftrightarrow> a - d = of_nat n"
      using Suc.prems(2) by (simp add: word_unat_eq_iff unat_of_nat)
    also have "\<dots> \<longleftrightarrow> a = d + of_nat n" by (simp add: diff_eq_eq add.commute)
    finally show ?thesis using False by (cases "a = d + of_nat n") auto
  qed
  finally show ?case .
qed simp

lemma unat_lt_iff: "a - d < n \<longleftrightarrow> unat (a - d) < unat n" for a d n :: u64
  by (simp add: word_less_nat_alt)

definition memcpy_allowed :: "u64 \<Rightarrow> u64 \<Rightarrow> u64 \<Rightarrow> bool" where
  "memcpy_allowed d s n \<longleftrightarrow> copy_up_ok d s (unat n)"

definition memmove_allowed :: "u64 \<Rightarrow> u64 \<Rightarrow> u64 \<Rightarrow> bool" where
  "memmove_allowed d s n \<longleftrightarrow> unat d + unat n \<le> 2 ^ 64 \<and> unat s + unat n \<le> 2 ^ 64"

lemma unat_neg_diff: "x \<noteq> y \<Longrightarrow> y \<le> x \<Longrightarrow> unat (y - x) = 2 ^ 64 - (unat x - unat y)" for x y :: u64
  by (simp add: unat_sub_if' word_le_nat_alt word_unat_eq_iff)

interpretation cpy: byte_copy memcpy memcpy_allowed
proof
  fix d s n m a
  assume "memcpy_allowed d s n"
  then show "memcpy d s n m a = (if a - d < n then m (s + (a - d)) else m a)"
    using memcpy_loop_spec[of d s "unat n" m a] unat_less_exp[of n]
    by (simp add: memcpy_def memcpy_allowed_def unat_lt_iff)
qed

interpretation mov: byte_copy memmove memmove_allowed
proof
  fix d s n :: u64 and m a
  assume ok: "memmove_allowed d s n"
  have n: "unat n < 2 ^ 64" using unat_less_exp[of n] by simp
  show "memmove d s n m a = (if a - d < n then m (s + (a - d)) else m a)"
  proof (cases "d \<le> s")
    case True
    then have "copy_up_ok d s (unat n)"
      using ok unat_neg_diff[OF _ True]
      by (cases "s = d") (auto simp: copy_up_ok_def memmove_allowed_def word_le_nat_alt)
    then show ?thesis using True memcpy_loop_spec[OF _ n] by (simp add: memmove_def unat_lt_iff)
  next
    case False
    then have "s = d \<or> unat n \<le> unat (s - d)"
      using ok unat_neg_diff[of d s]
      by (cases "s = d") (auto simp: memmove_allowed_def word_le_nat_alt)
    then have "memmove_down (unat n) (d + of_nat (unat n)) (s + of_nat (unat n)) m a =
      (if unat (a - d) < unat n then m (s + (a - d)) else m a)"
      using memmove_down_spec[OF _ n, of d s] by auto
    then show ?thesis using False by (simp add: memmove_def unat_lt_iff)
  qed
qed

text \<open>
  \<^verbatim>\<open>memmove\<close> of two areas that do not wrap around the end of the address space copies them right
  however they overlap: the destination gets the bytes the source had, every other byte stays.
\<close>
theorem memmove_correct:
  assumes "unat d + unat n \<le> 2 ^ 64" "unat s + unat n \<le> 2 ^ 64"
  shows "bytes (memmove d s n m) d (unat n) = bytes m s (unat n) \<and>
    (\<forall>a. \<not> a - d < n \<longrightarrow> memmove d s n m a = m a)"
  using mov.copy_bytes[of d s n m] mov.copy_outside[of d s n _ m] assms by (simp add: memmove_allowed_def)

theorem memmove_correct_witness:
  "bytes (memmove 0x1001 0x1000 2 mem_words) 0x1001 2 = [0x61, 0x62]"
proof -
  have "bytes mem_words 0x1000 2 = [0x61, 0x62]"
    by (simp add: bytes_def mem_words_def mem_of_def upt_conv_Cons)
  then show ?thesis using memmove_correct[of "0x1001" 2 "0x1000" mem_words] by simp
qed

lemma memset_bytes_spec:
  "n < 2 ^ 64 \<Longrightarrow> memset_bytes n s c m a = (if unat (a - s) < n then ucast c else m a)"
proof (induction n arbitrary: s m)
  case (Suc n)
  then have n: "n < 2 ^ 64" by simp
  note IH = Suc.IH[OF n]
  show ?case
  proof (cases "a = s")
    case True
    have "memset_bytes n (s + 1) c (m(s := ucast c)) a = ucast c" unfolding IH by (simp add: True)
    then show ?thesis by (simp add: True)
  next
    case False
    have "0 < unat (a - s)" using False by (simp add: unat_gt_0)
    then have "unat (a - (s + 1)) < n \<longleftrightarrow> unat (a - s) < Suc n" using unat_offset_pred[OF False] by linarith
    then show ?thesis using False by (simp add: IH)
  qed
qed simp

text \<open>The word \<^verbatim>\<open>memset\<close> stores repeats the byte.\<close>

lemma memset_word_bytes:
  fixes c :: u32
  assumes "c < 256" "k < 4"
  shows "(ucast (drop_bit (8 * k) (c OR push_bit 8 c OR push_bit 16 c OR push_bit 24 c)) :: u8) = ucast c"
proof (rule bit_eqI)
  fix n
  have c: "i < 8" if "bit c i" for i
  proof -
    have "(2::nat) ^ i < 2 ^ 8" using unat_ge_of_bit[OF that] assms(1) by (simp add: word_less_nat_alt)
    then show ?thesis using power_strict_increasing_iff[of "2::nat" i 8] by simp
  qed
  have k: "k = 0 \<or> k = 1 \<or> k = 2 \<or> k = 3" using assms(2) by auto
  show "bit (ucast (drop_bit (8 * k) (c OR push_bit 8 c OR push_bit 16 c OR push_bit 24 c)) :: u8) n = bit (ucast c :: u8) n"
    using k by (elim disjE)
      (auto simp: bit_ucast_iff bit_drop_bit_eq bit_or_iff bit_push_bit_iff dest: c)
qed

lemma store32_le_other: "a - s \<notin> {0, 1, 2, 3} \<Longrightarrow> store32_le s v m a = m a"
  by (auto simp: store32_le_def)

lemma word_small_offset: "unat x < 4 \<longleftrightarrow> x \<in> {0, 1, 2, 3}" for x :: u64
proof
  assume "unat x < 4"
  then have "unat x = 0 \<or> unat x = 1 \<or> unat x = 2 \<or> unat x = 3" by linarith
  then show "x \<in> {0, 1, 2, 3}" by (auto simp: word_unat_eq_iff)
qed auto

lemma store32_le_repeat:
  assumes "c < 256" "unat (a - s) < 4"
  shows "store32_le s (c OR push_bit 8 c OR push_bit 16 c OR push_bit 24 c) m a = ucast c"
proof -
  note b = memset_word_bytes[OF assms(1), of 0] memset_word_bytes[OF assms(1), of 1]
    memset_word_bytes[OF assms(1), of 2] memset_word_bytes[OF assms(1), of 3]
  have "a = s \<or> a = s + 1 \<or> a = s + 2 \<or> a = s + 3"
    using assms(2) unfolding word_small_offset by (auto simp: diff_eq_eq add.commute)
  then show ?thesis using b by (auto simp: store32_le_def)
qed

lemma memset_loop_spec:
  assumes "c < 256" "n < 2 ^ 64"
  shows "memset_loop n s (c OR push_bit 8 c OR push_bit 16 c OR push_bit 24 c) c m a =
    (if unat (a - s) < n then ucast c else m a)"
  using assms(2)
proof (induction n arbitrary: s m rule: less_induct)
  case (less n)
  let ?ci = "c OR push_bit 8 c OR push_bit 16 c OR push_bit 24 c"
  show ?case
  proof (cases "4 < n")
    case False
    then show ?thesis using less.prems by (subst memset_loop.simps) (simp add: memset_bytes_spec)
  next
    case True
    have IH: "memset_loop (n - 4) (s + 4) ?ci c (store32_le s ?ci m) a =
        (if unat (a - (s + 4)) < n - 4 then ucast c else store32_le s ?ci m a)"
      using True less.prems by (intro less.IH) auto
    have u: "unat (a - (s + 4)) = (if 4 \<le> unat (a - s) then unat (a - s) - 4 else 2 ^ 64 + unat (a - s) - 4)"
      using unat_sub_if'[of "a - s" 4] by (simp add: diff_diff_eq)
    show ?thesis
    proof (cases "4 \<le> unat (a - s)")
      case True
      then have "store32_le s ?ci m a = m a" using word_small_offset[of "a - s"] by (intro store32_le_other) linarith
      then show ?thesis using True u IH \<open>4 < n\<close> by (subst memset_loop.simps) auto
    next
      case False
      then have "store32_le s ?ci m a = ucast c" by (intro store32_le_repeat assms(1)) simp
      then show ?thesis using False u IH \<open>4 < n\<close> less.prems by (subst memset_loop.simps) auto
    qed
  qed
qed

text \<open>
  \<^verbatim>\<open>memset\<close> with a byte value fills exactly the \<open>n\<close> bytes from \<open>s\<close> on, although it stores four
  bytes at a time; for values above 255 this is not claimed, the stored word then differs from
  the stored bytes.
\<close>
theorem memset_correct:
  assumes "c < 256"
  shows "memset s c n m a = (if a - s < n then ucast c else m a)"
  using memset_loop_spec[OF assms, of "unat n" s m a] unat_less_exp[of n]
  by (simp add: memset_def Let_def unat_lt_iff)

theorem memset_correct_witness: "memset 0x1000 0x20 7 mem_words 0x1006 = 0x20 \<and> memset 0x1000 0x20 7 mem_words 0x2000 = 0x61"
  using memset_correct[of "0x20" "0x1000" 7 mem_words "0x1006"] memset_correct[of "0x20" "0x1000" 7 mem_words "0x2000"]
  by (simp add: mem_words_def mem_of_def)

section \<open>A length of zero\<close>

text \<open>
  \<^verbatim>\<open>strncasecmp\<close> compares a first byte whatever its length argument says; with a length of 0 strings
  that differ there do not compare equal.
\<close>

lemma strncasecmp_length_0:
  assumes "tolower (m p) \<noteq> tolower (m q)"
  shows "\<exists>r. strncasecmp m p q 0 = Some r \<and> r \<noteq> 0"
  using assms by (simp add: strncasecmp.simps[of m p q] Let_def byte_diff_0)

lemma strncasecmp_length_0_example: "\<exists>r. strncasecmp mem_words 0x1001 0x2001 0 = Some r \<and> r \<noteq> 0"
  by (rule strncasecmp_length_0)
    (simp add: mem_words_def mem_of_def tolower_def isupper_def ismask_def ctype_table_def ctype_flags nth_append)

section \<open>Lists of bytes in memory\<close>

lemma store_bytes_at:
  "length bs < 2 ^ 64 \<Longrightarrow> store_bytes a bs m x = (if unat (x - a) < length bs then bs ! unat (x - a) else m x)"
proof (induction bs arbitrary: a m)
  case (Cons b bs)
  have IH: "store_bytes (a + 1) bs (m(a := b)) x =
      (if unat (x - (a + 1)) < length bs then bs ! unat (x - (a + 1)) else (m(a := b)) x)"
    using Cons by simp
  show ?case
  proof (cases "x = a")
    case True
    have "\<not> unat (- 1 :: u64) < length bs"
      using Cons.prems by (simp add: unsigned_minus_1_eq_mask mask_eq_exp_minus_1)
    then show ?thesis unfolding store_bytes.simps IH by (simp add: True)
  next
    case False
    then have "0 < unat (x - a)" by (simp add: unat_gt_0)
    then show ?thesis
      unfolding store_bytes.simps IH using False unat_offset_pred[OF False] by (auto simp: nth_Cons' less_Suc_eq_0_disj)
  qed
qed simp

lemma store_bytes_append: "store_bytes a (xs @ ys) m = store_bytes (a + of_nat (length xs)) ys (store_bytes a xs m)"
  by (induction xs arbitrary: a m) (simp_all add: algebra_simps)

end
