(* ===== verification/Defs.thy ===== *)
theory Defs
  imports Prelude
begin

text \<open>
  The macros of \<^verbatim>\<open>include/defs.h\<close> (alignment, bit slices, \<^verbatim>\<open>__ilog2\<close>) and the byte-order
  helpers of \<^verbatim>\<open>include/endian.h\<close>. The macros are typed by their argument
  (\<^verbatim>\<open>typeof (x)\<close>), so the definitions are polymorphic in the word length. The lemmas say what
  the masks compute as numbers when the alignment is a power of two, and that the byte swaps
  are involutions; the swap laws are proved once in the locale \<open>byte_swap\<close>.
\<close>

section \<open>Alignment and bit slices\<close>

definition ALIGN_UP_MASK :: "'a::len word \<Rightarrow> 'a word \<Rightarrow> 'a word" where
  "ALIGN_UP_MASK x m = (x + m) AND NOT m"

definition ALIGN_MASK :: "'a::len word \<Rightarrow> 'a word \<Rightarrow> 'a word" where
  "ALIGN_MASK x m = x AND NOT m"

definition ALIGN :: "'a::len word \<Rightarrow> 'a word \<Rightarrow> 'a word" where
  "ALIGN x a = ALIGN_MASK x (a - 1)"

definition IS_ALIGNED :: "'a::len word \<Rightarrow> 'a word \<Rightarrow> bool" where
  "IS_ALIGNED x a \<longleftrightarrow> x AND (a - 1) = 0"

definition ALIGN_UP :: "'a::len word \<Rightarrow> 'a word \<Rightarrow> 'a word" where
  "ALIGN_UP x a = (if IS_ALIGNED x a then x else ALIGN_UP_MASK x (a - 1))"

definition MASK_OFF :: "u64 \<Rightarrow> nat \<Rightarrow> nat \<Rightarrow> u64" where
  "MASK_OFF v larger smaller = drop_bit smaller v AND (push_bit (larger + 1 - smaller) 1 - 1)"

definition MASK_IN :: "u64 \<Rightarrow> nat \<Rightarrow> nat \<Rightarrow> u64" where
  "MASK_IN v larger smaller = push_bit smaller (v AND (push_bit (larger + 1 - smaller) 1 - 1))"

definition MB :: "u64 \<Rightarrow> u64" where
  "MB x = 1 * x * 1024 * 1024"

definition GB :: "u64 \<Rightarrow> u64" where
  "GB x = 1 * x * 1024 * 1024 * 1024"

text \<open>
  \<^verbatim>\<open>cntlzd\<close> counts the zero bits above the highest one bit (64 for zero);
  \<open>clz_from n x\<close> scans the bits below \<open>n\<close>.
\<close>

fun clz_from :: "nat \<Rightarrow> 'a::len word \<Rightarrow> nat" where
  "clz_from 0 x = 0"
| "clz_from (Suc n) x = (if bit x n then 0 else Suc (clz_from n x))"

definition cntlzd :: "u64 \<Rightarrow> nat" where
  "cntlzd x = clz_from 64 x"

definition BITS_PER_LONG :: int where
  "BITS_PER_LONG = 64"

definition ilog2 :: "u64 \<Rightarrow> int" where
  "ilog2 x = BITS_PER_LONG - 1 - int (cntlzd x)"

section \<open>Byte order\<close>

definition swab16 :: "u16 \<Rightarrow> u16" where
  "swab16 x = push_bit 8 (x AND 0x00ff) OR drop_bit 8 (x AND 0xff00)"

definition swab32 :: "u32 \<Rightarrow> u32" where
  "swab32 x =
     push_bit 24 (x AND 0x000000ff) OR
     push_bit 8 (x AND 0x0000ff00) OR
     drop_bit 8 (x AND 0x00ff0000) OR
     drop_bit 24 (x AND 0xff000000)"

definition swab64 :: "u64 \<Rightarrow> u64" where
  "swab64 x =
     push_bit 56 (x AND 0x00000000000000ff) OR
     push_bit 40 (x AND 0x000000000000ff00) OR
     push_bit 24 (x AND 0x0000000000ff0000) OR
     push_bit 8 (x AND 0x00000000ff000000) OR
     drop_bit 8 (x AND 0x000000ff00000000) OR
     drop_bit 24 (x AND 0x0000ff0000000000) OR
     drop_bit 40 (x AND 0x00ff000000000000) OR
     drop_bit 56 (x AND 0xff00000000000000)"

definition cpu_to_be64 :: "u64 \<Rightarrow> u64" where
  "cpu_to_be64 x = swab64 x"

definition be64_to_cpu :: "u64 \<Rightarrow> u64" where
  "be64_to_cpu x = swab64 x"

definition cpu_to_be32 :: "u32 \<Rightarrow> u32" where
  "cpu_to_be32 x = swab32 x"

definition be32_to_cpu :: "u32 \<Rightarrow> u32" where
  "be32_to_cpu x = swab32 x"

definition cpu_to_be16 :: "u16 \<Rightarrow> u16" where
  "cpu_to_be16 x = swab16 x"

definition be16_to_cpu :: "u16 \<Rightarrow> u16" where
  "be16_to_cpu x = swab16 x"

section \<open>What the alignment macros compute\<close>

lemma IS_ALIGNED_pow2: "IS_ALIGNED x (2 ^ n) \<longleftrightarrow> 2 ^ n dvd unat x"
  by (simp add: IS_ALIGNED_def mask_eq_pow_minus_1 and_mask_dvd_nat)

lemma unat_ALIGN_pow2: "unat (ALIGN x (2 ^ n)) = unat x - unat x mod 2 ^ n"
  by (simp add: ALIGN_def ALIGN_MASK_def mask_eq_pow_minus_1 unat_and_not_mask)

lemma ALIGN_le: "ALIGN x (2 ^ n) \<le> x"
  by (simp add: word_le_nat_alt unat_ALIGN_pow2)

lemma ALIGN_dvd: "2 ^ n dvd unat (ALIGN x (2 ^ n))"
  by (simp add: unat_ALIGN_pow2 dvd_minus_mod)

lemma ALIGN_near: "unat x < unat (ALIGN x (2 ^ n)) + 2 ^ n"
proof -
  have "unat x mod 2 ^ n < 2 ^ n" "unat x mod 2 ^ n \<le> unat x"
    by simp_all
  then show ?thesis
    unfolding unat_ALIGN_pow2 by linarith
qed

lemma round_up_nat:
  fixes x d :: nat
  assumes "0 < d" "\<not> d dvd x"
  shows "(x + (d - 1)) - (x + (d - 1)) mod d = x - x mod d + d"
proof -
  have m: "0 < x mod d" "x mod d < d"
    using assms by (simp_all add: dvd_eq_mod_eq_0)
  have "(x + (d - 1)) mod d = (x mod d + (d - 1)) mod d"
    by (simp only: mod_add_left_eq)
  also have "x mod d + (d - 1) = (x mod d - 1) + d"
    using m by linarith
  also have "\<dots> mod d = (x mod d - 1) mod d"
    by (rule mod_add_self2)
  also have "\<dots> = x mod d - 1"
    using m by (intro mod_less) linarith
  finally have "(x + (d - 1)) mod d = x mod d - 1" .
  then show ?thesis
    using m mod_less_eq_dividend [of x d] by linarith
qed

lemma unat_ALIGN_UP_pow2:
  fixes x :: "'a::len word"
  assumes n: "n < LENGTH('a)" and no_wrap: "unat x + (2 ^ n - 1) < 2 ^ LENGTH('a)"
  shows "unat (ALIGN_UP x (2 ^ n)) =
    (if 2 ^ n dvd unat x then unat x else unat x - unat x mod 2 ^ n + 2 ^ n)"
proof (cases "2 ^ n dvd unat x")
  case True
  then show ?thesis
    by (simp add: ALIGN_UP_def IS_ALIGNED_pow2)
next
  case False
  have "unat (mask n :: 'a word) = 2 ^ n - 1"
    using n by (simp add: unat_mask)
  then have "unat (x + mask n) = unat x + (2 ^ n - 1)"
    using no_wrap by (simp add: unat_add_no_wrap)
  then have "unat (ALIGN_UP x (2 ^ n)) =
      (unat x + (2 ^ n - 1)) - (unat x + (2 ^ n - 1)) mod 2 ^ n"
    using False
    by (simp add: ALIGN_UP_def IS_ALIGNED_pow2 ALIGN_UP_MASK_def mask_eq_pow_minus_1
        unat_and_not_mask)
  with False show ?thesis
    using round_up_nat [of "2 ^ n" "unat x"] by simp
qed

lemma ALIGN_UP_pow2_props:
  fixes x :: "'a::len word"
  assumes "n < LENGTH('a)" "unat x + (2 ^ n - 1) < 2 ^ LENGTH('a)"
  shows "2 ^ n dvd unat (ALIGN_UP x (2 ^ n))"
    and "x \<le> ALIGN_UP x (2 ^ n)"
    and "unat (ALIGN_UP x (2 ^ n)) < unat x + 2 ^ n"
proof -
  have m: "unat x mod 2 ^ n < 2 ^ n" "unat x mod 2 ^ n \<le> unat x"
    by simp_all
  show "2 ^ n dvd unat (ALIGN_UP x (2 ^ n))"
    unfolding unat_ALIGN_UP_pow2 [OF assms] using dvd_minus_mod [of "2 ^ n" "unat x"]
    by (cases "2 ^ n dvd unat x") (simp_all only: if_True if_False dvd_add dvd_refl simp_thms)
  show "x \<le> ALIGN_UP x (2 ^ n)"
    unfolding word_le_nat_alt unat_ALIGN_UP_pow2 [OF assms] using m
    by (simp only: split: if_split) linarith
  show "unat (ALIGN_UP x (2 ^ n)) < unat x + 2 ^ n"
    unfolding unat_ALIGN_UP_pow2 [OF assms] using m
    by (auto simp: dvd_eq_mod_eq_0)
qed

lemma ALIGN_UP_aligned: "IS_ALIGNED x a \<Longrightarrow> ALIGN_UP x a = x"
  by (simp add: ALIGN_UP_def)

section \<open>Bit slices\<close>

lemma slice_mask: "push_bit n 1 - 1 = (mask n :: u64)"
  by (simp add: push_bit_eq_mult mask_eq_pow_minus_1)

lemma MASK_OFF_take_drop: "MASK_OFF v l s = take_bit (l + 1 - s) (drop_bit s v)"
  unfolding MASK_OFF_def slice_mask by (simp only: take_bit_eq_mask)

lemma MASK_OFF_less: "unat (MASK_OFF v l s) < 2 ^ (l + 1 - s)"
  by (simp only: MASK_OFF_def slice_mask unat_and_mask) simp

lemma MASK_OFF_MASK_IN:
  "s \<le> l \<Longrightarrow> l < 64 \<Longrightarrow> MASK_OFF (MASK_IN v l s) l s = take_bit (l + 1 - s) v"
  unfolding MASK_OFF_take_drop MASK_IN_def slice_mask
  by (rule bit_word_eqI) (auto simp: bit_simps)

section \<open>The integer logarithm\<close>

lemma clz_from_spec:
  "clz_from n x \<le> n \<and> (\<forall>i. n - clz_from n x \<le> i \<and> i < n \<longrightarrow> \<not> bit x i) \<and>
   (clz_from n x < n \<longrightarrow> bit x (n - clz_from n x - 1))"
  by (induction n) (auto simp: less_Suc_eq)

lemma ilog2_bounds:
  assumes "x \<noteq> 0"
  shows "\<exists>k. ilog2 x = int k \<and> k < 64 \<and> 2 ^ k \<le> unat x \<and> unat x < 2 ^ (k + 1)"
proof -
  define c where "c = clz_from 64 x"
  have spec: "c \<le> 64" "\<And>i. 64 - c \<le> i \<Longrightarrow> i < 64 \<Longrightarrow> \<not> bit x i" "c < 64 \<Longrightarrow> bit x (63 - c)"
    using clz_from_spec [of 64 x] by (auto simp: c_def)
  have "c \<noteq> 64"
  proof
    assume "c = 64"
    then have "x = 0"
      using spec(2) by (intro bit_word_eqI) simp
    with assms show False ..
  qed
  with spec(1) have c: "c < 64"
    by simp
  define k where "k = 63 - c"
  have "ilog2 x = int k"
    using c by (simp add: ilog2_def cntlzd_def BITS_PER_LONG_def c_def [symmetric] k_def)
  moreover have "2 ^ k \<le> unat x"
    using spec(3) [OF c] by (simp add: unat_ge_of_bit k_def)
  moreover have "unat x < 2 ^ (k + 1)"
    using c spec(2) by (intro unat_less_of_bits) (simp add: k_def)
  ultimately show ?thesis
    by (auto simp: k_def)
qed

lemma ilog2_pow2: "k < 64 \<Longrightarrow> ilog2 (2 ^ k) = int k"
proof -
  assume k: "k < 64"
  then have "unat (2 ^ k :: u64) = 2 ^ k" and nz: "(2 ^ k :: u64) \<noteq> 0"
    by (simp_all add: unat_pow2)
  with ilog2_bounds [OF nz] obtain j where
    "ilog2 (2 ^ k) = int j" "(2::nat) ^ j \<le> 2 ^ k" "(2::nat) ^ k < 2 ^ (j + 1)"
    by auto
  then show ?thesis
    by (simp add: power_increasing_iff power_strict_increasing_iff del: power_Suc)
qed

section \<open>Byte swaps\<close>

locale byte_swap =
  fixes to_be :: "'a::len word \<Rightarrow> 'a word" and from_be :: "'a word \<Rightarrow> 'a word"
  assumes from_to: "from_be (to_be x) = x"
    and to_from: "to_be (from_be x) = x"
begin

lemma to_be_inject: "to_be x = to_be y \<longleftrightarrow> x = y"
  by (metis from_to)

lemma from_be_inject: "from_be x = from_be y \<longleftrightarrow> x = y"
  by (metis to_from)

lemma to_be_eq_iff: "to_be x = y \<longleftrightarrow> x = from_be y"
  by (metis from_to to_from)

end

lemma byte_masks:
  "(0xff00 :: u16) = push_bit 8 (mask 8)" "(0x00ff :: u16) = mask 8"
  "(0xff000000 :: u32) = push_bit 24 (mask 8)" "(0x00ff0000 :: u32) = push_bit 16 (mask 8)"
  "(0x0000ff00 :: u32) = push_bit 8 (mask 8)" "(0x000000ff :: u32) = mask 8"
  "(0xff00000000000000 :: u64) = push_bit 56 (mask 8)"
  "(0x00ff000000000000 :: u64) = push_bit 48 (mask 8)"
  "(0x0000ff0000000000 :: u64) = push_bit 40 (mask 8)"
  "(0x000000ff00000000 :: u64) = push_bit 32 (mask 8)"
  "(0x00000000ff000000 :: u64) = push_bit 24 (mask 8)"
  "(0x0000000000ff0000 :: u64) = push_bit 16 (mask 8)"
  "(0x000000000000ff00 :: u64) = push_bit 8 (mask 8)"
  "(0x00000000000000ff :: u64) = mask 8"
  by (simp_all add: mask_eq_exp_minus_1 push_bit_eq_mult)

lemma swab16_bit:
  assumes "j < 2" "i < 8"
  shows "bit (swab16 x) (8 * j + i) \<longleftrightarrow> bit x (8 * (1 - j) + i)"
proof -
  have "j = 0 \<or> j = 1" using assms(1) by auto
  then show ?thesis
    unfolding swab16_def byte_masks using assms(2) by (elim disjE) (simp_all add: bit_simps)
qed
lemma swab32_bit:
  assumes "j < 4" "i < 8"
  shows "bit (swab32 x) (8 * j + i) \<longleftrightarrow> bit x (8 * (3 - j) + i)"
proof -
  have "j = 0 \<or> j = 1 \<or> j = 2 \<or> j = 3" using assms(1) by auto
  then show ?thesis
    unfolding swab32_def byte_masks using assms(2) by (elim disjE) (simp_all add: bit_simps)
qed
lemma swab64_bit:
  assumes "j < 8" "i < 8"
  shows "bit (swab64 x) (8 * j + i) \<longleftrightarrow> bit x (8 * (7 - j) + i)"
proof -
  have "j = 0 \<or> j = 1 \<or> j = 2 \<or> j = 3 \<or> j = 4 \<or> j = 5 \<or> j = 6 \<or> j = 7" using assms(1) by auto
  then show ?thesis
    unfolding swab64_def byte_masks using assms(2) by (elim disjE) (simp_all add: bit_simps)
qed

lemma swab16_swab16 [simp]: "swab16 (swab16 x) = x"
  by (rule word_bytesI [where k = 2]) (simp_all add: swab16_bit)

lemma swab32_swab32 [simp]: "swab32 (swab32 x) = x"
  by (rule word_bytesI [where k = 4]) (simp_all add: swab32_bit)

lemma swab64_swab64 [simp]: "swab64 (swab64 x) = x"
  by (rule word_bytesI [where k = 8]) (simp_all add: swab64_bit)

interpretation be16: byte_swap cpu_to_be16 be16_to_cpu
  by unfold_locales (simp_all add: cpu_to_be16_def be16_to_cpu_def)

interpretation be32: byte_swap cpu_to_be32 be32_to_cpu
  by unfold_locales (simp_all add: cpu_to_be32_def be32_to_cpu_def)

interpretation be64: byte_swap cpu_to_be64 be64_to_cpu
  by unfold_locales (simp_all add: cpu_to_be64_def be64_to_cpu_def)

declare be16.from_to [simp] be16.to_from [simp] be32.from_to [simp] be32.to_from [simp]
  be64.from_to [simp] be64.to_from [simp]

end
