(* ===== verification/Fdt.thy ===== *)
theory Fdt
  imports Cstring_Correct Defs
begin

text \<open>
  Flattened device trees: \<^verbatim>\<open>fdt.c\<close>, \<^verbatim>\<open>fdt_ro.c\<close> and the accessors of \<^verbatim>\<open>include/libfdt.h\<close> and
  \<^verbatim>\<open>include/libfdt_internal.h\<close>. The blob lies in memory at the address \<open>fdt\<close> and is read byte by byte.
  An \<^verbatim>\<open>int\<close> is a 32-bit word whose sign is read by \<open>neg32\<close> and \<open>sle32\<close>, so that the conversions
  between signed and unsigned offsets are those of the code. A string the code is only given to
  compare with is passed as the list of its bytes, a pair of a pointer and a length as the bytes it
  stands for; strings inside the blob are addresses. A pointer result is 0 for \<^verbatim>\<open>NULL\<close>. A function whose
  loop the blob may keep from ending is a partial function and \<open>None\<close> when it does not return.
\<close>

section \<open>Integers and the header\<close>

definition neg32 :: "u32 \<Rightarrow> bool" where
  "neg32 x \<longleftrightarrow> 0x80000000 \<le> x"

definition sle32 :: "u32 \<Rightarrow> u32 \<Rightarrow> bool" where
  "sle32 a b \<longleftrightarrow> a + 0x80000000 \<le> b + 0x80000000"

definition load64_le :: "u64 \<Rightarrow> mem \<Rightarrow> u64" where
  "load64_le a m = ucast (load32_le a m) OR push_bit 32 (ucast (load32_le (a + 4) m))"

definition fdt32 :: "mem \<Rightarrow> u64 \<Rightarrow> u32" where
  "fdt32 m p = be32_to_cpu (load32_le p m)"

definition fdt64 :: "mem \<Rightarrow> u64 \<Rightarrow> u64" where
  "fdt64 m p = be64_to_cpu (load64_le p m)"

definition FDT_MAGIC :: u32 where "FDT_MAGIC = 0xd00dfeed"
definition FDT_SW_MAGIC :: u32 where "FDT_SW_MAGIC = NOT FDT_MAGIC"
definition FDT_TAGSIZE :: u32 where "FDT_TAGSIZE = 4"
definition FDT_BEGIN_NODE :: u32 where "FDT_BEGIN_NODE = 1"
definition FDT_END_NODE :: u32 where "FDT_END_NODE = 2"
definition FDT_PROP :: u32 where "FDT_PROP = 3"
definition FDT_NOP :: u32 where "FDT_NOP = 4"
definition FDT_END :: u32 where "FDT_END = 9"

lemmas fdt_tags = FDT_BEGIN_NODE_def FDT_END_NODE_def FDT_PROP_def FDT_NOP_def FDT_END_def

lemma fdt_tags_distinct: "distinct [FDT_BEGIN_NODE, FDT_END_NODE, FDT_PROP, FDT_NOP, FDT_END]"
  by (simp add: fdt_tags)

lemma fdt_tags_noteq [simp]:
  "FDT_BEGIN_NODE \<noteq> FDT_END_NODE" "FDT_BEGIN_NODE \<noteq> FDT_PROP" "FDT_BEGIN_NODE \<noteq> FDT_NOP"
  "FDT_BEGIN_NODE \<noteq> FDT_END" "FDT_END_NODE \<noteq> FDT_BEGIN_NODE" "FDT_END_NODE \<noteq> FDT_PROP"
  "FDT_END_NODE \<noteq> FDT_NOP" "FDT_END_NODE \<noteq> FDT_END" "FDT_PROP \<noteq> FDT_BEGIN_NODE"
  "FDT_PROP \<noteq> FDT_END_NODE" "FDT_PROP \<noteq> FDT_NOP" "FDT_PROP \<noteq> FDT_END"
  "FDT_NOP \<noteq> FDT_BEGIN_NODE" "FDT_NOP \<noteq> FDT_END_NODE" "FDT_NOP \<noteq> FDT_PROP" "FDT_NOP \<noteq> FDT_END"
  "FDT_END \<noteq> FDT_BEGIN_NODE" "FDT_END \<noteq> FDT_END_NODE" "FDT_END \<noteq> FDT_PROP" "FDT_END \<noteq> FDT_NOP"
  using fdt_tags_distinct by auto

definition FDT_FIRST_SUPPORTED_VERSION :: u32 where "FDT_FIRST_SUPPORTED_VERSION = 0x10"
definition FDT_LAST_SUPPORTED_VERSION :: u32 where "FDT_LAST_SUPPORTED_VERSION = 0x11"

definition FDT_ERR_NOTFOUND :: u32 where "FDT_ERR_NOTFOUND = 1"
definition FDT_ERR_NOSPACE :: u32 where "FDT_ERR_NOSPACE = 3"
definition FDT_ERR_BADOFFSET :: u32 where "FDT_ERR_BADOFFSET = 4"
definition FDT_ERR_BADPATH :: u32 where "FDT_ERR_BADPATH = 5"
definition FDT_ERR_BADPHANDLE :: u32 where "FDT_ERR_BADPHANDLE = 6"
definition FDT_ERR_BADSTATE :: u32 where "FDT_ERR_BADSTATE = 7"
definition FDT_ERR_TRUNCATED :: u32 where "FDT_ERR_TRUNCATED = 8"
definition FDT_ERR_BADMAGIC :: u32 where "FDT_ERR_BADMAGIC = 9"
definition FDT_ERR_BADVERSION :: u32 where "FDT_ERR_BADVERSION = 10"
definition FDT_ERR_BADSTRUCTURE :: u32 where "FDT_ERR_BADSTRUCTURE = 11"
definition FDT_ERR_INTERNAL :: u32 where "FDT_ERR_INTERNAL = 13"

lemmas fdt_errs = FDT_ERR_NOTFOUND_def FDT_ERR_NOSPACE_def FDT_ERR_BADOFFSET_def FDT_ERR_BADPATH_def
  FDT_ERR_BADPHANDLE_def FDT_ERR_BADSTATE_def FDT_ERR_TRUNCATED_def FDT_ERR_BADMAGIC_def
  FDT_ERR_BADVERSION_def FDT_ERR_BADSTRUCTURE_def FDT_ERR_INTERNAL_def

definition fdt_magic :: "mem \<Rightarrow> u64 \<Rightarrow> u32" where "fdt_magic m fdt = fdt32 m fdt"
definition fdt_totalsize :: "mem \<Rightarrow> u64 \<Rightarrow> u32" where "fdt_totalsize m fdt = fdt32 m (fdt + 4)"
definition fdt_off_dt_struct :: "mem \<Rightarrow> u64 \<Rightarrow> u32" where "fdt_off_dt_struct m fdt = fdt32 m (fdt + 8)"
definition fdt_off_dt_strings :: "mem \<Rightarrow> u64 \<Rightarrow> u32" where "fdt_off_dt_strings m fdt = fdt32 m (fdt + 12)"
definition fdt_off_mem_rsvmap :: "mem \<Rightarrow> u64 \<Rightarrow> u32" where "fdt_off_mem_rsvmap m fdt = fdt32 m (fdt + 16)"
definition fdt_version :: "mem \<Rightarrow> u64 \<Rightarrow> u32" where "fdt_version m fdt = fdt32 m (fdt + 20)"
definition fdt_last_comp_version :: "mem \<Rightarrow> u64 \<Rightarrow> u32" where "fdt_last_comp_version m fdt = fdt32 m (fdt + 24)"
definition fdt_size_dt_struct :: "mem \<Rightarrow> u64 \<Rightarrow> u32" where "fdt_size_dt_struct m fdt = fdt32 m (fdt + 36)"

text \<open>The result is an error number negated, 0 for none.\<close>

definition fdt_check_header :: "mem \<Rightarrow> u64 \<Rightarrow> u32" where
  "fdt_check_header m fdt =
     (if fdt_magic m fdt = FDT_MAGIC then
        if fdt_version m fdt < FDT_FIRST_SUPPORTED_VERSION then - FDT_ERR_BADVERSION
        else if fdt_last_comp_version m fdt > FDT_LAST_SUPPORTED_VERSION then - FDT_ERR_BADVERSION
        else 0
      else if fdt_magic m fdt = FDT_SW_MAGIC then
        if fdt_size_dt_struct m fdt = 0 then - FDT_ERR_BADSTATE else 0
      else - FDT_ERR_BADMAGIC)"

section \<open>Offsets and tags\<close>

definition fdt_offset_ptr_raw :: "mem \<Rightarrow> u64 \<Rightarrow> u32 \<Rightarrow> u64" where
  "fdt_offset_ptr_raw m fdt offset = fdt + ucast (fdt_off_dt_struct m fdt) + scast offset"

definition fdt_offset_ptr :: "mem \<Rightarrow> u64 \<Rightarrow> u32 \<Rightarrow> u32 \<Rightarrow> u64" where
  "fdt_offset_ptr m fdt offset len =
     (if 0x11 \<le> fdt_version m fdt \<and> (offset + len < offset \<or> offset + len > fdt_size_dt_struct m fdt)
      then 0
      else let p = fdt_offset_ptr_raw m fdt offset in if p + ucast len < p then 0 else p)"

definition fdt_mem_rsv :: "mem \<Rightarrow> u64 \<Rightarrow> u32 \<Rightarrow> u64" where
  "fdt_mem_rsv m fdt n = fdt + ucast (fdt_off_mem_rsvmap m fdt) + 16 * scast n"

definition FDT_TAGALIGN :: "u32 \<Rightarrow> u32" where
  "FDT_TAGALIGN x = (x + 3) AND NOT 3"

text \<open>The loop over a node's name: whether it ended at a NUL, and the offset behind it.\<close>

partial_function (option) fdt_skip_name :: "mem \<Rightarrow> u64 \<Rightarrow> u32 \<Rightarrow> (bool \<times> u32) option" where
  "fdt_skip_name m fdt offset =
     (let p = fdt_offset_ptr m fdt offset 1
      in if p = 0 then Some (False, offset + 1)
         else if m p \<noteq> 0 then fdt_skip_name m fdt (offset + 1)
         else Some (True, offset + 1))"

text \<open>The \<^verbatim>\<open>switch\<close>: the offset behind the tag's data, \<open>Some None\<close> when it returns early.\<close>

definition fdt_tag_end :: "mem \<Rightarrow> u64 \<Rightarrow> u32 \<Rightarrow> u32 \<Rightarrow> u32 option option" where
  "fdt_tag_end m fdt tag offset =
     (if tag = FDT_BEGIN_NODE then
        Option.bind (fdt_skip_name m fdt offset) (\<lambda>(found, offset). Some (if found then Some offset else None))
      else if tag = FDT_PROP then
        (let lenp = fdt_offset_ptr m fdt offset 4
         in Some (if lenp = 0 then None else Some (offset + 8 + fdt32 m lenp)))
      else if tag = FDT_END \<or> tag = FDT_END_NODE \<or> tag = FDT_NOP then Some (Some offset)
      else Some None)"

text \<open>The tag and \<^verbatim>\<open>*nextoffset\<close>.\<close>

definition fdt_next_tag :: "mem \<Rightarrow> u64 \<Rightarrow> u32 \<Rightarrow> (u32 \<times> u32) option" where
  "fdt_next_tag m fdt startoffset =
     (let tagp = fdt_offset_ptr m fdt startoffset FDT_TAGSIZE
      in if tagp = 0 then Some (FDT_END, - FDT_ERR_TRUNCATED)
         else
           let tag = fdt32 m tagp
           in Option.bind (fdt_tag_end m fdt tag (startoffset + FDT_TAGSIZE)) (\<lambda>r.
              case r of None \<Rightarrow> Some (FDT_END, - FDT_ERR_BADSTRUCTURE)
              | Some offset \<Rightarrow>
                  if fdt_offset_ptr m fdt startoffset (offset - startoffset) = 0
                  then Some (FDT_END, - FDT_ERR_BADSTRUCTURE)
                  else Some (tag, FDT_TAGALIGN offset)))"

definition fdt_check_node_offset :: "mem \<Rightarrow> u64 \<Rightarrow> u32 \<Rightarrow> u32 option" where
  "fdt_check_node_offset m fdt offset =
     (if neg32 offset \<or> offset mod FDT_TAGSIZE \<noteq> 0 then Some (- FDT_ERR_BADOFFSET)
      else Option.bind (fdt_next_tag m fdt offset) (\<lambda>(tag, offset).
        Some (if tag \<noteq> FDT_BEGIN_NODE then - FDT_ERR_BADOFFSET else offset)))"

text \<open>\<open>depth\<close> is \<open>None\<close> for a null pointer; the result is the offset returned and \<^verbatim>\<open>*depth\<close>.\<close>

partial_function (option) fdt_next_node_loop ::
  "mem \<Rightarrow> u64 \<Rightarrow> u32 \<Rightarrow> u32 option \<Rightarrow> (u32 \<times> u32 option) option"
where
  "fdt_next_node_loop m fdt offset depth =
     Option.bind (fdt_next_tag m fdt offset) (\<lambda>(tag, nextoffset).
       if tag = FDT_BEGIN_NODE then Some (offset, map_option (\<lambda>d. d + 1) depth)
       else if tag = FDT_END_NODE then
         (case depth of None \<Rightarrow> fdt_next_node_loop m fdt nextoffset None
          | Some d \<Rightarrow> if neg32 (d - 1) then Some (nextoffset, Some (d - 1))
                      else fdt_next_node_loop m fdt nextoffset (Some (d - 1)))
       else if tag = FDT_END then
         Some (if \<not> neg32 nextoffset \<or> (nextoffset = - FDT_ERR_TRUNCATED \<and> depth = None)
               then - FDT_ERR_NOTFOUND else nextoffset, depth)
       else fdt_next_node_loop m fdt nextoffset depth)"

definition fdt_next_node :: "mem \<Rightarrow> u64 \<Rightarrow> u32 \<Rightarrow> u32 option \<Rightarrow> (u32 \<times> u32 option) option" where
  "fdt_next_node m fdt offset depth =
     (if neg32 offset then fdt_next_node_loop m fdt 0 depth
      else Option.bind (fdt_check_node_offset m fdt offset) (\<lambda>nextoffset.
        if neg32 nextoffset then Some (nextoffset, depth)
        else fdt_next_node_loop m fdt nextoffset depth))"

fun fdt_find_string_loop :: "nat \<Rightarrow> mem \<Rightarrow> u64 \<Rightarrow> u8 list \<Rightarrow> u64" where
  "fdt_find_string_loop 0 m p s = 0"
| "fdt_find_string_loop (Suc n) m p s =
     (if bytes m p (length s + 1) = s @ [0] then p else fdt_find_string_loop n m (p + 1) s)"

definition fdt_find_string :: "mem \<Rightarrow> u64 \<Rightarrow> u32 \<Rightarrow> u8 list \<Rightarrow> u64" where
  "fdt_find_string m strtab tabsize s =
     (let last = strtab + scast tabsize - of_nat (length s + 1)
      in if strtab \<le> last then fdt_find_string_loop (Suc (unat (last - strtab))) m strtab s else 0)"

definition fdt_move :: "u64 \<Rightarrow> u64 \<Rightarrow> u32 \<Rightarrow> mem \<Rightarrow> u32 \<times> mem" where
  "fdt_move fdt buf bufsize m =
     (if fdt_check_header m fdt \<noteq> 0 then (fdt_check_header m fdt, m)
      else if fdt_totalsize m fdt > bufsize then (- FDT_ERR_NOSPACE, m)
      else (0, memmove buf fdt (ucast (fdt_totalsize m fdt)) m))"

end
