(* ===== verification/Fdt_Ro.thy ===== *)
theory Fdt_Ro
  imports Fdt
begin

text \<open>
  The read-only functions of \<^verbatim>\<open>fdt_ro.c\<close>, in the order of the file but for the alias lookup, which the
  path lookup calls. A result parameter \<^verbatim>\<open>*lenp\<close> is part of the result, whether or not the caller
  passes a pointer for it.
\<close>

section \<open>Names and strings\<close>

definition fdt_nodename_eq :: "mem \<Rightarrow> u64 \<Rightarrow> u32 \<Rightarrow> u8 list \<Rightarrow> bool" where
  "fdt_nodename_eq m fdt offset s =
     (let p = fdt_offset_ptr m fdt (offset + FDT_TAGSIZE) (of_nat (length s) + 1);
          c = m (p + of_nat (length s))
      in if p = 0 then False
         else if bytes m p (length s) \<noteq> s then False
         else c = 0 \<or> (0x40 \<notin> set s \<and> c = 0x40))"

definition fdt_string :: "mem \<Rightarrow> u64 \<Rightarrow> u32 \<Rightarrow> u64" where
  "fdt_string m fdt stroffset = fdt + ucast (fdt_off_dt_strings m fdt) + scast stroffset"

definition fdt_string_eq :: "mem \<Rightarrow> u64 \<Rightarrow> u32 \<Rightarrow> u8 list \<Rightarrow> bool option" where
  "fdt_string_eq m fdt stroffset s =
     (let p = fdt_string m fdt stroffset
      in Option.bind (strlen m p) (\<lambda>n. Some (n = of_nat (length s) \<and> bytes m p (length s) = s)))"

text \<open>The NUL-terminated string at an address.\<close>

partial_function (option) read_cstr :: "mem \<Rightarrow> u64 \<Rightarrow> u8 list option" where
  "read_cstr m p = (if m p = 0 then Some [] else Option.bind (read_cstr m (p + 1)) (\<lambda>s. Some (m p # s)))"

section \<open>The reserve map\<close>

definition fdt_get_mem_rsv :: "mem \<Rightarrow> u64 \<Rightarrow> u32 \<Rightarrow> u32 \<times> u64 \<times> u64" where
  "fdt_get_mem_rsv m fdt n =
     (let err = fdt_check_header m fdt
      in if err \<noteq> 0 then (err, 0, 0)
         else (0, fdt64 m (fdt_mem_rsv m fdt n), fdt64 m (fdt_mem_rsv m fdt n + 8)))"

partial_function (option) fdt_num_mem_rsv_loop :: "mem \<Rightarrow> u64 \<Rightarrow> u32 \<Rightarrow> u32 option" where
  "fdt_num_mem_rsv_loop m fdt i =
     (if fdt64 m (fdt_mem_rsv m fdt i + 8) \<noteq> 0 then fdt_num_mem_rsv_loop m fdt (i + 1) else Some i)"

definition fdt_num_mem_rsv :: "mem \<Rightarrow> u64 \<Rightarrow> u32 option" where
  "fdt_num_mem_rsv m fdt = fdt_num_mem_rsv_loop m fdt 0"

section \<open>Children and siblings\<close>

text \<open>
  The loop of the four functions: it runs while the offset is not an error and the depth is at
  least \<open>low\<close>, and returns the first node at depth 1 that \<open>P\<close> accepts.
\<close>

partial_function (option) fdt_level_loop ::
  "mem \<Rightarrow> u64 \<Rightarrow> u32 \<Rightarrow> (u32 \<Rightarrow> bool) \<Rightarrow> u32 \<Rightarrow> u32 \<Rightarrow> u32 option"
where
  "fdt_level_loop m fdt low P offset depth =
     (if \<not> neg32 offset \<and> sle32 low depth then
        if depth = 1 \<and> P offset then Some offset
        else Option.bind (fdt_next_node m fdt offset (Some depth)) (\<lambda>(offset, depth).
          fdt_level_loop m fdt low P offset (the depth))
      else if neg32 depth then Some (- FDT_ERR_NOTFOUND)
      else Some offset)"

definition fdt_subnode :: "mem \<Rightarrow> u64 \<Rightarrow> u32 \<Rightarrow> u32 option" where
  "fdt_subnode m fdt offset =
     (if fdt_check_header m fdt \<noteq> 0 then Some (fdt_check_header m fdt)
      else fdt_level_loop m fdt 0 (\<lambda>_. True) offset 0)"

definition fdt_subnode_offset_namelen :: "mem \<Rightarrow> u64 \<Rightarrow> u32 \<Rightarrow> u8 list \<Rightarrow> u32 option" where
  "fdt_subnode_offset_namelen m fdt offset name =
     (if fdt_check_header m fdt \<noteq> 0 then Some (fdt_check_header m fdt)
      else fdt_level_loop m fdt 0 (\<lambda>offset. fdt_nodename_eq m fdt offset name) offset 0)"

definition fdt_sibling :: "mem \<Rightarrow> u64 \<Rightarrow> u32 \<Rightarrow> u32 option" where
  "fdt_sibling m fdt offset =
     (if fdt_check_header m fdt \<noteq> 0 then Some (fdt_check_header m fdt)
      else Option.bind (fdt_next_node m fdt offset (Some 1)) (\<lambda>(offset, depth).
        fdt_level_loop m fdt 1 (\<lambda>_. True) offset (the depth)))"

definition fdt_sibling_offset_namelen :: "mem \<Rightarrow> u64 \<Rightarrow> u32 \<Rightarrow> u8 list \<Rightarrow> u32 option" where
  "fdt_sibling_offset_namelen m fdt offset name =
     (if fdt_check_header m fdt \<noteq> 0 then Some (fdt_check_header m fdt)
      else Option.bind (fdt_next_node m fdt offset (Some 1)) (\<lambda>(offset, depth).
        fdt_level_loop m fdt 1 (\<lambda>offset. fdt_nodename_eq m fdt offset name) offset (the depth)))"

definition fdt_subnode_offset :: "mem \<Rightarrow> u64 \<Rightarrow> u32 \<Rightarrow> u8 list \<Rightarrow> u32 option" where
  "fdt_subnode_offset m fdt parentoffset name = fdt_subnode_offset_namelen m fdt parentoffset name"

definition fdt_sibling_offset :: "mem \<Rightarrow> u64 \<Rightarrow> u32 \<Rightarrow> u8 list \<Rightarrow> u32 option" where
  "fdt_sibling_offset m fdt offset name = fdt_sibling_offset_namelen m fdt offset name"

section \<open>Properties of a node\<close>

text \<open>The name's address and length; 0 and an error.\<close>

definition fdt_get_name :: "mem \<Rightarrow> u64 \<Rightarrow> u32 \<Rightarrow> (u64 \<times> u32) option" where
  "fdt_get_name m fdt nodeoffset =
     (let nh = fdt_offset_ptr_raw m fdt nodeoffset; err = fdt_check_header m fdt
      in if err \<noteq> 0 then Some (0, err)
         else Option.bind (fdt_check_node_offset m fdt nodeoffset) (\<lambda>err.
           if neg32 err then Some (0, err)
           else Option.bind (strlen m (nh + 4)) (\<lambda>n. Some (nh + 4, ucast n))))"

partial_function (option) fdt_get_property_loop ::
  "mem \<Rightarrow> u64 \<Rightarrow> u32 \<Rightarrow> u8 list \<Rightarrow> (u64 \<times> u32) option"
where
  "fdt_get_property_loop m fdt offset name =
     Option.bind (fdt_next_tag m fdt offset) (\<lambda>(tag, nextoffset).
       if tag = FDT_END then
         Some (0, if neg32 nextoffset then nextoffset else - FDT_ERR_BADSTRUCTURE)
       else if tag = FDT_PROP then
         (let prop = fdt_offset_ptr_raw m fdt offset
          in Option.bind (fdt_string_eq m fdt (fdt32 m (prop + 8)) name) (\<lambda>eq.
               if eq then Some (prop, fdt32 m (prop + 4))
               else fdt_get_property_loop m fdt nextoffset name))
       else if tag = FDT_BEGIN_NODE \<or> tag = FDT_END_NODE then Some (0, - FDT_ERR_NOTFOUND)
       else fdt_get_property_loop m fdt nextoffset name)"

definition fdt_get_property_namelen :: "mem \<Rightarrow> u64 \<Rightarrow> u32 \<Rightarrow> u8 list \<Rightarrow> (u64 \<times> u32) option" where
  "fdt_get_property_namelen m fdt nodeoffset name =
     (let err = fdt_check_header m fdt
      in if err \<noteq> 0 then Some (0, err)
         else Option.bind (fdt_check_node_offset m fdt nodeoffset) (\<lambda>err.
           if neg32 err then Some (0, err) else fdt_get_property_loop m fdt err name))"

definition fdt_get_property :: "mem \<Rightarrow> u64 \<Rightarrow> u32 \<Rightarrow> u8 list \<Rightarrow> (u64 \<times> u32) option" where
  "fdt_get_property m fdt nodeoffset name = fdt_get_property_namelen m fdt nodeoffset name"

definition fdt_getprop_namelen :: "mem \<Rightarrow> u64 \<Rightarrow> u32 \<Rightarrow> u8 list \<Rightarrow> (u64 \<times> u32) option" where
  "fdt_getprop_namelen m fdt nodeoffset name =
     Option.bind (fdt_get_property_namelen m fdt nodeoffset name) (\<lambda>(prop, len).
       Some (if prop = 0 then 0 else prop + 12, len))"

definition fdt_getprop :: "mem \<Rightarrow> u64 \<Rightarrow> u32 \<Rightarrow> u8 list \<Rightarrow> (u64 \<times> u32) option" where
  "fdt_getprop m fdt nodeoffset name = fdt_getprop_namelen m fdt nodeoffset name"

text \<open>The bytes of a string literal.\<close>

definition lit :: "string \<Rightarrow> u8 list" where
  "lit s = map (\<lambda>c. of_nat (of_char c)) s"

definition fdt_get_phandle :: "mem \<Rightarrow> u64 \<Rightarrow> u32 \<Rightarrow> u32 option" where
  "fdt_get_phandle m fdt nodeoffset =
     Option.bind (fdt_getprop m fdt nodeoffset (lit ''linux,phandle'')) (\<lambda>(php, len).
       Some (if php = 0 \<or> len \<noteq> 4 then 0 else fdt32 m php))"

section \<open>Paths\<close>

text \<open>The \<^verbatim>\<open>while\<close> loop over the components, on the offset and the rest of the path.\<close>

function fdt_path_walk :: "mem \<Rightarrow> u64 \<Rightarrow> u32 \<Rightarrow> u8 list \<Rightarrow> u32 option" where
  "fdt_path_walk m fdt offset p =
     (case dropWhile (\<lambda>c. c = 0x2f) p of [] \<Rightarrow> Some offset
      | c # cs \<Rightarrow>
          Option.bind (fdt_subnode_offset_namelen m fdt offset (takeWhile (\<lambda>c. c \<noteq> 0x2f) (c # cs))) (\<lambda>offset.
            if neg32 offset then Some offset
            else fdt_path_walk m fdt offset (dropWhile (\<lambda>c. c \<noteq> 0x2f) (c # cs))))"
  by pat_completeness auto
termination
proof (relation "measure (\<lambda>(_, _, _, p). length p)")
  fix p c :: "u8 list" and x xs
  fix m :: mem and fdt :: u64 and offset y :: u32
  assume a: "dropWhile (\<lambda>c. c = 0x2f) p = x # xs"
  then have "x \<noteq> 0x2f" by (metis (full_types) hd_dropWhile list.distinct(1) list.sel(1))
  then have "length (dropWhile (\<lambda>c. c \<noteq> 0x2f) (x # xs)) < length (x # xs)"
    using length_dropWhile_le[of "\<lambda>c. c \<noteq> 0x2f" xs] by simp
  also have "\<dots> \<le> length p" using length_dropWhile_le[of "\<lambda>c. c = 0x2f" p] a by simp
  finally show "((m, fdt, y, dropWhile (\<lambda>c. c \<noteq> 0x2f) (x # xs)), m, fdt, offset, p)
      \<in> measure (\<lambda>(_, _, _, p). length p)" by simp
qed simp

declare fdt_path_walk.simps [simp del]

text \<open>A path that starts with a slash.\<close>

definition fdt_path_abs :: "mem \<Rightarrow> u64 \<Rightarrow> u8 list \<Rightarrow> u32 option" where
  "fdt_path_abs m fdt path =
     (if fdt_check_header m fdt \<noteq> 0 then Some (fdt_check_header m fdt) else fdt_path_walk m fdt 0 path)"

definition fdt_get_alias_namelen :: "mem \<Rightarrow> u64 \<Rightarrow> u8 list \<Rightarrow> u64 option" where
  "fdt_get_alias_namelen m fdt name =
     Option.bind (fdt_path_abs m fdt (lit ''/aliases'')) (\<lambda>aliasoffset.
       if neg32 aliasoffset then Some 0
       else map_option fst (fdt_getprop_namelen m fdt aliasoffset name))"

definition fdt_get_alias :: "mem \<Rightarrow> u64 \<Rightarrow> u8 list \<Rightarrow> u64 option" where
  "fdt_get_alias m fdt name = fdt_get_alias_namelen m fdt name"

partial_function (option) fdt_path_offset :: "mem \<Rightarrow> u64 \<Rightarrow> u8 list \<Rightarrow> u32 option" where
  "fdt_path_offset m fdt path =
     (if fdt_check_header m fdt \<noteq> 0 then Some (fdt_check_header m fdt)
      else if path \<noteq> [] \<and> hd path = 0x2f then fdt_path_walk m fdt 0 path
      else Option.bind (fdt_get_alias_namelen m fdt (takeWhile (\<lambda>c. c \<noteq> 0x2f) path)) (\<lambda>p.
        if p = 0 then Some (- FDT_ERR_BADPATH)
        else Option.bind (read_cstr m p) (\<lambda>s.
          Option.bind (fdt_path_offset m fdt s) (\<lambda>offset.
            fdt_path_walk m fdt offset (dropWhile (\<lambda>c. c \<noteq> 0x2f) path)))))"

lemma fdt_path_offset_abs:
  "fdt_path_offset m fdt (0x2f # p) = fdt_path_abs m fdt (0x2f # p)"
  by (simp add: fdt_path_offset.simps fdt_path_abs_def)

section \<open>The path of a node\<close>

text \<open>Back over one component of the path in the buffer.\<close>

partial_function (option) fdt_path_back :: "mem \<Rightarrow> u64 \<Rightarrow> u32 \<Rightarrow> u32 option" where
  "fdt_path_back m buf p =
     (if m (buf + scast (p - 1 - 1)) \<noteq> 0x2f then fdt_path_back m buf (p - 1) else Some (p - 1))"

partial_function (option) fdt_path_pop :: "mem \<Rightarrow> u64 \<Rightarrow> u32 \<Rightarrow> u32 \<Rightarrow> u32 \<Rightarrow> (u32 \<times> u32) option" where
  "fdt_path_pop m buf depth p pdepth =
     (if \<not> sle32 pdepth depth then
        Option.bind (fdt_path_back m buf p) (\<lambda>p. fdt_path_pop m buf depth p (pdepth - 1))
      else Some (p, pdepth))"

text \<open>The name of the node is appended if it fits; \<open>Inl\<close> is the early return.\<close>

definition fdt_path_push ::
  "u64 \<Rightarrow> u32 \<Rightarrow> u64 \<Rightarrow> u32 \<Rightarrow> u32 \<Rightarrow> u32 \<Rightarrow> u32 \<Rightarrow> mem \<Rightarrow> (u32 + mem \<times> u32 \<times> u32) option"
where
  "fdt_path_push fdt offset buf buflen depth p pdepth m =
     (if sle32 depth pdepth then
        Option.bind (fdt_get_name m fdt offset) (\<lambda>(name, namelen).
          if name = 0 then Some (Inl namelen)
          else if sle32 (p + namelen + 1) buflen then
            (let m = memcpy (buf + scast p) name (scast namelen) m; p = p + namelen
             in Some (Inr (m(buf + scast p := 0x2f), p + 1, pdepth + 1)))
          else Some (Inr (m, p, pdepth)))
      else Some (Inr (m, p, pdepth)))"

text \<open>What the walks over all nodes return when they do not meet the node.\<close>

definition fdt_walk_err :: "u32 \<Rightarrow> u32" where
  "fdt_walk_err offset =
     (if offset = - FDT_ERR_NOTFOUND \<or> \<not> neg32 offset then - FDT_ERR_BADOFFSET
      else if offset = - FDT_ERR_BADOFFSET then - FDT_ERR_BADSTRUCTURE
      else offset)"

partial_function (option) fdt_get_path_loop ::
  "u64 \<Rightarrow> u32 \<Rightarrow> u64 \<Rightarrow> u32 \<Rightarrow> u32 \<Rightarrow> u32 \<Rightarrow> u32 \<Rightarrow> u32 \<Rightarrow> mem \<Rightarrow> (u32 \<times> mem) option"
where
  "fdt_get_path_loop fdt nodeoffset buf buflen offset depth p pdepth m =
     (if \<not> neg32 offset \<and> sle32 offset nodeoffset then
        Option.bind (fdt_path_pop m buf depth p pdepth) (\<lambda>(p, pdepth).
        Option.bind (fdt_path_push fdt offset buf buflen depth p pdepth m) (\<lambda>r.
          case r of Inl err \<Rightarrow> Some (err, m)
          | Inr (m, p, pdepth) \<Rightarrow>
              if offset = nodeoffset then
                if \<not> sle32 (depth + 1) pdepth then Some (- FDT_ERR_NOSPACE, m)
                else let p = (if \<not> sle32 p 1 then p - 1 else p) in Some (0, m(buf + scast p := 0))
              else Option.bind (fdt_next_node m fdt offset (Some depth)) (\<lambda>(offset, depth).
                fdt_get_path_loop fdt nodeoffset buf buflen offset (the depth) p pdepth m)))
      else Some (fdt_walk_err offset, m))"

definition fdt_get_path :: "u64 \<Rightarrow> u32 \<Rightarrow> u64 \<Rightarrow> u32 \<Rightarrow> mem \<Rightarrow> (u32 \<times> mem) option" where
  "fdt_get_path fdt nodeoffset buf buflen m =
     (if fdt_check_header m fdt \<noteq> 0 then Some (fdt_check_header m fdt, m)
      else if \<not> sle32 2 buflen then Some (- FDT_ERR_NOSPACE, m)
      else fdt_get_path_loop fdt nodeoffset buf buflen 0 0 0 0 m)"

section \<open>Depth and parent\<close>

text \<open>The result and \<^verbatim>\<open>*nodedepth\<close>, \<open>None\<close> where the code does not store it.\<close>

partial_function (option) fdt_supernode_loop ::
  "mem \<Rightarrow> u64 \<Rightarrow> u32 \<Rightarrow> u32 \<Rightarrow> u32 \<Rightarrow> u32 \<Rightarrow> u32 \<Rightarrow> (u32 \<times> u32 option) option"
where
  "fdt_supernode_loop m fdt nodeoffset supernodedepth offset depth supernodeoffset =
     (if \<not> neg32 offset \<and> sle32 offset nodeoffset then
        let supernodeoffset = (if depth = supernodedepth then offset else supernodeoffset)
        in if offset = nodeoffset then
             Some (if \<not> sle32 supernodedepth depth then - FDT_ERR_NOTFOUND else supernodeoffset, Some depth)
           else Option.bind (fdt_next_node m fdt offset (Some depth)) (\<lambda>(offset, depth).
             fdt_supernode_loop m fdt nodeoffset supernodedepth offset (the depth) supernodeoffset)
      else Some (fdt_walk_err offset, None))"

definition fdt_supernode_atdepth_offset :: "mem \<Rightarrow> u64 \<Rightarrow> u32 \<Rightarrow> u32 \<Rightarrow> (u32 \<times> u32 option) option" where
  "fdt_supernode_atdepth_offset m fdt nodeoffset supernodedepth =
     (if fdt_check_header m fdt \<noteq> 0 then Some (fdt_check_header m fdt, None)
      else if neg32 supernodedepth then Some (- FDT_ERR_NOTFOUND, None)
      else fdt_supernode_loop m fdt nodeoffset supernodedepth 0 0 (- FDT_ERR_INTERNAL))"

definition fdt_node_depth :: "mem \<Rightarrow> u64 \<Rightarrow> u32 \<Rightarrow> u32 option" where
  "fdt_node_depth m fdt nodeoffset =
     Option.bind (fdt_supernode_atdepth_offset m fdt nodeoffset 0) (\<lambda>(err, nodedepth).
       Some (if err \<noteq> 0 then (if neg32 err then err else - FDT_ERR_INTERNAL) else the nodedepth))"

definition fdt_parent_offset :: "mem \<Rightarrow> u64 \<Rightarrow> u32 \<Rightarrow> u32 option" where
  "fdt_parent_offset m fdt nodeoffset =
     Option.bind (fdt_node_depth m fdt nodeoffset) (\<lambda>nodedepth.
       if neg32 nodedepth then Some nodedepth
       else map_option fst (fdt_supernode_atdepth_offset m fdt nodeoffset (nodedepth - 1)))"

section \<open>Searches over all nodes\<close>

partial_function (option) fdt_by_prop_loop ::
  "mem \<Rightarrow> u64 \<Rightarrow> u32 \<Rightarrow> u8 list \<Rightarrow> u8 list \<Rightarrow> u32 option"
where
  "fdt_by_prop_loop m fdt offset propname propval =
     (if neg32 offset then Some offset
      else Option.bind (fdt_getprop m fdt offset propname) (\<lambda>(val, len).
        if val \<noteq> 0 \<and> len = of_nat (length propval) \<and> bytes m val (length propval) = propval then Some offset
        else Option.bind (fdt_next_node m fdt offset None) (\<lambda>(offset, _).
          fdt_by_prop_loop m fdt offset propname propval)))"

definition fdt_node_offset_by_prop_value ::
  "mem \<Rightarrow> u64 \<Rightarrow> u32 \<Rightarrow> u8 list \<Rightarrow> u8 list \<Rightarrow> u32 option"
where
  "fdt_node_offset_by_prop_value m fdt startoffset propname propval =
     (if fdt_check_header m fdt \<noteq> 0 then Some (fdt_check_header m fdt)
      else Option.bind (fdt_next_node m fdt startoffset None) (\<lambda>(offset, _).
        fdt_by_prop_loop m fdt offset propname propval))"

text \<open>The bytes of a 32-bit variable in memory.\<close>

definition bytes_le :: "u32 \<Rightarrow> u8 list" where
  "bytes_le v = [ucast v, ucast (drop_bit 8 v), ucast (drop_bit 16 v), ucast (drop_bit 24 v)]"

definition fdt_node_offset_by_phandle :: "mem \<Rightarrow> u64 \<Rightarrow> u32 \<Rightarrow> u32 option" where
  "fdt_node_offset_by_phandle m fdt phandle =
     (if phandle = 0 \<or> phandle = - 1 then Some (- FDT_ERR_BADPHANDLE)
      else fdt_node_offset_by_prop_value m fdt (- 1) (lit ''linux,phandle'') (bytes_le (cpu_to_be32 phandle)))"

partial_function (option) fdt_stringlist_contains :: "mem \<Rightarrow> u64 \<Rightarrow> u32 \<Rightarrow> u8 list \<Rightarrow> bool option" where
  "fdt_stringlist_contains m strlist listlen str =
     (if sle32 (of_nat (length str)) listlen then
        if bytes m strlist (length str + 1) = str @ [0] then Some True
        else let p = memchr m strlist 0 (scast listlen)
             in if p = 0 then Some False
                else fdt_stringlist_contains m (p + 1) (listlen - (ucast (p - strlist) + 1)) str
      else Some False)"

definition fdt_node_check_strlist :: "mem \<Rightarrow> u64 \<Rightarrow> u32 \<Rightarrow> u8 list \<Rightarrow> u8 list \<Rightarrow> u32 option" where
  "fdt_node_check_strlist m fdt nodeoffset propname str =
     Option.bind (fdt_getprop m fdt nodeoffset propname) (\<lambda>(prop, len).
       if prop = 0 then Some len
       else Option.bind (fdt_stringlist_contains m prop len str) (\<lambda>b. Some (if b then 0 else 1)))"

definition fdt_node_check_compatible :: "mem \<Rightarrow> u64 \<Rightarrow> u32 \<Rightarrow> u8 list \<Rightarrow> u32 option" where
  "fdt_node_check_compatible m fdt nodeoffset compatible =
     fdt_node_check_strlist m fdt nodeoffset (lit ''compatible'') compatible"

definition fdt_node_check_dtype :: "mem \<Rightarrow> u64 \<Rightarrow> u32 \<Rightarrow> u8 list \<Rightarrow> u32 option" where
  "fdt_node_check_dtype m fdt nodeoffset dtype =
     fdt_node_check_strlist m fdt nodeoffset (lit ''device_type'') dtype"

text \<open>The loop of the two searches below, on the check they make of a node.\<close>

partial_function (option) fdt_by_check_loop ::
  "mem \<Rightarrow> u64 \<Rightarrow> (u32 \<Rightarrow> u32 option) \<Rightarrow> u32 \<Rightarrow> u32 option"
where
  "fdt_by_check_loop m fdt check offset =
     (if neg32 offset then Some offset
      else Option.bind (check offset) (\<lambda>err.
        if neg32 err \<and> err \<noteq> - FDT_ERR_NOTFOUND then Some err
        else if err = 0 then Some offset
        else Option.bind (fdt_next_node m fdt offset None) (\<lambda>(offset, _).
          fdt_by_check_loop m fdt check offset)))"

definition fdt_node_offset_by_compatible :: "mem \<Rightarrow> u64 \<Rightarrow> u32 \<Rightarrow> u8 list \<Rightarrow> u32 option" where
  "fdt_node_offset_by_compatible m fdt startoffset compatible =
     (if fdt_check_header m fdt \<noteq> 0 then Some (fdt_check_header m fdt)
      else Option.bind (fdt_next_node m fdt startoffset None) (\<lambda>(offset, _).
        fdt_by_check_loop m fdt (\<lambda>offset. fdt_node_check_compatible m fdt offset compatible) offset))"

definition fdt_node_offset_by_dtype :: "mem \<Rightarrow> u64 \<Rightarrow> u32 \<Rightarrow> u8 list \<Rightarrow> u32 option" where
  "fdt_node_offset_by_dtype m fdt startoffset dtype =
     (if fdt_check_header m fdt \<noteq> 0 then Some (fdt_check_header m fdt)
      else Option.bind (fdt_next_node m fdt startoffset None) (\<lambda>(offset, _).
        fdt_by_check_loop m fdt (\<lambda>offset. fdt_node_check_dtype m fdt offset dtype) offset))"

end
