(* ===== verification/Fdt_Tok.thy ===== *)
theory Fdt_Tok
  imports Fdt_Ro
begin

text \<open>
  The structure block as a sequence of tokens, and what the tag and node iterators do on it.
  \<open>fdt_holds m fdt ts\<close> says that the blob at \<open>fdt\<close> has a valid header and that its structure block
  holds the tokens \<open>ts\<close>; what the bytes used for alignment hold does not matter.
\<close>

section \<open>Tokens\<close>

datatype tok = TBegin "u8 list" | TEnd | TProp u32 "u8 list" | TNop | TFin

definition pad4 :: "nat \<Rightarrow> nat" where
  "pad4 n = 4 * ((n + 3) div 4)"

fun tok_len :: "tok \<Rightarrow> nat" where
  "tok_len (TBegin s) = 4 + (length s + 1)"
| "tok_len (TProp _ d) = 12 + length d"
| "tok_len _ = 4"

definition tok_size :: "tok \<Rightarrow> nat" where
  "tok_size t = pad4 (tok_len t)"

fun tok_tag :: "tok \<Rightarrow> u32" where
  "tok_tag (TBegin _) = FDT_BEGIN_NODE"
| "tok_tag TEnd = FDT_END_NODE"
| "tok_tag (TProp _ _) = FDT_PROP"
| "tok_tag TNop = FDT_NOP"
| "tok_tag TFin = FDT_END"

fun tok_data :: "mem \<Rightarrow> u64 \<Rightarrow> tok \<Rightarrow> bool" where
  "tok_data m p (TBegin s) \<longleftrightarrow> cstr m (p + 4) s"
| "tok_data m p (TProp n d) \<longleftrightarrow>
     fdt32 m (p + 4) = of_nat (length d) \<and> fdt32 m (p + 8) = n \<and> bytes m (p + 12) (length d) = d"
| "tok_data m p _ \<longleftrightarrow> True"

definition tok_at :: "mem \<Rightarrow> u64 \<Rightarrow> tok \<Rightarrow> bool" where
  "tok_at m p t \<longleftrightarrow> fdt32 m p = tok_tag t \<and> tok_data m p t"

fun toks_at :: "mem \<Rightarrow> u64 \<Rightarrow> tok list \<Rightarrow> bool" where
  "toks_at m p [] \<longleftrightarrow> True"
| "toks_at m p (t # ts) \<longleftrightarrow> tok_at m p t \<and> toks_at m (p + of_nat (tok_size t)) ts"

definition toks_size :: "tok list \<Rightarrow> nat" where
  "toks_size ts = sum_list (map tok_size ts)"

definition fdt_base :: "mem \<Rightarrow> u64 \<Rightarrow> u64" where
  "fdt_base m fdt = fdt + ucast (fdt_off_dt_struct m fdt)"

definition fdt_holds :: "mem \<Rightarrow> u64 \<Rightarrow> tok list \<Rightarrow> bool" where
  "fdt_holds m fdt ts \<longleftrightarrow>
     fdt_check_header m fdt = 0 \<and> toks_at m (fdt_base m fdt) ts \<and>
     (0x11 \<le> fdt_version m fdt \<longrightarrow> toks_size ts \<le> unat (fdt_size_dt_struct m fdt)) \<and>
     toks_size ts < 2 ^ 31 \<and> 0 < unat (fdt_base m fdt) \<and> unat (fdt_base m fdt) + toks_size ts < 2 ^ 64"

lemma toks_size_simps [simp]:
  "toks_size [] = 0" "toks_size (t # ts) = tok_size t + toks_size ts"
  "toks_size (ts @ us) = toks_size ts + toks_size us"
  by (simp_all add: toks_size_def)

lemma toks_at_append: "toks_at m p (ts @ us) \<longleftrightarrow> toks_at m p ts \<and> toks_at m (p + of_nat (toks_size ts)) us"
  by (induction ts arbitrary: p) (simp_all add: add.assoc)

lemma pad4_ge: "n \<le> pad4 n" and pad4_dvd: "4 dvd pad4 n"
  by (auto simp: pad4_def)

lemma pad4_add: "4 dvd a \<Longrightarrow> pad4 (a + n) = a + pad4 n"
  unfolding pad4_def by presburger

lemma tok_len_4: "4 \<le> tok_len t"
  by (cases t) auto

lemma tok_size_dvd: "4 dvd tok_size t" and tok_size_ge: "tok_len t \<le> tok_size t"
  by (simp_all add: tok_size_def pad4_dvd pad4_ge)

lemma toks_size_dvd: "4 dvd toks_size ts"
  by (induction ts) (simp_all add: tok_size_dvd)

section \<open>Small offsets\<close>

lemma unat32_small: "n < 2 ^ 32 \<Longrightarrow> unat (of_nat n :: u32) = n"
  by (simp add: unat_of_nat)

lemma neg32_small: "n < 2 ^ 31 \<Longrightarrow> \<not> neg32 (of_nat n)"
  by (simp add: neg32_def word_le_nat_alt unat32_small)

lemma scast_small: "n < 2 ^ 31 \<Longrightarrow> scast (of_nat n :: u32) = (of_nat n :: u64)"
proof -
  assume n: "n < 2 ^ 31"
  have "sint (of_nat n :: u32) = int n"
    using n by (simp add: sint_uint uint_nat unat32_small signed_take_bit_int_eq_self)
  then show ?thesis by (simp add: scast_eq)
qed

lemma TAGALIGN_small: "n < 2 ^ 31 \<Longrightarrow> FDT_TAGALIGN (of_nat n) = of_nat (pad4 n)"
proof -
  assume n: "n < 2 ^ 31"
  have u: "unat (of_nat n + 3 :: u32) = n + 3" using n by (simp add: unat32_small[of "n + 3", simplified])
  have "unat ((of_nat n + 3 :: u32) AND NOT (mask 2)) = (n + 3) - (n + 3) mod 4"
    by (simp only: unat_and_not_mask u) simp
  moreover have "(n + 3) - (n + 3) mod 4 = pad4 n" unfolding pad4_def by presburger
  moreover have "mask 2 = (3 :: u32)" by (simp add: mask_eq_exp_minus_1)
  moreover have p: "pad4 n < 2 ^ 32" using n unfolding pad4_def by simp
  ultimately have "unat (FDT_TAGALIGN (of_nat n)) = pad4 n" by (simp add: FDT_TAGALIGN_def)
  then show ?thesis by (simp only: word_unat_eq_iff unat32_small[OF p])
qed

section \<open>The tag iterator\<close>

text \<open>Within the tokens, an offset check passes and gives the address.\<close>

lemma offset_ptr_holds:
  assumes "fdt_holds m fdt ts" "off + len \<le> toks_size ts"
  shows "fdt_offset_ptr m fdt (of_nat off) (of_nat len) = fdt_base m fdt + of_nat off"
    "unat (fdt_base m fdt + of_nat off) = unat (fdt_base m fdt) + off"
    "fdt_base m fdt + of_nat off \<noteq> 0"
proof -
  have s: "off < 2 ^ 31" "len < 2 ^ 31" "unat (fdt_base m fdt) + toks_size ts < 2 ^ 64"
    and b: "0 < unat (fdt_base m fdt)"
    and v: "0x11 \<le> fdt_version m fdt \<longrightarrow> toks_size ts \<le> unat (fdt_size_dt_struct m fdt)"
    using assms by (auto simp: fdt_holds_def)
  have u64: "unat (of_nat off :: u64) = off" "unat (of_nat len :: u64) = len"
    using s by (simp_all add: unat_of_nat_less)
  show p: "unat (fdt_base m fdt + of_nat off) = unat (fdt_base m fdt) + off"
    using s assms(2) u64 by (simp add: word_nat)
  then show "fdt_base m fdt + of_nat off \<noteq> 0" using b by (metis add_is_0 less_numeral_extra(3) unat_0)
  have "unat (fdt_base m fdt + of_nat off + of_nat len) = unat (fdt_base m fdt) + off + len"
    using s assms(2) u64 p by (simp add: word_nat)
  then have nw: "\<not> fdt_base m fdt + of_nat off + of_nat len < fdt_base m fdt + of_nat off"
    using p by (simp add: word_less_nat_alt)
  have "unat (of_nat off + of_nat len :: u32) = off + len"
    using s by (simp add: unat_of_nat flip: of_nat_add)
  then have r: "\<not> of_nat off + of_nat len < (of_nat off :: u32)"
    "0x11 \<le> fdt_version m fdt \<Longrightarrow> \<not> fdt_size_dt_struct m fdt < of_nat off + of_nat len"
    using s v assms(2) by (auto simp: word_less_nat_alt unat32_small)
  have "ucast (of_nat len :: u32) = (of_nat len :: u64)"
    using s by (simp add: word_unat_eq_iff unsigned_ucast_eq unat32_small u64 take_bit_nat_eq_self)
  then show "fdt_offset_ptr m fdt (of_nat off) (of_nat len) = fdt_base m fdt + of_nat off"
    using r nw s(1) by (auto simp: fdt_offset_ptr_def fdt_offset_ptr_raw_def Let_def scast_small simp flip: fdt_base_def)
qed

lemma skip_name_holds:
  assumes "fdt_holds m fdt ts" "cstr m (fdt_base m fdt + of_nat off) s" "off + length s + 1 \<le> toks_size ts"
  shows "fdt_skip_name m fdt (of_nat off) = Some (True, of_nat (off + length s + 1))"
  using assms(2,3)
proof (induction s arbitrary: off)
  case Nil
  then show ?case
    using offset_ptr_holds[OF assms(1), of off 1] by (simp add: fdt_skip_name.simps add.commute)
next
  case (Cons c s)
  have "cstr m (fdt_base m fdt + of_nat (off + 1)) s" using Cons.prems(1) by (simp add: algebra_simps)
  from Cons.IH[OF this] have "fdt_skip_name m fdt (of_nat off + 1) = Some (True, of_nat (off + length (c # s) + 1))"
    using Cons.prems(2) by (simp add: algebra_simps)
  then show ?case
    using offset_ptr_holds[OF assms(1), of off 1] Cons.prems by (subst fdt_skip_name.simps) simp
qed

lemma next_tag_holds:
  assumes h: "fdt_holds m fdt (xs @ t # ys)"
  shows "fdt_next_tag m fdt (of_nat (toks_size xs)) = Some (tok_tag t, of_nat (toks_size xs + tok_size t))"
proof -
  let ?o = "toks_size xs" and ?n = "toks_size (xs @ t # ys)"
  let ?p = "fdt_base m fdt + of_nat ?o"
  have at: "fdt32 m ?p = tok_tag t" "tok_data m ?p t" and n: "?n < 2 ^ 31"
    using h by (auto simp: fdt_holds_def toks_at_append tok_at_def)
  have le: "?o + tok_len t \<le> ?n" using tok_size_ge[of t] by simp
  then have le4: "?o + 4 \<le> ?n" using tok_len_4[of t] by simp
  have e: "fdt_tag_end m fdt (tok_tag t) (of_nat (?o + 4)) = Some (Some (of_nat (?o + tok_len t)))"
  proof (cases t)
    case (TBegin s)
    have "cstr m (fdt_base m fdt + of_nat (?o + 4)) s" using at(2) TBegin by (simp add: algebra_simps)
    from skip_name_holds[OF h this] show ?thesis using TBegin le by (simp add: fdt_tag_end_def add.assoc add.commute)
  next
    case (TProp no d)
    have "?o + 4 + 4 \<le> ?n" using le TProp by simp
    from offset_ptr_holds[OF h this] have "fdt_offset_ptr m fdt (of_nat (?o + 4)) 4 = fdt_base m fdt + of_nat (?o + 4)"
      "fdt_base m fdt + of_nat (?o + 4) \<noteq> 0" by simp_all
    moreover have "fdt32 m (fdt_base m fdt + of_nat (?o + 4)) = of_nat (length d)"
      using at(2) TProp by (simp add: algebra_simps)
    ultimately show ?thesis using TProp by (simp add: fdt_tag_end_def Let_def add.commute)
  qed (simp_all add: fdt_tag_end_def add.commute)
  have o: "fdt_offset_ptr m fdt (of_nat ?o) (of_nat (?o + tok_len t) - of_nat ?o) \<noteq> 0"
    using offset_ptr_holds[OF h le] by simp
  have a: "FDT_TAGALIGN (of_nat (?o + tok_len t)) = of_nat (?o + tok_size t)"
  proof -
    have "pad4 (?o + tok_len t) = ?o + tok_size t"
      by (simp add: tok_size_def pad4_add toks_size_dvd)
    then show ?thesis using TAGALIGN_small[of "?o + tok_len t"] le n by simp
  qed
  show ?thesis
    using offset_ptr_holds[OF h le4] at(1) e o a
    by (simp add: fdt_next_tag_def FDT_TAGSIZE_def Let_def add.commute)
qed

end
