(* ===== verification/Fdt_Tree.thy ===== *)
theory Fdt_Tree
  imports Fdt_Tok
begin

text \<open>
  Device trees and their encoding as tokens, and what the queries of \<^verbatim>\<open>fdt_ro.c\<close> answer on a blob
  that holds a tree: the children and siblings they find are those of the tree, a path leads to the
  node it names, a property lookup returns the value the node has.
\<close>

section \<open>Node iteration over tokens\<close>

lemma check_node_holds:
  assumes h: "fdt_holds m fdt (xs @ TBegin s # ys)"
  shows "fdt_check_node_offset m fdt (of_nat (toks_size xs)) = Some (of_nat (toks_size xs + tok_size (TBegin s)))"
proof -
  have l: "toks_size xs < 2 ^ 31" using h by (simp add: fdt_holds_def)
  have "unat (of_nat (toks_size xs) mod FDT_TAGSIZE :: u32) = toks_size xs mod 4"
    using l by (simp add: FDT_TAGSIZE_def unat_mod unat32_small)
  then have "of_nat (toks_size xs) mod FDT_TAGSIZE = (0 :: u32)"
    using toks_size_dvd[of xs] by (simp add: word_unat_eq_iff dvd_eq_mod_eq_0)
  then show ?thesis
    using next_tag_holds[OF h] neg32_small[OF l] by (simp add: fdt_check_node_offset_def)
qed

text \<open>
  The search for a node one level below, over the tokens that follow: \<open>off\<close> is the offset and \<open>d\<close>
  the depth reached.
\<close>

fun level_find :: "(u32 \<Rightarrow> bool) \<Rightarrow> nat \<Rightarrow> nat \<Rightarrow> tok list \<Rightarrow> nat option" where
  "level_find P off d [] = None"
| "level_find P off d (TBegin s # ts) =
     (if d = 0 \<and> P (of_nat off) then Some off else level_find P (off + tok_size (TBegin s)) (d + 1) ts)"
| "level_find P off d (TEnd # ts) = (if d = 0 then None else level_find P (off + tok_size TEnd) (d - 1) ts)"
| "level_find P off d (TFin # ts) = None"
| "level_find P off d (t # ts) = level_find P (off + tok_size t) d ts"

definition found :: "nat option \<Rightarrow> u32" where
  "found r = (case r of None \<Rightarrow> - FDT_ERR_NOTFOUND | Some off \<Rightarrow> of_nat off)"

definition level_from :: "mem \<Rightarrow> u64 \<Rightarrow> u32 \<Rightarrow> (u32 \<Rightarrow> bool) \<Rightarrow> u32 \<Rightarrow> u32 \<Rightarrow> u32 option" where
  "level_from m fdt low P off d =
     Option.bind (fdt_next_node_loop m fdt off (Some d)) (\<lambda>(offset, depth).
       fdt_level_loop m fdt low P offset (the depth))"

lemma neg32_err: "neg32 (- FDT_ERR_NOTFOUND)" "neg32 (- 1)"
  by (simp_all add: neg32_def FDT_ERR_NOTFOUND_def)

lemma sle32_small: "a < 2 ^ 31 \<Longrightarrow> b < 2 ^ 31 \<Longrightarrow> sle32 (of_nat a) (of_nat b) \<longleftrightarrow> a \<le> b"
proof -
  assume a: "a < 2 ^ 31" "b < 2 ^ 31"
  have "unat (of_nat n + 0x80000000 :: u32) = n + 2 ^ 31" if "n < 2 ^ 31" for n
    using unat32_small[of "n + 2 ^ 31"] that by simp
  then show ?thesis using a by (simp add: sle32_def word_le_nat_alt)
qed

lemma of_nat_eq_small: "a < 2 ^ 31 \<Longrightarrow> b < 2 ^ 31 \<Longrightarrow> (of_nat a :: u32) = of_nat b \<longleftrightarrow> a = b"
  by (simp add: word_unat_eq_iff unat32_small)

text \<open>The step at the tag that begins a node: the node is taken, or the walk goes on below it.\<close>

lemma level_loop_begin:
  assumes h: "fdt_holds m fdt (xs @ TBegin s # ts)" and low: "low = 0 \<or> low = 1" and d: "Suc d < 2 ^ 31"
    and below: "level_from m fdt low P (of_nat (toks_size (xs @ [TBegin s]))) (of_nat (Suc d)) =
      Some (found (level_find P (toks_size (xs @ [TBegin s])) (Suc d) ts))"
  shows "fdt_level_loop m fdt low P (of_nat (toks_size xs)) (of_nat (Suc d)) =
    Some (found (level_find P (toks_size xs) d (TBegin s # ts)))"
proof -
  let ?o = "toks_size xs" and ?o' = "toks_size (xs @ [TBegin s])"
  have small: "?o' < 2 ^ 31" "?o < 2 ^ 31" using h by (simp_all add: fdt_holds_def)
  have l: "sle32 low (of_nat (Suc d))"
    using low d sle32_small[of 0 "Suc d"] sle32_small[of 1 "Suc d"] by auto
  have one: "(of_nat (Suc d) :: u32) = 1 \<longleftrightarrow> d = 0" using of_nat_eq_small[of "Suc d" 1] d by simp
  show ?thesis
  proof (cases "d = 0 \<and> P (of_nat ?o)")
    case True
    then show ?thesis
      using l one neg32_small[OF small(2)] by (subst fdt_level_loop.simps) (simp add: found_def)
  next
    case False
    have "Option.bind (fdt_next_node m fdt (of_nat ?o) (Some (of_nat (Suc d))))
        (\<lambda>(offset, depth). fdt_level_loop m fdt low P offset (the depth)) =
      level_from m fdt low P (of_nat ?o') (of_nat (Suc d))"
      using check_node_holds[of m fdt xs s ts] h neg32_small[OF small(1)] neg32_small[OF small(2)]
      by (simp add: fdt_next_node_def level_from_def)
    then show ?thesis
      using l one neg32_small[OF small(2)] False below by (subst fdt_level_loop.simps) auto
  qed
qed

lemma level_from_holds:
  assumes "fdt_holds m fdt (xs @ ts)" "TFin \<in> set ts" "low = 0 \<or> low = 1" "d + length ts < 2 ^ 31"
  shows "level_from m fdt low P (of_nat (toks_size xs)) (of_nat d) = Some (found (level_find P (toks_size xs) d ts))"
  using assms
proof (induction ts arbitrary: xs d)
  case (Cons t ts)
  let ?o = "toks_size xs" and ?o' = "toks_size (xs @ [t])"
  have h: "fdt_holds m fdt (xs @ t # ts)" by fact
  have tag: "fdt_next_tag m fdt (of_nat ?o) = Some (tok_tag t, of_nat ?o')"
    using next_tag_holds[OF h] by simp
  have small: "?o' < 2 ^ 31" using h by (simp add: fdt_holds_def)
  have IH: "level_from m fdt low P (of_nat ?o') (of_nat e) = Some (found (level_find P ?o' e ts))"
    if "t \<noteq> TFin" "e \<le> Suc d" for e
    using Cons.IH[of "xs @ [t]" e] Cons.prems that by simp
  note loop = fdt_next_node_loop.simps[of m fdt "of_nat ?o" "Some (of_nat d)"]
  show ?case
  proof (cases t)
    case (TBegin s)
    have "level_from m fdt low P (of_nat ?o) (of_nat d) = fdt_level_loop m fdt low P (of_nat ?o) (of_nat (Suc d))"
      unfolding level_from_def loop using tag TBegin by (simp add: add.commute)
    then show ?thesis
      using level_loop_begin[OF h[unfolded TBegin] Cons.prems(3)] IH[of "Suc d"] Cons.prems(4) TBegin by simp
  next
    case TEnd
    show ?thesis
    proof (cases d)
      case 0
      have "\<not> sle32 low (- 1)" using Cons.prems(3) by (auto simp: sle32_def)
      then show ?thesis
        unfolding level_from_def loop
        using tag TEnd 0 neg32_err by (simp add: found_def fdt_level_loop.simps)
    next
      case (Suc e)
      have "\<not> neg32 (of_nat e)" using Cons.prems(4) Suc by (intro neg32_small) simp
      then have "level_from m fdt low P (of_nat ?o) (of_nat d) = level_from m fdt low P (of_nat ?o') (of_nat e)"
        unfolding level_from_def loop using tag TEnd Suc by simp
      then show ?thesis using IH[of e] TEnd Suc by simp
    qed
  next
    case TFin
    have "\<not> neg32 (of_nat d)" using Cons.prems(4) by (intro neg32_small) simp
    then show ?thesis
      unfolding level_from_def loop
      using tag TFin neg32_err neg32_small[OF small] by (simp add: found_def fdt_level_loop.simps)
  qed (unfold level_from_def loop, use tag IH[of d] in \<open>simp_all add: level_from_def\<close>)
qed simp

section \<open>Trees\<close>

datatype dt = Dt (dt_name: "u8 list") (dt_props: "(u32 \<times> u8 list) list") (dt_kids: "dt list")

definition prop_toks :: "(u32 \<times> u8 list) list \<Rightarrow> tok list" where
  "prop_toks ps = map (\<lambda>(n, d). TProp n d) ps"

fun dt_toks :: "dt \<Rightarrow> tok list" where
  "dt_toks (Dt s ps cs) = TBegin s # prop_toks ps @ concat (map dt_toks cs) @ [TEnd]"

text \<open>Where the children of a node at offset \<open>off\<close> begin, and the first child a test accepts.\<close>

fun kids_off :: "nat \<Rightarrow> dt \<Rightarrow> nat" where
  "kids_off off (Dt s ps cs) = off + tok_size (TBegin s) + toks_size (prop_toks ps)"

fun kid_find :: "(nat \<Rightarrow> dt \<Rightarrow> bool) \<Rightarrow> nat \<Rightarrow> dt list \<Rightarrow> (nat \<times> dt) option" where
  "kid_find Q off [] = None"
| "kid_find Q off (c # cs) = (if Q off c then Some (off, c) else kid_find Q (off + toks_size (dt_toks c)) cs)"

inductive node_at :: "dt \<Rightarrow> nat \<Rightarrow> dt \<Rightarrow> bool" for t where
  root: "node_at t 0 t"
| kid: "node_at t off n \<Longrightarrow> dt_kids n = as @ c # bs \<Longrightarrow>
     node_at t (kids_off off n + toks_size (concat (map dt_toks as))) c"

lemma level_find_props:
  "level_find P off d (prop_toks ps @ rest) = level_find P (off + toks_size (prop_toks ps)) d rest"
  by (induction ps arbitrary: off) (auto simp: prop_toks_def add.assoc)

text \<open>A search that stands below the wanted level passes a whole subtree.\<close>

lemma level_find_deep:
  "level_find P off (Suc d) (dt_toks t @ rest) = level_find P (off + toks_size (dt_toks t)) (Suc d) rest"
proof (induction t arbitrary: off d rest)
  case (Dt s ps cs)
  have kids: "level_find P off (Suc d) (concat (map dt_toks ks) @ rest) =
      level_find P (off + toks_size (concat (map dt_toks ks))) (Suc d) rest"
    if "set ks \<subseteq> set cs" for ks off d rest
    using that by (induction ks arbitrary: off) (simp_all add: Dt.IH add.assoc)
  show ?case by (simp add: level_find_props kids add.assoc)
qed

lemma level_find_kids:
  "level_find P off 0 (concat (map dt_toks cs) @ TEnd # rest) =
     map_option fst (kid_find (\<lambda>off _. P (of_nat off)) off cs)"
proof (induction cs arbitrary: off)
  case (Cons c cs)
  obtain s ps ks where c: "c = Dt s ps ks" by (cases c)
  have deep: "level_find P off (Suc 0) (concat (map dt_toks ks) @ rest) =
      level_find P (off + toks_size (concat (map dt_toks ks))) (Suc 0) rest" for ks off rest
    by (induction ks arbitrary: off) (simp_all add: level_find_deep add.assoc)
  show ?case
    using Cons.IH[of "off + toks_size (dt_toks c)"]
    by (simp add: c level_find_props deep add.assoc)
qed simp

text \<open>A node of the tree is a contiguous part of its tokens.\<close>

lemma node_at_toks:
  "node_at t off n \<Longrightarrow> \<exists>xs ys. dt_toks t = xs @ dt_toks n @ ys \<and> toks_size xs = off"
proof (induction rule: node_at.induct)
  case root
  show ?case by (intro exI[of _ "[]"]) simp
next
  case (kid off n as c bs)
  obtain xs ys where e: "dt_toks t = xs @ dt_toks n @ ys" "toks_size xs = off" using kid.IH by blast
  obtain s ps cs where n: "n = Dt s ps cs" by (cases n)
  have "dt_toks t = (xs @ TBegin s # prop_toks ps @ concat (map dt_toks as)) @ dt_toks c @
      (concat (map dt_toks bs) @ [TEnd] @ ys)"
    using kid.hyps(2) by (simp add: e(1) n)
  then show ?case
    by (intro exI conjI, assumption) (simp add: n e(2) add.assoc)
qed

lemma node_at_name: "node_at t off n \<Longrightarrow> fdt_holds m fdt (dt_toks t @ [TFin]) \<Longrightarrow>
   cstr m (fdt_base m fdt + of_nat off + 4) (dt_name n) \<and> off + 4 + length (dt_name n) + 1 \<le> toks_size (dt_toks t)"
proof -
  assume a: "node_at t off n" "fdt_holds m fdt (dt_toks t @ [TFin])"
  obtain xs ys where e: "dt_toks t = xs @ dt_toks n @ ys" "toks_size xs = off" using node_at_toks[OF a(1)] by blast
  obtain s ps cs where n: "n = Dt s ps cs" by (cases n)
  have "tok_at m (fdt_base m fdt + of_nat off) (TBegin s)"
    using a(2) e n by (auto simp: fdt_holds_def toks_at_append)
  moreover have "4 + length s + 1 \<le> tok_size (TBegin s)" using tok_size_ge[of "TBegin s"] by simp
  ultimately show ?thesis using e n by (auto simp: tok_at_def)
qed

section \<open>Children and siblings\<close>

text \<open>Whether a component of a path names a node: exactly, or up to the unit address.\<close>

definition name_matches :: "u8 list \<Rightarrow> u8 list \<Rightarrow> bool" where
  "name_matches s n \<longleftrightarrow> n = s \<or> (0x40 \<notin> set s \<and> take (length s + 1) n = s @ [0x40])"

lemma bytes_nth: "i < n \<Longrightarrow> bytes m p n ! i = m (p + of_nat i)"
  by (simp add: bytes_def)

lemma bytes_append: "bytes m p (a + b) = bytes m p a @ bytes m (p + of_nat a) b"
  by (induction a arbitrary: p) (simp_all add: add.assoc)

lemma name_matches_nth:
  assumes "length s \<le> length n" "0 \<notin> set n"
  shows "name_matches s n \<longleftrightarrow> take (length s) n = s \<and>
    ((n @ [0]) ! length s = 0 \<or> (0x40 \<notin> set s \<and> (n @ [0]) ! length s = 0x40))"
proof (cases "length s = length n")
  case True
  then show ?thesis by (auto simp: name_matches_def)
next
  case False
  then have l: "length s < length n" using assms(1) by simp
  then have "n ! length s \<noteq> 0" using assms(2) by (metis nth_mem)
  then show ?thesis using l by (auto simp: name_matches_def nth_append take_Suc_conv_app_nth)
qed

lemma nodename_eq_holds:
  assumes h: "fdt_holds m fdt (dt_toks t @ [TFin])" and n: "node_at t off n"
    and s: "0 \<notin> set s" "length s < 2 ^ 31"
  shows "fdt_nodename_eq m fdt (of_nat off) s \<longleftrightarrow> name_matches s (dt_name n)"
proof -
  let ?p = "fdt_base m fdt + of_nat off + 4"
  have c: "cstr m ?p (dt_name n)" and len: "off + 4 + length (dt_name n) + 1 \<le> toks_size (dt_toks t)"
    using node_at_name[OF n h] by simp_all
  have all: "bytes m ?p (length (dt_name n) + 1) = dt_name n @ [0]" "0 \<notin> set (dt_name n)"
    using c by (simp_all add: cstr_bytes)
  show ?thesis
  proof (cases "length s \<le> length (dt_name n)")
    case True
    have "fdt_offset_ptr m fdt (of_nat off + 4) (of_nat (length s) + 1) = ?p" "?p \<noteq> 0"
      using offset_ptr_holds[OF h, of "off + 4" "length s + 1"] len True by (simp_all add: algebra_simps)
    moreover have "bytes m ?p (length s) = take (length s) (dt_name n)"
      by (rule cstr_bytes_prefix[OF c True])
    moreover have "m (?p + of_nat (length s)) = (dt_name n @ [0]) ! length s"
      using bytes_nth[of "length s" "length (dt_name n) + 1" m ?p] True all(1) by simp
    ultimately show ?thesis
      using name_matches_nth[OF True all(2)] by (simp add: fdt_nodename_eq_def Let_def FDT_TAGSIZE_def)
  next
    case False
    have "\<not> name_matches s (dt_name n)" using False by (auto simp: name_matches_def dest!: arg_cong[of _ _ length])
    moreover have "bytes m ?p (length s) \<noteq> s"
    proof
      assume b: "bytes m ?p (length s) = s"
      have "bytes m ?p (length s) ! length (dt_name n) = (bytes m ?p (length (dt_name n) + 1)) ! length (dt_name n)"
        using False by (simp add: bytes_nth del: bytes_Suc)
      then have "s ! length (dt_name n) = 0" using b all(1) by simp
      then show False using s(1) False by (metis not_le nth_mem)
    qed
    moreover have "fdt_offset_ptr m fdt (of_nat off + 4) (of_nat (length s) + 1) \<in> {0, ?p}"
    proof -
      have "off + 4 < 2 ^ 31" using len h by (simp add: fdt_holds_def)
      then have "fdt_offset_ptr_raw m fdt (of_nat off + 4) = ?p"
        using scast_small[of "off + 4"] by (simp add: fdt_offset_ptr_raw_def fdt_base_def add.assoc)
      then show ?thesis by (simp add: fdt_offset_ptr_def Let_def)
    qed
    ultimately show ?thesis by (auto simp: fdt_nodename_eq_def Let_def FDT_TAGSIZE_def)
  qed
qed


lemma kid_find_cong:
  "(\<And>as c bs. cs = as @ c # bs \<Longrightarrow> Q (off + toks_size (concat (map dt_toks as))) c =
      R (off + toks_size (concat (map dt_toks as))) c) \<Longrightarrow> kid_find Q off cs = kid_find R off cs"
proof (induction cs arbitrary: off)
  case (Cons c cs)
  have "Q off c = R off c" using Cons.prems[of "[]" c cs] by simp
  moreover have "kid_find Q (off + toks_size (dt_toks c)) cs = kid_find R (off + toks_size (dt_toks c)) cs"
    using Cons.prems[of "c # _"] by (intro Cons.IH) (simp add: add.assoc)
  ultimately show ?case by simp
qed simp

text \<open>The tokens of a node in a blob, with what follows.\<close>

lemma node_at_blob:
  assumes "fdt_holds m fdt (dt_toks t @ [TFin])" "node_at t off (Dt s ps cs)"
  obtains xs ys where "fdt_holds m fdt (xs @ TBegin s # prop_toks ps @ concat (map dt_toks cs) @ TEnd # ys)"
    "toks_size xs = off" "TFin \<in> set ys" "dt_toks t @ [TFin] = xs @ TBegin s # prop_toks ps @ concat (map dt_toks cs) @ TEnd # ys"
proof -
  obtain xs ys where e: "dt_toks t = xs @ dt_toks (Dt s ps cs) @ ys" "toks_size xs = off"
    using node_at_toks[OF assms(2)] by blast
  have "dt_toks t @ [TFin] = xs @ TBegin s # prop_toks ps @ concat (map dt_toks cs) @ TEnd # (ys @ [TFin])"
    by (simp add: e(1))
  then show thesis using that[of xs "ys @ [TFin]"] assms(1) e(2) by simp
qed

text \<open>No blob has more tokens than bytes.\<close>

lemma length_toks: "length ts \<le> toks_size ts"
proof (induction ts)
  case (Cons t ts)
  then show ?case using tok_size_ge[of t] tok_len_4[of t] by simp
qed simp

lemma fdt_holds_header: "fdt_holds m fdt ts \<Longrightarrow> fdt_check_header m fdt = 0"
  by (simp add: fdt_holds_def)

lemma level_loop_node:
  assumes h: "fdt_holds m fdt (dt_toks t @ [TFin])" and n: "node_at t off (Dt s ps cs)"
  shows "fdt_level_loop m fdt 0 P (of_nat off) 0 =
    Some (found (map_option fst (kid_find (\<lambda>off _. P (of_nat off)) (kids_off off (Dt s ps cs)) cs)))"
proof -
  obtain xs ys where e: "fdt_holds m fdt (xs @ TBegin s # prop_toks ps @ concat (map dt_toks cs) @ TEnd # ys)"
    "toks_size xs = off" "TFin \<in> set ys" using node_at_blob[OF h n] by metis
  let ?ts = "prop_toks ps @ concat (map dt_toks cs) @ TEnd # ys"
  have h': "fdt_holds m fdt ((xs @ [TBegin s]) @ ?ts)" using e(1) by simp
  have sz: "toks_size ((xs @ [TBegin s]) @ ?ts) < 2 ^ 31" using h' by (simp add: fdt_holds_def)
  have l: "0 + length ?ts < 2 ^ 31" using length_toks[of ?ts] sz by simp
  have small: "\<not> neg32 (of_nat (toks_size (xs @ [TBegin s])))" "\<not> neg32 (of_nat (toks_size xs))"
    using sz by (auto intro!: neg32_small simp del: of_nat_add)
  have "fdt_level_loop m fdt 0 P (of_nat off) 0 = level_from m fdt 0 P (of_nat (toks_size (xs @ [TBegin s]))) (of_nat 0)"
    using check_node_holds[OF e(1)] e(2) small
    by (subst fdt_level_loop.simps) (simp add: fdt_next_node_def level_from_def sle32_def)
  also have "\<dots> = Some (found (level_find P (toks_size (xs @ [TBegin s])) 0 ?ts))"
    using e(3) l by (intro level_from_holds[OF h']) simp_all
  finally show ?thesis by (simp add: level_find_props level_find_kids e(2))
qed

lemma subnode_offset_holds:
  assumes h: "fdt_holds m fdt (dt_toks t @ [TFin])" and n: "node_at t off n"
    and s: "0 \<notin> set name" "length name < 2 ^ 31"
  shows "fdt_subnode_offset_namelen m fdt (of_nat off) name =
    Some (found (map_option fst (kid_find (\<lambda>_ c. name_matches name (dt_name c)) (kids_off off n) (dt_kids n))))"
proof -
  obtain s ps cs where d: "n = Dt s ps cs" by (cases n)
  have "kid_find (\<lambda>off _. fdt_nodename_eq m fdt (of_nat off) name) (kids_off off n) cs =
      kid_find (\<lambda>_ c. name_matches name (dt_name c)) (kids_off off n) cs"
  proof (rule kid_find_cong)
    fix as c bs assume "cs = as @ c # bs"
    then have "node_at t (kids_off off n + toks_size (concat (map dt_toks as))) c"
      using node_at.kid[OF n] d by simp
    from nodename_eq_holds[OF h this s]
    show "fdt_nodename_eq m fdt (of_nat (kids_off off n + toks_size (concat (map dt_toks as)))) name =
        name_matches name (dt_name c)" .
  qed
  then show ?thesis
    using level_loop_node[OF h, of off s ps cs] n d fdt_holds_header[OF h]
    by (simp add: fdt_subnode_offset_namelen_def)
qed

lemma kid_find_node_at:
  assumes "node_at t off n" "kid_find Q (kids_off off n) (dt_kids n) = Some (o', c)"
  shows "node_at t o' c"
proof -
  have "\<exists>as bs. cs = as @ c # bs \<and> o' = b + toks_size (concat (map dt_toks as))"
    if "kid_find Q b cs = Some (o', c)" for b cs
    using that
  proof (induction cs arbitrary: b)
    case (Cons k cs)
    show ?case
    proof (cases "Q b k")
      case True
      then show ?thesis using Cons.prems by (intro exI[of _ "[]"] exI[of _ cs]) auto
    next
      case False
      then obtain as bs where "cs = as @ c # bs" "o' = b + toks_size (dt_toks k) + toks_size (concat (map dt_toks as))"
        using Cons.IH[of "b + toks_size (dt_toks k)"] Cons.prems False by auto
      then show ?thesis by (intro exI[of _ "k # as"] exI[of _ bs]) (simp add: add.assoc)
    qed
  qed simp
  from this[OF assms(2)] show ?thesis using node_at.kid[OF assms(1)] by blast
qed

section \<open>Paths\<close>

fun dt_path :: "nat \<Rightarrow> dt \<Rightarrow> u8 list list \<Rightarrow> nat option" where
  "dt_path off n [] = Some off"
| "dt_path off n (s # ss) =
     (case kid_find (\<lambda>_ c. name_matches s (dt_name c)) (kids_off off n) (dt_kids n) of
        None \<Rightarrow> None | Some (o', c) \<Rightarrow> dt_path o' c ss)"

definition path_str :: "u8 list list \<Rightarrow> u8 list" where
  "path_str ss = concat (map ((#) 0x2f) ss)"

definition path_ok :: "u8 list list \<Rightarrow> bool" where
  "path_ok ss \<longleftrightarrow> (\<forall>s \<in> set ss. s \<noteq> [] \<and> 0 \<notin> set s \<and> 0x2f \<notin> set s \<and> length s < 2 ^ 31)"

lemma path_str_split:
  assumes "path_ok (s # ss)"
  shows "dropWhile (\<lambda>c. c = 0x2f) (path_str (s # ss)) = s @ path_str ss"
    "takeWhile (\<lambda>c. c \<noteq> 0x2f) (s @ path_str ss) = s"
    "dropWhile (\<lambda>c. c \<noteq> 0x2f) (s @ path_str ss) = path_str ss"
proof -
  have s: "s \<noteq> []" "0x2f \<notin> set s" using assms by (auto simp: path_ok_def)
  show "dropWhile (\<lambda>c. c = 0x2f) (path_str (s # ss)) = s @ path_str ss"
    using s by (cases s) (auto simp: path_str_def)
  have p: "path_str ss = [] \<or> (\<exists>r. path_str ss = 0x2f # r)" by (cases ss) (auto simp: path_str_def)
  show "takeWhile (\<lambda>c. c \<noteq> 0x2f) (s @ path_str ss) = s"
    using s(2) p by (subst takeWhile_append2) auto
  show "dropWhile (\<lambda>c. c \<noteq> 0x2f) (s @ path_str ss) = path_str ss"
    using s(2) p by (subst dropWhile_append2) auto
qed

lemma path_walk_holds:
  assumes "fdt_holds m fdt (dt_toks t @ [TFin])"
  shows "node_at t off n \<Longrightarrow> path_ok ss \<Longrightarrow>
    fdt_path_walk m fdt (of_nat off) (path_str ss) = Some (found (dt_path off n ss))"
proof (induction ss arbitrary: off n)
  case Nil
  then show ?case by (simp add: path_str_def found_def fdt_path_walk.simps)
next
  case (Cons s ss)
  note sp = path_str_split[OF Cons.prems(2)]
  have s: "s \<noteq> []" "0 \<notin> set s" "length s < 2 ^ 31" and ok: "path_ok ss" using Cons.prems(2) by (auto simp: path_ok_def)
  obtain x xs where x: "s @ path_str ss = x # xs" using s(1) by (cases s) auto
  note walk = fdt_path_walk.simps[of m fdt "of_nat off" "path_str (s # ss)", unfolded sp(1) x list.case, folded x, unfolded sp(2,3)
      subnode_offset_holds[OF assms Cons.prems(1) s(2,3)]]
  show ?case
  proof (cases "kid_find (\<lambda>_ c. name_matches s (dt_name c)) (kids_off off n) (dt_kids n)")
    case None
    then show ?thesis by (simp add: walk found_def neg32_err)
  next
    case (Some p)
    obtain o' c where p: "p = (o', c)" by (cases p)
    have at: "node_at t o' c" by (rule kid_find_node_at[OF Cons.prems(1) Some[unfolded p]])
    have "o' < 2 ^ 31" using node_at_name[OF at assms] assms by (simp add: fdt_holds_def)
    then have "\<not> neg32 (of_nat o')" by (rule neg32_small)
    then show ?thesis using Cons.IH[OF at ok] Some p by (simp add: walk found_def)
  qed
qed

section \<open>Properties of a node\<close>

text \<open>The value of the first property of a name; \<open>pn\<close> gives the string at an offset of the strings block.\<close>

definition prop_val :: "(u32 \<Rightarrow> u8 list) \<Rightarrow> u8 list \<Rightarrow> (u32 \<times> u8 list) list \<Rightarrow> u8 list option" where
  "prop_val pn name ps = map_option snd (find (\<lambda>(n, _). pn n = name) ps)"

definition prop_names :: "mem \<Rightarrow> u64 \<Rightarrow> (u32 \<Rightarrow> u8 list) \<Rightarrow> (u32 \<times> u8 list) list \<Rightarrow> bool" where
  "prop_names m fdt pn ps \<longleftrightarrow>
     (\<forall>(n, _) \<in> set ps. cstr m (fdt_string m fdt n) (pn n) \<and> length (pn n) < 2 ^ 31)"

lemma string_eq_holds:
  assumes "cstr m (fdt_string m fdt n) s" "length s < 2 ^ 31" "length name < 2 ^ 31"
  shows "fdt_string_eq m fdt n name = Some (s = name)"
proof -
  have "(of_nat (length s) :: u64) = of_nat (length name) \<longleftrightarrow> length s = length name"
    using assms(2,3) by (simp add: word_unat_eq_iff unat_of_nat_less)
  then have e: "fdt_string_eq m fdt n name =
      Some (length s = length name \<and> bytes m (fdt_string m fdt n) (length name) = name)"
    by (simp only: fdt_string_eq_def Let_def strlen_cstr[OF assms(1)] bind.bind_lunit)
  show ?thesis
  proof (cases "length s = length name")
    case True
    then show ?thesis using e cstr_bytes_prefix[OF assms(1), of "length name"] by simp
  next
    case False
    then show ?thesis using e by auto
  qed
qed

lemma get_property_loop_holds:
  assumes "fdt_holds m fdt (xs @ prop_toks ps @ t # ys)" "t = TEnd \<or> t = TBegin s"
    "prop_names m fdt pn ps" "length name < 2 ^ 31"
  shows "\<exists>p l. fdt_get_property_loop m fdt (of_nat (toks_size xs)) name = Some (p, l) \<and>
    (case prop_val pn name ps of None \<Rightarrow> p = 0 \<and> l = - FDT_ERR_NOTFOUND
     | Some d \<Rightarrow> p \<noteq> 0 \<and> l = of_nat (length d) \<and> bytes m (p + 12) (length d) = d \<and>
         unat p + 12 + length d < 2 ^ 64 \<and> fdt_base m fdt \<le> p)"
  using assms
proof (induction ps arbitrary: xs)
  case Nil
  have "fdt_next_tag m fdt (of_nat (toks_size xs)) = Some (tok_tag t, of_nat (toks_size xs + tok_size t))"
    using next_tag_holds Nil.prems(1) by (simp add: prop_toks_def)
  then show ?case
    using Nil.prems(2) by (subst fdt_get_property_loop.simps) (auto simp: prop_val_def)
next
  case (Cons q ps)
  obtain n d where q: "q = (n, d)" by (cases q)
  let ?t = "TProp n d" and ?o = "toks_size xs"
  let ?p = "fdt_base m fdt + of_nat ?o"
  have h: "fdt_holds m fdt (xs @ ?t # prop_toks ps @ t # ys)" using Cons.prems(1) q by (simp add: prop_toks_def)
  have tag: "fdt_next_tag m fdt (of_nat ?o) = Some (FDT_PROP, of_nat (toks_size (xs @ [?t])))"
    using next_tag_holds[OF h] by simp
  have at: "fdt32 m (?p + 4) = of_nat (length d)" "fdt32 m (?p + 8) = n" "bytes m (?p + 12) (length d) = d"
    using h by (auto simp: fdt_holds_def toks_at_append tok_at_def)
  have "?o < 2 ^ 31" using h by (simp add: fdt_holds_def)
  then have raw: "fdt_offset_ptr_raw m fdt (of_nat ?o) = ?p"
    by (simp add: fdt_offset_ptr_raw_def fdt_base_def scast_small)
  have nz: "?p \<noteq> 0" using offset_ptr_holds(3)[OF h, of ?o 0] by simp
  have nw: "unat ?p + 12 + length d < 2 ^ 64"
    using offset_ptr_holds(2)[OF h, of ?o 0] h tok_size_ge[of ?t] by (simp add: fdt_holds_def)
  have ge: "fdt_base m fdt \<le> ?p" using offset_ptr_holds(2)[OF h, of ?o 0] by (simp add: word_le_nat_alt)
  have eq: "fdt_string_eq m fdt (fdt32 m (?p + 8)) name = Some (pn n = name)"
    using string_eq_holds[of m fdt n "pn n" name] Cons.prems(3,4) at(2) q by (simp add: prop_names_def)
  have step: "fdt_get_property_loop m fdt (of_nat ?o) name =
      (if pn n = name then Some (?p, of_nat (length d))
       else fdt_get_property_loop m fdt (of_nat (toks_size (xs @ [?t]))) name)"
    unfolding fdt_get_property_loop.simps[of m fdt "of_nat ?o" name] tag
    using raw eq at(1) by (simp del: toks_size_simps add: Let_def)
  show ?case
  proof (cases "pn n = name")
    case True
    then have "prop_val pn name (q # ps) = Some d" using q by (simp add: prop_val_def)
    then show ?thesis using step True at(3) nz nw ge by simp
  next
    case False
    have "prop_names m fdt pn ps" using Cons.prems(3) by (simp add: prop_names_def)
    moreover have "fdt_holds m fdt ((xs @ [?t]) @ prop_toks ps @ t # ys)" using h by simp
    moreover have "prop_val pn name (q # ps) = prop_val pn name ps" using False q by (simp add: prop_val_def)
    ultimately show ?thesis
      unfolding step using Cons.IH[of "xs @ [?t]"] Cons.prems(2,4) False by simp
  qed
qed

lemma kids_start: "\<exists>t ts s. concat (map dt_toks cs) @ TEnd # ys = t # ts \<and> (t = TEnd \<or> t = TBegin s)"
proof (cases cs)
  case (Cons c cs')
  then show ?thesis by (cases c) auto
qed auto

lemma path_offset_holds:
  assumes "fdt_holds m fdt (dt_toks t @ [TFin])" "path_ok ss" "ss \<noteq> []"
  shows "fdt_path_offset m fdt (path_str ss) = Some (found (dt_path 0 t ss))"
proof -
  have "\<exists>p. path_str ss = 0x2f # p" using assms(3) by (cases ss) (auto simp: path_str_def)
  then have "fdt_path_offset m fdt (path_str ss) = fdt_path_walk m fdt (of_nat 0) (path_str ss)"
    using fdt_holds_header[OF assms(1)] fdt_path_offset_abs by (auto simp: fdt_path_abs_def)
  then show ?thesis using path_walk_holds[OF assms(1) node_at.root assms(2)] by simp
qed

lemma getprop_holds:
  assumes "fdt_holds m fdt (dt_toks t @ [TFin])" "node_at t off n"
    "prop_names m fdt pn (dt_props n)" "length name < 2 ^ 31"
  shows "\<exists>p l. fdt_getprop m fdt (of_nat off) name = Some (p, l) \<and>
    (case prop_val pn name (dt_props n) of None \<Rightarrow> p = 0 \<and> l = - FDT_ERR_NOTFOUND
     | Some d \<Rightarrow> p \<noteq> 0 \<and> l = of_nat (length d) \<and> bytes m p (length d) = d \<and> unat p + length d < 2 ^ 64 \<and>
         fdt_base m fdt \<le> p)"
proof -
  obtain s ps cs where n: "n = Dt s ps cs" by (cases n)
  obtain xs ys where e: "fdt_holds m fdt (xs @ TBegin s # prop_toks ps @ concat (map dt_toks cs) @ TEnd # ys)"
    "toks_size xs = off" using node_at_blob[OF assms(1), of off s ps cs] assms(2) n by metis
  obtain t ts s' where k: "concat (map dt_toks cs) @ TEnd # ys = t # ts" "t = TEnd \<or> t = TBegin s'"
    using kids_start by blast
  have "fdt_holds m fdt ((xs @ [TBegin s]) @ prop_toks ps @ t # ts)" using e(1) k(1) by simp
  from get_property_loop_holds[OF this k(2) _ assms(4)] assms(3)
  obtain p l where p: "fdt_get_property_loop m fdt (of_nat (toks_size (xs @ [TBegin s]))) name = Some (p, l)"
    "case prop_val pn name ps of None \<Rightarrow> p = 0 \<and> l = - FDT_ERR_NOTFOUND
     | Some d \<Rightarrow> p \<noteq> 0 \<and> l = of_nat (length d) \<and> bytes m (p + 12) (length d) = d \<and>
         unat p + 12 + length d < 2 ^ 64 \<and> fdt_base m fdt \<le> p"
    using n by fastforce
  have "toks_size (xs @ [TBegin s]) < 2 ^ 31" using e(1) by (simp add: fdt_holds_def)
  then have "\<not> neg32 (of_nat (toks_size (xs @ [TBegin s])))" by (rule neg32_small)
  then have "fdt_getprop m fdt (of_nat off) name = Some (if p = 0 then 0 else p + 12, l)"
    using check_node_holds[OF e(1)] p(1) e(2) fdt_holds_header[OF e(1)]
    by (simp add: fdt_getprop_def fdt_getprop_namelen_def fdt_get_property_namelen_def)
  moreover have "unat (p + 12) = unat p + 12" if "unat p + 12 + x < 2 ^ 64" for x
    using that unat_add_no_wrap[of p 12] by simp
  moreover have "p \<le> p + 12" if "unat p + 12 + x < 2 ^ 64" for x
    using that unat_add_no_wrap[of p 12] by (simp add: word_le_nat_alt)
  ultimately show ?thesis using p(2) n by (fastforce split: option.splits intro: order_trans)
qed

section \<open>The queries on a tree\<close>

text \<open>
  C31: On a blob that holds a tree, \<^verbatim>\<open>fdt_path_offset\<close> takes the path that names a node, component by
  component and with or without unit addresses, to the offset of the first such node, and reports
  that there is none exactly when the tree has none.
\<close>
theorem fdt_path_offset_correct:
  assumes "fdt_holds m fdt (dt_toks t @ [TFin])" "path_ok ss" "ss \<noteq> []"
  shows "fdt_path_offset m fdt (path_str ss) = Some (found (dt_path 0 t ss))"
  using assms by (rule path_offset_holds)

definition fdt_example_bytes :: "u8 list" where
  "fdt_example_bytes = [
     0xd0, 0xd, 0xfe, 0xed, 0, 0, 0, 0x6b, 0, 0, 0, 0x28, 0, 0, 0, 0x64, 0, 0, 0, 0, 0, 0, 0,
     0x11, 0, 0, 0, 0x10, 0, 0, 0, 0, 0, 0, 0, 0x7, 0, 0, 0, 0x3c, 0, 0, 0, 0x1, 0, 0, 0, 0,
     0, 0, 0, 0x3, 0, 0, 0, 0x4, 0, 0, 0, 0, 1, 2, 3, 4, 0, 0, 0, 0x1, 0x64, 0x40, 0x31, 0, 0,
     0, 0, 0x3, 0, 0, 0, 0x1, 0, 0, 0, 0x4, 7, 0, 0, 0, 0, 0, 0, 0x2, 0, 0, 0, 0x2, 0, 0, 0,
     0x9, 0x72, 0x65, 0x67, 0, 0x69, 0x64, 0
    ]"

definition fdt_example :: mem where
  "fdt_example = mem_of [(0x1000, fdt_example_bytes)]"

definition dt_example :: dt where
  "dt_example = Dt [] [(0, [1, 2, 3, 4])] [Dt [0x64, 0x40, 0x31] [(4, [7])] []]"

lemma fdt_example_holds: "fdt_holds fdt_example 0x1000 (dt_toks dt_example @ [TFin])"
proof -
  note e = fdt_example_def mem_of_def fdt_example_bytes_def fdt32_def load32_le_def be32_to_cpu_def swab32_def
  have off: "fdt_off_dt_struct fdt_example 0x1000 = 40" by (simp add: fdt_off_dt_struct_def e)
  have b: "fdt_base fdt_example 0x1000 = 0x1028" by (simp add: fdt_base_def off)
  have v: "fdt_check_header fdt_example 0x1000 = 0"
    by (simp add: fdt_check_header_def fdt_magic_def fdt_version_def fdt_last_comp_version_def e FDT_MAGIC_def
        FDT_FIRST_SUPPORTED_VERSION_def FDT_LAST_SUPPORTED_VERSION_def)
  have sz: "fdt_size_dt_struct fdt_example 0x1000 = 60" by (simp add: fdt_size_dt_struct_def e)
  have t: "toks_size (dt_toks dt_example @ [TFin]) = 60"
    by (simp add: dt_example_def prop_toks_def tok_size_def pad4_def)
  have "toks_at fdt_example 0x1028 (dt_toks dt_example @ [TFin])"
    by (simp add: dt_example_def prop_toks_def tok_size_def pad4_def tok_at_def fdt_tags e)
  then show ?thesis by (simp add: fdt_holds_def v b sz t del: toks_size_simps)
qed

theorem fdt_path_offset_correct_witness: "fdt_path_offset fdt_example 0x1000 [0x2f, 0x64] = Some 24"
proof -
  have "path_str [[0x64]] = [0x2f, 0x64]" "path_ok [[0x64]]" "dt_path 0 dt_example [[0x64]] = Some 24"
    by (simp_all add: path_str_def path_ok_def dt_example_def name_matches_def prop_toks_def tok_size_def pad4_def)
  then show ?thesis
    using fdt_path_offset_correct[OF fdt_example_holds, of "[[0x64]]"] by (simp add: found_def)
qed

text \<open>
  C32: \<^verbatim>\<open>fdt_getprop\<close> on a node of the tree returns the address and the length of the value of the
  node's first property of that name, and a null pointer with \<^verbatim>\<open>FDT_ERR_NOTFOUND\<close> when it has none;
  properties of its children are never returned.
\<close>
theorem fdt_getprop_correct:
  assumes "fdt_holds m fdt (dt_toks t @ [TFin])" "node_at t off n"
    "prop_names m fdt pn (dt_props n)" "length name < 2 ^ 31"
  shows "\<exists>p l. fdt_getprop m fdt (of_nat off) name = Some (p, l) \<and>
    (case prop_val pn name (dt_props n) of None \<Rightarrow> p = 0 \<and> l = - FDT_ERR_NOTFOUND
     | Some d \<Rightarrow> p \<noteq> 0 \<and> l = of_nat (length d) \<and> bytes m p (length d) = d \<and> unat p + length d < 2 ^ 64 \<and>
         fdt_base m fdt \<le> p)"
  using assms by (rule getprop_holds)

theorem fdt_getprop_correct_witness:
  "\<exists>p. fdt_getprop fdt_example 0x1000 24 [0x69, 0x64] = Some (p, 1) \<and> bytes fdt_example p 1 = [7]"
proof -
  let ?pn = "\<lambda>n. if n = 0 then [0x72, 0x65, 0x67] else [0x69, 0x64] :: u8 list"
  have n: "node_at dt_example 24 (Dt [0x64, 0x40, 0x31] [(4, [7])] [])"
    using node_at.kid[OF node_at.root, of dt_example "[]" _ "[]"]
    by (simp add: dt_example_def prop_toks_def tok_size_def pad4_def)
  have "prop_names fdt_example 0x1000 ?pn [(4, [7])]"
    by (simp add: prop_names_def fdt_string_def fdt_off_dt_strings_def fdt_example_def mem_of_def fdt_example_bytes_def
        fdt32_def load32_le_def be32_to_cpu_def swab32_def)
  then show ?thesis
    using fdt_getprop_correct[OF fdt_example_holds n, of ?pn "[0x69, 0x64]"] by (auto simp: prop_val_def)
qed

text \<open>
  \<^verbatim>\<open>fdt_sibling\<close> takes each child of a node to the next one and reports that there is none at the
  last: starting from \<^verbatim>\<open>fdt_subnode\<close> the calls enumerate the children in the order of the tree.
\<close>
theorem fdt_sibling_correct:
  assumes "fdt_holds m fdt (dt_toks t @ [TFin])" "node_at t off n" "dt_kids n = as @ c # bs"
  shows "fdt_subnode m fdt (of_nat off) = Some (of_nat (kids_off off n)) \<and>
    fdt_sibling m fdt (of_nat (kids_off off n + toks_size (concat (map dt_toks as)))) =
      Some (found (if bs = [] then None
                   else Some (kids_off off n + toks_size (concat (map dt_toks (as @ [c]))))))"
proof
  have h: "fdt_check_header m fdt = 0" by (rule fdt_holds_header[OF assms(1)])
  obtain s ps cs where n: "n = Dt s ps cs" by (cases n)
  obtain s' ps' cs' where c: "c = Dt s' ps' cs'" by (cases c)
  have first: "kid_find (\<lambda>_ _. True) b ks = (case ks of [] \<Rightarrow> None | k # _ \<Rightarrow> Some (b, k))" for b ks
    by (cases ks) simp_all
  show "fdt_subnode m fdt (of_nat off) = Some (of_nat (kids_off off n))"
    using level_loop_node[OF assms(1), of off s ps cs "\<lambda>_. True"] assms(2,3) h n
    by (cases as) (simp_all add: fdt_subnode_def found_def)
  obtain xs ys where e: "fdt_holds m fdt (xs @ TBegin s # prop_toks ps @ concat (map dt_toks cs) @ TEnd # ys)"
    "toks_size xs = off" "TFin \<in> set ys" using node_at_blob[OF assms(1), of off s ps cs] assms(2) n by metis
  let ?xs = "xs @ TBegin s # prop_toks ps @ concat (map dt_toks as)"
  let ?ts = "prop_toks ps' @ concat (map dt_toks cs') @ TEnd # concat (map dt_toks bs) @ TEnd # ys"
  have g: "fdt_holds m fdt (?xs @ TBegin s' # ?ts)" using e(1) assms(3) n c by simp
  then have g': "fdt_holds m fdt ((?xs @ [TBegin s']) @ ?ts)" by simp
  have o: "toks_size ?xs = kids_off off n + toks_size (concat (map dt_toks as))" using e(2) n by simp
  have sz: "toks_size ((?xs @ [TBegin s']) @ ?ts) < 2 ^ 31" using g' by (simp only: fdt_holds_def)
  have small: "\<not> neg32 (of_nat (toks_size (?xs @ [TBegin s'])))" "\<not> neg32 (of_nat (toks_size ?xs))"
    using sz by (auto intro!: neg32_small simp del: of_nat_add)
  have deep: "level_find P b (Suc 0) (concat (map dt_toks ks) @ rest) =
      level_find P (b + toks_size (concat (map dt_toks ks))) (Suc 0) rest" for P ks b rest
    by (induction ks arbitrary: b) (simp_all add: level_find_deep add.assoc)
  have "fdt_sibling m fdt (of_nat (toks_size ?xs)) =
      level_from m fdt 1 (\<lambda>_. True) (of_nat (toks_size (?xs @ [TBegin s']))) (of_nat 1)"
  proof -
    have "fdt_check_node_offset m fdt (of_nat (toks_size ?xs)) = Some (of_nat (toks_size (?xs @ [TBegin s'])))"
      using check_node_holds[OF g] by (simp add: add.assoc)
    then show ?thesis
      using small h by (simp add: fdt_sibling_def fdt_next_node_def level_from_def del: toks_size_simps)
  qed
  also have "\<dots> = Some (found (level_find (\<lambda>_. True) (toks_size (?xs @ [TBegin s'])) 1 ?ts))"
  proof (rule level_from_holds[OF g'])
    show "1 + length ?ts < 2 ^ 31" using length_toks[of "TBegin s' # ?ts"] sz by simp
  qed (use e(3) in simp_all)
  also have "level_find (\<lambda>_. True) (toks_size (?xs @ [TBegin s'])) 1 ?ts =
      (if bs = [] then None else Some (kids_off off n + toks_size (concat (map dt_toks (as @ [c])))))"
    using o by (simp add: level_find_props deep level_find_kids first c add.assoc split: list.splits)
  finally show "fdt_sibling m fdt (of_nat (kids_off off n + toks_size (concat (map dt_toks as)))) =
      Some (found (if bs = [] then None
                   else Some (kids_off off n + toks_size (concat (map dt_toks (as @ [c]))))))"
    by (simp only: o)
qed

theorem fdt_sibling_correct_witness:
  "fdt_subnode fdt_example 0x1000 0 = Some 24 \<and> fdt_sibling fdt_example 0x1000 24 = Some (- FDT_ERR_NOTFOUND)"
proof -
  have "dt_kids dt_example = [] @ Dt [0x64, 0x40, 0x31] [(4, [7])] [] # []" "kids_off 0 dt_example = 24"
    by (simp_all add: dt_example_def prop_toks_def tok_size_def pad4_def)
  then show ?thesis
    using fdt_sibling_correct[OF fdt_example_holds node_at.root, of "[]" "Dt [0x64, 0x40, 0x31] [(4, [7])] []" "[]"]
    by (simp add: found_def)
qed

end
