(* ===== verification/Fdt_Safe.thy ===== *)
theory Fdt_Safe
  imports Fdt_Tree
begin

text \<open>
  The iterators of \<^verbatim>\<open>fdt.c\<close> on an arbitrary blob, one that nobody checked: from version 17 on every
  access is bounds-checked against the size of the structure block. The tag iterator then always
  returns, and it moves forward but for one length of a property, at which it returns the offset it
  was given; with that length excluded the node iterator ends on every blob.
\<close>

section \<open>The tag iterator returns and moves forward\<close>

definition bounded_blob :: "mem \<Rightarrow> u64 \<Rightarrow> bool" where
  "bounded_blob m fdt \<longleftrightarrow> 0x11 \<le> fdt_version m fdt \<and> fdt_size_dt_struct m fdt \<le> 0xfffffffc"

lemma offset_ptr_bounds:
  assumes "bounded_blob m fdt" "fdt_offset_ptr m fdt o' len \<noteq> 0"
  shows "unat (o' + len) = unat o' + unat len" "unat o' + unat len \<le> unat (fdt_size_dt_struct m fdt)"
    "unat o' + unat len \<le> 2 ^ 32 - 4"
proof -
  have "\<not> o' + len < o'" "o' + len \<le> fdt_size_dt_struct m fdt" "fdt_size_dt_struct m fdt \<le> 0xfffffffc"
    using assms by (auto simp: bounded_blob_def fdt_offset_ptr_def not_less split: if_splits)
  moreover from this(1) show u: "unat (o' + len) = unat o' + unat len"
    using unat_plus_if_size[of o' len] unat_less_exp[of len]
    by (simp add: word_less_nat_alt word_size split: if_splits)
  ultimately show "unat o' + unat len \<le> unat (fdt_size_dt_struct m fdt)" "unat o' + unat len \<le> 2 ^ 32 - 4"
    by (simp_all add: word_le_nat_alt)
qed

lemma skip_name_total:
  assumes "bounded_blob m fdt"
  shows "\<exists>b e. fdt_skip_name m fdt o' = Some (b, e) \<and> (b \<longrightarrow> unat o' < unat e)"
proof (induction "2 ^ 32 - unat o'" arbitrary: o' rule: less_induct)
  case less
  let ?p = "fdt_offset_ptr m fdt o' 1"
  show ?case
  proof (cases "?p = 0")
    case True
    then show ?thesis by (auto simp: fdt_skip_name.simps[of m fdt o'])
  next
    case False
    have s: "unat (o' + 1) = unat o' + 1" "unat o' + 1 \<le> 2 ^ 32 - 4"
      using offset_ptr_bounds[OF assms False] by simp_all
    show ?thesis
    proof (cases "m ?p = 0")
      case True
      then show ?thesis using s False by (auto simp: fdt_skip_name.simps[of m fdt o'])
    next
      case nz: False
      obtain b e where "fdt_skip_name m fdt (o' + 1) = Some (b, e)" "b \<longrightarrow> unat (o' + 1) < unat e"
      proof -
        have "2 ^ 32 - unat (o' + 1) < 2 ^ 32 - unat o'" using s by linarith
        from less[OF this] that show thesis by blast
      qed
      then show ?thesis using s False nz by (auto simp: fdt_skip_name.simps[of m fdt o'])
    qed
  qed
qed

text \<open>The one length at which the offset behind a property wraps around to the property itself.\<close>

definition no_wrap_prop :: "mem \<Rightarrow> u64 \<Rightarrow> bool" where
  "no_wrap_prop m fdt \<longleftrightarrow>
     (\<forall>o'. fdt_offset_ptr m fdt o' 4 \<noteq> 0 \<longrightarrow> fdt32 m (fdt_offset_ptr m fdt o' 4) \<noteq> 0xfffffff4)"

lemma TAGALIGN_ge: "unat x \<le> 2 ^ 32 - 4 \<Longrightarrow> unat x \<le> unat (FDT_TAGALIGN x)"
proof -
  assume x: "unat x \<le> 2 ^ 32 - 4"
  then have u: "unat (x + 3) = unat x + 3" using unat_add_no_wrap[of x 3] by simp
  have "mask 2 = (3 :: u32)" by (simp add: mask_eq_exp_minus_1)
  then have "unat (FDT_TAGALIGN x) = unat x + 3 - (unat x + 3) mod 4"
    using unat_and_not_mask[of "x + 3" 2] u by (simp add: FDT_TAGALIGN_def)
  then show ?thesis by presburger
qed

lemma tag_end_total:
  assumes "bounded_blob m fdt" "no_wrap_prop m fdt" "unat (s + 4) = unat s + 4"
  shows "\<exists>r. fdt_tag_end m fdt tag (s + 4) = Some r \<and>
    (\<forall>e. r = Some e \<longrightarrow> e \<noteq> s \<or> unat s < unat e)"
proof -
  obtain b e where "fdt_skip_name m fdt (s + 4) = Some (b, e)" "b \<longrightarrow> unat (s + 4) < unat e"
    using skip_name_total[OF assms(1)] by blast
  moreover have "s + 4 + 8 + l \<noteq> s" if "l \<noteq> 0xfffffff4" for l
  proof
    assume "s + 4 + 8 + l = s"
    then have "12 + l = 0" by (simp add: algebra_simps)
    then have "l = - 12" by (simp add: eq_neg_iff_add_eq_0 add.commute)
    then show False using that by simp
  qed
  ultimately show ?thesis
    using assms(2,3) by (auto simp: fdt_tag_end_def Let_def no_wrap_prop_def)
qed

lemma next_tag_progress:
  assumes "bounded_blob m fdt" "no_wrap_prop m fdt"
  shows "\<exists>tag nx. fdt_next_tag m fdt s = Some (tag, nx) \<and> (tag \<noteq> FDT_END \<longrightarrow> unat s < unat nx)"
proof (cases "fdt_offset_ptr m fdt s 4 = 0")
  case True
  then show ?thesis by (simp add: fdt_next_tag_def FDT_TAGSIZE_def)
next
  case False
  have s4: "unat (s + 4) = unat s + 4" using offset_ptr_bounds(1)[OF assms(1) False] by simp
  obtain r where r: "fdt_tag_end m fdt (fdt32 m (fdt_offset_ptr m fdt s 4)) (s + 4) = Some r"
    "\<forall>e. r = Some e \<longrightarrow> e \<noteq> s \<or> unat s < unat e" using tag_end_total[OF assms s4] by blast
  show ?thesis
  proof (cases r)
    case None
    then show ?thesis using r False by (simp add: fdt_next_tag_def FDT_TAGSIZE_def Let_def)
  next
    case (Some e)
    show ?thesis
    proof (cases "fdt_offset_ptr m fdt s (e - s) = 0")
      case True
      then show ?thesis using r False Some by (simp add: fdt_next_tag_def FDT_TAGSIZE_def Let_def)
    next
      case nz: False
      have b: "unat e = unat s + unat (e - s)" "unat e \<le> 2 ^ 32 - 4"
        using offset_ptr_bounds[OF assms(1) nz] by simp_all
      have "unat s < unat e"
        using r(2) Some b(1) by (metis add_diff_cancel_left' le_add1 le_neq_implies_less word_unat_eq_iff)
      then have "unat s < unat (FDT_TAGALIGN e)" using TAGALIGN_ge[OF b(2)] by simp
      then show ?thesis using r False Some nz by (simp add: fdt_next_tag_def FDT_TAGSIZE_def Let_def)
    qed
  qed
qed

section \<open>The node iterator ends\<close>

lemma next_node_loop_total:
  assumes "bounded_blob m fdt" "no_wrap_prop m fdt"
  shows "\<exists>r. fdt_next_node_loop m fdt s depth = Some r"
proof (induction "2 ^ 32 - unat s" arbitrary: s depth rule: less_induct)
  case less
  obtain tag nx where t: "fdt_next_tag m fdt s = Some (tag, nx)" "tag \<noteq> FDT_END \<longrightarrow> unat s < unat nx"
    using next_tag_progress[OF assms] by blast
  have IH: "\<exists>r. fdt_next_node_loop m fdt nx d = Some r" if "tag \<noteq> FDT_END" for d
    using less[of nx d] t(2) that unat_less_exp[of nx] by simp
  show ?case
    unfolding fdt_next_node_loop.simps[of m fdt s depth] t(1)
    using IH by (auto split: option.splits)
qed

text \<open>
  C34: On every blob of version 17, however corrupt, \<^verbatim>\<open>fdt_next_node\<close> returns, provided that the
  structure block does not reach the last word of the offset space and that no word of it reads as
  the length \<open>0xfffffff4\<close>.
\<close>
theorem fdt_next_node_returns:
  assumes "bounded_blob m fdt" "no_wrap_prop m fdt"
  shows "\<exists>r. fdt_next_node m fdt offset depth = Some r"
proof -
  obtain tag nx where "fdt_next_tag m fdt offset = Some (tag, nx)"
    using next_tag_progress[OF assms, of offset] by blast
  then obtain n where "fdt_check_node_offset m fdt offset = Some n"
    by (cases "neg32 offset \<or> offset mod FDT_TAGSIZE \<noteq> 0") (simp_all add: fdt_check_node_offset_def)
  then show ?thesis
    using next_node_loop_total[OF assms] by (simp add: fdt_next_node_def)
qed

lemma fdt32_byte: "ucast (drop_bit 24 (fdt32 m p)) = m p"
proof (rule bit_word_eqI)
  fix i assume i: "i < LENGTH(8)"
  have "bit (fdt32 m p) (8 * 3 + i) \<longleftrightarrow> bit (load32_le p m) (8 * (3 - 3) + i)"
    unfolding fdt32_def be32_to_cpu_def by (rule swab32_bit) (use i in simp_all)
  also have "\<dots> \<longleftrightarrow> bit (m p) i"
    using i by (auto simp: load32_le_def bit_simps)
  finally show "bit (ucast (drop_bit 24 (fdt32 m p)) :: u8) i \<longleftrightarrow> bit (m p) i"
    using i by (simp add: bit_simps add.commute)
qed

theorem fdt_next_node_returns_witness: "\<exists>r. fdt_next_node fdt_example 0x1000 0 (Some 0) = Some r"
proof (rule fdt_next_node_returns)
  show "bounded_blob fdt_example 0x1000"
    by (simp add: bounded_blob_def fdt_version_def fdt_size_dt_struct_def fdt_example_def mem_of_def
        fdt_example_bytes_def fdt32_def load32_le_def be32_to_cpu_def swab32_def)
  have "\<forall>b \<in> set fdt_example_bytes. b \<noteq> 0xff" by (simp add: fdt_example_bytes_def)
  then have "fdt_example p \<noteq> 0xff" for p
    by (auto simp: fdt_example_def mem_of_def split: list.splits)
  then show "no_wrap_prop fdt_example 0x1000"
    unfolding no_wrap_prop_def
  proof (intro allI impI notI)
    fix o' assume "fdt32 fdt_example (fdt_offset_ptr fdt_example 0x1000 o' 4) = 0xfffffff4"
    then have "fdt_example (fdt_offset_ptr fdt_example 0x1000 o' 4) = 0xff"
      using fdt32_byte[of fdt_example "fdt_offset_ptr fdt_example 0x1000 o' 4"] by simp
    then show False using \<open>\<And>p. fdt_example p \<noteq> 0xff\<close> by simp
  qed
qed

section \<open>The length that makes it run on\<close>

text \<open>
  A node iteration that meets a property of length \<open>0xfffffff4\<close> at an aligned offset does not end:
  \<^verbatim>\<open>fdt_next_tag\<close> adds 12 and the length, which wraps around, and returns the offset of the property
  itself.
\<close>

lemma next_node_loop_stuck:
  assumes "fdt_next_tag m fdt s = Some (FDT_PROP, s)"
  shows "fdt_next_node_loop m fdt s depth = None"
proof -
  have "\<not> (m = m \<and> fdt = fdt \<and> s = s)" if "fdt_next_node_loop m fdt s depth = Some r" for r
    using that
    by (rule fdt_next_node_loop.raw_induct[where P = "\<lambda>m' fdt' s' _ _. \<not> (m' = m \<and> fdt' = fdt \<and> s' = s)", rotated])
      (use assms in \<open>auto, blast\<close>)
  then show ?thesis by (metis not_Some_eq)
qed

definition fdt_wrap_example :: mem where
  "fdt_wrap_example = mem_of [(0x1000,
    [0xd0, 0xd, 0xfe, 0xed, 0, 0, 0, 0x54, 0, 0, 0, 0x28, 0, 0, 0, 0x54, 0, 0, 0, 0,
     0, 0, 0, 0x11, 0, 0, 0, 0x10, 0, 0, 0, 0, 0, 0, 0, 0, 0, 0, 0, 0x2c,
     0, 0, 0, 0x3, 0xff, 0xff, 0xff, 0xf4, 0, 0, 0, 0])]"

text \<open>
  A valid header and one property of length \<open>0xfffffff4\<close> are enough for \<^verbatim>\<open>fdt_next_node\<close> not to
  return: the bounds checks pass, and the iteration stays at the property for ever.
\<close>
theorem fdt_next_node_runs_on:
  "fdt_check_header fdt_wrap_example 0x1000 = 0 \<and> bounded_blob fdt_wrap_example 0x1000 \<and>
   fdt_next_node fdt_wrap_example 0x1000 (- 1) depth = None"
proof -
  note e = fdt_wrap_example_def mem_of_def fdt32_def load32_le_def be32_to_cpu_def swab32_def
  have v: "fdt_version fdt_wrap_example 0x1000 = 0x11" "fdt_size_dt_struct fdt_wrap_example 0x1000 = 44"
    "fdt_off_dt_struct fdt_wrap_example 0x1000 = 40" "fdt_magic fdt_wrap_example 0x1000 = FDT_MAGIC"
    "fdt_last_comp_version fdt_wrap_example 0x1000 = 0x10"
    by (simp_all add: fdt_version_def fdt_size_dt_struct_def fdt_off_dt_struct_def fdt_magic_def
        fdt_last_comp_version_def FDT_MAGIC_def e)
  have w: "fdt32 fdt_wrap_example 0x1028 = 3" "fdt32 fdt_wrap_example 0x102c = 0xfffffff4"
    by (simp_all add: e)
  have "fdt_next_tag fdt_wrap_example 0x1000 0 = Some (FDT_PROP, 0)"
    by (simp add: fdt_next_tag_def fdt_tag_end_def fdt_offset_ptr_def fdt_offset_ptr_raw_def v w Let_def
        FDT_TAGSIZE_def FDT_TAGALIGN_def fdt_tags)
  from next_node_loop_stuck[OF this] show ?thesis
    by (simp add: fdt_next_node_def neg32_err bounded_blob_def fdt_check_header_def v
        FDT_FIRST_SUPPORTED_VERSION_def FDT_LAST_SUPPORTED_VERSION_def)
qed

end
