(* ===== verification/Fat_Defs.thy ===== *)
theory Fat_Defs
  imports Fdt_Ro
begin

text \<open>
  The data of the FAT library: the constants of \<^verbatim>\<open>fat_defs.h\<close>, \<^verbatim>\<open>fat_opts.h\<close> and \<^verbatim>\<open>fat_access.h\<close>, the
  access macros of \<^verbatim>\<open>fat_misc.h\<close>, the directory entry, the sector buffers and the file system structure.

  A medium is a value of the type \<open>'d\<close>, kept in the field \<open>media\<close> next to the two function pointers
  through which the library reaches it. \<^verbatim>\<open>read_media\<close> returns its result and the bytes it stores from the
  start of the buffer on, \<^verbatim>\<open>write_media\<close> its result and the medium afterwards; a null pointer is \<open>None\<close>.
  Buffers are lists of bytes. The structure \<^verbatim>\<open>struct fat_dir_entry\<close> is packed and the machine is little
  endian (\<^verbatim>\<open>FATFS_IS_LITTLE_ENDIAN\<close>), so \<^verbatim>\<open>FAT_HTONS\<close> and \<^verbatim>\<open>FAT_HTONL\<close> are the identity.
\<close>

section \<open>Constants\<close>

definition FAT_SECTOR_SIZE_n :: nat where "FAT_SECTOR_SIZE_n = 512"
definition FAT_BUFFERS :: nat where "FAT_BUFFERS = 1"
definition FAT_BUFFER_SECTORS :: u32 where "FAT_BUFFER_SECTORS = 1"
definition FATFS_MAX_LONG_FILENAME :: nat where "FATFS_MAX_LONG_FILENAME = 260"
definition FATFS_MAX_OPEN_FILES :: nat where "FATFS_MAX_OPEN_FILES = 1"

definition FAT32_LAST_CLUSTER :: u32 where "FAT32_LAST_CLUSTER = 0xFFFFFFFF"
definition FAT32_INVALID_CLUSTER :: u32 where "FAT32_INVALID_CLUSTER = 0xFFFFFFFF"

definition BPB_BYTSPERSEC :: nat where "BPB_BYTSPERSEC = 11"
definition BPB_SECPERCLUS :: nat where "BPB_SECPERCLUS = 13"
definition BPB_RSVDSECCNT :: nat where "BPB_RSVDSECCNT = 14"
definition BPB_NUMFATS :: nat where "BPB_NUMFATS = 16"
definition BPB_ROOTENTCNT :: nat where "BPB_ROOTENTCNT = 17"
definition BPB_TOTSEC16 :: nat where "BPB_TOTSEC16 = 19"
definition BPB_FATSZ16 :: nat where "BPB_FATSZ16 = 22"
definition BPB_TOTSEC32 :: nat where "BPB_TOTSEC32 = 32"
definition BPB_FAT32_FATSZ32 :: nat where "BPB_FAT32_FATSZ32 = 36"
definition BPB_FAT32_ROOTCLUS :: nat where "BPB_FAT32_ROOTCLUS = 44"
definition BPB_FAT32_FSINFO :: nat where "BPB_FAT32_FSINFO = 48"
definition SIGNATURE_POSITION :: nat where "SIGNATURE_POSITION = 510"
definition SIGNATURE_VALUE :: u16 where "SIGNATURE_VALUE = 0xAA55"
definition PARTITION1_TYPECODE_LOCATION :: nat where "PARTITION1_TYPECODE_LOCATION = 450"
definition PARTITION1_LBA_BEGIN_LOCATION :: nat where "PARTITION1_LBA_BEGIN_LOCATION = 454"

lemmas bpb_offsets = BPB_BYTSPERSEC_def BPB_SECPERCLUS_def BPB_RSVDSECCNT_def BPB_NUMFATS_def BPB_ROOTENTCNT_def
  BPB_TOTSEC16_def BPB_FATSZ16_def BPB_TOTSEC32_def BPB_FAT32_FATSZ32_def BPB_FAT32_ROOTCLUS_def BPB_FAT32_FSINFO_def
  SIGNATURE_POSITION_def SIGNATURE_VALUE_def PARTITION1_TYPECODE_LOCATION_def PARTITION1_LBA_BEGIN_LOCATION_def

definition FAT_DIR_ENTRY_SIZE :: nat where "FAT_DIR_ENTRY_SIZE = 32"
definition FAT_SFN_SIZE_FULL :: nat where "FAT_SFN_SIZE_FULL = 11"
definition FAT_SFN_SIZE_PARTIAL :: nat where "FAT_SFN_SIZE_PARTIAL = 8"
definition FAT_DIR_ENTRIES_PER_SECTOR :: nat where "FAT_DIR_ENTRIES_PER_SECTOR = FAT_SECTOR_SIZE_n div FAT_DIR_ENTRY_SIZE"

definition FILE_ATTR_SYSHID :: u8 where "FILE_ATTR_SYSHID = 0x06"
definition FILE_ATTR_VOLUME_ID :: u8 where "FILE_ATTR_VOLUME_ID = 0x08"
definition FILE_ATTR_LFN_TEXT :: u8 where "FILE_ATTR_LFN_TEXT = 0x0F"
definition FILE_HEADER_BLANK :: u8 where "FILE_HEADER_BLANK = 0x00"
definition FILE_HEADER_DELETED :: u8 where "FILE_HEADER_DELETED = 0xE5"
definition FILE_TYPE_DIR :: u8 where "FILE_TYPE_DIR = 0x10"
definition FILE_TYPE_FILE :: u8 where "FILE_TYPE_FILE = 0x20"

lemmas file_attrs = FILE_ATTR_SYSHID_def FILE_ATTR_VOLUME_ID_def FILE_ATTR_LFN_TEXT_def FILE_HEADER_BLANK_def
  FILE_HEADER_DELETED_def FILE_TYPE_DIR_def FILE_TYPE_FILE_def

definition FAT_INIT_OK :: int where "FAT_INIT_OK = 0"
definition FAT_INIT_MEDIA_ACCESS_ERROR :: int where "FAT_INIT_MEDIA_ACCESS_ERROR = - 1"
definition FAT_INIT_INVALID_SECTOR_SIZE :: int where "FAT_INIT_INVALID_SECTOR_SIZE = - 2"
definition FAT_INIT_INVALID_SIGNATURE :: int where "FAT_INIT_INVALID_SIGNATURE = - 3"
definition FAT_INIT_ENDIAN_ERROR :: int where "FAT_INIT_ENDIAN_ERROR = - 4"
definition FAT_INIT_WRONG_FILESYS_TYPE :: int where "FAT_INIT_WRONG_FILESYS_TYPE = - 5"
definition FAT_INIT_STRUCT_PACKING :: int where "FAT_INIT_STRUCT_PACKING = - 7"

lemmas fat_init_codes = FAT_INIT_OK_def FAT_INIT_MEDIA_ACCESS_ERROR_def FAT_INIT_INVALID_SECTOR_SIZE_def
  FAT_INIT_INVALID_SIGNATURE_def FAT_INIT_ENDIAN_ERROR_def FAT_INIT_WRONG_FILESYS_TYPE_def FAT_INIT_STRUCT_PACKING_def

section \<open>Little-endian access\<close>

definition GET_32BIT_WORD :: "u8 list \<Rightarrow> nat \<Rightarrow> u32" where
  "GET_32BIT_WORD b l = push_bit 24 (ucast (b ! (l + 3))) + push_bit 16 (ucast (b ! (l + 2))) +
     push_bit 8 (ucast (b ! (l + 1))) + ucast (b ! l)"

definition GET_16BIT_WORD :: "u8 list \<Rightarrow> nat \<Rightarrow> u16" where
  "GET_16BIT_WORD b l = push_bit 8 (ucast (b ! (l + 1))) + ucast (b ! l)"

definition SET_32BIT_WORD :: "nat \<Rightarrow> u32 \<Rightarrow> u8 list \<Rightarrow> u8 list" where
  "SET_32BIT_WORD l v b = b[l := ucast (v AND 0xFF), l + 1 := ucast (drop_bit 8 v AND 0xFF),
     l + 2 := ucast (drop_bit 16 v AND 0xFF), l + 3 := ucast (drop_bit 24 v AND 0xFF)]"

definition SET_16BIT_WORD :: "nat \<Rightarrow> u16 \<Rightarrow> u8 list \<Rightarrow> u8 list" where
  "SET_16BIT_WORD l v b = b[l := ucast (v AND 0xFF), l + 1 := ucast (drop_bit 8 v AND 0xFF)]"

text \<open>Bytes stored over the start of a buffer, and over a stretch of it.\<close>

definition overlay :: "u8 list \<Rightarrow> u8 list \<Rightarrow> u8 list" where
  "overlay bs b = bs @ drop (length bs) b"

definition put_at :: "nat \<Rightarrow> u8 list \<Rightarrow> u8 list \<Rightarrow> u8 list" where
  "put_at i bs b = take i b @ overlay bs (drop i b)"

section \<open>Directory entries\<close>

record fat_dir_entry =
  Name :: "u8 list"
  Attr :: u8
  NTRes :: u8
  CrtTimeTenth :: u8
  CrtTime :: "u8 list"
  CrtDate :: "u8 list"
  LstAccDate :: "u8 list"
  FstClusHI :: u16
  WrtTime :: "u8 list"
  WrtDate :: "u8 list"
  FstClusLO :: u16
  FileSize :: u32

text \<open>The structure laid over a buffer, and its bytes.\<close>

definition dir_entry_at :: "u8 list \<Rightarrow> nat \<Rightarrow> fat_dir_entry" where
  "dir_entry_at b off = (let e = drop off b in
     \<lparr>Name = take 11 e, Attr = e ! 11, NTRes = e ! 12, CrtTimeTenth = e ! 13, CrtTime = take 2 (drop 14 e),
      CrtDate = take 2 (drop 16 e), LstAccDate = take 2 (drop 18 e), FstClusHI = GET_16BIT_WORD e 20,
      WrtTime = take 2 (drop 22 e), WrtDate = take 2 (drop 24 e), FstClusLO = GET_16BIT_WORD e 26,
      FileSize = GET_32BIT_WORD e 28\<rparr>)"

definition le16 :: "u16 \<Rightarrow> u8 list" where
  "le16 v = [ucast v, ucast (drop_bit 8 v)]"

definition dir_entry_bytes :: "fat_dir_entry \<Rightarrow> u8 list" where
  "dir_entry_bytes e = Name e @ [Attr e, NTRes e, CrtTimeTenth e] @ CrtTime e @ CrtDate e @ LstAccDate e @
     le16 (FstClusHI e) @ WrtTime e @ WrtDate e @ le16 (FstClusLO e) @ bytes_le (FileSize e)"

section \<open>Buffers and the file system\<close>

record fat_buffer =
  fb_sector :: "u8 list"
  fb_address :: u32
  fb_dirty :: bool
  fb_ptr :: "nat option"

datatype tFatType = FAT_TYPE_16 | FAT_TYPE_32

record 'd disk_if =
  read_media :: "('d \<Rightarrow> u32 \<Rightarrow> u32 \<Rightarrow> bool \<times> u8 list) option"
  write_media :: "('d \<Rightarrow> u32 \<Rightarrow> u8 list \<Rightarrow> u32 \<Rightarrow> bool \<times> 'd) option"

text \<open>The chain of FAT buffers, from \<^verbatim>\<open>fat_buffer_head\<close> on, is a list.\<close>

record 'd fatfs =
  sectors_per_cluster :: u8
  cluster_begin_lba :: u32
  rootdir_first_cluster :: u32
  rootdir_first_sector :: u32
  rootdir_sectors :: u32
  fat_begin_lba :: u32
  fs_info_sector :: u16
  lba_begin :: u32
  fat_sectors :: u32
  next_free_cluster :: u32
  root_entry_count :: u16
  fat_type :: tFatType
  disk_io :: "'d disk_if"
  currentsector :: fat_buffer
  fat_buffers :: "fat_buffer list"
  media :: 'd

text \<open>
  \<^verbatim>\<open>disk_io.read_media\<close>; a call through a null pointer is not made: \<^verbatim>\<open>fatfs_init\<close> fails without one and
  every other function is called after it has succeeded.
\<close>

definition disk_read :: "'d fatfs \<Rightarrow> u32 \<Rightarrow> u32 \<Rightarrow> bool \<times> u8 list" where
  "disk_read fs lba n = (case read_media (disk_io fs) of Some rd \<Rightarrow> rd (media fs) lba n | None \<Rightarrow> (False, []))"

definition disk_write :: "u32 \<Rightarrow> u8 list \<Rightarrow> u32 \<Rightarrow> 'd fatfs \<Rightarrow> bool \<times> 'd fatfs" where
  "disk_write lba bs n fs = (case write_media (disk_io fs) of
     Some wr \<Rightarrow> (let (r, d) = wr (media fs) lba bs n in (r, fs\<lparr>media := d\<rparr>)) | None \<Rightarrow> (False, fs))"

end
