(* ===== verification/Fat_String.thy ===== *)
theory Fat_String
  imports Fdt_Ro
begin

text \<open>
  \<^verbatim>\<open>fat_string.c\<close>: paths and file names. A string is the list of its bytes before the terminator; what the
  functions write to a buffer is returned. \<^verbatim>\<open>char\<close> is unsigned. A read at or behind the terminator is taken
  to deliver the terminator: \<^verbatim>\<open>fatfs_total_path_levels\<close> and \<^verbatim>\<open>fatfs_get_substring\<close> look at the second and
  third byte of a path that does not start with a slash however short it is.
\<close>

definition str_at :: "u8 list \<Rightarrow> nat \<Rightarrow> u8" where
  "str_at s i = (if i < length s then s ! i else 0)"

section \<open>Paths\<close>

text \<open>The separator a path uses and what follows its root.\<close>

definition path_start :: "u8 list \<Rightarrow> (u8 \<times> u8 list) option" where
  "path_start path =
     (if str_at path 0 = 0x2f then Some (0x2f, drop 1 path)
      else if str_at path 1 = 0x3a \<or> str_at path 2 = 0x5c then Some (0x5c, drop 3 path)
      else None)"

fun skip_level :: "u8 \<Rightarrow> u8 list \<Rightarrow> u8 list" where
  "skip_level e [] = []"
| "skip_level e (c # cs) = (if c = e then cs else skip_level e cs)"

lemma skip_level_length: "cs \<noteq> [] \<Longrightarrow> length (skip_level e cs) < length cs"
proof (induction cs)
  case (Cons c cs)
  then show ?case by (cases "cs = []") (auto intro: less_SucI)
qed simp

function count_levels :: "u8 \<Rightarrow> u8 list \<Rightarrow> int" where
  "count_levels e cs = (if cs = [] then 0 else 1 + count_levels e (skip_level e cs))"
  by pat_completeness auto
termination
  by (relation "measure (\<lambda>(e, cs). length cs)") (auto simp: skip_level_length)

declare count_levels.simps [simp del]

definition fatfs_total_path_levels :: "u8 list \<Rightarrow> int" where
  "fatfs_total_path_levels path = (case path_start path of None \<Rightarrow> - 1 | Some (e, p) \<Rightarrow> count_levels e p - 1)"

text \<open>The loop over the path: the level reached and the bytes copied so far.\<close>

fun substring_loop :: "u8 \<Rightarrow> int \<Rightarrow> int \<Rightarrow> int \<Rightarrow> u8 list \<Rightarrow> u8 list \<Rightarrow> u8 list" where
  "substring_loop e req max_len levels out [] = out"
| "substring_loop e req max_len levels out (c # cs) =
     (let levels = (if c = e then levels + 1 else levels);
          out = (if levels = req \<and> c \<noteq> e \<and> int (length out) < max_len - 1 then out @ [c] else out)
      in substring_loop e req max_len levels out cs)"

text \<open>The result and the string left in the buffer; nothing is written when the path is refused.\<close>

definition fatfs_get_substring :: "u8 list \<Rightarrow> int \<Rightarrow> int \<Rightarrow> int \<times> u8 list option" where
  "fatfs_get_substring path req max_len =
     (if max_len \<le> 0 then (- 1, None)
      else case path_start path of None \<Rightarrow> (- 1, None)
        | Some (e, p) \<Rightarrow> (let out = substring_loop e req max_len 0 [] p in (if out \<noteq> [] then 0 else - 1, Some out)))"

text \<open>
  The result, the string in \<^verbatim>\<open>path\<close> and the one in \<^verbatim>\<open>filename\<close>. The bytes copied are cut at \<^verbatim>\<open>max_path\<close>, the last of
  them is overwritten by the terminator.
\<close>

definition fatfs_split_path :: "u8 list \<Rightarrow> int \<Rightarrow> int \<Rightarrow> int \<times> u8 list option \<times> u8 list option" where
  "fatfs_split_path full max_path max_filename =
     (let levels = fatfs_total_path_levels full
      in if levels = - 1 then (- 1, None, None)
         else
           let (r, name) = fatfs_get_substring full levels max_filename
           in if r \<noteq> 0 then (- 1, None, name)
              else if levels = 0 then (0, Some [], name)
              else
                let strindex = int (length full) - int (length (the name));
                    strindex = (if strindex > max_path then max_path else strindex)
                in (0, Some (take (nat (strindex - 1)) full), name))"

section \<open>Names\<close>

definition lower :: "u8 \<Rightarrow> u8" where
  "lower a = (if 0x41 \<le> a \<and> a \<le> 0x5a then a + 32 else a)"

fun FileString_StrCmpNoCase :: "u8 list \<Rightarrow> u8 list \<Rightarrow> nat \<Rightarrow> int" where
  "FileString_StrCmpNoCase s1 s2 0 = 0"
| "FileString_StrCmpNoCase s1 s2 (Suc n) =
     (let diff = uint (lower (str_at s1 0)) - uint (lower (str_at s2 0))
      in if diff \<noteq> 0 then diff
         else if str_at s1 0 = 0 \<or> str_at s2 0 = 0 then 0
         else FileString_StrCmpNoCase (tl s1) (tl s2) n)"

fun get_extension_loop :: "int \<Rightarrow> int \<Rightarrow> u8 list \<Rightarrow> int" where
  "get_extension_loop dotPos i [] = dotPos"
| "get_extension_loop dotPos i (c # cs) = get_extension_loop (if c = 0x2e then i else dotPos) (i + 1) cs"

definition FileString_GetExtension :: "u8 list \<Rightarrow> int" where
  "FileString_GetExtension str = get_extension_loop (- 1) 0 str"

text \<open>From the end towards the start, as long as there are spaces.\<close>

fun FileString_TrimLength :: "u8 list \<Rightarrow> nat \<Rightarrow> nat" where
  "FileString_TrimLength str 0 = 0"
| "FileString_TrimLength str (Suc n) = (if str_at str n = 0x20 then FileString_TrimLength str n else Suc n)"

definition fatfs_compare_names :: "u8 list \<Rightarrow> u8 list \<Rightarrow> bool" where
  "fatfs_compare_names a b =
     (let e1 = FileString_GetExtension a; e2 = FileString_GetExtension b
      in if e1 = - 1 \<and> e2 \<noteq> - 1 then False
         else if e2 = - 1 \<and> e1 \<noteq> - 1 then False
         else if e1 \<noteq> - 1 \<and> length (drop (nat (e1 + 1)) a) \<noteq> length (drop (nat (e2 + 1)) b) then False
         else if e1 \<noteq> - 1 \<and> FileString_StrCmpNoCase (drop (nat (e1 + 1)) a) (drop (nat (e2 + 1)) b)
                (length (drop (nat (e1 + 1)) a)) \<noteq> 0 then False
         else
           let n1 = FileString_TrimLength a (if e1 \<noteq> - 1 then nat e1 else length a);
               n2 = FileString_TrimLength b (if e1 \<noteq> - 1 then nat e2 else length b)
           in if n1 \<noteq> n2 then False else FileString_StrCmpNoCase a b n1 = 0)"

fun fatfs_string_ends_with_slash :: "u8 list \<Rightarrow> bool" where
  "fatfs_string_ends_with_slash [] = False"
| "fatfs_string_ends_with_slash [c] = (c = 0x5c \<or> c = 0x2f)"
| "fatfs_string_ends_with_slash (c # d # cs) = fatfs_string_ends_with_slash (d # cs)"

fun sfn_display_loop :: "nat \<Rightarrow> u8 list \<Rightarrow> u8 list" where
  "sfn_display_loop len [] = []"
| "sfn_display_loop len (a # s) =
     (if len \<le> 11 then (if a = 0x20 then sfn_display_loop len s else lower a # sfn_display_loop (len + 1) s) else [])"

definition fatfs_get_sfn_display_name :: "u8 list \<Rightarrow> u8 list" where
  "fatfs_get_sfn_display_name s = sfn_display_loop 0 s"

definition fatfs_get_extension :: "u8 list \<Rightarrow> int \<Rightarrow> u8 list option" where
  "fatfs_get_extension filename maxlen =
     (let ext_pos = FileString_GetExtension filename
      in if ext_pos > 0 \<and> maxlen \<noteq> 0 then Some (map lower (take (nat (maxlen - 1)) (drop (nat (ext_pos + 1)) filename)))
         else None)"

text \<open>The loop that copies the path, with the last byte copied and the separator in use.\<close>

fun path_copy_loop :: "int \<Rightarrow> u8 \<Rightarrow> u8 \<Rightarrow> u8 list \<Rightarrow> u8 list \<times> u8 \<times> u8" where
  "path_copy_loop room l sep [] = ([], l, sep)"
| "path_copy_loop room l sep (c # cs) =
     (if 0 < room then
        let (out, l, sep) = path_copy_loop (room - 1) c (if c = 0x5c then 0x5c else sep) cs in (c # out, l, sep)
      else ([], l, sep))"

definition fatfs_create_path_string :: "u8 list \<Rightarrow> u8 list \<Rightarrow> int \<Rightarrow> u8 list option" where
  "fatfs_create_path_string path filename maxlen =
     (if maxlen > 0 then
        let (out, l, sep) = path_copy_loop (maxlen - 2) 0 0x2f path
        in Some (out @ (if l \<noteq> 0x5c \<and> l \<noteq> 0x2f then [sep] else []) @ take (nat (maxlen - 1 - int (length out))) filename)
      else None)"

end
