(* ===== verification/Fat_Misc.thy ===== *)
theory Fat_Misc
  imports Fat_Defs Fat_String
begin

text \<open>
  \<^verbatim>\<open>fat_misc.c\<close>: classification of directory entries, long file names, creation of entries and short names,
  times and dates. The options of \<^verbatim>\<open>fat_opts.h\<close> are constants; the functions for long names, writing and
  times are compiled when their option is set and modelled as if it were.
\<close>

definition FATFS_INC_LFN_SUPPORT :: bool where "FATFS_INC_LFN_SUPPORT = False"
definition FATFS_INC_WRITE_SUPPORT :: bool where "FATFS_INC_WRITE_SUPPORT = False"
definition MAX_LONGFILENAME_ENTRIES :: nat where "MAX_LONGFILENAME_ENTRIES = 20"
definition MAX_LFN_ENTRY_LENGTH :: nat where "MAX_LFN_ENTRY_LENGTH = 13"

section \<open>Long file names\<close>

record lfn_cache =
  lfn_String :: "u8 list list"
  lfn_Null :: u8
  no_of_strings :: u8

definition fatfs_lfn_cache_init :: "bool \<Rightarrow> lfn_cache \<Rightarrow> lfn_cache" where
  "fatfs_lfn_cache_init wipeTable lfn =
     (let lfn = lfn\<lparr>no_of_strings := 0\<rparr>
      in if FATFS_INC_LFN_SUPPORT \<and> wipeTable then
           lfn\<lparr>lfn_String := replicate MAX_LONGFILENAME_ENTRIES (replicate MAX_LFN_ENTRY_LENGTH 0)\<rparr>
         else lfn)"

text \<open>Where the thirteen characters of an entry lie in its 32 bytes.\<close>

definition nameIndexes :: "nat list" where
  "nameIndexes = [1, 3, 5, 7, 9, 0x0E, 0x10, 0x12, 0x14, 0x16, 0x18, 0x1C, 0x1E]"

definition fatfs_lfn_cache_entry :: "u8 list \<Rightarrow> lfn_cache \<Rightarrow> lfn_cache" where
  "fatfs_lfn_cache_entry buf lfn =
     (let i = unat (buf ! 0 AND 0x1F)
      in if i > MAX_LONGFILENAME_ENTRIES then lfn
         else if i = 0 then lfn
         else
           let lfn = (if no_of_strings lfn = 0 then lfn\<lparr>no_of_strings := of_nat i\<rparr> else lfn)
           in lfn\<lparr>lfn_String := (lfn_String lfn)[i - 1 := map (\<lambda>k. if buf ! k = 0xFF then 0x20 else buf ! k) nameIndexes]\<rparr>)"

text \<open>
  The long name: the table is one array of characters, followed by the byte \<^verbatim>\<open>Null\<close>; the terminator is put
  behind the last string in use.
\<close>

definition fatfs_lfn_cache_get :: "lfn_cache \<Rightarrow> u8 list \<times> lfn_cache" where
  "fatfs_lfn_cache_get lfn =
     (let n = unat (no_of_strings lfn);
          lfn = (if n = MAX_LONGFILENAME_ENTRIES then lfn\<lparr>lfn_Null := 0\<rparr>
                 else lfn\<lparr>lfn_String := (lfn_String lfn)[n := (lfn_String lfn ! n)[0 := 0]]\<rparr>)
      in (takeWhile (\<lambda>c. c \<noteq> 0) (concat (lfn_String lfn) @ [lfn_Null lfn]), lfn))"

section \<open>Entries\<close>

definition fatfs_entry_lfn_text :: "fat_dir_entry \<Rightarrow> bool" where
  "fatfs_entry_lfn_text e \<longleftrightarrow> Attr e AND FILE_ATTR_LFN_TEXT = FILE_ATTR_LFN_TEXT"

definition fatfs_entry_lfn_invalid :: "fat_dir_entry \<Rightarrow> bool" where
  "fatfs_entry_lfn_invalid e \<longleftrightarrow> Name e ! 0 = FILE_HEADER_BLANK \<or> Name e ! 0 = FILE_HEADER_DELETED \<or>
     Attr e = FILE_ATTR_VOLUME_ID \<or> Attr e AND FILE_ATTR_SYSHID \<noteq> 0"

definition fatfs_entry_lfn_exists :: "lfn_cache \<Rightarrow> fat_dir_entry \<Rightarrow> bool" where
  "fatfs_entry_lfn_exists lfn e \<longleftrightarrow> Attr e \<noteq> FILE_ATTR_LFN_TEXT \<and> Name e ! 0 \<noteq> FILE_HEADER_BLANK \<and>
     Name e ! 0 \<noteq> FILE_HEADER_DELETED \<and> Attr e \<noteq> FILE_ATTR_VOLUME_ID \<and> Attr e AND FILE_ATTR_SYSHID = 0 \<and>
     no_of_strings lfn \<noteq> 0"

definition fatfs_entry_sfn_only :: "fat_dir_entry \<Rightarrow> bool" where
  "fatfs_entry_sfn_only e \<longleftrightarrow> Attr e \<noteq> FILE_ATTR_LFN_TEXT \<and> Name e ! 0 \<noteq> FILE_HEADER_BLANK \<and>
     Name e ! 0 \<noteq> FILE_HEADER_DELETED \<and> Attr e \<noteq> FILE_ATTR_VOLUME_ID \<and> Attr e AND FILE_ATTR_SYSHID = 0"

definition fatfs_entry_is_dir :: "fat_dir_entry \<Rightarrow> bool" where
  "fatfs_entry_is_dir e \<longleftrightarrow> Attr e AND FILE_TYPE_DIR \<noteq> 0"

definition fatfs_entry_is_file :: "fat_dir_entry \<Rightarrow> bool" where
  "fatfs_entry_is_file e \<longleftrightarrow> Attr e AND FILE_TYPE_FILE \<noteq> 0"

section \<open>Creating long entries\<close>

definition fatfs_lfn_entries_required :: "u8 list \<Rightarrow> int" where
  "fatfs_lfn_entries_required filename =
     (let len = int (length filename)
      in if len \<noteq> 0 then (len + int MAX_LFN_ENTRY_LENGTH - 1) div int MAX_LFN_ENTRY_LENGTH else 0)"

text \<open>One character of the loop over the thirteen places.\<close>

definition lfn_put_char :: "u8 list \<Rightarrow> int \<Rightarrow> nat \<Rightarrow> u8 list \<Rightarrow> u8 list" where
  "lfn_put_char filename start i buf =
     (let k = start + int i; j = nameIndexes ! i
      in if k < int (length filename) then buf[j := filename ! nat k]
         else if k = int (length filename) then buf[j := 0]
         else buf[j := 0xFF, j + 1 := 0xFF])"

definition fatfs_filename_to_lfn :: "u8 list \<Rightarrow> int \<Rightarrow> u8 \<Rightarrow> u8 list" where
  "fatfs_filename_to_lfn filename entry sfnChk =
     (let start = entry * int MAX_LFN_ENTRY_LENGTH;
          b0 = (if fatfs_lfn_entries_required filename - 1 = entry then 0x40 OR word_of_int (entry + 1) else word_of_int (entry + 1));
          buf = (replicate FAT_DIR_ENTRY_SIZE 0)[0 := b0, 11 := 0x0F, 13 := sfnChk]
      in fold (lfn_put_char filename start) [0..<MAX_LFN_ENTRY_LENGTH] buf)"

section \<open>Creating short entries\<close>

definition fatfs_sfn_create_entry :: "u8 list \<Rightarrow> u32 \<Rightarrow> u32 \<Rightarrow> bool \<Rightarrow> fat_dir_entry" where
  "fatfs_sfn_create_entry shortfilename fsize startCluster dir =
     \<lparr>Name = take FAT_SFN_SIZE_FULL shortfilename, Attr = (if dir then FILE_TYPE_DIR else FILE_TYPE_FILE), NTRes = 0,
      CrtTimeTenth = 0, CrtTime = [0, 0], CrtDate = [0x20, 0], LstAccDate = [0x20, 0],
      FstClusHI = ucast (drop_bit 16 startCluster AND 0xFFFF), WrtTime = [0, 0], WrtDate = [0x20, 0],
      FstClusLO = ucast (startCluster AND 0xFFFF), FileSize = fsize\<rparr>"

definition upper :: "u8 \<Rightarrow> u8" where
  "upper a = (if 0x61 \<le> a \<and> a \<le> 0x7a then a - 0x61 + 0x41 else a)"

text \<open>The loop over the base: the bytes it stores, at most eight.\<close>

fun sfn_base :: "nat \<Rightarrow> u8 list \<Rightarrow> u8 list" where
  "sfn_base pos [] = []"
| "sfn_base pos (c # cs) =
     (let cp = c \<noteq> 0x20 \<and> c \<noteq> 0x2e; pos = (if cp then pos + 1 else pos)
      in (if cp then [upper c] else []) @ (if pos = FAT_SFN_SIZE_PARTIAL then [] else sfn_base pos cs))"

definition fatfs_lfn_create_sfn :: "u8 list \<Rightarrow> u8 list option" where
  "fatfs_lfn_create_sfn filename =
     (if str_at filename 0 = 0x2e then None
      else
        let dotPos = FileString_GetExtension filename;
            ext = (if dotPos \<noteq> - 1 then take 3 (take 3 (drop (nat (dotPos + 1)) filename) @ replicate 3 0x20) else replicate 3 0x20);
            base = sfn_base 0 (if dotPos \<noteq> - 1 then take (nat dotPos) filename else filename)
        in Some (base @ replicate (FAT_SFN_SIZE_PARTIAL - length base) 0x20 @ map upper ext))"

fun itoa_digits :: "nat \<Rightarrow> u8 list" where
  "itoa_digits n = of_nat (48 + n mod 10) # (if n div 10 > 0 then itoa_digits (n div 10) else [])"

declare itoa_digits.simps [simp del]

definition fatfs_itoa :: "u32 \<Rightarrow> u8 list" where
  "fatfs_itoa num = rev (itoa_digits (unat num))"

definition fatfs_lfn_generate_tail :: "u8 list \<Rightarrow> u32 \<Rightarrow> u8 list option" where
  "fatfs_lfn_generate_tail sfn_input tailNum =
     (if tailNum > 99999 then None
      else
        let tail_str = 0x7e # fatfs_itoa tailNum; tail_chars = length tail_str
        in Some (put_at (FAT_SFN_SIZE_PARTIAL - tail_chars) tail_str (take FAT_SFN_SIZE_FULL sfn_input)))"

section \<open>Times and dates\<close>

definition fatfs_convert_from_fat_time :: "u16 \<Rightarrow> int \<times> int \<times> int" where
  "fatfs_convert_from_fat_time t =
     (uint (drop_bit 11 t AND 0x1F), uint (drop_bit 5 t AND 0x3F), uint (drop_bit 0 t AND 0x1F) * 2)"

definition fatfs_convert_from_fat_date :: "u16 \<Rightarrow> int \<times> int \<times> int" where
  "fatfs_convert_from_fat_date d =
     (uint (drop_bit 0 d AND 0x1F), uint (drop_bit 5 d AND 0xF), uint (drop_bit 9 d AND 0x7F) + 1980)"

text \<open>Division of C integers truncates towards zero.\<close>

definition c_div :: "int \<Rightarrow> int \<Rightarrow> int" where
  "c_div a b = sgn a * sgn b * (\<bar>a\<bar> div \<bar>b\<bar>)"

definition fatfs_convert_to_fat_time :: "int \<Rightarrow> int \<Rightarrow> int \<Rightarrow> u16" where
  "fatfs_convert_to_fat_time hours minutes seconds =
     (let seconds = c_div seconds 2
      in word_of_int (push_bit 11 (hours AND 0x1F)) OR word_of_int (push_bit 5 (minutes AND 0x3F)) OR
         word_of_int (push_bit 0 (seconds AND 0x1F)))"

definition fatfs_convert_to_fat_date :: "int \<Rightarrow> int \<Rightarrow> int \<Rightarrow> u16" where
  "fatfs_convert_to_fat_date day month year =
     (let year = (if year \<ge> 1980 then year - 1980 else year)
      in word_of_int (push_bit 0 (day AND 0x1F)) OR word_of_int (push_bit 5 (month AND 0xF)) OR
         word_of_int (push_bit 9 (year AND 0x7F)))"

end
