(* ===== verification/Fat_String_Correct.thy ===== *)
theory Fat_String_Correct
  imports Fat_String
begin

text \<open>
  What the path and name functions compute: names are equal when their bases without trailing spaces and
  their extensions are, up to case; a path is taken apart into its directory and its file name.
\<close>

section \<open>Names\<close>

text \<open>Reference: the base without trailing spaces and the extension behind the last dot, in lower case.\<close>

definition rtrim :: "u8 list \<Rightarrow> u8 list" where
  "rtrim s = rev (dropWhile (\<lambda>c. c = 0x20) (rev s))"

fun name_parts :: "u8 list \<Rightarrow> u8 list \<times> u8 list option" where
  "name_parts [] = ([], None)"
| "name_parts (c # cs) = (case name_parts cs of
     (b, Some e) \<Rightarrow> (c # b, Some e)
   | (b, None) \<Rightarrow> if c = 0x2e then ([], Some cs) else (c # b, None))"

definition name_key :: "u8 list \<Rightarrow> u8 list \<times> u8 list option" where
  "name_key s = (let (b, e) = name_parts s in (map lower (rtrim b), map_option (map lower) e))"

lemma StrCmpNoCase_eq:
  "0 \<notin> set s1 \<Longrightarrow> 0 \<notin> set s2 \<Longrightarrow> n \<le> length s1 \<Longrightarrow> n \<le> length s2 \<Longrightarrow>
   FileString_StrCmpNoCase s1 s2 n = 0 \<longleftrightarrow> map lower (take n s1) = map lower (take n s2)"
proof (induction s1 s2 n rule: FileString_StrCmpNoCase.induct)
  case (2 s1 s2 n)
  then obtain a as b bs where "s1 = a # as" "s2 = b # bs" by (cases s1; cases s2) auto
  with 2 show ?case by (simp add: str_at_def Let_def word_uint_eq_iff[symmetric])
qed simp

lemma get_extension_loop_parts:
  "get_extension_loop d i s = (case name_parts s of (b, None) \<Rightarrow> d | (b, Some e) \<Rightarrow> i + int (length b))"
  by (induction s arbitrary: d i) (auto split: option.splits prod.splits)

lemma name_parts_split:
  "name_parts s = (b, e) \<Longrightarrow> s = b @ (case e of None \<Rightarrow> [] | Some x \<Rightarrow> 0x2e # x)"
  by (induction s arbitrary: b e) (auto split: option.splits prod.splits if_splits)

lemma TrimLength_rtrim: "n \<le> length s \<Longrightarrow> FileString_TrimLength s n = length (rtrim (take n s)) \<and>
  take (FileString_TrimLength s n) s = rtrim (take n s)"
  by (induction n) (auto simp: rtrim_def str_at_def take_Suc_conv_app_nth)

lemma compare_names_key:
  assumes "0 \<notin> set a" "0 \<notin> set b"
  shows "fatfs_compare_names a b \<longleftrightarrow> name_key a = name_key b"
proof -
  obtain b1 e1 where p1: "name_parts a = (b1, e1)" by fastforce
  obtain b2 e2 where p2: "name_parts b = (b2, e2)" by fastforce
  note s1 = name_parts_split[OF p1] and s2 = name_parts_split[OF p2]
  have ext: "FileString_GetExtension a = (case e1 of None \<Rightarrow> - 1 | Some x \<Rightarrow> int (length b1))"
    "FileString_GetExtension b = (case e2 of None \<Rightarrow> - 1 | Some x \<Rightarrow> int (length b2))"
    by (simp_all add: FileString_GetExtension_def get_extension_loop_parts p1 p2 split: option.splits)
  have t: "length b1 \<le> length a" "length b2 \<le> length b" "take (length b1) a = b1" "take (length b2) b = b2"
    by (simp_all add: s1 s2)
  note tr = TrimLength_rtrim[OF t(1), unfolded t(3)] TrimLength_rtrim[OF t(2), unfolded t(4)]
  have tl: "length (rtrim x) \<le> length x" for x
    using length_dropWhile_le[of _ "rev x"] by (simp add: rtrim_def)
  have base: "FileString_TrimLength a (length b1) = FileString_TrimLength b (length b2) \<and>
      FileString_StrCmpNoCase a b (FileString_TrimLength a (length b1)) = 0 \<longleftrightarrow>
      map lower (rtrim b1) = map lower (rtrim b2)"
  proof (cases "length (rtrim b1) = length (rtrim b2)")
    case True
    have le: "length (rtrim b1) \<le> length a" "length (rtrim b1) \<le> length b"
      using t tl[of b1] tl[of b2] True by linarith+
    show ?thesis using StrCmpNoCase_eq[OF assms le] tr True by (metis)
  next
    case False
    then show ?thesis using tr by (metis length_map)
  qed
  show ?thesis
  proof (cases e1; cases e2)
    assume "e1 = None" "e2 = None"
    moreover from this have "b1 = a" "b2 = b" using s1 s2 by simp_all
    ultimately show ?thesis using base by (auto simp: fatfs_compare_names_def ext name_key_def p1 p2 Let_def)
  next
    fix x y assume e: "e1 = Some x" "e2 = Some y"
    have "0 \<notin> set x" "0 \<notin> set y" using assms s1 s2 e by simp_all
    moreover have "drop (Suc (length b1)) a = x" "drop (Suc (length b2)) b = y" by (simp_all add: s1 s2 e)
    moreover have "nat (int k + 1) = Suc k" for k by simp
    ultimately show ?thesis
      using base StrCmpNoCase_eq[of x y "length x"] e
      by (auto simp: fatfs_compare_names_def ext name_key_def p1 p2 Let_def dest: map_eq_imp_length_eq)
  qed (auto simp: fatfs_compare_names_def ext name_key_def p1 p2 Let_def)
qed

text \<open>
  Names. \<^verbatim>\<open>fatfs_compare_names\<close> decides whether two names have the same base, not counting trailing
  spaces, and the same extension, both up to case.
\<close>
theorem compare_names_correct:
  assumes "0 \<notin> set a" "0 \<notin> set b"
  shows "fatfs_compare_names a b \<longleftrightarrow> name_key a = name_key b"
  by (rule compare_names_key[OF assms])

theorem compare_names_correct_witness: "fatfs_compare_names (lit ''FILE  .ext'') (lit ''file.EXT'')"
  using compare_names_correct[of "lit ''FILE  .ext''" "lit ''file.EXT''"]
  by (simp add: lit_def name_key_def rtrim_def lower_def)

section \<open>Paths\<close>

fun pieces :: "u8 \<Rightarrow> u8 list \<Rightarrow> u8 list list" where
  "pieces e [] = [[]]"
| "pieces e (c # cs) = (if c = e then [] # pieces e cs else (c # hd (pieces e cs)) # tl (pieces e cs))"

lemma pieces_ne [simp]: "pieces e cs \<noteq> []"
  by (induction cs) auto

lemma substring_loop_past: "req < lv \<Longrightarrow> substring_loop e req mx lv out cs = out"
  by (induction cs arbitrary: lv out) auto

lemma substring_loop_pieces:
  "lv \<le> req \<Longrightarrow> substring_loop e req mx lv out cs = out @
     (if nat (req - lv) < length (pieces e cs) then take (nat (mx - 1 - int (length out))) (pieces e cs ! nat (req - lv)) else [])"
proof (induction cs arbitrary: lv out)
  case (Cons c cs)
  obtain x xs where ps: "pieces e cs = x # xs" by (cases "pieces e cs") auto
  show ?case
  proof (cases "c = e")
    case True
    show ?thesis
    proof (cases "lv = req")
      case lv: True
      then show ?thesis using True by (simp add: substring_loop_past)
    next
      case False
      with Cons.prems have "nat (req - lv) = Suc (nat (req - (lv + 1)))" "lv + 1 \<le> req" by linarith+
      with Cons.IH[of "lv + 1" out] False True show ?thesis by simp
    qed
  next
    case False
    show ?thesis
    proof (cases "lv = req")
      case lv: True
      have "nat (mx - 1 - int (length (out @ [c]))) = nat (mx - 1 - int (length out)) - 1" by simp
      then show ?thesis
        using Cons.IH[of lv "out @ [c]"] Cons.IH[of lv out] False lv ps
        by (cases "nat (mx - 1 - int (length out))") auto
    next
      case nlv: False
      with Cons.prems obtain k where "nat (req - lv) = Suc k" by (cases "nat (req - lv)") auto
      with Cons.IH[of lv out] Cons.prems False nlv ps show ?thesis by simp
    qed
  qed
qed simp

lemma skip_level_pieces:
  "e \<notin> set x \<Longrightarrow> skip_level e (x @ e # cs) = cs" "e \<notin> set x \<Longrightarrow> skip_level e x = []"
  by (induction x) auto

lemma count_levels_pieces:
  "count_levels e cs = (if cs = [] then 0 else if last cs = e then int (length (pieces e cs)) - 1 else int (length (pieces e cs)))"
proof (induction e cs rule: count_levels.induct)
  case (1 e cs)
  show ?case
  proof (cases "cs = []")
    case True then show ?thesis by (simp add: count_levels.simps)
  next
    case False
    have len: "length (pieces e cs) = (if e \<in> set cs then Suc (length (pieces e (skip_level e cs))) else 1)" for cs
      by (induction cs) auto
    have last: "skip_level e cs \<noteq> [] \<Longrightarrow> last (skip_level e cs) = last cs" "e \<notin> set cs \<Longrightarrow> skip_level e cs = []" for cs
      by (induction cs) (auto split: if_splits)
    have empty: "e \<in> set cs \<Longrightarrow> skip_level e cs = [] \<Longrightarrow> last cs = e" for cs
      by (induction cs) (auto split: if_splits)
    show ?thesis
      using 1[OF False] False len[of cs] last[of cs] empty[of cs]
      by (subst count_levels.simps) (auto split: if_splits)
  qed
qed

text \<open>A path of named directories and a file, as the reference splits it.\<close>

fun join :: "u8 \<Rightarrow> u8 list list \<Rightarrow> u8 list" where
  "join e [] = []"
| "join e (d # ds) = e # d @ join e ds"

lemma pieces_append: "e \<notin> set d \<Longrightarrow> pieces e (d @ e # cs) = d # pieces e cs" "e \<notin> set d \<Longrightarrow> pieces e d = [d]"
  by (induction d) auto

lemma pieces_join: "e \<notin> set d \<Longrightarrow> \<forall>x \<in> set ds. e \<notin> set x \<Longrightarrow> pieces e (d @ join e ds) = d # ds"
  by (induction ds arbitrary: d) (simp_all add: pieces_append)

definition name_ok :: "u8 list \<Rightarrow> bool" where
  "name_ok d \<longleftrightarrow> d \<noteq> [] \<and> 0 \<notin> set d \<and> 0x2f \<notin> set d"

lemma path_start_join: "path_start (join 0x2f (d # ds)) = Some (0x2f, d @ join 0x2f ds)"
  by (simp add: path_start_def str_at_def)

lemma total_levels_join:
  assumes "\<forall>d \<in> set (d # ds). name_ok d"
  shows "fatfs_total_path_levels (join 0x2f (d # ds)) = int (length ds)"
proof -
  have "last (d @ join 0x2f ds) \<noteq> 0x2f"
    using assms
  proof (induction ds arbitrary: d)
    case Nil then show ?case by (auto simp: name_ok_def) (metis last_in_set)
  next
    case (Cons x xs) then show ?case using Cons.IH[of x] by (auto simp: name_ok_def)
  qed
  moreover have "pieces 0x2f (d @ join 0x2f ds) = d # ds" using assms by (intro pieces_join) (auto simp: name_ok_def)
  moreover have "d \<noteq> []" using assms by (simp add: name_ok_def)
  ultimately show ?thesis
    unfolding fatfs_total_path_levels_def path_start_join by (simp add: count_levels_pieces)
qed

lemma get_substring_join:
  assumes "\<forall>d \<in> set (d # ds). name_ok d" "k < Suc (length ds)" "int (length ((d # ds) ! k)) < mx"
  shows "fatfs_get_substring (join 0x2f (d # ds)) (int k) mx = (0, Some ((d # ds) ! k))"
proof -
  have p: "pieces 0x2f (d @ join 0x2f ds) = d # ds" using assms(1) by (intro pieces_join) (auto simp: name_ok_def)
  have "name_ok ((d # ds) ! k)" using assms(1,2) by (metis length_Cons nth_mem)
  then show ?thesis
    using assms(2,3) unfolding fatfs_get_substring_def path_start_join
    by (simp add: substring_loop_pieces p name_ok_def)
qed

lemma split_path_join:
  assumes "\<forall>d \<in> set (ds @ [f]). name_ok d" "int (length (join 0x2f ds)) < max_path" "int (length f) < max_filename"
  shows "fatfs_split_path (join 0x2f (ds @ [f])) max_path max_filename = (0, Some (join 0x2f ds), Some f)"
proof -
  have ap: "join 0x2f (ds @ [f]) = join 0x2f ds @ 0x2f # f" by (induction ds) auto
  have lv: "fatfs_total_path_levels (join 0x2f (ds @ [f])) = int (length ds)"
    using total_levels_join[of "hd (ds @ [f])" "tl (ds @ [f])"] assms(1) by (cases ds) auto
  have sub: "fatfs_get_substring (join 0x2f (ds @ [f])) (int (length ds)) max_filename = (0, Some f)"
    using get_substring_join[of "hd (ds @ [f])" "tl (ds @ [f])" "length ds" max_filename] assms(1,3)
    by (cases ds) (auto simp: nth_append)
  show ?thesis
    unfolding fatfs_split_path_def lv sub Let_def using assms(2) by (simp add: ap)
qed

text \<open>
  Paths. A path of named directories and a file, each name shorter than the buffer, is split into the
  path of the directories and the name of the file; the number of levels is the number of directories,
  and the part at each level is the name there.
\<close>
theorem split_path_correct:
  assumes "\<forall>d \<in> set (ds @ [f]). name_ok d" "int (length (join 0x2f ds)) < max_path" "int (length f) < max_filename"
  shows "fatfs_split_path (join 0x2f (ds @ [f])) max_path max_filename = (0, Some (join 0x2f ds), Some f) \<and>
    fatfs_total_path_levels (join 0x2f (ds @ [f])) = int (length ds) \<and>
    (\<forall>k < length ds. int (length (ds ! k)) < max_filename \<longrightarrow>
       fatfs_get_substring (join 0x2f (ds @ [f])) (int k) max_filename = (0, Some (ds ! k)))"
proof (intro conjI allI impI)
  obtain d xs where e: "ds @ [f] = d # xs" by (cases ds) auto
  then have len: "length xs = length ds" by (metis length_Cons length_append_singleton nat.inject)
  show "fatfs_split_path (join 0x2f (ds @ [f])) max_path max_filename = (0, Some (join 0x2f ds), Some f)"
    by (rule split_path_join[OF assms])
  show "fatfs_total_path_levels (join 0x2f (ds @ [f])) = int (length ds)"
    using total_levels_join[of d xs] assms(1) by (simp only: e len)
  fix k assume k: "k < length ds" "int (length (ds ! k)) < max_filename"
  then have "(ds @ [f]) ! k = ds ! k" by (simp add: nth_append)
  then show "fatfs_get_substring (join 0x2f (ds @ [f])) (int k) max_filename = (0, Some (ds ! k))"
    using get_substring_join[of d xs k max_filename] assms(1) k len by (simp add: e)
qed

theorem split_path_correct_witness:
  "fatfs_split_path (lit ''/dev/etc/file.zip'') 255 255 = (0, Some (lit ''/dev/etc''), Some (lit ''file.zip''))"
proof -
  have "join 0x2f ([lit ''dev'', lit ''etc''] @ [lit ''file.zip'']) = lit ''/dev/etc/file.zip''"
    "join 0x2f [lit ''dev'', lit ''etc''] = lit ''/dev/etc''" by code_simp+
  moreover have "\<forall>d \<in> set ([lit ''dev'', lit ''etc''] @ [lit ''file.zip'']). name_ok d" by code_simp
  ultimately show ?thesis
    using split_path_correct[of "[lit ''dev'', lit ''etc'']" "lit ''file.zip''" 255 255] by (simp add: lit_def)
qed

text \<open>A literal with a bar for each backslash.\<close>

definition dos :: "string \<Rightarrow> u8 list" where
  "dos s = map (\<lambda>c. if c = 0x7c then 0x5c else c) (lit s)"

text \<open>
  The test bench at the end of the source holds in the model.
\<close>
theorem string_testbench:
  "fatfs_total_path_levels (dos ''C:|folder|file.zip'') = 1 \<and> fatfs_total_path_levels (dos ''C:|file.zip'') = 0 \<and>
   fatfs_total_path_levels (dos ''C:|folder|folder2|file.zip'') = 2 \<and> fatfs_total_path_levels (dos ''C:|'') = - 1 \<and>
   fatfs_total_path_levels [] = - 1 \<and> fatfs_total_path_levels (lit ''/dev/etc/file.zip'') = 2 \<and>
   fatfs_total_path_levels (lit ''/dev/file.zip'') = 1 \<and>
   fatfs_get_substring (dos ''C:|folder|file.zip'') 0 255 = (0, Some (lit ''folder'')) \<and>
   fatfs_get_substring (dos ''C:|folder|file.zip'') 1 255 = (0, Some (lit ''file.zip'')) \<and>
   fatfs_get_substring (lit ''/dev/etc/file.zip'') 0 255 = (0, Some (lit ''dev'')) \<and>
   fatfs_get_substring (lit ''/dev/etc/file.zip'') 1 255 = (0, Some (lit ''etc'')) \<and>
   fatfs_get_substring (lit ''/dev/etc/file.zip'') 2 255 = (0, Some (lit ''file.zip'')) \<and>
   fatfs_split_path (dos ''C:|folder|file.zip'') 255 255 = (0, Some (dos ''C:|folder''), Some (lit ''file.zip'')) \<and>
   fatfs_split_path (dos ''C:|file.zip'') 255 255 = (0, Some [], Some (lit ''file.zip'')) \<and>
   fatfs_split_path (lit ''/dev/etc/file.zip'') 255 255 = (0, Some (lit ''/dev/etc''), Some (lit ''file.zip'')) \<and>
   FileString_GetExtension (dos ''C:|file.zip'') = int (length (dos ''C:|file'')) \<and>
   FileString_GetExtension (dos ''C:|file.zip.ext'') = int (length (dos ''C:|file.zip'')) \<and>
   FileString_GetExtension (dos ''C:|file.zip.'') = int (length (dos ''C:|file.zip'')) \<and>
   FileString_TrimLength (dos ''C:|file.zip'') 11 = 11 \<and> FileString_TrimLength (dos ''C:|file.zip   '') 14 = 11 \<and>
   FileString_TrimLength (lit ''   '') 3 = 0 \<and>
   fatfs_compare_names (dos ''C:|file.ext'') (dos ''C:|file.ext'') \<and> \<not> fatfs_compare_names (dos ''C:|file2.ext'') (dos ''C:|file.ext'') \<and>
   fatfs_compare_names (dos ''C:|file  .ext'') (dos ''C:|file.ext'') \<and> \<not> fatfs_compare_names (dos ''C:|file  .ext'') (dos ''C:|file2.ext'') \<and>
   \<not> fatfs_string_ends_with_slash (dos ''C:|folder'') \<and> fatfs_string_ends_with_slash (dos ''C:|folder|'') \<and>
   \<not> fatfs_string_ends_with_slash (lit ''/path'') \<and> \<not> fatfs_string_ends_with_slash (lit ''/path/a'') \<and>
   fatfs_string_ends_with_slash (lit ''/path/'') \<and>
   fatfs_get_extension (lit ''/mypath/file.wav'') 4 = Some (lit ''wav'') \<and> fatfs_get_extension (lit ''/mypath/file.WAV'') 4 = Some (lit ''wav'') \<and>
   fatfs_get_extension (lit ''/mypath/file.zip'') 4 = Some (lit ''zip'') \<and>
   fatfs_create_path_string (lit ''/mydir1'') (lit ''myfile.txt'') 255 = Some (lit ''/mydir1/myfile.txt'') \<and>
   fatfs_create_path_string (lit ''/mydir2/'') (lit ''myfile2.txt'') 255 = Some (lit ''/mydir2/myfile2.txt'') \<and>
   fatfs_create_path_string (dos ''C:|mydir3'') (lit ''myfile3.txt'') 255 = Some (dos ''C:|mydir3|myfile3.txt'')"
  by (intro conjI; code_simp)

lemma path_copy_loop_length: "int (length (fst (path_copy_loop room l sep p))) = max 0 (min room (int (length p)))"
  by (induction room l sep p rule: path_copy_loop.induct) (auto split: prod.splits)

lemma path_copy_loop_last:
  "fst (snd (path_copy_loop room l sep p)) = (if fst (path_copy_loop room l sep p) = [] then l else last (fst (path_copy_loop room l sep p)))"
  by (induction room l sep p rule: path_copy_loop.induct) (auto split: prod.splits)

text \<open>
  Building a path. The separator is not counted: a string that \<^verbatim>\<open>fatfs_create_path_string\<close> builds may take,
  with its terminator, one byte more than the buffer has, and never more than that.
\<close>
theorem create_path_string_bound:
  "(\<forall>path filename maxlen s. fatfs_create_path_string path filename maxlen = Some s \<longrightarrow> int (length s) + 1 \<le> maxlen + 1) \<and>
   fatfs_create_path_string (lit ''/ab'') (lit ''cd'') 4 = Some (lit ''/a/c'')"
proof (intro conjI allI impI)
  fix path filename s :: "u8 list" and maxlen :: int
  assume a: "fatfs_create_path_string path filename maxlen = Some s"
  obtain out l sep where p: "path_copy_loop (maxlen - 2) 0 0x2f path = (out, l, sep)" by (cases "path_copy_loop (maxlen - 2) 0 0x2f path") auto
  have "int (length out) = max 0 (min (maxlen - 2) (int (length path)))"
    using path_copy_loop_length[of "maxlen - 2" 0 "0x2f" path] p by simp
  then show "int (length s) + 1 \<le> maxlen + 1"
    using a by (auto simp: fatfs_create_path_string_def p split: if_splits)
qed code_simp

theorem create_path_string_bound_witness:
  "fatfs_create_path_string (lit ''/ab'') (lit ''cd'') 4 = Some (lit ''/a/c'') \<and> length (lit ''/a/c'') = 4"
  using create_path_string_bound by (simp add: lit_def)

end
