(* ===== verification/Fat_Table.thy ===== *)
theory Fat_Table
  imports Fat_Defs "HOL-Library.Monad_Syntax"
begin

text \<open>
  \<^verbatim>\<open>fat_table.c\<close>: the buffers through which FAT sectors are read and written back, and the operations on
  the table itself. A pointer to a buffer is its index in the chain. The functions that change the
  table are compiled when \<^verbatim>\<open>FATFS_INC_WRITE_SUPPORT\<close> is set. A loop along a cluster chain need not end
  and is a partial function, \<open>None\<close> standing for a loop that runs on.
\<close>

section \<open>Sector buffers\<close>

definition fat_buffer_reset :: fat_buffer where
  "fat_buffer_reset = \<lparr>fb_sector = replicate FAT_SECTOR_SIZE_n 0, fb_address = FAT32_INVALID_CLUSTER,
     fb_dirty = False, fb_ptr = None\<rparr>"

definition fatfs_fat_init :: "'d fatfs \<Rightarrow> 'd fatfs" where
  "fatfs_fat_init fs = fs\<lparr>fat_buffers := fold (\<lambda>i bs. fat_buffer_reset # bs) [0..<FAT_BUFFERS] []\<rparr>"

definition upd_buf :: "nat \<Rightarrow> (fat_buffer \<Rightarrow> fat_buffer) \<Rightarrow> 'd fatfs \<Rightarrow> 'd fatfs" where
  "upd_buf i f fs = fs\<lparr>fat_buffers := (fat_buffers fs)[i := f (fat_buffers fs ! i)]\<rparr>"

definition fatfs_fat_writeback :: "nat \<Rightarrow> 'd fatfs \<Rightarrow> bool \<times> 'd fatfs" where
  "fatfs_fat_writeback i fs =
     (let pcur = fat_buffers fs ! i
      in if fb_dirty pcur then
           let (ok, fs) =
             (if write_media (disk_io fs) \<noteq> None then
                let off = fb_address pcur - fat_begin_lba fs;
                    sectors = (if off + FAT_BUFFER_SECTORS \<le> fat_sectors fs then FAT_BUFFER_SECTORS else fat_sectors fs - off)
                in disk_write (fb_address pcur) (fb_sector pcur) sectors fs
              else (True, fs))
           in if ok then (True, upd_buf i (\<lambda>b. b\<lparr>fb_dirty := False\<rparr>) fs) else (False, fs)
         else (True, fs))"

text \<open>The search along the chain for the buffer that holds a sector.\<close>

fun fat_buffer_find :: "u32 \<Rightarrow> fat_buffer list \<Rightarrow> nat option" where
  "fat_buffer_find s [] = None"
| "fat_buffer_find s (b # bs) =
     (if s \<ge> fb_address b \<and> s < fb_address b + FAT_BUFFER_SECTORS then Some 0 else map_option Suc (fat_buffer_find s bs))"

text \<open>
  When no buffer holds the sector the search has taken the last buffer off the chain; it goes to the
  head, is written back when it is dirty and filled anew.
\<close>

definition fatfs_fat_read_sector :: "u32 \<Rightarrow> 'd fatfs \<Rightarrow> nat option \<times> 'd fatfs" where
  "fatfs_fat_read_sector s fs =
     (case fat_buffer_find s (fat_buffers fs) of
        Some i \<Rightarrow> (Some i, upd_buf i (\<lambda>b. b\<lparr>fb_ptr := Some (unat (s - fb_address b) * FAT_SECTOR_SIZE_n)\<rparr>) fs)
      | None \<Rightarrow>
          let fs = fs\<lparr>fat_buffers := last (fat_buffers fs) # butlast (fat_buffers fs)\<rparr>;
              (ok, fs) = (if fb_dirty (fat_buffers fs ! 0) then fatfs_fat_writeback 0 fs else (True, fs))
          in if \<not> ok then (None, fs)
             else
               let (r, bs) = disk_read fs s FAT_BUFFER_SECTORS;
                   fs = upd_buf 0 (\<lambda>b. b\<lparr>fb_address := s, fb_sector := overlay bs (fb_sector b)\<rparr>) fs
               in if \<not> r then (None, upd_buf 0 (\<lambda>b. b\<lparr>fb_address := FAT32_INVALID_CLUSTER\<rparr>) fs)
                  else (Some 0, upd_buf 0 (\<lambda>b. b\<lparr>fb_ptr := Some 0\<rparr>) fs))"

fun fat_purge_from :: "nat \<Rightarrow> nat \<Rightarrow> 'd fatfs \<Rightarrow> bool \<times> 'd fatfs" where
  "fat_purge_from i 0 fs = (True, fs)"
| "fat_purge_from i (Suc n) fs =
     (let (ok, fs) = (if fb_dirty (fat_buffers fs ! i) then fatfs_fat_writeback i fs else (True, fs))
      in if ok then fat_purge_from (Suc i) n fs else (False, fs))"

definition fatfs_fat_purge :: "'d fatfs \<Rightarrow> bool \<times> 'd fatfs" where
  "fatfs_fat_purge fs = fat_purge_from 0 (length (fat_buffers fs)) fs"

text \<open>The access macros: the bytes behind the pointer of a buffer.\<close>

definition buf_ptr :: "fat_buffer \<Rightarrow> nat" where
  "buf_ptr b = (case fb_ptr b of Some n \<Rightarrow> n | None \<Rightarrow> 0)"

definition FAT32_GET_32BIT_WORD :: "'d fatfs \<Rightarrow> nat \<Rightarrow> nat \<Rightarrow> u32" where
  "FAT32_GET_32BIT_WORD fs i l = (let b = fat_buffers fs ! i in GET_32BIT_WORD (fb_sector b) (buf_ptr b + l))"

definition FAT16_GET_16BIT_WORD :: "'d fatfs \<Rightarrow> nat \<Rightarrow> nat \<Rightarrow> u16" where
  "FAT16_GET_16BIT_WORD fs i l = (let b = fat_buffers fs ! i in GET_16BIT_WORD (fb_sector b) (buf_ptr b + l))"

definition FAT32_SET_32BIT_WORD :: "nat \<Rightarrow> nat \<Rightarrow> u32 \<Rightarrow> 'd fatfs \<Rightarrow> 'd fatfs" where
  "FAT32_SET_32BIT_WORD i l v =
     upd_buf i (\<lambda>b. b\<lparr>fb_sector := SET_32BIT_WORD (buf_ptr b + l) v (fb_sector b), fb_dirty := True\<rparr>)"

definition FAT16_SET_16BIT_WORD :: "nat \<Rightarrow> nat \<Rightarrow> u16 \<Rightarrow> 'd fatfs \<Rightarrow> 'd fatfs" where
  "FAT16_SET_16BIT_WORD i l v =
     upd_buf i (\<lambda>b. b\<lparr>fb_sector := SET_16BIT_WORD (buf_ptr b + l) v (fb_sector b), fb_dirty := True\<rparr>)"

section \<open>The table\<close>

text \<open>The sector of the FAT that holds the entry of a cluster, and the place of the entry in it.\<close>

definition fat_sector_offset :: "'d fatfs \<Rightarrow> u32 \<Rightarrow> u32" where
  "fat_sector_offset fs c = (if fat_type fs = FAT_TYPE_16 then c div 256 else c div 128)"

definition fat_position :: "'d fatfs \<Rightarrow> u32 \<Rightarrow> u32" where
  "fat_position fs c = (if fat_type fs = FAT_TYPE_16 then (c - fat_sector_offset fs c * 256) * 2
     else (c - fat_sector_offset fs c * 128) * 4)"

definition fatfs_find_next_cluster :: "u32 \<Rightarrow> 'd fatfs \<Rightarrow> u32 \<times> 'd fatfs" where
  "fatfs_find_next_cluster current fs =
     (let current = (if current = 0 then 2 else current);
          off = fat_sector_offset fs current;
          (pbuf, fs) = fatfs_fat_read_sector (fat_begin_lba fs + off) fs
      in case pbuf of None \<Rightarrow> (FAT32_LAST_CLUSTER, fs)
         | Some i \<Rightarrow>
             let position = unat (ucast (fat_position fs current) :: u16)
             in if fat_type fs = FAT_TYPE_16 then
                  let next = ucast (FAT16_GET_16BIT_WORD fs i position) :: u32
                  in if 0xFFF8 \<le> next \<and> next \<le> 0xFFFF then (FAT32_LAST_CLUSTER, fs) else (next, fs)
                else
                  let next = FAT32_GET_32BIT_WORD fs i position AND 0x0FFFFFFF
                  in if 0x0FFFFFF8 \<le> next \<and> next \<le> 0x0FFFFFFF then (FAT32_LAST_CLUSTER, fs) else (next, fs))"

definition fatfs_set_fs_info_next_free_cluster :: "u32 \<Rightarrow> 'd fatfs \<Rightarrow> 'd fatfs" where
  "fatfs_set_fs_info_next_free_cluster v fs =
     (if fat_type fs = FAT_TYPE_16 then fs
      else
        let (pbuf, fs) = fatfs_fat_read_sector (lba_begin fs + ucast (fs_info_sector fs)) fs
        in case pbuf of None \<Rightarrow> fs
           | Some i \<Rightarrow>
               let fs = (FAT32_SET_32BIT_WORD i 492 v fs)\<lparr>next_free_cluster := v\<rparr>;
                   b = fat_buffers fs ! i;
                   fs = (if write_media (disk_io fs) \<noteq> None then snd (disk_write (fb_address b) (fb_sector b) 1 fs) else fs)
               in upd_buf i (\<lambda>b. b\<lparr>fb_address := FAT32_INVALID_CLUSTER, fb_dirty := False\<rparr>) fs)"

text \<open>The entry of a cluster as the search for a free one reads it, through a given buffer.\<close>

definition fat_raw_entry :: "'d fatfs \<Rightarrow> nat \<Rightarrow> u32 \<Rightarrow> u32" where
  "fat_raw_entry fs i c =
     (let position = unat (ucast (fat_position fs c) :: u16)
      in if fat_type fs = FAT_TYPE_16 then ucast (FAT16_GET_16BIT_WORD fs i position)
         else FAT32_GET_32BIT_WORD fs i position AND 0x0FFFFFFF)"

partial_function (option) fatfs_find_blank_cluster :: "u32 \<Rightarrow> 'd fatfs \<Rightarrow> (u32 option \<times> 'd fatfs) option" where
  "fatfs_find_blank_cluster current fs =
     (let off = fat_sector_offset fs current
      in if off < fat_sectors fs then
           case fatfs_fat_read_sector (fat_begin_lba fs + off) fs of
             (None, fs) \<Rightarrow> Some (None, fs)
           | (Some i, fs) \<Rightarrow>
               if fat_raw_entry fs i current \<noteq> 0 then fatfs_find_blank_cluster (current + 1) fs
               else Some (Some current, fs)
         else Some (None, fs))"

definition fatfs_fat_set_cluster :: "u32 \<Rightarrow> u32 \<Rightarrow> 'd fatfs \<Rightarrow> bool \<times> 'd fatfs" where
  "fatfs_fat_set_cluster cluster next fs =
     (case fatfs_fat_read_sector (fat_begin_lba fs + fat_sector_offset fs cluster) fs of
        (None, fs) \<Rightarrow> (False, fs)
      | (Some i, fs) \<Rightarrow>
          let position = unat (ucast (fat_position fs cluster) :: u16)
          in if fat_type fs = FAT_TYPE_16 then (True, FAT16_SET_16BIT_WORD i position (ucast next) fs)
             else (True, FAT32_SET_32BIT_WORD i position next fs))"

partial_function (option) fatfs_free_cluster_chain :: "u32 \<Rightarrow> 'd fatfs \<Rightarrow> (bool \<times> 'd fatfs) option" where
  "fatfs_free_cluster_chain next fs =
     (if next \<noteq> FAT32_LAST_CLUSTER \<and> next \<noteq> 0 then
        let prev = next; (next, fs) = fatfs_find_next_cluster next fs; (_, fs) = fatfs_fat_set_cluster prev 0 fs
        in fatfs_free_cluster_chain next fs
      else Some (True, fs))"

text \<open>The end of a chain: its last cluster, or nothing when a link is zero.\<close>

partial_function (option) fat_chain_end :: "u32 \<Rightarrow> u32 \<Rightarrow> 'd fatfs \<Rightarrow> (u32 option \<times> 'd fatfs) option" where
  "fat_chain_end prev next fs =
     (if next \<noteq> FAT32_LAST_CLUSTER then
        let prev = next; (next, fs) = fatfs_find_next_cluster next fs
        in if next = 0 then Some (None, fs) else fat_chain_end prev next fs
      else Some (Some prev, fs))"

definition fatfs_fat_add_cluster_to_chain :: "u32 \<Rightarrow> u32 \<Rightarrow> 'd fatfs \<Rightarrow> (bool \<times> 'd fatfs) option" where
  "fatfs_fat_add_cluster_to_chain start new fs =
     (if start = FAT32_LAST_CLUSTER then Some (False, fs)
      else do {
        (last, fs) \<leftarrow> fat_chain_end FAT32_LAST_CLUSTER start fs;
        Some (case last of None \<Rightarrow> (False, fs)
          | Some l \<Rightarrow> (True, snd (fatfs_fat_set_cluster new FAT32_LAST_CLUSTER (snd (fatfs_fat_set_cluster l new fs)))))
      })"

text \<open>The zero entries of one sector of the table: the upper four bits of an entry count here.\<close>

definition fat_zero_entries :: "'d fatfs \<Rightarrow> nat \<Rightarrow> nat" where
  "fat_zero_entries fs i =
     (if fat_type fs = FAT_TYPE_16 then length (filter (\<lambda>j. FAT16_GET_16BIT_WORD fs i (2 * j) = 0) [0..<256])
      else length (filter (\<lambda>j. FAT32_GET_32BIT_WORD fs i (4 * j) = 0) [0..<128]))"

fun fat_count_loop :: "nat \<Rightarrow> u32 \<Rightarrow> u32 \<Rightarrow> 'd fatfs \<Rightarrow> u32 \<times> 'd fatfs" where
  "fat_count_loop 0 i count fs = (count, fs)"
| "fat_count_loop (Suc n) i count fs =
     (case fatfs_fat_read_sector (fat_begin_lba fs + i) fs of
        (None, fs) \<Rightarrow> (count, fs)
      | (Some b, fs) \<Rightarrow> fat_count_loop n (i + 1) (count + of_nat (fat_zero_entries fs b)) fs)"

definition fatfs_count_free_clusters :: "'d fatfs \<Rightarrow> u32 \<times> 'd fatfs" where
  "fatfs_count_free_clusters fs = fat_count_loop (unat (fat_sectors fs)) 0 0 fs"

end
