(* ===== verification/Fat_Table_Correct.thy ===== *)
theory Fat_Table_Correct
  imports Fat_Table
begin

text \<open>
  The FAT buffers are a transparent write-back cache. \<open>fat_sector fs s\<close> is the contents of sector \<open>s\<close> as
  the library sees it: a buffer's when one holds the sector, else the medium's. Every operation
  keeps the invariant \<open>fat_ok\<close>; reading leaves this view as it is, setting a cluster changes one entry.
\<close>

section \<open>Media and the invariant\<close>

text \<open>
  A medium delivers 512 bytes for a sector or fails; a sector written reads back as written, a failed
  write leaves the medium as it was, and other sectors do not change.
\<close>

definition media_ok :: "'d disk_if \<Rightarrow> bool" where
  "media_ok io \<longleftrightarrow> (\<exists>rd. read_media io = Some rd \<and>
     (\<forall>d s r bs. rd d s 1 = (r, bs) \<longrightarrow> length bs \<le> 512 \<and> (r \<longrightarrow> length bs = 512)) \<and>
     (\<forall>wr. write_media io = Some wr \<longrightarrow> (\<forall>d a bs r d' s. length bs = 512 \<longrightarrow> wr d a bs 1 = (r, d') \<longrightarrow>
        rd d' s 1 = (if r \<and> s = a then (True, bs) else rd d s 1))))"

definition write_reliable :: "'d disk_if \<Rightarrow> bool" where
  "write_reliable io \<longleftrightarrow> (\<forall>wr d a bs. write_media io = Some wr \<longrightarrow> fst (wr d a bs 1))"

lemma media_readD:
  "media_ok (disk_io fs) \<Longrightarrow> disk_read fs s 1 = (r, bs) \<Longrightarrow> length bs \<le> 512 \<and> (r \<longrightarrow> length bs = 512)"
  by (auto simp: media_ok_def disk_read_def)

lemma media_writeD:
  "media_ok (disk_io fs) \<Longrightarrow> length bs = 512 \<Longrightarrow> disk_write a bs 1 fs = (r, fs') \<Longrightarrow>
   disk_read fs' s 1 = (if r \<and> s = a then (True, bs) else disk_read fs s 1)"
  by (cases "write_media (disk_io fs)")
    (auto simp: media_ok_def disk_read_def disk_write_def split: prod.splits)

definition buf_ok :: "'d fatfs \<Rightarrow> fat_buffer \<Rightarrow> bool" where
  "buf_ok fs b \<longleftrightarrow> length (fb_sector b) = 512 \<and>
     (if fb_dirty b then write_media (disk_io fs) \<noteq> None \<and> fb_address b - fat_begin_lba fs < fat_sectors fs
      else fb_address b \<noteq> FAT32_INVALID_CLUSTER \<longrightarrow> disk_read fs (fb_address b) 1 = (True, fb_sector b))"

definition fat_ok :: "'d fatfs \<Rightarrow> bool" where
  "fat_ok fs \<longleftrightarrow> media_ok (disk_io fs) \<and> fat_buffers fs \<noteq> [] \<and>
     unat (fat_begin_lba fs) + unat (fat_sectors fs) < 2 ^ 32 \<and>
     (\<forall>b \<in> set (fat_buffers fs). buf_ok fs b) \<and>
     distinct (filter (\<lambda>a. a \<noteq> FAT32_INVALID_CLUSTER) (map fb_address (fat_buffers fs)))"

definition fat_sector :: "'d fatfs \<Rightarrow> u32 \<Rightarrow> u8 list option" where
  "fat_sector fs s = (case fat_buffer_find s (fat_buffers fs) of
     Some i \<Rightarrow> Some (fb_sector (fat_buffers fs ! i))
   | None \<Rightarrow> (let (r, bs) = disk_read fs s 1 in if r then Some bs else None))"

text \<open>Nothing but the buffers and the medium changes.\<close>

definition same_fs :: "'d fatfs \<Rightarrow> 'd fatfs \<Rightarrow> bool" where
  "same_fs fs fs' \<longleftrightarrow> fs' = fs\<lparr>fat_buffers := fat_buffers fs', media := media fs'\<rparr>"

lemma same_fs_refl [simp]: "same_fs fs fs"
  by (simp add: same_fs_def)

lemma same_fs_trans: "same_fs a b \<Longrightarrow> same_fs b c \<Longrightarrow> same_fs a c"
  unfolding same_fs_def by (cases a, cases b, cases c) simp

lemma same_fsD:
  assumes "same_fs fs fs'"
  shows "fat_type fs' = fat_type fs" "fat_begin_lba fs' = fat_begin_lba fs" "disk_io fs' = disk_io fs"
    "sectors_per_cluster fs' = sectors_per_cluster fs" "cluster_begin_lba fs' = cluster_begin_lba fs"
    "root_entry_count fs' = root_entry_count fs" "rootdir_sectors fs' = rootdir_sectors fs"
    "rootdir_first_sector fs' = rootdir_first_sector fs" "lba_begin fs' = lba_begin fs"
    "fat_sectors fs' = fat_sectors fs" "currentsector fs' = currentsector fs"
    "rootdir_first_cluster fs' = rootdir_first_cluster fs"
  by (subst assms[unfolded same_fs_def], simp)+

section \<open>Buffers in the chain\<close>

lemma distinct_filter_map_unique:
  "distinct (filter P (map f xs)) \<Longrightarrow> x \<in> set xs \<Longrightarrow> y \<in> set xs \<Longrightarrow> f x = f y \<Longrightarrow> P (f x) \<Longrightarrow> x = y"
  by (simp add: filter_map distinct_map inj_on_def)

lemma distinct_filter_rotate:
  assumes "xs \<noteq> []"
  shows "distinct (filter P (map f (last xs # butlast xs))) \<longleftrightarrow> distinct (filter P (map f xs))"
    and "set (last xs # butlast xs) = set xs"
proof -
  obtain ys y where "xs = ys @ [y]" using assms by (cases xs rule: rev_cases) auto
  then show "distinct (filter P (map f (last xs # butlast xs))) \<longleftrightarrow> distinct (filter P (map f xs))"
    "set (last xs # butlast xs) = set xs" by auto
qed

lemma buffer_hit: "s \<ge> a \<and> s < a + FAT_BUFFER_SECTORS \<longleftrightarrow> s = a \<and> s \<noteq> FAT32_INVALID_CLUSTER" for s a :: u32
proof -
  have "s < a + 1 \<longleftrightarrow> s \<le> a" if "a \<noteq> - 1"
    using that by (meson leD leI word_Suc_leI word_less_SucI word_order.extremum_strict less_le_trans not_le
        word_less_predD word_order.not_eq_extremum)
  moreover have "\<not> s < 0" by simp
  ultimately show ?thesis
    unfolding FAT_BUFFER_SECTORS_def FAT32_INVALID_CLUSTER_def by (cases "a = - 1") auto
qed

lemma fat_buffer_find_Some:
  "fat_buffer_find s bs = Some i \<longleftrightarrow> i < length bs \<and> s \<noteq> FAT32_INVALID_CLUSTER \<and> fb_address (bs ! i) = s \<and>
     (\<forall>j < i. fb_address (bs ! j) \<noteq> s)"
  unfolding fat_buffer_find.simps
proof (induction bs arbitrary: i)
  case (Cons b bs)
  show ?case
  proof (cases i)
    case 0
    then show ?thesis by (auto simp: buffer_hit)
  next
    case (Suc k)
    show ?thesis unfolding Suc by (auto simp: buffer_hit Cons.IH All_less_Suc2)
  qed
qed simp

lemma fat_buffer_find_None:
  "fat_buffer_find s bs = None \<longleftrightarrow> s = FAT32_INVALID_CLUSTER \<or> s \<notin> fb_address ` set bs"
  by (induction bs) (auto simp: buffer_hit)

lemma disk_read_bufs [simp]: "disk_read (fs\<lparr>fat_buffers := bs\<rparr>) = disk_read fs"
  by (intro ext) (simp add: disk_read_def split: option.split)

lemma disk_read_upd_buf [simp]: "disk_read (upd_buf i f fs) = disk_read fs"
  by (simp add: upd_buf_def)

lemma buf_ok_bufs [simp]: "buf_ok (fs\<lparr>fat_buffers := bs\<rparr>) b = buf_ok fs b"
  by (simp add: buf_ok_def)

lemma fat_sector_iff:
  assumes "fat_ok fs"
  shows "fat_sector fs s = Some x \<longleftrightarrow>
    (\<exists>b \<in> set (fat_buffers fs). fb_address b = s \<and> s \<noteq> FAT32_INVALID_CLUSTER \<and> fb_sector b = x) \<or>
    ((s = FAT32_INVALID_CLUSTER \<or> s \<notin> fb_address ` set (fat_buffers fs)) \<and> disk_read fs s 1 = (True, x))"
proof (cases "fat_buffer_find s (fat_buffers fs)")
  case None
  then have "fat_sector fs s = (let (r, bs) = disk_read fs s 1 in if r then Some bs else None)"
    by (simp add: fat_sector_def)
  then show ?thesis using None by (auto simp: fat_buffer_find_None split: prod.splits)
next
  case (Some i)
  note i = Some[unfolded fat_buffer_find_Some]
  have d: "distinct (filter (\<lambda>a. a \<noteq> FAT32_INVALID_CLUSTER) (map fb_address (fat_buffers fs)))"
    using assms by (simp add: fat_ok_def)
  have "b = fat_buffers fs ! i" if b: "b \<in> set (fat_buffers fs)" "fb_address b = s" for b
    using distinct_filter_map_unique[OF d] i b by (metis nth_mem)
  then show ?thesis using i Some by (auto simp: fat_sector_def)
qed

section \<open>Operations on the buffers\<close>

lemma fat_rotate:
  assumes "fat_ok fs" "fs' = fs\<lparr>fat_buffers := last (fat_buffers fs) # butlast (fat_buffers fs)\<rparr>"
  shows "fat_ok fs'" "fat_sector fs' = fat_sector fs"
proof -
  have ne: "fat_buffers fs \<noteq> []" using assms(1) by (simp add: fat_ok_def)
  note r = distinct_filter_rotate[OF ne]
  show ok: "fat_ok fs'"
    using assms(1) unfolding assms(2) fat_ok_def by (simp add: r del: list.set list.map filter.simps)
  have "fat_sector fs' s = Some x \<longleftrightarrow> fat_sector fs s = Some x" for s x
    unfolding fat_sector_iff[OF ok] fat_sector_iff[OF assms(1)] using r(2) by (simp add: assms(2) del: list.set)
  then show "fat_sector fs' = fat_sector fs" by (intro ext) (metis not_Some_eq)
qed

lemma dirty_valid:
  assumes "fat_ok fs" "b \<in> set (fat_buffers fs)" "fb_dirty b"
  shows "fb_address b \<noteq> FAT32_INVALID_CLUSTER"
proof
  assume "fb_address b = FAT32_INVALID_CLUSTER"
  moreover have "fb_address b - fat_begin_lba fs < fat_sectors fs" using assms by (auto simp: fat_ok_def buf_ok_def)
  moreover have "unat (fat_begin_lba fs) + unat (fat_sectors fs) < 2 ^ 32" using assms(1) by (simp add: fat_ok_def)
  ultimately show False
    by (simp add: FAT32_INVALID_CLUSTER_def word_less_nat_alt unat_sub_if' split: if_splits)
qed

text \<open>A clean buffer's contents are the medium's.\<close>

lemma clean_sector:
  "fat_ok fs \<Longrightarrow> b \<in> set (fat_buffers fs) \<Longrightarrow> \<not> fb_dirty b \<Longrightarrow> fb_address b \<noteq> FAT32_INVALID_CLUSTER \<Longrightarrow>
   disk_read fs (fb_address b) 1 = (True, fb_sector b)"
  by (auto simp: fat_ok_def buf_ok_def)

lemma writeback_spec:
  assumes "fat_ok fs" "fat_buffers fs = b # bs" "fb_dirty b" "fatfs_fat_writeback 0 fs = (r, fs')"
  shows "fat_ok fs'" "fat_sector fs' = fat_sector fs" "same_fs fs fs'"
    "fat_buffers fs' = (if r then b\<lparr>fb_dirty := False\<rparr> else b) # bs" "write_reliable (disk_io fs) \<Longrightarrow> r"
proof -
  let ?a = "fb_address b"
  have b: "length (fb_sector b) = 512" "write_media (disk_io fs) \<noteq> None" "?a - fat_begin_lba fs < fat_sectors fs"
    and m: "media_ok (disk_io fs)"
    using assms(1-3) by (auto simp: fat_ok_def buf_ok_def)
  have inv: "?a \<noteq> FAT32_INVALID_CLUSTER" using dirty_valid[OF assms(1), of b] assms(2,3) by simp
  have "?a - fat_begin_lba fs + FAT_BUFFER_SECTORS \<le> fat_sectors fs"
    using word_Suc_leI[OF b(3)] by (simp add: FAT_BUFFER_SECTORS_def)
  then obtain fs1 where w: "disk_write ?a (fb_sector b) 1 fs = (r, fs1)"
    and fs': "fs' = (if r then upd_buf 0 (\<lambda>b. b\<lparr>fb_dirty := False\<rparr>) fs1 else fs1)"
    using assms(2-4) b(2) by (auto simp: fatfs_fat_writeback_def Let_def FAT_BUFFER_SECTORS_def split: prod.splits if_splits)
  show "write_reliable (disk_io fs) \<Longrightarrow> r"
    using w b(2) by (auto simp: write_reliable_def disk_write_def split: prod.splits option.splits)
       (metis fst_conv)
  have fs1: "fs1 = fs\<lparr>media := media fs1\<rparr>"
    using w by (auto simp: disk_write_def split: option.splits prod.splits)
  have bufs1: "fat_buffers fs1 = b # bs" by (subst fs1) (simp add: assms(2))
  show bufs: "fat_buffers fs' = (if r then b\<lparr>fb_dirty := False\<rparr> else b) # bs"
    by (simp add: fs' upd_buf_def bufs1)
  show same: "same_fs fs fs'" unfolding same_fs_def fs' upd_buf_def by (subst (1 2 3 4) fs1) simp
  have rd: "disk_read fs' s 1 = (if r \<and> s = ?a then (True, fb_sector b) else disk_read fs s 1)" for s
    using media_writeD[OF m b(1) w] by (simp add: fs')
  have other: "fb_address c \<noteq> ?a" if "c \<in> set bs" for c
    using assms(1,2) that inv by (auto simp: fat_ok_def image_iff)
  have "buf_ok fs' c" if "c \<in> set bs" for c
    using assms(1,2) that other[OF that] by (auto simp: fat_ok_def buf_ok_def rd same_fsD[OF same])
  moreover have "buf_ok fs' (if r then b\<lparr>fb_dirty := False\<rparr> else b)"
    using assms(3) b by (auto simp: buf_ok_def rd same_fsD[OF same])
  ultimately show ok: "fat_ok fs'"
    using assms(1,2) unfolding fat_ok_def bufs by (auto simp: same_fsD[OF same])
  have "fat_sector fs' s = Some x \<longleftrightarrow> fat_sector fs s = Some x" for s x
    using inv unfolding fat_sector_iff[OF ok] fat_sector_iff[OF assms(1)] rd bufs assms(2) by auto
  then show "fat_sector fs' = fat_sector fs" by (intro ext) (metis not_Some_eq)
qed

text \<open>The filling of the clean buffer at the head with a sector that no buffer holds.\<close>

lemma fill_spec:
  assumes "fat_ok fs" "fat_buffers fs = b # bs" "\<not> fb_dirty b" "s = FAT32_INVALID_CLUSTER \<or> s \<notin> fb_address ` set (b # bs)"
    "fs' = fs\<lparr>fat_buffers := b' # bs\<rparr>" "fb_address b' = (if r then s else FAT32_INVALID_CLUSTER)"
    "disk_read fs s 1 = (r, x)" "r \<longrightarrow> fb_sector b' = x" "\<not> fb_dirty b'" "length (fb_sector b') = 512"
  shows "fat_ok fs'" "fat_sector fs' = fat_sector fs"
proof -
  show ok: "fat_ok fs'"
    using assms(1-4) unfolding assms(5) fat_ok_def buf_ok_def
    by (auto simp: assms(6,7,9,10) assms(8)[rule_format] split: if_splits)
  have un: "fb_address b = FAT32_INVALID_CLUSTER" if "c \<in> set bs" "fb_address c = fb_address b" for c
    using assms(1,2) that by (auto simp: fat_ok_def image_iff split: if_splits)
  have "fat_sector fs' t = Some y \<longleftrightarrow> fat_sector fs t = Some y" for t y
    using clean_sector[OF assms(1) _ assms(3)] assms(2,4,7,8) un
    unfolding fat_sector_iff[OF ok] fat_sector_iff[OF assms(1)] by (auto simp: assms(2,5,6))
  then show "fat_sector fs' = fat_sector fs" by (intro ext) (metis not_Some_eq)
qed

definition holds_sector :: "'d fatfs \<Rightarrow> nat \<Rightarrow> u32 \<Rightarrow> u8 list \<Rightarrow> bool" where
  "holds_sector fs i s x \<longleftrightarrow> i < length (fat_buffers fs) \<and> fb_address (fat_buffers fs ! i) = s \<and>
     fb_sector (fat_buffers fs ! i) = x \<and> length x = 512 \<and> fb_ptr (fat_buffers fs ! i) = Some 0"

lemma fat_read_sector_hit:
  assumes "fat_ok fs" "fat_buffer_find s (fat_buffers fs) = Some i" "fatfs_fat_read_sector s fs = (r, fs')"
  shows "fat_ok fs'" "fat_sector fs' = fat_sector fs" "same_fs fs fs'" "r = Some i"
    "holds_sector fs' i s (the (fat_sector fs s))" "fat_sector fs s \<noteq> None"
proof -
  note i = assms(2)[unfolded fat_buffer_find_Some]
  define b where "b = (fat_buffers fs ! i)\<lparr>fb_ptr := Some 0\<rparr>"
  have fs': "fs' = fs\<lparr>fat_buffers := (fat_buffers fs)[i := b]\<rparr>" and r: "r = Some i"
    using assms(2,3) i by (auto simp: fatfs_fat_read_sector_def upd_buf_def b_def)
  have adr: "map fb_address ((fat_buffers fs)[i := b]) = map fb_address (fat_buffers fs)"
    using i by (intro nth_equalityI) (auto simp: nth_list_update b_def)
  have find: "fat_buffer_find t xs = fat_buffer_find t ys" if "map fb_address xs = map fb_address ys" for t xs ys
    using that
  proof (induction xs arbitrary: ys)
    case (Cons x xs) then show ?case by (cases ys) auto
  qed simp
  have "buf_ok fs (fat_buffers fs ! i)" using assms(1) i by (simp add: fat_ok_def)
  then have "buf_ok fs b" by (simp add: buf_ok_def b_def)
  then have "\<forall>c \<in> set ((fat_buffers fs)[i := b]). buf_ok fs c"
    using assms(1) set_update_subset_insert[of "fat_buffers fs" i b] by (auto simp: fat_ok_def)
  then show "fat_ok fs'" using assms(1) by (simp add: fat_ok_def fs' adr del: map_update)
  have "fb_sector ((fat_buffers fs)[i := b] ! j) = fb_sector (fat_buffers fs ! j)" for j
    using i by (cases "j = i") (auto simp: b_def)
  then show "fat_sector fs' = fat_sector fs"
    by (intro ext) (simp add: fat_sector_def fs' find[OF adr] split: option.split)
  show "same_fs fs fs'" by (simp add: same_fs_def fs')
  show "r = Some i" by (rule r)
  have "fat_sector fs s = Some (fb_sector (fat_buffers fs ! i))" using assms(2) by (simp add: fat_sector_def)
  moreover have "length (fb_sector (fat_buffers fs ! i)) = 512" using assms(1) i by (auto simp: fat_ok_def buf_ok_def)
  ultimately show "holds_sector fs' i s (the (fat_sector fs s))" "fat_sector fs s \<noteq> None"
    using i by (simp_all add: holds_sector_def fs' b_def)
qed

lemma fat_read_sector_miss:
  assumes "fat_ok fs" "fat_buffer_find s (fat_buffers fs) = None" "fatfs_fat_read_sector s fs = (r, fs')"
  shows "fat_ok fs'" "fat_sector fs' = fat_sector fs" "same_fs fs fs'"
    "r \<noteq> None \<Longrightarrow> r = Some 0 \<and> fat_sector fs s \<noteq> None \<and> holds_sector fs' 0 s (the (fat_sector fs s))"
    "r = None \<Longrightarrow> write_reliable (disk_io fs) \<Longrightarrow> fat_sector fs s = None"
proof -
  define fs1 where "fs1 = fs\<lparr>fat_buffers := last (fat_buffers fs) # butlast (fat_buffers fs)\<rparr>"
  define b bs where "b = last (fat_buffers fs)" and "bs = butlast (fat_buffers fs)"
  have ne: "fat_buffers fs \<noteq> []" using assms(1) by (simp add: fat_ok_def)
  have b1: "fat_buffers fs1 = b # bs" "same_fs fs fs1" by (simp_all add: fs1_def b_def bs_def same_fs_def)
  have set: "set (b # bs) = set (fat_buffers fs)" unfolding b_def bs_def by (rule distinct_filter_rotate(2)[OF ne])
  note rot = fat_rotate[OF assms(1) fs1_def]
  obtain ok fs2 where w: "(if fb_dirty b then fatfs_fat_writeback 0 fs1 else (True, fs1)) = (ok, fs2)" by fastforce
  have wb: "fat_ok fs2" "fat_sector fs2 = fat_sector fs" "same_fs fs fs2"
    "fat_buffers fs2 = (if fb_dirty b \<and> ok then b\<lparr>fb_dirty := False\<rparr> else b) # bs" "\<not> fb_dirty b \<longrightarrow> ok"
    using writeback_spec[OF rot(1) b1(1), of ok fs2] w b1 rot same_fs_trans[OF b1(2), of fs2] by (auto split: if_splits)
  have wok: "ok" if "write_reliable (disk_io fs)"
    using writeback_spec(5)[OF rot(1) b1(1), of ok fs2] that w by (auto simp: fs1_def split: if_splits)
  have clean: "\<not> fb_dirty (hd (fat_buffers fs2))" if ok using wb(4,5) that by auto
  obtain rd x where x: "disk_read fs2 s 1 = (rd, x)" by fastforce
  define b' where "b' = (if rd then b\<lparr>fb_dirty := False, fb_address := s, fb_sector := overlay x (fb_sector b), fb_ptr := Some 0\<rparr>
     else b\<lparr>fb_dirty := False, fb_address := FAT32_INVALID_CLUSTER, fb_sector := overlay x (fb_sector b)\<rparr>)"
  have res: "r = (if ok \<and> rd then Some 0 else None) \<and> fs' = (if ok then fs2\<lparr>fat_buffers := b' # bs\<rparr> else fs2)"
    using assms(3) x w b1(1) wb(4,5) unfolding fatfs_fat_read_sector_def assms(2) Let_def fs1_def[symmetric]
    by (auto simp: upd_buf_def b'_def FAT_BUFFER_SECTORS_def split: if_splits)
  have lb: "length (fb_sector b) = 512" using assms(1) set by (auto simp: fat_ok_def buf_ok_def)
  have m2: "media_ok (disk_io fs2)" using wb(1) by (simp add: fat_ok_def)
  have lx: "length (overlay x (fb_sector b)) = 512" "rd \<longrightarrow> overlay x (fb_sector b) = x \<and> length x = 512"
    using media_readD[OF m2 x] lb by (auto simp: overlay_def)
  have miss: "s = FAT32_INVALID_CLUSTER \<or> s \<notin> fb_address ` set (hd (fat_buffers fs2) # bs)"
  proof -
    have "fb_address ` set (hd (fat_buffers fs2) # bs) = fb_address ` set (fat_buffers fs)"
      unfolding set[symmetric] by (simp add: wb(4))
    then show ?thesis using assms(2) unfolding fat_buffer_find_None by metis
  qed
  have view: "fat_sector fs s = (if rd then Some x else None)"
  proof -
    have "fat_buffer_find s (fat_buffers fs2) = None"
      using miss unfolding fat_buffer_find_None wb(4) by (auto split: if_splits)
    then show ?thesis unfolding wb(2)[symmetric] by (simp add: fat_sector_def x)
  qed
  have fill: "fat_ok fs' \<and> fat_sector fs' = fat_sector fs2"
  proof (cases ok)
    case True
    have h: "fat_buffers fs2 = hd (fat_buffers fs2) # bs" by (simp add: wb(4))
    have e: "fs' = fs2\<lparr>fat_buffers := b' # bs\<rparr>" using res True by simp
    show ?thesis
      using fill_spec[OF wb(1) h clean[OF True] miss e, of rd x] x lx by (auto simp: b'_def)
  qed (use res wb in simp)
  then show "fat_ok fs'" "fat_sector fs' = fat_sector fs" using wb(2) by simp_all
  have "same_fs fs2 fs'" using res by (simp add: same_fs_def)
  then show "same_fs fs fs'" by (rule same_fs_trans[OF wb(3)])
  show "r \<noteq> None \<Longrightarrow> r = Some 0 \<and> fat_sector fs s \<noteq> None \<and> holds_sector fs' 0 s (the (fat_sector fs s))"
    using res view lx by (auto simp: holds_sector_def b'_def split: if_splits)
  show "r = None \<Longrightarrow> write_reliable (disk_io fs) \<Longrightarrow> fat_sector fs s = None"
    using res view wb(5) wok by (auto split: if_splits)
qed

lemma fat_read_sector_spec:
  assumes "fat_ok fs" "fatfs_fat_read_sector s fs = (r, fs')"
  shows "fat_ok fs'" "fat_sector fs' = fat_sector fs" "same_fs fs fs'"
    "r = Some i \<Longrightarrow> holds_sector fs' i s (the (fat_sector fs s)) \<and> fat_sector fs s \<noteq> None"
    "write_reliable (disk_io fs) \<Longrightarrow> r = None \<Longrightarrow> fat_sector fs s = None"
proof -
  consider (hit) j where "fat_buffer_find s (fat_buffers fs) = Some j" | (miss) "fat_buffer_find s (fat_buffers fs) = None"
    by fastforce
  then have "fat_ok fs' \<and> fat_sector fs' = fat_sector fs \<and> same_fs fs fs' \<and>
      (r = Some i \<longrightarrow> holds_sector fs' i s (the (fat_sector fs s)) \<and> fat_sector fs s \<noteq> None) \<and>
      (write_reliable (disk_io fs) \<longrightarrow> r = None \<longrightarrow> fat_sector fs s = None)"
  proof cases
    case hit
    from fat_read_sector_hit[OF assms(1) this assms(2)] show ?thesis by auto
  next
    case miss
    from fat_read_sector_miss[OF assms(1) this assms(2)] show ?thesis by auto
  qed
  then show "fat_ok fs'" "fat_sector fs' = fat_sector fs" "same_fs fs fs'"
    "r = Some i \<Longrightarrow> holds_sector fs' i s (the (fat_sector fs s)) \<and> fat_sector fs s \<noteq> None"
    "write_reliable (disk_io fs) \<Longrightarrow> r = None \<Longrightarrow> fat_sector fs s = None" by simp_all
qed

section \<open>Entries\<close>

lemma fat_position_unat:
  "unat (fat_position fs c) = (if fat_type fs = FAT_TYPE_16 then unat c mod 256 * 2 else unat c mod 128 * 4)"
  "unat (ucast (fat_position fs c) :: u16) = unat (fat_position fs c)"
proof -
  have "unat (c mod 256) < 256" "unat (c mod 128) < 128" by (simp_all add: unat_mod)
  then show p: "unat (fat_position fs c) = (if fat_type fs = FAT_TYPE_16 then unat c mod 256 * 2 else unat c mod 128 * 4)"
    by (simp add: fat_position_def fat_sector_offset_def minus_div_mult_eq_mod unat_word_ariths unat_mod)
  have "unat (fat_position fs c) < 2 ^ 16" unfolding p by (auto intro: order_less_trans[OF mult_strict_right_mono[OF mod_less_divisor]])
  then show "unat (ucast (fat_position fs c) :: u16) = unat (fat_position fs c)" by (simp add: unsigned_ucast_eq take_bit_eq_mod)
qed

text \<open>The entry of a cluster in the table as the library sees it, and the successor it stands for.\<close>

definition entry_in :: "'d fatfs \<Rightarrow> u32 \<Rightarrow> u8 list \<Rightarrow> u32" where
  "entry_in fs c x = (if fat_type fs = FAT_TYPE_16 then ucast (GET_16BIT_WORD x (unat (fat_position fs c)))
     else GET_32BIT_WORD x (unat (fat_position fs c)) AND 0x0FFFFFFF)"

definition fat_entry :: "'d fatfs \<Rightarrow> u32 \<Rightarrow> u32 option" where
  "fat_entry fs c = map_option (entry_in fs c) (fat_sector fs (fat_begin_lba fs + fat_sector_offset fs c))"

definition fat_next :: "'d fatfs \<Rightarrow> u32 \<Rightarrow> u32" where
  "fat_next fs c = (case fat_entry fs (if c = 0 then 2 else c) of None \<Rightarrow> FAT32_LAST_CLUSTER
     | Some n \<Rightarrow> if (if fat_type fs = FAT_TYPE_16 then 0xFFF8 else 0x0FFFFFF8) \<le> n then FAT32_LAST_CLUSTER else n)"

lemma fat_entry_cong:
  assumes "fat_sector fs' = fat_sector fs" "fat_type fs' = fat_type fs" "fat_begin_lba fs' = fat_begin_lba fs"
  shows "fat_entry fs' = fat_entry fs" "fat_next fs' = fat_next fs"
proof -
  have "fat_sector_offset fs' = fat_sector_offset fs" "fat_position fs' = fat_position fs"
    by (intro ext, simp add: fat_sector_offset_def fat_position_def assms)+
  then show "fat_entry fs' = fat_entry fs"
    by (intro ext) (simp add: fat_entry_def entry_in_def[abs_def] assms cong: if_cong)
  then show "fat_next fs' = fat_next fs"
    by (intro ext) (simp add: fat_next_def assms cong: option.case_cong if_cong)
qed

lemma same_fs_entry:
  assumes "same_fs fs fs'" "fat_sector fs' = fat_sector fs"
  shows "fat_entry fs' = fat_entry fs" "fat_next fs' = fat_next fs"
  by (rule fat_entry_cong; simp add: assms(2) same_fsD[OF assms(1)])+

lemma fat_raw_entry_holds:
  assumes "holds_sector fs' i s x" "same_fs fs fs'"
  shows "fat_raw_entry fs' i c = entry_in fs c x"
proof -
  have p: "fat_position fs' c = fat_position fs c"
    by (simp add: fat_position_def fat_sector_offset_def same_fsD[OF assms(2)])
  show ?thesis
    using assms(1) by (simp add: fat_raw_entry_def entry_in_def fat_position_unat(2) p holds_sector_def buf_ptr_def
        FAT16_GET_16BIT_WORD_def FAT32_GET_32BIT_WORD_def same_fsD[OF assms(2)])
qed

lemma entry_in_le: "entry_in fs c x \<le> (if fat_type fs = FAT_TYPE_16 then 0xFFFF else 0x0FFFFFFF)"
proof -
  have "unat (ucast w :: u32) < 2 ^ 16" for w :: u16 using unat_less_exp[of w] by (simp add: unsigned_ucast_eq take_bit_eq_mod)
  then have "ucast w \<le> (0xFFFF :: u32)" for w :: u16 by (simp add: word_le_nat_alt less_Suc_eq_le[symmetric])
  moreover have "w AND 0x0FFFFFFF \<le> (0x0FFFFFFF :: u32)" for w by (rule word_and_le1)
  ultimately show ?thesis by (simp add: entry_in_def)
qed

lemma find_next_spec:
  assumes "fat_ok fs" "write_reliable (disk_io fs)" "fatfs_find_next_cluster c fs = (n, fs')"
  shows "fat_ok fs'" "fat_sector fs' = fat_sector fs" "same_fs fs fs'" "n = fat_next fs c"
proof -
  let ?c = "if c = 0 then 2 else c"
  let ?s = "fat_begin_lba fs + fat_sector_offset fs ?c"
  obtain r fs1 where r: "fatfs_fat_read_sector ?s fs = (r, fs1)" by fastforce
  note sp = fat_read_sector_spec[OF assms(1) r]
  have fs': "fs' = fs1" using assms(3) r by (auto simp: fatfs_find_next_cluster_def Let_def split: option.splits if_splits)
  show "fat_ok fs'" "fat_sector fs' = fat_sector fs" "same_fs fs fs'" using sp(1-3) fs' by simp_all
  show "n = fat_next fs c"
  proof (cases r)
    case None
    then show ?thesis
      using assms(3) r sp(5)[OF assms(2)] by (simp add: fatfs_find_next_cluster_def fat_next_def fat_entry_def Let_def)
  next
    case (Some i)
    then obtain x where x: "fat_sector fs ?s = Some x" "holds_sector fs1 i ?s x" using sp(4) by auto
    have e: "fat_raw_entry fs1 i ?c = entry_in fs ?c x" by (rule fat_raw_entry_holds[OF x(2) sp(3)])
    have ps: "fat_position fs1 ?c = fat_position fs ?c" by (simp add: fat_position_def fat_sector_offset_def same_fsD[OF sp(3)])
    show ?thesis
      using assms(3) r Some x(1) e entry_in_le[of fs ?c x]
      by (auto simp: fatfs_find_next_cluster_def fat_next_def fat_entry_def Let_def fat_raw_entry_def ps
          same_fsD[OF sp(3)] split: if_splits)
  qed
qed

end
