(* ===== verification/Fat_Example.thy ===== *)
theory Fat_Example
  imports Fat_Table_Correct
begin

text \<open>
  A small FAT16 image, on which the properties are tried: a boot sector, a table sector, a root directory of one sector with
  the file \<^verbatim>\<open>VENEER.EXE\<close> of 0x300 bytes, and its two clusters 2 and 3.
\<close>

definition ex_boot :: "u8 list" where
  "ex_boot = (replicate 512 0)[12 := 2, 13 := 1, 14 := 1, 16 := 1, 17 := 16, 20 := 0x20, 22 := 1, 510 := 0x55, 511 := 0xaa]"

definition ex_table :: "u8 list" where
  "ex_table = (replicate 512 0)[4 := 3, 6 := 0xff, 7 := 0xff]"

definition ex_entry :: "u8 list" where
  "ex_entry = lit ''VENEER  EXE'' @ [0x20] @ replicate 14 0 @ [2, 0, 0, 3, 0, 0]"

definition ex_dir :: "u8 list" where
  "ex_dir = ex_entry @ replicate 480 0"

definition ex_data :: "u8 list" where
  "ex_data = [0xde, 0xad] @ replicate 510 0"

definition ex_sectors :: "u8 list list" where
  "ex_sectors = [ex_boot, ex_table, ex_dir, replicate 512 0, ex_data]"

text \<open>A file system as \<^verbatim>\<open>fatfs_init\<close> leaves it on such an image.\<close>

definition ex_like :: "'d fatfs \<Rightarrow> bool" where
  "ex_like fs \<longleftrightarrow> fat_type fs = FAT_TYPE_16 \<and> fat_begin_lba fs = 1 \<and> fat_sectors fs = 1 \<and> sectors_per_cluster fs = 1 \<and>
     cluster_begin_lba fs = 2 \<and> root_entry_count fs = 16 \<and> lba_begin fs = 0 \<and> rootdir_first_sector fs = 2 \<and>
     rootdir_sectors fs = 1 \<and> fat_buffers fs = [fat_buffer_reset] \<and> currentsector fs = fat_buffer_reset \<and>
     media_ok (disk_io fs) \<and> (\<forall>s < 5. disk_read fs s 1 = (True, ex_sectors ! unat s))"

lemma ex_read:
  assumes "ex_like fs"
  shows "disk_read fs 1 1 = (True, ex_table)" "disk_read fs 2 1 = (True, ex_dir)" "disk_read fs 4 1 = (True, ex_data)"
proof -
  have "disk_read fs s 1 = (True, ex_sectors ! unat s)" if "s < 5" for s using assms that by (simp add: ex_like_def)
  from this[of 1] this[of 2] this[of 4]
  show "disk_read fs 1 1 = (True, ex_table)" "disk_read fs 2 1 = (True, ex_dir)" "disk_read fs 4 1 = (True, ex_data)"
    by (simp_all add: ex_sectors_def)
qed

lemma ex_fat_ok: "ex_like fs \<Longrightarrow> fat_ok fs"
  by (simp add: ex_like_def fat_ok_def buf_ok_def fat_buffer_reset_def FAT_SECTOR_SIZE_n_def)

lemma ex_table_nth: "i < 512 \<Longrightarrow> ex_table ! i = (if i = 4 then 3 else if i = 6 \<or> i = 7 then 0xff else 0)"
  by (simp add: ex_table_def nth_list_update)

lemma ex_table_sector: "ex_like fs \<Longrightarrow> fat_sector fs 1 = Some ex_table"
proof -
  assume a: "ex_like fs"
  have "fat_buffer_find 1 [fat_buffer_reset] = None"
    by (simp add: fat_buffer_reset_def FAT32_INVALID_CLUSTER_def FAT_BUFFER_SECTORS_def word_le_nat_alt)
  moreover have "fat_buffers fs = [fat_buffer_reset]" using a by (simp add: ex_like_def)
  ultimately show ?thesis using ex_read(1)[OF a] by (simp add: fat_sector_def)
qed

lemma ex_entry_in:
  assumes "ex_like fs" "unat c < 256"
  shows "fat_entry fs c = Some (if c = 2 then 3 else if c = 3 then 0xffff else 0)" "fat_sector_offset fs c = 0"
proof -
  have f: "fat_type fs = FAT_TYPE_16" "fat_begin_lba fs = 1" "fat_buffers fs = [fat_buffer_reset]"
    using assms(1) by (simp_all add: ex_like_def)
  have "unat (c div 256) = 0" using assms(2) by (simp add: unat_div)
  then have q: "c div 256 = 0" by (simp add: unat_eq_zero)
  then show o: "fat_sector_offset fs c = 0" by (simp add: fat_sector_offset_def f)
  note s = ex_table_sector[OF assms(1)]
  have "unat (fat_position fs c) = 2 * unat c"
    using assms(2) by (simp add: fat_position_def f o unat_word_ariths)
  moreover have "2 * unat c < 512" "2 * unat c + 1 < 512" using assms(2) by simp_all
  moreover have "2 * unat c = 4 \<longleftrightarrow> c = 2" "2 * unat c = 6 \<longleftrightarrow> c = 3" by (auto simp: word_unat_eq_iff)
  moreover have "2 * unat c + 1 = 7 \<longleftrightarrow> c = 3" "2 * unat c \<noteq> 7" "2 * unat c + 1 \<noteq> 4" "2 * unat c + 1 \<noteq> 6"
    by (auto simp: word_unat_eq_iff) presburger+
  ultimately show "fat_entry fs c = Some (if c = 2 then 3 else if c = 3 then 0xffff else 0)"
    by (auto simp: fat_entry_def s o f(1,2) entry_in_def GET_16BIT_WORD_def ex_table_nth)
qed

lemma ex_next:
  assumes "ex_like fs"
  shows "fat_next fs 2 = 3" "fat_next fs 3 = FAT32_LAST_CLUSTER"
  using ex_entry_in[OF assms, of 2] ex_entry_in[OF assms, of 3] assms by (simp_all add: fat_next_def ex_like_def)

section \<open>On a medium of sectors\<close>

definition sector512 :: "u8 list \<Rightarrow> u8 list" where
  "sector512 x = take 512 (x @ replicate 512 0)"

definition list_read :: "(u32 \<Rightarrow> u8 list) \<Rightarrow> u32 \<Rightarrow> u32 \<Rightarrow> bool \<times> u8 list" where
  "list_read d s n = (True, concat (map (\<lambda>i. sector512 (d (s + of_nat i))) [0..<unat n]))"

definition list_write :: "(u32 \<Rightarrow> u8 list) \<Rightarrow> u32 \<Rightarrow> u8 list \<Rightarrow> u32 \<Rightarrow> bool \<times> (u32 \<Rightarrow> u8 list)" where
  "list_write d s bs n = (True, d(s := bs))"

definition ex_image :: "u32 \<Rightarrow> u8 list" where
  "ex_image s = (if s < 5 then ex_sectors ! unat s else [])"

definition ex_with :: "'d disk_if \<Rightarrow> 'd \<Rightarrow> 'd fatfs" where
  "ex_with io d = \<lparr>sectors_per_cluster = 1, cluster_begin_lba = 2, rootdir_first_cluster = 0, rootdir_first_sector = 2,
     rootdir_sectors = 1, fat_begin_lba = 1, fs_info_sector = 0, lba_begin = 0, fat_sectors = 1, next_free_cluster = 0,
     root_entry_count = 16, fat_type = FAT_TYPE_16, disk_io = io,
     currentsector = fat_buffer_reset, fat_buffers = [fat_buffer_reset], media = d\<rparr>"

definition ex_fs :: "bool \<Rightarrow> (u32 \<Rightarrow> u8 list) fatfs" where
  "ex_fs writable = ex_with \<lparr>read_media = Some list_read, write_media = if writable then Some list_write else None\<rparr> ex_image"

lemma ex_with_like:
  assumes "media_ok io" "read_media io = Some rd" "\<And>s. s < 5 \<Longrightarrow> rd d s 1 = (True, ex_sectors ! unat s)"
  shows "ex_like (ex_with io d)"
  using assms by (simp add: ex_like_def ex_with_def disk_read_def)

lemma length_sector512 [simp]: "length (sector512 x) = 512" "length x = 512 \<Longrightarrow> sector512 x = x"
  by (simp_all add: sector512_def)

lemma ex_sectors_length: "unat s < 5 \<Longrightarrow> length (ex_sectors ! unat s) = 512"
proof -
  have "\<forall>x \<in> set ex_sectors. length x = 512" by (simp add: ex_sectors_def ex_boot_def ex_table_def ex_dir_def ex_entry_def ex_data_def lit_def)
  moreover have "length ex_sectors = 5" by (simp add: ex_sectors_def)
  ultimately show "unat s < 5 \<Longrightarrow> length (ex_sectors ! unat s) = 512" by (metis nth_mem)
qed

lemma ex_fs_like: "ex_like (ex_fs w)"
  unfolding ex_fs_def
  by (rule ex_with_like[where rd = list_read])
    (auto simp: media_ok_def list_read_def list_write_def ex_image_def ex_sectors_length word_less_nat_alt)

lemma ex_fs_fields [simp]:
  "write_media (disk_io (ex_fs True)) = Some list_write" "write_media (disk_io (ex_fs False)) = None"
  "fat_type (ex_fs w) = FAT_TYPE_16" "fat_sectors (ex_fs w) = 1"
  by (simp_all add: ex_fs_def ex_with_def)

lemma ex_reliable: "write_reliable (disk_io (ex_fs w))"
  by (simp add: write_reliable_def ex_fs_def ex_with_def list_write_def)

end
