(* ===== verification/Fat_Chain.thy ===== *)
theory Fat_Chain
  imports Fat_Example
begin

text \<open>
  Cluster chains. The locale \<open>cluster_table\<close> is what the rest of the library relies on when it follows a
  chain; \<^verbatim>\<open>fatfs_find_next_cluster\<close> provides it. Setting a cluster changes exactly that entry; freeing,
  extending and searching are stated on the entries.
\<close>

section \<open>Following a chain\<close>

locale cluster_table =
  fixes step :: "u32 \<Rightarrow> 's \<Rightarrow> u32 \<times> 's"
    and succ :: "'s \<Rightarrow> u32 \<Rightarrow> u32"
    and inv :: "'s \<Rightarrow> bool"
    and rel :: "'s \<Rightarrow> 's \<Rightarrow> bool"
  assumes step_ok: "inv s \<Longrightarrow> step c s = (n, s') \<Longrightarrow> n = succ s c \<and> inv s' \<and> rel s s'"
    and rel_succ: "rel s s' \<Longrightarrow> succ s' = succ s"
    and rel_refl: "rel s s"
    and rel_trans: "rel s t \<Longrightarrow> rel t u \<Longrightarrow> rel s u"
begin

text \<open>Any loop that takes the given number of steps reaches the iterated successor.\<close>

lemma walk:
  assumes "\<And>c s. it 0 c s = (c, s)" "\<And>n c s. it (Suc n) c s = (let (d, t) = step c s in it n d t)"
  shows "inv s \<Longrightarrow> it n c s = (d, s') \<Longrightarrow> d = (succ s ^^ n) c \<and> inv s' \<and> rel s s'"
proof (induction n arbitrary: c s)
  case 0
  then show ?case by (simp add: assms(1) rel_refl)
next
  case (Suc n)
  obtain e t where st: "step c s = (e, t)" by fastforce
  note ok = step_ok[OF Suc.prems(1) st]
  from Suc.IH[of t e] Suc.prems(2) ok st
  show ?case by (auto simp: assms(2) rel_succ funpow_swap1 intro: rel_trans)
qed

end

definition fat_inv :: "'d fatfs \<Rightarrow> bool" where
  "fat_inv fs \<longleftrightarrow> fat_ok fs \<and> write_reliable (disk_io fs)"

definition same_view :: "'d fatfs \<Rightarrow> 'd fatfs \<Rightarrow> bool" where
  "same_view fs fs' \<longleftrightarrow> same_fs fs fs' \<and> fat_sector fs' = fat_sector fs"

lemma fat_inv_next:
  "fat_inv fs \<Longrightarrow> fatfs_find_next_cluster c fs = (n, fs') \<Longrightarrow> n = fat_next fs c \<and> fat_inv fs' \<and> same_view fs fs'"
  using find_next_spec[of fs c n fs'] by (auto simp: fat_inv_def same_view_def same_fsD)

interpretation fat: cluster_table fatfs_find_next_cluster fat_next fat_inv same_view
proof
  show "fat_inv s \<Longrightarrow> fatfs_find_next_cluster c s = (n, s') \<Longrightarrow> n = fat_next s c \<and> fat_inv s' \<and> same_view s s'"
    for s c n and s' :: "'a fatfs" by (rule fat_inv_next)
qed (auto simp: same_view_def same_fs_entry intro: same_fs_trans)

section \<open>The buffers are transparent\<close>

text \<open>
  C15: The cache. Reading a sector of the table through the buffers, which may write another one back first,
  leaves the contents of every sector as they were; it delivers a buffer with the contents of the sector, or
  nothing exactly when the sector cannot be read.
\<close>
theorem fat_cache_transparent:
  assumes "fat_ok fs" "write_reliable (disk_io fs)" "fatfs_fat_read_sector s fs = (r, fs')"
  shows "fat_ok fs' \<and> same_fs fs fs' \<and> fat_sector fs' = fat_sector fs \<and>
    (case r of None \<Rightarrow> fat_sector fs s = None | Some i \<Rightarrow> \<exists>x. fat_sector fs s = Some x \<and> holds_sector fs' i s x)"
proof -
  note sp = fat_read_sector_spec[OF assms(1,3)]
  have "\<exists>x. fat_sector fs s = Some x \<and> holds_sector fs' i s x" if "r = Some i" for i
    using sp(4)[OF that] by auto
  then show ?thesis using sp(1-3) sp(5)[OF assms(2)] by (simp split: option.split)
qed

theorem fat_cache_transparent_witness:
  "\<exists>i fs'. fatfs_fat_read_sector 1 (ex_fs True) = (Some i, fs') \<and> holds_sector fs' i 1 ex_table"
proof -
  obtain r fs' where r: "fatfs_fat_read_sector 1 (ex_fs True) = (r, fs')" by fastforce
  have "fat_sector (ex_fs True) 1 = Some ex_table" by (rule ex_table_sector[OF ex_fs_like])
  then show ?thesis
    using fat_cache_transparent[OF ex_fat_ok[OF ex_fs_like] ex_reliable r] r by (auto split: option.splits)
qed

text \<open>
  Nothing is lost. \<^verbatim>\<open>fatfs_fat_purge\<close> on the chain of buffers the library has writes back what has changed:
  every sector keeps its contents, and they are those of the medium.
\<close>
theorem fat_purge_correct:
  assumes "fat_inv fs" "length (fat_buffers fs) = FAT_BUFFERS"
  shows "\<exists>fs'. fatfs_fat_purge fs = (True, fs') \<and> fat_inv fs' \<and> fat_sector fs' = fat_sector fs \<and>
    (\<forall>s. fat_sector fs' s = (let (r, x) = disk_read fs' s 1 in if r then Some x else None))"
proof -
  obtain b where b: "fat_buffers fs = [b]" using assms(2) by (auto simp: FAT_BUFFERS_def length_Suc_conv)
  have inv: "fat_ok fs" "write_reliable (disk_io fs)" using assms(1) by (simp_all add: fat_inv_def)
  obtain r fs1 where p: "(if fb_dirty b then fatfs_fat_writeback 0 fs else (True, fs)) = (r, fs1)" by fastforce
  have s: "fat_ok fs1 \<and> fat_sector fs1 = fat_sector fs \<and> same_fs fs fs1 \<and> r \<and> fat_buffers fs1 = [b\<lparr>fb_dirty := False\<rparr>]"
    using p writeback_spec[OF inv(1) b, of r fs1] inv b by (cases "fb_dirty b") auto
  then have clean: "buf_ok fs1 (b\<lparr>fb_dirty := False\<rparr>)" by (simp add: fat_ok_def)
  have "fat_sector fs1 s = (let (r, x) = disk_read fs1 s 1 in if r then Some x else None)" for s
  proof (cases "s \<noteq> FAT32_INVALID_CLUSTER \<and> s = fb_address b")
    case True
    then have "disk_read fs1 s 1 = (True, fb_sector b)" using clean by (auto simp: buf_ok_def)
    moreover have "fat_sector fs1 s = Some (fb_sector b)"
      using True s fat_sector_iff[of fs1 s "fb_sector b"] by auto
    ultimately show ?thesis by simp
  next
    case False
    then have "fat_buffer_find s (fat_buffers fs1) = None" unfolding fat_buffer_find_None using s by auto
    then show ?thesis by (simp add: fat_sector_def)
  qed
  moreover have "fatfs_fat_purge fs = (True, fs1)" using p s by (simp add: fatfs_fat_purge_def b)
  moreover have "fat_inv fs1" using s inv(2) by (auto simp: fat_inv_def same_fsD)
  ultimately show ?thesis using s by auto
qed

theorem fat_purge_correct_witness: "\<exists>fs'. fatfs_fat_purge (ex_fs True) = (True, fs') \<and> fat_sector fs' 1 = Some ex_table"
proof -
  have "fat_inv (ex_fs True)" by (simp add: fat_inv_def ex_fat_ok[OF ex_fs_like] ex_reliable)
  moreover have "length (fat_buffers (ex_fs True)) = FAT_BUFFERS" by (simp add: FAT_BUFFERS_def ex_fs_def ex_with_def)
  note fat_purge_correct[OF calculation this]
  from this show ?thesis using ex_table_sector[OF ex_fs_like[of True]] by auto
qed

section \<open>Reading back what is set\<close>

lemma ucast_and_FF: "ucast (x AND 0xFF) = (ucast x :: u8)" for x :: "'a::len word"
proof -
  have e: "(0xFF :: 'a word) = mask 8" by (simp add: mask_eq_decr_exp)
  show ?thesis unfolding e by (rule bit_word_eqI) (auto simp: bit_simps simp del: mask_numeral dest: bit_imp_le_length)
qed

lemma le_bytes_16: "push_bit 8 (ucast (ucast (drop_bit 8 v) :: u8)) + ucast (ucast v :: u8) = v" for v :: u16
proof -
  have "push_bit 8 (ucast (ucast (drop_bit 8 v) :: u8)) + ucast (ucast v :: u8) =
      push_bit 8 (ucast (ucast (drop_bit 8 v) :: u8)) OR (ucast (ucast v :: u8) :: u16)"
    by (rule disjunctive_add_eq_or) (auto simp: bit_eq_iff bit_simps)
  also have "\<dots> = v"
    by (rule bit_word_eqI) (auto simp: bit_simps not_less not_le)
  finally show ?thesis .
qed

lemma le_bytes_32:
  "push_bit 24 (ucast (ucast (drop_bit 24 v) :: u8)) + push_bit 16 (ucast (ucast (drop_bit 16 v) :: u8)) +
   push_bit 8 (ucast (ucast (drop_bit 8 v) :: u8)) + ucast (ucast v :: u8) = v" (is "?a + ?b + ?c + ?d = v") for v :: u32
proof -
  have "?a + ?b = ?a OR ?b" by (rule disjunctive_add_eq_or) (auto simp: bit_eq_iff bit_simps)
  moreover have "(?a OR ?b) + ?c = ?a OR ?b OR ?c"
    unfolding or.assoc[symmetric] by (rule disjunctive_add_eq_or) (auto simp: bit_eq_iff bit_simps)
  moreover have "(?a OR ?b OR ?c) + ?d = ?a OR ?b OR ?c OR ?d"
    unfolding or.assoc[symmetric] by (rule disjunctive_add_eq_or) (auto simp: bit_eq_iff bit_simps)
  moreover have "?a OR ?b OR ?c OR ?d = v"
  proof (rule bit_word_eqI)
    fix n assume n: "n < LENGTH(32)"
    consider "n < 8" | "8 \<le> n" "n < 16" | "16 \<le> n" "n < 24" | "24 \<le> n" by linarith
    then show "bit (?a OR ?b OR ?c OR ?d) n = bit v n" using n by cases (auto simp: bit_simps)
  qed
  ultimately show ?thesis by metis
qed

lemma SET_16_bytes: "SET_16BIT_WORD l v b = b[l := ucast v, l + 1 := ucast (drop_bit 8 v)]"
  by (simp add: SET_16BIT_WORD_def ucast_and_FF)

lemma SET_32_bytes:
  "SET_32BIT_WORD l v b = b[l := ucast v, l + 1 := ucast (drop_bit 8 v), l + 2 := ucast (drop_bit 16 v), l + 3 := ucast (drop_bit 24 v)]"
  by (simp add: SET_32BIT_WORD_def ucast_and_FF)

lemma GET_SET_16: "l + 1 < length b \<Longrightarrow> GET_16BIT_WORD (SET_16BIT_WORD l v b) l = v"
  using le_bytes_16[of v] by (simp add: GET_16BIT_WORD_def SET_16_bytes)

lemma GET_SET_32: "l + 3 < length b \<Longrightarrow> GET_32BIT_WORD (SET_32BIT_WORD l v b) l = v"
  using le_bytes_32[of v] by (simp add: GET_32BIT_WORD_def SET_32_bytes)

lemma GET_SET_16_other: "l + 1 < k \<or> k + 1 < l \<Longrightarrow> GET_16BIT_WORD (SET_16BIT_WORD l v b) k = GET_16BIT_WORD b k"
  by (auto simp: GET_16BIT_WORD_def SET_16_bytes)

lemma GET_SET_32_other: "l + 3 < k \<or> k + 3 < l \<Longrightarrow> GET_32BIT_WORD (SET_32BIT_WORD l v b) k = GET_32BIT_WORD b k"
  by (auto simp: GET_32BIT_WORD_def SET_32_bytes)

section \<open>Setting a cluster\<close>

lemma set_buffer:
  assumes "fat_ok fs" "holds_sector fs i s x" "s - fat_begin_lba fs < fat_sectors fs" "write_media (disk_io fs) \<noteq> None"
    "length y = 512" "fs' = upd_buf i (\<lambda>b. b\<lparr>fb_sector := y, fb_dirty := True\<rparr>) fs"
  shows "fat_ok fs'" "fat_sector fs' = (fat_sector fs)(s := Some y)" "same_fs fs fs'"
proof -
  define b where "b = (fat_buffers fs ! i)\<lparr>fb_sector := y, fb_dirty := True\<rparr>"
  note h = assms(2)[unfolded holds_sector_def]
  have fs': "fs' = fs\<lparr>fat_buffers := (fat_buffers fs)[i := b]\<rparr>" by (simp add: assms(6) upd_buf_def b_def)
  have adr: "map fb_address ((fat_buffers fs)[i := b]) = map fb_address (fat_buffers fs)"
    using h by (intro nth_equalityI) (auto simp: nth_list_update b_def)
  have "buf_ok fs b" using assms(3-5) h by (simp add: buf_ok_def b_def)
  then have "\<forall>c \<in> set ((fat_buffers fs)[i := b]). buf_ok fs c"
    using assms(1) set_update_subset_insert[of "fat_buffers fs" i b] by (auto simp: fat_ok_def)
  then show ok: "fat_ok fs'" using assms(1) by (simp add: fat_ok_def fs' adr del: map_update)
  have adr_set: "fb_address ` set ((fat_buffers fs)[i := b]) = fb_address ` set (fat_buffers fs)"
    using arg_cong[OF adr, of set] by (simp del: map_update)
  have bi: "b \<in> set (fat_buffers fs')" "fb_address b = s" "fb_sector b = y"
    using h by (auto simp: fs' b_def set_update_memI)
  have s: "s \<noteq> FAT32_INVALID_CLUSTER"
    using dirty_valid[OF ok bi(1)] by (simp add: b_def h)
  have new: "fat_sector fs' s = Some y" using bi s fat_sector_iff[OF ok] by blast
  have "fat_sector fs' t = Some z \<longleftrightarrow> fat_sector fs t = Some z" if "t \<noteq> s" for t z
  proof -
    have "(\<exists>c \<in> set ((fat_buffers fs)[i := b]). fb_address c = t \<and> P c) \<longleftrightarrow>
        (\<exists>c \<in> set (fat_buffers fs). fb_address c = t \<and> P c)" for P
      unfolding Bex_def in_set_conv_nth using that h by (auto simp: nth_list_update b_def split: if_splits; metis)
    then show ?thesis
      unfolding fat_sector_iff[OF ok] fat_sector_iff[OF assms(1)] by (simp add: fs' adr_set)
  qed
  then show "fat_sector fs' = (fat_sector fs)(s := Some y)"
    using new by (intro ext) (metis fun_upd_apply not_Some_eq)
  show "same_fs fs fs'" by (simp add: same_fs_def fs')
qed

definition in_fat :: "'d fatfs \<Rightarrow> u32 \<Rightarrow> bool" where
  "in_fat fs c \<longleftrightarrow> fat_sector_offset fs c < fat_sectors fs \<and> fat_entry fs c \<noteq> None"

text \<open>The value an entry reads back after it has been set.\<close>

definition fat_value :: "'d fatfs \<Rightarrow> u32 \<Rightarrow> u32" where
  "fat_value fs v = (if fat_type fs = FAT_TYPE_16 then ucast (ucast v :: u16) else v AND 0x0FFFFFFF)"

lemma entry_update:
  fixes c d :: u32
  assumes "length x = 512"
    "y = (if fat_type fs = FAT_TYPE_16 then SET_16BIT_WORD (unat (fat_position fs c)) (ucast v) x
          else SET_32BIT_WORD (unat (fat_position fs c)) v x)"
    "fat_sector_offset fs d = fat_sector_offset fs c"
  shows "entry_in fs d y = (if d = c then fat_value fs v else entry_in fs d x)" "length y = 512"
proof -
  let ?n = "if fat_type fs = FAT_TYPE_16 then 256 else 128 :: nat"
  have "unat e = unat (fat_sector_offset fs e) * ?n + unat e mod ?n" for e
    by (simp add: fat_sector_offset_def unat_div)
  from this[of c] this[of d] assms(3)
  have cd: "unat c = unat (fat_sector_offset fs c) * ?n + unat c mod ?n" "unat d = unat (fat_sector_offset fs c) * ?n + unat d mod ?n"
    by simp_all
  have "unat c mod ?n = unat d mod ?n \<longleftrightarrow> d = c" using cd by (metis word_unat_eq_iff)
  moreover have "unat c mod 256 < 256" "unat c mod 128 < 128" by simp_all
  ultimately show "entry_in fs d y = (if d = c then fat_value fs v else entry_in fs d x)"
    using assms(1) unfolding assms(2) entry_in_def fat_value_def fat_position_unat(1)
    by (auto simp: GET_SET_16 GET_SET_32 GET_SET_16_other GET_SET_32_other neq_iff)
  show "length y = 512" using assms(1) by (simp add: assms(2) SET_16_bytes SET_32_bytes)
qed

lemma set_cluster_spec:
  assumes "fat_inv fs" "write_media (disk_io fs) \<noteq> None" "in_fat fs c" "fatfs_fat_set_cluster c v fs = (r, fs')"
  shows "r" "fat_inv fs'" "same_fs fs fs'" "fat_entry fs' = (fat_entry fs)(c := Some (fat_value fs v))"
proof -
  let ?s = "fat_begin_lba fs + fat_sector_offset fs c"
  obtain i fs1 where rd: "fatfs_fat_read_sector ?s fs = (i, fs1)" by fastforce
  have inv: "fat_ok fs" "write_reliable (disk_io fs)" using assms(1) by (simp_all add: fat_inv_def)
  note sp = fat_read_sector_spec[OF inv(1) rd]
  have sec: "fat_sector fs ?s \<noteq> None" using assms(3) by (auto simp: in_fat_def fat_entry_def)
  then obtain k x where k: "i = Some k" "fat_sector fs ?s = Some x" "holds_sector fs1 k ?s x"
    using sp(4,5) inv(2) by (cases i) auto
  let ?y = "if fat_type fs = FAT_TYPE_16 then SET_16BIT_WORD (unat (fat_position fs c)) (ucast v) x
          else SET_32BIT_WORD (unat (fat_position fs c)) v x"
  have ps: "fat_position fs1 c = fat_position fs c" by (simp add: fat_position_def fat_sector_offset_def same_fsD[OF sp(3)])
  have res: "r \<and> fs' = upd_buf k (\<lambda>b. b\<lparr>fb_sector := ?y, fb_dirty := True\<rparr>) fs1"
    using assms(4) rd k
    by (auto simp: fatfs_fat_set_cluster_def Let_def FAT16_SET_16BIT_WORD_def FAT32_SET_32BIT_WORD_def fat_position_unat(2) ps
        holds_sector_def buf_ptr_def upd_buf_def same_fsD[OF sp(3)] split: if_splits)
  have x: "length x = 512" using k(3) by (simp add: holds_sector_def)
  note eu = entry_update[OF x refl, of fs]
  have off: "?s - fat_begin_lba fs1 < fat_sectors fs1" using assms(3) by (simp add: in_fat_def same_fsD[OF sp(3)])
  have wr: "write_media (disk_io fs1) \<noteq> None" using assms(2) by (simp add: same_fsD[OF sp(3)])
  note st = set_buffer[OF sp(1) k(3) off wr, of ?y fs'] 
  have y: "length ?y = 512" using eu(2) by simp
  show "r" using res by simp
  show same: "same_fs fs fs'" using same_fs_trans[OF sp(3)] st(3)[OF y] res by blast
  have "fat_ok fs'" using st(1)[OF y] res by simp
  then show "fat_inv fs'" using inv(2) unfolding fat_inv_def same_fsD[OF same] by simp
  show "fat_entry fs' = (fat_entry fs)(c := Some (fat_value fs v))"
  proof
    fix d
    have "fat_sector fs' = (fat_sector fs)(?s := Some ?y)" using st(2)[OF y] res sp(2) by simp
    moreover have "entry_in fs' d = entry_in fs d" "fat_sector_offset fs' d = fat_sector_offset fs d"
      by (intro ext, simp add: entry_in_def fat_position_def fat_sector_offset_def same_fsD[OF same] cong: if_cong)
         (simp add: fat_sector_offset_def same_fsD[OF same])
    ultimately show "fat_entry fs' d = ((fat_entry fs)(c := Some (fat_value fs v))) d"
      using k(2) eu(1)[of d] by (auto simp: fat_entry_def same_fsD[OF same])
  qed
qed

section \<open>Chains\<close>

text \<open>The clusters of a chain: each links to the next, the last one to the end mark.\<close>

fun is_chain :: "'d fatfs \<Rightarrow> u32 list \<Rightarrow> bool" where
  "is_chain fs [] = False"
| "is_chain fs [c] = (fat_next fs c = FAT32_LAST_CLUSTER)"
| "is_chain fs (c # d # cs) = (fat_next fs c = d \<and> is_chain fs (d # cs))"

definition cluster_ok :: "'d fatfs \<Rightarrow> u32 \<Rightarrow> bool" where
  "cluster_ok fs c \<longleftrightarrow> c \<noteq> 0 \<and> c \<noteq> FAT32_LAST_CLUSTER \<and> in_fat fs c"

lemma is_chain_cong:
  assumes "\<And>c. c \<in> set cs \<Longrightarrow> c \<noteq> 0 \<and> fat_entry fs' c = fat_entry fs c" "fat_type fs' = fat_type fs"
  shows "is_chain fs' cs = is_chain fs cs"
  using assms(1) by (induction cs rule: induct_list012) (simp_all add: fat_next_def assms(2) cong: option.case_cong if_cong)

lemma cluster_ok_cong:
  "same_fs fs fs' \<Longrightarrow> (fat_entry fs' c = None \<longleftrightarrow> fat_entry fs c = None) \<Longrightarrow> cluster_ok fs' c = cluster_ok fs c"
  by (simp add: cluster_ok_def in_fat_def fat_sector_offset_def same_fsD)

lemma same_view_cluster_ok: "same_view fs fs' \<Longrightarrow> cluster_ok fs' = cluster_ok fs"
  unfolding same_view_def by (intro ext cluster_ok_cong) (auto simp: same_fs_entry(1))

lemma same_view_is_chain: "same_view fs fs' \<Longrightarrow> is_chain fs' cs = is_chain fs cs"
  by (induction cs rule: induct_list012) (simp_all add: fat.rel_succ)

text \<open>One round of the loop that frees, and one of the loop that looks for the end.\<close>

lemma free_step:
  assumes "fat_inv fs" "write_media (disk_io fs) \<noteq> None" "cluster_ok fs c"
  shows "\<exists>fs'. fatfs_free_cluster_chain c fs = fatfs_free_cluster_chain (fat_next fs c) fs' \<and> fat_inv fs' \<and>
    same_fs fs fs' \<and> fat_entry fs' = (fat_entry fs)(c := Some 0)"
proof -
  obtain n fs1 where n: "fatfs_find_next_cluster c fs = (n, fs1)" by fastforce
  obtain r fs2 where w: "fatfs_fat_set_cluster c 0 fs1 = (r, fs2)" by fastforce
  note nx = fat_inv_next[OF assms(1) n]
  then have v: "same_fs fs fs1" "fat_entry fs1 = fat_entry fs" by (simp_all add: same_view_def same_fs_entry)
  have "cluster_ok fs1 c" using assms(3) nx by (metis same_view_cluster_ok)
  then have "in_fat fs1 c" by (simp add: cluster_ok_def)
  note st = set_cluster_spec[OF _ _ this w]
  have st: "fat_inv fs2" "same_fs fs1 fs2" "fat_entry fs2 = (fat_entry fs)(c := Some 0)"
    using st nx assms(2) v by (auto simp: same_fsD[OF v(1)] fat_value_def)
  have "fatfs_free_cluster_chain c fs = fatfs_free_cluster_chain (fat_next fs c) fs2"
    using assms(3) n w nx by (subst fatfs_free_cluster_chain.simps) (simp add: cluster_ok_def)
  then show ?thesis using st same_fs_trans[OF v(1) st(2)] by blast
qed

lemma chain_end_step:
  assumes "fat_inv fs" "c \<noteq> FAT32_LAST_CLUSTER" "fat_next fs c \<noteq> 0"
  shows "\<exists>fs'. fat_chain_end p c fs = fat_chain_end c (fat_next fs c) fs' \<and> fat_inv fs' \<and> same_view fs fs'"
proof -
  obtain n fs1 where n: "fatfs_find_next_cluster c fs = (n, fs1)" by fastforce
  note nx = fat_inv_next[OF assms(1) n]
  have "fat_chain_end p c fs = fat_chain_end c (fat_next fs c) fs1"
    using assms(2,3) n nx by (subst fat_chain_end.simps) simp
  then show ?thesis using nx by blast
qed

text \<open>
  Freeing. \<^verbatim>\<open>fatfs_free_cluster_chain\<close> on the head of a chain returns, after it has set the entries of
  exactly the clusters of the chain to zero.
\<close>
theorem free_cluster_chain_correct:
  assumes "fat_inv fs" "write_media (disk_io fs) \<noteq> None" "is_chain fs cs" "distinct cs" "\<forall>c \<in> set cs. cluster_ok fs c"
  shows "\<exists>fs'. fatfs_free_cluster_chain (hd cs) fs = Some (True, fs') \<and> fat_inv fs' \<and> same_fs fs fs' \<and>
    fat_entry fs' = (\<lambda>c. if c \<in> set cs then Some 0 else fat_entry fs c)"
  using assms
proof (induction cs arbitrary: fs rule: induct_list012)
  case (2 c)
  obtain fs1 where fs1: "fatfs_free_cluster_chain c fs = fatfs_free_cluster_chain (fat_next fs c) fs1" "fat_inv fs1"
    "same_fs fs fs1" "fat_entry fs1 = (fat_entry fs)(c := Some 0)"
    using free_step[OF "2.prems"(1,2), of c] "2.prems"(5) by auto
  have "fatfs_free_cluster_chain (fat_next fs c) fs1 = Some (True, fs1)"
    using "2.prems"(3) by (subst fatfs_free_cluster_chain.simps) simp
  then show ?case using fs1 by (auto simp: fun_eq_iff)
next
  case (3 c d cs)
  obtain fs1 where fs1: "fatfs_free_cluster_chain c fs = fatfs_free_cluster_chain d fs1" "fat_inv fs1"
    "same_fs fs fs1" "fat_entry fs1 = (fat_entry fs)(c := Some 0)"
    using free_step[OF "3.prems"(1,2), of c] "3.prems"(3,5) by auto
  have "cluster_ok fs1 e" if "e \<in> set (d # cs)" for e
  proof -
    have "e \<noteq> c" "cluster_ok fs e" using "3.prems"(4,5) that by auto
    then show ?thesis using cluster_ok_cong[OF fs1(3), of e] by (simp add: fs1(4))
  qed
  moreover have "is_chain fs1 (d # cs)"
  proof -
    have "e \<noteq> 0 \<and> fat_entry fs1 e = fat_entry fs e" if "e \<in> set (d # cs)" for e
      using "3.prems"(4,5) that unfolding fs1(4) cluster_ok_def by auto
    then have "is_chain fs1 (d # cs) = is_chain fs (d # cs)"
      by (rule is_chain_cong[OF _ same_fsD(1)[OF fs1(3)]])
    then show ?thesis using "3.prems"(3) by simp
  qed
  ultimately obtain fs2 where "fatfs_free_cluster_chain d fs1 = Some (True, fs2)" "fat_inv fs2" "same_fs fs1 fs2"
    "fat_entry fs2 = (\<lambda>e. if e \<in> set (d # cs) then Some 0 else fat_entry fs1 e)"
    using "3.IH"(2)[OF fs1(2)] "3.prems"(2,4) by (auto simp: same_fsD[OF fs1(3)])
  then show ?case using fs1 same_fs_trans[OF fs1(3)] by (intro exI[of _ fs2]) (auto simp: fun_eq_iff)
qed simp

lemma fat_chain_end_chain:
  assumes "fat_inv fs" "is_chain fs cs" "\<forall>c \<in> set cs. cluster_ok fs c"
  shows "\<exists>fs'. fat_chain_end p (hd cs) fs = Some (Some (last cs), fs') \<and> fat_inv fs' \<and> same_view fs fs'"
  using assms
proof (induction cs arbitrary: fs p rule: induct_list012)
  case (2 c)
  obtain fs1 where fs1: "fat_chain_end p c fs = fat_chain_end c FAT32_LAST_CLUSTER fs1" "fat_inv fs1" "same_view fs fs1"
    using chain_end_step[OF "2.prems"(1), of c p] "2.prems"(2,3) by (auto simp: cluster_ok_def FAT32_LAST_CLUSTER_def)
  have "fat_chain_end c FAT32_LAST_CLUSTER fs1 = Some (Some c, fs1)" by (subst fat_chain_end.simps) simp
  then show ?case using fs1 by simp
next
  case (3 c d cs)
  obtain fs1 where fs1: "fat_chain_end p c fs = fat_chain_end c d fs1" "fat_inv fs1" "same_view fs fs1"
    using chain_end_step[OF "3.prems"(1), of c p] "3.prems"(2,3) by (auto simp: cluster_ok_def)
  have "\<exists>fs'. fat_chain_end c (hd (d # cs)) fs1 = Some (Some (last (d # cs)), fs') \<and> fat_inv fs' \<and> same_view fs1 fs'"
    using "3.IH"(2)[OF fs1(2)] "3.prems"(2,3) by (simp add: same_view_is_chain[OF fs1(3)] same_view_cluster_ok[OF fs1(3)])
  then show ?case using fs1(1) fat.rel_trans[OF fs1(3)] by auto
qed simp

text \<open>A cluster number the table can hold as a link.\<close>

definition link_ok :: "'d fatfs \<Rightarrow> u32 \<Rightarrow> bool" where
  "link_ok fs c \<longleftrightarrow> fat_value fs c = c \<and> c < (if fat_type fs = FAT_TYPE_16 then 0xFFF8 else 0x0FFFFFF8)"

lemma is_chain_append:
  assumes "is_chain fs cs" "fat_entry fs' = (fat_entry fs)(last cs := Some n, n := Some v)" "fat_type fs' = fat_type fs"
    "distinct cs" "n \<notin> set cs" "\<forall>c \<in> set cs. c \<noteq> 0" "n \<noteq> 0" "link_ok fs n"
    "(if fat_type fs = FAT_TYPE_16 then 0xFFF8 else 0x0FFFFFF8) \<le> v"
  shows "is_chain fs' (cs @ [n])"
  using assms
proof (induction cs rule: induct_list012)
  case (2 c)
  then show ?case by (auto simp: fat_next_def link_ok_def not_less[symmetric])
next
  case (3 c d cs)
  have "fat_next fs' c = d" using "3.prems" by (auto simp: fat_next_def split: if_splits)
  then show ?case using "3.IH"(2) "3.prems" by simp
qed simp

text \<open>The two stores that put a new cluster at the end of a chain.\<close>

lemma link_new:
  assumes "fat_inv fs" "write_media (disk_io fs) \<noteq> None" "is_chain fs cs" "distinct cs" "\<forall>c \<in> set cs. cluster_ok fs c"
    "cluster_ok fs n" "n \<notin> set cs" "link_ok fs n"
    "fatfs_fat_set_cluster (last cs) n fs = (r, fs1)" "fatfs_fat_set_cluster n FAT32_LAST_CLUSTER fs1 = (r', fs2)"
  shows "fat_inv fs2" "same_fs fs fs2" "is_chain fs2 (cs @ [n])"
    "fat_entry fs2 = (fat_entry fs)(last cs := Some n, n := Some (fat_value fs FAT32_LAST_CLUSTER))"
proof -
  have cs: "cs \<noteq> []" using assms(3) by auto
  have i1: "in_fat fs (last cs)" using assms(5) cs by (simp add: cluster_ok_def)
  note s1 = set_cluster_spec[OF assms(1,2) i1 assms(9)]
  have "cluster_ok fs1 n" using assms(6) cluster_ok_cong[OF s1(3), of n] by (auto simp: s1(4) cluster_ok_def in_fat_def)
  then have i2: "in_fat fs1 n" "write_media (disk_io fs1) \<noteq> None" using assms(2) by (simp_all add: cluster_ok_def same_fsD[OF s1(3)])
  note s2 = set_cluster_spec[OF s1(2) i2(2,1) assms(10)]
  show "fat_inv fs2" by (rule s2(2))
  show same: "same_fs fs fs2" using same_fs_trans[OF s1(3) s2(3)] .
  have fv: "fat_value fs n = n" "fat_value fs1 FAT32_LAST_CLUSTER = fat_value fs FAT32_LAST_CLUSTER"
    using assms(8) by (simp_all add: link_ok_def fat_value_def same_fsD[OF s1(3)])
  show ent: "fat_entry fs2 = (fat_entry fs)(last cs := Some n, n := Some (fat_value fs FAT32_LAST_CLUSTER))"
    by (simp add: s2(4) s1(4) fv)
  show "is_chain fs2 (cs @ [n])"
  proof (rule is_chain_append[OF assms(3) ent same_fsD(1)[OF same] assms(4,7) _ _ assms(8)])
    show "\<forall>c \<in> set cs. c \<noteq> 0" "n \<noteq> 0" using assms(5,6) by (auto simp: cluster_ok_def)
    show "(if fat_type fs = FAT_TYPE_16 then 0xFFF8 else 0x0FFFFFF8) \<le> fat_value fs FAT32_LAST_CLUSTER"
      by (simp add: fat_value_def FAT32_LAST_CLUSTER_def)
  qed
qed

text \<open>
  Extending. \<^verbatim>\<open>fatfs_fat_add_cluster_to_chain\<close> on the head of a chain links the new cluster behind the
  last one and ends the chain with it; no other entry changes.
\<close>
lemma add_cluster_correct:
  assumes "fat_inv fs" "write_media (disk_io fs) \<noteq> None" "is_chain fs cs" "distinct cs" "\<forall>c \<in> set cs. cluster_ok fs c"
    "cluster_ok fs n" "n \<notin> set cs" "link_ok fs n"
  shows "\<exists>fs'. fatfs_fat_add_cluster_to_chain (hd cs) n fs = Some (True, fs') \<and> fat_inv fs' \<and> same_fs fs fs' \<and>
    is_chain fs' (cs @ [n]) \<and> (\<forall>d. d \<noteq> last cs \<longrightarrow> d \<noteq> n \<longrightarrow> fat_entry fs' d = fat_entry fs d)"
proof -
  have cs: "cs \<noteq> []" using assms(3) by auto
  obtain fs1 where e: "fat_chain_end FAT32_LAST_CLUSTER (hd cs) fs = Some (Some (last cs), fs1)" "fat_inv fs1" "same_view fs fs1"
    using fat_chain_end_chain[OF assms(1,3,5)] by blast
  obtain r fs2 where w2: "fatfs_fat_set_cluster (last cs) n fs1 = (r, fs2)" by fastforce
  obtain r' fs3 where w3: "fatfs_fat_set_cluster n FAT32_LAST_CLUSTER fs2 = (r', fs3)" by fastforce
  have v: "same_fs fs fs1" "fat_entry fs1 = fat_entry fs" using e(3) by (simp_all add: same_view_def same_fs_entry)
  have pre: "write_media (disk_io fs1) \<noteq> None" "is_chain fs1 cs" "\<forall>c \<in> set cs. cluster_ok fs1 c" "cluster_ok fs1 n" "link_ok fs1 n"
    using assms by (simp_all add: same_fsD[OF v(1)] same_view_is_chain[OF e(3)] same_view_cluster_ok[OF e(3)] link_ok_def fat_value_def)
  note l = link_new[OF e(2) pre(1,2) assms(4) pre(3,4) assms(7) pre(5) w2 w3]
  have "hd cs \<noteq> FAT32_LAST_CLUSTER" using assms(5) cs by (simp add: cluster_ok_def)
  then show ?thesis
    using e(1) w2 w3 l same_fs_trans[OF v(1) l(2)] v(2) by (simp add: fatfs_fat_add_cluster_to_chain_def)
qed

lemma ex_chain: "is_chain (ex_fs w) [2, 3]" "cluster_ok (ex_fs w) 2" "cluster_ok (ex_fs w) 3" "cluster_ok (ex_fs w) 5"
  and ex_inv: "fat_inv (ex_fs w)"
  using ex_fs_like[of w] ex_next[OF ex_fs_like[of w]] ex_entry_in[OF ex_fs_like[of w]]
  by (simp_all add: cluster_ok_def in_fat_def FAT32_LAST_CLUSTER_def fat_inv_def ex_fat_ok ex_reliable)

theorem free_cluster_chain_correct_witness:
  "\<exists>fs'. fatfs_free_cluster_chain 2 (ex_fs True) = Some (True, fs') \<and> fat_entry fs' 2 = Some 0 \<and> fat_entry fs' 3 = Some 0"
  using free_cluster_chain_correct[of "ex_fs True" "[2, 3]"] ex_chain[of True] ex_inv[of True] by auto

section \<open>Searching for a free cluster\<close>

definition clusters_per_sector :: "'d fatfs \<Rightarrow> nat" where
  "clusters_per_sector fs = (if fat_type fs = FAT_TYPE_16 then 256 else 128)"

lemma fat_sector_offset_less:
  "fat_sector_offset fs c < fat_sectors fs \<longleftrightarrow> unat c < unat (fat_sectors fs) * clusters_per_sector fs"
  by (simp add: fat_sector_offset_def clusters_per_sector_def word_less_nat_alt unat_div less_mult_imp_div_less)
     (auto simp: div_less_iff_less_mult)

text \<open>The result of a search from a cluster on; one round of the loop.\<close>

definition blank_result :: "'d fatfs \<Rightarrow> u32 \<Rightarrow> u32 option \<Rightarrow> bool" where
  "blank_result fs start r \<longleftrightarrow>
     (case r of Some c \<Rightarrow> start \<le> c \<and> fat_sector_offset fs c < fat_sectors fs \<and> fat_entry fs c = Some 0 \<and>
        (\<forall>d. start \<le> d \<and> d < c \<longrightarrow> fat_entry fs d \<noteq> Some 0)
      | None \<Rightarrow> \<forall>d. start \<le> d \<and> fat_sector_offset fs d < fat_sectors fs \<longrightarrow> fat_entry fs d \<noteq> Some 0)"

lemma find_blank_step:
  assumes "fat_inv fs" "fat_sector_offset fs start < fat_sectors fs" "fat_entry fs start \<noteq> None"
  shows "\<exists>fs'. fat_inv fs' \<and> same_view fs fs' \<and>
    fatfs_find_blank_cluster start fs =
      (if fat_entry fs start = Some 0 then Some (Some start, fs') else fatfs_find_blank_cluster (start + 1) fs')"
proof -
  let ?s = "fat_begin_lba fs + fat_sector_offset fs start"
  obtain r fs1 where rd: "fatfs_fat_read_sector ?s fs = (r, fs1)" by fastforce
  have inv: "fat_ok fs" "write_reliable (disk_io fs)" using assms(1) by (simp_all add: fat_inv_def)
  note sp = fat_read_sector_spec[OF inv(1) rd]
  have "fat_sector fs ?s \<noteq> None" using assms(3) by (auto simp: fat_entry_def)
  then obtain i x where i: "r = Some i" "fat_sector fs ?s = Some x" "holds_sector fs1 i ?s x"
    using sp(4,5) inv(2) by (cases r) auto
  have ent: "fat_entry fs start = Some (fat_raw_entry fs1 i start)"
    using i(2) by (simp add: fat_entry_def fat_raw_entry_holds[OF i(3) sp(3)])
  have fs1: "fat_inv fs1" "same_view fs fs1" using sp inv by (simp_all add: fat_inv_def same_view_def same_fsD)
  have "fatfs_find_blank_cluster start fs =
      (if fat_entry fs start = Some 0 then Some (Some start, fs1) else fatfs_find_blank_cluster (start + 1) fs1)"
    using assms(2) rd i ent by (subst fatfs_find_blank_cluster.simps) (simp add: Let_def)
  then show ?thesis using fs1 by blast
qed

lemma blank_result_view:
  assumes "same_view fs fs'"
  shows "blank_result fs' = blank_result fs" "fat_sectors fs' = fat_sectors fs" "fat_sector_offset fs' = fat_sector_offset fs"
    "clusters_per_sector fs' = clusters_per_sector fs" "fat_entry fs' = fat_entry fs"
proof -
  have e: "fat_entry fs' = fat_entry fs" "fat_sectors fs' = fat_sectors fs" "fat_sector_offset fs' = fat_sector_offset fs"
    using assms by (auto simp: same_view_def same_fs_entry same_fsD fat_sector_offset_def[abs_def])
  show "blank_result fs' = blank_result fs" unfolding blank_result_def[abs_def] e ..
  show "clusters_per_sector fs' = clusters_per_sector fs" using assms by (auto simp: clusters_per_sector_def same_view_def same_fsD)
qed (use assms in \<open>auto simp: same_view_def same_fs_entry same_fsD fat_sector_offset_def[abs_def]\<close>)

lemma find_blank_spec:
  assumes "fat_inv fs" "\<And>c. fat_sector_offset fs c < fat_sectors fs \<Longrightarrow> fat_entry fs c \<noteq> None"
    "unat (fat_sectors fs) * clusters_per_sector fs < 2 ^ 32"
  shows "\<exists>r fs'. fatfs_find_blank_cluster start fs = Some (r, fs') \<and> fat_inv fs' \<and> same_view fs fs' \<and> blank_result fs start r"
  using assms
proof (induction "unat (fat_sectors fs) * clusters_per_sector fs - unat start" arbitrary: start fs rule: less_induct)
  case less
  show ?case
  proof (cases "fat_sector_offset fs start < fat_sectors fs")
    case False
    then have "fatfs_find_blank_cluster start fs = Some (None, fs)"
      by (subst fatfs_find_blank_cluster.simps) simp
    moreover have "\<not> fat_sector_offset fs d < fat_sectors fs" if "start \<le> d" for d
      using False that unfolding fat_sector_offset_less word_le_nat_alt by simp
    ultimately show ?thesis using less.prems(1) by (auto simp: fat.rel_refl blank_result_def)
  next
    case True
    obtain fs1 where fs1: "fat_inv fs1" "same_view fs fs1" and st: "fatfs_find_blank_cluster start fs =
        (if fat_entry fs start = Some 0 then Some (Some start, fs1) else fatfs_find_blank_cluster (start + 1) fs1)"
      using find_blank_step[OF less.prems(1) True less.prems(2)[OF True]] by blast
    show ?thesis
    proof (cases "fat_entry fs start = Some 0")
      case zero: True
      then show ?thesis using fs1 st True by (auto simp: not_less blank_result_def)
    next
      case used: False
      note e = blank_result_view[OF fs1(2)]
      have lt: "unat start < unat (fat_sectors fs) * clusters_per_sector fs" using True by (simp add: fat_sector_offset_less)
      then have s1: "unat (start + 1) = unat start + 1" using less.prems(3) by (simp add: unat_word_ariths)
      have "unat (fat_sectors fs1) * clusters_per_sector fs1 - unat (start + 1) < unat (fat_sectors fs) * clusters_per_sector fs - unat start"
        using lt s1 by (simp add: e)
      from less.hyps[OF this fs1(1), unfolded e, OF less.prems(2,3)] obtain r2 fs2 where
        "fatfs_find_blank_cluster (start + 1) fs1 = Some (r2, fs2)" "fat_inv fs2" "same_view fs1 fs2" "blank_result fs (start + 1) r2"
        by blast
      moreover have "start + 1 \<le> d \<longleftrightarrow> start \<le> d \<and> d \<noteq> start" for d
        unfolding word_le_nat_alt s1 by (auto simp: word_unat_eq_iff)
      ultimately show ?thesis
        using st fat.rel_trans[OF fs1(2)] used by (auto simp: blank_result_def split: option.splits)
    qed
  qed
qed

text \<open>
  Searching. When every sector of the table can be read and the table is smaller than the numbers
  of clusters, \<^verbatim>\<open>fatfs_find_blank_cluster\<close> returns with the first free cluster from the given one on, or
  with none exactly when there is none.
\<close>
theorem find_blank_cluster_correct:
  assumes "fat_inv fs" "\<And>c. fat_sector_offset fs c < fat_sectors fs \<Longrightarrow> fat_entry fs c \<noteq> None"
    "unat (fat_sectors fs) * clusters_per_sector fs < 2 ^ 32"
  shows "\<exists>r fs'. fatfs_find_blank_cluster start fs = Some (r, fs') \<and> fat_inv fs' \<and> same_view fs fs' \<and>
    (case r of Some c \<Rightarrow> start \<le> c \<and> fat_entry fs c = Some 0 \<and> (\<forall>d. start \<le> d \<and> d < c \<longrightarrow> fat_entry fs d \<noteq> Some 0)
     | None \<Rightarrow> \<forall>d. start \<le> d \<and> fat_sector_offset fs d < fat_sectors fs \<longrightarrow> fat_entry fs d \<noteq> Some 0)"
proof -
  obtain r fs' where "fatfs_find_blank_cluster start fs = Some (r, fs')" "fat_inv fs'" "same_view fs fs'" "blank_result fs start r"
    using find_blank_spec[OF assms] by blast
  then show ?thesis by (cases r) (auto simp: blank_result_def)
qed

theorem find_blank_cluster_correct_witness:
  "\<exists>fs'. fatfs_find_blank_cluster 2 (ex_fs True) = Some (Some 4, fs')"
proof -
  note e = ex_entry_in[OF ex_fs_like[of True]]
  have all: "fat_entry (ex_fs True) c \<noteq> None" if "fat_sector_offset (ex_fs True) c < fat_sectors (ex_fs True)" for c
  proof -
    have "unat c < 256" using that unfolding fat_sector_offset_less clusters_per_sector_def by simp
    then show ?thesis using e(1)[of c] by simp
  qed
  have "unat (fat_sectors (ex_fs True)) * clusters_per_sector (ex_fs True) < 2 ^ 32" by (simp add: clusters_per_sector_def)
  from find_blank_cluster_correct[OF ex_inv all this, of 2] obtain r fs' where
    f: "fatfs_find_blank_cluster 2 (ex_fs True) = Some (r, fs')" and
    r: "case r of Some c \<Rightarrow> 2 \<le> c \<and> fat_entry (ex_fs True) c = Some 0 \<and> (\<forall>d. 2 \<le> d \<and> d < c \<longrightarrow> fat_entry (ex_fs True) d \<noteq> Some 0)
     | None \<Rightarrow> \<forall>d. 2 \<le> d \<and> fat_sector_offset (ex_fs True) d < fat_sectors (ex_fs True) \<longrightarrow> fat_entry (ex_fs True) d \<noteq> Some 0"
    by blast
  have "r = Some 4"
  proof (cases r)
    case None
    then show ?thesis using r[unfolded None] e[of 4] by (auto simp: word_le_nat_alt)
  next
    case (Some c)
    then have c: "2 \<le> c" "fat_entry (ex_fs True) c = Some 0" "\<not> (4 < c)"
      using r e(1)[of 4] by (auto simp: word_le_nat_alt)
    then have "unat c \<le> 4" "2 \<le> unat c" by (simp_all add: word_le_nat_alt word_less_nat_alt)
    then have "unat c = 2 \<or> unat c = 3 \<or> unat c = 4" by auto
    then have "c = 2 \<or> c = 3 \<or> c = 4" by (auto simp: word_unat_eq_iff)
    then show ?thesis using c(2) e(1)[of 2] e(1)[of 3] Some by auto
  qed
  then show ?thesis using f by blast
qed

end
