(* ===== verification/Console.thy ===== *)
theory Console
  imports Fdt_Ro
begin

text \<open>
  The console, \<^verbatim>\<open>console.c\<close>, and the log, \<^verbatim>\<open>log.c\<close>. The terminal is firmware: \<open>con_out\<close> are the bytes
  the code hands to \<^verbatim>\<open>opal_write\<close>, in order, and \<open>con_in\<close> are the results of the calls of \<^verbatim>\<open>opal_read\<close> to
  come: whether it succeeds, the length it stores and the character. Strings are passed as the list
  of their bytes; \<open>log_msg\<close> is \<^verbatim>\<open>_log\<close> from the text on that \<^verbatim>\<open>vsnprintf\<close> has put into its buffer, the whole of it is in \<open>Log\<close>.
\<close>

section \<open>The console\<close>

record con_t =
  con_out :: "u8 list"
  con_in :: "(bool \<times> u64 \<times> u8) list"

definition putchar :: "u8 \<Rightarrow> con_t \<Rightarrow> con_t" where
  "putchar c s = s\<lparr>con_out := con_out s @ [c]\<rparr>"

definition con_putchar :: "u8 \<Rightarrow> con_t \<Rightarrow> con_t" where
  "con_putchar c s = (let s = putchar c s in if c = 0x0a then putchar 0x0d s else s)"

fun con_puts :: "u8 list \<Rightarrow> con_t \<Rightarrow> con_t" where
  "con_puts [] s = s"
| "con_puts (c # cs) s = con_puts cs (con_putchar c s)"

definition con_puts_len :: "u8 list \<Rightarrow> con_t \<Rightarrow> con_t" where
  "con_puts_len cs s = s\<lparr>con_out := con_out s @ cs\<rparr>"

text \<open>\<open>None\<close> is \<^verbatim>\<open>NO_CHAR\<close>.\<close>

definition con_getchar :: "con_t \<Rightarrow> u8 option \<times> con_t" where
  "con_getchar s =
     (case con_in s of [] \<Rightarrow> (None, s)
      | (ok, len, c) # rs \<Rightarrow> (if \<not> ok \<or> len = 0 then None else Some c, s\<lparr>con_in := rs\<rparr>))"

section \<open>The log\<close>

definition LOG_FATAL :: nat where "LOG_FATAL = 0"
definition LOG_ERROR :: nat where "LOG_ERROR = 1"
definition LOG_WARN :: nat where "LOG_WARN = 2"
definition LOG_NORMAL :: nat where "LOG_NORMAL = 3"
definition LOG_MAX :: nat where "LOG_MAX = 6"

definition ansi :: "string \<Rightarrow> u8 list" where
  "ansi n = 0x1b # lit (''['' @ n @ ''m'')"

definition colors :: "u8 list list" where
  "colors = [ansi ''91'', ansi ''91'', ansi ''93'', ansi ''97'', ansi ''0'', ansi ''90'']"

definition log_prefix :: "u8 list \<Rightarrow> u8 list \<Rightarrow> con_t \<Rightarrow> con_t" where
  "log_prefix pfx color s =
     con_puts color (con_putchar 0x5d (con_puts pfx (con_puts (ansi ''90'' @ lit ''['') s)))"

text \<open>The loop over the buffer; \<open>first\<close> is \<open>i == 0\<close>.\<close>

fun log_loop :: "u8 list \<Rightarrow> u8 list \<Rightarrow> bool \<Rightarrow> u8 list \<Rightarrow> con_t \<Rightarrow> con_t" where
  "log_loop pfx color first [] s = s"
| "log_loop pfx color first (c # cs) s =
     (if first \<or> c = 0x0a then
        let s = log_prefix pfx color (if c = 0x0a then con_putchar c s else s)
        in log_loop pfx color False cs (if c = 0x0a then s else con_putchar c s)
      else log_loop pfx color False cs (con_putchar c s))"

text \<open>
  The console and, where the call does not return, why. A level of \<^verbatim>\<open>LOG_MAX\<close> passes the range check
  and indexes behind the array of colours.
\<close>

definition log_msg :: "nat \<Rightarrow> nat \<Rightarrow> u8 list \<Rightarrow> u8 list \<Rightarrow> con_t \<Rightarrow> con_t \<times> halt option" where
  "log_msg level log_lvl pfx buf s =
     (if level > log_lvl \<and> level \<noteq> LOG_ERROR \<and> level \<noteq> LOG_FATAL then (s, None)
      else
        let level = (if level > LOG_MAX then LOG_MAX - 1 else level)
        in if level \<ge> length colors then (s, Some (Bug ''colors[LOG_MAX]''))
           else
             let s = con_puts (colors ! level) s;
                 s = log_loop pfx (colors ! level) True buf s;
                 s = con_puts (ansi ''0'' @ [0x0a]) s
             in if level = LOG_FATAL then
                  (con_puts (ansi ''0'' @ [0x0a]) (con_puts (lit ''Fatal prephv error detected.'')
                    (con_puts (ansi ''30'') (con_puts (ansi ''41'') s))), Some (Hang ''fatal''))
                else (s, None))"

section \<open>What is written\<close>

text \<open>A newline is followed by a carriage return.\<close>

definition crlf :: "u8 list \<Rightarrow> u8 list" where
  "crlf cs = concat (map (\<lambda>c. if c = 0x0a then [0x0a, 0x0d] else [c]) cs)"

lemma crlf_simps [simp]: "crlf [] = []" "crlf (cs @ ds) = crlf cs @ crlf ds"
  "crlf (c # cs) = (if c = 0x0a then [0x0a, 0x0d] else [c]) @ crlf cs"
  by (simp_all add: crlf_def)

lemma con_putchar_out [simp]: "con_out (con_putchar c s) = con_out s @ crlf [c]"
  "con_in (con_putchar c s) = con_in s"
  by (simp_all add: con_putchar_def putchar_def Let_def)

lemma con_puts_out [simp]: "con_out (con_puts cs s) = con_out s @ crlf cs" "con_in (con_puts cs s) = con_in s"
  by (induction cs arbitrary: s) simp_all

text \<open>Where prefixes go: before the first character unless it is a newline, and after each newline.\<close>

definition log_body :: "u8 list \<Rightarrow> u8 list \<Rightarrow> u8 list" where
  "log_body pfx buf =
     (if buf \<noteq> [] \<and> hd buf \<noteq> 0x0a then pfx else []) @
     concat (map (\<lambda>c. if c = 0x0a then crlf [c] @ pfx else [c]) buf)"

definition log_mark :: "u8 list \<Rightarrow> u8 list \<Rightarrow> u8 list" where
  "log_mark pfx color = crlf (ansi ''90'' @ lit ''['' @ pfx @ [0x5d] @ color)"

lemma log_prefix_out [simp]: "con_out (log_prefix pfx color s) = con_out s @ log_mark pfx color"
  by (simp add: log_prefix_def log_mark_def)

lemma log_loop_out:
  "con_out (log_loop pfx color False buf s) = con_out s @
     concat (map (\<lambda>c. if c = 0x0a then crlf [c] @ log_mark pfx color else [c]) buf)"
  by (induction buf arbitrary: s) (simp_all add: Let_def)

lemma log_loop_body:
  "con_out (log_loop pfx color True buf s) = con_out s @ log_body (log_mark pfx color) buf"
  by (cases buf) (simp_all add: log_loop_out log_body_def Let_def)

text \<open>
  A message of a level the array has is written when its level is at most the configured one or
  it is an error or fatal: the colour, the lines with a prefix each, the reset and a line end, and
  for a fatal one the banner. Only a fatal message does not return; a message of the level
  \<^verbatim>\<open>LOG_MAX\<close> reads behind the array.
\<close>
theorem log_msg_correct:
  "log_msg level log_lvl pfx buf s =
     (let shown = level \<le> log_lvl \<or> level = LOG_ERROR \<or> level = LOG_FATAL; l = (if level > LOG_MAX then LOG_MAX - 1 else level)
      in if \<not> shown then (s, None)
         else if l = LOG_MAX then (s, Some (Bug ''colors[LOG_MAX]''))
         else (s\<lparr>con_out := con_out s @ crlf (colors ! l) @ log_body (log_mark pfx (colors ! l)) buf @ crlf (ansi ''0'' @ [0x0a]) @
             (if l = LOG_FATAL then
                crlf (ansi ''41'' @ ansi ''30'' @ lit ''Fatal prephv error detected.'' @ ansi ''0'' @ [0x0a]) else [])\<rparr>,
           if l = LOG_FATAL then Some (Hang ''fatal'') else None))"
proof -
  have eq: "t = t'" if "con_out t = con_out t'" "con_in t = con_in t'" for t t' :: con_t using that by (simp add: con_t.equality)
  have in': "con_in (log_loop pfx color b buf s) = con_in s" for color b s
    by (induction pfx color b buf s rule: log_loop.induct) (simp_all add: log_prefix_def Let_def)
  have l: "length colors = LOG_MAX" by (simp add: colors_def LOG_MAX_def)
  have "(if level > LOG_MAX then LOG_MAX - 1 else level) \<le> LOG_MAX" by simp
  then show ?thesis
    unfolding log_msg_def Let_def l
    by (auto intro!: eq simp: log_loop_body in' simp del: crlf_simps(3))
qed

end
