(* ===== verification/Ranges.thy ===== *)
theory Ranges
  imports Prelude
begin

text \<open>
  Range-based resource tracking: \<^verbatim>\<open>include/ranges.h\<close> and \<^verbatim>\<open>lib/ranges.c\<close>. A \<^verbatim>\<open>ranges_t\<close> is a
  linked list of \<^verbatim>\<open>range_t\<close>; here it is the list of its entries in link order (theory
  \<open>List_Head\<close> shows that \<^verbatim>\<open>list_add_tail\<close>, \<^verbatim>\<open>list_del\<close> and the iteration macros are the list
  operations used here). \<^verbatim>\<open>mem_malloc\<close> is a parameter \<open>mm\<close>: \<open>mm b l\<close> says whether the
  allocation of the entry for \<open>b\<close>-\<open>l\<close> succeeds.

  The contract of a tracked region (its invariant, the set of addresses it covers, what adding
  and removing do to that set) is the locale \<open>region_set\<close>; the page allocator and the ROM's
  claim service are its clients.
\<close>

section \<open>Definitions\<close>

record range_t =
  r_base :: u64
  r_limit :: u64

type_synonym ranges_t = "range_t list"
type_synonym malloc_ok = "u64 \<Rightarrow> u64 \<Rightarrow> bool"

definition range_init :: ranges_t where
  "range_init = []"

fun range_count_from :: "length_t \<Rightarrow> ranges_t \<Rightarrow> length_t" where
  "range_count_from c [] = c"
| "range_count_from c (r # rs) = range_count_from (c + 1) rs"

definition range_count :: "ranges_t \<Rightarrow> length_t" where
  "range_count rs = range_count_from 0 rs"

definition range_alloc :: "malloc_ok \<Rightarrow> u64 \<Rightarrow> u64 \<Rightarrow> range_t outcome" where
  "range_alloc mm b l =
     bug_on (\<not> mm b l) ''failed to alloc range struct'' (Inr \<lparr>r_base = b, r_limit = l\<rparr>)"

text \<open>The loop of \<^verbatim>\<open>range_add\<close>: the entry goes before the first one that starts above it.\<close>

fun range_add_loop :: "range_t \<Rightarrow> ranges_t \<Rightarrow> ranges_t outcome" where
  "range_add_loop r [] = Inr [r]"
| "range_add_loop r (x # xs) =
     bug_on (r_base r \<ge> r_base x \<and> r_limit r \<le> r_limit x) ''range already present''
       (if r_base x > r_limit r then Inr (r # x # xs)
        else bindE (range_add_loop r xs) (\<lambda>ys. Inr (x # ys)))"

definition range_add :: "malloc_ok \<Rightarrow> ranges_t \<Rightarrow> u64 \<Rightarrow> u64 \<Rightarrow> ranges_t outcome" where
  "range_add mm rs b l =
     bindE (range_alloc mm b l) (\<lambda>r.
     bug_on (b \<ge> l) ''base >= limit''
       (range_add_loop r rs))"

text \<open>
  The loop of \<^verbatim>\<open>range_remove\<close>: \<open>pre\<close> are the entries already passed, the second list is what
  \<^verbatim>\<open>list_for_each_entry_safe\<close> still has to visit. Splitting an entry calls \<^verbatim>\<open>range_add\<close> on the
  whole list; the iteration goes on at the saved next entry, so the entries in front of it
  (the new one among them, see \<open>range_add_before_rest\<close>) are passed.
\<close>

fun range_remove_loop :: "malloc_ok \<Rightarrow> u64 \<Rightarrow> u64 \<Rightarrow> ranges_t \<Rightarrow> ranges_t \<Rightarrow> ranges_t outcome" where
  "range_remove_loop mm b l pre [] = Inr pre"
| "range_remove_loop mm b l pre (r # rest) =
     (if r_base r > l \<or> r_limit r < b then range_remove_loop mm b l (pre @ [r]) rest
      else if r_base r \<ge> b \<and> r_limit r \<le> l then range_remove_loop mm b l pre rest
      else if r_base r \<ge> b then range_remove_loop mm b l (pre @ [r\<lparr>r_base := l + 1\<rparr>]) rest
      else if r_limit r \<le> l then range_remove_loop mm b l (pre @ [r\<lparr>r_limit := b - 1\<rparr>]) rest
      else bindE (range_add mm (pre @ r\<lparr>r_base := l + 1\<rparr> # rest) (r_base r) (b - 1)) (\<lambda>rs.
           range_remove_loop mm b l (take (length rs - length rest) rs) rest))"

definition range_remove :: "malloc_ok \<Rightarrow> ranges_t \<Rightarrow> u64 \<Rightarrow> u64 \<Rightarrow> ranges_t outcome" where
  "range_remove mm rs b l =
     bug_on (b \<ge> l) ''base >= limit'' (range_remove_loop mm b l [] rs)"

section \<open>Invariant and abstraction\<close>

definition ranges_wf :: "ranges_t \<Rightarrow> bool" where
  "ranges_wf rs \<longleftrightarrow>
     (\<forall>r \<in> set rs. r_base r \<le> r_limit r) \<and> sorted_wrt (\<lambda>r s. r_limit r < r_base s) rs"

definition cover :: "ranges_t \<Rightarrow> u64 set" where
  "cover rs = (\<Union>r \<in> set rs. {r_base r .. r_limit r})"

text \<open>What is left of one entry after \<open>b\<close>-\<open>l\<close> is taken out of it.\<close>

definition trim :: "u64 \<Rightarrow> u64 \<Rightarrow> range_t \<Rightarrow> ranges_t" where
  "trim b l r =
     (if r_base r > l \<or> r_limit r < b then [r]
      else (if r_base r < b then [\<lparr>r_base = r_base r, r_limit = b - 1\<rparr>] else []) @
           (if l < r_limit r then [\<lparr>r_base = l + 1, r_limit = r_limit r\<rparr>] else []))"

text \<open>The entries whose split stops the machine: the left part is one unit, or no memory.\<close>

definition split_fails :: "malloc_ok \<Rightarrow> u64 \<Rightarrow> u64 \<Rightarrow> range_t \<Rightarrow> bool" where
  "split_fails mm b l r \<longleftrightarrow>
     r_base r < b \<and> l < r_limit r \<and> (\<not> mm (r_base r) (b - 1) \<or> r_base r = b - 1)"

section \<open>The region contract\<close>

locale region_set =
  fixes inv :: "'s \<Rightarrow> bool" and region :: "'s \<Rightarrow> u64 set"
    and add :: "'s \<Rightarrow> u64 \<Rightarrow> u64 \<Rightarrow> 's outcome"
    and remove :: "'s \<Rightarrow> u64 \<Rightarrow> u64 \<Rightarrow> 's outcome"
  assumes add_inv: "inv s \<Longrightarrow> {b..l} \<inter> region s = {} \<Longrightarrow> add s b l = Inr s' \<Longrightarrow> inv s'"
    and add_region:
      "inv s \<Longrightarrow> {b..l} \<inter> region s = {} \<Longrightarrow> add s b l = Inr s' \<Longrightarrow> region s' = region s \<union> {b..l}"
    and remove_inv: "inv s \<Longrightarrow> remove s b l = Inr s' \<Longrightarrow> inv s'"
    and remove_region: "inv s \<Longrightarrow> remove s b l = Inr s' \<Longrightarrow> region s' = region s - {b..l}"
    and remove_nonempty: "remove s b l = Inr s' \<Longrightarrow> b < l"
begin

lemma removed_gone: "inv s \<Longrightarrow> remove s b l = Inr s' \<Longrightarrow> {b..l} \<inter> region s' = {}"
  by (auto simp: remove_region)

lemma remove_shrinks: "inv s \<Longrightarrow> remove s b l = Inr s' \<Longrightarrow> region s' \<subseteq> region s"
  by (auto simp: remove_region)

text \<open>A run of removals: the regions taken out by successive successful calls.\<close>

fun remove_all :: "'s \<Rightarrow> (u64 \<times> u64) list \<Rightarrow> 's outcome" where
  "remove_all s [] = Inr s"
| "remove_all s ((b, l) # bs) = bindE (remove s b l) (\<lambda>s'. remove_all s' bs)"

lemma remove_all_region:
  "inv s \<Longrightarrow> remove_all s bs = Inr s' \<Longrightarrow>
   inv s' \<and> region s' = region s - (\<Union>(b, l) \<in> set bs. {b..l})"
proof (induction bs arbitrary: s)
  case Nil
  then show ?case by simp
next
  case (Cons p bs)
  obtain b l where p: "p = (b, l)"
    by (cases p)
  with Cons.prems obtain s1 where s1: "remove s b l = Inr s1" "remove_all s1 bs = Inr s'"
    by (auto simp: outcome_simps)
  with Cons.IH [of s1] Cons.prems(1) p show ?case
    by (auto simp: remove_inv remove_region)
qed

text \<open>
  Two allocations out of the same region never overlap: what is inside the region after the
  first removal is disjoint from what was removed.
\<close>

lemma successive_disjoint:
  assumes "inv s" "remove s b l = Inr s1" "{b'..l'} \<subseteq> region s1"
  shows "{b..l} \<inter> {b'..l'} = {}"
  using removed_gone [OF assms(1,2)] assms(3) by blast

end

section \<open>Lemmas\<close>

lemma range_count_from: "range_count_from c rs = c + of_nat (length rs)"
  by (induction rs arbitrary: c) (simp_all add: algebra_simps)

lemma ranges_wf_Nil [simp]: "ranges_wf []"
  by (simp add: ranges_wf_def)

lemma ranges_wf_Cons: "ranges_wf (r # rs) \<longleftrightarrow>
    r_base r \<le> r_limit r \<and> (\<forall>s \<in> set rs. r_limit r < r_base s) \<and> ranges_wf rs"
  by (auto simp: ranges_wf_def)

lemma ranges_wf_append: "ranges_wf (rs @ ss) \<longleftrightarrow>
    ranges_wf rs \<and> ranges_wf ss \<and> (\<forall>r \<in> set rs. \<forall>s \<in> set ss. r_limit r < r_base s)"
  by (auto simp: ranges_wf_def sorted_wrt_append)

lemma cover_simps [simp]:
  "cover [] = {}" "cover (r # rs) = {r_base r .. r_limit r} \<union> cover rs"
  "cover (rs @ ss) = cover rs \<union> cover ss"
  by (auto simp: cover_def)

lemma range_add_loop_mid:
  "r_base n \<le> r_limit n \<Longrightarrow> \<forall>x \<in> set pre. r_limit x < r_base n \<and> r_base x \<le> r_limit x \<Longrightarrow>
   r_limit n < r_base y \<Longrightarrow> range_add_loop n (pre @ y # rest) = Inr (pre @ n # y # rest)"
  by (induction pre) (auto simp: bug_on_def)

lemma range_add_loop_end:
  "r_base n \<le> r_limit n \<Longrightarrow> \<forall>x \<in> set pre. r_limit x < r_base n \<and> r_base x \<le> r_limit x \<Longrightarrow>
   range_add_loop n pre = Inr (pre @ [n])"
  by (induction pre) (auto simp: bug_on_def)

text \<open>A range outside a well-formed list splits it into the entries below and above.\<close>

lemma disjoint_split:
  assumes "ranges_wf rs" "{b..l} \<inter> cover rs = {}" "b \<le> l"
  shows "\<exists>pre post. rs = pre @ post \<and> (\<forall>x \<in> set pre. r_limit x < b) \<and> (\<forall>y \<in> set post. l < r_base y)"
  using assms
proof (induction rs)
  case Nil
  then show ?case by simp
next
  case (Cons r rs)
  then have wf: "r_base r \<le> r_limit r" "\<forall>s \<in> set rs. r_limit r < r_base s" "ranges_wf rs"
    and out: "{b..l} \<inter> {r_base r..r_limit r} = {}" "{b..l} \<inter> cover rs = {}"
    by (simp_all add: ranges_wf_Cons Int_Un_distrib del: Int_atLeastAtMost)
  show ?case
  proof (cases "r_limit r < b")
    case True
    with Cons.IH [OF wf(3) out(2) Cons.prems(3)] obtain pre post where
      "rs = pre @ post" "\<forall>x \<in> set pre. r_limit x < b" "\<forall>y \<in> set post. l < r_base y"
      by blast
    with True have "r # rs = (r # pre) @ post" "\<forall>x \<in> set (r # pre). r_limit x < b"
      by auto
    with \<open>\<forall>y \<in> set post. l < r_base y\<close> show ?thesis
      by blast
  next
    case False
    have "l < r_base r"
    proof (rule ccontr)
      assume "\<not> l < r_base r"
      with False wf(1) Cons.prems(3) have "max b (r_base r) \<in> {b..l} \<inter> {r_base r..r_limit r}"
        by (auto simp: max_def)
      with out(1) show False
        by blast
    qed
    with wf have "\<forall>y \<in> set (r # rs). l < r_base y"
      by (auto intro: less_trans le_less_trans)
    then show ?thesis
      by (metis append_Nil list.distinct(1) list.set_cases)
  qed
qed

lemma range_add_loop_disjoint:
  assumes "ranges_wf rs" "{b..l} \<inter> cover rs = {}" "b < l"
  shows "\<exists>rs'. range_add_loop \<lparr>r_base = b, r_limit = l\<rparr> rs = Inr rs' \<and>
    ranges_wf rs' \<and> cover rs' = cover rs \<union> {b..l}"
proof -
  obtain pre post where rs: "rs = pre @ post"
    and below: "\<forall>x \<in> set pre. r_limit x < b" and above: "\<forall>y \<in> set post. l < r_base y"
    using disjoint_split [OF assms(1,2) less_imp_le [OF assms(3)]] by blast
  let ?n = "\<lparr>r_base = b, r_limit = l\<rparr>"
  have "range_add_loop ?n rs = Inr (pre @ ?n # post)"
  proof (cases post)
    case Nil
    with rs below assms show ?thesis
      using range_add_loop_end [of ?n pre] by (auto simp: ranges_wf_def)
  next
    case (Cons y ys)
    with rs below above assms show ?thesis
      using range_add_loop_mid [of ?n pre y ys] by (auto simp: ranges_wf_def)
  qed
  moreover have "ranges_wf (pre @ ?n # post)"
    using assms rs below above by (auto simp: ranges_wf_append ranges_wf_Cons)
  moreover have "cover (pre @ ?n # post) = cover rs \<union> {b..l}"
    using rs by auto
  ultimately show ?thesis
    by blast
qed

lemma range_add_Inr: "range_add mm rs b l = Inr rs' \<longleftrightarrow>
    mm b l \<and> b < l \<and> range_add_loop \<lparr>r_base = b, r_limit = l\<rparr> rs = Inr rs'"
  by (auto simp: range_add_def range_alloc_def outcome_simps)

text \<open>
  Splitting an entry of a well-formed list puts the left part right in front of it, never among
  the entries still to be visited.
\<close>

lemma range_add_before_rest:
  assumes "ranges_wf (pre @ r # rest)" "r_base r < b" "b < l" "l < r_limit r"
    "mm (r_base r) (b - 1)" "r_base r \<noteq> b - 1"
  shows "range_add mm (pre @ r\<lparr>r_base := l + 1\<rparr> # rest) (r_base r) (b - 1) =
    Inr (pre @ \<lparr>r_base = r_base r, r_limit = b - 1\<rparr> # r\<lparr>r_base := l + 1\<rparr> # rest)"
proof -
  have lt: "r_base r < b - 1"
    using assms(2,6) by (blast dest: word_less_predD)
  have "b - 1 < l + 1"
    using assms(2-4) by (simp add: word_less_nat_alt unat_Suc_less [OF assms(4)] unat_pred_less [OF assms(2)])
  then have "range_add_loop \<lparr>r_base = r_base r, r_limit = b - 1\<rparr> (pre @ r\<lparr>r_base := l + 1\<rparr> # rest) =
    Inr (pre @ \<lparr>r_base = r_base r, r_limit = b - 1\<rparr> # r\<lparr>r_base := l + 1\<rparr> # rest)"
    using lt assms(1) by (intro range_add_loop_mid) (auto simp: ranges_wf_def sorted_wrt_append)
  with lt assms show ?thesis
    by (simp add: range_add_Inr)
qed

lemma trim_bounds:
  assumes "b < l" "r_base r \<le> r_limit r"
  shows "ranges_wf (trim b l r)" "\<forall>s \<in> set (trim b l r). r_base r \<le> r_base s \<and> r_limit s \<le> r_limit r"
proof -
  have "r_base r < b \<Longrightarrow> r_base r \<le> b - 1 \<and> b - 1 < b" "l < r_limit r \<Longrightarrow> l < l + 1 \<and> l + 1 \<le> r_limit r"
    by (auto intro: word_le_predI word_pred_less word_less_SucI word_Suc_leI)
  with assms show "ranges_wf (trim b l r)"
    "\<forall>s \<in> set (trim b l r). r_base r \<le> r_base s \<and> r_limit s \<le> r_limit r"
    by (auto simp: trim_def ranges_wf_def)
qed

lemma trim_wf: "b < l \<Longrightarrow> ranges_wf rs \<Longrightarrow> ranges_wf (concat (map (trim b l) rs))"
proof (induction rs)
  case Nil
  then show ?case by simp
next
  case (Cons r rs)
  have "\<exists>t \<in> set rs. r_base t \<le> r_base s" if "s \<in> set (concat (map (trim b l) rs))" for s
    using that Cons.prems trim_bounds(2) [OF \<open>b < l\<close>] by (auto simp: ranges_wf_def)
  with Cons trim_bounds [OF \<open>b < l\<close>, of r] show ?case
    by (fastforce simp: ranges_wf_Cons ranges_wf_append)
qed

lemma trim_cover: "b < l \<Longrightarrow> r_base r \<le> r_limit r \<Longrightarrow> cover (trim b l r) = {r_base r..r_limit r} - {b..l}"
proof -
  assume *: "b < l" "r_base r \<le> r_limit r"
  have "x \<le> b - 1 \<longleftrightarrow> x < b" if "r_base r < b" for x
    using word_le_predI [of x b] word_pred_less [OF that] by auto
  moreover have "l + 1 \<le> x \<longleftrightarrow> l < x" if "l < r_limit r" for x
    using word_Suc_leI [of l x] word_less_SucI [OF that] by auto
  ultimately show ?thesis
    using * by (auto simp: trim_def)
qed

lemma trim_all_cover: "b < l \<Longrightarrow> ranges_wf rs \<Longrightarrow> cover (concat (map (trim b l) rs)) = cover rs - {b..l}"
  by (induction rs) (auto simp: ranges_wf_Cons trim_cover)

lemma trim_wf_in: "b < l \<Longrightarrow> ranges_wf (pre @ r # rest) \<Longrightarrow> ranges_wf (pre @ trim b l r @ rest)"
  using trim_bounds [of b l r] by (fastforce simp: ranges_wf_append ranges_wf_Cons)

text \<open>One step of the loop trims the current entry.\<close>

lemma range_remove_step:
  assumes "ranges_wf (pre @ r # rest)" "b < l" "\<not> split_fails mm b l r"
  shows "range_remove_loop mm b l pre (r # rest) = range_remove_loop mm b l (pre @ trim b l r) rest"
proof (cases "r_base r < b \<and> l < r_limit r")
  case True
  with assms have split: "range_add mm (pre @ r\<lparr>r_base := l + 1\<rparr> # rest) (r_base r) (b - 1) =
      Inr (pre @ \<lparr>r_base = r_base r, r_limit = b - 1\<rparr> # r\<lparr>r_base := l + 1\<rparr> # rest)"
    by (intro range_add_before_rest) (auto simp: split_fails_def)
  have "\<not> l < r_base r" "\<not> r_limit r < b"
    using True assms(2) by auto
  moreover from this True have "trim b l r =
      [\<lparr>r_base = r_base r, r_limit = b - 1\<rparr>, r\<lparr>r_base := l + 1\<rparr>]"
    by (cases r) (auto simp: trim_def)
  ultimately show ?thesis
    using True split by auto
next
  case False
  with assms show ?thesis
    by (cases r) (auto simp: trim_def not_less ranges_wf_append ranges_wf_Cons split: if_splits)
qed

lemma range_remove_loop_ok:
  "ranges_wf (pre @ rest) \<Longrightarrow> b < l \<Longrightarrow> \<forall>r \<in> set rest. \<not> split_fails mm b l r \<Longrightarrow>
   range_remove_loop mm b l pre rest = Inr (pre @ concat (map (trim b l) rest))"
proof (induction rest arbitrary: pre)
  case Nil
  then show ?case by simp
next
  case (Cons r rest)
  with Cons.IH [of "pre @ trim b l r"] range_remove_step [of pre r rest b l mm] trim_wf_in [of b l pre r rest]
  show ?case by simp
qed

lemma range_remove_loop_fails:
  "ranges_wf (pre @ rest) \<Longrightarrow> b < l \<Longrightarrow> \<exists>r \<in> set rest. split_fails mm b l r \<Longrightarrow>
   \<exists>m. range_remove_loop mm b l pre rest = Inl (Bug m)"
proof (induction rest arbitrary: pre)
  case Nil
  then show ?case by simp
next
  case (Cons r rest)
  show ?case
  proof (cases "split_fails mm b l r")
    case True
    then have "\<exists>m. range_add mm rs (r_base r) (b - 1) = Inl (Bug m)" for rs
      by (auto simp: split_fails_def range_add_def range_alloc_def bug_on_def)
    moreover have "\<not> l < r_base r" "\<not> r_limit r < b" "r_base r < b" "l < r_limit r"
      using True Cons.prems(2) by (auto simp: split_fails_def)
    ultimately show ?thesis
      by (auto simp: bindE_Inl_iff not_less leD)
  next
    case False
    with Cons.IH [of "pre @ trim b l r"] Cons.prems range_remove_step [of pre r rest b l mm]
      trim_wf_in [of b l pre r rest]
    show ?thesis by auto
  qed
qed

lemma range_remove_wf:
  assumes "ranges_wf rs" "b < l"
  shows "range_remove mm rs b l = Inr rs' \<longleftrightarrow>
    (\<forall>r \<in> set rs. \<not> split_fails mm b l r) \<and> rs' = concat (map (trim b l) rs)"
proof (cases "\<exists>r \<in> set rs. split_fails mm b l r")
  case True
  with range_remove_loop_fails [of "[]" rs b l mm] assms assms(2) [unfolded not_le [symmetric]] show ?thesis
    by (auto simp: range_remove_def)
next
  case False
  with range_remove_loop_ok [of "[]" rs b l mm] assms assms(2) [unfolded not_le [symmetric]] show ?thesis
    by (auto simp: range_remove_def)
qed

lemma range_remove_Inr_less: "range_remove mm rs b l = Inr rs' \<Longrightarrow> b < l"
  by (auto simp: range_remove_def outcome_simps not_le)

lemma range_remove_keeps_wf: "ranges_wf rs \<Longrightarrow> range_remove mm rs b l = Inr rs' \<Longrightarrow> ranges_wf rs'"
  using range_remove_Inr_less by (fastforce simp: range_remove_wf trim_wf)

lemma range_remove_cover:
  "ranges_wf rs \<Longrightarrow> range_remove mm rs b l = Inr rs' \<Longrightarrow> cover rs' = cover rs - {b..l}"
  using range_remove_Inr_less by (fastforce simp: range_remove_wf trim_all_cover)

lemma range_add_disjoint:
  assumes "ranges_wf rs" "{b..l} \<inter> cover rs = {}" "range_add mm rs b l = Inr rs'"
  shows "ranges_wf rs' \<and> cover rs' = cover rs \<union> {b..l}"
  using assms range_add_loop_disjoint [OF assms(1,2)] by (auto simp: range_add_Inr)

interpretation range_list: region_set ranges_wf cover "range_add mm" "range_remove mm" for mm
  by unfold_locales
    (blast dest: range_add_disjoint range_remove_keeps_wf range_remove_cover range_remove_Inr_less)+

section \<open>Properties\<close>

text \<open>C27: removing \<open>base\<close>-\<open>limit\<close> from a well-formed range list, when \<^verbatim>\<open>range_remove\<close> returns, leaves
  a well-formed list that covers exactly the addresses covered before minus that interval.\<close>

theorem range_remove_correct:
  assumes "ranges_wf rs" "range_remove mm rs b l = Inr rs'"
  shows "ranges_wf rs' \<and> cover rs' = cover rs - {b..l}"
  using range_list.remove_inv [OF assms] range_list.remove_region [OF assms] by blast

theorem range_remove_correct_witness:
  "ranges_wf [\<lparr>r_base = 16, r_limit = 47\<rparr>] \<and>
   cover [\<lparr>r_base = 40, r_limit = 47\<rparr>] = cover [\<lparr>r_base = 16, r_limit = 47\<rparr>] - {0..39}"
proof -
  have wf: "ranges_wf [\<lparr>r_base = 16, r_limit = 47\<rparr>]"
    by (simp add: ranges_wf_def)
  have rm: "range_remove (\<lambda>_ _. True) [\<lparr>r_base = 16, r_limit = 47\<rparr>] 0 39 =
      Inr [\<lparr>r_base = 40, r_limit = 47\<rparr>]"
    by (simp add: range_remove_def)
  from wf range_remove_correct [OF wf rm] show ?thesis
    by blast
qed

text \<open>\<^verbatim>\<open>range_remove\<close> on a well-formed list stops the machine exactly when the interval has no
  extent or when it cuts an entry in the middle and the left part cannot be re-added, because
  no memory is left for it or because it is a single unit, which \<^verbatim>\<open>range_add\<close> refuses.\<close>

theorem range_remove_stops_iff:
  assumes "ranges_wf rs"
  shows "(\<exists>h. range_remove mm rs b l = Inl h) \<longleftrightarrow>
    l \<le> b \<or> (\<exists>r \<in> set rs. r_base r < b \<and> l < r_limit r \<and>
      (\<not> mm (r_base r) (b - 1) \<or> r_base r = b - 1))"
proof (cases "b < l")
  case True
  have "(\<exists>h. range_remove mm rs b l = Inl h) \<longleftrightarrow> \<not> (\<exists>rs'. range_remove mm rs b l = Inr rs')"
    by (cases "range_remove mm rs b l") auto
  with True range_remove_wf [OF assms True] show ?thesis
    by (auto simp: split_fails_def)
next
  case False
  then show ?thesis
    by (auto simp: range_remove_def not_less)
qed

theorem range_remove_stops_iff_witness:
  "\<exists>h. range_remove (\<lambda>_ _. True) [\<lparr>r_base = 0, r_limit = 99\<rparr>] 1 50 = Inl h"
proof -
  have "ranges_wf [\<lparr>r_base = 0, r_limit = 99\<rparr>]"
    by (simp add: ranges_wf_def)
  from range_remove_stops_iff [OF this] show ?thesis
    by simp
qed

text \<open>adding a range with extent that touches nothing tracked so far returns (given memory
  for its entry) a well-formed list covering exactly the old addresses and the new ones.\<close>

theorem range_add_correct:
  assumes "ranges_wf rs" "{b..l} \<inter> cover rs = {}" "b < l" "mm b l"
  shows "\<exists>rs'. range_add mm rs b l = Inr rs' \<and> ranges_wf rs' \<and> cover rs' = cover rs \<union> {b..l}"
  using range_add_loop_disjoint [OF assms(1-3)] assms(3,4) by (auto simp: range_add_Inr)

theorem range_add_correct_witness:
  "\<exists>rs'. range_add (\<lambda>_ _. True) [\<lparr>r_base = 16, r_limit = 47\<rparr>] 0 7 = Inr rs' \<and> ranges_wf rs' \<and>
     cover rs' = cover [\<lparr>r_base = 16, r_limit = 47\<rparr>] \<union> {0..7}"
  by (rule range_add_correct) (simp_all add: ranges_wf_def)

end
