(* ===== verification/Ppc_Defs.thy ===== *)
theory Ppc_Defs
  imports Defs
begin

text \<open>
  The architecture constants of \<^verbatim>\<open>include/ppc-defs.h\<close> and \<^verbatim>\<open>include/layout.h\<close> the hypervisor
  computes with, and the conversions between hypervisor pointers and real addresses of
  \<^verbatim>\<open>include/mmu.h\<close>. The constants are collected in \<open>ppc\<close> so that proofs can evaluate them.
\<close>

named_theorems ppc \<open>the values of the architecture constants\<close>

section \<open>Machine state register\<close>

definition MSR_SF :: u64 where [ppc]: "MSR_SF = 2 ^ 63"
definition MSR_EE :: u64 where [ppc]: "MSR_EE = 2 ^ 15"
definition MSR_PR :: u64 where [ppc]: "MSR_PR = 2 ^ 14"
definition MSR_IR_LG :: nat where [ppc]: "MSR_IR_LG = 5"
definition MSR_DR_LG :: nat where [ppc]: "MSR_DR_LG = 4"
definition MSR_IR :: u64 where [ppc]: "MSR_IR = 2 ^ 5"
definition MSR_DR :: u64 where [ppc]: "MSR_DR = 2 ^ 4"
definition MSR_RI :: u64 where [ppc]: "MSR_RI = 2 ^ 1"

section \<open>Special purpose registers, interrupt status and vectors\<close>

definition HID0_HILE :: u64 where [ppc]: "HID0_HILE = 2 ^ (63 - 19)"
definition SPRN_SRR0 :: u64 where [ppc]: "SPRN_SRR0 = 0x01A"
definition SPRN_SRR1 :: u64 where [ppc]: "SPRN_SRR1 = 0x01B"
definition SPRN_SDR1 :: u64 where [ppc]: "SPRN_SDR1 = 0x019"
definition SPRN_SPRG0 :: u64 where [ppc]: "SPRN_SPRG0 = 0x110"
definition SPRN_SPRG3 :: u64 where [ppc]: "SPRN_SPRG3 = 0x113"
definition SPRN_PVR :: u64 where [ppc]: "SPRN_PVR = 0x11f"
definition SPRN_IBAT0U :: u64 where [ppc]: "SPRN_IBAT0U = 0x210"
definition SPRN_DBAT3L :: u64 where [ppc]: "SPRN_DBAT3L = 0x21F"

definition DSISR_NOT_MAPPED :: u64 where [ppc]: "DSISR_NOT_MAPPED = 2 ^ (63 - 33)"
definition SRR1_ISI_NOT_MAPPED :: u64 where [ppc]: "SRR1_ISI_NOT_MAPPED = 2 ^ (63 - 33)"

definition LPCR_ILE :: u64 where [ppc]: "LPCR_ILE = 2 ^ (63 - 38)"
definition LPCR_AIL1 :: u64 where [ppc]: "LPCR_AIL1 = 2 ^ (63 - 39)"
definition LPCR_AIL0 :: u64 where [ppc]: "LPCR_AIL0 = 2 ^ (63 - 40)"
definition LPCR_LPES :: u64 where [ppc]: "LPCR_LPES = 2 ^ (63 - 60)"

definition DEC_DISABLE :: u64 where [ppc]: "DEC_DISABLE = 0x7fffffff"

definition EXC_DSI :: u64 where [ppc]: "EXC_DSI = 0x300"
definition EXC_DSEG :: u64 where [ppc]: "EXC_DSEG = 0x380"
definition EXC_ISI :: u64 where [ppc]: "EXC_ISI = 0x400"
definition EXC_ISEG :: u64 where [ppc]: "EXC_ISEG = 0x480"
definition EXC_PROG :: u64 where [ppc]: "EXC_PROG = 0x700"
definition EXC_DEC :: u64 where [ppc]: "EXC_DEC = 0x900"
definition EXC_SC :: u64 where [ppc]: "EXC_SC = 0xC00"
definition EXC_HEA :: u64 where [ppc]: "EXC_HEA = 0xE40"

section \<open>Address spaces\<close>

definition HV_ASPACE :: u64 where [ppc]: "HV_ASPACE = 0x8000000000000000"
definition AIL_ASPACE_START :: u64 where [ppc]: "AIL_ASPACE_START = 0xc000000000000000"
definition AIL_VECTORS :: u64 where [ppc]: "AIL_VECTORS = 0xc000000000004000"
definition AIL_ASPACE_END :: u64 where [ppc]: "AIL_ASPACE_END = 0xc000000000100000"
definition LAYOUT_VM_START :: u64 where [ppc]: "LAYOUT_VM_START = 0x0000000000000000"
definition LAYOUT_VM_END :: u64 where [ppc]: "LAYOUT_VM_END = 0x0000000100000000"

section \<open>Segments, pages and the hash table\<close>

definition TLBIE_RB_1TB :: u64 where [ppc]: "TLBIE_RB_1TB = 2 ^ 9"
definition TLBIE_RB_L :: u64 where [ppc]: "TLBIE_RB_L = 2 ^ 0"
definition TLBIE_RB_AP_SHIFT :: nat where [ppc]: "TLBIE_RB_AP_SHIFT = 7"
definition TLBIE_RB_AP_4K_16M :: u64 where [ppc]: "TLBIE_RB_AP_4K_16M = 0x4"
definition TLBIE_RB_LP_SHIFT :: nat where [ppc]: "TLBIE_RB_LP_SHIFT = 19"
definition TLBIE_RB_LP_16M_16M :: u64 where [ppc]: "TLBIE_RB_LP_16M_16M = 0"
definition TLBIEL_MAX_SETS :: nat where [ppc]: "TLBIEL_MAX_SETS = 2 ^ (51 - 40 + 1)"
definition TLBIEL_SET_SHIFT :: nat where [ppc]: "TLBIEL_SET_SHIFT = 63 - 51"
definition TLBIEL_IS_ALL_IN_SET :: u64 where [ppc]: "TLBIEL_IS_ALL_IN_SET = 0x3"
definition TLBIEL_IS_SHIFT :: nat where [ppc]: "TLBIEL_IS_SHIFT = 64 - 53"

definition SID_SHIFT_1T :: nat where [ppc]: "SID_SHIFT_1T = 40"
definition ESID_MASK_1T :: u64 where [ppc]: "ESID_MASK_1T = 0xffffff0000000000"
definition SID_SHIFT_256MB :: nat where [ppc]: "SID_SHIFT_256MB = 28"
definition ESID_MASK_256MB :: u64 where [ppc]: "ESID_MASK_256MB = 0xfffffffff0000000"
definition SLBIE_B_1T :: u64 where [ppc]: "SLBIE_B_1T = 2 ^ 25"
definition SLB_ESID_V :: u64 where [ppc]: "SLB_ESID_V = 0x0000000008000000"
definition SLB_VSID_SHIFT_1T :: nat where [ppc]: "SLB_VSID_SHIFT_1T = 24"
definition SLB_VSID_SHIFT_256MB :: nat where [ppc]: "SLB_VSID_SHIFT_256MB = 12"
definition SLB_VSID_B_1T :: u64 where [ppc]: "SLB_VSID_B_1T = 2 ^ (63 - 1)"
definition SLB_VSID_KP :: u64 where [ppc]: "SLB_VSID_KP = 2 ^ (63 - 53)"
definition SLB_VSID_L :: u64 where [ppc]: "SLB_VSID_L = 2 ^ (63 - 55)"
definition SLB_VSID_LP_SHIFT :: nat where [ppc]: "SLB_VSID_LP_SHIFT = 63 - 58"
definition SLB_VSID_LP_16M :: u64 where [ppc]: "SLB_VSID_LP_16M = 0"
definition SLB_VSID_LP_4K :: u64 where [ppc]: "SLB_VSID_LP_4K = 0"

definition SR_COUNT :: nat where [ppc]: "SR_COUNT = 16"
definition SR_VSID_MASK :: u32 where [ppc]: "SR_VSID_MASK = 0xFFFFFF"
definition SR_VSID_SHIFT :: nat where [ppc]: "SR_VSID_SHIFT = 0"

definition SR_INDEX :: "u64 \<Rightarrow> u64" where
  "SR_INDEX ea = drop_bit 28 ea"

definition SR_INDEX_TO_EA :: "u64 \<Rightarrow> u64" where
  "SR_INDEX_TO_EA i = push_bit 28 i"

definition PTEG_SIZE :: u64 where [ppc]: "PTEG_SIZE = 128"
definition PTES_PER_GROUP :: nat where [ppc]: "PTES_PER_GROUP = 8"
definition MIN_PTEGS :: u64 where [ppc]: "MIN_PTEGS = 2 ^ 11"
definition MAX_PTEGS :: u64 where [ppc]: "MAX_PTEGS = 2 ^ (11 + 28)"
definition HTAB_ALIGN :: u64 where [ppc]: "HTAB_ALIGN = MIN_PTEGS * PTEG_SIZE"
definition SDR1_MASK :: u64 where [ppc]: "SDR1_MASK = NOT (HTAB_ALIGN - 1) OR 0xF000000000000000"

definition PAGE_SHIFT :: nat where [ppc]: "PAGE_SHIFT = 12"
definition PAGE_SIZE :: u64 where [ppc]: "PAGE_SIZE = 2 ^ 12"
definition PAGE_SHIFT_16M :: nat where [ppc]: "PAGE_SHIFT_16M = 24"
definition PAGE_SIZE_16M :: u64 where [ppc]: "PAGE_SIZE_16M = 2 ^ 24"
definition PAGE_MASK_16M :: u64 where [ppc]: "PAGE_MASK_16M = NOT (PAGE_SIZE_16M - 1)"

definition PTE_V_1TB_SEG :: u64 where [ppc]: "PTE_V_1TB_SEG = 0x4000000000000000"
definition PTE_V_AVPN_SHIFT :: nat where [ppc]: "PTE_V_AVPN_SHIFT = 7"
definition PTE_V_AVPN :: u64 where [ppc]: "PTE_V_AVPN = 0x3fffffffffffff80"
definition PTE_V_LARGE :: u64 where [ppc]: "PTE_V_LARGE = 0x0000000000000004"
definition PTE_V_VALID :: u64 where [ppc]: "PTE_V_VALID = 0x0000000000000001"

definition PTE_V_COMPARE :: "u64 \<Rightarrow> u64 \<Rightarrow> bool" where
  "PTE_V_COMPARE x y \<longleftrightarrow> (x XOR y) AND PTE_V_AVPN = 0"

definition PTE_R_RPN_4K :: u64 where [ppc]: "PTE_R_RPN_4K = 0x0ffffffffffff000"
definition PTE_R_RPN_16M :: u64 where [ppc]: "PTE_R_RPN_16M = 0x0fffffffff000000"
definition PTE_R_M :: u64 where [ppc]: "PTE_R_M = 0x0000000000000010"
definition PTE_R_LP_SHIFT :: nat where [ppc]: "PTE_R_LP_SHIFT = 12"
definition PTE_R_LP_4K_4K :: u64 where [ppc]: "PTE_R_LP_4K_4K = 0"
definition PTE_R_LP_4K_16M :: u64 where [ppc]: "PTE_R_LP_4K_16M = 0x38"
definition PTE_R_LP_16M_16M :: u64 where [ppc]: "PTE_R_LP_16M_16M = 0"

definition PP_RWXX :: u64 where [ppc]: "PP_RWXX = 0"
definition PP_RWRW :: u64 where [ppc]: "PP_RWRW = 2"

section \<open>Hypervisor pointers and real addresses\<close>

definition ptr_2_ra :: "u64 \<Rightarrow> ra_t outcome" where
  "ptr_2_ra ea =
     bug_on (ea < HV_ASPACE) ''ea is not an HV address'' (Inr (ea AND NOT HV_ASPACE))"

definition ra_2_ptr :: "ra_t \<Rightarrow> u64 outcome" where
  "ra_2_ptr ra =
     bug_on (ra \<ge> HV_ASPACE) ''ra looks like an EA (HV address)'' (Inr (ra OR HV_ASPACE))"

lemma HV_ASPACE_mask: "HV_ASPACE = NOT (mask 63)" "NOT HV_ASPACE = mask 63" "HV_ASPACE = 2 ^ 63"
  by (simp_all add: HV_ASPACE_def mask_eq_exp_minus_1)

lemma below_HV_bits: "ra < HV_ASPACE \<longleftrightarrow> \<not> bit ra 63"
proof
  assume "ra < HV_ASPACE"
  then show "\<not> bit ra 63"
    using unat_ge_of_bit [of ra 63] by (auto simp: word_less_nat_alt HV_ASPACE_def)
next
  assume *: "\<not> bit ra 63"
  have "unat ra < 2 ^ 63"
  proof (rule unat_less_of_bits)
    fix i assume "63 \<le> i" "i < LENGTH(64)"
    then have "i = 63" by simp
    with * show "\<not> bit ra i" by simp
  qed
  then show "ra < HV_ASPACE"
    by (simp add: word_less_nat_alt HV_ASPACE_def)
qed

lemma HV_ASPACE_bit: "bit HV_ASPACE n \<longleftrightarrow> n = 63"
proof -
  have "HV_ASPACE = push_bit 63 1"
    by (simp add: HV_ASPACE_def)
  then show ?thesis
    using bit_push_bit_1 [of 63 n, where 'a = 64] by simp
qed

lemma ra_ptr_ra: "ra < HV_ASPACE \<Longrightarrow> (ra OR HV_ASPACE) AND NOT HV_ASPACE = ra"
  by (rule bit_word_eqI) (auto simp: below_HV_bits HV_ASPACE_bit bit_simps)

lemma ptr_ra_ptr: "HV_ASPACE \<le> ea \<Longrightarrow> (ea AND NOT HV_ASPACE) OR HV_ASPACE = ea"
  by (rule bit_word_eqI) (use below_HV_bits [of ea] in \<open>auto simp: HV_ASPACE_bit bit_simps not_less [symmetric]\<close>)

lemma or_HV_ge: "HV_ASPACE \<le> ra OR HV_ASPACE"
  using below_HV_bits [of "ra OR HV_ASPACE"] by (simp add: not_less [symmetric] bit_simps HV_ASPACE_bit)

lemma and_not_HV_less: "ea AND NOT HV_ASPACE < HV_ASPACE"
  by (simp add: below_HV_bits bit_simps HV_ASPACE_bit)

lemma ptr_2_ra_Inr [outcome_simps]: "ptr_2_ra ea = Inr ra \<longleftrightarrow> HV_ASPACE \<le> ea \<and> ra = ea AND NOT HV_ASPACE"
  by (auto simp: ptr_2_ra_def bug_on_def)

lemma ra_2_ptr_Inr [outcome_simps]: "ra_2_ptr ra = Inr p \<longleftrightarrow> ra < HV_ASPACE \<and> p = ra OR HV_ASPACE"
  by (auto simp: ra_2_ptr_def bug_on_def)

text \<open>\<^verbatim>\<open>ra_2_ptr\<close> and \<^verbatim>\<open>ptr_2_ra\<close> are inverse to each other: a real address survives the trip
  through an HV pointer and back, an HV pointer survives the trip through a real address and
  back, and both conversions stop the machine exactly on the other kind of address.\<close>

theorem ra_ptr_roundtrip:
  "bindE (ra_2_ptr ra) ptr_2_ra =
     (if ra < HV_ASPACE then Inr ra else Inl (Bug ''ra looks like an EA (HV address)'')) \<and>
   bindE (ptr_2_ra ea) ra_2_ptr =
     (if HV_ASPACE \<le> ea then Inr ea else Inl (Bug ''ea is not an HV address''))"
  using or_HV_ge [of ra] and_not_HV_less [of ea] ra_ptr_ra [of ra] ptr_ra_ptr [of ea]
  by (auto simp: ra_2_ptr_def ptr_2_ra_def bug_on_def not_le not_less)

end
