(* ===== verification/Mem.thy ===== *)
theory Mem
  imports Ranges Ppc_Defs
begin

text \<open>
  The page source of the allocator, \<^verbatim>\<open>mem.c\<close>: before \<^verbatim>\<open>mem_init\<close> pages come from the static
  array \<^verbatim>\<open>early_memory\<close>, afterwards they are carved out of \<^verbatim>\<open>mem_free_ranges\<close>. The state is the
  three static variables; the address the linker gives \<^verbatim>\<open>early_memory\<close> is a field that no
  operation changes.
\<close>

section \<open>Definitions\<close>

record mem_state =
  mem_free_ranges :: ranges_t
  mem_early :: bool
  early_memory :: u64
  sbrk :: u64

definition EARLY_MEMORY :: u64 where [ppc]: "EARLY_MEMORY = PAGE_SIZE * 64"

definition mem_boot :: "u64 \<Rightarrow> mem_state" where
  "mem_boot early = \<lparr>mem_free_ranges = range_init, mem_early = True, early_memory = early, sbrk = early\<rparr>"

definition mem_put_pages :: "u64 \<Rightarrow> u64 \<Rightarrow> mem_state \<Rightarrow> (int \<times> mem_state) outcome" where
  "mem_put_pages b len m = Inl (Bug ''not expected'')"

text \<open>The loop of \<^verbatim>\<open>mem_get_pages\<close>: the first range with enough room between aligned ends.\<close>

fun mem_find_range :: "u64 \<Rightarrow> ranges_t \<Rightarrow> ra_t option" where
  "mem_find_range len [] = None"
| "mem_find_range len (r # rs) =
     (let base_aligned = ALIGN_UP (r_base r) PAGE_SIZE;
          limit_aligned = ALIGN (r_limit r) PAGE_SIZE
      in if base_aligned < limit_aligned \<and> limit_aligned - base_aligned \<ge> len
         then Some base_aligned else mem_find_range len rs)"

text \<open>
  \<^verbatim>\<open>mem_get_pages\<close> returns a pointer; the last \<^verbatim>\<open>BUG_ON\<close> has the constant condition \<^verbatim>\<open>NULL\<close> and
  never fires, so running out of memory returns \<^verbatim>\<open>NULL\<close> (0).
\<close>

definition mem_get_pages :: "malloc_ok \<Rightarrow> u64 \<Rightarrow> mem_state \<Rightarrow> (u64 \<times> mem_state) outcome" where
  "mem_get_pages mm len m =
     bug_on (len = 0) ''length cannot be 0'' (
     bug_on (len mod PAGE_SIZE \<noteq> 0) ''length must be multiple of PAGE_SIZE'' (
     if mem_early m then
       let sbrk' = ALIGN_UP (sbrk m) PAGE_SIZE + len in
       bug_on (sbrk' - early_memory m > EARLY_MEMORY) ''too much early memory used''
         (Inr (sbrk' - len, m\<lparr>sbrk := sbrk'\<rparr>))
     else
       case mem_find_range len (mem_free_ranges m) of
         Some base_aligned \<Rightarrow>
           bindE (range_remove mm (mem_free_ranges m) base_aligned (base_aligned + len - 1)) (\<lambda>rs.
           bindE (ra_2_ptr base_aligned) (\<lambda>p.
           Inr (p, m\<lparr>mem_free_ranges := rs\<rparr>)))
       | None \<Rightarrow> bug_on False ''no more free memory'' (Inr (0, m))))"

section \<open>Lemmas\<close>

definition page_aligned :: "u64 \<Rightarrow> bool" where
  "page_aligned x \<longleftrightarrow> 2 ^ 12 dvd unat x"

lemma PAGE_SIZE_pow2: "PAGE_SIZE = 2 ^ 12" "unat PAGE_SIZE = 2 ^ 12"
  by (simp_all add: PAGE_SIZE_def)

lemma unat_EARLY_MEMORY: "unat EARLY_MEMORY = 2 ^ 18"
  by (simp add: ppc)

lemma mem_find_range_Some:
  assumes "mem_find_range len rs = Some a" "ranges_wf rs" "len \<noteq> 0"
    "\<forall>r \<in> set rs. r_limit r < HV_ASPACE"
  shows "page_aligned a \<and> {a .. a + len - 1} \<subseteq> cover rs \<and> a \<le> a + len - 1"
  using assms
proof (induction rs)
  case Nil
  then show ?case by simp
next
  case (Cons r rs)
  let ?b = "ALIGN_UP (r_base r) PAGE_SIZE" and ?l = "ALIGN (r_limit r) PAGE_SIZE"
  show ?case
  proof (cases "?b < ?l \<and> ?l - ?b \<ge> len")
    case True
    with Cons.prems(1) have a: "a = ?b"
      by (simp add: Let_def)
    have nw: "unat (r_base r) + (2 ^ 12 - 1) < 2 ^ LENGTH(64)"
      using Cons.prems(2,4) by (auto simp: ranges_wf_Cons HV_ASPACE_def word_le_nat_alt word_less_nat_alt)
    note up = ALIGN_UP_pow2_props [of 12 "r_base r", OF _ nw, folded PAGE_SIZE_pow2(1)]
    have le: "?l \<le> r_limit r"
      using ALIGN_le [of "r_limit r" 12] by (simp add: PAGE_SIZE_pow2)
    have "unat len \<le> unat ?l - unat ?b" "unat ?b < unat ?l" "0 < unat len"
      using True Cons.prems(3) by (auto simp: word_nat unat_gt_0)
    moreover have "unat ?l < 2 ^ 64"
      using unat_less_exp [of ?l] by simp
    ultimately have "unat (a + len - 1) = unat a + unat len - 1"
      using a Cons.prems(3) by (intro unat_interval_end) simp_all
    with a le up True \<open>unat len \<le> unat ?l - unat ?b\<close> \<open>0 < unat len\<close>
    have "a + len - 1 \<le> r_limit r" "r_base r \<le> a" "page_aligned a" "a \<le> a + len - 1"
      by (auto simp: word_le_nat_alt page_aligned_def word_less_nat_alt)
    then show ?thesis
      by auto
  next
    case False
    with Cons show ?thesis
      by (auto simp: ranges_wf_Cons Let_def split: if_splits)
  qed
qed

text \<open>The allocator's invariant: a well-formed free list of real addresses, an early break
  inside the early array.\<close>

definition mem_inv :: "mem_state \<Rightarrow> bool" where
  "mem_inv m \<longleftrightarrow> ranges_wf (mem_free_ranges m) \<and> cover (mem_free_ranges m) \<subseteq> {..<HV_ASPACE} \<and>
     early_memory m \<le> sbrk m \<and> unat (early_memory m) + 2 ^ 20 < 2 ^ 64 \<and>
     unat (sbrk m) \<le> unat (early_memory m) + unat EARLY_MEMORY"

lemma mem_inv_below: "mem_inv m \<Longrightarrow> r \<in> set (mem_free_ranges m) \<Longrightarrow> r_limit r < HV_ASPACE"
  by (fastforce simp: mem_inv_def cover_def ranges_wf_def)

lemma mem_get_pages_late:
  assumes "mem_inv m" "\<not> mem_early m" "mem_get_pages mm len m = Inr (p, m')" "p \<noteq> 0"
  obtains ra where "p = ra OR HV_ASPACE" "ra < HV_ASPACE" "page_aligned ra" "ra \<le> ra + len - 1"
    "{ra..ra + len - 1} \<subseteq> cover (mem_free_ranges m)" "len \<noteq> 0"
    "range_remove mm (mem_free_ranges m) ra (ra + len - 1) = Inr (mem_free_ranges m')"
    "m' = m\<lparr>mem_free_ranges := mem_free_ranges m'\<rparr>"
proof -
  from assms have "len \<noteq> 0"
    by (simp add: mem_get_pages_def outcome_simps)
  moreover from assms obtain ra where ra: "mem_find_range len (mem_free_ranges m) = Some ra"
    "range_remove mm (mem_free_ranges m) ra (ra + len - 1) = Inr (mem_free_ranges m')"
    "p = ra OR HV_ASPACE" "ra < HV_ASPACE" "m' = m\<lparr>mem_free_ranges := mem_free_ranges m'\<rparr>"
    by (auto simp: mem_get_pages_def outcome_simps split: option.splits)
  moreover from assms(1) mem_inv_below [OF assms(1)] \<open>len \<noteq> 0\<close>
  have "page_aligned ra \<and> {ra..ra + len - 1} \<subseteq> cover (mem_free_ranges m) \<and> ra \<le> ra + len - 1"
    by (intro mem_find_range_Some [OF ra(1)]) (auto simp: mem_inv_def)
  ultimately show ?thesis
    using that by blast
qed

lemma mem_get_pages_inv:
  assumes "mem_inv m" "\<not> mem_early m" "mem_get_pages mm len m = Inr (p, m')"
  shows "mem_inv m' \<and> \<not> mem_early m'"
proof (cases "p = 0")
  case True
  with assms(2,3) have "m' = m"
    by (auto simp: mem_get_pages_def outcome_simps or_eq_0_iff HV_ASPACE_def split: option.splits)
  with assms show ?thesis by simp
next
  case False
  from mem_get_pages_late [OF assms(1,2,3) False] obtain ra where
    rm: "range_remove mm (mem_free_ranges m) ra (ra + len - 1) = Inr (mem_free_ranges m')"
    and m': "m' = m\<lparr>mem_free_ranges := mem_free_ranges m'\<rparr>"
    by metis
  have wf: "ranges_wf (mem_free_ranges m)"
    using assms(1) by (simp add: mem_inv_def)
  have "ranges_wf (mem_free_ranges m')" "cover (mem_free_ranges m') \<subseteq> cover (mem_free_ranges m)"
    using range_list.remove_inv [OF wf rm] range_list.remove_shrinks [OF wf rm] by auto
  moreover have "early_memory m' = early_memory m" "sbrk m' = sbrk m" "mem_early m' = mem_early m"
    by (subst m', simp)+
  ultimately show ?thesis
    using assms(1,2) by (auto simp: mem_inv_def)
qed

lemma mem_get_pages_early_cases:
  assumes "mem_inv m" "mem_early m" "mem_get_pages mm len m = Inr (p, m')" "unat len < 2 ^ 63"
  shows "p = ALIGN_UP (sbrk m) PAGE_SIZE \<and> m' = m\<lparr>sbrk := p + len\<rparr> \<and>
    unat (p + len) = unat p + unat len \<and> page_aligned p \<and> sbrk m \<le> p \<and>
    unat (p + len) \<le> unat (early_memory m) + unat EARLY_MEMORY"
proof -
  let ?a = "ALIGN_UP (sbrk m) PAGE_SIZE" and ?e = "early_memory m"
  have p: "p = ?a" "m' = m\<lparr>sbrk := p + len\<rparr>" "?a + len - ?e \<le> EARLY_MEMORY"
    using assms(2,3) by (auto simp: mem_get_pages_def outcome_simps Let_def not_less)
  have b: "unat ?e + 2 ^ 20 < 2 ^ 64" "unat (sbrk m) \<le> unat ?e + 2 ^ 18" "unat ?e \<le> unat (sbrk m)"
    using assms(1) by (auto simp: mem_inv_def ppc word_le_nat_alt)
  then have nw: "unat (sbrk m) + (2 ^ 12 - 1) < 2 ^ LENGTH(64)"
    by simp
  note up = ALIGN_UP_pow2_props [of 12 "sbrk m", OF _ nw, folded PAGE_SIZE_pow2(1)]
  have ge: "unat ?e \<le> unat ?a" "unat ?a < unat ?e + 2 ^ 18 + 2 ^ 12"
    using up b by (auto simp: word_le_nat_alt)
  have "unat (?a - ?e + len) = unat (?a - ?e) + unat len"
    using ge assms(4) by (intro unat_add_no_wrap) (simp add: unat_sub word_le_nat_alt)
  then have "unat ?a - unat ?e + unat len \<le> 2 ^ 18"
    using p(3) ge(1) unfolding word_le_nat_alt unat_EARLY_MEMORY by (simp add: unat_sub word_le_nat_alt algebra_simps)
  moreover from this have "unat (?a + len) = unat ?a + unat len"
    using b ge by (intro unat_add_no_wrap) simp
  ultimately show ?thesis
    using p up ge by (simp add: page_aligned_def unat_EARLY_MEMORY)
qed

section \<open>Properties\<close>

text \<open>C28: once \<^verbatim>\<open>mem_init\<close> is done, a non-NULL result of \<^verbatim>\<open>mem_get_pages\<close> is the HV address of a
  page-aligned block of real memory of the requested length that was entirely free, the free
  set loses exactly that block, and the allocator's invariant holds again.\<close>

theorem mem_get_pages_correct:
  assumes "mem_inv m" "\<not> mem_early m" "mem_get_pages mm len m = Inr (p, m')" "p \<noteq> 0"
  shows "\<exists>ra. ptr_2_ra p = Inr ra \<and> page_aligned ra \<and> ra \<le> ra + len - 1 \<and>
    {ra..ra + len - 1} \<subseteq> cover (mem_free_ranges m) \<and>
    cover (mem_free_ranges m') = cover (mem_free_ranges m) - {ra..ra + len - 1} \<and> mem_inv m'"
proof -
  have wf: "ranges_wf (mem_free_ranges m)"
    using assms(1) by (simp add: mem_inv_def)
  from mem_get_pages_late [OF assms] obtain ra where
    ra: "p = ra OR HV_ASPACE" "ra < HV_ASPACE" "page_aligned ra" "ra \<le> ra + len - 1"
    "{ra..ra + len - 1} \<subseteq> cover (mem_free_ranges m)"
    and rm: "range_remove mm (mem_free_ranges m) ra (ra + len - 1) = Inr (mem_free_ranges m')"
    by metis
  from ra(1,2) have "ptr_2_ra p = Inr ra"
    by (simp add: ptr_2_ra_Inr or_HV_ge ra_ptr_ra)
  with ra rm mem_get_pages_inv [OF assms(1-3)] range_list.remove_region [OF wf rm] show ?thesis
    by auto
qed

definition mem_example :: mem_state where
  "mem_example = \<lparr>mem_free_ranges = [\<lparr>r_base = 0x800, r_limit = 0x7fff\<rparr>], mem_early = False,
     early_memory = 0x8000000020040000, sbrk = 0x8000000020041000\<rparr>"

lemma mem_example_inv: "mem_inv mem_example"
  by (simp add: mem_example_def mem_inv_def ranges_wf_def ppc word_le_nat_alt word_less_nat_alt
      subset_iff)

theorem mem_get_pages_correct_witness:
  "\<exists>m'. mem_get_pages (\<lambda>_ _. True) 0x2000 mem_example = Inr (0x8000000000001000, m') \<and>
     cover (mem_free_ranges m') = cover (mem_free_ranges mem_example) - {0x1000..0x2fff}"
proof -
  have r: "mem_get_pages (\<lambda>_ _. True) 0x2000 mem_example = Inr (0x8000000000001000,
      mem_example\<lparr>mem_free_ranges := [\<lparr>r_base = 0x800, r_limit = 0xfff\<rparr>, \<lparr>r_base = 0x3000, r_limit = 0x7fff\<rparr>]\<rparr>)"
    by (simp add: mem_get_pages_def mem_example_def ppc ALIGN_UP_def IS_ALIGNED_def ALIGN_UP_MASK_def
        ALIGN_def ALIGN_MASK_def Let_def range_remove_def range_add_def range_alloc_def ra_2_ptr_def)
  have "\<not> mem_early mem_example"
    by (simp add: mem_example_def)
  from mem_get_pages_correct [OF mem_example_inv this r] r show ?thesis
    by (auto simp: ptr_2_ra_Inr ppc)
qed

text \<open>two blocks handed out by successive calls of \<^verbatim>\<open>mem_get_pages\<close> never share a byte.\<close>

theorem mem_get_pages_disjoint:
  assumes "mem_inv m" "\<not> mem_early m"
    "mem_get_pages mm len m = Inr (p, m1)" "p \<noteq> 0" "mem_get_pages mm len' m1 = Inr (p', m2)" "p' \<noteq> 0"
  shows "{p AND NOT HV_ASPACE .. (p AND NOT HV_ASPACE) + len - 1} \<inter>
    {p' AND NOT HV_ASPACE .. (p' AND NOT HV_ASPACE) + len' - 1} = {}"
proof -
  have wf: "ranges_wf (mem_free_ranges m)"
    using assms(1) by (simp add: mem_inv_def)
  have inv1: "mem_inv m1" "\<not> mem_early m1"
    using mem_get_pages_inv [OF assms(1-3)] by auto
  from mem_get_pages_late [OF assms(1-4)] obtain ra where
    ra: "p = ra OR HV_ASPACE" "ra < HV_ASPACE"
    "range_remove mm (mem_free_ranges m) ra (ra + len - 1) = Inr (mem_free_ranges m1)"
    by metis
  from mem_get_pages_late [OF inv1 assms(5,6)] obtain ra' where
    ra': "p' = ra' OR HV_ASPACE" "ra' < HV_ASPACE"
    "{ra'..ra' + len' - 1} \<subseteq> cover (mem_free_ranges m1)"
    by metis
  from range_list.successive_disjoint [OF wf ra(3) ra'(3)] ra ra' show ?thesis
    by (simp add: ra_ptr_ra)
qed

theorem mem_get_pages_disjoint_witness:
  "{0x1000 .. 0x2fff} \<inter> {0x3000 .. 0x3fff :: u64} = {}"
proof -
  let ?m1 = "mem_example\<lparr>mem_free_ranges := [\<lparr>r_base = 0x800, r_limit = 0xfff\<rparr>, \<lparr>r_base = 0x3000, r_limit = 0x7fff\<rparr>]\<rparr>"
  let ?m2 = "mem_example\<lparr>mem_free_ranges := [\<lparr>r_base = 0x800, r_limit = 0xfff\<rparr>, \<lparr>r_base = 0x4000, r_limit = 0x7fff\<rparr>]\<rparr>"
  have r: "mem_get_pages (\<lambda>_ _. True) 0x2000 mem_example = Inr (0x8000000000001000, ?m1)"
    "mem_get_pages (\<lambda>_ _. True) 0x1000 ?m1 = Inr (0x8000000000003000, ?m2)"
    by (simp_all add: mem_get_pages_def mem_example_def ppc ALIGN_UP_def IS_ALIGNED_def ALIGN_UP_MASK_def
        ALIGN_def ALIGN_MASK_def Let_def range_remove_def range_add_def range_alloc_def ra_2_ptr_def)
  have "\<not> mem_early mem_example"
    by (simp add: mem_example_def)
  from mem_get_pages_disjoint [OF mem_example_inv this r(1) _ r(2)] show ?thesis
    by (simp add: ppc)
qed

text \<open>before \<^verbatim>\<open>mem_init\<close>, \<^verbatim>\<open>mem_get_pages\<close> bumps the break inside the static array: the block
  starts page-aligned at or above the old break, ends at the new one, stays inside
  \<^verbatim>\<open>early_memory\<close>, and the invariant is kept.\<close>

theorem mem_get_pages_early:
  assumes "mem_inv m" "mem_early m" "mem_get_pages mm len m = Inr (p, m')" "unat len < 2 ^ 63"
  shows "page_aligned p \<and> sbrk m \<le> p \<and> unat (sbrk m') = unat p + unat len \<and>
    unat (sbrk m') \<le> unat (early_memory m) + unat EARLY_MEMORY \<and> mem_inv m'"
proof -
  from mem_get_pages_early_cases [OF assms] have
    c: "m' = m\<lparr>sbrk := p + len\<rparr>" "unat (p + len) = unat p + unat len" "page_aligned p" "sbrk m \<le> p"
    "unat (p + len) \<le> unat (early_memory m) + unat EARLY_MEMORY"
    by blast+
  have "mem_inv m'"
    using assms(1) c by (auto simp: mem_inv_def word_le_nat_alt)
  with c show ?thesis
    by simp
qed

theorem mem_get_pages_early_witness:
  "\<exists>m'. mem_get_pages (\<lambda>_ _. True) 0x3000 (mem_boot 0x8000000020040000) =
     Inr (0x8000000020040000, m') \<and> mem_inv m'"
proof -
  let ?m = "mem_boot 0x8000000020040000"
  have i: "mem_inv ?m" "mem_early ?m"
    by (simp_all add: mem_boot_def mem_inv_def range_init_def)
  have r: "mem_get_pages (\<lambda>_ _. True) 0x3000 ?m = Inr (0x8000000020040000, ?m\<lparr>sbrk := 0x8000000020043000\<rparr>)"
    by (simp add: mem_get_pages_def mem_boot_def ppc ALIGN_UP_def IS_ALIGNED_def Let_def)
  from mem_get_pages_early [OF i r] r show ?thesis
    by auto
qed

text \<open>running out of pages is not caught: the guard of the final \<^verbatim>\<open>BUG_ON\<close> is the constant
  \<^verbatim>\<open>NULL\<close>, so \<^verbatim>\<open>mem_get_pages\<close> returns NULL and changes nothing when no range has room, and this
  happens even when a whole page is free, because the inclusive limit is rounded down.\<close>

theorem mem_get_pages_exhausted:
  assumes "mem_find_range len (mem_free_ranges m) = None" "\<not> mem_early m" "len \<noteq> 0" "len mod PAGE_SIZE = 0"
  shows "mem_get_pages mm len m = Inr (0, m)"
  using assms by (simp add: mem_get_pages_def)

theorem mem_get_pages_exhausted_witness:
  "mem_get_pages (\<lambda>_ _. True) PAGE_SIZE (mem_example\<lparr>mem_free_ranges := [\<lparr>r_base = 0x1000, r_limit = 0x1fff\<rparr>]\<rparr>) =
     Inr (0, mem_example\<lparr>mem_free_ranges := [\<lparr>r_base = 0x1000, r_limit = 0x1fff\<rparr>]\<rparr>)"
  by (rule mem_get_pages_exhausted)
    (simp_all add: mem_example_def ppc ALIGN_UP_def IS_ALIGNED_def ALIGN_def ALIGN_MASK_def)

end
