(* ===== verification/Fdt_Search.thy ===== *)
theory Fdt_Search
  imports Fdt_Tree
begin

text \<open>
  The searches of \<^verbatim>\<open>fdt_ro.c\<close> over all nodes of a blob that holds a tree: they visit the nodes in
  preorder and return the first that passes their test. String-list properties are those that
  consist of NUL-terminated strings.
\<close>

section \<open>String lists\<close>

definition strs :: "u8 list list \<Rightarrow> u8 list" where
  "strs ss = concat (map (\<lambda>s. s @ [0]) ss)"

lemma strs_Cons [simp]: "strs (s # ss) = s @ 0 # strs ss" "strs [] = []"
  by (simp_all add: strs_def)

lemma memchr_loop_bytes:
  "bytes m p (length s + 1) = s @ [c] \<Longrightarrow> c \<notin> set s \<Longrightarrow> length s < n \<Longrightarrow>
   memchr_loop n m p c = p + of_nat (length s)"
proof (induction n arbitrary: p s)
  case (Suc n)
  then show ?case by (cases s) (auto simp: add.assoc)
qed simp

lemma bytes_take: "n \<le> k \<Longrightarrow> bytes m p n = take n (bytes m p k)"
  by (auto simp: bytes_def take_map)

lemma bytes_prefix: "bytes m p (length d) = d \<Longrightarrow> n \<le> length d \<Longrightarrow> bytes m p n = take n d"
  by (metis bytes_take)

lemma first_zero:
  assumes "0 \<notin> set s" "0 \<notin> set t" "take (length t + 1) (s @ 0 # r) = t @ [0]"
  shows "s = t"
  using assms
proof (induction s arbitrary: t)
  case Nil
  then show ?case by (cases t) auto
next
  case (Cons x s)
  then show ?case by (cases t) auto
qed

text \<open>Comparing at the head of a list compares with its first string; where the list goes on behind it.\<close>

lemma strs_head_eq:
  assumes "bytes m p (length (strs (s # ss))) = strs (s # ss)" "0 \<notin> set s" "0 \<notin> set str" "length str \<le> length (strs (s # ss))"
  shows "bytes m p (length str + 1) = str @ [0] \<longleftrightarrow> str = s"
proof
  let ?d = "strs (s # ss)" and ?n = "length str"
  assume b: "bytes m p (?n + 1) = str @ [0]"
  show "str = s"
  proof (cases "?n + 1 \<le> length ?d")
    case True
    then have "take (?n + 1) ?d = str @ [0]" using b bytes_take[OF True, of m p] assms(1) by metis
    then show ?thesis using first_zero[of s str "strs ss"] assms(2,3) by simp
  next
    case False
    then have "?n = length ?d" using assms(4) by simp
    then have "str = ?d" using b bytes_take[of ?n "?n + 1" m p] assms(1) by simp
    then show ?thesis using assms(3) by simp
  qed
next
  assume "str = s"
  then have "take (length str + 1) (strs (s # ss)) = str @ [0]" "length str + 1 \<le> length (strs (s # ss))" by simp_all
  then show "bytes m p (length str + 1) = str @ [0]" using bytes_prefix[OF assms(1)] by metis
qed

lemma strs_tail:
  assumes "bytes m p (length (strs (s # ss))) = strs (s # ss)" "0 \<notin> set s" "length (strs (s # ss)) < 2 ^ 31"
    "p \<noteq> 0" "unat p + length (strs (s # ss)) < 2 ^ 64"
  shows "memchr m p 0 (scast (of_nat (length (strs (s # ss))) :: u32)) = p + of_nat (length s)"
    "bytes m (p + of_nat (length s + 1)) (length (strs ss)) = strs ss"
    "p + of_nat (length s) \<noteq> 0" "p + of_nat (length s + 1) \<noteq> 0"
    "unat (p + of_nat (length s + 1)) = unat p + (length s + 1)"
proof -
  let ?d = "strs (s # ss)" and ?k = "length s"
  have "take (?k + 1) ?d = s @ [0]" "?k + 1 \<le> length ?d" by simp_all
  then have pre: "bytes m p (?k + 1) = s @ [0]" using bytes_prefix[OF assms(1)] by metis
  have uk: "unat (scast (of_nat (length ?d) :: u32) :: u64) = length ?d"
    unfolding scast_small[OF assms(3)] by (rule unat_of_nat_less, rule less_trans[OF assms(3)]) simp
  show "memchr m p 0 (scast (of_nat (length ?d) :: u32)) = p + of_nat ?k"
    using memchr_loop_bytes[OF pre assms(2), of "length ?d"] uk by (simp add: memchr_def)
  have "bytes m p (length ?d) = bytes m p (?k + 1) @ bytes m (p + of_nat (?k + 1)) (length (strs ss))"
    using bytes_append[of m p "?k + 1" "length (strs ss)"] by simp
  then have "(s @ [0]) @ bytes m (p + of_nat (?k + 1)) (length (strs ss)) = ?d" using assms(1) pre by metis
  then show "bytes m (p + of_nat (?k + 1)) (length (strs ss)) = strs ss" by simp
  have up: "unat (p + of_nat ?k) = unat p + ?k" "unat (p + of_nat (?k + 1)) = unat p + (?k + 1)"
    using assms(3,5) unat_add_no_wrap[of p "of_nat ?k"] unat_add_no_wrap[of p "of_nat (?k + 1)"]
      unat_of_nat_less[of ?k] unat_of_nat_less[of "?k + 1"] by simp_all
  show "p + of_nat ?k \<noteq> 0" "p + of_nat (?k + 1) \<noteq> 0" using up assms(4) by (metis add_is_0 unat_0 unat_eq_zero)+
  show "unat (p + of_nat (?k + 1)) = unat p + (?k + 1)" by (rule up(2))
qed

lemma stringlist_holds:
  assumes "bytes m p (length (strs ss)) = strs ss" "\<forall>s \<in> set ss. 0 \<notin> set s" "0 \<notin> set str" "str \<noteq> []"
    "length (strs ss) < 2 ^ 31" "length str < 2 ^ 31" "p \<noteq> 0" "unat p + length (strs ss) < 2 ^ 64"
  shows "fdt_stringlist_contains m p (of_nat (length (strs ss))) str = Some (str \<in> set ss)"
  using assms
proof (induction ss arbitrary: p)
  case Nil
  then show ?case
    using sle32_small[of "length str" 0] by (subst fdt_stringlist_contains.simps) simp
next
  case (Cons s ss)
  let ?d = "strs (s # ss)" and ?n = "length str" and ?k = "length s"
  have z: "0 \<notin> set s" using Cons.prems(2) by simp
  note nx = strs_tail[OF Cons.prems(1) z Cons.prems(5,7,8)]
  have le: "sle32 (of_nat ?n) (of_nat (length ?d)) \<longleftrightarrow> ?n \<le> length ?d" using sle32_small Cons.prems(5,6) by blast
  have "ucast (of_nat ?k :: u64) = (of_nat ?k :: u32)"
    using Cons.prems(5) by (simp add: word_unat_eq_iff unsigned_ucast_eq unat_of_nat_less unat32_small take_bit_nat_eq_self)
  then have l: "of_nat (length ?d) - (ucast (p + of_nat ?k - p) + 1) = (of_nat (length (strs ss)) :: u32)" by simp
  have rest: "fdt_stringlist_contains m (p + of_nat (?k + 1)) (of_nat (length (strs ss))) str = Some (str \<in> set ss)"
    by (rule Cons.IH[OF nx(2)]) (use Cons.prems nx(4,5) in auto)
  show ?case
  proof (cases "?n \<le> length ?d")
    case False
    have "?n \<le> length ?d" if "str \<in> set (s # ss)" using that by (induction ss) (auto simp: strs_def)
    then show ?thesis using le False by (subst fdt_stringlist_contains.simps) auto
  next
    case True
    note cmp = strs_head_eq[OF Cons.prems(1) z Cons.prems(3) True]
    show ?thesis
    proof (cases "str = s")
      case True
      then show ?thesis using cmp le \<open>?n \<le> length ?d\<close> by (subst fdt_stringlist_contains.simps) simp
    next
      case False
      have "fdt_stringlist_contains m p (of_nat (length ?d)) str =
          fdt_stringlist_contains m (p + of_nat ?k + 1) (of_nat (length (strs ss))) str"
        using cmp le True False nx(1,3) l
        by (subst fdt_stringlist_contains.simps) (simp only: if_True if_False Let_def not_False_eq_True)
      then show ?thesis using rest False by (simp add: add.assoc add.commute[of 1])
    qed
  qed
qed

section \<open>Nodes in preorder\<close>

fun dt_nodes :: "nat \<Rightarrow> dt \<Rightarrow> (nat \<times> dt) list" and dts_nodes :: "nat \<Rightarrow> dt list \<Rightarrow> (nat \<times> dt) list" where
  "dt_nodes off (Dt s ps cs) = (off, Dt s ps cs) # dts_nodes (kids_off off (Dt s ps cs)) cs"
| "dts_nodes off [] = []"
| "dts_nodes off (c # cs) = dt_nodes off c @ dts_nodes (off + toks_size (dt_toks c)) cs"

fun begins :: "nat \<Rightarrow> tok list \<Rightarrow> nat list" where
  "begins off [] = []"
| "begins off (TBegin s # ts) = off # begins (off + tok_size (TBegin s)) ts"
| "begins off (TFin # ts) = []"
| "begins off (t # ts) = begins (off + tok_size t) ts"

lemma begins_props: "begins off (prop_toks ps @ rest) = begins (off + toks_size (prop_toks ps)) rest"
  by (induction ps arbitrary: off) (auto simp: prop_toks_def add.assoc)

lemma begins_dt:
  "begins off (dt_toks t @ rest) = map fst (dt_nodes off t) @ begins (off + toks_size (dt_toks t)) rest"
  "begins off (concat (map dt_toks cs) @ rest) =
     map fst (dts_nodes off cs) @ begins (off + toks_size (concat (map dt_toks cs))) rest"
  by (induction off t and off cs arbitrary: rest and rest rule: dt_nodes_dts_nodes.induct)
    (simp_all add: begins_props add.assoc)

lemma dts_nodes_append:
  "dts_nodes off (as @ bs) = dts_nodes off as @ dts_nodes (off + toks_size (concat (map dt_toks as))) bs"
  by (induction as arbitrary: off) (simp_all add: add.assoc)

lemma dt_nodes_at:
  "node_at t off n \<Longrightarrow> (o', n') \<in> set (dt_nodes off n) \<Longrightarrow> node_at t o' n'"
proof (induction n arbitrary: off o' n')
  case (Dt s ps cs)
  have "node_at t o' n'" if k: "(o', n') \<in> set (dts_nodes (kids_off off (Dt s ps cs)) cs)"
  proof -
    have "\<exists>as c bs. cs = as @ c # bs \<and> (o', n') \<in> set (dt_nodes (b + toks_size (concat (map dt_toks as))) c)"
      if "(o', n') \<in> set (dts_nodes b cs)" for b cs
      using that
    proof (induction cs arbitrary: b)
      case (Cons k ks)
      show ?case
      proof (cases "(o', n') \<in> set (dt_nodes b k)")
        case True
        then show ?thesis by (intro exI[of _ "[]"] exI[of _ k] exI[of _ ks]) simp
      next
        case False
        then obtain as c bs where "ks = as @ c # bs"
          "(o', n') \<in> set (dt_nodes (b + toks_size (dt_toks k) + toks_size (concat (map dt_toks as))) c)"
          using Cons.IH[of "b + toks_size (dt_toks k)"] Cons.prems by auto
        then show ?thesis by (intro exI[of _ "k # as"] exI[of _ c] exI[of _ bs]) (simp add: add.assoc)
      qed
    qed simp
    from this[OF k] obtain as c bs where e: "cs = as @ c # bs"
      "(o', n') \<in> set (dt_nodes (kids_off off (Dt s ps cs) + toks_size (concat (map dt_toks as))) c)" by blast
    have "node_at t (kids_off off (Dt s ps cs) + toks_size (concat (map dt_toks as))) c"
      using node_at.kid[OF Dt.prems(1)] e(1) by simp
    from Dt.IH[OF _ this e(2)] show ?thesis using e(1) by simp
  qed
  then show ?case using Dt.prems by auto
qed

section \<open>The node iterator without a depth\<close>

lemma next_node_loop_none:
  assumes "fdt_holds m fdt (xs @ ts)" "TFin \<in> set ts"
  shows "fdt_next_node_loop m fdt (of_nat (toks_size xs)) None =
    Some (case begins (toks_size xs) ts of [] \<Rightarrow> - FDT_ERR_NOTFOUND | b # _ \<Rightarrow> of_nat b, None)"
  using assms
proof (induction ts arbitrary: xs)
  case (Cons t ts)
  have h: "fdt_holds m fdt (xs @ t # ts)" by fact
  have small: "\<not> neg32 (of_nat (toks_size xs + tok_size t))"
    using h by (intro neg32_small) (simp add: fdt_holds_def)
  have IH: "fdt_next_node_loop m fdt (of_nat (toks_size xs + tok_size t)) None =
      Some (case begins (toks_size xs + tok_size t) ts of [] \<Rightarrow> - FDT_ERR_NOTFOUND | b # _ \<Rightarrow> of_nat b, None)"
    if "t \<noteq> TFin"
    using Cons.IH[of "xs @ [t]"] Cons.prems that by simp
  show ?case
    unfolding fdt_next_node_loop.simps[of m fdt "of_nat (toks_size xs)"] next_tag_holds[OF h]
    using IH small by (cases t) simp_all
qed simp

text \<open>A search from a position: the first node behind it that passes.\<close>

lemma by_check_holds:
  assumes "fdt_holds m fdt (xs @ ts)" "TFin \<in> set ts"
    "\<forall>b \<in> set (begins (toks_size xs) ts). check (of_nat b) = Some (if P b then 0 else e b) \<and> e b \<in> {1, - FDT_ERR_NOTFOUND}"
  shows "Option.bind (fdt_next_node_loop m fdt (of_nat (toks_size xs)) None)
      (\<lambda>(offset, _). fdt_by_check_loop m fdt check offset) =
    Some (found (find P (begins (toks_size xs) ts)))"
  using assms
proof (induction ts arbitrary: xs)
  case (Cons t ts)
  have h: "fdt_holds m fdt (xs @ t # ts)" by fact
  have small: "\<not> neg32 (of_nat (toks_size xs + tok_size t))" "\<not> neg32 (of_nat (toks_size xs))"
    using h by (auto intro!: neg32_small simp: fdt_holds_def simp del: of_nat_add)
  have IH: "Option.bind (fdt_next_node_loop m fdt (of_nat (toks_size xs + tok_size t)) None)
      (\<lambda>(offset, _). fdt_by_check_loop m fdt check offset) = Some (found (find P (begins (toks_size xs + tok_size t) ts)))"
    if "t \<noteq> TFin"
  proof -
    have "\<forall>b \<in> set (begins (toks_size (xs @ [t])) ts). check (of_nat b) = Some (if P b then 0 else e b) \<and> e b \<in> {1, - FDT_ERR_NOTFOUND}"
      using Cons.prems(3) that by (cases t) auto
    then show ?thesis using Cons.IH[of "xs @ [t]"] Cons.prems that by simp
  qed
  note tag = next_tag_holds[OF h]
  note loop = fdt_next_node_loop.simps[of m fdt "of_nat (toks_size xs)", unfolded tag]
  show ?case
  proof (cases t)
    case (TBegin s)
    let ?o = "toks_size xs"
    have c: "check (of_nat ?o) = Some (if P ?o then 0 else e ?o)" "e ?o \<in> {1, - FDT_ERR_NOTFOUND}"
      using Cons.prems(3) TBegin by auto
    have nz: "e ?o \<noteq> 0" using c(2) by (auto simp: FDT_ERR_NOTFOUND_def)
    have ne: "\<not> (neg32 (e ?o) \<and> e ?o \<noteq> - FDT_ERR_NOTFOUND)" using c(2) by (auto simp: neg32_def word_le_nat_alt)
    have z: "\<not> neg32 0" by (simp add: neg32_def)
    have nn: "fdt_next_node m fdt (of_nat ?o) None = fdt_next_node_loop m fdt (of_nat (?o + tok_size t)) None"
      using check_node_holds[of m fdt xs s ts] h TBegin small by (simp add: fdt_next_node_def)
    have "fdt_by_check_loop m fdt check (of_nat ?o) = Some (found (find P (?o # begins (?o + tok_size t) ts)))"
      unfolding fdt_by_check_loop.simps[of m fdt check "of_nat ?o"] c(1) nn
      using small IH TBegin ne nz z by (cases "P ?o") (auto simp: found_def)
    then show ?thesis unfolding loop using TBegin by simp
  next
    case TFin
    then show ?thesis
      unfolding loop using small by (simp add: fdt_by_check_loop.simps neg32_err found_def)
  qed (use IH small loop in simp_all)
qed simp

section \<open>Testing a string-list property\<close>

fun strs_from :: "u8 list \<Rightarrow> u8 list \<Rightarrow> u8 list list" where
  "strs_from acc [] = []"
| "strs_from acc (c # cs) = (if c = 0 then acc # strs_from [] cs else strs_from (acc @ [c]) cs)"

lemma strs_strs_from: "d \<noteq> [] \<Longrightarrow> last d = 0 \<Longrightarrow> strs (strs_from acc d) = acc @ d"
proof (induction acc d rule: strs_from.induct)
  case (2 acc c cs)
  then show ?case by (cases "cs = []") auto
qed simp

lemma strs_from_no_0: "0 \<notin> set acc \<Longrightarrow> s \<in> set (strs_from acc d) \<Longrightarrow> 0 \<notin> set s"
  by (induction acc d rule: strs_from.induct) (auto split: if_splits)

text \<open>The strings of a node's property, and what is asked of the properties of a tree.\<close>

definition dt_strs :: "(u32 \<Rightarrow> u8 list) \<Rightarrow> u8 list \<Rightarrow> dt \<Rightarrow> u8 list list" where
  "dt_strs pn pname n = (case prop_val pn pname (dt_props n) of None \<Rightarrow> [] | Some d \<Rightarrow> strs_from [] d)"

definition strs_ok :: "mem \<Rightarrow> u64 \<Rightarrow> (u32 \<Rightarrow> u8 list) \<Rightarrow> u8 list \<Rightarrow> dt \<Rightarrow> bool" where
  "strs_ok m fdt pn pname n \<longleftrightarrow> prop_names m fdt pn (dt_props n) \<and>
     (case prop_val pn pname (dt_props n) of None \<Rightarrow> True
      | Some d \<Rightarrow> d \<noteq> [] \<and> last d = 0 \<and> length d < 2 ^ 31)"

lemma check_strlist_holds:
  assumes h: "fdt_holds m fdt (dt_toks t @ [TFin])" and n: "node_at t off n" and ok: "strs_ok m fdt pn pname n"
    and s: "length pname < 2 ^ 31" "0 \<notin> set str" "str \<noteq> []" "length str < 2 ^ 31"
  shows "fdt_node_check_strlist m fdt (of_nat off) pname str =
    Some (if str \<in> set (dt_strs pn pname n) then 0
          else case prop_val pn pname (dt_props n) of None \<Rightarrow> - FDT_ERR_NOTFOUND | Some _ \<Rightarrow> 1)"
proof -
  have pn: "prop_names m fdt pn (dt_props n)" using ok by (simp add: strs_ok_def)
  obtain p l where p: "fdt_getprop m fdt (of_nat off) pname = Some (p, l)"
    "case prop_val pn pname (dt_props n) of None \<Rightarrow> p = 0 \<and> l = - FDT_ERR_NOTFOUND
     | Some d \<Rightarrow> p \<noteq> 0 \<and> l = of_nat (length d) \<and> bytes m p (length d) = d \<and> unat p + length d < 2 ^ 64 \<and> fdt_base m fdt \<le> p"
    using getprop_holds[OF h n pn s(1)] by blast
  show ?thesis
  proof (cases "prop_val pn pname (dt_props n)")
    case None
    then show ?thesis using p by (simp add: fdt_node_check_strlist_def dt_strs_def)
  next
    case (Some d)
    have d: "strs (strs_from [] d) = d" "length d < 2 ^ 31"
      using ok Some strs_strs_from[of d "[]"] by (simp_all add: strs_ok_def)
    have "fdt_stringlist_contains m p (of_nat (length (strs (strs_from [] d)))) str = Some (str \<in> set (strs_from [] d))"
      by (rule stringlist_holds) (use p Some d s strs_from_no_0[of "[]"] in auto)
    then show ?thesis using p Some d by (simp add: fdt_node_check_strlist_def dt_strs_def)
  qed
qed

section \<open>The searches\<close>

text \<open>The token at which a node begins splits the list of beginnings.\<close>

lemma begins_append: "TFin \<notin> set xs \<Longrightarrow> begins off (xs @ ys) = begins off xs @ begins (off + toks_size xs) ys"
proof (induction xs arbitrary: off)
  case (Cons x xs)
  then show ?case by (cases x) (simp_all add: add.assoc)
qed simp

lemma begins_ge: "b \<in> set (begins off ts) \<Longrightarrow> off \<le> b"
  by (induction off ts rule: begins.induct) (fastforce dest: order.trans[rotated])+

lemma begins_less: "b \<in> set (begins off ts) \<Longrightarrow> b < off + toks_size ts"
proof (induction off ts rule: begins.induct)
  case (2 off s ts)
  then show ?case using tok_size_ge[of "TBegin s"] by auto
qed auto

lemma dt_toks_no_fin: "TFin \<notin> set (dt_toks t)"
  by (induction t) (auto simp: prop_toks_def)

definition by_strlist :: "mem \<Rightarrow> u64 \<Rightarrow> u8 list \<Rightarrow> u8 list \<Rightarrow> u32 \<Rightarrow> u32 option" where
  "by_strlist m fdt pname str startoffset =
     Option.bind (fdt_next_node m fdt startoffset None) (\<lambda>(offset, _).
       fdt_by_check_loop m fdt (\<lambda>offset. fdt_node_check_strlist m fdt offset pname str) offset)"

definition first_with :: "(u32 \<Rightarrow> u8 list) \<Rightarrow> u8 list \<Rightarrow> u8 list \<Rightarrow> (nat \<times> dt) list \<Rightarrow> nat option" where
  "first_with pn pname str ns = map_option fst (find (\<lambda>(_, n). str \<in> set (dt_strs pn pname n)) ns)"

lemma find_map_fst:
  "\<forall>(o', n) \<in> set ns. P o' = Q n \<Longrightarrow> find P (map fst ns) = map_option fst (find (\<lambda>(_, n). Q n) ns)"
  by (induction ns) auto

lemma by_strlist_from:
  assumes h: "fdt_holds m fdt (dt_toks t @ [TFin])"
    and ok: "\<forall>(_, n) \<in> set (dt_nodes 0 t). strs_ok m fdt pn pname n"
    and s: "length pname < 2 ^ 31" "0 \<notin> set str" "str \<noteq> []" "length str < 2 ^ 31"
    and ts: "dt_toks t @ [TFin] = xs @ ts" "TFin \<in> set ts" "begins (toks_size xs) ts = map fst ns"
      "set ns \<subseteq> set (dt_nodes 0 t)"
  shows "Option.bind (fdt_next_node_loop m fdt (of_nat (toks_size xs)) None) (\<lambda>(offset, _).
       fdt_by_check_loop m fdt (\<lambda>offset. fdt_node_check_strlist m fdt offset pname str) offset) =
    Some (found (first_with pn pname str ns))"
proof -
  let ?check = "\<lambda>offset. fdt_node_check_strlist m fdt offset pname str"
  let ?P = "\<lambda>b. ?check (of_nat b) = Some 0"
  let ?e = "\<lambda>b. the (?check (of_nat b))"
  have c: "?check (of_nat o') = Some (if str \<in> set (dt_strs pn pname n) then 0
        else case prop_val pn pname (dt_props n) of None \<Rightarrow> - FDT_ERR_NOTFOUND | Some _ \<Rightarrow> 1)"
    if "(o', n) \<in> set ns" for o' n
    using that ts(4) ok dt_nodes_at[OF node_at.root] s by (intro check_strlist_holds[OF h]) auto
  have P: "\<forall>(o', n) \<in> set ns. ?P o' = (str \<in> set (dt_strs pn pname n))"
    using c by (auto split: option.splits if_splits simp: FDT_ERR_NOTFOUND_def)
  have "\<forall>b \<in> set (begins (toks_size xs) ts). ?check (of_nat b) = Some (if ?P b then 0 else
      (if ?P b then 1 else ?e b)) \<and> (if ?P b then 1 else ?e b) \<in> {1, - FDT_ERR_NOTFOUND}"
    unfolding ts(3) using c by (fastforce split: option.splits)
  from by_check_holds[OF h[unfolded ts(1)] ts(2) this] show ?thesis
    unfolding ts(3) first_with_def find_map_fst[OF P] .
qed

lemma by_strlist_holds:
  assumes h: "fdt_holds m fdt (dt_toks t @ [TFin])"
    and ok: "\<forall>(_, n) \<in> set (dt_nodes 0 t). strs_ok m fdt pn pname n"
    and s: "length pname < 2 ^ 31" "0 \<notin> set str" "str \<noteq> []" "length str < 2 ^ 31"
  shows "by_strlist m fdt pname str (- 1) = Some (found (first_with pn pname str (dt_nodes 0 t)))"
    and "dt_nodes 0 t = as @ (off, n) # bs \<Longrightarrow>
      by_strlist m fdt pname str (of_nat off) = Some (found (first_with pn pname str bs))"
proof -
  have b: "begins 0 (dt_toks t @ [TFin]) = map fst (dt_nodes 0 t)" using begins_dt(1)[of 0 t "[TFin]"] by simp
  show "by_strlist m fdt pname str (- 1) = Some (found (first_with pn pname str (dt_nodes 0 t)))"
    using by_strlist_from[OF h ok s, of "[]" "dt_toks t @ [TFin]" "dt_nodes 0 t"] b
    by (simp add: by_strlist_def fdt_next_node_def neg32_err)
  assume d: "dt_nodes 0 t = as @ (off, n) # bs"
  have at: "node_at t off n" using dt_nodes_at[OF node_at.root, of off n t] d by simp
  obtain sn ps cs where n: "n = Dt sn ps cs" by (cases n)
  obtain xs ys where e: "dt_toks t @ [TFin] = xs @ TBegin sn # ys" "toks_size xs = off"
  proof -
    obtain xs zs where "dt_toks t = xs @ dt_toks n @ zs" "toks_size xs = off" using node_at_toks[OF at] by blast
    then show thesis using that n by simp
  qed
  have fin: "TFin \<notin> set xs" "TFin \<in> set ys"
    using e(1) dt_toks_no_fin[of t]
    by (auto simp: append_eq_append_conv2 Cons_eq_append_conv dest!: arg_cong[of _ _ set])
  let ?o = "toks_size (xs @ [TBegin sn])"
  have split: "map fst as @ off # map fst bs = begins 0 xs @ off # begins ?o ys"
    using b d begins_append[OF fin(1), of 0 "TBegin sn # ys"] e by simp
  have nin: "off \<notin> set (begins 0 xs)" "off \<notin> set (begins ?o ys)"
    using begins_less[of off 0 xs] begins_ge[of off ?o ys] e(2) tok_size_ge[of "TBegin sn"] by auto
  have "begins ?o ys = map fst bs"
    using append_Cons_eq_iff[OF nin] split by metis
  then have r: "Option.bind (fdt_next_node_loop m fdt (of_nat ?o) None) (\<lambda>(offset, _).
       fdt_by_check_loop m fdt (\<lambda>offset. fdt_node_check_strlist m fdt offset pname str) offset) =
    Some (found (first_with pn pname str bs))"
    using by_strlist_from[OF h ok s, of "xs @ [TBegin sn]" ys bs] e(1) fin(2) d by auto
  have "?o < 2 ^ 31" "toks_size xs < 2 ^ 31" using h unfolding e(1) by (simp_all add: fdt_holds_def)
  then have small: "\<not> neg32 (of_nat ?o)" "\<not> neg32 (of_nat (toks_size xs))"
    by (simp_all only: neg32_small not_False_eq_True)
  have "fdt_next_node m fdt (of_nat off) None = fdt_next_node_loop m fdt (of_nat ?o) None"
    using check_node_holds[of m fdt xs sn ys] h small e by (simp add: fdt_next_node_def)
  then show "by_strlist m fdt pname str (of_nat off) = Some (found (first_with pn pname str bs))"
    using r by (simp add: by_strlist_def)
qed


lemma by_dtype_holds:
  assumes h: "fdt_holds m fdt (dt_toks t @ [TFin])"
    and ok: "\<forall>(_, n) \<in> set (dt_nodes 0 t). strs_ok m fdt pn (lit ''device_type'') n"
    and s: "0 \<notin> set str" "str \<noteq> []" "length str < 2 ^ 31"
  shows "fdt_node_offset_by_dtype m fdt (- 1) str = Some (found (first_with pn (lit ''device_type'') str (dt_nodes 0 t)))"
    and "dt_nodes 0 t = as @ (off, n) # bs \<Longrightarrow>
      fdt_node_offset_by_dtype m fdt (of_nat off) str = Some (found (first_with pn (lit ''device_type'') str bs))"
  using by_strlist_holds[OF h ok _ s] fdt_holds_header[OF h]
  by (simp_all add: fdt_node_offset_by_dtype_def fdt_node_check_dtype_def by_strlist_def lit_def)

text \<open>
  C33: \<^verbatim>\<open>fdt_node_offset_by_dtype\<close> from the start finds the first node in the order of the tree whose
  \<^verbatim>\<open>device_type\<close> list has the string, and from a node the first one behind it: calling it again and
  again on its own result enumerates all such nodes and ends with \<^verbatim>\<open>FDT_ERR_NOTFOUND\<close>.
\<close>
theorem fdt_node_offset_by_dtype_correct:
  assumes "fdt_holds m fdt (dt_toks t @ [TFin])"
    "\<forall>(_, n) \<in> set (dt_nodes 0 t). strs_ok m fdt pn (lit ''device_type'') n"
    "0 \<notin> set str" "str \<noteq> []" "length str < 2 ^ 31" "dt_nodes 0 t = as @ (off, n) # bs"
  shows "fdt_node_offset_by_dtype m fdt (- 1) str =
      Some (found (first_with pn (lit ''device_type'') str (dt_nodes 0 t))) \<and>
    fdt_node_offset_by_dtype m fdt (of_nat off) str =
      Some (found (first_with pn (lit ''device_type'') str bs))"
  using by_dtype_holds[OF assms(1-5)] assms(6) by blast

subsection \<open>A board\<close>

text \<open>A tree with one memory node and a \<^verbatim>\<open>/chosen\<close> node that names a ramdisk, and a blob that holds it.\<close>

definition board_bytes :: "u8 list" where
  "board_bytes = [
     0xd0, 0xd, 0xfe, 0xed, 0, 0, 1, 0, 0, 0, 0, 0x28, 0, 0, 0, 0xac, 0, 0, 0, 0xe0, 0, 0, 0,
     0x11, 0, 0, 0, 0x10, 0, 0, 0, 0, 0, 0, 0, 0x34, 0, 0, 0, 0x84, 0, 0, 0, 1, 0, 0, 0, 0, 0, 0,
     0, 1, 0x6d, 0x65, 0x6d, 0x6f, 0x72, 0x79, 0x40, 0x30, 0, 0, 0, 0, 0, 0, 0, 3, 0, 0, 0, 7, 0,
     0, 0, 0, 0x6d, 0x65, 0x6d, 0x6f, 0x72, 0x79, 0, 0, 0, 0, 0, 3, 0, 0, 0, 0x10, 0, 0, 0, 0xc,
     0, 0, 0, 0, 0, 0, 0, 0, 0, 0, 0, 0, 0x40, 0, 0, 0, 0, 0, 0, 2, 0, 0, 0, 1, 0x63, 0x68, 0x6f,
     0x73, 0x65, 0x6e, 0, 0, 0, 0, 0, 3, 0, 0, 0, 4, 0, 0, 0, 0x10, 0x30, 0, 0, 0, 0, 0, 0, 3, 0,
     0, 0, 4, 0, 0, 0, 0x23, 0x30, 0x10, 0, 0, 0, 0, 0, 2, 0, 0, 0, 2, 0, 0, 0, 9, 0x64, 0x65,
     0x76, 0x69, 0x63, 0x65, 0x5f, 0x74, 0x79, 0x70, 0x65, 0, 0x72, 0x65, 0x67, 0, 0x6c, 0x69,
     0x6e, 0x75, 0x78, 0x2c, 0x69, 0x6e, 0x69, 0x74, 0x72, 0x64, 0x2d, 0x73, 0x74, 0x61, 0x72,
     0x74, 0, 0x6c, 0x69, 0x6e, 0x75, 0x78, 0x2c, 0x69, 0x6e, 0x69, 0x74, 0x72, 0x64, 0x2d, 0x65,
     0x6e, 0x64, 0, 0, 0, 0, 0, 0x38, 0, 0, 0, 0, 0, 0, 0, 0, 0, 0x10, 0, 0, 0, 0, 0, 0, 0, 0, 0,
     0, 0, 0, 0, 0, 0, 0, 0
    ]"

definition board_fdt :: u64 where "board_fdt = 0x8000000028000000"

definition board_mem :: mem where
  "board_mem = mem_of [(board_fdt, board_bytes)]"

definition board_memory :: dt where
  "board_memory = Dt (lit ''memory@0'') [(0, lit ''memory'' @ [0]), (12, [0, 0, 0, 0, 0, 0, 0, 0, 0, 0, 0, 0, 0x40, 0, 0, 0])] []"

definition board_chosen :: dt where
  "board_chosen = Dt (lit ''chosen'') [(16, [0x30, 0, 0, 0]), (35, [0x30, 0x10, 0, 0])] []"

definition board :: dt where
  "board = Dt [] [] [board_memory, board_chosen]"

definition board_names :: "u32 \<Rightarrow> u8 list" where
  "board_names n = (if n = 0 then lit ''device_type'' else if n = 12 then lit ''reg''
     else if n = 16 then lit ''linux,initrd-start'' else lit ''linux,initrd-end'')"

lemmas board_defs = board_mem_def mem_of_def board_bytes_def board_fdt_def

lemma board_header:
  "fdt_off_dt_struct board_mem board_fdt = 40" "fdt_off_dt_strings board_mem board_fdt = 172"
  "fdt_off_mem_rsvmap board_mem board_fdt = 224"
  "fdt_version board_mem board_fdt = 17" "fdt_size_dt_struct board_mem board_fdt = 132"
  "fdt_check_header board_mem board_fdt = 0"
  by (simp_all add: fdt_off_dt_struct_def fdt_off_dt_strings_def fdt_off_mem_rsvmap_def fdt_version_def
      fdt_size_dt_struct_def fdt_check_header_def fdt_magic_def fdt_last_comp_version_def FDT_MAGIC_def
      FDT_FIRST_SUPPORTED_VERSION_def FDT_LAST_SUPPORTED_VERSION_def board_defs
      fdt32_def load32_le_def be32_to_cpu_def swab32_def)

lemma board_toks:
  "toks_at board_mem 0x8000000028000028 (dt_toks board @ [TFin])" "toks_size (dt_toks board @ [TFin]) = 132"
  by (simp_all add: board_def board_memory_def board_chosen_def lit_def prop_toks_def tok_size_def pad4_def
      tok_at_def fdt_tags board_defs fdt32_def load32_le_def be32_to_cpu_def swab32_def)

lemma board_holds: "fdt_holds board_mem board_fdt (dt_toks board @ [TFin])"
  using board_toks by (simp add: fdt_holds_def fdt_base_def board_header del: toks_size_simps) (simp add: board_fdt_def)


lemma length_lit [simp]: "length (lit s) = length s"
  by (simp add: lit_def)

lemma board_strings:
  "cstr board_mem 0x80000000280000ac (lit ''device_type'')" "cstr board_mem 0x80000000280000b8 (lit ''reg'')"
  "cstr board_mem 0x80000000280000bc (lit ''linux,initrd-start'')"
  "cstr board_mem 0x80000000280000cf (lit ''linux,initrd-end'')"
  by (simp_all add: lit_def board_defs)

lemma board_string_addrs:
  "fdt_string board_mem board_fdt 0 = 0x80000000280000ac" "fdt_string board_mem board_fdt 12 = 0x80000000280000b8"
  "fdt_string board_mem board_fdt 16 = 0x80000000280000bc" "fdt_string board_mem board_fdt 35 = 0x80000000280000cf"
  by (simp_all add: fdt_string_def board_header) (simp_all add: board_fdt_def)

lemma board_names_eqs:
  "board_names 0 = lit ''device_type''" "board_names 12 = lit ''reg''"
  "board_names 16 = lit ''linux,initrd-start''" "board_names 35 = lit ''linux,initrd-end''"
  by (simp_all add: board_names_def)

lemma board_prop_names:
  "prop_names board_mem board_fdt board_names (dt_props board_memory)"
  "prop_names board_mem board_fdt board_names (dt_props board_chosen)"
  "prop_names board_mem board_fdt board_names (dt_props board)"
  by (simp_all add: prop_names_def board_memory_def board_chosen_def board_def board_names_eqs board_string_addrs
      board_strings)

lemma board_nodes: "dt_nodes 0 board = [(0, board), (8, board_memory), (76, board_chosen)]"
  by (simp add: board_def board_memory_def board_chosen_def lit_def prop_toks_def tok_size_def pad4_def)

lemma board_vals:
  "prop_val board_names (lit ''device_type'') (dt_props board_memory) = Some (lit ''memory'' @ [0])"
  "prop_val board_names (lit ''device_type'') (dt_props board_chosen) = None"
  "prop_val board_names (lit ''device_type'') (dt_props board) = None"
  by (simp_all add: prop_val_def board_memory_def board_chosen_def board_def board_names_def lit_def)

lemma board_ok: "\<forall>(_, n) \<in> set (dt_nodes 0 board). strs_ok board_mem board_fdt board_names (lit ''device_type'') n"
  using board_prop_names by (simp add: board_nodes strs_ok_def board_vals)

lemma strs_from_one: "0 \<notin> set s \<Longrightarrow> strs_from acc (s @ [0]) = [acc @ s]"
  by (induction s arbitrary: acc) auto

lemma lit_memory: "0 \<notin> set (lit ''memory'')" "lit ''memory'' \<noteq> []"
  by (simp_all add: lit_def)

lemma board_first:
  "first_with board_names (lit ''device_type'') (lit ''memory'') (dt_nodes 0 board) = Some 8"
  "first_with board_names (lit ''device_type'') (lit ''memory'') [(76, board_chosen)] = None"
  by (simp_all add: first_with_def board_nodes dt_strs_def board_vals strs_from_one lit_memory)

theorem fdt_node_offset_by_dtype_correct_witness:
  "fdt_node_offset_by_dtype board_mem board_fdt (- 1) (lit ''memory'') = Some 8 \<and>
   fdt_node_offset_by_dtype board_mem board_fdt 8 (lit ''memory'') = Some (- FDT_ERR_NOTFOUND)"
  using fdt_node_offset_by_dtype_correct[OF board_holds board_ok, of "lit ''memory''" "[(0, board)]" 8 board_memory "[(76, board_chosen)]"]
  by (simp add: board_first[unfolded board_nodes] found_def board_nodes lit_memory)

end
