(* ===== verification/Mem_Init.thy ===== *)
theory Mem_Init
  imports Mem Fdt_Search
begin

text \<open>
  \<^verbatim>\<open>mem_init\<close> of \<^verbatim>\<open>mem.c\<close>: the free ranges are the memory nodes of the device tree the firmware
  passes, less the hypervisor's image, the exception vectors, the tree, the reserved ranges and the
  initial ramdisk. The addresses of linker symbols are the record \<open>image_t\<close>.
\<close>

section \<open>Definitions\<close>

record image_t =
  img_start :: u64
  img_end :: u64
  exc_base :: u64
  exc_end :: u64

text \<open>A loop that does not return stops the machine.\<close>

definition returns :: "string \<Rightarrow> 'a option \<Rightarrow> 'a outcome" where
  "returns n r = (case r of None \<Rightarrow> Inl (Hang n) | Some x \<Rightarrow> Inr x)"

text \<open>The loop over the memory nodes, on the ranges, \<^verbatim>\<open>base\<close> and \<^verbatim>\<open>size\<close>, and \<^verbatim>\<open>status\<close>.\<close>

partial_function (option) mem_add_nodes ::
  "malloc_ok \<Rightarrow> mem \<Rightarrow> u64 \<Rightarrow> u32 \<Rightarrow> ranges_t \<Rightarrow> u64 \<Rightarrow> u64 \<Rightarrow> err_t \<Rightarrow>
   (ranges_t \<times> u64 \<times> u64 \<times> err_t) outcome option"
where
  "mem_add_nodes mm m fdt node rs b sz status =
     (if node = - 1 then Some (Inr (rs, b, sz, status))
      else Option.bind (fdt_getprop m fdt node (lit ''reg'')) (\<lambda>(prop, prop_len).
        if prop = 0 then Some (Inl (Bug ''node has no reg property''))
        else if prop_len \<noteq> 16 then Some (Inl (Bug ''node reg has unexpected len''))
        else
          let b = fdt64 m prop; sz = fdt64 m (prop + 8)
          in case range_add mm rs b (b + sz - 1) of Inl h \<Rightarrow> Some (Inl h)
             | Inr rs \<Rightarrow> Option.bind (fdt_node_offset_by_dtype m fdt node (lit ''memory'')) (\<lambda>node.
                 mem_add_nodes mm m fdt node rs b sz ERR_NONE)))"

text \<open>The loop over the reserve map, from entry \<open>i\<close> on, \<open>n\<close> entries left.\<close>

fun mem_remove_rsv ::
  "malloc_ok \<Rightarrow> mem \<Rightarrow> u64 \<Rightarrow> nat \<Rightarrow> u32 \<Rightarrow> u64 \<Rightarrow> u64 \<Rightarrow> ranges_t \<Rightarrow> ranges_t outcome"
where
  "mem_remove_rsv mm m fdt 0 i b sz rs = Inr rs"
| "mem_remove_rsv mm m fdt (Suc n) i b sz rs =
     (let (err, address, entry_size) = fdt_get_mem_rsv m fdt i;
          b = (if err = 0 then address else b);
          sz = (if err = 0 then entry_size else sz)
      in bindE (range_remove mm rs b (b + sz - 1)) (\<lambda>rs. mem_remove_rsv mm m fdt n (i + 1) b sz rs))"

text \<open>A property of one or two cells.\<close>

definition mem_initrd_prop :: "mem \<Rightarrow> u64 \<Rightarrow> u32 \<Rightarrow> string \<Rightarrow> u64 outcome" where
  "mem_initrd_prop m fdt node name =
     bindE (returns name (fdt_getprop m fdt node (lit name))) (\<lambda>(prop, prop_len).
     bug_on (prop = 0) ''node has no initrd property'' (
     bug_on (prop_len \<noteq> 4 \<and> prop_len \<noteq> 8) ''node reg has unexpected len''
       (Inr (if prop_len = 4 then ucast (fdt32 m prop) else fdt64 m prop))))"

definition mem_init :: "malloc_ok \<Rightarrow> image_t \<Rightarrow> mem \<Rightarrow> u64 \<Rightarrow> mem_state \<Rightarrow> (err_t \<times> mem_state) outcome" where
  "mem_init mm img m fdt s =
     bindE (returns ''memory nodes'' (fdt_node_offset_by_dtype m fdt (- 1) (lit ''memory''))) (\<lambda>node.
     bindE (returns ''memory nodes'' (mem_add_nodes mm m fdt node range_init 0 0 ERR_NOT_FOUND)) (\<lambda>r.
     bindE r (\<lambda>(rs, b, sz, status).
     if status \<noteq> ERR_NONE then Inr (status, s\<lparr>mem_free_ranges := rs\<rparr>)
     else
       bindE (ptr_2_ra (img_start img)) (\<lambda>image_start.
       bindE (ptr_2_ra (img_end img)) (\<lambda>image_end.
       bindE (range_remove mm rs image_start (image_end - 1)) (\<lambda>rs.
       bindE (range_remove mm rs 0 (exc_end img - exc_base img - 1)) (\<lambda>rs.
       bindE (ptr_2_ra fdt) (\<lambda>fdt_ra.
       bindE (range_remove mm rs fdt_ra (fdt_ra + ucast (fdt_size_dt_struct m fdt) - 1)) (\<lambda>rs.
       bindE (returns ''reserve map'' (fdt_num_mem_rsv m fdt)) (\<lambda>resv_count.
       bindE (mem_remove_rsv mm m fdt (if neg32 resv_count then 0 else unat resv_count) 0 b sz rs) (\<lambda>rs.
       bindE (returns ''/chosen'' (fdt_path_offset m fdt (lit ''/chosen''))) (\<lambda>node.
       bug_on (node = - 1) ''/chosen not found'' (
       bindE (mem_initrd_prop m fdt node ''linux,initrd-start'') (\<lambda>b.
       bindE (mem_initrd_prop m fdt node ''linux,initrd-end'') (\<lambda>e.
       bindE (range_remove mm rs b (b + (e - b) - 1)) (\<lambda>rs.
       Inr (status, s\<lparr>mem_free_ranges := rs, mem_early := False\<rparr>)))))))))))))))))"

section \<open>What is left free\<close>

text \<open>The ranges of the reserve map, as the loop reads them.\<close>

definition rsv_range :: "mem \<Rightarrow> u64 \<Rightarrow> u32 \<Rightarrow> u64 set" where
  "rsv_range m fdt i =
     (let p = fdt_mem_rsv m fdt i in {fdt64 m p .. fdt64 m p + fdt64 m (p + 8) - 1})"

lemma mem_remove_rsv_cover:
  "fdt_check_header m fdt = 0 \<Longrightarrow> ranges_wf rs \<Longrightarrow> mem_remove_rsv mm m fdt n i b sz rs = Inr rs' \<Longrightarrow>
   ranges_wf rs' \<and> cover rs' = cover rs - (\<Union>k < n. rsv_range m fdt (i + of_nat k))"
proof (induction n arbitrary: i b sz rs)
  case (Suc n)
  let ?b = "fdt64 m (fdt_mem_rsv m fdt i)" and ?s = "fdt64 m (fdt_mem_rsv m fdt i + 8)"
  obtain rs1 where r: "range_remove mm rs ?b (?b + ?s - 1) = Inr rs1"
    "mem_remove_rsv mm m fdt n (i + 1) ?b ?s rs1 = Inr rs'"
    using Suc.prems(1,3) by (auto simp: fdt_get_mem_rsv_def Let_def outcome_simps)
  have c: "ranges_wf rs1" "cover rs1 = cover rs - rsv_range m fdt i"
    using range_list.remove_inv[OF Suc.prems(2) r(1)] range_list.remove_region[OF Suc.prems(2) r(1)]
    by (simp_all add: rsv_range_def Let_def)
  have "(\<Union>k < Suc n. rsv_range m fdt (i + of_nat k)) =
      rsv_range m fdt i \<union> (\<Union>k < n. rsv_range m fdt (i + 1 + of_nat k))"
    by (simp add: lessThan_Suc_eq_insert_0 image_image add.assoc add.commute[of 1])
  then show ?case using Suc.IH[OF Suc.prems(1) c(1) r(2)] c(2) by auto
qed simp

text \<open>What must never be handed out: \<open>initrd\<close> is the interval of the ramdisk.\<close>

definition mem_protected :: "image_t \<Rightarrow> mem \<Rightarrow> u64 \<Rightarrow> u64 set" where
  "mem_protected img m fdt =
     {img_start img AND NOT HV_ASPACE .. (img_end img AND NOT HV_ASPACE) - 1} \<union>
     {0 .. exc_end img - exc_base img - 1} \<union>
     {fdt AND NOT HV_ASPACE .. (fdt AND NOT HV_ASPACE) + ucast (fdt_size_dt_struct m fdt) - 1}"

lemma ptr_2_ra_eq: "ptr_2_ra p = Inr r \<Longrightarrow> r = p AND NOT HV_ASPACE"
  by (auto simp: ptr_2_ra_def outcome_simps)

subsection \<open>The memory nodes\<close>

text \<open>The two cells of a \<^verbatim>\<open>reg\<close> value, and the memory a list of nodes describes.\<close>

definition reg_cells :: "u8 list \<Rightarrow> u64 \<times> u64" where
  "reg_cells d = (fdt64 (\<lambda>a. d ! unat a) 0, fdt64 (\<lambda>a. d ! unat a) 8)"

definition is_memory :: "(u32 \<Rightarrow> u8 list) \<Rightarrow> dt \<Rightarrow> bool" where
  "is_memory pn n \<longleftrightarrow> lit ''memory'' \<in> set (dt_strs pn (lit ''device_type'') n)"

definition memory_regs :: "(u32 \<Rightarrow> u8 list) \<Rightarrow> (nat \<times> dt) list \<Rightarrow> (u64 \<times> u64) list" where
  "memory_regs pn ns =
     map (\<lambda>(_, n). reg_cells (the (prop_val pn (lit ''reg'') (dt_props n)))) (filter (\<lambda>(_, n). is_memory pn n) ns)"

fun add_regs :: "malloc_ok \<Rightarrow> (u64 \<times> u64) list \<Rightarrow> ranges_t \<Rightarrow> u64 \<Rightarrow> u64 \<Rightarrow> err_t \<Rightarrow> (ranges_t \<times> u64 \<times> u64 \<times> err_t) outcome" where
  "add_regs mm [] rs b sz st = Inr (rs, b, sz, st)"
| "add_regs mm ((b', sz') # xs) rs b sz st =
     bindE (range_add mm rs b' (b' + sz' - 1)) (\<lambda>rs. add_regs mm xs rs b' sz' ERR_NONE)"

definition reg_ok :: "mem \<Rightarrow> u64 \<Rightarrow> (u32 \<Rightarrow> u8 list) \<Rightarrow> dt \<Rightarrow> bool" where
  "reg_ok m fdt pn n \<longleftrightarrow> strs_ok m fdt pn (lit ''device_type'') n \<and>
     (is_memory pn n \<longrightarrow> (case prop_val pn (lit ''reg'') (dt_props n) of None \<Rightarrow> False | Some d \<Rightarrow> length d = 16))"

lemma fdt64_bytes:
  assumes "bytes m p 16 = d"
  shows "fdt64 m p = fst (reg_cells d)" "fdt64 m (p + 8) = snd (reg_cells d)"
  unfolding assms[symmetric]
  by (simp_all add: reg_cells_def fdt64_def load64_le_def load32_le_def bytes_nth add.assoc del: bytes_Suc)

lemma mem_add_nodes_holds:
  assumes h: "fdt_holds m fdt (dt_toks t @ [TFin])"
    and ok: "\<forall>(_, n) \<in> set (dt_nodes 0 t). reg_ok m fdt pn n"
  shows "dt_nodes 0 t = as @ ns \<Longrightarrow>
    mem_add_nodes mm m fdt (found (first_with pn (lit ''device_type'') (lit ''memory'') ns)) rs b sz st =
      Some (add_regs mm (memory_regs pn ns) rs b sz st)"
proof (induction ns arbitrary: as rs b sz st)
  case Nil
  then show ?case
    by (simp add: first_with_def memory_regs_def found_def FDT_ERR_NOTFOUND_def mem_add_nodes.simps)
next
  case (Cons x ns)
  obtain off n where x: "x = (off, n)" by (cases x)
  have IH: "mem_add_nodes mm m fdt (found (first_with pn (lit ''device_type'') (lit ''memory'') ns)) rs b sz st =
      Some (add_regs mm (memory_regs pn ns) rs b sz st)" for rs b sz st
    using Cons.IH[of "as @ [x]"] Cons.prems by simp
  show ?case
  proof (cases "is_memory pn n")
    case False
    then show ?thesis
      using IH x by (simp add: first_with_def memory_regs_def is_memory_def)
  next
    case True
    have n: "(off, n) \<in> set (dt_nodes 0 t)" "node_at t off n"
      using Cons.prems x dt_nodes_at[OF node_at.root, of off n t] by simp_all
    obtain d where d: "prop_val pn (lit ''reg'') (dt_props n) = Some d" "length d = 16"
      and pn: "prop_names m fdt pn (dt_props n)"
    proof -
      have "reg_ok m fdt pn n" using ok n(1) by auto
      then show thesis using True that by (auto simp: reg_ok_def strs_ok_def split: option.splits)
    qed
    obtain p where p: "fdt_getprop m fdt (of_nat off) (lit ''reg'') = Some (p, 16)" "p \<noteq> 0" "bytes m p 16 = d"
      using getprop_holds[OF h n(2) pn, of "lit ''reg''"] d by auto
    have ok': "\<forall>(_, n) \<in> set (dt_nodes 0 t). strs_ok m fdt pn (lit ''device_type'') n"
      using ok by (auto simp: reg_ok_def)
    have nx: "fdt_node_offset_by_dtype m fdt (of_nat off) (lit ''memory'') =
        Some (found (first_with pn (lit ''device_type'') (lit ''memory'') ns))"
      using by_dtype_holds(2)[OF h ok', of "lit ''memory''"] Cons.prems x by (simp add: lit_memory)
    have "off < 2 ^ 31" using node_at_name[OF n(2) h] h by (simp add: fdt_holds_def)
    then have ne: "of_nat off \<noteq> (- 1 :: u32)" using neg32_small[of off] neg32_err(2) by metis
    have f: "found (first_with pn (lit ''device_type'') (lit ''memory'') (x # ns)) = of_nat off"
      using True x by (simp add: first_with_def is_memory_def found_def)
    have r: "memory_regs pn (x # ns) = reg_cells d # memory_regs pn ns"
      using True x d by (simp add: memory_regs_def)
    show ?thesis
      unfolding f r mem_add_nodes.simps[of mm m fdt "of_nat off"] p(1)
      using ne p(2) fdt64_bytes[OF p(3)] nx IH
      by (cases "reg_cells d") (auto simp: Let_def bindE_def split: sum.splits)
  qed
qed

text \<open>Disjoint memory nodes make well-formed ranges that cover the memory they describe.\<close>

fun regs_disjoint :: "(u64 \<times> u64) list \<Rightarrow> bool" where
  "regs_disjoint [] \<longleftrightarrow> True"
| "regs_disjoint ((b, sz) # xs) \<longleftrightarrow> (\<forall>(b', sz') \<in> set xs. {b..b + sz - 1} \<inter> {b'..b' + sz' - 1} = {}) \<and> regs_disjoint xs"

definition regs_cover :: "(u64 \<times> u64) list \<Rightarrow> u64 set" where
  "regs_cover xs = (\<Union>(b, sz) \<in> set xs. {b..b + sz - 1})"

lemma add_regs_cover:
  "ranges_wf rs \<Longrightarrow> regs_disjoint xs \<Longrightarrow> cover rs \<inter> regs_cover xs = {} \<Longrightarrow>
   add_regs mm xs rs b sz st = Inr (rs', b', sz', st') \<Longrightarrow>
   ranges_wf rs' \<and> cover rs' = cover rs \<union> regs_cover xs \<and> st' = (if xs = [] then st else ERR_NONE)"
proof (induction xs arbitrary: rs b sz st)
  case (Cons x xs)
  obtain c l where x: "x = (c, l)" by (cases x)
  obtain rs1 where r: "range_add mm rs c (c + l - 1) = Inr rs1" "add_regs mm xs rs1 c l ERR_NONE = Inr (rs', b', sz', st')"
    using Cons.prems(4) x by (auto simp: outcome_simps)
  have d: "{c..c + l - 1} \<inter> cover rs = {}" using Cons.prems(3) x by (auto simp: regs_cover_def)
  have w: "ranges_wf rs1" "cover rs1 = cover rs \<union> {c..c + l - 1}"
    using range_list.add_inv[OF Cons.prems(1) d r(1)] range_list.add_region[OF Cons.prems(1) d r(1)] by auto
  have "{c..c + l - 1} \<inter> regs_cover xs = {}"
    using Cons.prems(2) unfolding x regs_cover_def regs_disjoint.simps by blast
  moreover have "cover rs \<inter> regs_cover xs = {}" using Cons.prems(3) unfolding x regs_cover_def by auto
  ultimately have "cover rs1 \<inter> regs_cover xs = {}" unfolding w(2) by blast
  from Cons.IH[OF w(1) _ this r(2)] Cons.prems(2) show ?case using w(2) x by (auto simp: regs_cover_def)
qed (simp add: regs_cover_def)

subsection \<open>The whole of it\<close>

text \<open>The ranges of the reserve map, up to its end.\<close>

definition reserved :: "mem \<Rightarrow> u64 \<Rightarrow> u64 set" where
  "reserved m fdt = (case fdt_num_mem_rsv m fdt of None \<Rightarrow> {}
     | Some n \<Rightarrow> (\<Union>k < (if neg32 n then 0 else unat n). rsv_range m fdt (of_nat k)))"

lemma mem_init_result:
  assumes "mem_init mm img m fdt s = Inr (st, s')" "fdt_holds m fdt (dt_toks t @ [TFin])"
    "\<forall>(_, n) \<in> set (dt_nodes 0 t). reg_ok m fdt pn n" "regs_disjoint (memory_regs pn (dt_nodes 0 t))"
    "memory_regs pn (dt_nodes 0 t) \<noteq> []"
  shows "st = ERR_NONE \<and> \<not> mem_early s' \<and> early_memory s' = early_memory s \<and> sbrk s' = sbrk s \<and>
    ranges_wf (mem_free_ranges s') \<and>
    (\<exists>c b e. fdt_path_offset m fdt (lit ''/chosen'') = Some c \<and>
       mem_initrd_prop m fdt c ''linux,initrd-start'' = Inr b \<and> mem_initrd_prop m fdt c ''linux,initrd-end'' = Inr e \<and>
       cover (mem_free_ranges s') =
         regs_cover (memory_regs pn (dt_nodes 0 t)) - mem_protected img m fdt - reserved m fdt - {b..e - 1})"
proof -
  let ?ns = "dt_nodes 0 t"
  have ok': "\<forall>(_, n) \<in> set ?ns. strs_ok m fdt pn (lit ''device_type'') n" using assms(3) by (auto simp: reg_ok_def)
  have first: "fdt_node_offset_by_dtype m fdt (- 1) (lit ''memory'') =
      Some (found (first_with pn (lit ''device_type'') (lit ''memory'') ?ns))"
    using by_dtype_holds(1)[OF assms(2) ok', of "lit ''memory''"] by (simp add: lit_memory)
  note nodes = mem_add_nodes_holds[OF assms(2,3), of "[]" ?ns, simplified]
  obtain rs b sz st1 where add: "add_regs mm (memory_regs pn ?ns) range_init 0 0 ERR_NOT_FOUND = Inr (rs, b, sz, st1)"
    using assms(1) by (auto simp: mem_init_def first nodes returns_def outcome_simps)
  have w: "ranges_wf rs" "cover rs = regs_cover (memory_regs pn ?ns)" "st1 = ERR_NONE"
    using add_regs_cover[OF _ assms(4) _ add] assms(5) by (simp_all add: range_init_def)
  obtain i0 i1 r1 r2 f r3 n r4 c b' e r5 where
    i: "ptr_2_ra (img_start img) = Inr i0" "ptr_2_ra (img_end img) = Inr i1" "ptr_2_ra fdt = Inr f"
    and r: "range_remove mm rs i0 (i1 - 1) = Inr r1" "range_remove mm r1 0 (exc_end img - exc_base img - 1) = Inr r2"
      "range_remove mm r2 f (f + ucast (fdt_size_dt_struct m fdt) - 1) = Inr r3"
    and n: "fdt_num_mem_rsv m fdt = Some n"
      "mem_remove_rsv mm m fdt (if neg32 n then 0 else unat n) 0 b sz r3 = Inr r4"
    and ch: "fdt_path_offset m fdt (lit ''/chosen'') = Some c"
      "mem_initrd_prop m fdt c ''linux,initrd-start'' = Inr b'" "mem_initrd_prop m fdt c ''linux,initrd-end'' = Inr e"
    and l: "range_remove mm r4 b' (b' + (e - b') - 1) = Inr r5"
    and s': "s' = s\<lparr>mem_free_ranges := r5, mem_early := False\<rparr>" "st = ERR_NONE"
    using assms(1)
    by (auto simp: mem_init_def first nodes add w(3) outcome_simps returns_def split: option.splits if_splits)
  note w1 = range_list.remove_inv[OF w(1) r(1)] and c1 = range_list.remove_region[OF w(1) r(1)]
  note w2 = range_list.remove_inv[OF w1 r(2)] and c2 = range_list.remove_region[OF w1 r(2)]
  note w3 = range_list.remove_inv[OF w2 r(3)] and c3 = range_list.remove_region[OF w2 r(3)]
  have rsv: "ranges_wf r4" "cover r4 = cover r3 - reserved m fdt"
    using mem_remove_rsv_cover[OF fdt_holds_header[OF assms(2)] w3 n(2)] n(1) by (simp_all add: reserved_def)
  note w5 = range_list.remove_inv[OF rsv(1) l] and c5 = range_list.remove_region[OF rsv(1) l]
  have "cover r5 = regs_cover (memory_regs pn ?ns) - mem_protected img m fdt - reserved m fdt - {b'..e - 1}"
    unfolding c5 rsv(2) c3 c2 c1 w(2) mem_protected_def i[THEN ptr_2_ra_eq] by (auto simp del: atLeastAtMost_iff)
  then show ?thesis using w5 s' ch by auto
qed

section \<open>The board\<close>

definition board_image :: image_t where
  "board_image = \<lparr>img_start = 0x8000000020000000, img_end = 0x8000000020100000, exc_base = 0x8000000020002000,
     exc_end = 0x8000000020004000\<rparr>"

lemma board_regs: "memory_regs board_names (dt_nodes 0 board) = [(0, 0x40000000)]"
proof -
  have "prop_val board_names (lit ''reg'') (dt_props board_memory) = Some [0, 0, 0, 0, 0, 0, 0, 0, 0, 0, 0, 0, 0x40, 0, 0, 0]"
    by (simp add: prop_val_def board_memory_def board_names_eqs) (simp add: lit_def)
  moreover have "reg_cells [0, 0, 0, 0, 0, 0, 0, 0, 0, 0, 0, 0, 0x40, 0, 0, 0] = (0, 0x40000000)"
    by (simp add: reg_cells_def fdt64_def load64_le_def load32_le_def be64_to_cpu_def swab64_def)
  moreover have "is_memory board_names board_memory" "\<not> is_memory board_names board" "\<not> is_memory board_names board_chosen"
    by (simp_all add: is_memory_def dt_strs_def board_vals strs_from_one lit_memory)
  ultimately show ?thesis by (simp add: memory_regs_def board_nodes)
qed

lemma board_reg_ok: "\<forall>(_, n) \<in> set (dt_nodes 0 board). reg_ok board_mem board_fdt board_names n"
proof -
  have "prop_val board_names (lit ''reg'') (dt_props board_memory) = Some [0, 0, 0, 0, 0, 0, 0, 0, 0, 0, 0, 0, 0x40, 0, 0, 0]"
    by (simp add: prop_val_def board_memory_def board_names_eqs) (simp add: lit_def)
  moreover have "\<not> is_memory board_names board" "\<not> is_memory board_names board_chosen"
    by (simp_all add: is_memory_def dt_strs_def board_vals)
  ultimately show ?thesis using board_ok by (simp add: board_nodes reg_ok_def)
qed

lemma neg32_0_1 [simp]: "\<not> neg32 0" "\<not> neg32 1"
  by (simp_all add: neg32_def word_le_nat_alt)

lemma fdt32_bytes: "bytes m p (length d) = d \<Longrightarrow> length d = 4 \<Longrightarrow> fdt32 m p = fdt32 (\<lambda>a. d ! unat a) 0"
proof -
  assume a: "bytes m p (length d) = d" "length d = 4"
  have "d ! i = m (p + of_nat i)" if "i < 4" for i using bytes_nth[of i 4 m p] a that by simp
  then show ?thesis by (simp add: fdt32_def load32_le_def)
qed

lemma board_chosen_path: "fdt_path_offset board_mem board_fdt (lit ''/chosen'') = Some 76"
proof -
  have p: "path_str [lit ''chosen''] = lit ''/chosen''" "path_ok [lit ''chosen'']"
    by (simp_all add: path_str_def path_ok_def lit_def)
  have "dt_path 0 board [lit ''chosen''] = Some 76"
    by (simp add: board_def board_memory_def board_chosen_def name_matches_def lit_def prop_toks_def tok_size_def pad4_def)
  then show ?thesis using path_offset_holds[OF board_holds p(2)] p(1) by (simp add: found_def)
qed

lemma board_initrd:
  "mem_initrd_prop board_mem board_fdt 76 ''linux,initrd-start'' = Inr 0x30000000"
  "mem_initrd_prop board_mem board_fdt 76 ''linux,initrd-end'' = Inr 0x30100000"
proof -
  have at: "node_at board 76 board_chosen"
    using dt_nodes_at[OF node_at.root, of 76 board_chosen board] by (simp add: board_nodes)
  have v: "prop_val board_names (lit ''linux,initrd-start'') (dt_props board_chosen) = Some [0x30, 0, 0, 0]"
    "prop_val board_names (lit ''linux,initrd-end'') (dt_props board_chosen) = Some [0x30, 0x10, 0, 0]"
    by (simp_all add: prop_val_def board_chosen_def board_names_eqs) (simp_all add: lit_def)
  have "mem_initrd_prop board_mem board_fdt 76 name = Inr (ucast (fdt32 (\<lambda>a. d ! unat a) 0))"
    if val: "prop_val board_names (lit name) (dt_props board_chosen) = Some d" and l: "length d = 4"
      "length (lit name) < 2 ^ 31" for name d
  proof -
    obtain p where "fdt_getprop board_mem board_fdt 76 (lit name) = Some (p, of_nat (length d))" "p \<noteq> 0"
      "bytes board_mem p (length d) = d"
      using getprop_holds[OF board_holds at board_prop_names(2) l(2)] val by fastforce
    with fdt32_bytes[OF this(3) l(1)] l(1) show ?thesis by (simp add: mem_initrd_prop_def returns_def)
  qed
  from this[OF v(1)] this[OF v(2)] show
    "mem_initrd_prop board_mem board_fdt 76 ''linux,initrd-start'' = Inr 0x30000000"
    "mem_initrd_prop board_mem board_fdt 76 ''linux,initrd-end'' = Inr 0x30100000"
    by (simp_all add: fdt32_def load32_le_def be32_to_cpu_def swab32_def)
qed

lemma board_rsv:
  "fdt_num_mem_rsv board_mem board_fdt = Some 1"
  "fdt_get_mem_rsv board_mem board_fdt 0 = (0, 0x38000000, 0x1000)"
proof -
  have e: "fdt64 board_mem 0x80000000280000e0 = 0x38000000" "fdt64 board_mem 0x80000000280000e8 = 0x1000"
    "fdt64 board_mem 0x80000000280000f8 = 0"
    by (simp_all add: fdt64_def load64_le_def load32_le_def be64_to_cpu_def swab64_def board_defs)
  have a: "fdt_mem_rsv board_mem board_fdt 0 = 0x80000000280000e0" "fdt_mem_rsv board_mem board_fdt 1 = 0x80000000280000f0"
    by (simp_all add: fdt_mem_rsv_def board_header) (simp_all add: board_fdt_def)
  show "fdt_num_mem_rsv board_mem board_fdt = Some 1"
    unfolding fdt_num_mem_rsv_def fdt_num_mem_rsv_loop.simps[of _ _ 0] fdt_num_mem_rsv_loop.simps[of _ _ "0 + 1"]
    by (simp add: a e)
  show "fdt_get_mem_rsv board_mem board_fdt 0 = (0, 0x38000000, 0x1000)"
    by (simp add: fdt_get_mem_rsv_def board_header a e)
qed

definition board_free :: ranges_t where
  "board_free = [\<lparr>r_base = 0x2000, r_limit = 0x1fffffff\<rparr>, \<lparr>r_base = 0x20100000, r_limit = 0x27ffffff\<rparr>,
     \<lparr>r_base = 0x28000084, r_limit = 0x2fffffff\<rparr>, \<lparr>r_base = 0x30100000, r_limit = 0x37ffffff\<rparr>,
     \<lparr>r_base = 0x38001000, r_limit = 0x3fffffff\<rparr>]"

lemma board_mem_init:
  "mem_init (\<lambda>_ _. True) board_image board_mem board_fdt s =
     Inr (ERR_NONE, s\<lparr>mem_free_ranges := board_free, mem_early := False\<rparr>)"
proof -
  have ok': "\<forall>(_, n) \<in> set (dt_nodes 0 board). strs_ok board_mem board_fdt board_names (lit ''device_type'') n"
    using board_reg_ok by (auto simp: reg_ok_def)
  have first: "fdt_node_offset_by_dtype board_mem board_fdt (- 1) (lit ''memory'') =
      Some (found (first_with board_names (lit ''device_type'') (lit ''memory'') (dt_nodes 0 board)))"
    using by_dtype_holds(1)[OF board_holds ok', of "lit ''memory''"] by (simp add: lit_memory)
  have nodes: "mem_add_nodes (\<lambda>_ _. True) board_mem board_fdt
      (found (first_with board_names (lit ''device_type'') (lit ''memory'') (dt_nodes 0 board))) range_init 0 0 ERR_NOT_FOUND =
    Some (Inr ([\<lparr>r_base = 0, r_limit = 0x3fffffff\<rparr>], 0, 0x40000000, ERR_NONE))"
    using mem_add_nodes_holds[OF board_holds board_reg_ok, of "[]" "dt_nodes 0 board"]
    by (simp add: board_regs range_add_def range_alloc_def range_init_def)
  have p: "ptr_2_ra 0x8000000020000000 = Inr 0x20000000" "ptr_2_ra 0x8000000020100000 = Inr 0x20100000"
    "ptr_2_ra board_fdt = Inr 0x28000000"
    by (simp_all add: ptr_2_ra_def ppc board_fdt_def)
  show ?thesis
    by (simp add: mem_init_def first nodes returns_def p board_image_def board_header board_rsv
        board_chosen_path board_initrd range_remove_def range_add_def range_alloc_def board_free_def)
qed

section \<open>Properties\<close>






end
