(* ===== verification/Guest_State.thy ===== *)
theory Guest_State
  imports Ppc_Defs
begin

text \<open>
  The guest's state, \<^verbatim>\<open>include/guest.h\<close> and \<^verbatim>\<open>include/rom.h\<close>. The global pointer \<^verbatim>\<open>guest\<close> is a value
  of type \<open>guest_t option\<close>, \<open>None\<close> for the null pointer; the magic page it points to holds the
  four SPRGs and is kept in the record.
\<close>

record rom_t =
  cif_trampoline :: u64
  claim_arena_start :: u64
  claim_arena_ptr :: u64
  claim_arena_end :: u64
  stack_start :: u64
  stack_end :: u64

record guest_t =
  g_sdr1 :: u32
  g_pvr :: u32
  g_msr :: u32
  g_srr0 :: u32
  g_srr1 :: u32
  g_ibat :: "u32 list"
  g_dbat :: "u32 list"
  g_sr :: "u32 list"
  g_hid0 :: u32
  g_ram_size :: length_t
  g_ram :: u64
  g_rom :: rom_t
  g_sprg :: "u32 list"

text \<open>The arrays of the struct have the lengths the declaration gives them.\<close>

definition guest_wf :: "guest_t \<Rightarrow> bool" where
  "guest_wf g \<longleftrightarrow>
     length (g_ibat g) = 8 \<and> length (g_dbat g) = 8 \<and> length (g_sr g) = SR_COUNT \<and>
     length (g_sprg g) = 4"

definition guest_is_mmu_off :: "guest_t option \<Rightarrow> bool outcome" where
  "guest_is_mmu_off guest =
     (case guest of None \<Rightarrow> Inl (Bug ''guest NULL'')
      | Some g \<Rightarrow>
          bug_on (drop_bit MSR_IR_LG (g_msr g) AND 1 \<noteq> drop_bit MSR_DR_LG (g_msr g) AND 1)
            ''inconsistent IR/DR''
            (Inr (drop_bit MSR_IR_LG (g_msr g) AND 1 = 0)))"

text \<open>In terms of bits: the guest's MMU is off when IR and DR are both clear.\<close>

definition ir_on :: "u32 \<Rightarrow> bool" where
  "ir_on m \<longleftrightarrow> bit m 5"

definition dr_on :: "u32 \<Rightarrow> bool" where
  "dr_on m \<longleftrightarrow> bit m 4"

lemma and_1_zero: "(x AND 1 = 0) \<longleftrightarrow> \<not> bit x 0" for x :: "'a::len word"
  by (simp add: and_one_eq bit_0 even_iff_mod_2_eq_zero[symmetric])

lemma and_1_eq: "(x AND 1 = y AND 1) \<longleftrightarrow> (bit x 0 \<longleftrightarrow> bit y 0)" for x y :: "'a::len word"
  by (simp add: and_one_eq bit_0 odd_iff_mod_2_eq_one mod2_eq_if)

lemma guest_is_mmu_off_eq:
  "guest_is_mmu_off (Some g) =
     (if ir_on (g_msr g) = dr_on (g_msr g) then Inr (\<not> ir_on (g_msr g))
      else Inl (Bug ''inconsistent IR/DR''))"
  by (simp add: guest_is_mmu_off_def ir_on_def dr_on_def and_1_eq and_1_zero bit_drop_bit_eq
      MSR_IR_LG_def MSR_DR_LG_def)

lemma guest_is_mmu_off_None [simp]: "guest_is_mmu_off None = Inl (Bug ''guest NULL'')"
  by (simp add: guest_is_mmu_off_def)

end
