(* ===== verification/Mmu.thy ===== *)
theory Mmu
  imports Guest_State Defs
begin

text \<open>
  SLB and hashed page table management: \<^verbatim>\<open>mmu.c\<close> and the two enumerations of \<^verbatim>\<open>include/mmu.h\<close>.
  The state \<open>mmu_t\<close> holds the file's globals (\<^verbatim>\<open>htab\<close>, \<^verbatim>\<open>ptegs\<close>, \<^verbatim>\<open>htab_size\<close>, \<^verbatim>\<open>htab_hash_mask\<close>),
  the memory of the page table (entry by entry, in the byte order it is stored in), and what the
  privileged instructions act on: the SLB, SDR1, the MSR and the sequence of TLB invalidations
  issued. \<^verbatim>\<open>slbia\<close>, \<^verbatim>\<open>slbie\<close>, \<^verbatim>\<open>slbmte\<close>, \<^verbatim>\<open>slbmfee\<close> and \<^verbatim>\<open>slbmfev\<close> act on the SLB as the Power ISA
  says; barriers have no effect on a single thread's view. The enumerations have only the two
  constructors, so the checks that a page size is one of the two always pass and are left out.
\<close>

section \<open>Definitions\<close>

datatype seg_size_t = SEG_256M | SEG_1T
datatype page_size_t = PAGE_4K | PAGE_16M

type_synonym vpn_t = u64
type_synonym prot_t = u64

definition VPN_SHIFT :: nat where [ppc]: "VPN_SHIFT = 12"
definition HV_VSID :: u64 where [ppc]: "HV_VSID = 0x876543210"
definition HV_SLOT :: u64 where [ppc]: "HV_SLOT = 0"
definition AIL_VSID :: u64 where [ppc]: "AIL_VSID = 0x876543210123"
definition AIL_SLOT :: u64 where [ppc]: "AIL_SLOT = 1"
definition GRM_VSID :: u64 where [ppc]: "GRM_VSID = 0x555555555"
definition GRM_SLOT :: u64 where [ppc]: "GRM_SLOT = 2"

definition SR_INDEX_TO_SLB_SLOT :: "u32 \<Rightarrow> u32" where
  "SR_INDEX_TO_SLB_SLOT x = x + 3"

text \<open>An SLB entry as the two dwords \<^verbatim>\<open>slbmfee\<close> and \<^verbatim>\<open>slbmfev\<close> read; a page table entry in memory.\<close>

record slb_entry =
  slb_esid :: u64
  slb_vsid :: u64

record pte_t =
  pte_v :: u64
  pte_r :: u64

datatype tlb_op = Tlbie u64 | Tlbiel u64

record mmu_t =
  slb :: "nat \<Rightarrow> slb_entry"
  htab :: u64
  htab_mem :: "nat \<Rightarrow> pte_t"
  ptegs :: count_t
  htab_size :: length_t
  htab_hash_mask :: u64
  sdr1 :: u64
  hv_msr :: u64
  tlb_ops :: "tlb_op list"

subsection \<open>The SLB instructions\<close>

definition slb_invalid :: slb_entry where
  "slb_invalid = \<lparr>slb_esid = 0, slb_vsid = 0\<rparr>"

text \<open>\<^verbatim>\<open>slbia\<close> invalidates every entry but entry 0.\<close>

definition slbia :: "mmu_t \<Rightarrow> mmu_t" where
  "slbia s = s\<lparr>slb := \<lambda>i. if i = 0 then slb s 0 else slb_invalid\<rparr>"

text \<open>\<^verbatim>\<open>slbmte vsid, esid\<close>: the low 12 bits of the second operand select the entry.\<close>

definition slbmte :: "u64 \<Rightarrow> u64 \<Rightarrow> mmu_t \<Rightarrow> mmu_t" where
  "slbmte vsid esid s =
     s\<lparr>slb := (slb s)(unat (esid AND mask 12) :=
         \<lparr>slb_esid = esid AND NOT (mask 12), slb_vsid = vsid\<rparr>)\<rparr>"

definition slbmfee :: "u64 \<Rightarrow> mmu_t \<Rightarrow> u64" where
  "slbmfee n s = slb_esid (slb s (unat (n AND mask 12)))"

definition slbmfev :: "u64 \<Rightarrow> mmu_t \<Rightarrow> u64" where
  "slbmfev n s = slb_vsid (slb s (unat (n AND mask 12)))"

definition slb_is_1T :: "slb_entry \<Rightarrow> bool" where
  "slb_is_1T e \<longleftrightarrow> slb_vsid e AND SLB_VSID_B_1T \<noteq> 0"

definition slb_is_valid :: "slb_entry \<Rightarrow> bool" where
  "slb_is_valid e \<longleftrightarrow> slb_esid e AND SLB_ESID_V \<noteq> 0"

text \<open>The entry translates \<open>ea\<close>: valid, and the ESID bits of its segment size agree.\<close>

definition slb_match :: "ea_t \<Rightarrow> slb_entry \<Rightarrow> bool" where
  "slb_match ea e \<longleftrightarrow>
     slb_is_valid e \<and>
     (slb_esid e XOR ea) AND (if slb_is_1T e then ESID_MASK_1T else ESID_MASK_256MB) = 0"

text \<open>\<^verbatim>\<open>slbie\<close> invalidates the entry that has the segment size and the ESID of its operand.\<close>

definition slbie :: "u64 \<Rightarrow> mmu_t \<Rightarrow> mmu_t" where
  "slbie v s =
     s\<lparr>slb := \<lambda>i. let e = slb s i in
        if slb_match v e \<and> (slb_is_1T e \<longleftrightarrow> v AND SLBIE_B_1T \<noteq> 0) then slb_invalid else e\<rparr>"

subsection \<open>Effective addresses\<close>

definition ea_2_seg_size :: "guest_t option \<Rightarrow> ea_t \<Rightarrow> seg_size_t outcome" where
  "ea_2_seg_size guest ea =
     (if ea \<ge> AIL_ASPACE_START \<and> ea \<le> AIL_ASPACE_END then Inr SEG_256M
      else if ea AND HV_ASPACE \<noteq> 0 then Inr SEG_1T
      else bug_on (ea \<ge> LAYOUT_VM_END) ''unknown EA''
        (bug_on (guest = None) ''VM EA access too early''
          (bindE (guest_is_mmu_off guest) (\<lambda>off. Inr (if off then SEG_1T else SEG_256M)))))"

definition ea_2_base_size :: "guest_t option \<Rightarrow> ea_t \<Rightarrow> page_size_t outcome" where
  "ea_2_base_size guest ea =
     (if ea \<ge> AIL_ASPACE_START \<and> ea \<le> AIL_ASPACE_END then Inr PAGE_4K
      else if ea \<ge> HV_ASPACE then Inr PAGE_16M
      else bug_on (ea \<ge> LAYOUT_VM_END) ''unknown EA''
        (bug_on (guest = None) ''VM EA access too early''
          (bindE (guest_is_mmu_off guest) (\<lambda>off. Inr (if off then PAGE_16M else PAGE_4K)))))"

definition sid_shift :: "seg_size_t \<Rightarrow> nat" where
  "sid_shift seg = (if seg = SEG_1T then SID_SHIFT_1T else SID_SHIFT_256MB)"

text \<open>
  The segment register is a 32-bit value and it is shifted as one: the bits that leave the word
  are lost before the result is widened.
\<close>

definition ea_2_vpn :: "guest_t option \<Rightarrow> ea_t \<Rightarrow> vpn_t outcome" where
  "ea_2_vpn guest ea =
     bindE (ea_2_seg_size guest ea) (\<lambda>seg.
     if ea \<ge> AIL_ASPACE_START \<and> ea \<le> AIL_ASPACE_END then
       Inr (drop_bit VPN_SHIFT (ea - AIL_ASPACE_START) OR
            push_bit (sid_shift seg - VPN_SHIFT) AIL_VSID)
     else if ea AND HV_ASPACE \<noteq> 0 then
       Inr (drop_bit VPN_SHIFT (ea AND NOT HV_ASPACE) OR
            push_bit (sid_shift seg - VPN_SHIFT) HV_VSID)
     else bug_on (ea \<ge> LAYOUT_VM_END) ''unexpected EA''
       (case guest of None \<Rightarrow> Inl (Bug ''VM EA access too early'')
        | Some g \<Rightarrow>
            bindE (guest_is_mmu_off guest) (\<lambda>off.
            if off then
              Inr (drop_bit VPN_SHIFT (ea - LAYOUT_VM_START) OR
                   push_bit (sid_shift seg - VPN_SHIFT) GRM_VSID)
            else
              Inr (drop_bit VPN_SHIFT (ea - LAYOUT_VM_START) OR
                   ucast (push_bit (sid_shift seg - VPN_SHIFT)
                            (g_sr g ! unat (SR_INDEX ea)) :: u32)))))"

subsection \<open>Segments\<close>

definition slb_make_esid :: "ea_t \<Rightarrow> seg_size_t \<Rightarrow> u64 \<Rightarrow> u64" where
  "slb_make_esid ea seg slot =
     (if seg = SEG_1T then (ea AND ESID_MASK_1T) OR SLB_ESID_V OR slot
      else (ea AND ESID_MASK_256MB) OR SLB_ESID_V OR slot)"

definition slb_make_vsid :: "u64 \<Rightarrow> seg_size_t \<Rightarrow> page_size_t \<Rightarrow> u64" where
  "slb_make_vsid vsid seg base =
     (let v = SLB_VSID_KP;
          v = v OR (if seg = SEG_1T then push_bit SLB_VSID_SHIFT_1T vsid OR SLB_VSID_B_1T
                    else push_bit SLB_VSID_SHIFT_256MB vsid);
          v' = (if base = PAGE_16M then v OR SLB_VSID_L else v);
          lp = (if base = PAGE_16M then SLB_VSID_LP_16M else SLB_VSID_LP_4K)
      in v' OR push_bit SLB_VSID_LP_SHIFT lp)"

text \<open>\<^verbatim>\<open>slb_dump\<close> logs the entries that do not read as 0; here it returns what it logs.\<close>

definition slb_dump :: "nat \<Rightarrow> mmu_t \<Rightarrow> (nat \<times> u64 \<times> u64) list" where
  "slb_dump slb_size s =
     concat (map (\<lambda>i. if slbmfee (of_nat i) s = 0 then []
                      else [(i, slbmfee (of_nat i) s, slbmfev (of_nat i) s)]) [0..<slb_size])"

definition slb_init :: "mmu_t \<Rightarrow> mmu_t" where
  "slb_init s =
     (let s = slbia s;
          s = slbmte (slb_make_vsid HV_VSID SEG_1T PAGE_16M)
                     (slb_make_esid HV_ASPACE SEG_1T HV_SLOT) s
      in slbmte (slb_make_vsid AIL_VSID SEG_256M PAGE_4K)
                (slb_make_esid AIL_ASPACE_START SEG_256M AIL_SLOT) s)"

definition slb_invalidate :: "ea_t \<Rightarrow> seg_size_t \<Rightarrow> mmu_t \<Rightarrow> mmu_t" where
  "slb_invalidate ea seg s =
     (if seg = SEG_1T then slbie (SLBIE_B_1T OR (ea AND ESID_MASK_1T)) s
      else slbie (ea AND ESID_MASK_256MB) s)"

text \<open>\<^verbatim>\<open>sr_index\<close> is an \<^verbatim>\<open>unsigned\<close>: the 36 bits of \<open>SR_INDEX ea\<close> are cut to 32.\<close>

definition mmu_guest_fault_seg :: "guest_t option \<Rightarrow> ea_t \<Rightarrow> mmu_t \<Rightarrow> (err_t \<times> mmu_t) outcome" where
  "mmu_guest_fault_seg guest ea s =
     (let sr_index = ucast (SR_INDEX ea) :: u32;
          slb_slot = SR_INDEX_TO_SLB_SLOT sr_index
      in bug_on (unat sr_index \<ge> SR_COUNT) ''invalid SR index''
        (if slbmfee (ucast slb_slot) s AND SLB_ESID_V \<noteq> 0 then Inr (ERR_UNSUPPORTED, s)
         else bindE (guest_is_mmu_off guest) (\<lambda>off.
           bug_on off ''SLB miss should only happen with guest MMU off''
             (case guest of None \<Rightarrow> Inl (Bug ''guest NULL'')
              | Some g \<Rightarrow>
                  Inr (ERR_NONE,
                       slbmte (slb_make_vsid (ucast (g_sr g ! unat sr_index AND SR_VSID_MASK))
                                 SEG_256M PAGE_4K)
                              (slb_make_esid ea SEG_256M (ucast slb_slot)) s)))))"

definition mmu_guest_update :: "bool \<Rightarrow> mmu_t \<Rightarrow> mmu_t" where
  "mmu_guest_update mmu_turning_on s =
     (if mmu_turning_on then slb_invalidate LAYOUT_VM_START SEG_1T s
      else slbmte (slb_make_vsid GRM_VSID SEG_1T PAGE_16M)
                  (slb_make_esid LAYOUT_VM_START SEG_1T GRM_SLOT)
             (fold (\<lambda>i. slb_invalidate (SR_INDEX_TO_EA (of_nat i)) SEG_256M) [0..<SR_COUNT] s))"

subsection \<open>Hashing and encoding\<close>

definition pteg_count :: "u64 \<Rightarrow> u64" where
  "pteg_count ram_size =
     (let ptegs = drop_bit (PAGE_SHIFT + 1) ram_size;
          ptegs = max ptegs MIN_PTEGS
      in min ptegs MAX_PTEGS)"

definition page_shift :: "page_size_t \<Rightarrow> nat" where
  "page_shift p = (if p = PAGE_4K then PAGE_SHIFT else PAGE_SHIFT_16M)"

definition page_size :: "page_size_t \<Rightarrow> length_t" where
  "page_size p = (if p = PAGE_16M then PAGE_SIZE_16M else PAGE_SIZE)"

definition vpn_hash :: "vpn_t \<Rightarrow> seg_size_t \<Rightarrow> page_size_t \<Rightarrow> u64" where
  "vpn_hash vpn seg base =
     (let seg_shift = sid_shift seg;
          shift = page_shift base;
          m = push_bit (seg_shift - VPN_SHIFT) 1 - 1;
          vsid = drop_bit (seg_shift - VPN_SHIFT) vpn;
          hash = (vsid XOR push_bit 25 vsid) XOR drop_bit (shift - VPN_SHIFT) (vpn AND m)
      in hash AND 0x7fffffffff)"

definition rpn_encode :: "ra_t \<Rightarrow> page_size_t \<Rightarrow> page_size_t \<Rightarrow> u64 outcome" where
  "rpn_encode ra base actual =
     (let lp = (if actual = PAGE_16M then
                  (if base = PAGE_4K then PTE_R_LP_4K_16M else PTE_R_LP_16M_16M)
                else PTE_R_LP_4K_4K);
          m = (if actual = PAGE_16M then PTE_R_RPN_16M else PTE_R_RPN_4K)
      in bug_on (ra AND m \<noteq> ra) ''RA does not match mask''
           (Inr ((ra AND m) OR push_bit PTE_R_LP_SHIFT lp)))"

definition avpn_encode :: "vpn_t \<Rightarrow> page_size_t \<Rightarrow> page_size_t \<Rightarrow> u64" where
  "avpn_encode vpn base actual =
     (let v = drop_bit (23 - VPN_SHIFT) vpn;
          v = (if base = PAGE_16M then v AND NOT 1 else v)
      in push_bit PTE_V_AVPN_SHIFT v)"

subsection \<open>TLB invalidation\<close>

definition tlbia :: "mmu_t \<Rightarrow> mmu_t" where
  "tlbia s = s\<lparr>tlb_ops := tlb_ops s @
     map (\<lambda>set. Tlbiel (push_bit TLBIEL_SET_SHIFT (of_nat set) OR
                        push_bit TLBIEL_IS_SHIFT TLBIEL_IS_ALL_IN_SET)) [0..<TLBIEL_MAX_SETS]\<rparr>"

definition tlbie_rb :: "vpn_t \<Rightarrow> seg_size_t \<Rightarrow> page_size_t \<Rightarrow> page_size_t \<Rightarrow> u64" where
  "tlbie_rb vpn seg base actual =
     (let va = push_bit VPN_SHIFT vpn;
          shift = page_shift actual;
          va = va AND NOT (push_bit shift 1 - 1);
          va = (if seg = SEG_1T then va OR TLBIE_RB_1TB else va)
      in if actual = PAGE_16M then
           (if base = PAGE_4K then
              va OR (TLBIE_RB_L OR push_bit TLBIE_RB_AP_SHIFT TLBIE_RB_AP_4K_16M)
            else (va OR push_bit TLBIE_RB_LP_SHIFT TLBIE_RB_LP_16M_16M) OR (vpn AND 0xfe))
         else va)"

definition tlbie :: "vpn_t \<Rightarrow> seg_size_t \<Rightarrow> page_size_t \<Rightarrow> page_size_t \<Rightarrow> mmu_t \<Rightarrow> mmu_t" where
  "tlbie vpn seg base actual s = s\<lparr>tlb_ops := tlb_ops s @ [Tlbie (tlbie_rb vpn seg base actual)]\<rparr>"

subsection \<open>The hashed page table\<close>

text \<open>Index of the first entry of the group a page hashes to.\<close>

definition pteg_index :: "mmu_t \<Rightarrow> vpn_t \<Rightarrow> seg_size_t \<Rightarrow> page_size_t \<Rightarrow> nat" where
  "pteg_index s vpn seg base =
     unat ((vpn_hash vpn seg base AND htab_hash_mask s) * of_nat PTES_PER_GROUP)"

text \<open>The two searches over a group: \<open>None\<close> when the loop counter reaches \<^verbatim>\<open>PTES_PER_GROUP\<close>.\<close>

definition pte_valid :: "pte_t \<Rightarrow> bool" where
  "pte_valid p \<longleftrightarrow> be64_to_cpu (pte_v p) AND PTE_V_VALID \<noteq> 0"

definition pte_matches :: "u64 \<Rightarrow> pte_t \<Rightarrow> bool" where
  "pte_matches avpn p \<longleftrightarrow> pte_valid p \<and> PTE_V_COMPARE (be64_to_cpu (pte_v p)) avpn"

definition pteg_find :: "mmu_t \<Rightarrow> nat \<Rightarrow> u64 \<Rightarrow> nat option" where
  "pteg_find s g avpn =
     find (\<lambda>k. pte_matches avpn (htab_mem s k)) [g..<g + PTES_PER_GROUP]"

definition pteg_free :: "mmu_t \<Rightarrow> nat \<Rightarrow> nat option" where
  "pteg_free s g = find (\<lambda>k. \<not> pte_valid (htab_mem s k)) [g..<g + PTES_PER_GROUP]"

text \<open>
  The loops of \<^verbatim>\<open>mmu_unmap_vpn\<close> and \<^verbatim>\<open>mmu_map_vpn\<close> run once per base page of the actual page;
  the first argument is the number of base pages left (\<^verbatim>\<open>actual_size / base_size\<close>).
\<close>

fun mmu_unmap_loop ::
  "nat \<Rightarrow> vpn_t \<Rightarrow> seg_size_t \<Rightarrow> page_size_t \<Rightarrow> page_size_t \<Rightarrow> mmu_t \<Rightarrow> int \<times> mmu_t"
where
  "mmu_unmap_loop 0 vpn seg base actual s = (0, s)"
| "mmu_unmap_loop (Suc n) vpn seg base actual s =
     (case pteg_find s (pteg_index s vpn seg base) (avpn_encode vpn base actual) of
        None \<Rightarrow> (-1, s)
      | Some k \<Rightarrow>
          let s = s\<lparr>htab_mem := (htab_mem s)(k := (htab_mem s k)\<lparr>pte_v := be64_to_cpu 0\<rparr>)\<rparr>;
              s = tlbie vpn seg base actual s
          in mmu_unmap_loop n (vpn + drop_bit VPN_SHIFT (page_size base)) seg base actual s)"

definition mmu_unmap_vpn ::
  "vpn_t \<Rightarrow> seg_size_t \<Rightarrow> page_size_t \<Rightarrow> page_size_t \<Rightarrow> mmu_t \<Rightarrow> (int \<times> mmu_t) outcome"
where
  "mmu_unmap_vpn vpn seg base actual s =
     bug_on (page_size actual < page_size base) ''actual size cannot be less than base''
       (Inr (mmu_unmap_loop (unat (page_size actual div page_size base)) vpn seg base actual s))"

definition mmu_unmap :: "guest_t option \<Rightarrow> ea_t \<Rightarrow> page_size_t \<Rightarrow> mmu_t \<Rightarrow> mmu_t outcome" where
  "mmu_unmap guest ea actual s =
     bug_on (ea AND NOT (page_size actual - 1) \<noteq> ea) ''ea not aligned''
       (bindE (ea_2_vpn guest ea) (\<lambda>vpn.
        bindE (ea_2_seg_size guest ea) (\<lambda>seg.
        bindE (ea_2_base_size guest ea) (\<lambda>base.
        bindE (mmu_unmap_vpn vpn seg base actual s) (\<lambda>(ret, s).
        bug_on (ret \<noteq> 0) ''EA not mapped'' (Inr s))))))"

definition pte_vflags :: "seg_size_t \<Rightarrow> page_size_t \<Rightarrow> u64" where
  "pte_vflags seg actual =
     (PTE_R_M OR PTE_V_VALID OR (if actual \<noteq> PAGE_4K then PTE_V_LARGE else 0)) OR
     (if seg = SEG_1T then PTE_V_1TB_SEG else 0)"

fun mmu_map_loop ::
  "nat \<Rightarrow> vpn_t \<Rightarrow> ra_t \<Rightarrow> prot_t \<Rightarrow> seg_size_t \<Rightarrow> page_size_t \<Rightarrow> page_size_t \<Rightarrow> mmu_t \<Rightarrow>
   (int \<times> mmu_t) outcome"
where
  "mmu_map_loop 0 vpn ra pp seg base actual s = Inr (0, s)"
| "mmu_map_loop (Suc n) vpn ra pp seg base actual s =
     (case pteg_free s (pteg_index s vpn seg base) of
        None \<Rightarrow> Inr (-1, s)
      | Some k \<Rightarrow>
          bindE (rpn_encode ra base actual) (\<lambda>rpn.
          let v = avpn_encode vpn base actual OR pte_vflags seg actual;
              r = rpn OR (pp OR PTE_R_M);
              s = s\<lparr>htab_mem := (htab_mem s)(k := \<lparr>pte_v = cpu_to_be64 v, pte_r = cpu_to_be64 r\<rparr>)\<rparr>
          in mmu_map_loop n (vpn + drop_bit VPN_SHIFT (page_size base)) ra pp seg base actual s))"

definition mmu_map_vpn ::
  "vpn_t \<Rightarrow> ra_t \<Rightarrow> prot_t \<Rightarrow> seg_size_t \<Rightarrow> page_size_t \<Rightarrow> page_size_t \<Rightarrow> mmu_t \<Rightarrow> (int \<times> mmu_t) outcome"
where
  "mmu_map_vpn vpn ra pp seg base actual s =
     bug_on (page_size actual < page_size base) ''actual size cannot be less than base''
       (bug_on (ra AND NOT (page_size actual - 1) \<noteq> ra) ''RA not aligned''
         (mmu_map_loop (unat (page_size actual div page_size base)) vpn ra pp seg base actual s))"

definition mmu_map ::
  "guest_t option \<Rightarrow> ea_t \<Rightarrow> ra_t \<Rightarrow> prot_t \<Rightarrow> page_size_t \<Rightarrow> mmu_t \<Rightarrow> mmu_t outcome"
where
  "mmu_map guest ea ra pp actual s =
     bug_on (ea AND NOT (page_size actual - 1) \<noteq> ea) ''EA not aligned''
       (bindE (ea_2_vpn guest ea) (\<lambda>vpn.
        bindE (ea_2_seg_size guest ea) (\<lambda>seg.
        bindE (ea_2_base_size guest ea) (\<lambda>base.
        bindE (mmu_map_vpn vpn ra pp seg base actual s) (\<lambda>(ret, s).
        bug_on (ret \<noteq> 0) ''PTEG spill for EA'' (Inr s))))))"

text \<open>
  The loop of \<^verbatim>\<open>mmu_map_range\<close>, with a bound on its iterations: running out of it is a \<open>Hang\<close>,
  and \<open>mmu_map_range_loop_eq\<close> below shows that the bound is never reached.
\<close>

fun mmu_map_range_loop ::
  "nat \<Rightarrow> guest_t option \<Rightarrow> ea_t \<Rightarrow> ea_t \<Rightarrow> ra_t \<Rightarrow> prot_t \<Rightarrow> page_size_t \<Rightarrow> mmu_t \<Rightarrow> mmu_t outcome"
where
  "mmu_map_range_loop 0 guest addr ea_end ra prot actual s =
     (if addr < ea_end then Inl (Hang ''mmu_map_range'') else Inr s)"
| "mmu_map_range_loop (Suc n) guest addr ea_end ra prot actual s =
     (if addr < ea_end then
        bindE (mmu_map guest addr ra prot actual s) (\<lambda>s.
        mmu_map_range_loop n guest (addr + page_size actual) ea_end (ra + page_size actual)
          prot actual s)
      else Inr s)"

definition mmu_map_range ::
  "guest_t option \<Rightarrow> ea_t \<Rightarrow> ea_t \<Rightarrow> ra_t \<Rightarrow> prot_t \<Rightarrow> page_size_t \<Rightarrow> mmu_t \<Rightarrow> mmu_t outcome"
where
  "mmu_map_range guest ea_start ea_end ra_start prot actual s =
     bug_on ((ea_end - ea_start) mod page_size actual \<noteq> 0) ''range not aligned''
       (mmu_map_range_loop (unat ((ea_end - ea_start) div page_size actual))
          guest ea_start ea_end ra_start prot actual s)"

subsection \<open>Initialisation\<close>

definition mmu_enable :: "mmu_t \<Rightarrow> mmu_t" where
  "mmu_enable s = s\<lparr>hv_msr := hv_msr s OR MSR_IR OR MSR_DR\<rparr>"

definition mmu_disable :: "mmu_t \<Rightarrow> mmu_t" where
  "mmu_disable s = s\<lparr>hv_msr := hv_msr s AND NOT (MSR_IR OR MSR_DR)\<rparr>"

definition mmu_enabled :: "mmu_t \<Rightarrow> bool" where
  "mmu_enabled s \<longleftrightarrow> hv_msr s AND (MSR_IR OR MSR_DR) = MSR_IR OR MSR_DR"

text \<open>\<^verbatim>\<open>memset(htab, 0, htab_size)\<close> clears the entries of the table.\<close>

definition htab_clear :: "length_t \<Rightarrow> (nat \<Rightarrow> pte_t) \<Rightarrow> nat \<Rightarrow> pte_t" where
  "htab_clear sz m = (\<lambda>i. if i < unat sz div 16 then \<lparr>pte_v = 0, pte_r = 0\<rparr> else m i)"

text \<open>
  The address \<^verbatim>\<open>mem_memalign\<close> returns for the table and the linker's \<^verbatim>\<open>_start\<close> and \<^verbatim>\<open>_end\<close> are
  arguments.
\<close>

definition mmu_init ::
  "(u64 \<Rightarrow> u64 \<Rightarrow> u64) \<Rightarrow> u64 \<Rightarrow> u64 \<Rightarrow> guest_t option \<Rightarrow> length_t \<Rightarrow> mmu_t \<Rightarrow> mmu_t outcome"
where
  "mmu_init memalign image_start image_end guest ram_size s =
     (let n = pteg_count ram_size;
          sz = n * PTEG_SIZE;
          ht = memalign HTAB_ALIGN sz;
          s = s\<lparr>ptegs := n, htab_size := sz, htab_hash_mask := n - 1, htab := ht,
                htab_mem := htab_clear sz (htab_mem s)\<rparr>
      in bindE (ptr_2_ra ht) (\<lambda>htab_ra.
         bug_on (htab_ra AND SDR1_MASK \<noteq> htab_ra) ''HTAB address spills outside SDR1''
        (let s = s\<lparr>sdr1 := htab_ra + word_of_int (ilog2 n) - 11\<rparr>;
             s = slb_init s;
             s = tlbia s
         in bindE (mmu_map_range guest (ht AND PAGE_MASK_16M) (ALIGN_UP (ht + sz) (MB 16))
                     (htab_ra AND PAGE_MASK_16M) PP_RWXX PAGE_16M s) (\<lambda>s.
            bindE (ptr_2_ra image_start) (\<lambda>start_ra.
            bindE (mmu_map_range guest (image_start AND PAGE_MASK_16M)
                     (ALIGN_UP image_end (MB 16)) (start_ra AND PAGE_MASK_16M) PP_RWXX PAGE_16M s) (\<lambda>s.
            bindE (mmu_map_range guest AIL_VECTORS AIL_ASPACE_END 0 PP_RWXX PAGE_4K s) (\<lambda>s.
            Inr (mmu_enable s))))))))"

end
