(* ===== verification/Time.thy ===== *)
theory Time
  imports Ppc_Defs
begin

text \<open>
  Timers: \<^verbatim>\<open>time.c\<close> and \<^verbatim>\<open>include/time.h\<close>, with the interrupt-enable operations of \<^verbatim>\<open>exc.c\<close> they use
  and the one timer of \<^verbatim>\<open>main.c\<close>. A timer request is known by its address; the list \<^verbatim>\<open>reqs\<close> is the
  list of the addresses in link order (0 stands for the list head where an iteration reaches it),
  the fields of the requests are functions of the address. The values \<^verbatim>\<open>mftb\<close> returns are an input:
  the list \<open>tb\<close> of the readings to come. A run that asks for more readings than there are ends as
  \<open>Hang\<close>, the model's word for a loop that is still running when the observation ends.
\<close>

section \<open>Definitions\<close>

record time_state =
  reqs :: "u64 list"
  t_when :: "u64 \<Rightarrow> u64"
  t_cb :: "u64 \<Rightarrow> u64"
  t_ctx :: "u64 \<Rightarrow> u64"
  t_name :: "u64 \<Rightarrow> u64"
  dec :: u64
  tb_freq :: u64
  tb :: "u64 list"

type_synonym time_cb = "u64 \<Rightarrow> time_state \<Rightarrow> (bool \<times> time_state) outcome"

definition mftb :: "time_state \<Rightarrow> (u64 \<times> time_state) outcome" where
  "mftb s = (case tb s of [] \<Rightarrow> Inl (Hang ''mftb'') | r # rs \<Rightarrow> Inr (r, s\<lparr>tb := rs\<rparr>))"

subsection \<open>Interrupt enable\<close>

text \<open>\<^verbatim>\<open>mtmsrd\<close> with L = 1 writes the EE and RI bits of the MSR and no other.\<close>

definition mtmsrd_1 :: "u64 \<Rightarrow> u64 \<Rightarrow> u64" where
  "mtmsrd_1 v msr = (msr AND NOT (MSR_EE OR MSR_RI)) OR (v AND (MSR_EE OR MSR_RI))"

definition exc_restore_ee :: "u64 \<Rightarrow> u64 \<Rightarrow> u64" where
  "exc_restore_ee flags msr = mtmsrd_1 (msr OR (flags AND MSR_EE)) msr"

definition exc_disable_ee :: "u64 \<Rightarrow> u64 \<times> u64" where
  "exc_disable_ee msr = (msr AND MSR_EE, mtmsrd_1 (msr AND NOT MSR_EE) msr)"

definition exc_enable_ee :: "u64 \<Rightarrow> u64" where
  "exc_enable_ee msr = mtmsrd_1 (msr OR MSR_EE) msr"

subsection \<open>The queue\<close>

fun time_enqueue_pos :: "(u64 \<Rightarrow> u64) \<Rightarrow> u64 \<Rightarrow> u64 list \<Rightarrow> u64 list" where
  "time_enqueue_pos when t [] = [t]"
| "time_enqueue_pos when t (pos # ps) =
     (if pos = t then pos # ps
      else if when pos > when t then t # pos # ps
      else pos # time_enqueue_pos when t ps)"

definition time_enqueue_int :: "u64 \<Rightarrow> time_state \<Rightarrow> time_state" where
  "time_enqueue_int t s = s\<lparr>reqs := time_enqueue_pos (t_when s) t (reqs s)\<rparr>"

text \<open>The entry after \<open>x\<close> in the list, 0 for the head; the head's successor is the first entry.\<close>

fun next_in :: "u64 list \<Rightarrow> u64 \<Rightarrow> u64" where
  "next_in [] x = 0"
| "next_in (y # ys) x = (if x = y then (case ys of [] \<Rightarrow> 0 | z # _ \<Rightarrow> z) else next_in ys x)"

definition list_next :: "u64 list \<Rightarrow> u64 \<Rightarrow> u64" where
  "list_next q x = (if x = 0 then (case q of [] \<Rightarrow> 0 | z # _ \<Rightarrow> z) else next_in q x)"

definition list_remove :: "u64 \<Rightarrow> u64 list \<Rightarrow> u64 list" where
  "list_remove x q = remove1 x q"

text \<open>
  The loop of \<^verbatim>\<open>time_handle\<close>, on \<open>t\<close>, the saved \<open>n\<close> and \<open>now\<close>; it returns the \<open>t\<close> it ends with
  (0 for the list head) and the last reading. \<open>run\<close> calls a callback through its pointer. Each
  round takes a reading, so the number of readings bounds the rounds; the callback may take some
  too, hence the separate counter.
\<close>

fun time_handle_loop ::
  "nat \<Rightarrow> (u64 \<Rightarrow> time_cb) \<Rightarrow> u64 \<Rightarrow> u64 \<Rightarrow> u64 \<Rightarrow> time_state \<Rightarrow> (u64 \<times> u64 \<times> time_state) outcome"
where
  "time_handle_loop 0 run t n now s =
     (if t = 0 then Inr (t, now, s) else Inl (Hang ''time_handle''))"
| "time_handle_loop (Suc k) run t n now s =
     (if t = 0 then Inr (t, now, s)
      else bindE (mftb s) (\<lambda>(now, s).
        if t_when s t \<le> now then
          bindE (run (t_cb s t) t (s\<lparr>reqs := list_remove t (reqs s)\<rparr>)) (\<lambda>(again, s).
          if again then
            bug_on (t_when s t \<le> now) ''enqueuing stale timer''
             (let s = time_enqueue_int t s
              in if n \<noteq> 0 then
                   let n = (if t_when s t < t_when s n then t else n)
                   in time_handle_loop k run n (list_next (reqs s) n) now s
                 else Inr (t, now, s))
          else time_handle_loop k run n (list_next (reqs s) n) now s)
        else Inr (t, now, s)))"

definition time_handle :: "(u64 \<Rightarrow> time_cb) \<Rightarrow> time_state \<Rightarrow> time_state outcome" where
  "time_handle run s =
     bindE (mftb s) (\<lambda>(now, s).
     bindE (let t = list_next (reqs s) 0
            in time_handle_loop (Suc (length (tb s))) run t (list_next (reqs s) t) now s) (\<lambda>(t, now, s).
     let d = (if t \<noteq> 0 \<and> t_when s t - now < DEC_DISABLE then t_when s t - now else DEC_DISABLE)
     in Inr (s\<lparr>dec := d\<rparr>)))"

definition time_prep :: "u64 \<Rightarrow> u64 \<Rightarrow> u64 \<Rightarrow> u64 \<Rightarrow> u64 \<Rightarrow> time_state \<Rightarrow> time_state" where
  "time_prep when cb n ctx t s =
     s\<lparr>t_when := (t_when s)(t := when), t_cb := (t_cb s)(t := cb), t_ctx := (t_ctx s)(t := ctx),
       t_name := (t_name s)(t := n)\<rparr>"

definition time_enqueue ::
  "(u64 \<Rightarrow> time_cb) \<Rightarrow> u64 \<Rightarrow> u64 \<Rightarrow> time_state \<Rightarrow> (u64 \<times> time_state) outcome"
where
  "time_enqueue run t msr s =
     (let (f, msr) = exc_disable_ee msr;
          s = time_enqueue_int t s;
          msr = exc_restore_ee f msr
      in bindE (time_handle run s) (\<lambda>s. Inr (msr, s)))"

definition time_dequeue :: "u64 \<Rightarrow> u64 \<Rightarrow> time_state \<Rightarrow> u64 \<times> time_state" where
  "time_dequeue t msr s =
     (let (f, msr) = exc_disable_ee msr;
          s = (if t \<in> set (reqs s) then s\<lparr>reqs := list_remove t (reqs s)\<rparr> else s)
      in (exc_restore_ee f msr, s))"

fun time_delay_loop :: "u64 list \<Rightarrow> u64 \<Rightarrow> u64 \<Rightarrow> (u64 list) outcome" where
  "time_delay_loop [] now delay = Inl (Hang ''time_delay'')"
| "time_delay_loop (r # rs) now delay =
     (if r - now < delay then time_delay_loop rs now delay else Inr rs)"

definition time_delay :: "u64 \<Rightarrow> time_state \<Rightarrow> time_state outcome" where
  "time_delay delay s =
     bindE (mftb s) (\<lambda>(now, s).
     bindE (time_delay_loop (tb s) now delay) (\<lambda>rs. Inr (s\<lparr>tb := rs\<rparr>)))"

definition time_init :: "time_state \<Rightarrow> time_state" where
  "time_init s = s\<lparr>reqs := []\<rparr>"

subsection \<open>Units\<close>

definition secs_to_tb :: "u64 \<Rightarrow> time_state \<Rightarrow> u64" where
  "secs_to_tb secs s = secs * tb_freq s"

definition ms_to_tb :: "u64 \<Rightarrow> time_state \<Rightarrow> u64" where
  "ms_to_tb ms s = ms * (tb_freq s div 1000)"

definition tb_to_secs :: "u64 \<Rightarrow> time_state \<Rightarrow> u64" where
  "tb_to_secs t s = t div tb_freq s"

definition tb_to_ms :: "u64 \<Rightarrow> time_state \<Rightarrow> u64" where
  "tb_to_ms t s = t div (tb_freq s div 1000)"

definition time_prep_s :: "u64 \<Rightarrow> u64 \<Rightarrow> u64 \<Rightarrow> u64 \<Rightarrow> u64 \<Rightarrow> time_state \<Rightarrow> time_state outcome" where
  "time_prep_s secs cb n ctx t s =
     bindE (mftb s) (\<lambda>(r, s). Inr (time_prep (secs_to_tb secs s + r) cb n ctx t s))"

definition time_prep_ms :: "u64 \<Rightarrow> u64 \<Rightarrow> u64 \<Rightarrow> u64 \<Rightarrow> u64 \<Rightarrow> time_state \<Rightarrow> time_state outcome" where
  "time_prep_ms ms cb n ctx t s =
     bindE (mftb s) (\<lambda>(r, s). Inr (time_prep (ms_to_tb ms s + r) cb n ctx t s))"

subsection \<open>The timer of \<^verbatim>\<open>main.c\<close>\<close>

text \<open>\<^verbatim>\<open>opal_poll_events\<close> is firmware and changes nothing modelled here.\<close>

definition opal_timer_cb :: time_cb where
  "opal_timer_cb t s =
     bindE (mftb s) (\<lambda>(r, s).
     Inr (True, s\<lparr>t_when := (t_when s)(t := ms_to_tb (t_ctx s t) s + r)\<rparr>))"

section \<open>The queue stays in order\<close>

definition tq_inv :: "time_state \<Rightarrow> bool" where
  "tq_inv s \<longleftrightarrow> 0 \<notin> set (reqs s) \<and> distinct (reqs s) \<and> sorted_wrt (\<lambda>a b. t_when s a \<le> t_when s b) (reqs s)"

lemma time_enqueue_pos_set: "set (time_enqueue_pos w t q) = insert t (set q)"
  by (induction q) auto

lemma time_enqueue_pos_distinct:
  "distinct q \<Longrightarrow> sorted_wrt (\<lambda>a b. w a \<le> w b) q \<Longrightarrow> distinct (time_enqueue_pos w t q)"
  by (induction q) (auto simp: time_enqueue_pos_set leD)

lemma time_enqueue_pos_sorted:
  "sorted_wrt (\<lambda>a b. w a \<le> w b) q \<Longrightarrow> sorted_wrt (\<lambda>a b. w a \<le> w b) (time_enqueue_pos w t q)"
proof (induction q)
  case (Cons p q)
  then show ?case by (auto simp: time_enqueue_pos_set dest: order.strict_implies_order order.trans)
qed simp

text \<open>A timer that is in the queue already keeps its place.\<close>

lemma time_enqueue_pos_present:
  "sorted_wrt (\<lambda>a b. w a \<le> w b) q \<Longrightarrow> t \<in> set q \<Longrightarrow> time_enqueue_pos w t q = q"
  by (induction q) (auto simp: leD)

text \<open>A new timer goes behind those that are due no later.\<close>

lemma time_enqueue_pos_split:
  "sorted_wrt (\<lambda>a b. w a \<le> w b) q \<Longrightarrow> t \<notin> set q \<Longrightarrow>
   time_enqueue_pos w t q = filter (\<lambda>p. w p \<le> w t) q @ t # filter (\<lambda>p. w t < w p) q"
proof (induction q)
  case (Cons p q)
  show ?case
  proof (cases "w t < w p")
    case True
    then have "\<forall>x \<in> set q. w t < w x" using Cons.prems(1) by auto
    then have "filter (\<lambda>x. w x \<le> w t) q = []" "filter (\<lambda>x. w t < w x) q = q"
      by (auto simp: filter_empty_conv leD)
    then show ?thesis using True Cons.prems by (auto simp: not_le)
  next
    case False
    then show ?thesis using Cons by (auto simp: not_less)
  qed
qed simp

lemma tq_inv_enqueue: "tq_inv s \<Longrightarrow> t \<noteq> 0 \<Longrightarrow> tq_inv (time_enqueue_int t s)"
  by (simp add: tq_inv_def time_enqueue_int_def time_enqueue_pos_set time_enqueue_pos_distinct time_enqueue_pos_sorted)

lemma mftb_Inr: "mftb s = Inr (r, s') \<longleftrightarrow> (\<exists>rs. tb s = r # rs \<and> s' = s\<lparr>tb := rs\<rparr>)"
  by (auto simp: mftb_def split: list.splits)

section \<open>Running the timers\<close>

lemma time_handle_loop_not_due:
  "t \<noteq> 0 \<Longrightarrow> tb s = r # rs \<Longrightarrow> r < t_when s t \<Longrightarrow>
   time_handle_loop (Suc k) run t n now s = Inr (t, r, s\<lparr>tb := rs\<rparr>)"
  by (simp add: mftb_def not_le[symmetric])

text \<open>
  What the queue relies on from a callback: it may move its own timer and nothing else of the
  queue. \<^verbatim>\<open>opal_timer_cb\<close> is the only one there is.
\<close>

locale timer_callbacks =
  fixes run :: "u64 \<Rightarrow> time_cb"
  assumes keeps_queue: "run c t s = Inr (b, s') \<Longrightarrow> reqs s' = reqs s"
    and keeps_others: "run c t s = Inr (b, s') \<Longrightarrow> x \<noteq> t \<Longrightarrow> t_when s' x = t_when s x"
begin

lemma tq_inv_run:
  assumes i: "tq_inv s" and q: "reqs s = t # q" and r: "run c t (s\<lparr>reqs := q\<rparr>) = Inr (b, s')"
  shows "tq_inv s'" "reqs s' = q"
proof -
  show rq: "reqs s' = q" using keeps_queue[OF r] by simp
  have "t \<notin> set q" using i q by (simp add: tq_inv_def)
  then have "t_when s' x = t_when s x" if "x \<in> set q" for x
    using keeps_others[OF r, of x] that by auto
  then show "tq_inv s'"
    using i q rq by (auto simp: tq_inv_def intro: sorted_wrt_mono_rel[rotated])
qed

text \<open>One round on a due timer: the callback runs, and the loop ends or goes on at the head of the queue.\<close>

lemma handle_loop_round:
  assumes "time_handle_loop (Suc k) run t n now s = Inr res" "tq_inv s" "reqs s = t # q" "t \<noteq> 0"
    "n = (case q of [] \<Rightarrow> 0 | z # _ \<Rightarrow> z)" "tb s = r # rs" "t_when s t \<le> r"
  shows "\<exists>s1. tq_inv s1 \<and> set (reqs s1) \<subseteq> set (reqs s) \<and>
    (res = (t, r, s1) \<and> reqs s1 = [t] \<and> r < t_when s1 t \<or>
     time_handle_loop k run (list_next (reqs s1) 0) (list_next (reqs s1) (list_next (reqs s1) 0)) r s1 = Inr res)"
proof -
  let ?s = "s\<lparr>tb := rs\<rparr>"
  have i: "tq_inv ?s" using assms(2) by (simp add: tq_inv_def)
  obtain b s1 where run: "run (t_cb s t) t (?s\<lparr>reqs := q\<rparr>) = Inr (b, s1)"
    and rest: "(if b then bug_on (t_when s1 t \<le> r) ''enqueuing stale timer''
         (let s = time_enqueue_int t s1
          in if n \<noteq> 0 then let n = (if t_when s t < t_when s n then t else n)
               in time_handle_loop k run n (list_next (reqs s) n) r s
             else Inr (t, r, s))
      else time_handle_loop k run n (list_next (reqs s1) n) r s1) = Inr res"
    using assms(1,4,7) by (auto simp: mftb_def assms(3,6) list_remove_def outcome_simps)
  have i1: "tq_inv s1" "reqs s1 = q" using tq_inv_run[OF i _ run] assms(3) by simp_all
  show ?thesis
  proof (cases b)
    case False
    have "n = list_next (reqs s1) 0" using assms(5) i1(2) by (simp add: list_next_def)
    then show ?thesis using rest False i1 assms(3) by (intro exI[of _ s1]) auto
  next
    case True
    let ?e = "time_enqueue_int t s1"
    have ie: "tq_inv ?e" using tq_inv_enqueue[OF i1(1)] assms(4) by simp
    have w: "r < t_when s1 t" using rest True by (auto simp: outcome_simps not_le)
    have se: "set (reqs ?e) \<subseteq> set (reqs s)" using assms(3) i1(2) by (auto simp: time_enqueue_int_def time_enqueue_pos_set)
    show ?thesis
    proof (cases q)
      case Nil
      then show ?thesis
        using rest True assms(5) ie w i1(2) se by (intro exI[of _ ?e]) (auto simp: outcome_simps time_enqueue_int_def)
    next
      case (Cons y ys)
      let ?n = "if t_when ?e t < t_when ?e y then t else y"
      have ny: "n = y" "y \<noteq> 0" "y \<noteq> t" using assms(2,3,5) Cons by (auto simp: tq_inv_def)
      have "?n = list_next (reqs ?e) 0" using Cons i1(2) ny by (auto simp: time_enqueue_int_def list_next_def)
      moreover have "time_handle_loop k run ?n (list_next (reqs ?e) ?n) r ?e = Inr res"
        using rest True ny by (simp add: outcome_simps Let_def split: if_splits)
      ultimately show ?thesis using ie se by (intro exI[of _ ?e]) simp
    qed
  qed
qed

lemma handle_loop_inv:
  "time_handle_loop k run t n now s = Inr (t', now', s') \<Longrightarrow> tq_inv s \<Longrightarrow>
   t = list_next (reqs s) 0 \<Longrightarrow> n = list_next (reqs s) t \<Longrightarrow>
   tq_inv s' \<and> set (reqs s') \<subseteq> set (reqs s) \<and> t' = list_next (reqs s') 0 \<and> (t' \<noteq> 0 \<longrightarrow> now' < t_when s' t')"
proof (induction k arbitrary: t n now s)
  case 0
  then show ?case by (auto split: if_splits)
next
  case (Suc k)
  show ?case
  proof (cases "t = 0")
    case True
    then show ?thesis using Suc.prems by auto
  next
    case False
    then obtain q where q: "reqs s = t # q" "n = (case q of [] \<Rightarrow> 0 | z # _ \<Rightarrow> z)"
      using Suc.prems(3,4) by (auto simp: list_next_def split: list.splits)
    obtain r rs where r: "tb s = r # rs" using Suc.prems(1) False by (auto simp: mftb_def outcome_simps split: list.splits)
    show ?thesis
    proof (cases "t_when s t \<le> r")
      case due: False
      have "(t', now', s') = (t, r, s\<lparr>tb := rs\<rparr>)"
        using Suc.prems(1) time_handle_loop_not_due[OF False r, of k run n now] due by (simp add: not_le)
      then show ?thesis using due Suc.prems(2,3) by (simp add: not_le tq_inv_def)
    next
      case True
      from handle_loop_round[OF Suc.prems(1,2) q(1) False q(2) r True] Suc.IH[OF _ _ refl refl] False
      show ?thesis by (fastforce simp: list_next_def)
    qed
  qed
qed

lemma handle_result:
  assumes "tq_inv s" "time_handle run s = Inr s'"
  shows "\<exists>now. tq_inv s' \<and> set (reqs s') \<subseteq> set (reqs s) \<and> (\<forall>x \<in> set (reqs s'). now < t_when s' x) \<and>
    dec s' = (case reqs s' of [] \<Rightarrow> DEC_DISABLE | h # _ \<Rightarrow> min (t_when s' h - now) DEC_DISABLE)"
proof -
  obtain r rs where r: "tb s = r # rs" using assms(2) by (auto simp: time_handle_def mftb_def outcome_simps split: list.splits)
  let ?s = "s\<lparr>tb := rs\<rparr>"
  obtain t now s1 where l: "time_handle_loop (Suc (length (tb ?s))) run (list_next (reqs ?s) 0)
        (list_next (reqs ?s) (list_next (reqs ?s) 0)) r ?s = Inr (t, now, s1)"
    and s': "s' = s1\<lparr>dec := if t \<noteq> 0 \<and> t_when s1 t - now < DEC_DISABLE then t_when s1 t - now else DEC_DISABLE\<rparr>"
    using assms(2) by (auto simp: time_handle_def mftb_def r outcome_simps Let_def simp del: time_handle_loop.simps)
  have "tq_inv ?s" using assms(1) by (simp add: tq_inv_def)
  note h = handle_loop_inv[OF l this refl refl]
  have d: "dec s' = (case reqs s1 of [] \<Rightarrow> DEC_DISABLE | h # _ \<Rightarrow> min (t_when s1 h - now) DEC_DISABLE)"
    using h by (auto simp: s' list_next_def min_def tq_inv_def not_less split: list.splits)
  have "now < t_when s1 x" if x: "x \<in> set (reqs s1)" for x
  proof -
    obtain y ys where y: "reqs s1 = y # ys" using x by (cases "reqs s1") auto
    then have "y \<noteq> 0" "t_when s1 y \<le> t_when s1 x" using h x by (auto simp: tq_inv_def)
    then show ?thesis using h y by (auto simp: list_next_def)
  qed
  moreover have sel: "reqs s' = reqs s1" "t_when s' = t_when s1" by (simp_all add: s')
  ultimately show ?thesis using h d unfolding tq_inv_def sel by (intro exI[of _ now]) simp
qed

end

text \<open>The callback of \<^verbatim>\<open>main.c\<close> keeps the contract.\<close>

interpretation opal: timer_callbacks "\<lambda>_. opal_timer_cb"
  by unfold_locales (auto simp: opal_timer_cb_def outcome_simps mftb_Inr)

section \<open>Properties\<close>


definition time_example :: time_state where
  "time_example = \<lparr>reqs = [0x100, 0x200], t_when = (\<lambda>_. 0)(0x100 := 50, 0x200 := 90), t_cb = \<lambda>_. 0,
     t_ctx = \<lambda>_. 10, t_name = \<lambda>_. 0, dec = 0, tb_freq = 1000, tb = [60, 61, 62, 63]\<rparr>"


text \<open>
  A new timer is put behind the timers due no later and before the later ones, and one that is
  in the queue already stays where it is; the queue keeps its order.
\<close>
theorem time_enqueue_int_correct:
  assumes "tq_inv s" "t \<noteq> 0"
  shows "tq_inv (time_enqueue_int t s) \<and>
    reqs (time_enqueue_int t s) =
      (if t \<in> set (reqs s) then reqs s
       else filter (\<lambda>p. t_when s p \<le> t_when s t) (reqs s) @ t # filter (\<lambda>p. t_when s t < t_when s p) (reqs s))"
  using tq_inv_enqueue[OF assms] assms(1) time_enqueue_pos_present time_enqueue_pos_split
  by (auto simp: time_enqueue_int_def tq_inv_def)

theorem time_enqueue_int_correct_witness:
  "reqs (time_enqueue_int 0x300 (time_example\<lparr>t_when := (t_when time_example)(0x300 := 50)\<rparr>)) = [0x100, 0x300, 0x200]"
  using time_enqueue_int_correct[of "time_example\<lparr>t_when := (t_when time_example)(0x300 := 50)\<rparr>" "0x300"]
  by (simp add: tq_inv_def time_example_def)

section \<open>The handling comes to an end\<close>

definition due :: "u64 \<Rightarrow> time_state \<Rightarrow> u64 set" where
  "due B s = {x \<in> set (reqs s). t_when s x \<le> B}"

definition period :: "time_state \<Rightarrow> u64 \<Rightarrow> u64" where
  "period s x = ms_to_tb (t_ctx s x) s"

text \<open>The readings stay below \<open>B\<close>, and a timer set anew at any of them is due after \<open>B\<close>.\<close>

definition rearms_after :: "u64 \<Rightarrow> time_state \<Rightarrow> bool" where
  "rearms_after B s \<longleftrightarrow> (\<forall>r \<in> set (tb s). r \<le> B \<and> (\<forall>x \<in> set (reqs s). B < period s x + r))"

lemma handle_loop_returns:
  assumes "rearms_after B s" "tq_inv s" "t = list_next (reqs s) 0" "n = list_next (reqs s) t"
    "2 * card (due B s) < length (tb s)" "card (due B s) < k"
  shows "\<exists>r. time_handle_loop k (\<lambda>_. opal_timer_cb) t n now s = Inr r"
  using assms
proof (induction k arbitrary: t n now s)
  case (Suc k)
  show ?case
  proof (cases "t = 0")
    case False
    then obtain q where q: "reqs s = t # q" "n = (case q of [] \<Rightarrow> 0 | z # _ \<Rightarrow> z)"
      using Suc.prems(3,4) by (auto simp: list_next_def split: list.splits)
    obtain r rs where r: "tb s = r # rs" using Suc.prems(5) by (cases "tb s") auto
    have rB: "r \<le> B" using Suc.prems(1) r by (simp add: rearms_after_def)
    show ?thesis
    proof (cases "r < t_when s t")
      case True
      then show ?thesis using time_handle_loop_not_due[OF False r] by blast
    next
      case nd: False
      have tdue: "t \<in> due B s" using nd rB q(1) by (auto simp: due_def)
      have fin: "finite (due B s)" by (simp add: due_def)
      then have c1: "0 < card (due B s)" using tdue by (auto simp: card_gt_0_iff)
      then obtain r2 rs' where r2: "rs = r2 # rs'" using Suc.prems(5) r by (cases rs) simp_all
      let ?p = "period s t + r2"
      let ?s1 = "s\<lparr>tb := rs', reqs := q, t_when := (t_when s)(t := ?p)\<rparr>"
      have p: "B < ?p" using Suc.prems(1) r r2 q(1) by (simp add: rearms_after_def)
      let ?e = "time_enqueue_int t ?s1"
      have run: "opal_timer_cb t (s\<lparr>tb := rs, reqs := q\<rparr>) = Inr (True, ?s1)"
        by (simp add: opal_timer_cb_def mftb_def r2 period_def ms_to_tb_def)
      have step: "time_handle_loop (Suc k) (\<lambda>_. opal_timer_cb) t n now s =
        (if n \<noteq> 0 then let n = (if t_when ?e t < t_when ?e n then t else n)
            in time_handle_loop k (\<lambda>_. opal_timer_cb) n (list_next (reqs ?e) n) r ?e else Inr (t, r, ?e))"
      proof -
        have "\<not> ?p \<le> r" using p rB by (simp add: not_le)
        then show ?thesis
          using False nd run by (simp add: mftb_def r q(1) list_remove_def Let_def not_less)
      qed
      show ?thesis
      proof (cases q)
        case Nil
        then show ?thesis using step q(2) by simp
      next
        case (Cons y ys)
        have i1: "tq_inv ?s1" 
        proof (rule opal.tq_inv_run(1)[where s = "s\<lparr>tb := rs\<rparr>" and q = q])
          show "tq_inv (s\<lparr>tb := rs\<rparr>)" using Suc.prems(2) by (simp add: tq_inv_def)
        qed (use q(1) run in simp_all)
        have ie: "tq_inv ?e" by (rule tq_inv_enqueue[OF i1 False])
        have e: "set (reqs ?e) = set (reqs s)" "tb ?e = rs'" "period ?e = period s" "t_when ?e = (t_when s)(t := ?p)"
          using q(1) by (auto simp: time_enqueue_int_def time_enqueue_pos_set period_def ms_to_tb_def fun_eq_iff)
        have "due B ?e = due B s - {t}" using p q(1) by (auto simp: due_def e)
        then have ce: "card (due B ?e) = card (due B s) - 1" using tdue fin by simp
        have ny: "n = y" "y \<noteq> 0" "y \<noteq> t" using q Cons Suc.prems(2) by (auto simp: tq_inv_def)
        let ?n = "if t_when ?e t < t_when ?e y then t else y"
        have n: "?n = list_next (reqs ?e) 0" using Cons ny by (auto simp: time_enqueue_int_def list_next_def)
        have "rearms_after B ?e" using Suc.prems(1) r r2 by (auto simp: rearms_after_def e)
        from Suc.IH[OF this ie n refl, of r] show ?thesis
          using step ny ce c1 Suc.prems(5,6) r r2 by (auto simp: e Let_def)
      qed
    qed
  qed simp
qed simp

text \<open>
  C30: The handling ends. When the readings to come stay below a bound that every timer, armed anew
  at one of them, lies beyond, and there are two readings for every timer due by then and two more,
  \<^verbatim>\<open>time_handle\<close> returns: it neither stops the machine for a stale timer nor loops.
\<close>
theorem time_handle_returns:
  assumes "rearms_after B s" "tq_inv s" "2 * card (due B s) + 2 \<le> length (tb s)"
  shows "\<exists>s'. time_handle (\<lambda>_. opal_timer_cb) s = Inr s'"
proof -
  obtain r rs where r: "tb s = r # rs" using assms(3) by (cases "tb s") auto
  let ?s = "s\<lparr>tb := rs\<rparr>"
  have p: "period ?s x = period s x" for x by (simp add: period_def ms_to_tb_def)
  have "rearms_after B ?s" "tq_inv ?s" "due B ?s = due B s"
    using assms(1,2) r by (simp_all add: rearms_after_def tq_inv_def due_def p)
  with assms(3) r have "\<exists>x. time_handle_loop (Suc (length (tb ?s))) (\<lambda>_. opal_timer_cb) (list_next (reqs ?s) 0)
        (list_next (reqs ?s) (list_next (reqs ?s) 0)) r ?s = Inr x"
    by (intro handle_loop_returns[where B = B and s = ?s]) simp_all
  then show ?thesis by (auto simp: time_handle_def mftb_def r Let_def simp del: time_handle_loop.simps)
qed

theorem time_handle_returns_witness:
  "\<exists>s'. time_handle (\<lambda>_. opal_timer_cb) (time_example\<lparr>tb_freq := 100000, tb := [60, 61, 62, 63, 64, 65]\<rparr>) = Inr s'"
proof (rule time_handle_returns[where B = 100])
  let ?s = "time_example\<lparr>tb_freq := 100000, tb := [60, 61, 62, 63, 64, 65]\<rparr>"
  show "rearms_after 100 ?s"
    by (simp add: rearms_after_def period_def ms_to_tb_def time_example_def)
  show "tq_inv ?s" by (simp add: tq_inv_def time_example_def)
  have "due 100 ?s \<subseteq> {0x100, 0x200}" by (auto simp: due_def time_example_def)
  then have "card (due 100 ?s) \<le> card {0x100, 0x200 :: u64}" by (intro card_mono) simp_all
  then show "2 * card (due 100 ?s) + 2 \<le> length (tb ?s)" by simp
qed

end
