(* ===== verification/Fat_Access.thy ===== *)
theory Fat_Access
  imports Fat_Table Fat_Misc
begin

text \<open>
  \<^verbatim>\<open>fat_access.c\<close>: recognising a file system, reading and writing sectors by cluster, and directories. A
  target buffer of the caller is modelled by what is stored in it: the last argument of a reader is
  whether there is one, the bytes for it are part of the result. The loops over the sectors of a
  directory run until a sector cannot be read and are partial functions.
\<close>

section \<open>Initialisation\<close>

definition fs_cur :: "(fat_buffer \<Rightarrow> fat_buffer) \<Rightarrow> 'd fatfs \<Rightarrow> 'd fatfs" where
  "fs_cur f fs = fs\<lparr>currentsector := f (currentsector fs)\<rparr>"

definition valid_partition :: "u8 \<Rightarrow> bool" where
  "valid_partition c =
     (if c \<in> {0x0B, 0x06, 0x0C, 0x0E, 0x0F, 0x05} then True else if c = 0 then False else c \<le> 0x06)"

text \<open>A read of one sector into the working buffer.\<close>

definition read_current :: "u32 \<Rightarrow> 'd fatfs \<Rightarrow> bool \<times> 'd fatfs" where
  "read_current lba fs =
     (let (r, bs) = disk_read fs lba 1 in (r, fs_cur (\<lambda>b. b\<lparr>fb_sector := overlay bs (fb_sector b)\<rparr>) fs))"

text \<open>The parameters taken from the boot sector, before the signature is checked.\<close>

definition load_bpb :: "'d fatfs \<Rightarrow> 'd fatfs" where
  "load_bpb fs =
     (let s = fb_sector (currentsector fs);
          reserved_sectors = GET_16BIT_WORD s BPB_RSVDSECCNT;
          num_of_fats = s ! BPB_NUMFATS;
          rootent = GET_16BIT_WORD s BPB_ROOTENTCNT;
          fatsz = (if GET_16BIT_WORD s BPB_FATSZ16 \<noteq> 0 then ucast (GET_16BIT_WORD s BPB_FATSZ16) else GET_32BIT_WORD s BPB_FAT32_FATSZ32);
          begin_lba = lba_begin fs + ucast reserved_sectors
      in fs\<lparr>sectors_per_cluster := s ! BPB_SECPERCLUS, root_entry_count := rootent, fat_sectors := fatsz,
            rootdir_first_cluster := GET_32BIT_WORD s BPB_FAT32_ROOTCLUS, fs_info_sector := GET_16BIT_WORD s BPB_FAT32_FSINFO,
            rootdir_first_sector := ucast reserved_sectors + ucast num_of_fats * fatsz,
            rootdir_sectors := (ucast rootent * 32 + 511) div 512,
            fat_begin_lba := begin_lba, cluster_begin_lba := begin_lba + ucast num_of_fats * fatsz\<rparr>)"

text \<open>The number of clusters of the data region.\<close>

definition bpb_clusters :: "'d fatfs \<Rightarrow> u32" where
  "bpb_clusters fs =
     (let s = fb_sector (currentsector fs);
          bps = ucast (GET_16BIT_WORD s BPB_BYTSPERSEC) :: u32;
          root_dir_sectors = (ucast (GET_16BIT_WORD s BPB_ROOTENTCNT) * 32 + (bps - 1)) div bps;
          fatsz = (if GET_16BIT_WORD s BPB_FATSZ16 \<noteq> 0 then ucast (GET_16BIT_WORD s BPB_FATSZ16) else GET_32BIT_WORD s BPB_FAT32_FATSZ32);
          total_sectors = (if GET_16BIT_WORD s BPB_TOTSEC16 \<noteq> 0 then ucast (GET_16BIT_WORD s BPB_TOTSEC16) else GET_32BIT_WORD s BPB_TOTSEC32);
          data_sectors = total_sectors - (ucast (GET_16BIT_WORD s BPB_RSVDSECCNT) + ucast (s ! BPB_NUMFATS) * fatsz + root_dir_sectors)
      in data_sectors div ucast (sectors_per_cluster fs))"

definition fatfs_init :: "'d fatfs \<Rightarrow> int \<times> 'd fatfs" where
  "fatfs_init fs =
     (let fs = fs_cur (\<lambda>b. b\<lparr>fb_address := FAT32_INVALID_CLUSTER, fb_dirty := False\<rparr>) fs;
          fs = fatfs_fat_init (fs\<lparr>next_free_cluster := 0\<rparr>)
      in if read_media (disk_io fs) = None then (FAT_INIT_MEDIA_ACCESS_ERROR, fs)
         else
     let (ok, fs) = read_current 0 fs; s = fb_sector (currentsector fs)
     in if \<not> ok then (FAT_INIT_MEDIA_ACCESS_ERROR, fs)
        else if s ! SIGNATURE_POSITION \<noteq> 0x55 \<or> s ! (SIGNATURE_POSITION + 1) \<noteq> 0xAA then (FAT_INIT_INVALID_SIGNATURE, fs)
        else if GET_16BIT_WORD s SIGNATURE_POSITION \<noteq> SIGNATURE_VALUE then (FAT_INIT_ENDIAN_ERROR, fs)
        else if length (dir_entry_bytes (dir_entry_at s 0)) \<noteq> FAT_DIR_ENTRY_SIZE then (FAT_INIT_STRUCT_PACKING, fs)
        else
     let fs = fs\<lparr>lba_begin := (if valid_partition (s ! PARTITION1_TYPECODE_LOCATION)
                  then GET_32BIT_WORD s PARTITION1_LBA_BEGIN_LOCATION else 0)\<rparr>;
         (ok, fs) = read_current (lba_begin fs) fs; s = fb_sector (currentsector fs)
     in if \<not> ok then (FAT_INIT_MEDIA_ACCESS_ERROR, fs)
        else if GET_16BIT_WORD s 0x0B \<noteq> 512 then (FAT_INIT_INVALID_SECTOR_SIZE, fs)
        else
     let fs = load_bpb fs
     in if GET_16BIT_WORD s 0x1FE \<noteq> 0xAA55 then (FAT_INIT_INVALID_SIGNATURE, fs)
        else if sectors_per_cluster fs \<noteq> 0 then
          (if bpb_clusters fs < 4085 then (FAT_INIT_WRONG_FILESYS_TYPE, fs)
           else if bpb_clusters fs < 65525 then (FAT_INIT_OK, fs\<lparr>rootdir_first_cluster := 0, fat_type := FAT_TYPE_16\<rparr>)
           else (FAT_INIT_OK, fs\<lparr>fat_type := FAT_TYPE_32\<rparr>))
        else (FAT_INIT_WRONG_FILESYS_TYPE, fs))"

section \<open>Sectors\<close>

definition fatfs_lba_of_cluster :: "'d fatfs \<Rightarrow> u32 \<Rightarrow> u32" where
  "fatfs_lba_of_cluster fs c =
     (if fat_type fs = FAT_TYPE_16 then
        cluster_begin_lba fs + ucast (root_entry_count fs) * 32 div 512 + (c - 2) * ucast (sectors_per_cluster fs)
      else cluster_begin_lba fs + (c - 2) * ucast (sectors_per_cluster fs))"

definition fatfs_sector_read :: "'d fatfs \<Rightarrow> u32 \<Rightarrow> u32 \<Rightarrow> bool \<times> u8 list" where
  "fatfs_sector_read fs lba count = disk_read fs lba count"

definition fatfs_sector_write :: "u32 \<Rightarrow> u8 list \<Rightarrow> u32 \<Rightarrow> 'd fatfs \<Rightarrow> bool \<times> 'd fatfs" where
  "fatfs_sector_write lba bs count fs = disk_write lba bs count fs"

text \<open>The loop that follows a chain for a number of clusters.\<close>

fun fat_follow :: "nat \<Rightarrow> u32 \<Rightarrow> 'd fatfs \<Rightarrow> u32 \<times> 'd fatfs" where
  "fat_follow 0 c fs = (c, fs)"
| "fat_follow (Suc n) c fs = (let (c, fs) = fatfs_find_next_cluster c fs in fat_follow n c fs)"

text \<open>The sector of a file or directory on the medium, when there is one.\<close>

definition sector_lba :: "u32 \<Rightarrow> u32 \<Rightarrow> 'd fatfs \<Rightarrow> u32 option \<times> 'd fatfs" where
  "sector_lba start off fs =
     (if fat_type fs = FAT_TYPE_16 \<and> start = 0 then
        (if off < rootdir_sectors fs then (Some (lba_begin fs + rootdir_first_sector fs + off), fs) else (None, fs))
      else
        let cluster_to_read = off div ucast (sectors_per_cluster fs);
            sector_to_read = off - cluster_to_read * ucast (sectors_per_cluster fs);
            (chain, fs) = fat_follow (unat cluster_to_read) start fs
        in if chain = FAT32_LAST_CLUSTER then (None, fs)
           else (Some (fatfs_lba_of_cluster fs chain + sector_to_read), fs))"

definition fatfs_sector_reader :: "u32 \<Rightarrow> u32 \<Rightarrow> bool \<Rightarrow> 'd fatfs \<Rightarrow> bool \<times> u8 list \<times> 'd fatfs" where
  "fatfs_sector_reader start off target fs =
     (case sector_lba start off fs of
        (None, fs) \<Rightarrow> (False, [], fs)
      | (Some lba, fs) \<Rightarrow>
          if target then (let (r, bs) = disk_read fs lba 1 in (r, bs, fs))
          else if lba \<noteq> fb_address (currentsector fs) then
            let fs = fs_cur (\<lambda>b. b\<lparr>fb_address := lba\<rparr>) fs; (r, fs) = read_current (fb_address (currentsector fs)) fs
            in (r, [], fs)
          else (True, [], fs))"

definition fatfs_read_sector :: "u32 \<Rightarrow> u32 \<Rightarrow> bool \<Rightarrow> 'd fatfs \<Rightarrow> bool \<times> u8 list \<times> 'd fatfs" where
  "fatfs_read_sector cluster sector target fs =
     (let to_lba = (\<lambda>lba. if target then (let (r, bs) = disk_read fs lba 1 in (r, bs, fs))
            else (let fs = fs_cur (\<lambda>b. b\<lparr>fb_address := lba\<rparr>) fs; (r, fs) = read_current (fb_address (currentsector fs)) fs
                  in (r, [], fs)))
      in if fat_type fs = FAT_TYPE_16 \<and> cluster = 0 then
           (if sector < rootdir_sectors fs then to_lba (lba_begin fs + rootdir_first_sector fs + sector) else (False, [], fs))
         else to_lba (fatfs_lba_of_cluster fs cluster + sector))"

definition fatfs_write_sector :: "u32 \<Rightarrow> u32 \<Rightarrow> u8 list option \<Rightarrow> 'd fatfs \<Rightarrow> bool \<times> 'd fatfs" where
  "fatfs_write_sector cluster sector target fs =
     (if write_media (disk_io fs) = None then (False, fs)
      else
        let to_lba = (\<lambda>lba. case target of Some bs \<Rightarrow> disk_write lba bs 1 fs
              | None \<Rightarrow> let fs = fs_cur (\<lambda>b. b\<lparr>fb_address := lba\<rparr>) fs
                        in disk_write (fb_address (currentsector fs)) (fb_sector (currentsector fs)) 1 fs)
        in if fat_type fs = FAT_TYPE_16 \<and> cluster = 0 then
             (if sector < rootdir_sectors fs then to_lba (lba_begin fs + rootdir_first_sector fs + sector) else (False, fs))
           else to_lba (fatfs_lba_of_cluster fs cluster + sector))"

definition fatfs_get_root_cluster :: "'d fatfs \<Rightarrow> u32" where
  "fatfs_get_root_cluster fs = rootdir_first_cluster fs"

section \<open>Directories\<close>

text \<open>
  The string a short name is shown as: eight bytes of the name, a dot when there is an extension and the
  name is not one of the dot entries, else a space, and the three bytes of the extension. The buffer of 13
  bytes is zero before, so the string ends at its first zero.
\<close>

definition short_filename :: "fat_dir_entry \<Rightarrow> u8 list" where
  "short_filename e =
     (let dotRequired = (\<exists>i \<in> set [8..<11]. Name e ! i \<noteq> 0x20);
          sep = (if dotRequired then (if Name e ! 0 \<noteq> 0x2e then 0x2e else 0x20) else 0x20)
      in takeWhile (\<lambda>c. c \<noteq> 0) (take 8 (Name e) @ [sep] @ drop 8 (take 11 (Name e))))"

text \<open>The loop over the entries of a sector from \<open>item\<close> on: the entry found, and the long names collected.\<close>

fun find_in_sector :: "nat \<Rightarrow> nat \<Rightarrow> u8 list \<Rightarrow> u8 list \<Rightarrow> lfn_cache \<Rightarrow> fat_dir_entry option \<times> lfn_cache" where
  "find_in_sector 0 item sec name lfn = (None, lfn)"
| "find_in_sector (Suc n) item sec name lfn =
     (let off = FAT_DIR_ENTRY_SIZE * item; e = dir_entry_at sec off
      in if FATFS_INC_LFN_SUPPORT \<and> fatfs_entry_lfn_text e then
           find_in_sector n (Suc item) sec name (fatfs_lfn_cache_entry (drop off sec) lfn)
         else if FATFS_INC_LFN_SUPPORT \<and> fatfs_entry_lfn_invalid e then
           find_in_sector n (Suc item) sec name (fatfs_lfn_cache_init False lfn)
         else if FATFS_INC_LFN_SUPPORT \<and> fatfs_entry_lfn_exists lfn e then
           let (long, lfn) = fatfs_lfn_cache_get lfn
           in if fatfs_compare_names long name then (Some e, lfn)
              else find_in_sector n (Suc item) sec name (fatfs_lfn_cache_init False lfn)
         else if fatfs_entry_sfn_only e then
           (if fatfs_compare_names (short_filename e) name then (Some e, lfn)
            else find_in_sector n (Suc item) sec name (fatfs_lfn_cache_init False lfn))
         else find_in_sector n (Suc item) sec name lfn)"

partial_function (option) get_file_entry_loop ::
  "u32 \<Rightarrow> u32 \<Rightarrow> u8 list \<Rightarrow> lfn_cache \<Rightarrow> 'd fatfs \<Rightarrow> (fat_dir_entry option \<times> 'd fatfs) option" where
  "get_file_entry_loop cluster x name lfn fs =
     (case fatfs_sector_reader cluster x False fs of
        (ok, _, fs) \<Rightarrow>
          if ok then
            (case find_in_sector FAT_DIR_ENTRIES_PER_SECTOR 0 (fb_sector (currentsector fs)) name lfn of
               (Some e, lfn) \<Rightarrow> Some (Some e, fs)
             | (None, lfn) \<Rightarrow> get_file_entry_loop cluster (x + 1) name lfn fs)
          else Some (None, fs))"

definition fatfs_get_file_entry :: "u32 \<Rightarrow> u8 list \<Rightarrow> 'd fatfs \<Rightarrow> (fat_dir_entry option \<times> 'd fatfs) option" where
  "fatfs_get_file_entry cluster name fs =
     get_file_entry_loop cluster 0 name (fatfs_lfn_cache_init True \<lparr>lfn_String = [], lfn_Null = 0, no_of_strings = 0\<rparr>) fs"

text \<open>
  The functions that look for a short name in its padded form. \<^verbatim>\<open>strncmp\<close> of eleven bytes stops behind a
  common zero.
\<close>

fun strncmp_eq :: "nat \<Rightarrow> u8 list \<Rightarrow> u8 list \<Rightarrow> bool" where
  "strncmp_eq 0 a b = True"
| "strncmp_eq (Suc n) a b = (if str_at a 0 \<noteq> str_at b 0 then False else if str_at a 0 = 0 then True else strncmp_eq n (tl a) (tl b))"

text \<open>The first entry of a sector with a short name, as the index of the entry.\<close>

definition sfn_in_sector :: "u8 list \<Rightarrow> u8 list \<Rightarrow> nat option" where
  "sfn_in_sector sec shortname =
     List.find (\<lambda>item. let e = dir_entry_at sec (FAT_DIR_ENTRY_SIZE * item)
       in \<not> (FATFS_INC_LFN_SUPPORT \<and> (fatfs_entry_lfn_text e \<or> fatfs_entry_lfn_invalid e)) \<and>
          fatfs_entry_sfn_only e \<and> strncmp_eq 11 (Name e) shortname) [0..<FAT_DIR_ENTRIES_PER_SECTOR]"

partial_function (option) sfn_search ::
  "u32 \<Rightarrow> u32 \<Rightarrow> u8 list \<Rightarrow> 'd fatfs \<Rightarrow> (nat option \<times> 'd fatfs) option" where
  "sfn_search cluster x shortname fs =
     (case fatfs_sector_reader cluster x False fs of
        (ok, _, fs) \<Rightarrow>
          if ok then
            (case sfn_in_sector (fb_sector (currentsector fs)) shortname of
               Some item \<Rightarrow> Some (Some item, fs)
             | None \<Rightarrow> sfn_search cluster (x + 1) shortname fs)
          else Some (None, fs))"

definition fatfs_sfn_exists :: "u32 \<Rightarrow> u8 list \<Rightarrow> 'd fatfs \<Rightarrow> (bool \<times> 'd fatfs) option" where
  "fatfs_sfn_exists cluster shortname fs = map_option (map_prod (\<lambda>i. i \<noteq> None) id) (sfn_search cluster 0 shortname fs)"

text \<open>A change of the entry found, written back with its sector.\<close>

definition sfn_update :: "(fat_dir_entry \<Rightarrow> fat_dir_entry) \<Rightarrow> u32 \<Rightarrow> u8 list \<Rightarrow> 'd fatfs \<Rightarrow> (bool \<times> 'd fatfs) option" where
  "sfn_update f cluster shortname fs =
     (if write_media (disk_io fs) = None then Some (False, fs)
      else
        (case sfn_search cluster 0 shortname fs of None \<Rightarrow> None
         | Some (None, fs) \<Rightarrow> Some (False, fs)
         | Some (Some item, fs) \<Rightarrow>
             let off = FAT_DIR_ENTRY_SIZE * item;
                 fs = fs_cur (\<lambda>b. b\<lparr>fb_sector := put_at off (dir_entry_bytes (f (dir_entry_at (fb_sector b) off))) (fb_sector b)\<rparr>) fs
             in Some (disk_write (fb_address (currentsector fs)) (fb_sector (currentsector fs)) 1 fs)))"

definition fatfs_update_file_length :: "u32 \<Rightarrow> u8 list \<Rightarrow> u32 \<Rightarrow> 'd fatfs \<Rightarrow> (bool \<times> 'd fatfs) option" where
  "fatfs_update_file_length cluster shortname len = sfn_update (\<lambda>e. e\<lparr>FileSize := len\<rparr>) cluster shortname"

definition fatfs_mark_file_deleted :: "u32 \<Rightarrow> u8 list \<Rightarrow> 'd fatfs \<Rightarrow> (bool \<times> 'd fatfs) option" where
  "fatfs_mark_file_deleted = sfn_update (\<lambda>e. e\<lparr>Name := (Name e)[0 := FILE_HEADER_DELETED]\<rparr>)"

section \<open>Listing\<close>

record fs_dir_list_status =
  ls_sector :: u32
  ls_cluster :: u32
  ls_offset :: u8

record fs_dir_ent =
  de_filename :: "u8 list"
  de_is_dir :: bool
  de_cluster :: u32
  de_size :: u32

definition fatfs_list_directory_start :: "u32 \<Rightarrow> fs_dir_list_status" where
  "fatfs_list_directory_start StartCluster = \<lparr>ls_sector = 0, ls_cluster = StartCluster, ls_offset = 0\<rparr>"

definition entry_cluster :: "fat_dir_entry \<Rightarrow> u32" where
  "entry_cluster e = push_bit 16 (ucast (FstClusHI e)) + ucast (FstClusLO e)"

definition list_entry :: "u8 list \<Rightarrow> fat_dir_entry \<Rightarrow> fs_dir_ent" where
  "list_entry filename e = \<lparr>de_filename = filename, de_is_dir = fatfs_entry_is_dir e,
     de_cluster = push_bit 16 (ucast (FstClusHI e)) OR ucast (FstClusLO e), de_size = FileSize e\<rparr>"

fun list_in_sector :: "nat \<Rightarrow> nat \<Rightarrow> u8 list \<Rightarrow> lfn_cache \<Rightarrow> (fs_dir_ent \<times> nat) option \<times> lfn_cache" where
  "list_in_sector 0 item sec lfn = (None, lfn)"
| "list_in_sector (Suc n) item sec lfn =
     (let off = FAT_DIR_ENTRY_SIZE * item; e = dir_entry_at sec off
      in if FATFS_INC_LFN_SUPPORT \<and> fatfs_entry_lfn_text e then
           list_in_sector n (Suc item) sec (fatfs_lfn_cache_entry (drop off sec) lfn)
         else if FATFS_INC_LFN_SUPPORT \<and> fatfs_entry_lfn_invalid e then
           list_in_sector n (Suc item) sec (fatfs_lfn_cache_init False lfn)
         else if FATFS_INC_LFN_SUPPORT \<and> fatfs_entry_lfn_exists lfn e then
           let (long, lfn) = fatfs_lfn_cache_get lfn
           in (Some (list_entry (take (FATFS_MAX_LONG_FILENAME - 1) long) e, item + 1), lfn)
         else if fatfs_entry_sfn_only e then
           (Some (list_entry (fatfs_get_sfn_display_name (short_filename e)) e, item + 1), fatfs_lfn_cache_init False lfn)
         else list_in_sector n (Suc item) sec lfn)"

partial_function (option) list_directory_loop ::
  "fs_dir_list_status \<Rightarrow> lfn_cache \<Rightarrow> 'd fatfs \<Rightarrow> (fs_dir_ent option \<times> fs_dir_list_status \<times> 'd fatfs) option" where
  "list_directory_loop ls lfn fs =
     (case fatfs_sector_reader (ls_cluster ls) (ls_sector ls) False fs of
        (ok, _, fs) \<Rightarrow>
          if ok then
            (case list_in_sector (FAT_DIR_ENTRIES_PER_SECTOR - unat (ls_offset ls)) (unat (ls_offset ls))
                    (fb_sector (currentsector fs)) lfn of
               (Some (e, next), lfn) \<Rightarrow> Some (Some e, ls\<lparr>ls_offset := of_nat next\<rparr>, fs)
             | (None, lfn) \<Rightarrow> list_directory_loop (ls\<lparr>ls_sector := ls_sector ls + 1, ls_offset := 0\<rparr>) lfn fs)
          else Some (None, ls, fs))"

definition fatfs_list_directory_next ::
  "fs_dir_list_status \<Rightarrow> 'd fatfs \<Rightarrow> (fs_dir_ent option \<times> fs_dir_list_status \<times> 'd fatfs) option" where
  "fatfs_list_directory_next ls fs =
     list_directory_loop ls (fatfs_lfn_cache_init False \<lparr>lfn_String = [], lfn_Null = 0, no_of_strings = 0\<rparr>) fs"

end
