(* ===== verification/Fat_Filelib.thy ===== *)
theory Fat_Filelib
  imports Fat_Access
begin

text \<open>
  \<^verbatim>\<open>fat_filelib.c\<close> and \<^verbatim>\<open>fat_cache.c\<close>: open files. The static variables of the library are the record
  \<open>filelib\<close>; a \<^verbatim>\<open>FL_FILE *\<close> is the index of its slot in \<^verbatim>\<open>_files\<close>, the lists of open and free files are lists
  of slots. The lock functions are never attached. What a function stores in a buffer of the caller is part
  of its result. The functions that follow a directory return \<open>None\<close> when the loop runs on.

  Without \<^verbatim>\<open>FATFS_INC_WRITE_SUPPORT\<close>, as the options have it, the body of \<^verbatim>\<open>fl_fflush\<close> is empty, so flushing changes
  nothing. The functions that write files are in \<open>Fat_File_Write\<close>.
\<close>

section \<open>Files\<close>

record FL_FILE =
  parentcluster :: u32
  startcluster :: u32
  bytenum :: u32
  filelength :: u32
  filelength_changed :: bool
  f_path :: "u8 list"
  f_filename :: "u8 list"
  shortfilename :: "u8 list"
  cluster_cache :: "(u32 \<times> u32) list"
  last_ClusterIdx :: u32
  last_CurrentCluster :: u32
  file_data_sector :: "u8 list"
  file_data_address :: u32
  file_data_dirty :: bool
  f_flags :: u8

definition FILE_READ :: u8 where "FILE_READ = 1"
definition FILE_WRITE :: u8 where "FILE_WRITE = 2"
definition FILE_APPEND :: u8 where "FILE_APPEND = 4"
definition FILE_BINARY :: u8 where "FILE_BINARY = 8"
definition FILE_ERASE :: u8 where "FILE_ERASE = 16"
definition FILE_CREATE :: u8 where "FILE_CREATE = 32"

lemmas file_flags = FILE_READ_def FILE_WRITE_def FILE_APPEND_def FILE_BINARY_def FILE_ERASE_def FILE_CREATE_def

text \<open>The per-file cache of links; it has no entries when \<^verbatim>\<open>FAT_CLUSTER_CACHE_ENTRIES\<close> is not defined.\<close>

definition FAT_CLUSTER_CACHE_ENTRIES :: nat where "FAT_CLUSTER_CACHE_ENTRIES = 0"

definition fatfs_cache_init :: "FL_FILE \<Rightarrow> FL_FILE" where
  "fatfs_cache_init f = f\<lparr>cluster_cache := replicate FAT_CLUSTER_CACHE_ENTRIES (0xFFFFFFFF, 0)\<rparr>"

definition fatfs_cache_get_next_cluster :: "FL_FILE \<Rightarrow> u32 \<Rightarrow> u32 option" where
  "fatfs_cache_get_next_cluster f idx =
     (let n = length (cluster_cache f); slot = unat idx mod n
      in if n \<noteq> 0 \<and> fst (cluster_cache f ! slot) = idx then Some (snd (cluster_cache f ! slot)) else None)"

definition fatfs_cache_set_next_cluster :: "u32 \<Rightarrow> u32 \<Rightarrow> FL_FILE \<Rightarrow> FL_FILE" where
  "fatfs_cache_set_next_cluster idx next f =
     (let n = length (cluster_cache f)
      in if n \<noteq> 0 then f\<lparr>cluster_cache := (cluster_cache f)[unat idx mod n := (idx, next)]\<rparr> else f)"

record 'd filelib =
  lib_files :: "FL_FILE list"
  filelib_init :: bool
  filelib_valid :: bool
  lib_fs :: "'d fatfs"
  open_files :: "nat list"
  free_files :: "nat list"

text \<open>The static variables before \<^verbatim>\<open>fl_init\<close>: all zero.\<close>

definition FL_FILE_zero :: FL_FILE where
  "FL_FILE_zero = \<lparr>parentcluster = 0, startcluster = 0, bytenum = 0, filelength = 0, filelength_changed = False, f_path = [],
     f_filename = [], shortfilename = replicate 11 0, cluster_cache = [], last_ClusterIdx = 0, last_CurrentCluster = 0,
     file_data_sector = replicate FAT_SECTOR_SIZE_n 0, file_data_address = 0, file_data_dirty = False, f_flags = 0\<rparr>"

definition fatfs_zero :: "'d \<Rightarrow> 'd fatfs" where
  "fatfs_zero d = \<lparr>sectors_per_cluster = 0, cluster_begin_lba = 0, rootdir_first_cluster = 0, rootdir_first_sector = 0,
     rootdir_sectors = 0, fat_begin_lba = 0, fs_info_sector = 0, lba_begin = 0, fat_sectors = 0, next_free_cluster = 0,
     root_entry_count = 0, fat_type = FAT_TYPE_16, disk_io = \<lparr>read_media = None, write_media = None\<rparr>,
     currentsector = fat_buffer_reset\<lparr>fb_address := 0\<rparr>, fat_buffers = [], media = d\<rparr>"

definition filelib_zero :: "'d \<Rightarrow> 'd filelib" where
  "filelib_zero d = \<lparr>lib_files = replicate FATFS_MAX_OPEN_FILES FL_FILE_zero, filelib_init = False, filelib_valid = False,
     lib_fs = fatfs_zero d, open_files = [], free_files = []\<rparr>"

definition upd_file :: "nat \<Rightarrow> (FL_FILE \<Rightarrow> FL_FILE) \<Rightarrow> 'd filelib \<Rightarrow> 'd filelib" where
  "upd_file i f l = l\<lparr>lib_files := (lib_files l)[i := f (lib_files l ! i)]\<rparr>"

definition allocate_file :: "'d filelib \<Rightarrow> nat option \<times> 'd filelib" where
  "allocate_file l = (case free_files l of [] \<Rightarrow> (None, l)
     | i # is \<Rightarrow> (Some i, l\<lparr>free_files := is, open_files := open_files l @ [i]\<rparr>))"

definition check_file_open :: "nat \<Rightarrow> 'd filelib \<Rightarrow> bool" where
  "check_file_open i l = list_ex (\<lambda>j. j \<noteq> i \<and>
     fatfs_compare_names (f_path (lib_files l ! j)) (f_path (lib_files l ! i)) \<and>
     fatfs_compare_names (f_filename (lib_files l ! j)) (f_filename (lib_files l ! i))) (open_files l)"

definition free_file :: "nat \<Rightarrow> 'd filelib \<Rightarrow> 'd filelib" where
  "free_file i l = l\<lparr>open_files := remove1 i (open_files l), free_files := free_files l @ [i]\<rparr>"

section \<open>Initialisation\<close>

definition fl_init :: "'d filelib \<Rightarrow> 'd filelib" where
  "fl_init l = l\<lparr>free_files := [0..<FATFS_MAX_OPEN_FILES], open_files := [], filelib_init := True\<rparr>"

definition CHECK_FL_INIT :: "'d filelib \<Rightarrow> 'd filelib" where
  "CHECK_FL_INIT l = (if filelib_init l then l else fl_init l)"

definition fl_attach_media ::
  "('d \<Rightarrow> u32 \<Rightarrow> u32 \<Rightarrow> bool \<times> u8 list) option \<Rightarrow> ('d \<Rightarrow> u32 \<Rightarrow> u8 list \<Rightarrow> u32 \<Rightarrow> bool \<times> 'd) option \<Rightarrow> 'd filelib \<Rightarrow> int \<times> 'd filelib" where
  "fl_attach_media rd wr l =
     (let l = CHECK_FL_INIT l;
          (res, fs) = fatfs_init ((lib_fs l)\<lparr>disk_io := \<lparr>read_media = rd, write_media = wr\<rparr>\<rparr>);
          l = l\<lparr>lib_fs := fs\<rparr>
      in if res \<noteq> FAT_INIT_OK then (res, l) else (FAT_INIT_OK, l\<lparr>filelib_valid := True\<rparr>))"

definition fl_shutdown :: "'d filelib \<Rightarrow> 'd filelib" where
  "fl_shutdown l = (let l = CHECK_FL_INIT l in l\<lparr>lib_fs := snd (fatfs_fat_purge (lib_fs l))\<rparr>)"

section \<open>Opening\<close>

fun open_directory_loop :: "nat \<Rightarrow> int \<Rightarrow> u8 list \<Rightarrow> u32 \<Rightarrow> 'd fatfs \<Rightarrow> (u32 option \<times> 'd fatfs) option" where
  "open_directory_loop 0 sublevel path start fs = Some (Some start, fs)"
| "open_directory_loop (Suc n) sublevel path start fs =
     (let (r, folder) = fatfs_get_substring path sublevel (int FATFS_MAX_LONG_FILENAME)
      in if r = - 1 then Some (None, fs)
         else do {
           (entry, fs) \<leftarrow> fatfs_get_file_entry start (the folder) fs;
           case entry of None \<Rightarrow> Some (None, fs)
           | Some e \<Rightarrow> if fatfs_entry_is_dir e then open_directory_loop n (sublevel + 1) path (entry_cluster e) fs
                       else Some (None, fs)
         })"

definition open_directory :: "u8 list \<Rightarrow> 'd fatfs \<Rightarrow> (u32 option \<times> 'd fatfs) option" where
  "open_directory path fs =
     open_directory_loop (nat (fatfs_total_path_levels path + 1)) 0 path (fatfs_get_root_cluster fs) fs"

text \<open>Where a file's directory is: the root when its path is empty.\<close>

definition parent_directory :: "u8 list \<Rightarrow> 'd fatfs \<Rightarrow> (u32 option \<times> 'd fatfs) option" where
  "parent_directory path fs = (if path = [] then Some (Some (fatfs_get_root_cluster fs), fs) else open_directory path fs)"

definition set_names :: "u8 list option \<Rightarrow> u8 list option \<Rightarrow> FL_FILE \<Rightarrow> FL_FILE" where
  "set_names p n f = f\<lparr>f_path := (case p of None \<Rightarrow> [] | Some s \<Rightarrow> s), f_filename := (case n of None \<Rightarrow> [] | Some s \<Rightarrow> s)\<rparr>"

text \<open>The fields of a file just opened, from its directory entry.\<close>

definition file_opened :: "fat_dir_entry \<Rightarrow> FL_FILE \<Rightarrow> FL_FILE" where
  "file_opened e f = fatfs_cache_init (f\<lparr>shortfilename := Name e, filelength := FileSize e, bytenum := 0,
     startcluster := entry_cluster e, file_data_address := 0xFFFFFFFF, file_data_dirty := False,
     filelength_changed := False, last_ClusterIdx := 0xFFFFFFFF, last_CurrentCluster := 0xFFFFFFFF\<rparr>)"

definition open_file :: "u8 list \<Rightarrow> 'd filelib \<Rightarrow> (nat option \<times> 'd filelib) option" where
  "open_file path l =
     (case allocate_file l of (None, l) \<Rightarrow> Some (None, l)
      | (Some i, l) \<Rightarrow>
          let (r, p, n) = fatfs_split_path path (int FATFS_MAX_LONG_FILENAME) (int FATFS_MAX_LONG_FILENAME);
              l = upd_file i (set_names p n) l
          in if r = - 1 then Some (None, free_file i l)
             else if check_file_open i l then Some (None, free_file i l)
             else do {
               (parent, fs) \<leftarrow> parent_directory (f_path (lib_files l ! i)) (lib_fs l);
               let l = l\<lparr>lib_fs := fs\<rparr>;
               case parent of None \<Rightarrow> Some (None, free_file i l)
               | Some c \<Rightarrow> do {
                   let l = upd_file i (\<lambda>f. f\<lparr>parentcluster := c\<rparr>) l;
                   (entry, fs) \<leftarrow> fatfs_get_file_entry c (f_filename (lib_files l ! i)) (lib_fs l);
                   let l = l\<lparr>lib_fs := fs\<rparr>;
                   case entry of None \<Rightarrow> Some (None, free_file i l)
                   | Some e \<Rightarrow>
                       if fatfs_entry_is_file e then
                         let l = upd_file i (file_opened e) l
                         in Some (Some i, l\<lparr>lib_fs := snd (fatfs_fat_purge (lib_fs l))\<rparr>)
                       else Some (None, free_file i l)
                 }
             })"

text \<open>The flags a mode stands for.\<close>

definition mode_flag :: "u8 \<Rightarrow> u8 \<Rightarrow> u8" where
  "mode_flag c flags =
     (if c = 0x72 \<or> c = 0x52 then flags OR FILE_READ
      else if c = 0x77 \<or> c = 0x57 then flags OR FILE_WRITE OR FILE_ERASE OR FILE_CREATE
      else if c = 0x61 \<or> c = 0x41 then flags OR FILE_WRITE OR FILE_APPEND OR FILE_CREATE
      else if c = 0x2b then
        (if flags AND FILE_READ \<noteq> 0 then flags OR FILE_WRITE
         else if flags AND FILE_WRITE \<noteq> 0 then flags OR FILE_READ OR FILE_ERASE OR FILE_CREATE
         else if flags AND FILE_APPEND \<noteq> 0 then flags OR FILE_READ OR FILE_WRITE OR FILE_APPEND OR FILE_CREATE
         else flags)
      else if c = 0x62 \<or> c = 0x42 then flags OR FILE_BINARY
      else flags)"

text \<open>
  \<^verbatim>\<open>fl_fopen\<close> without write support: \<^verbatim>\<open>_create_file\<close> does not exist and the write flags are removed before
  the file is opened, so the second call of \<^verbatim>\<open>_open_file\<close> is never made.
\<close>

definition fl_fopen :: "u8 list \<Rightarrow> u8 list \<Rightarrow> 'd filelib \<Rightarrow> (nat option \<times> 'd filelib) option" where
  "fl_fopen path mode l =
     (let l = CHECK_FL_INIT l
      in if \<not> filelib_valid l then Some (None, l)
         else
           let flags = fold mode_flag mode 0;
               no_wr = NOT (FILE_CREATE OR FILE_WRITE OR FILE_APPEND);
               flags = (if \<not> FATFS_INC_WRITE_SUPPORT then flags AND no_wr else flags);
               flags = (if write_media (disk_io (lib_fs l)) = None then flags AND no_wr else flags)
           in do {
             (file, l) \<leftarrow> (if flags AND FILE_READ \<noteq> 0 then open_file path l else Some (None, l));
             (file, l) \<leftarrow> (if flags AND FILE_READ = 0 \<and> flags AND FILE_CREATE \<noteq> 0 \<and> file = None \<and>
                              flags AND (FILE_WRITE OR FILE_APPEND) \<noteq> 0 then open_file path l else Some (file, l));
             Some (case file of None \<Rightarrow> (None, l) | Some i \<Rightarrow> (Some i, upd_file i (\<lambda>f. f\<lparr>f_flags := flags\<rparr>) l))
           })"

definition fl_fclose :: "nat option \<Rightarrow> 'd filelib \<Rightarrow> 'd filelib" where
  "fl_fclose file l =
     (let l = CHECK_FL_INIT l
      in case file of None \<Rightarrow> l
         | Some i \<Rightarrow>
             let l = upd_file i (\<lambda>f. f\<lparr>bytenum := 0, filelength := 0, startcluster := 0, file_data_address := 0xFFFFFFFF,
                   file_data_dirty := False, filelength_changed := False\<rparr>) l;
                 l = free_file i l
             in l\<lparr>lib_fs := snd (fatfs_fat_purge (lib_fs l))\<rparr>)"

section \<open>Reading\<close>

text \<open>The loop of \<^verbatim>\<open>_read_sectors\<close> along the chain, through the cache of the file.\<close>

fun follow_cached :: "nat \<Rightarrow> u32 \<Rightarrow> u32 \<Rightarrow> FL_FILE \<Rightarrow> 'd fatfs \<Rightarrow> u32 \<times> FL_FILE \<times> 'd fatfs" where
  "follow_cached 0 i c f fs = (c, f, fs)"
| "follow_cached (Suc n) i c f fs =
     (case fatfs_cache_get_next_cluster f i of
        Some next \<Rightarrow> follow_cached n (i + 1) next f fs
      | None \<Rightarrow> let (next, fs) = fatfs_find_next_cluster c fs
                in follow_cached n (i + 1) next (fatfs_cache_set_next_cluster i next f) fs)"

text \<open>The cluster of a file with a given index, from the cluster found last or from the start.\<close>

definition file_cluster :: "u32 \<Rightarrow> FL_FILE \<Rightarrow> 'd fatfs \<Rightarrow> u32 \<times> FL_FILE \<times> 'd fatfs" where
  "file_cluster ClusterIdx f fs =
     (if ClusterIdx = last_ClusterIdx f then (last_CurrentCluster f, f, fs)
      else
        let (i, c) = (if ClusterIdx \<noteq> 0 \<and> ClusterIdx = last_ClusterIdx f + 1 then (last_ClusterIdx f, last_CurrentCluster f)
              else (0, startcluster f));
            (c, f, fs) = follow_cached (unat (ClusterIdx - i)) i c f fs
        in (c, if c \<noteq> FAT32_LAST_CLUSTER then f\<lparr>last_CurrentCluster := c, last_ClusterIdx := ClusterIdx\<rparr> else f, fs))"

text \<open>The number of sectors read, what is stored at the buffer, the file and the file system.\<close>

definition read_sectors :: "u32 \<Rightarrow> u32 \<Rightarrow> FL_FILE \<Rightarrow> 'd fatfs \<Rightarrow> u32 \<times> u8 list \<times> FL_FILE \<times> 'd fatfs" where
  "read_sectors off count f fs =
     (let spc = ucast (sectors_per_cluster fs); ClusterIdx = off div spc; Sector = off - ClusterIdx * spc;
          count = (if Sector + count > spc then spc - Sector else count);
          (Cluster, f, fs) = file_cluster ClusterIdx f fs
      in if Cluster = FAT32_LAST_CLUSTER then (0, [], f, fs)
         else
           let (ok, bs) = fatfs_sector_read fs (fatfs_lba_of_cluster fs Cluster + Sector) count
           in (if ok then count else 0, bs, f, fs))"

text \<open>
  One round of the loop of \<^verbatim>\<open>fl_fread\<close>, given the bytes still wanted (positive): nothing when it breaks off, else the bytes
  gained, what is stored at the current place of the buffer, and the next sector. The offset is zero in
  every round but the first. The sector buffer is filled from its start.
\<close>

definition fread_step ::
  "u32 \<Rightarrow> u32 \<Rightarrow> u32 \<Rightarrow> FL_FILE \<Rightarrow> 'd fatfs \<Rightarrow> (u32 \<times> u32) option \<times> u8 list \<times> FL_FILE \<times> 'd fatfs" where
  "fread_step rest sector off f fs =
     (if off = 0 \<and> sle32 512 rest then
        let (n, bs, f, fs) = read_sectors sector (rest div 512) f fs
        in if n \<noteq> 0 then (Some (512 * n, sector + n), bs, f, fs) else (None, bs, f, fs)
      else
        let (ok, f, fs) =
          (if file_data_address f \<noteq> sector then
             let (n, bs, f, fs) = read_sectors sector 1 f fs;
                 f = f\<lparr>file_data_sector := overlay bs (file_data_sector f)\<rparr>
             in if n = 0 then (False, f, fs) else (True, f\<lparr>file_data_address := sector, file_data_dirty := False\<rparr>, fs)
           else (True, f, fs))
        in if \<not> ok then (None, [], f, fs)
           else
             let copyCount = 512 - off; copyCount = (if \<not> sle32 copyCount rest then rest else copyCount)
             in (Some (copyCount, sector + 1), take (unat copyCount) (drop (unat off) (file_data_sector f)), f, fs))"

text \<open>
  The loop: \<open>out\<close> is what has been stored in the caller's buffer. Each round that goes on gains a byte or
  more, so a count of the bytes wanted never runs out.
\<close>

fun fread_loop ::
  "nat \<Rightarrow> u32 \<Rightarrow> u32 \<Rightarrow> u32 \<Rightarrow> u32 \<Rightarrow> u8 list \<Rightarrow> FL_FILE \<Rightarrow> 'd fatfs \<Rightarrow> u32 \<times> u8 list \<times> FL_FILE \<times> 'd fatfs" where
  "fread_loop 0 count bytesRead sector off out f fs = (bytesRead, out, f, fs)"
| "fread_loop (Suc n) count bytesRead sector off out f fs =
     (if \<not> sle32 count bytesRead then
        (case fread_step (count - bytesRead) sector off f fs of
           (None, bs, f, fs) \<Rightarrow> (bytesRead, put_at (unat bytesRead) bs out, f, fs)
         | (Some (copy, sector), bs, f, fs) \<Rightarrow>
             fread_loop n count (bytesRead + copy) sector 0 (put_at (unat bytesRead) bs out) (f\<lparr>bytenum := bytenum f + copy\<rparr>) fs)
      else (bytesRead, out, f, fs))"

definition file_read :: "u32 \<Rightarrow> FL_FILE \<Rightarrow> 'd fatfs \<Rightarrow> u32 \<times> u8 list \<times> FL_FILE \<times> 'd fatfs" where
  "file_read count f fs =
     (if f_flags f AND FILE_READ = 0 then (- 1, [], f, fs)
      else if count = 0 then (0, [], f, fs)
      else if bytenum f \<ge> filelength f then (- 1, [], f, fs)
      else
        let count = (if bytenum f + count > filelength f then filelength f - bytenum f else count)
        in fread_loop (unat count) count 0 (bytenum f div 512) (bytenum f mod 512) [] f fs)"

definition fl_fread :: "bool \<Rightarrow> u32 \<Rightarrow> u32 \<Rightarrow> nat option \<Rightarrow> 'd filelib \<Rightarrow> u32 \<times> u8 list \<times> 'd filelib" where
  "fl_fread buffer_null sz len file l =
     (let l = CHECK_FL_INIT l
      in case file of None \<Rightarrow> (- 1, [], l)
         | Some i \<Rightarrow>
             if buffer_null then (- 1, [], l)
             else
               let (n, bs, f, fs) = file_read (sz * len) (lib_files l ! i) (lib_fs l)
               in (n, bs, upd_file i (\<lambda>_. f) (l\<lparr>lib_fs := fs\<rparr>)))"

definition fl_fgetc :: "nat option \<Rightarrow> 'd filelib \<Rightarrow> u32 \<times> 'd filelib" where
  "fl_fgetc file l =
     (let (res, bs, l) = fl_fread False 1 1 file l in (if res = 1 then ucast (put_at 0 bs [0] ! 0) else res, l))"

fun fgets_loop :: "nat \<Rightarrow> u8 list \<Rightarrow> nat option \<Rightarrow> 'd filelib \<Rightarrow> u8 list \<times> 'd filelib" where
  "fgets_loop 0 s file l = (s, l)"
| "fgets_loop (Suc n) s file l =
     (let (ch, l) = fl_fgetc file l
      in if neg32 ch then (s, l)
         else let s = s @ [ucast ch] in if ch = 0x0a then (s, l) else fgets_loop n s file l)"

definition fl_fgets :: "int \<Rightarrow> nat option \<Rightarrow> 'd filelib \<Rightarrow> u8 list option \<times> 'd filelib" where
  "fl_fgets n file l =
     (if n > 0 then let (s, l) = fgets_loop (nat (n - 1)) [] file l in (if s \<noteq> [] then Some s else None, l)
      else (None, l))"

section \<open>Positions\<close>

definition SEEK_SET :: int where "SEEK_SET = 0"
definition SEEK_CUR :: int where "SEEK_CUR = 1"
definition SEEK_END :: int where "SEEK_END = 2"

definition file_seek :: "u64 \<Rightarrow> int \<Rightarrow> FL_FILE \<Rightarrow> int \<times> FL_FILE" where
  "file_seek offset origin f =
     (let f = f\<lparr>file_data_address := 0xFFFFFFFF, file_data_dirty := False\<rparr>;
          limit = (\<lambda>f. if bytenum f > filelength f then f\<lparr>bytenum := filelength f\<rparr> else f)
      in if origin = SEEK_SET then (0, limit (f\<lparr>bytenum := ucast offset\<rparr>))
         else if origin = SEEK_CUR then
           (if sint offset \<ge> 0 then (0, limit (f\<lparr>bytenum := bytenum f + ucast offset\<rparr>))
            else let offset = - offset
                 in if (ucast offset :: u32) > bytenum f then (0, f\<lparr>bytenum := 0\<rparr>)
                    else (0, f\<lparr>bytenum := bytenum f - ucast offset\<rparr>))
         else if origin = SEEK_END then (0, f\<lparr>bytenum := filelength f\<rparr>)
         else (- 1, f))"

definition fl_fseek :: "nat option \<Rightarrow> u64 \<Rightarrow> int \<Rightarrow> 'd filelib \<Rightarrow> int \<times> 'd filelib" where
  "fl_fseek file offset origin l =
     (let l = CHECK_FL_INIT l
      in case file of None \<Rightarrow> (- 1, l)
         | Some i \<Rightarrow>
             if origin = SEEK_END \<and> offset \<noteq> 0 then (- 1, l)
             else let (res, f) = file_seek offset origin (lib_files l ! i) in (res, upd_file i (\<lambda>_. f) l))"

definition fl_fgetpos :: "nat option \<Rightarrow> 'd filelib \<Rightarrow> int \<times> u32 option" where
  "fl_fgetpos file l = (case file of None \<Rightarrow> (- 1, None) | Some i \<Rightarrow> (0, Some (bytenum (lib_files l ! i))))"

definition fl_ftell :: "nat option \<Rightarrow> 'd filelib \<Rightarrow> u64" where
  "fl_ftell file l = (case snd (fl_fgetpos file l) of None \<Rightarrow> 0 | Some p \<Rightarrow> ucast p)"

definition fl_feof :: "nat option \<Rightarrow> 'd filelib \<Rightarrow> int" where
  "fl_feof file l = (case file of None \<Rightarrow> - 1
     | Some i \<Rightarrow> if bytenum (lib_files l ! i) = filelength (lib_files l ! i) then - 1 else 0)"

section \<open>Directories\<close>

definition fl_opendir :: "u8 list \<Rightarrow> 'd filelib \<Rightarrow> (fs_dir_list_status option \<times> 'd filelib) option" where
  "fl_opendir path l =
     (let l = CHECK_FL_INIT l; levels = fatfs_total_path_levels path + 1
      in do {
        (c, fs) \<leftarrow> (if levels = 0 then Some (Some (fatfs_get_root_cluster (lib_fs l)), lib_fs l)
                    else open_directory path (lib_fs l));
        let cluster = (case c of Some c \<Rightarrow> c | None \<Rightarrow> FAT32_INVALID_CLUSTER);
        Some (if cluster \<noteq> FAT32_INVALID_CLUSTER then Some (fatfs_list_directory_start cluster) else None, l\<lparr>lib_fs := fs\<rparr>)
      })"

definition fl_readdir ::
  "fs_dir_list_status \<Rightarrow> 'd filelib \<Rightarrow> (fs_dir_ent option \<times> fs_dir_list_status \<times> 'd filelib) option" where
  "fl_readdir dirls l =
     (let l = CHECK_FL_INIT l
      in do { (e, dirls, fs) \<leftarrow> fatfs_list_directory_next dirls (lib_fs l); Some (e, dirls, l\<lparr>lib_fs := fs\<rparr>) })"

definition fl_is_dir :: "u8 list \<Rightarrow> 'd filelib \<Rightarrow> (bool \<times> 'd filelib) option" where
  "fl_is_dir path l = map_option (\<lambda>(d, l). (d \<noteq> None, l)) (fl_opendir path l)"

text \<open>The entries \<^verbatim>\<open>fl_listdirectory\<close> prints.\<close>

partial_function (option) readdir_all :: "fs_dir_list_status \<Rightarrow> 'd filelib \<Rightarrow> (fs_dir_ent list \<times> 'd filelib) option" where
  "readdir_all dirls l = do {
     (e, dirls, l) \<leftarrow> fl_readdir dirls l;
     case e of None \<Rightarrow> Some ([], l)
     | Some e \<Rightarrow> do { (es, l) \<leftarrow> readdir_all dirls l; Some (e # es, l) }
   }"

definition fl_listdirectory :: "u8 list \<Rightarrow> 'd filelib \<Rightarrow> (fs_dir_ent list \<times> 'd filelib) option" where
  "fl_listdirectory path l = do {
     (d, l) \<leftarrow> fl_opendir path (CHECK_FL_INIT l);
     case d of None \<Rightarrow> Some ([], l) | Some dirls \<Rightarrow> readdir_all dirls l
   }"

end
