(* ===== verification/Hv_State.thy ===== *)
theory Hv_State
  imports Console Mem_Init Mmu Time Fat_Filelib
begin

text \<open>
  The state of the whole hypervisor. Memory is by effective address: the code reaches its own data
  through hypervisor addresses and the guest's memory through guest addresses, never one through the
  other's. The static variables of \<^verbatim>\<open>rom.c\<close> are the record \<open>rom_vars\<close>. The FAT library's state is a record
  \<open>filelib\<close> whose medium is the memory, where the disk image lies; a \<^verbatim>\<open>FL_FILE *\<close> is the slot of the file, a null
  pointer \<open>None\<close>.
  The saved registers of the interrupted context are the record \<open>eframe_t\<close> of \<^verbatim>\<open>include/exc.h\<close>, the
  general registers a list of 32.
\<close>

record eframe_t =
  vec :: u64
  gpr :: "u64 list"
  lr :: u64
  ctr :: u64
  xer :: u64
  cr :: u64
  hsrr0 :: u64
  hsrr1 :: u64

record rom_vars =
  cur_file :: "nat option"
  guest_disk :: u64
  guest_disk_offset :: u32
  guest_disk_len :: u64
  guest_mem_avail_ranges :: ranges_t
  guest_mem_reg_ranges :: ranges_t
  memory_node :: u32
  csi :: bool

text \<open>The registers and the fields of \<^verbatim>\<open>kpcr_t\<close> the set-up writes; the time base is in \<open>time_state\<close>.\<close>

record cpu_t =
  c_hid0 :: u64
  c_lpcr :: u64
  c_hsprg0 :: u64
  c_slb_size :: u64
  c_unrec_sp :: u64
  c_kern_sp :: u64

record hv =
  hv_mem :: mem
  hv_guest :: "guest_t option"
  hv_mmu :: mmu_t
  hv_time :: time_state
  hv_con :: con_t
  hv_rom :: rom_vars
  hv_fs :: "mem filelib"
  hv_dar :: u64
  hv_dsisr :: u64
  hv_rtc0 :: u32
  hv_cpu :: cpu_t
  hv_pages :: mem_state

text \<open>
  Calls of the library: it reads the disk from the memory as it is at the call. A call that does not come
  back stops the machine.
\<close>

definition hv_lib :: "hv \<Rightarrow> mem filelib" where
  "hv_lib h = (hv_fs h)\<lparr>lib_fs := (lib_fs (hv_fs h))\<lparr>media := hv_mem h\<rparr>\<rparr>"

definition hv_fopen :: "u8 list \<Rightarrow> hv \<Rightarrow> (nat option \<times> hv) outcome" where
  "hv_fopen path h = bindE (returns ''fl_fopen'' (fl_fopen path (lit ''r'') (hv_lib h))) (\<lambda>(f, l). Inr (f, h\<lparr>hv_fs := l\<rparr>))"

definition hv_fseek :: "nat option \<Rightarrow> u64 \<Rightarrow> int \<Rightarrow> hv \<Rightarrow> int \<times> hv" where
  "hv_fseek f offset origin h = (let (r, l) = fl_fseek f offset origin (hv_lib h) in (r, h\<lparr>hv_fs := l\<rparr>))"

definition hv_fclose :: "nat option \<Rightarrow> hv \<Rightarrow> hv" where
  "hv_fclose f h = h\<lparr>hv_fs := fl_fclose f (hv_lib h)\<rparr>"

text \<open>Stores and loads of a word.\<close>

definition put32 :: "u64 \<Rightarrow> u32 \<Rightarrow> hv \<Rightarrow> hv" where
  "put32 a v h = h\<lparr>hv_mem := store32_le a v (hv_mem h)\<rparr>"

definition get32 :: "u64 \<Rightarrow> hv \<Rightarrow> u32" where
  "get32 a h = load32_le a (hv_mem h)"

definition hv_fread :: "u64 \<Rightarrow> u32 \<Rightarrow> nat option \<Rightarrow> hv \<Rightarrow> u32 \<times> hv" where
  "hv_fread buf len f h =
     (let (n, bs, l) = fl_fread (buf = 0) len 1 f (hv_lib h) in (n, h\<lparr>hv_fs := l, hv_mem := store_bytes buf bs (hv_mem h)\<rparr>))"

lemmas hv_lib_ops = hv_fopen_def hv_fseek_def hv_fclose_def hv_fread_def

definition set_r :: "nat \<Rightarrow> u64 \<Rightarrow> eframe_t \<Rightarrow> eframe_t" where
  "set_r i v f = f\<lparr>gpr := (gpr f)[i := v]\<rparr>"

lemma get32_put32 [simp]: "get32 a (put32 a v h) = v"
proof (rule bit_word_eqI)
  fix i assume i: "i < LENGTH(32)"
  have d: "a + 1 \<noteq> a" "a + 2 \<noteq> a" "a + 3 \<noteq> a" "a + 2 \<noteq> a + 1" "a + 3 \<noteq> a + 1" "a + 3 \<noteq> a + 2"
    by simp_all
  consider "i < 8" | "8 \<le> i" "i < 16" | "16 \<le> i" "i < 24" | "24 \<le> i" by linarith
  then show "bit (get32 a (put32 a v h)) i \<longleftrightarrow> bit v i"
    using i d by cases (auto simp: get32_def put32_def store32_le_def load32_le_def bit_simps not_le)
qed

end
