(* ===== verification/Rom.thy ===== *)
theory Rom
  imports Hv_State
begin

text \<open>
  The services behind the guest's firmware interface, \<^verbatim>\<open>rom.c\<close>: terminal input and output, claiming
  memory, properties of the built-in device tree, the disk, and the set-up. The built-in tree is
  generated at build time; \<open>dtb\<close> is its address. The dispatcher is in the theory \<open>Rom_Call\<close>.
\<close>

section \<open>Terminal\<close>

text \<open>
  The loop of \<^verbatim>\<open>rom_stdin\<close>. \<^verbatim>\<open>prev_c\<close> is declared inside the loop and set to 0 in each round, so the
  branch that would deliver it is never taken. A round that goes on has consumed a result of
  \<^verbatim>\<open>opal_read\<close>, so a count above the number of results to come never runs out.
\<close>

fun rom_stdin_loop :: "nat \<Rightarrow> u64 \<Rightarrow> u64 \<Rightarrow> bool \<Rightarrow> con_t \<Rightarrow> mem \<Rightarrow> u64 \<times> bool \<times> con_t \<times> mem" where
  "rom_stdin_loop 0 buf e esc con m = (buf, esc, con, m)"
| "rom_stdin_loop (Suc n) buf e esc con m =
     (if buf < e then
        (case con_getchar con of (None, con) \<Rightarrow> (buf, esc, con, m)
         | (Some c, con) \<Rightarrow>
             if esc then rom_stdin_loop n (buf + 1) e False con (m(buf := if c = 0x5b then 0x9b else 0x1b))
             else if c = 0x1b then rom_stdin_loop n buf e True con m
             else rom_stdin_loop n (buf + 1) e False con (m(buf := c)))
      else (buf, esc, con, m))"

definition rom_stdin :: "u64 \<Rightarrow> u32 \<Rightarrow> hv \<Rightarrow> u32 \<times> hv" where
  "rom_stdin buf len h =
     (let (b, c, con, m) = rom_stdin_loop (Suc (length (con_in (hv_con h)))) buf (buf + ucast len)
            (csi (hv_rom h)) (hv_con h) (hv_mem h)
      in (ucast (b - buf), h\<lparr>hv_con := con, hv_mem := m, hv_rom := (hv_rom h)\<lparr>csi := c\<rparr>\<rparr>))"

definition rom_put :: "u8 \<Rightarrow> con_t \<Rightarrow> con_t" where
  "rom_put c con =
     (if c = 0x9b then con_putchar 0x5b (con_putchar 0x1b con)
      else if c = 0xcd then con_putchar 0x3d con
      else if c = 0xba then con_putchar 0x7c con
      else if c = 0xbb \<or> c = 0xc8 then con_putchar 0x5c con
      else if c = 0xbc \<or> c = 0xc9 then con_putchar 0x2f con
      else con_putchar c con)"

fun rom_stdout_loop :: "nat \<Rightarrow> mem \<Rightarrow> u64 \<Rightarrow> con_t \<Rightarrow> con_t" where
  "rom_stdout_loop 0 m s con = con"
| "rom_stdout_loop (Suc n) m s con = rom_stdout_loop n m (s + 1) (rom_put (m s) con)"

definition rom_stdout :: "u64 \<Rightarrow> u32 \<Rightarrow> hv \<Rightarrow> hv" where
  "rom_stdout s len h = h\<lparr>hv_con := rom_stdout_loop (unat len) (hv_mem h) s (hv_con h)\<rparr>"

section \<open>Claiming memory\<close>

definition rom_claim :: "malloc_ok \<Rightarrow> u32 \<Rightarrow> u32 \<Rightarrow> u32 \<Rightarrow> hv \<Rightarrow> (u32 \<times> hv) outcome" where
  "rom_claim mm addr sz align h =
     bindE (if align \<noteq> 0 then
              (case hv_guest h of None \<Rightarrow> Inl (Bug ''guest NULL'')
               | Some g \<Rightarrow>
                   let p = ALIGN_UP (claim_arena_ptr (g_rom g)) (ucast align)
                   in bug_on (p \<ge> claim_arena_end (g_rom g)) ''claim arena overflow'' (
                      bug_on (p + ucast sz > claim_arena_end (g_rom g)) ''claim arena overflow''
                        (Inr (ucast p, h\<lparr>hv_guest := Some (g\<lparr>g_rom := (g_rom g)\<lparr>claim_arena_ptr := p + ucast sz\<rparr>\<rparr>)\<rparr>))))
            else Inr (addr, h)) (\<lambda>(out, h).
     bindE (range_remove mm (guest_mem_avail_ranges (hv_rom h)) (ucast (ALIGN out (ucast PAGE_SIZE)))
              (ucast (ALIGN_UP (out + sz) (ucast PAGE_SIZE) - 1))) (\<lambda>rs.
     Inr (out, h\<lparr>hv_rom := (hv_rom h)\<lparr>guest_mem_avail_ranges := rs\<rparr>\<rparr>)))"

section \<open>Properties\<close>

text \<open>The loop that stores base and size of each range; \<open>pages\<close> is whether it checks the alignment.\<close>

fun rom_put_ranges :: "bool \<Rightarrow> ranges_t \<Rightarrow> u32 \<Rightarrow> u64 \<Rightarrow> mem \<Rightarrow> mem outcome" where
  "rom_put_ranges pages [] len d m = Inr m"
| "rom_put_ranges pages (r # rs) len d m =
     (let b = ucast (r_base r) :: u32; bs = ucast (r_limit r - r_base r + 1) :: u32
      in bug_on (pages \<and> b mod ucast PAGE_SIZE \<noteq> 0) ''unexpected avail range'' (
         bug_on (pages \<and> bs mod ucast PAGE_SIZE \<noteq> 0) ''unexpected avail range'' (
         if sle32 len 0 then Inr m
         else let m = store32_le d (cpu_to_be32 b) m
              in if sle32 (len - 4) 0 then Inr m
                 else rom_put_ranges pages rs (len - 8) (d + 8) (store32_le (d + 4) (cpu_to_be32 bs) m))))"

definition clamp_len :: "u32 \<Rightarrow> u32 \<Rightarrow> u32" where
  "clamp_len len max_data = (if max_data = 0 then len else min len max_data)"

definition rom_ranges_getprop ::
  "bool \<Rightarrow> ranges_t \<Rightarrow> u64 \<Rightarrow> u64 \<Rightarrow> u32 \<Rightarrow> hv \<Rightarrow> (u32 \<times> hv) outcome"
where
  "rom_ranges_getprop pages rs dest_len dest_data max_data h =
     (let len = ucast (range_count rs * 4 * 2) :: u32;
          h = put32 dest_len (clamp_len len max_data) h
      in if dest_data \<noteq> 0 then
           bindE (rom_put_ranges pages rs len dest_data (hv_mem h)) (\<lambda>m. Inr (0, h\<lparr>hv_mem := m\<rparr>))
         else Inr (0, h))"

definition rom_memory_getprop ::
  "u64 \<Rightarrow> u8 list \<Rightarrow> u64 \<Rightarrow> u64 \<Rightarrow> u32 \<Rightarrow> hv \<Rightarrow> (u32 \<times> hv) outcome"
where
  "rom_memory_getprop dtb name dest_len dest_data max_data h =
     (if name = lit ''reg'' then
        rom_ranges_getprop False (guest_mem_reg_ranges (hv_rom h)) dest_len dest_data max_data h
      else if name = lit ''available'' then
        rom_ranges_getprop True (guest_mem_avail_ranges (hv_rom h)) dest_len dest_data max_data h
      else
        bindE (returns ''fdt_getprop'' (fdt_getprop (hv_mem h) dtb (memory_node (hv_rom h)) name)) (\<lambda>(data, len).
        if data = 0 then Inr (- 1, h)
        else
          let h = put32 dest_len (clamp_len len max_data) h
          in Inr (0, if dest_data \<noteq> 0 then h\<lparr>hv_mem := memcpy dest_data data (ucast (min len max_data)) (hv_mem h)\<rparr> else h)))"

text \<open>The last step of \<^verbatim>\<open>rom_getprop\<close>: \<open>copy\<close> copies that many bytes of the data to the buffer.\<close>

definition rom_deliver :: "u64 \<Rightarrow> u64 \<Rightarrow> u32 \<Rightarrow> u32 \<Rightarrow> (nat \<Rightarrow> mem \<Rightarrow> mem) \<Rightarrow> hv \<Rightarrow> (u32 \<times> hv) outcome" where
  "rom_deliver dest_len dest_data max_data len copy h =
     (let h = put32 dest_len len h
      in Inr (0, if dest_data \<noteq> 0 then h\<lparr>hv_mem := copy (unat (min len max_data)) (hv_mem h)\<rparr> else h))"

definition rom_getprop ::
  "u64 \<Rightarrow> u32 \<Rightarrow> u8 list \<Rightarrow> u64 \<Rightarrow> u64 \<Rightarrow> u32 \<Rightarrow> hv \<Rightarrow> (u32 \<times> hv) outcome"
where
  "rom_getprop dtb node name dest_len dest_data max_data h =
     (if name = lit ''name'' then
        if node = 0 then
          rom_deliver dest_len dest_data max_data 1 (\<lambda>n. store_bytes dest_data (take n (lit ''/''))) h
        else
          bindE (returns ''fdt_get_name'' (fdt_get_name (hv_mem h) dtb node)) (\<lambda>(data, len).
          bug_on (data = 0) ''fdt_get_name failed''
            (rom_deliver dest_len dest_data max_data len (\<lambda>n. memcpy dest_data data (of_nat n)) h))
      else if node = memory_node (hv_rom h) then
        rom_memory_getprop dtb name dest_len dest_data max_data h
      else
        bindE (returns ''fdt_getprop'' (fdt_getprop (hv_mem h) dtb node name)) (\<lambda>(data, len).
        if data = 0 then Inr (- 1, h)
        else rom_deliver dest_len dest_data max_data len (\<lambda>n. memcpy dest_data data (of_nat n)) h))"

section \<open>The disk\<close>

definition FAT_SECTOR_SIZE :: u32 where "FAT_SECTOR_SIZE = 512"

text \<open>\<open>i\<close> rounds are left; each copies \<open>sector_count\<close> sectors. The sector's offset is a 32-bit product.\<close>

fun guest_disk_read_loop :: "nat \<Rightarrow> u64 \<Rightarrow> u32 \<Rightarrow> u64 \<Rightarrow> u32 \<Rightarrow> mem \<Rightarrow> mem" where
  "guest_disk_read_loop 0 disk sector buffer sector_count m = m"
| "guest_disk_read_loop (Suc i) disk sector buffer sector_count m =
     guest_disk_read_loop i disk (sector + 1) (buffer + ucast FAT_SECTOR_SIZE) sector_count
       (memcpy buffer (disk + ucast (sector * FAT_SECTOR_SIZE)) (ucast (sector_count * FAT_SECTOR_SIZE)) m)"

definition guest_disk_read :: "u64 \<Rightarrow> u32 \<Rightarrow> u64 \<Rightarrow> u32 \<Rightarrow> mem \<Rightarrow> mem" where
  "guest_disk_read disk sector buffer sector_count m =
     guest_disk_read_loop (unat sector_count) disk sector buffer sector_count m"

text \<open>
  The same loop as the library sees it: what is stored in its buffer, of which \<open>out\<close> is the part from the start,
  the current round at \<open>pos\<close>.
\<close>

fun guest_media_loop :: "nat \<Rightarrow> u64 \<Rightarrow> u32 \<Rightarrow> nat \<Rightarrow> u32 \<Rightarrow> mem \<Rightarrow> u8 list \<Rightarrow> u8 list" where
  "guest_media_loop 0 disk sector pos sector_count m out = out"
| "guest_media_loop (Suc i) disk sector pos sector_count m out =
     guest_media_loop i disk (sector + 1) (pos + unat FAT_SECTOR_SIZE) sector_count m
       (put_at pos (bytes m (disk + ucast (sector * FAT_SECTOR_SIZE)) (unat (sector_count * FAT_SECTOR_SIZE))) out)"

definition guest_media :: "u64 \<Rightarrow> mem \<Rightarrow> u32 \<Rightarrow> u32 \<Rightarrow> bool \<times> u8 list" where
  "guest_media disk m sector sector_count = (True, guest_media_loop (unat sector_count) disk sector 0 sector_count m [])"

text \<open>A one-cell property, 0 where there is none.\<close>

definition rom_chosen_cell :: "u64 \<Rightarrow> u32 \<Rightarrow> string \<Rightarrow> hv \<Rightarrow> u64 outcome" where
  "rom_chosen_cell fdt node name h =
     bindE (returns ''fdt_getprop'' (fdt_getprop (hv_mem h) fdt node (lit name))) (\<lambda>(p, _).
     Inr (if p \<noteq> 0 then ucast (be32_to_cpu (load32_le p (hv_mem h))) else 0))"

definition rom_disk_init :: "u64 \<Rightarrow> hv \<Rightarrow> (err_t \<times> hv) outcome" where
  "rom_disk_init fdt h =
     bindE (returns ''fdt_path_offset'' (fdt_path_offset (hv_mem h) fdt (lit ''/chosen''))) (\<lambda>node.
     if neg32 node then Inr (ERR_NOT_FOUND, h)
     else
       bindE (rom_chosen_cell fdt node ''linux,initrd-start'' h) (\<lambda>initrd_start.
       bindE (rom_chosen_cell fdt node ''linux,initrd-end'' h) (\<lambda>initrd_end.
       if initrd_end - initrd_start = 0 then Inr (ERR_NOT_FOUND, h)
       else
         bindE (ra_2_ptr initrd_start) (\<lambda>disk.
         Inr (ERR_NONE, h\<lparr>hv_rom := (hv_rom h)\<lparr>guest_disk := disk, guest_disk_len := initrd_end - initrd_start\<rparr>\<rparr>)))))"

section \<open>Set-up\<close>

definition set_avail :: "ranges_t \<Rightarrow> ranges_t \<Rightarrow> hv \<Rightarrow> hv" where
  "set_avail avail reg h = h\<lparr>hv_rom := (hv_rom h)\<lparr>guest_mem_avail_ranges := avail, guest_mem_reg_ranges := reg\<rparr>\<rparr>"

definition upd_guest_rom :: "(rom_t \<Rightarrow> rom_t) \<Rightarrow> hv \<Rightarrow> hv" where
  "upd_guest_rom f h = h\<lparr>hv_guest := map_option (\<lambda>g. g\<lparr>g_rom := f (g_rom g)\<rparr>) (hv_guest h)\<rparr>"

text \<open>The loading of \<^verbatim>\<open>/veneer.exe\<close>: its length and the state, or the error.\<close>

definition rom_load_veneer :: "malloc_ok \<Rightarrow> hv \<Rightarrow> (err_t \<times> hv) outcome" where
  "rom_load_veneer mm h =
     bindE (hv_fopen (lit ''/veneer.exe'') h) (\<lambda>(fl, h).
     if fl = None then Inr (ERR_NOT_FOUND, h)
     else
       let (ret, h) = hv_fseek fl 0 SEEK_END h
       in if ret \<noteq> 0 then Inr (ERR_UNSUPPORTED, h)
          else
            let veneer_len = fl_ftell fl (hv_lib h); (ret, h) = hv_fseek fl 0x200 SEEK_SET h
            in if ret \<noteq> 0 then Inr (ERR_UNSUPPORTED, h)
               else
                 let veneer_len = veneer_len - 0x200
                 in bindE (rom_claim mm 0x50000 (ucast veneer_len) 0 h) (\<lambda>(_, h).
                    let (n, h) = hv_fread (LAYOUT_VM_START + 0x50000) (ucast veneer_len) fl h
                    in if scast n \<noteq> veneer_len then Inr (ERR_UNSUPPORTED, h) else Inr (ERR_NONE, hv_fclose fl h)))"

definition rom_init :: "malloc_ok \<Rightarrow> u64 \<Rightarrow> u64 \<Rightarrow> hv \<Rightarrow> (err_t \<times> hv) outcome" where
  "rom_init mm dtb fdt h =
     (case hv_guest h of None \<Rightarrow> Inl (Bug ''guest state invalid'')
      | Some g \<Rightarrow>
     bug_on (g_ram_size g \<le> MB 16) ''guest RAM too small'' (
     bindE (range_add mm range_init 0 (g_ram_size g - 1)) (\<lambda>avail.
     bindE (range_add mm range_init 0 (g_ram_size g - 1)) (\<lambda>reg.
     let h = set_avail avail reg h;
         h = upd_guest_rom (\<lambda>r. r\<lparr>claim_arena_start := g_ram_size g - MB 16, claim_arena_ptr := g_ram_size g - MB 16,
               claim_arena_end := g_ram_size g\<rparr>) h
     in
     bindE (returns ''memory node'' (fdt_node_offset_by_dtype (hv_mem h) dtb (- 1) (lit ''memory''))) (\<lambda>node.
     let h = h\<lparr>hv_rom := (hv_rom h)\<lparr>memory_node := node\<rparr>\<rparr>
     in
     bug_on (node = - 1) ''memory node missing from DT template'' (
     bindE (rom_disk_init fdt h) (\<lambda>(err, h).
     if err \<noteq> ERR_NONE then Inr (err, h)
     else
       let (ret, l) = fl_attach_media (Some (guest_media (guest_disk (hv_rom h)))) None (fl_init (hv_lib h));
           h = h\<lparr>hv_fs := l\<rparr>
       in if ret \<noteq> FAT_INIT_OK then Inr (ERR_UNSUPPORTED, h)
          else
            bindE (rom_load_veneer mm h) (\<lambda>(err, h).
            if err \<noteq> ERR_NONE then Inr (err, h)
            else
              let h = upd_guest_rom (\<lambda>r. r\<lparr>cif_trampoline := 4\<rparr>) h
              in bindE (rom_claim mm 4 4 0 h) (\<lambda>(_, h).
                 let h = put32 (LAYOUT_VM_START + 4) 0x44000022 h;
                     h = upd_guest_rom (\<lambda>r. r\<lparr>stack_end := claim_arena_start r, stack_start := claim_arena_start r - MB 1\<rparr>) h
                 in bindE (rom_claim mm (ucast (g_ram_size g - MB 16 - MB 1)) (ucast (MB 1)) 0 h) (\<lambda>(_, h).
                    Inr (ERR_NONE, h)))))))))))"

end
