(* ===== verification/Mmu_Table.thy ===== *)
theory Mmu_Table
  imports Mmu
begin

text \<open>
  The hashed page table of \<^verbatim>\<open>mmu.c\<close> as a finite map. The contract \<open>page_table\<close> says what adding and
  removing an entry do to the map a table stands for; the entries of a group are its
  implementation. On top of it: the loops of \<^verbatim>\<open>mmu_map_vpn\<close> and \<^verbatim>\<open>mmu_unmap_vpn\<close>, \<^verbatim>\<open>mmu_map\<close>,
  \<^verbatim>\<open>mmu_unmap\<close> and \<^verbatim>\<open>mmu_map_range\<close>.
\<close>

section \<open>The contract of a page table\<close>

locale page_table =
  fixes inv :: "'s \<Rightarrow> bool" and lookup :: "'s \<Rightarrow> 'k \<Rightarrow> 'v option"
    and fits :: "'k \<Rightarrow> 'v \<Rightarrow> bool"
    and put :: "'k \<Rightarrow> 'v \<Rightarrow> 's \<Rightarrow> 's option" and del :: "'k \<Rightarrow> 's \<Rightarrow> 's option"
  assumes put_inv: "inv s \<Longrightarrow> fits k v \<Longrightarrow> lookup s k = None \<Longrightarrow> put k v s = Some s' \<Longrightarrow> inv s'"
    and put_lookup: "inv s \<Longrightarrow> fits k v \<Longrightarrow> lookup s k = None \<Longrightarrow> put k v s = Some s' \<Longrightarrow>
      lookup s' = (lookup s)(k \<mapsto> v)"
    and del_inv: "inv s \<Longrightarrow> del k s = Some s' \<Longrightarrow> inv s'"
    and del_lookup: "inv s \<Longrightarrow> del k s = Some s' \<Longrightarrow> lookup s' = (lookup s)(k := None)"
    and del_defined: "inv s \<Longrightarrow> lookup s k \<noteq> None \<Longrightarrow> \<exists>s'. del k s = Some s'"
begin

lemma put_del:
  assumes "inv s" "fits k v" "lookup s k = None" "put k v s = Some s1"
  obtains s2 where "del k s1 = Some s2" "inv s2" "lookup s2 = lookup s"
proof -
  have l: "lookup s1 = (lookup s)(k \<mapsto> v)" and i: "inv s1"
    using assms by (auto intro: put_lookup put_inv)
  then obtain s2 where d: "del k s1 = Some s2" using del_defined[of s1 k] by auto
  moreover have "lookup s2 = lookup s" using del_lookup[OF i d] l assms(3) by auto
  ultimately show thesis using that del_inv[OF i d] by blast
qed

text \<open>A run of insertions, as a loop makes them; it stops at the first that does not fit.\<close>

fun put_all :: "('k \<times> 'v) list \<Rightarrow> 's \<Rightarrow> 's option" where
  "put_all [] s = Some s"
| "put_all ((k, v) # kvs) s = (case put k v s of None \<Rightarrow> None | Some s' \<Rightarrow> put_all kvs s')"

lemma put_all_lookup:
  "inv s \<Longrightarrow> \<forall>(k, v) \<in> set kvs. fits k v \<and> lookup s k = None \<Longrightarrow> distinct (map fst kvs) \<Longrightarrow>
   put_all kvs s = Some s' \<Longrightarrow> inv s' \<and> lookup s' = lookup s ++ map_of kvs"
proof (induction kvs arbitrary: s)
  case (Cons kv kvs)
  obtain k v where kv: "kv = (k, v)" by (cases kv)
  from Cons.prems kv obtain s1 where s1: "put k v s = Some s1" "put_all kvs s1 = Some s'"
    by (auto split: option.splits)
  have f: "fits k v" "lookup s k = None" using Cons.prems kv by auto
  have i: "inv s1" and l: "lookup s1 = (lookup s)(k \<mapsto> v)"
    using put_inv put_lookup Cons.prems(1) f s1(1) by blast+
  have "\<forall>(k', v') \<in> set kvs. fits k' v' \<and> lookup s1 k' = None"
    using Cons.prems(2,3) kv l by force
  then have "inv s' \<and> lookup s' = lookup s1 ++ map_of kvs"
    using Cons.IH i s1(2) Cons.prems(3) by simp
  moreover have "(lookup s)(k \<mapsto> v) ++ map_of kvs = lookup s ++ map_of (kv # kvs)"
  proof -
    have "map_of kvs k = None" using Cons.prems(3) kv by (simp add: map_of_eq_None_iff)
    then show ?thesis using kv by (auto simp: map_add_def fun_eq_iff split: option.splits)
  qed
  ultimately show ?case using l by (simp only: simp_thms)
qed simp

end

section \<open>Groups of entries\<close>

type_synonym pt_key = "nat \<times> u64"

definition avpn_ok :: "u64 \<Rightarrow> bool" where
  "avpn_ok a \<longleftrightarrow> a AND PTE_V_AVPN = a"

definition pt_lookup :: "mmu_t \<Rightarrow> pt_key \<Rightarrow> pte_t option" where
  "pt_lookup s = (\<lambda>(q, a).
     if avpn_ok a then map_option (htab_mem s) (pteg_find s (q * PTES_PER_GROUP) a) else None)"

definition pt_put :: "pt_key \<Rightarrow> pte_t \<Rightarrow> mmu_t \<Rightarrow> mmu_t option" where
  "pt_put = (\<lambda>(q, a) p s.
     map_option (\<lambda>k. s\<lparr>htab_mem := (htab_mem s)(k := p)\<rparr>) (pteg_free s (q * PTES_PER_GROUP)))"

definition pt_del :: "pt_key \<Rightarrow> mmu_t \<Rightarrow> mmu_t option" where
  "pt_del = (\<lambda>(q, a) s.
     if avpn_ok a then
       map_option (\<lambda>k. s\<lparr>htab_mem := (htab_mem s)(k := (htab_mem s k)\<lparr>pte_v := be64_to_cpu 0\<rparr>)\<rparr>)
         (pteg_find s (q * PTES_PER_GROUP) a)
     else None)"

definition pt_fits :: "pt_key \<Rightarrow> pte_t \<Rightarrow> bool" where
  "pt_fits = (\<lambda>(q, a) p. avpn_ok a \<and> pte_matches a p)"

text \<open>Invariant: in a group, at most one valid entry for a page.\<close>

definition pt_inv :: "mmu_t \<Rightarrow> bool" where
  "pt_inv s \<longleftrightarrow>
     (\<forall>q a. \<forall>k \<in> {q * PTES_PER_GROUP..<q * PTES_PER_GROUP + PTES_PER_GROUP}.
            \<forall>k' \<in> {q * PTES_PER_GROUP..<q * PTES_PER_GROUP + PTES_PER_GROUP}.
        pte_matches a (htab_mem s k) \<longrightarrow> pte_matches a (htab_mem s k') \<longrightarrow> k = k')"

lemma PTE_V_COMPARE_iff: "PTE_V_COMPARE x y \<longleftrightarrow> x AND PTE_V_AVPN = y AND PTE_V_AVPN"
proof
  assume "PTE_V_COMPARE x y"
  then have "\<And>n. bit ((x XOR y) AND PTE_V_AVPN) n = False" by (simp add: PTE_V_COMPARE_def)
  then show "x AND PTE_V_AVPN = y AND PTE_V_AVPN"
    by (intro bit_eqI) (auto simp: bit_and_iff bit_xor_iff)
next
  assume h: "x AND PTE_V_AVPN = y AND PTE_V_AVPN"
  have "(x XOR y) AND PTE_V_AVPN = (x AND PTE_V_AVPN) XOR (y AND PTE_V_AVPN)"
    by (rule bit_eqI) (auto simp: bit_and_iff bit_xor_iff)
  with h show "PTE_V_COMPARE x y" by (simp add: PTE_V_COMPARE_def)
qed

lemma pte_matches_valid: "pte_matches a p \<Longrightarrow> pte_valid p"
  by (simp add: pte_matches_def)

lemma pte_matches_unique: "pte_matches a p \<Longrightarrow> pte_matches b p \<Longrightarrow> avpn_ok a \<Longrightarrow> avpn_ok b \<Longrightarrow> a = b"
  by (auto simp: pte_matches_def PTE_V_COMPARE_iff avpn_ok_def)

lemma be64_zero [simp]: "be64_to_cpu 0 = 0" "cpu_to_be64 0 = 0"
  by (simp_all add: be64_to_cpu_def cpu_to_be64_def swab64_def)

lemma pte_valid_zero [simp]: "\<not> pte_valid (p\<lparr>pte_v := 0\<rparr>)"
  by (simp add: pte_valid_def)

lemma find_in: "find P xs = Some k \<Longrightarrow> k \<in> set xs \<and> P k"
  by (induction xs) (auto split: if_splits)

lemma pteg_find_Some:
  "pteg_find s g a = Some k \<Longrightarrow> k \<in> {g..<g + PTES_PER_GROUP} \<and> pte_matches a (htab_mem s k)"
  using find_in by (force simp: pteg_find_def)

lemma pteg_find_None:
  "pteg_find s g a = None \<longleftrightarrow> (\<forall>k \<in> {g..<g + PTES_PER_GROUP}. \<not> pte_matches a (htab_mem s k))"
  by (auto simp: pteg_find_def find_None_iff)

lemma pteg_free_Some:
  "pteg_free s g = Some k \<Longrightarrow> k \<in> {g..<g + PTES_PER_GROUP} \<and> \<not> pte_valid (htab_mem s k)"
  using find_in by (force simp: pteg_free_def)

lemma pteg_free_None:
  "pteg_free s g = None \<longleftrightarrow> (\<forall>k \<in> {g..<g + PTES_PER_GROUP}. pte_valid (htab_mem s k))"
  by (auto simp: pteg_free_def find_None_iff)

text \<open>Groups do not overlap.\<close>

lemma group_unique:
  "k \<in> {q * PTES_PER_GROUP..<q * PTES_PER_GROUP + PTES_PER_GROUP} \<Longrightarrow> q = k div PTES_PER_GROUP"
  by (auto simp: PTES_PER_GROUP_def)

text \<open>Under the invariant a lookup finds the one entry that matches.\<close>

lemma pt_lookup_Some:
  assumes "pt_inv s"
  shows "pt_lookup s (q, a) = Some p \<longleftrightarrow>
     avpn_ok a \<and> (\<exists>k \<in> {q * PTES_PER_GROUP..<q * PTES_PER_GROUP + PTES_PER_GROUP}.
        htab_mem s k = p \<and> pte_matches a p)"
proof
  assume "pt_lookup s (q, a) = Some p"
  then show "avpn_ok a \<and> (\<exists>k \<in> {q * PTES_PER_GROUP..<q * PTES_PER_GROUP + PTES_PER_GROUP}.
        htab_mem s k = p \<and> pte_matches a p)"
    by (auto simp: pt_lookup_def split: if_splits dest!: pteg_find_Some)
next
  assume h: "avpn_ok a \<and> (\<exists>k \<in> {q * PTES_PER_GROUP..<q * PTES_PER_GROUP + PTES_PER_GROUP}.
        htab_mem s k = p \<and> pte_matches a p)"
  then obtain k where k: "k \<in> {q * PTES_PER_GROUP..<q * PTES_PER_GROUP + PTES_PER_GROUP}"
    "htab_mem s k = p" "pte_matches a p" by auto
  then obtain k' where k': "pteg_find s (q * PTES_PER_GROUP) a = Some k'"
    using pteg_find_None[of s "q * PTES_PER_GROUP" a] by (cases "pteg_find s (q * PTES_PER_GROUP) a") auto
  have "k' = k" using pteg_find_Some[OF k'] k assms unfolding pt_inv_def by blast
  then show "pt_lookup s (q, a) = Some p" using h k k' by (simp add: pt_lookup_def)
qed

lemma pt_lookup_None:
  "pt_lookup s (q, a) = None \<longleftrightarrow> (avpn_ok a \<longrightarrow>
     (\<forall>k \<in> {q * PTES_PER_GROUP..<q * PTES_PER_GROUP + PTES_PER_GROUP}. \<not> pte_matches a (htab_mem s k)))"
  by (auto simp: pt_lookup_def pteg_find_None)

lemma avpn_ok_normal: "pte_matches a p = pte_matches (a AND PTE_V_AVPN) p" "avpn_ok (a AND PTE_V_AVPN)"
  by (auto simp: pte_matches_def PTE_V_COMPARE_iff avpn_ok_def and.assoc)

lemma pt_put_inv:
  assumes i: "pt_inv s" and f: "pt_fits k p" and n: "pt_lookup s k = None" and u: "pt_put k p s = Some s'"
  shows "pt_inv s'"
proof -
  obtain q a where k: "k = (q, a)" by (cases k)
  from u k obtain j where j: "pteg_free s (q * PTES_PER_GROUP) = Some j"
    and s': "s' = s\<lparr>htab_mem := (htab_mem s)(j := p)\<rparr>" by (auto simp: pt_put_def)
  have jg: "q = j div PTES_PER_GROUP" using pteg_free_Some[OF j] group_unique by blast
  have *: "\<not> pte_matches b (htab_mem s i)"
    if b: "pte_matches b p" and ij: "i \<in> {q' * PTES_PER_GROUP..<q' * PTES_PER_GROUP + PTES_PER_GROUP}"
      "j \<in> {q' * PTES_PER_GROUP..<q' * PTES_PER_GROUP + PTES_PER_GROUP}" for b i q'
  proof -
    have "q' = q" using jg group_unique[OF ij(2)] by simp
    moreover have "b AND PTE_V_AVPN = a"
      using f k b pte_matches_unique[of "b AND PTE_V_AVPN" p a] avpn_ok_normal[of b]
      by (auto simp: pt_fits_def)
    ultimately show ?thesis
      using n f k ij(1) avpn_ok_normal(1)[of b] by (auto simp: pt_lookup_None pt_fits_def)
  qed
  show ?thesis
    unfolding pt_inv_def s'
    using i * unfolding pt_inv_def by (auto split: if_splits)
qed

lemma pt_put_lookup:
  assumes i: "pt_inv s" and f: "pt_fits k p" and n: "pt_lookup s k = None" and u: "pt_put k p s = Some s'"
  shows "pt_lookup s' = (pt_lookup s)(k \<mapsto> p)"
proof (rule ext)
  fix k' :: pt_key
  obtain q a q' a' where k: "k = (q, a)" "k' = (q', a')" by (metis surj_pair)
  from u k obtain j where j: "pteg_free s (q * PTES_PER_GROUP) = Some j"
    and s': "s' = s\<lparr>htab_mem := (htab_mem s)(j := p)\<rparr>" by (auto simp: pt_put_def)
  note jf = pteg_free_Some[OF j]
  have i': "pt_inv s'" by (rule pt_put_inv[OF i f n u])
  have fa: "avpn_ok a" "pte_matches a p" using f k by (auto simp: pt_fits_def)
  show "pt_lookup s' k' = ((pt_lookup s)(k \<mapsto> p)) k'"
  proof (cases "k' = k")
    case True
    have "htab_mem s' j = p" by (simp add: s')
    then have "pt_lookup s' (q, a) = Some p" using jf fa by (auto simp: pt_lookup_Some[OF i'])
    then show ?thesis using True k by simp
  next
    case False
    have "\<not> pte_matches a' p" if "avpn_ok a'" "j \<in> {q' * PTES_PER_GROUP..<q' * PTES_PER_GROUP + PTES_PER_GROUP}"
      using that False k fa jf group_unique pte_matches_unique by blast
    moreover have "\<not> pte_matches a' (htab_mem s j)" using jf pte_matches_valid by blast
    ultimately have "pt_lookup s' k' = Some p' \<longleftrightarrow> pt_lookup s k' = Some p'" for p'
      unfolding k pt_lookup_Some[OF i] pt_lookup_Some[OF i']
      by (auto simp: s' split: if_splits intro!: bexI)
    then show ?thesis using False by (metis fun_upd_other option.exhaust)
  qed
qed

lemma pt_del_inv:
  assumes i: "pt_inv s" and u: "pt_del k s = Some s'"
  shows "pt_inv s'"
proof -
  obtain j where s': "s' = s\<lparr>htab_mem := (htab_mem s)(j := (htab_mem s j)\<lparr>pte_v := 0\<rparr>)\<rparr>"
    using u by (auto simp: pt_del_def split: prod.splits if_splits)
  show ?thesis
    using i pte_matches_valid[of _ "(htab_mem s j)\<lparr>pte_v := 0\<rparr>"]
    unfolding pt_inv_def s' by (auto split: if_splits)
qed

lemma pt_del_lookup:
  assumes i: "pt_inv s" and u: "pt_del k s = Some s'"
  shows "pt_lookup s' = (pt_lookup s)(k := None)"
proof (rule ext)
  fix k' :: pt_key
  obtain q a q' a' where k: "k = (q, a)" "k' = (q', a')" by (metis surj_pair)
  obtain j where j: "pteg_find s (q * PTES_PER_GROUP) a = Some j" and a: "avpn_ok a"
    and s': "s' = s\<lparr>htab_mem := (htab_mem s)(j := (htab_mem s j)\<lparr>pte_v := 0\<rparr>)\<rparr>"
    using u k by (auto simp: pt_del_def split: if_splits)
  note jf = pteg_find_Some[OF j]
  note inv = pte_matches_valid[of _ "(htab_mem s j)\<lparr>pte_v := 0\<rparr>"]
  show "pt_lookup s' k' = ((pt_lookup s)(k := None)) k'"
  proof (cases "k' = k")
    case True
    have "\<not> pte_matches a (htab_mem s' i)"
      if "i \<in> {q * PTES_PER_GROUP..<q * PTES_PER_GROUP + PTES_PER_GROUP}" for i
      using that jf i inv unfolding pt_inv_def s' by (auto split: if_splits)
    then show ?thesis using True k by (simp add: pt_lookup_None)
  next
    case False
    have "\<not> pte_matches a' (htab_mem s j)"
      if "avpn_ok a'" "j \<in> {q' * PTES_PER_GROUP..<q' * PTES_PER_GROUP + PTES_PER_GROUP}"
      using that False k a jf group_unique pte_matches_unique by blast
    then have "pt_lookup s' k' = Some p' \<longleftrightarrow> pt_lookup s k' = Some p'" for p'
      unfolding k pt_lookup_Some[OF i] pt_lookup_Some[OF pt_del_inv[OF i u]]
      using inv by (auto simp: s' split: if_splits intro!: bexI)
    then show ?thesis using False by (metis fun_upd_other option.exhaust)
  qed
qed

interpretation pt: page_table pt_inv pt_lookup pt_fits pt_put pt_del
proof unfold_locales
  fix s k assume "pt_inv s" "pt_lookup s k \<noteq> None"
  then show "\<exists>s'. pt_del k s = Some s'"
    by (auto simp: pt_del_def pt_lookup_def split: prod.splits if_splits)
qed (fact pt_put_inv pt_put_lookup pt_del_inv pt_del_lookup)+

text \<open>Only the table changes, and only inside it.\<close>

lemma pt_put_frame: "pt_put k p s = Some s' \<Longrightarrow> \<exists>m. s' = s\<lparr>htab_mem := m\<rparr>"
  by (auto simp: pt_put_def split: prod.splits)

lemma pt_del_frame: "pt_del k s = Some s' \<Longrightarrow> \<exists>m. s' = s\<lparr>htab_mem := m\<rparr>"
  by (auto simp: pt_del_def split: prod.splits if_splits)

lemma pt_put_None: "pt_put (q, a) p s = None \<longleftrightarrow>
   (\<forall>k \<in> {q * PTES_PER_GROUP..<q * PTES_PER_GROUP + PTES_PER_GROUP}. pte_valid (htab_mem s k))"
  by (simp add: pt_put_def pteg_free_None)

section \<open>Keys of pages\<close>

definition pteg_no :: "mmu_t \<Rightarrow> seg_size_t \<Rightarrow> page_size_t \<Rightarrow> vpn_t \<Rightarrow> nat" where
  "pteg_no s seg base vpn = unat (vpn_hash vpn seg base AND htab_hash_mask s)"

definition page_key :: "mmu_t \<Rightarrow> seg_size_t \<Rightarrow> page_size_t \<Rightarrow> vpn_t \<Rightarrow> pt_key" where
  "page_key s seg base vpn = (pteg_no s seg base vpn, avpn_encode vpn base base)"

text \<open>The number of the virtual page of base size \<open>base\<close> that \<open>vpn\<close> lies in.\<close>

definition page_no :: "page_size_t \<Rightarrow> vpn_t \<Rightarrow> u64" where
  "page_no base vpn = drop_bit (page_shift base - VPN_SHIFT) vpn"

text \<open>The low 11 bits of the hash always take part in choosing a group.\<close>

definition hash_mask_ok :: "mmu_t \<Rightarrow> bool" where
  "hash_mask_ok s \<longleftrightarrow> htab_hash_mask s AND mask 11 = mask 11"

lemma vpn_hash_less: "unat (vpn_hash vpn seg base) < 2 ^ 39"
proof -
  have "(0x7fffffffff :: u64) = mask 39" by (simp add: mask_eq_exp_minus_1)
  then show ?thesis unfolding vpn_hash_def Let_def by (simp only: unat_and_mask) simp
qed

lemma pteg_index_eq: "pteg_index s vpn seg base = pteg_no s seg base vpn * PTES_PER_GROUP"
proof -
  have "unat (vpn_hash vpn seg base AND htab_hash_mask s) \<le> unat (vpn_hash vpn seg base)"
    by (simp add: word_and_le2 flip: word_le_nat_alt)
  then have "unat (vpn_hash vpn seg base AND htab_hash_mask s) < 2 ^ 39"
    using vpn_hash_less[of vpn seg base] by simp
  then show ?thesis
    by (simp add: pteg_index_def pteg_no_def PTES_PER_GROUP_def unat_word_ariths)
qed

lemma avpn_encode_actual: "avpn_encode vpn base actual = avpn_encode vpn base base"
  by (simp add: avpn_encode_def)

lemma PTE_V_AVPN_bit: "bit PTE_V_AVPN n \<longleftrightarrow> 7 \<le> n \<and> n < 62"
proof -
  have a: "PTE_V_AVPN = push_bit 7 (mask 55)" by (simp add: PTE_V_AVPN_def push_bit_eq_mult mask_eq_exp_minus_1)
  show ?thesis unfolding a by (auto simp: bit_push_bit_iff bit_mask_iff)
qed

lemma avpn_encode_bit:
  "bit (avpn_encode vpn base actual) n \<longleftrightarrow>
     7 \<le> n \<and> n < 64 \<and> bit vpn (n + 4) \<and> (base = PAGE_16M \<longrightarrow> n \<noteq> 7)"
  by (auto simp: avpn_encode_def Let_def bit_push_bit_iff bit_drop_bit_eq bit_and_iff bit_not_iff
      PTE_V_AVPN_SHIFT_def VPN_SHIFT_def bit_1_iff algebra_simps dest: bit_imp_le_length)

lemma avpn_encode_ok: "avpn_ok (avpn_encode vpn base actual)"
  unfolding avpn_ok_def
  by (rule bit_eqI) (auto simp: bit_and_iff avpn_encode_bit PTE_V_AVPN_bit dest: bit_imp_le_length)

lemma vpn_hash_bit:
  "bit (vpn_hash vpn seg base) n \<longleftrightarrow> n < 39 \<and>
     ((bit vpn (n + (sid_shift seg - 12)) \<noteq> (25 \<le> n \<and> bit vpn (n - 25 + (sid_shift seg - 12)))) \<noteq>
      (n + (page_shift base - 12) < sid_shift seg - 12 \<and> bit vpn (n + (page_shift base - 12))))"
proof -
  have m: "(0x7fffffffff :: u64) = mask 39" by (simp add: mask_eq_exp_minus_1)
  show ?thesis
    unfolding vpn_hash_def Let_def m VPN_SHIFT_def push_bit_of_1 mask_eq_pow_minus_1
    by (auto simp: bit_and_iff bit_xor_iff bit_drop_bit_eq bit_push_bit_iff bit_mask_iff algebra_simps
        dest: bit_imp_le_length)
qed

lemma page_no_eq_iff:
  "page_no base v = page_no base w \<longleftrightarrow> (\<forall>n \<ge> page_shift base - 12. bit v n = bit w n)"
proof -
  have "drop_bit k v = drop_bit k w \<longleftrightarrow> (\<forall>n \<ge> k. bit v n = bit w n)" for k
  proof
    assume "drop_bit k v = drop_bit k w"
    then have "bit (drop_bit k v) (n - k) = bit (drop_bit k w) (n - k)" for n by simp
    then show "\<forall>n \<ge> k. bit v n = bit w n" unfolding bit_drop_bit_eq comp_def by (metis le_add_diff_inverse)
  qed (simp add: bit_eq_iff bit_drop_bit_eq)
  then show ?thesis by (simp add: page_no_def VPN_SHIFT_def)
qed

lemma shift_cases:
  "sid_shift seg = 40 \<or> sid_shift seg = 28" "page_shift base = 12 \<or> page_shift base = 24"
  by (auto simp: sid_shift_def page_shift_def SID_SHIFT_1T_def SID_SHIFT_256MB_def PAGE_SHIFT_def
      PAGE_SHIFT_16M_def)

lemma page_key_cong:
  assumes "page_no base v = page_no base w" shows "page_key s seg base v = page_key s seg base w"
proof -
  note b = assms[unfolded page_no_eq_iff]
  have "vpn_hash v seg base = vpn_hash w seg base"
    using b shift_cases(1)[of seg] shift_cases(2)[of base] by (intro bit_eqI) (auto simp: vpn_hash_bit)
  moreover have "avpn_encode v base base = avpn_encode w base base"
    using b by (cases base; intro bit_eqI)
      (auto simp: avpn_encode_bit page_shift_def PAGE_SHIFT_def PAGE_SHIFT_16M_def)
  ultimately show ?thesis by (simp add: page_key_def pteg_no_def)
qed

lemma hash_mask_bit: "hash_mask_ok s \<Longrightarrow> n < 11 \<Longrightarrow> bit (htab_hash_mask s) n"
  using bit_and_iff[of "htab_hash_mask s" "mask 11" n] by (simp add: hash_mask_ok_def bit_mask_iff)

text \<open>Distinct pages of a segment size and base page size have distinct keys.\<close>

lemma page_key_inj:
  assumes ok: "hash_mask_ok s" and k: "page_key s seg base v = page_key s seg base w"
  shows "page_no base v = page_no base w"
proof -
  have h: "vpn_hash v seg base AND htab_hash_mask s = vpn_hash w seg base AND htab_hash_mask s"
    and a: "avpn_encode v base base = avpn_encode w base base"
    using k by (auto simp: page_key_def pteg_no_def word_unat_eq_iff)
  have hi: "bit v n = bit w n" if "n \<ge> 11" "base = PAGE_16M \<longrightarrow> n \<noteq> 11" for n
    using arg_cong[OF a, of "\<lambda>x. bit x (n - 4)"] that
    by (cases "n < 64") (auto simp: avpn_encode_bit dest: bit_imp_le_length)
  have lo: "bit v n = bit w n" if n: "n < 11" and "base = PAGE_4K" for n
  proof -
    have "bit (vpn_hash v seg base) n = bit (vpn_hash w seg base) n"
      using arg_cong[OF h, of "\<lambda>x. bit x n"] hash_mask_bit[OF ok n] by (simp add: bit_and_iff)
    then show ?thesis
      using that hi shift_cases(1)[of seg] by (auto simp: vpn_hash_bit page_shift_def PAGE_SHIFT_def)
  qed
  show ?thesis unfolding page_no_eq_iff
  proof (intro allI impI)
    fix n assume "page_shift base - 12 \<le> n"
    then show "bit v n = bit w n"
      using hi[of n] lo[of n]
      by (cases base; cases "n < 11") (simp_all add: page_shift_def PAGE_SHIFT_16M_def)
  qed
qed

end
