(* ===== verification/Mmu_Map.thy ===== *)
theory Mmu_Map
  imports Mmu_Table
begin

text \<open>
  What \<^verbatim>\<open>mmu_map\<close>, \<^verbatim>\<open>mmu_unmap\<close> and \<^verbatim>\<open>mmu_map_range\<close> do to the map the page table stands for:
  the loops over the base pages of a page are runs of insertions and removals of the contract
  \<open>page_table\<close>.
\<close>

section \<open>The entry of a page\<close>

definition page_pte ::
  "seg_size_t \<Rightarrow> page_size_t \<Rightarrow> page_size_t \<Rightarrow> prot_t \<Rightarrow> u64 \<Rightarrow> vpn_t \<Rightarrow> pte_t"
where
  "page_pte seg base actual pp rpn vpn =
     \<lparr>pte_v = cpu_to_be64 (avpn_encode vpn base actual OR pte_vflags seg actual),
      pte_r = cpu_to_be64 (rpn OR (pp OR PTE_R_M))\<rparr>"

lemma be64_cpu [simp]: "be64_to_cpu (cpu_to_be64 x) = x"
  by (simp add: be64_to_cpu_def cpu_to_be64_def)

lemma flag_bits:
  "PTE_R_M = push_bit 4 1" "PTE_V_VALID = push_bit 0 1" "PTE_V_LARGE = push_bit 2 1"
  "PTE_V_1TB_SEG = push_bit 62 1"
  by (simp_all add: PTE_R_M_def PTE_V_VALID_def PTE_V_LARGE_def PTE_V_1TB_SEG_def push_bit_eq_mult)

lemma pte_vflags_bit:
  "bit (pte_vflags seg actual) n \<longleftrightarrow>
     n = 4 \<or> n = 0 \<or> (n = 2 \<and> actual \<noteq> PAGE_4K) \<or> (n = 62 \<and> seg = SEG_1T)"
  unfolding pte_vflags_def flag_bits
  by (auto simp: bit_or_iff bit_push_bit_1 bit_1_iff simp del: push_bit_of_1)

lemma and_VALID: "x AND PTE_V_VALID \<noteq> 0 \<longleftrightarrow> bit x 0"
  by (simp add: PTE_V_VALID_def and_1_zero)

lemma page_pte_fits: "pt_fits (q, avpn_encode vpn base base) (page_pte seg base actual pp rpn vpn)"
proof -
  have "(avpn_encode vpn base base OR pte_vflags seg actual) AND PTE_V_AVPN =
        avpn_encode vpn base base AND PTE_V_AVPN"
    by (rule bit_eqI) (auto simp: bit_and_iff bit_or_iff PTE_V_AVPN_bit pte_vflags_bit)
  moreover have "bit (avpn_encode vpn base base OR pte_vflags seg actual) 0"
    by (simp add: bit_or_iff pte_vflags_bit)
  ultimately show ?thesis
    by (simp add: pt_fits_def avpn_encode_ok pte_matches_def pte_valid_def PTE_V_COMPARE_iff
        page_pte_def avpn_encode_actual[of vpn base actual] and_VALID)
qed

section \<open>The pages of a loop\<close>

definition page_step :: "page_size_t \<Rightarrow> u64" where
  "page_step base = drop_bit VPN_SHIFT (page_size base)"

definition page_vpns :: "page_size_t \<Rightarrow> nat \<Rightarrow> vpn_t \<Rightarrow> vpn_t list" where
  "page_vpns base n vpn = map (\<lambda>j. vpn + of_nat j * page_step base) [0..<n]"

lemma page_vpns_Suc: "page_vpns base (Suc n) vpn = vpn # page_vpns base n (vpn + page_step base)"
  unfolding page_vpns_def by (simp add: upt_conv_Cons map_Suc_upt[symmetric] algebra_simps del: upt_Suc)

lemma page_vpns_0 [simp]: "page_vpns base 0 vpn = []"
  by (simp add: page_vpns_def)

text \<open>The pages \<^verbatim>\<open>mmu_map\<close> of size \<open>actual\<close> enters: one per base page.\<close>

definition map_count :: "page_size_t \<Rightarrow> page_size_t \<Rightarrow> nat" where
  "map_count base actual = unat (page_size actual div page_size base)"

lemma map_count_simps:
  "map_count PAGE_4K PAGE_4K = 1" "map_count PAGE_16M PAGE_16M = 1" "map_count PAGE_4K PAGE_16M = 4096"
  by (simp_all add: map_count_def page_size_def PAGE_SIZE_def PAGE_SIZE_16M_def unat_div)

lemma page_step_simps: "page_step PAGE_4K = 1" "page_step PAGE_16M = 4096"
  by (simp_all add: page_step_def page_size_def PAGE_SIZE_def PAGE_SIZE_16M_def VPN_SHIFT_def drop_bit_eq_div)

text \<open>The actual size is a multiple of the base size: the count is exact.\<close>

lemma map_count_exact:
  "\<not> page_size actual < page_size base \<Longrightarrow>
   of_nat (map_count base actual) * page_size base = page_size actual"
  by (cases base; cases actual)
    (simp_all add: map_count_simps page_size_def PAGE_SIZE_def PAGE_SIZE_16M_def)

lemma page_vpns_distinct:
  assumes "hash_mask_ok s" "\<not> page_size actual < page_size base"
  shows "distinct (map (page_key s seg base) (page_vpns base (map_count base actual) vpn))"
proof (cases "base = PAGE_16M")
  case True
  then have "map_count base actual = 1"
    using assms(2) by (cases actual) (simp_all add: map_count_simps page_size_def PAGE_SIZE_def PAGE_SIZE_16M_def)
  then show ?thesis by (simp add: page_vpns_def)
next
  case False
  then have b: "base = PAGE_4K" by (cases base) auto
  have n: "map_count base actual \<le> 4096" by (cases actual) (simp_all add: b map_count_simps)
  have "page_key s seg base (vpn + of_nat i) \<noteq> page_key s seg base (vpn + of_nat j)"
    if ij: "i < 4096" "j < 4096" "i \<noteq> j" for i j
  proof
    assume "page_key s seg base (vpn + of_nat i) = page_key s seg base (vpn + of_nat j)"
    from page_key_inj[OF assms(1) this] have "(of_nat i :: u64) = of_nat j"
      by (simp add: b page_no_def page_shift_def PAGE_SHIFT_def VPN_SHIFT_def)
    then have "unat (of_nat i :: u64) = unat (of_nat j :: u64)" by simp
    then show False using ij by (simp add: unat_of_nat)
  qed
  then show ?thesis
    using n unfolding page_vpns_def b page_step_simps distinct_map map_map comp_def inj_on_def
    by (fastforce dest!: less_le_trans[OF _ n[unfolded b]])
qed

section \<open>The loops as runs of insertions and removals\<close>

definition page_entries ::
  "mmu_t \<Rightarrow> seg_size_t \<Rightarrow> page_size_t \<Rightarrow> page_size_t \<Rightarrow> prot_t \<Rightarrow> u64 \<Rightarrow> vpn_t list \<Rightarrow> (pt_key \<times> pte_t) list"
where
  "page_entries s seg base actual pp rpn vpns =
     map (\<lambda>v. (page_key s seg base v, page_pte seg base actual pp rpn v)) vpns"

lemma page_key_frame [simp]: "page_key (s\<lparr>htab_mem := m\<rparr>) = page_key s"
  by (simp add: page_key_def pteg_no_def fun_eq_iff)

lemma page_key_tlbie [simp]: "page_key (tlbie v seg b a s) = page_key s"
  by (simp add: page_key_def pteg_no_def fun_eq_iff tlbie_def)

lemma page_entries_cong: "page_key s' = page_key s \<Longrightarrow> page_entries s' = page_entries s"
  by (simp add: page_entries_def fun_eq_iff)

lemma mmu_map_loop_step:
  assumes "rpn_encode ra base actual = Inr rpn"
  shows "mmu_map_loop (Suc n) vpn ra pp seg base actual s =
     (case pt_put (page_key s seg base vpn) (page_pte seg base actual pp rpn vpn) s of
        None \<Rightarrow> Inr (-1, s)
      | Some s' \<Rightarrow> mmu_map_loop n (vpn + page_step base) ra pp seg base actual s')"
  using assms
  by (auto simp: pt_put_def page_key_def page_pte_def page_step_def pteg_index_eq Let_def
      split: option.splits)

lemma mmu_map_loop_put_all:
  assumes "rpn_encode ra base actual = Inr rpn"
  shows "mmu_map_loop n vpn ra pp seg base actual s = Inr (0, s') \<longleftrightarrow>
     pt.put_all (page_entries s seg base actual pp rpn (page_vpns base n vpn)) s = Some s'"
proof (induction n arbitrary: vpn s)
  case 0
  then show ?case by (simp add: page_entries_def)
next
  case (Suc n)
  show ?case
  proof (cases "pt_put (page_key s seg base vpn) (page_pte seg base actual pp rpn vpn) s")
    case None
    then show ?thesis
      by (simp add: mmu_map_loop_step[OF assms] page_vpns_Suc page_entries_def del: mmu_map_loop.simps)
  next
    case (Some s1)
    from pt_put_frame[OF Some] have "page_entries s1 = page_entries s"
      by (auto intro!: page_entries_cong)
    with Some Suc[of "vpn + page_step base" s1] show ?thesis
      by (simp add: mmu_map_loop_step[OF assms] page_vpns_Suc del: mmu_map_loop.simps)
        (simp add: page_entries_def)
  qed
qed

lemma mmu_map_loop_frame:
  "mmu_map_loop n vpn ra pp seg base actual s = Inr (r, s') \<Longrightarrow> \<exists>m. s' = s\<lparr>htab_mem := m\<rparr>"
proof (induction n arbitrary: vpn s)
  case 0
  then show ?case by (auto intro: exI[of _ "htab_mem s"])
next
  case (Suc n)
  then show ?case
    by (fastforce simp: Let_def outcome_simps intro: exI[of _ "htab_mem s"] split: option.splits)
qed

lemma mmu_unmap_loop_step:
  "mmu_unmap_loop (Suc n) vpn seg base actual s =
     (case pt_del (page_key s seg base vpn) s of
        None \<Rightarrow> (-1, s)
      | Some s' \<Rightarrow> mmu_unmap_loop n (vpn + page_step base) seg base actual (tlbie vpn seg base actual s'))"
  by (auto simp: pt_del_def page_key_def page_step_def pteg_index_eq Let_def avpn_encode_ok
      avpn_encode_actual[of vpn base actual] split: option.splits)

text \<open>Invalidating TLB entries leaves the table as it is.\<close>

lemma pt_tlbie [simp]: "pt_inv (tlbie v seg b a s) = pt_inv s" "pt_lookup (tlbie v seg b a s) = pt_lookup s"
  by (simp_all add: pt_inv_def tlbie_def pt_lookup_def pteg_find_def fun_eq_iff)

lemma mmu_unmap_loop_ok:
  assumes "pt_inv s" "distinct (map (page_key s seg base) (page_vpns base n vpn))"
    and "\<forall>v \<in> set (page_vpns base n vpn). pt_lookup s (page_key s seg base v) \<noteq> None"
  shows "\<exists>s'. mmu_unmap_loop n vpn seg base actual s = (0, s') \<and> pt_inv s' \<and>
     pt_lookup s' = (\<lambda>k. if k \<in> page_key s seg base ` set (page_vpns base n vpn) then None else pt_lookup s k) \<and>
     tlb_ops s' = tlb_ops s @ map (\<lambda>v. Tlbie (tlbie_rb v seg base actual)) (page_vpns base n vpn)"
  using assms
proof (induction n arbitrary: vpn s)
  case 0
  then show ?case by simp
next
  case (Suc n)
  let ?k = "page_key s seg base vpn"
  obtain s1 where d: "pt_del ?k s = Some s1"
    using pt.del_defined[of s ?k] Suc.prems by (auto simp: page_vpns_Suc)
  let ?s = "tlbie vpn seg base actual s1"
  have l: "pt_lookup s1 = (pt_lookup s)(?k := None)" and i: "pt_inv ?s"
    using pt.del_lookup[OF Suc.prems(1) d] pt.del_inv[OF Suc.prems(1) d] by simp_all
  have k: "page_key s1 = page_key s" and t: "tlb_ops ?s = tlb_ops s @ [Tlbie (tlbie_rb vpn seg base actual)]"
    using pt_del_frame[OF d] by (auto simp: tlbie_def page_key_def pteg_no_def fun_eq_iff)
  have ne: "page_key s seg base v \<noteq> ?k" if "v \<in> set (page_vpns base n (vpn + page_step base))" for v
    using Suc.prems(2) that by (auto simp: page_vpns_Suc image_iff)
  have "\<forall>v \<in> set (page_vpns base n (vpn + page_step base)). pt_lookup ?s (page_key ?s seg base v) \<noteq> None"
    using Suc.prems(2,3) by (auto simp: page_vpns_Suc l k dest: ne)
  from Suc.IH[OF i _ this] Suc.prems(2) obtain s' where s':
    "mmu_unmap_loop n (vpn + page_step base) seg base actual ?s = (0, s')" "pt_inv s'"
    "pt_lookup s' = (\<lambda>x. if x \<in> page_key s seg base ` set (page_vpns base n (vpn + page_step base))
       then None else pt_lookup ?s x)"
    "tlb_ops s' = tlb_ops ?s @ map (\<lambda>v. Tlbie (tlbie_rb v seg base actual)) (page_vpns base n (vpn + page_step base))"
    by (auto simp: page_vpns_Suc k)
  moreover have "pt_lookup s' =
      (\<lambda>x. if x \<in> page_key s seg base ` set (page_vpns base (Suc n) vpn) then None else pt_lookup s x)"
    by (rule ext) (auto simp: s'(3) l page_vpns_Suc)
  ultimately show ?case
    using d t by (simp add: mmu_unmap_loop_step page_vpns_Suc del: mmu_unmap_loop.simps)
qed

section \<open>Mapping and unmapping a page\<close>

lemma mmu_map_Inr:
  assumes "ea_2_vpn guest ea = Inr vpn" "ea_2_seg_size guest ea = Inr seg" "ea_2_base_size guest ea = Inr base"
  shows "mmu_map guest ea ra pp actual s = Inr s' \<longleftrightarrow>
     ea AND NOT (page_size actual - 1) = ea \<and> ra AND NOT (page_size actual - 1) = ra \<and>
     \<not> page_size actual < page_size base \<and>
     mmu_map_loop (map_count base actual) vpn ra pp seg base actual s = Inr (0, s')"
  using assms by (auto simp: mmu_map_def mmu_map_vpn_def map_count_def outcome_simps)

lemma mmu_unmap_Inr:
  assumes "ea_2_vpn guest ea = Inr vpn" "ea_2_seg_size guest ea = Inr seg" "ea_2_base_size guest ea = Inr base"
  shows "mmu_unmap guest ea actual s = Inr s' \<longleftrightarrow>
     ea AND NOT (page_size actual - 1) = ea \<and> \<not> page_size actual < page_size base \<and>
     mmu_unmap_loop (map_count base actual) vpn seg base actual s = (0, s')"
  using assms by (auto simp: mmu_unmap_def mmu_unmap_vpn_def map_count_def outcome_simps split: prod.splits)

lemma mmu_map_loop_rpn:
  "mmu_map_loop (Suc n) vpn ra pp seg base actual s = Inr (0, s') \<Longrightarrow> \<exists>rpn. rpn_encode ra base actual = Inr rpn"
  by (auto simp: outcome_simps split: option.splits)

lemma map_count_pos: "\<not> page_size actual < page_size base \<Longrightarrow> \<exists>n. map_count base actual = Suc n"
  by (cases base; cases actual)
    (auto simp: map_count_simps page_size_def PAGE_SIZE_def PAGE_SIZE_16M_def gr0_conv_Suc[symmetric])

text \<open>The pages that \<^verbatim>\<open>mmu_map\<close> or \<^verbatim>\<open>mmu_unmap\<close> works on, none of them in the table yet.\<close>

definition unmapped :: "mmu_t \<Rightarrow> seg_size_t \<Rightarrow> page_size_t \<Rightarrow> page_size_t \<Rightarrow> vpn_t \<Rightarrow> bool" where
  "unmapped s seg base actual vpn \<longleftrightarrow>
     list_all (\<lambda>v. pt_lookup s (page_key s seg base v) = None) (page_vpns base (map_count base actual) vpn)"

lemma mmu_map_lookup:
  assumes i: "pt_inv s" "hash_mask_ok s"
    and ea: "ea_2_vpn guest ea = Inr vpn" "ea_2_seg_size guest ea = Inr seg" "ea_2_base_size guest ea = Inr base"
    and un: "unmapped s seg base actual vpn" and m: "mmu_map guest ea ra pp actual s = Inr s'"
  obtains rpn where "rpn_encode ra base actual = Inr rpn" "pt_inv s'"
    "pt_lookup s' = pt_lookup s ++
       map_of (page_entries s seg base actual pp rpn (page_vpns base (map_count base actual) vpn))"
proof -
  let ?vs = "page_vpns base (map_count base actual) vpn"
  note loop = m[unfolded mmu_map_Inr[OF ea]]
  obtain rpn where rpn: "rpn_encode ra base actual = Inr rpn"
    using loop map_count_pos mmu_map_loop_rpn by metis
  have "pt.put_all (page_entries s seg base actual pp rpn ?vs) s = Some s'"
    using loop mmu_map_loop_put_all[OF rpn] by simp
  moreover have "distinct (map fst (page_entries s seg base actual pp rpn ?vs))"
    using page_vpns_distinct[OF i(2)] loop by (simp add: page_entries_def comp_def)
  moreover have "\<forall>(k, v) \<in> set (page_entries s seg base actual pp rpn ?vs). pt_fits k v \<and> pt_lookup s k = None"
    using un page_pte_fits by (auto simp: page_entries_def unmapped_def list_all_iff page_key_def)
  ultimately show thesis using pt.put_all_lookup[OF i(1)] that rpn by blast
qed

lemma mmu_map_frame:
  "mmu_map guest ea ra pp actual s = Inr s' \<Longrightarrow> \<exists>m. s' = s\<lparr>htab_mem := m\<rparr>"
  by (auto simp: mmu_map_def mmu_map_vpn_def outcome_simps dest: mmu_map_loop_frame)

lemma frame_simps:
  "hash_mask_ok (s\<lparr>htab_mem := m\<rparr>) = hash_mask_ok s"
  by (simp add: hash_mask_ok_def)

lemma frame_eqs:
  assumes "s' = s\<lparr>htab_mem := m\<rparr>"
  shows "page_key s' = page_key s" "hash_mask_ok s' = hash_mask_ok s" "tlb_ops s' = tlb_ops s"
    "slb s' = slb s" "htab_hash_mask s' = htab_hash_mask s"
  using assms by (simp_all add: frame_simps)

text \<open>Where the entries go: the keys, and nothing else.\<close>

lemma map_of_page_entries:
  "map_of (page_entries s seg base actual pp rpn vs) k = None \<longleftrightarrow> k \<notin> page_key s seg base ` set vs"
  by (auto simp: page_entries_def map_of_eq_None_iff image_iff)

lemma map_of_page_entries_Some:
  "distinct (map (page_key s seg base) vs) \<Longrightarrow> v \<in> set vs \<Longrightarrow>
   map_of (page_entries s seg base actual pp rpn vs) (page_key s seg base v) =
     Some (page_pte seg base actual pp rpn v)"
  by (rule map_of_is_SomeI) (auto simp: page_entries_def comp_def)

text \<open>
  C26: Unmapping a page that \<^verbatim>\<open>mmu_map\<close> has just mapped succeeds and takes the page table back to
  the map it was before, every other page's translation included; the TLB is told to drop each of
  the page's base pages, in order.
\<close>
theorem mmu_map_unmap:
  assumes "pt_inv s" "hash_mask_ok s" "ea_2_vpn guest ea = Inr vpn" "ea_2_seg_size guest ea = Inr seg"
    "ea_2_base_size guest ea = Inr base" "unmapped s seg base actual vpn"
    "mmu_map guest ea ra pp actual s = Inr s1"
  shows "\<exists>s2. mmu_unmap guest ea actual s1 = Inr s2 \<and> pt_inv s2 \<and> pt_lookup s2 = pt_lookup s \<and>
     tlb_ops s2 = tlb_ops s @
       map (\<lambda>v. Tlbie (tlbie_rb v seg base actual)) (page_vpns base (map_count base actual) vpn)"
proof -
  let ?vs = "page_vpns base (map_count base actual) vpn"
  obtain rpn where l: "pt_inv s1"
    "pt_lookup s1 = pt_lookup s ++ map_of (page_entries s seg base actual pp rpn ?vs)"
    using mmu_map_lookup[OF assms] by metis
  obtain m where "s1 = s\<lparr>htab_mem := m\<rparr>" using mmu_map_frame assms(7) by blast
  note fr = frame_eqs[OF this]
  note ok = assms(7)[unfolded mmu_map_Inr[OF assms(3-5)]]
  have d: "distinct (map (page_key s seg base) ?vs)" using page_vpns_distinct[OF assms(2)] ok by blast
  have "\<forall>v \<in> set ?vs. pt_lookup s1 (page_key s1 seg base v) \<noteq> None"
    using map_of_page_entries_Some[OF d] by (auto simp: l(2) fr map_add_def)
  from mmu_unmap_loop_ok[OF l(1) _ this, of actual] d obtain s2 where s2:
    "mmu_unmap_loop (map_count base actual) vpn seg base actual s1 = (0, s2)" "pt_inv s2"
    "pt_lookup s2 = (\<lambda>k. if k \<in> page_key s seg base ` set ?vs then None else pt_lookup s1 k)"
    "tlb_ops s2 = tlb_ops s @ map (\<lambda>v. Tlbie (tlbie_rb v seg base actual)) ?vs"
    by (auto simp: fr)
  have "pt_lookup s2 k = pt_lookup s k" for k
    using assms(6) map_of_page_entries[of s seg base actual pp rpn ?vs k]
    by (auto simp: s2(3) l(2) unmapped_def list_all_iff map_add_def)
  then show ?thesis
    using s2 ok by (auto simp: mmu_unmap_Inr[OF assms(3-5)])
qed

definition mmu_empty :: mmu_t where
  "mmu_empty = \<lparr>slb = \<lambda>_. slb_invalid, htab = 0x8000000040000000, htab_mem = \<lambda>_. \<lparr>pte_v = 0, pte_r = 0\<rparr>,
     ptegs = 2048, htab_size = 0x40000, htab_hash_mask = 2047, sdr1 = 0x40000000, hv_msr = 0, tlb_ops = []\<rparr>"

lemma mmu_empty_table:
  "pt_inv mmu_empty" "hash_mask_ok mmu_empty" "pt_lookup mmu_empty k = None"
proof -
  have v: "\<not> pte_matches a (htab_mem mmu_empty i)" for a i
    by (simp add: mmu_empty_def pte_matches_def pte_valid_def)
  show "pt_inv mmu_empty" "pt_lookup mmu_empty k = None"
    using v by (auto simp: pt_inv_def pt_lookup_def pteg_find_None split: prod.splits)
  show "hash_mask_ok mmu_empty" by (simp add: hash_mask_ok_def mmu_empty_def mask_eq_exp_minus_1)
qed

lemma hv_example:
  "ea_2_vpn None 0x8000000021000000 = Inr 0x8765432100021000"
  "ea_2_seg_size None 0x8000000021000000 = Inr SEG_1T"
  "ea_2_base_size None 0x8000000021000000 = Inr PAGE_16M"
  by (simp_all add: ea_2_vpn_def ea_2_seg_size_def ea_2_base_size_def ppc sid_shift_def)

lemma mmu_empty_map:
  "\<exists>s1. mmu_map None 0x8000000021000000 0x21000000 PP_RWXX PAGE_16M mmu_empty = Inr s1"
proof -
  have "pteg_free mmu_empty g = Some g" for g
    by (simp add: pteg_free_def mmu_empty_def pte_valid_def upt_conv_Cons PTES_PER_GROUP_def)
  then show ?thesis
    by (simp add: mmu_map_Inr[OF hv_example] map_count_simps page_size_def PAGE_SIZE_16M_def
        rpn_encode_def PTE_R_RPN_16M_def Let_def)
qed

lemma mmu_empty_unmapped: "unmapped mmu_empty seg base actual vpn"
  by (simp add: unmapped_def list_all_iff mmu_empty_table)

theorem mmu_map_unmap_witness:
  "\<exists>s1 s2. mmu_map None 0x8000000021000000 0x21000000 PP_RWXX PAGE_16M mmu_empty = Inr s1 \<and>
     mmu_unmap None 0x8000000021000000 PAGE_16M s1 = Inr s2 \<and> pt_lookup s2 = pt_lookup mmu_empty"
  using mmu_empty_map mmu_map_unmap[OF mmu_empty_table(1,2) hv_example mmu_empty_unmapped] by metis

section \<open>When mapping stops the machine\<close>

text \<open>
  For a page as large as its segment's base pages, \<^verbatim>\<open>mmu_map\<close> stops with a spill exactly when
  the effective and real addresses are fine and all eight entries of the page's group are in use:
  there is no secondary group and nothing is evicted.
\<close>
theorem mmu_map_spills_iff:
  assumes "ea_2_vpn guest ea = Inr vpn" "ea_2_seg_size guest ea = Inr seg"
    "ea_2_base_size guest ea = Inr base"
  shows "mmu_map guest ea ra pp base s = Inl (Bug ''PTEG spill for EA'') \<longleftrightarrow>
     ea AND NOT (page_size base - 1) = ea \<and> ra AND NOT (page_size base - 1) = ra \<and>
     list_all (\<lambda>k. pte_valid (htab_mem s k))
       [pteg_index s vpn seg base..<pteg_index s vpn seg base + PTES_PER_GROUP]"
proof -
  have c: "unat (page_size base div page_size base) = Suc 0"
    by (cases base) (simp_all add: page_size_def PAGE_SIZE_def PAGE_SIZE_16M_def unat_div)
  show ?thesis
    using assms pteg_free_None[of s "pteg_index s vpn seg base"]
    by (auto simp: mmu_map_def mmu_map_vpn_def bindE_Inl_iff bug_on_Inl_iff c rpn_encode_def Let_def
        list_all_iff outcome_simps split: option.splits if_splits prod.splits)
qed

text \<open>A group filled with eight valid entries, and the page of \<open>hv_example\<close> that hashes to it.\<close>

definition mmu_full :: mmu_t where
  "mmu_full = mmu_empty\<lparr>htab_mem := \<lambda>_. \<lparr>pte_v = cpu_to_be64 PTE_V_VALID, pte_r = 0\<rparr>\<rparr>"

theorem mmu_map_spills_iff_witness:
  "mmu_map None 0x8000000021000000 0x21000000 PP_RWXX PAGE_16M mmu_full = Inl (Bug ''PTEG spill for EA'')"
  unfolding mmu_map_spills_iff[OF hv_example]
  by (simp add: page_size_def PAGE_SIZE_16M_def list_all_iff mmu_full_def pte_valid_def PTE_V_VALID_def)

section \<open>Mapping a range\<close>

text \<open>The pages of a range, with the real address each goes to.\<close>

definition range_pages :: "ea_t \<Rightarrow> ea_t \<Rightarrow> ra_t \<Rightarrow> page_size_t \<Rightarrow> (ea_t \<times> ra_t) list" where
  "range_pages ea_start ea_end ra actual =
     (if ea_start < ea_end then
        map (\<lambda>j. (ea_start + of_nat j * page_size actual, ra + of_nat j * page_size actual))
          [0..<unat ((ea_end - ea_start) div page_size actual)]
      else [])"

fun map_pages :: "guest_t option \<Rightarrow> prot_t \<Rightarrow> page_size_t \<Rightarrow> (ea_t \<times> ra_t) list \<Rightarrow> mmu_t \<Rightarrow> mmu_t outcome" where
  "map_pages guest prot actual [] s = Inr s"
| "map_pages guest prot actual ((ea, ra) # ps) s =
     bindE (mmu_map guest ea ra prot actual s) (map_pages guest prot actual ps)"

lemma page_size_pow2: "page_size p = 2 ^ page_shift p" "page_shift p < 64" "unat (page_size p) = 2 ^ page_shift p"
  by (cases p; simp add: page_size_def page_shift_def PAGE_SIZE_def PAGE_SIZE_16M_def PAGE_SHIFT_def
      PAGE_SHIFT_16M_def)+

lemma mmu_map_range_loop_eq:
  assumes "unat ea_end = unat addr + n * 2 ^ page_shift actual"
  shows "mmu_map_range_loop n guest addr ea_end ra prot actual s =
     map_pages guest prot actual
       (map (\<lambda>j. (addr + of_nat j * page_size actual, ra + of_nat j * page_size actual)) [0..<n]) s"
  using assms
proof (induction n arbitrary: addr ra s)
  case 0
  then show ?case by (simp add: word_less_nat_alt)
next
  case (Suc n)
  have p: "0 < (2::nat) ^ page_shift actual" by simp
  have lt: "addr < ea_end" using Suc.prems p by (simp add: word_less_nat_alt)
  have "unat addr + 2 ^ page_shift actual < 2 ^ 64"
    using Suc.prems unat_less_exp[of ea_end] by simp
  then have "unat (addr + page_size actual) = unat addr + 2 ^ page_shift actual"
    by (subst unat_add_no_wrap) (simp_all add: page_size_pow2(3))
  then have e: "unat ea_end = unat (addr + page_size actual) + n * 2 ^ page_shift actual"
    using Suc.prems by simp
  have m: "map (\<lambda>j. (addr + of_nat j * page_size actual, ra + of_nat j * page_size actual)) [0..<Suc n] =
    (addr, ra) # map (\<lambda>j. (addr + page_size actual + of_nat j * page_size actual,
       ra + page_size actual + of_nat j * page_size actual)) [0..<n]"
    by (simp add: upt_conv_Cons map_Suc_upt[symmetric] algebra_simps del: upt_Suc)
  show ?case unfolding m using lt Suc.IH[OF e] by (simp cong: bindE_cong)
qed

lemma unat_pow2_dvd_sub:
  assumes "(e - a) mod page_size p = 0" "a < e"
  shows "unat e = unat a + unat ((e - a) div page_size p) * 2 ^ page_shift p"
proof -
  have "unat (e - a) mod 2 ^ page_shift p = 0"
    using assms(1) unat_mod[of "e - a" "page_size p"] unfolding page_size_pow2(3) by simp
  moreover have "unat ((e - a) div page_size p) = unat (e - a) div 2 ^ page_shift p"
    by (simp add: unat_div page_size_pow2(3))
  moreover have "unat (e - a) = unat e - unat a" using assms(2) by (simp add: unat_sub order_less_imp_le)
  ultimately show ?thesis
    using assms(2) by (metis add_0_right div_mult_mod_eq le_add_diff_inverse less_imp_le word_less_nat_alt)
qed

lemma mmu_map_range_pages:
  "mmu_map_range guest ea_start ea_end ra prot actual s =
     (if (ea_end - ea_start) mod page_size actual \<noteq> 0 then Inl (Bug ''range not aligned'')
      else map_pages guest prot actual (range_pages ea_start ea_end ra actual) s)"
proof (cases "ea_start < ea_end")
  case True
  then show ?thesis
    using mmu_map_range_loop_eq[OF unat_pow2_dvd_sub[OF _ True, of actual]]
    by (simp add: mmu_map_range_def range_pages_def)
next
  case False
  then have "mmu_map_range_loop n guest ea_start ea_end ra prot actual s = Inr s" for n
    by (cases n) simp_all
  then show ?thesis using False by (simp add: mmu_map_range_def range_pages_def)
qed

text \<open>
  \<^verbatim>\<open>mmu_map_range\<close> always comes to an end: when the length of the range is a multiple of the
  page size it maps the pages of the range one after the other, the real address advancing with
  the effective address, and otherwise it stops before mapping anything.
\<close>
theorem mmu_map_range_eq:
  "mmu_map_range guest ea_start ea_end ra prot actual s =
     (if (ea_end - ea_start) mod page_size actual \<noteq> 0 then Inl (Bug ''range not aligned'')
      else map_pages guest prot actual (range_pages ea_start ea_end ra actual) s)"
  by (rule mmu_map_range_pages)

end
