(* ===== verification/Mmu_Walk.thy ===== *)
theory Mmu_Walk
  imports Mmu_Map
begin

text \<open>
  What the processor does with the SLB and the page table that \<^verbatim>\<open>mmu.c\<close> builds: the address
  translation of the Power ISA (segment lookup, hash, search of the primary group, real page
  number), stated independently of the code, and the theorems that the code's tables translate
  the addresses they were built for.
\<close>

section \<open>Address translation of the processor\<close>

text \<open>The one SLB entry of \<open>n\<close> that matches; more than one is a multi-hit and translates nothing.\<close>

definition hw_entry :: "nat \<Rightarrow> mmu_t \<Rightarrow> ea_t \<Rightarrow> slb_entry option" where
  "hw_entry n s ea =
     (case filter (\<lambda>i. slb_match ea (slb s i)) [0..<n] of [i] \<Rightarrow> Some (slb s i) | _ \<Rightarrow> None)"

definition hw_seg :: "slb_entry \<Rightarrow> seg_size_t" where
  "hw_seg e = (if slb_is_1T e then SEG_1T else SEG_256M)"

definition hw_base :: "slb_entry \<Rightarrow> page_size_t" where
  "hw_base e = (if bit (slb_vsid e) 8 then PAGE_16M else PAGE_4K)"

definition hw_vsid :: "slb_entry \<Rightarrow> u64" where
  "hw_vsid e = drop_bit (if slb_is_1T e then 24 else 12) (take_bit 62 (slb_vsid e))"

definition hw_vpn :: "slb_entry \<Rightarrow> ea_t \<Rightarrow> vpn_t" where
  "hw_vpn e ea =
     push_bit (sid_shift (hw_seg e) - VPN_SHIFT) (hw_vsid e) OR
     drop_bit VPN_SHIFT (take_bit (sid_shift (hw_seg e)) ea)"

text \<open>The group is chosen by as many bits of the hash as the HTABSIZE field of SDR1 says.\<close>

definition hw_group :: "mmu_t \<Rightarrow> seg_size_t \<Rightarrow> page_size_t \<Rightarrow> vpn_t \<Rightarrow> nat" where
  "hw_group s seg base vpn =
     unat (vpn_hash vpn seg base AND mask (11 + unat (take_bit 5 (sdr1 s)))) * PTES_PER_GROUP"

definition hw_size :: "page_size_t \<Rightarrow> pte_t \<Rightarrow> page_size_t option" where
  "hw_size base p =
     (let l = bit (be64_to_cpu (pte_v p)) 2;
          lp = take_bit 8 (drop_bit 12 (be64_to_cpu (pte_r p)))
      in if \<not> l then (if base = PAGE_4K then Some PAGE_4K else None)
         else if base = PAGE_16M \<and> lp = 0 then Some PAGE_16M
         else if base = PAGE_4K \<and> lp = 0x38 then Some PAGE_16M
         else None)"

definition hw_match :: "seg_size_t \<Rightarrow> page_size_t \<Rightarrow> u64 \<Rightarrow> pte_t \<Rightarrow> bool" where
  "hw_match seg base avpn p \<longleftrightarrow>
     pte_matches avpn p \<and> bit (be64_to_cpu (pte_v p)) 62 = (seg = SEG_1T) \<and>
     \<not> bit (be64_to_cpu (pte_v p)) 63 \<and> \<not> bit (be64_to_cpu (pte_v p)) 1 \<and> hw_size base p \<noteq> None"

definition hw_pte :: "mmu_t \<Rightarrow> seg_size_t \<Rightarrow> page_size_t \<Rightarrow> vpn_t \<Rightarrow> pte_t option" where
  "hw_pte s seg base vpn =
     map_option (htab_mem s)
       (find (\<lambda>k. hw_match seg base (avpn_encode vpn base base) (htab_mem s k))
          [hw_group s seg base vpn..<hw_group s seg base vpn + PTES_PER_GROUP])"

definition hw_ra :: "page_size_t \<Rightarrow> pte_t \<Rightarrow> ea_t \<Rightarrow> ra_t option" where
  "hw_ra base p ea =
     map_option (\<lambda>sz. (be64_to_cpu (pte_r p) AND (if sz = PAGE_16M then PTE_R_RPN_16M else PTE_R_RPN_4K))
                      OR take_bit (page_shift sz) ea) (hw_size base p)"

definition hw_translate :: "nat \<Rightarrow> mmu_t \<Rightarrow> ea_t \<Rightarrow> ra_t option" where
  "hw_translate n s ea =
     (case hw_entry n s ea of None \<Rightarrow> None
      | Some e \<Rightarrow>
          (case hw_pte s (hw_seg e) (hw_base e) (hw_vpn e ea) of None \<Rightarrow> None
           | Some p \<Rightarrow> hw_ra (hw_base e) p ea))"

text \<open>Software and hardware choose groups alike.\<close>

definition sdr1_agrees :: "mmu_t \<Rightarrow> bool" where
  "sdr1_agrees s \<longleftrightarrow> htab_hash_mask s = mask (11 + unat (take_bit 5 (sdr1 s)))"

lemma sdr1_agrees_group: "sdr1_agrees s \<Longrightarrow> hw_group s seg base vpn = pteg_no s seg base vpn * PTES_PER_GROUP"
  by (simp add: sdr1_agrees_def hw_group_def pteg_no_def)

lemma sdr1_agrees_mask_ok: "sdr1_agrees s \<Longrightarrow> hash_mask_ok s"
  unfolding sdr1_agrees_def hash_mask_ok_def by (auto intro!: bit_eqI simp: bit_and_iff bit_mask_iff)

section \<open>Entries of the table\<close>

definition RPN_of :: "page_size_t \<Rightarrow> u64" where
  "RPN_of sz = (if sz = PAGE_16M then PTE_R_RPN_16M else PTE_R_RPN_4K)"

text \<open>Protection bits stay outside the real page number and the large-page field.\<close>

definition prot_ok :: "prot_t \<Rightarrow> bool" where
  "prot_ok pp \<longleftrightarrow> pp AND PTE_R_RPN_4K = 0"

lemma RPN_4K_bit: "bit PTE_R_RPN_4K n \<longleftrightarrow> 12 \<le> n \<and> n < 60"
proof -
  have a: "PTE_R_RPN_4K = push_bit 12 (mask 48)" by (simp add: PTE_R_RPN_4K_def push_bit_eq_mult mask_eq_exp_minus_1)
  show ?thesis unfolding a by (auto simp: bit_push_bit_iff bit_mask_iff)
qed

lemma RPN_16M_bit: "bit PTE_R_RPN_16M n \<longleftrightarrow> 24 \<le> n \<and> n < 60"
proof -
  have a: "PTE_R_RPN_16M = push_bit 24 (mask 36)" by (simp add: PTE_R_RPN_16M_def push_bit_eq_mult mask_eq_exp_minus_1)
  show ?thesis unfolding a by (auto simp: bit_push_bit_iff bit_mask_iff)
qed

lemma and_eq_bits: "x AND m = x \<longleftrightarrow> (\<forall>n. bit x n \<longrightarrow> bit m n)" for x m :: "'a::len word"
  by (auto simp: bit_eq_iff bit_and_iff dest: bit_imp_le_length)

lemma and_zero_bits: "x AND m = 0 \<longleftrightarrow> (\<forall>n. bit x n \<longrightarrow> \<not> bit m n)" for x m :: "'a::len word"
  by (auto simp: bit_eq_iff bit_and_iff dest: bit_imp_le_length)

lemma and_eq_and_bits: "x AND m = y AND m \<longleftrightarrow> (\<forall>n. bit m n \<longrightarrow> bit x n = bit y n)" for x y m :: "'a::len word"
  by (auto simp: bit_eq_iff bit_and_iff dest: bit_imp_le_length)

lemma xor_and_zero: "(x XOR y) AND m = 0 \<longleftrightarrow> x AND m = y AND m" for x y m :: "'a::len word"
  unfolding and_zero_bits and_eq_and_bits by (auto simp: bit_xor_iff)

lemma lp_bit: "bit (push_bit 12 0x38 :: u64) n \<longleftrightarrow> n = 15 \<or> n = 16 \<or> n = 17"
proof -
  have "(push_bit 12 0x38 :: u64) = push_bit 15 (mask 3)" by (simp add: push_bit_eq_mult mask_eq_exp_minus_1)
  then show ?thesis by (simp only: bit_push_bit_iff bit_mask_iff) auto
qed

lemma page_pte_v: "be64_to_cpu (pte_v (page_pte seg base actual pp rpn vpn)) =
   avpn_encode vpn base base OR pte_vflags seg actual"
  by (simp add: page_pte_def avpn_encode_actual[of vpn base actual])

lemma page_pte_r: "be64_to_cpu (pte_r (page_pte seg base actual pp rpn vpn)) = rpn OR (pp OR PTE_R_M)"
  by (simp add: page_pte_def)

lemma PTE_R_M_bit: "bit PTE_R_M n \<longleftrightarrow> n = 4"
  unfolding flag_bits by (simp add: bit_push_bit_1 del: push_bit_of_1)

lemma prot_ok_bit: "prot_ok pp \<Longrightarrow> 12 \<le> n \<Longrightarrow> n < 60 \<Longrightarrow> \<not> bit pp n"
  by (auto simp: prot_ok_def and_zero_bits RPN_4K_bit)

text \<open>The entry \<^verbatim>\<open>mmu_map_vpn\<close> writes has the size and the real page it was asked for.\<close>

lemma page_pte_size:
  assumes "rpn_encode ra base actual = Inr rpn" "prot_ok pp" "\<not> page_size actual < page_size base"
  shows "hw_size base (page_pte seg base actual pp rpn vpn) = Some actual"
proof -
  have l: "bit (avpn_encode vpn base base OR pte_vflags seg actual) 2 \<longleftrightarrow> actual \<noteq> PAGE_4K"
    by (simp add: bit_or_iff avpn_encode_bit pte_vflags_bit)
  have lp: "take_bit 8 (drop_bit 12 (rpn OR (pp OR PTE_R_M))) = (if base = PAGE_4K then 0x38 else 0)"
    if a: "actual = PAGE_16M"
  proof -
    have r: "rpn = ra OR push_bit 12 (if base = PAGE_4K then 0x38 else 0)" "ra AND PTE_R_RPN_16M = ra"
      using assms(1) a by (auto simp: rpn_encode_def Let_def outcome_simps ppc)
    have ra: "bit ra n \<Longrightarrow> 24 \<le> n" for n using r(2) by (auto simp: and_eq_bits RPN_16M_bit)
    have 38: "bit (0x38::u64) n \<longleftrightarrow> n = 3 \<or> n = 4 \<or> n = 5" for n
    proof -
      have "(0x38 :: u64) = push_bit 3 (mask 3)" by (simp add: push_bit_eq_mult mask_eq_exp_minus_1)
      then show ?thesis by (simp only: bit_push_bit_iff bit_mask_iff) auto
    qed
    show ?thesis
    proof (rule bit_eqI)
      fix n :: nat
      show "bit (take_bit 8 (drop_bit 12 (rpn OR (pp OR PTE_R_M)))) n = bit (if base = PAGE_4K then 0x38 else 0 :: u64) n"
        using ra[of "12 + n"] prot_ok_bit[OF assms(2), of "12 + n"] 38[of n] unfolding r(1) lp_bit
        by (cases base) (auto simp: bit_take_bit_iff bit_drop_bit_eq bit_or_iff PTE_R_M_bit lp_bit
            simp del: push_bit_numeral)
    qed
  qed
  show ?thesis
    unfolding hw_size_def page_pte_v page_pte_r l Let_def
    using lp assms(3) by (cases base; cases actual) (auto simp: page_size_def PAGE_SIZE_def PAGE_SIZE_16M_def)
qed

lemma page_pte_ra:
  assumes "rpn_encode ra base actual = Inr rpn" "prot_ok pp" "\<not> page_size actual < page_size base"
  shows "hw_ra base (page_pte seg base actual pp rpn vpn) ea = Some (ra OR take_bit (page_shift actual) ea)"
proof -
  have r: "rpn = ra OR push_bit 12 (if actual = PAGE_16M \<and> base = PAGE_4K then 0x38 else 0)"
    "ra AND RPN_of actual = ra"
    using assms(1) by (auto simp: rpn_encode_def Let_def outcome_simps ppc RPN_of_def split: if_splits)
  have m: "bit (RPN_of actual) n \<Longrightarrow> 12 \<le> n \<and> n < 60" "actual = PAGE_16M \<Longrightarrow> bit (RPN_of actual) n \<Longrightarrow> 24 \<le> n" for n
    by (auto simp: RPN_of_def RPN_4K_bit RPN_16M_bit split: if_splits)
  have "(rpn OR (pp OR PTE_R_M)) AND RPN_of actual = ra"
  proof (rule bit_eqI)
    fix n
    show "bit ((rpn OR (pp OR PTE_R_M)) AND RPN_of actual) n = bit ra n"
      using m(1)[of n] m(2)[of n] prot_ok_bit[OF assms(2), of n] r(2)
      unfolding r(1) and_eq_bits
      by (cases "actual = PAGE_16M \<and> base = PAGE_4K")
        (auto simp: bit_and_iff bit_or_iff lp_bit PTE_R_M_bit simp del: push_bit_numeral)
  qed
  then show ?thesis
    by (simp add: hw_ra_def page_pte_size[OF assms] page_pte_r RPN_of_def)
qed

lemma page_pte_hw_match:
  assumes "rpn_encode ra base actual = Inr rpn" "prot_ok pp" "\<not> page_size actual < page_size base"
  shows "hw_match seg base (avpn_encode vpn base base) (page_pte seg base actual pp rpn vpn)"
  using page_pte_fits[of _ vpn base seg actual pp rpn] page_pte_size[OF assms]
  by (simp add: hw_match_def pt_fits_def page_pte_v bit_or_iff pte_vflags_bit avpn_encode_bit
      bit_imp_le_length[of vpn 67] bit_imp_le_length[of vpn 66] )
    (auto dest: bit_imp_le_length)

text \<open>The processor finds the entry the table's map has for a page.\<close>

lemma find_unique:
  assumes "\<And>j. j \<in> set xs \<Longrightarrow> P j \<Longrightarrow> j = k" "k \<in> set xs" "P k"
  shows "find P xs = Some k"
proof (cases "find P xs")
  case None
  then show ?thesis using assms(2,3) by (simp add: find_None_iff)
next
  case (Some j)
  then show ?thesis using find_in[OF Some] assms(1) by simp
qed

lemma pt_invD:
  "pt_inv s \<Longrightarrow> k \<in> {q * PTES_PER_GROUP..<q * PTES_PER_GROUP + PTES_PER_GROUP} \<Longrightarrow>
   k' \<in> {q * PTES_PER_GROUP..<q * PTES_PER_GROUP + PTES_PER_GROUP} \<Longrightarrow>
   pte_matches a (htab_mem s k) \<Longrightarrow> pte_matches a (htab_mem s k') \<Longrightarrow> k = k'"
  unfolding pt_inv_def by blast

lemma hw_pte_lookup:
  assumes i: "pt_inv s" and a: "sdr1_agrees s"
    and l: "pt_lookup s (page_key s seg base vpn) = Some p"
    and m: "hw_match seg base (avpn_encode vpn base base) p"
  shows "hw_pte s seg base vpn = Some p"
proof -
  let ?g = "pteg_no s seg base vpn * PTES_PER_GROUP" and ?a = "avpn_encode vpn base base"
  obtain k where k: "k \<in> {?g..<?g + PTES_PER_GROUP}" "htab_mem s k = p" "pte_matches ?a p"
    using l pt_lookup_Some[OF i] by (auto simp: page_key_def)
  have "find (\<lambda>k. hw_match seg base ?a (htab_mem s k)) [?g..<?g + PTES_PER_GROUP] = Some k"
  proof (rule find_unique)
    fix j assume "j \<in> set [?g..<?g + PTES_PER_GROUP]" "hw_match seg base ?a (htab_mem s j)"
    then have "j \<in> {?g..<?g + PTES_PER_GROUP}" "pte_matches ?a (htab_mem s j)"
      by (auto simp: hw_match_def)
    then show "j = k" using pt_invD[OF i _ k(1)] k by simp
  qed (use k m in auto)
  then show ?thesis by (simp add: hw_pte_def sdr1_agrees_group[OF a] k(2))
qed

section \<open>The segments of the SLB\<close>

definition slb_entry_for :: "ea_t \<Rightarrow> u64 \<Rightarrow> seg_size_t \<Rightarrow> page_size_t \<Rightarrow> slb_entry" where
  "slb_entry_for ea vsid seg base =
     \<lparr>slb_esid = slb_make_esid ea seg 0, slb_vsid = slb_make_vsid vsid seg base\<rparr>"

definition seg_mask :: "seg_size_t \<Rightarrow> u64" where
  "seg_mask seg = (if seg = SEG_1T then ESID_MASK_1T else ESID_MASK_256MB)"

definition vsid_ok :: "seg_size_t \<Rightarrow> u64 \<Rightarrow> bool" where
  "vsid_ok seg vsid \<longleftrightarrow> drop_bit (if seg = SEG_1T then 38 else 50) vsid = 0"

lemma seg_mask_bit: "bit (seg_mask seg) n \<longleftrightarrow> sid_shift seg \<le> n \<and> n < 64"
proof -
  have m: "ESID_MASK_1T = NOT (mask 40)" "ESID_MASK_256MB = NOT (mask 28)"
    by (simp_all add: ESID_MASK_1T_def ESID_MASK_256MB_def mask_eq_exp_minus_1)
  show ?thesis
    unfolding seg_mask_def sid_shift_def SID_SHIFT_1T_def SID_SHIFT_256MB_def m
    by (auto simp: bit_not_iff bit_mask_iff)
qed

lemma slb_make_esid_eq: "slb_make_esid ea seg slot = (ea AND seg_mask seg) OR SLB_ESID_V OR slot"
  by (simp add: slb_make_esid_def seg_mask_def)

lemma SLB_ESID_V_bit: "bit SLB_ESID_V n \<longleftrightarrow> n = 27"
proof -
  have v: "SLB_ESID_V = push_bit 27 1" by (simp add: SLB_ESID_V_def push_bit_eq_mult)
  show ?thesis unfolding v by (simp add: bit_push_bit_1 del: push_bit_of_1)
qed

lemma sid_shift_ge: "28 \<le> sid_shift seg" "sid_shift seg \<le> 40"
  using shift_cases(1)[of seg] by auto

text \<open>\<^verbatim>\<open>slbmte\<close> of the two dwords the code makes writes the entry of the segment into the slot.\<close>

lemma slbmte_make:
  assumes "unat slot < 4096"
  shows "slbmte (slb_make_vsid vsid seg base) (slb_make_esid ea seg slot) s =
     s\<lparr>slb := (slb s)(unat slot := slb_entry_for ea vsid seg base)\<rparr>"
proof -
  have sl: "n < 12" if "bit slot n" for n
  proof -
    have "(2::nat) ^ n < 2 ^ 12" using unat_ge_of_bit[OF that] assms by simp
    then show ?thesis using power_strict_increasing_iff[of "2::nat" n 12] by simp
  qed
  have "slb_make_esid ea seg slot AND mask 12 = slot"
  proof (rule bit_eqI)
    fix n
    show "bit (slb_make_esid ea seg slot AND mask 12) n = bit slot n"
      using sl[of n] sid_shift_ge(1)[of seg]
      by (auto simp: slb_make_esid_eq bit_and_iff bit_or_iff bit_mask_iff seg_mask_bit SLB_ESID_V_bit)
  qed
  moreover have "slb_make_esid ea seg slot AND NOT (mask 12) = slb_make_esid ea seg 0"
  proof (rule bit_eqI)
    fix n
    show "bit (slb_make_esid ea seg slot AND NOT (mask 12)) n = bit (slb_make_esid ea seg 0) n"
      using sl[of n] sid_shift_ge(1)[of seg]
      by (auto simp: slb_make_esid_eq bit_and_iff bit_or_iff bit_not_iff bit_mask_iff seg_mask_bit SLB_ESID_V_bit
          dest: bit_imp_le_length)
  qed
  ultimately show ?thesis by (simp add: slbmte_def slb_entry_for_def)
qed

lemma slb_flag_bit:
  "bit SLB_VSID_KP n \<longleftrightarrow> n = 10" "bit SLB_VSID_L n \<longleftrightarrow> n = 8" "bit SLB_VSID_B_1T n \<longleftrightarrow> n = 62"
proof -
  have c: "SLB_VSID_KP = push_bit 10 1" "SLB_VSID_L = push_bit 8 1" "SLB_VSID_B_1T = push_bit 62 1"
    by (simp_all add: SLB_VSID_KP_def SLB_VSID_L_def SLB_VSID_B_1T_def push_bit_eq_mult)
  show "bit SLB_VSID_KP n \<longleftrightarrow> n = 10" "bit SLB_VSID_L n \<longleftrightarrow> n = 8" "bit SLB_VSID_B_1T n \<longleftrightarrow> n = 62"
    unfolding c by (auto simp: bit_push_bit_1 simp del: push_bit_of_1)
qed

lemma vsid_dword_bit:
  "bit (slb_make_vsid vsid seg base) n \<longleftrightarrow>
     n = 10 \<or> (n = 62 \<and> seg = SEG_1T) \<or> (n = 8 \<and> base = PAGE_16M) \<or>
     ((if seg = SEG_1T then 24 else 12) \<le> n \<and> n < 64 \<and> bit vsid (n - (if seg = SEG_1T then 24 else 12)))"
proof -
  have z: "push_bit SLB_VSID_LP_SHIFT (if base = PAGE_16M then SLB_VSID_LP_16M else SLB_VSID_LP_4K) = 0"
    by (simp add: SLB_VSID_LP_16M_def SLB_VSID_LP_4K_def)
  show ?thesis
    unfolding slb_make_vsid_def Let_def z SLB_VSID_SHIFT_1T_def SLB_VSID_SHIFT_256MB_def
    by (cases seg; cases base)
      (simp_all add: bit_or_iff slb_flag_bit bit_push_bit_iff disj_commute disj_left_commute)
qed

lemma drop_bit_0D: "drop_bit k v = 0 \<Longrightarrow> bit v n \<Longrightarrow> n < k" for v :: "'a::len word"
  using bit_drop_bit_eq[of k v] by (metis bit_0_eq bot_apply bot_bool_def comp_apply le_add_diff_inverse not_le)

lemma vsid_ok_bit: "vsid_ok seg vsid \<Longrightarrow> bit vsid n \<Longrightarrow> n < (if seg = SEG_1T then 38 else 50)"
  unfolding vsid_ok_def by (rule drop_bit_0D)

lemma entry_for_sel:
  assumes "vsid_ok seg vsid"
  shows "slb_is_1T (slb_entry_for ea vsid seg base) \<longleftrightarrow> seg = SEG_1T"
    "hw_seg (slb_entry_for ea vsid seg base) = seg"
    "hw_base (slb_entry_for ea vsid seg base) = base"
    "hw_vsid (slb_entry_for ea vsid seg base) = vsid"
    "slb_is_valid (slb_entry_for ea vsid seg base)"
proof -
  have b62: "x AND SLB_VSID_B_1T \<noteq> 0 \<longleftrightarrow> bit x 62" for x
    by (auto simp: and_zero_bits slb_flag_bit)
  show t: "slb_is_1T (slb_entry_for ea vsid seg base) \<longleftrightarrow> seg = SEG_1T"
    using vsid_ok_bit[OF assms, of 50] vsid_ok_bit[OF assms, of 38]
    by (auto simp: slb_is_1T_def b62 slb_entry_for_def vsid_dword_bit split: if_splits)
  show "hw_seg (slb_entry_for ea vsid seg base) = seg" using t by (cases seg) (simp_all add: hw_seg_def)
  show "hw_base (slb_entry_for ea vsid seg base) = base"
    by (cases base) (auto simp: hw_base_def slb_entry_for_def vsid_dword_bit split: if_splits)
  show "hw_vsid (slb_entry_for ea vsid seg base) = vsid"
  proof (rule bit_eqI)
    fix n
    show "bit (hw_vsid (slb_entry_for ea vsid seg base)) n = bit vsid n"
      using t vsid_ok_bit[OF assms, of n]
      by (cases seg) (auto simp: hw_vsid_def slb_entry_for_def bit_drop_bit_eq bit_take_bit_iff vsid_dword_bit)
  qed
  show "slb_is_valid (slb_entry_for ea vsid seg base)"
    unfolding slb_is_valid_def and_zero_bits slb_entry_for_def slb_make_esid_eq
    by (auto simp: bit_or_iff SLB_ESID_V_bit intro: exI[of _ 27])
qed

lemma entry_for_match:
  assumes "vsid_ok seg vsid"
  shows "slb_match ea' (slb_entry_for ea vsid seg base) \<longleftrightarrow> ea' AND seg_mask seg = ea AND seg_mask seg"
proof -
  have "bit (slb_make_esid ea seg 0) n = bit ea n" if "bit (seg_mask seg) n" for n
    using that sid_shift_ge(1)[of seg]
    by (auto simp: slb_make_esid_eq bit_or_iff bit_and_iff seg_mask_bit SLB_ESID_V_bit)
  then have "(slb_make_esid ea seg 0 XOR ea') AND seg_mask seg = 0 \<longleftrightarrow> ea' AND seg_mask seg = ea AND seg_mask seg"
    unfolding xor_and_zero and_eq_and_bits by metis
  then show ?thesis
    unfolding slb_match_def using entry_for_sel[OF assms]
    by (simp add: seg_mask_def slb_entry_for_def)
qed

lemma slb_invalid_match [simp]: "\<not> slb_match ea slb_invalid"
  by (simp add: slb_match_def slb_is_valid_def slb_invalid_def)

end
