(* ===== verification/Mmu_Slb.thy ===== *)
theory Mmu_Slb
  imports Mmu_Walk
begin

text \<open>
  The layout of the SLB that \<^verbatim>\<open>slb_init\<close>, \<^verbatim>\<open>mmu_guest_update\<close> and \<^verbatim>\<open>mmu_guest_fault_seg\<close> keep: the
  hypervisor's and the vectors' segments always, and for the guest either the one real-mode
  segment or a subset of the sixteen segments of its segment registers. With it, the translation
  the processor performs is the one \<^verbatim>\<open>ea_2_vpn\<close>, \<^verbatim>\<open>ea_2_seg_size\<close> and \<^verbatim>\<open>ea_2_base_size\<close> compute.
\<close>

definition hv_entry :: slb_entry where
  "hv_entry = slb_entry_for HV_ASPACE HV_VSID SEG_1T PAGE_16M"

definition ail_entry :: slb_entry where
  "ail_entry = slb_entry_for AIL_ASPACE_START AIL_VSID SEG_256M PAGE_4K"

definition grm_entry :: slb_entry where
  "grm_entry = slb_entry_for LAYOUT_VM_START GRM_VSID SEG_1T PAGE_16M"

definition sr_entry :: "guest_t \<Rightarrow> nat \<Rightarrow> slb_entry" where
  "sr_entry g i =
     slb_entry_for (SR_INDEX_TO_EA (of_nat i)) (ucast (g_sr g ! i AND SR_VSID_MASK)) SEG_256M PAGE_4K"

text \<open>Invariant of the SLB; the first argument says whether the guest's MMU is off.\<close>

definition slb_inv :: "bool \<Rightarrow> guest_t \<Rightarrow> mmu_t \<Rightarrow> bool" where
  "slb_inv off g s \<longleftrightarrow>
     slb s 0 = hv_entry \<and> slb s 1 = ail_entry \<and>
     slb s 2 = (if off then grm_entry else slb_invalid) \<and>
     (\<forall>i < SR_COUNT. slb s (i + 3) = slb_invalid \<or> (\<not> off \<and> slb s (i + 3) = sr_entry g i)) \<and>
     (\<forall>i \<ge> SR_COUNT + 3. slb s i = slb_invalid)"

lemma slb_invD:
  assumes "slb_inv off g s"
  shows "slb s 0 = hv_entry" "slb s (Suc 0) = ail_entry" "slb s 2 = (if off then grm_entry else slb_invalid)"
    "3 \<le> i \<Longrightarrow> slb s i = slb_invalid \<or> (\<not> off \<and> i - 3 < SR_COUNT \<and> slb s i = sr_entry g (i - 3))"
proof -
  show "slb s 0 = hv_entry" "slb s (Suc 0) = ail_entry" "slb s 2 = (if off then grm_entry else slb_invalid)"
    using assms by (simp_all add: slb_inv_def)
  assume i: "3 \<le> i"
  show "slb s i = slb_invalid \<or> (\<not> off \<and> i - 3 < SR_COUNT \<and> slb s i = sr_entry g (i - 3))"
  proof (cases "i - 3 < SR_COUNT")
    case True
    then have "slb s (i - 3 + 3) = slb_invalid \<or> (\<not> off \<and> slb s (i - 3 + 3) = sr_entry g (i - 3))"
      using assms unfolding slb_inv_def by blast
    then show ?thesis using i True by simp
  next
    case False
    then show ?thesis using assms i unfolding slb_inv_def by auto
  qed
qed

lemma vsids_ok [simp]:
  "vsid_ok SEG_1T HV_VSID" "vsid_ok SEG_256M AIL_VSID" "vsid_ok SEG_1T GRM_VSID"
  "vsid_ok SEG_256M (ucast (v AND SR_VSID_MASK))"
proof -
  show "vsid_ok SEG_1T HV_VSID" "vsid_ok SEG_256M AIL_VSID" "vsid_ok SEG_1T GRM_VSID"
    by (simp_all add: vsid_ok_def HV_VSID_def AIL_VSID_def GRM_VSID_def)
  show "vsid_ok SEG_256M (ucast (v AND SR_VSID_MASK))"
    unfolding vsid_ok_def
    by (rule bit_eqI) (auto simp: bit_drop_bit_eq bit_ucast_iff dest: bit_imp_le_length)
qed

subsection \<open>Which addresses the entries match\<close>

definition seg_of :: "seg_size_t \<Rightarrow> ea_t \<Rightarrow> u64" where
  "seg_of seg ea = drop_bit (sid_shift seg) ea"

lemma seg_mask_seg_of: "x AND seg_mask seg = y AND seg_mask seg \<longleftrightarrow> seg_of seg x = seg_of seg y"
proof
  assume h: "x AND seg_mask seg = y AND seg_mask seg"
  show "seg_of seg x = seg_of seg y"
    unfolding seg_of_def
  proof (rule bit_eqI)
    fix n
    show "bit (drop_bit (sid_shift seg) x) n = bit (drop_bit (sid_shift seg) y) n"
      using h[unfolded and_eq_and_bits seg_mask_bit, rule_format, of "sid_shift seg + n"]
        bit_imp_le_length[of x "sid_shift seg + n"] bit_imp_le_length[of y "sid_shift seg + n"]
      by (auto simp: bit_drop_bit_eq)
  qed
next
  assume h: "seg_of seg x = seg_of seg y"
  show "x AND seg_mask seg = y AND seg_mask seg"
    unfolding and_eq_and_bits seg_mask_bit
  proof (intro allI impI)
    fix n assume "sid_shift seg \<le> n \<and> n < 64"
    then show "bit x n = bit y n"
      using arg_cong[OF h, of "\<lambda>z. bit z (n - sid_shift seg)"] by (simp add: seg_of_def bit_drop_bit_eq)
  qed
qed

lemma slb_match_seg:
  "vsid_ok seg vsid \<Longrightarrow> slb_match x (slb_entry_for ea vsid seg base) \<longleftrightarrow> seg_of seg x = seg_of seg ea"
  by (simp add: entry_for_match seg_mask_seg_of)

lemma SR_INDEX_seg_of: "SR_INDEX ea = seg_of SEG_256M ea"
  by (simp add: SR_INDEX_def seg_of_def sid_shift_def SID_SHIFT_256MB_def)

lemma seg_of_SR: "i < SR_COUNT \<Longrightarrow> seg_of SEG_256M (SR_INDEX_TO_EA (of_nat i)) = of_nat i"
proof -
  assume i: "i < SR_COUNT"
  have "n < 4" if "bit (of_nat i :: u64) n" for n
  proof -
    have "(2::nat) ^ n < 2 ^ 4" using unat_ge_of_bit[OF that] i by (simp add: SR_COUNT_def unat_of_nat)
    then show ?thesis using power_strict_increasing_iff[of "2::nat" n 4] by simp
  qed
  then have "bit (of_nat i :: u64) n \<Longrightarrow> n < 36" for n by fastforce
  then show ?thesis
    unfolding seg_of_def SR_INDEX_TO_EA_def sid_shift_def SID_SHIFT_256MB_def
    by (intro bit_eqI) (auto simp: bit_drop_bit_eq bit_push_bit_iff)
qed

lemma matches:
  "slb_match ea hv_entry \<longleftrightarrow> seg_of SEG_1T ea = 0x800000"
  "slb_match ea ail_entry \<longleftrightarrow> seg_of SEG_256M ea = 0xc00000000"
  "slb_match ea grm_entry \<longleftrightarrow> seg_of SEG_1T ea = 0"
  "i < SR_COUNT \<Longrightarrow> slb_match ea (sr_entry g i) \<longleftrightarrow> seg_of SEG_256M ea = of_nat i"
  by (simp_all add: hv_entry_def ail_entry_def grm_entry_def sr_entry_def slb_match_seg seg_of_SR)
    (simp_all add: seg_of_def sid_shift_def HV_ASPACE_def AIL_ASPACE_START_def LAYOUT_VM_START_def
      SID_SHIFT_1T_def SID_SHIFT_256MB_def)

text \<open>A 1TB segment number is the upper part of a 256MB one.\<close>

lemma seg_of_1T: "seg_of SEG_1T ea = drop_bit 12 (seg_of SEG_256M ea)"
  by (simp add: seg_of_def sid_shift_def SID_SHIFT_1T_def SID_SHIFT_256MB_def)

lemma filter_unique: "i < n \<Longrightarrow> P i \<Longrightarrow> (\<And>j. j < n \<Longrightarrow> P j \<Longrightarrow> j = i) \<Longrightarrow> filter P [0..<n] = [i]"
proof (induction n)
  case (Suc n)
  show ?case
  proof (cases "i = n")
    case True
    then have "filter P [0..<n] = []" using Suc.prems(3) by (auto simp: filter_empty_conv) (metis less_SucI less_irrefl)
    then show ?thesis using True Suc.prems(2) by simp
  next
    case False
    then show ?thesis using Suc by (auto simp: less_Suc_eq)
  qed
qed simp

lemma hw_entry_unique:
  assumes "i < n" "slb_match ea (slb s i)" "\<And>j. slb_match ea (slb s j) \<Longrightarrow> j = i"
  shows "hw_entry n s ea = Some (slb s i)"
proof -
  have "filter (\<lambda>j. slb_match ea (slb s j)) [0..<n] = [i]" using assms by (intro filter_unique)
  then show ?thesis by (simp add: hw_entry_def)
qed

text \<open>The slot that serves an address, and that no other does.\<close>

lemma slb_slot_unique:
  assumes "slb_inv off g s" "slb_match ea (slb s i)"
  shows "(i = 0 \<and> seg_of SEG_1T ea = 0x800000) \<or> (i = 1 \<and> seg_of SEG_256M ea = 0xc00000000) \<or>
    (i = 2 \<and> off \<and> seg_of SEG_1T ea = 0) \<or>
    (3 \<le> i \<and> i - 3 < SR_COUNT \<and> \<not> off \<and> seg_of SEG_256M ea = of_nat (i - 3))"
proof -
  consider "i = 0" | "i = 1" | "i = 2" | "3 \<le> i" by linarith
  then show ?thesis
  proof cases
    case 4
    then show ?thesis using slb_invD(4)[OF assms(1) 4] assms(2) matches(4)[of "i - 3" ea g] by auto
  qed (use assms(2) slb_invD(1-3)[OF assms(1)] in \<open>auto simp: matches split: if_splits\<close>)
qed

lemma hw_entry_cases:
  assumes i: "slb_inv off g s" and n: "SR_COUNT + 3 \<le> n"
  shows "seg_of SEG_1T ea = 0x800000 \<Longrightarrow> hw_entry n s ea = Some hv_entry"
    "seg_of SEG_256M ea = 0xc00000000 \<Longrightarrow> hw_entry n s ea = Some ail_entry"
    "off \<Longrightarrow> seg_of SEG_1T ea = 0 \<Longrightarrow> hw_entry n s ea = Some grm_entry"
    "\<not> off \<Longrightarrow> k < SR_COUNT \<Longrightarrow> seg_of SEG_256M ea = of_nat k \<Longrightarrow> slb s (k + 3) \<noteq> slb_invalid \<Longrightarrow>
       hw_entry n s ea = Some (sr_entry g k)"
proof -
  have n': "0 < n" "1 < n" "2 < n" using n by (simp_all add: SR_COUNT_def)
  have small: "(of_nat j :: u64) < 16" if "j < SR_COUNT" for j
    using that by (simp add: SR_COUNT_def word_less_nat_alt unat_of_nat)
  have t: "drop_bit 12 (of_nat j :: u64) = 0" if "j < SR_COUNT" for j
    using that by (simp add: drop_bit_eq_div word_unat_eq_iff unat_div unat_of_nat SR_COUNT_def)
  note u = slb_slot_unique[OF i, of ea]
  show "hw_entry n s ea = Some hv_entry" if h: "seg_of SEG_1T ea = 0x800000"
  proof -
    have "j = 0" if "slb_match ea (slb s j)" for j
      using u[OF that] h t[of "j - 3"] by (auto simp: seg_of_1T simp del: of_nat_diff)
    then show ?thesis using hw_entry_unique[OF n'(1)] slb_invD(1)[OF i] h matches(1) by metis
  qed
  show "hw_entry n s ea = Some ail_entry" if h: "seg_of SEG_256M ea = 0xc00000000"
  proof -
    have "j = 1" if "slb_match ea (slb s j)" for j
      using u[OF that] h t[of "j - 3"] small[of "j - 3"] by (auto simp: seg_of_1T simp del: of_nat_diff)
    then show ?thesis using hw_entry_unique[OF n'(2)] slb_invD(2)[OF i] h matches(2) by (metis One_nat_def)
  qed
  show "hw_entry n s ea = Some grm_entry" if o: "off" and h: "seg_of SEG_1T ea = 0"
  proof -
    have "j = 2" if "slb_match ea (slb s j)" for j
      using u[OF that] h o by (auto simp: seg_of_1T)
    then show ?thesis using hw_entry_unique[OF n'(3)] slb_invD(3)[OF i] h o matches(3) by metis
  qed
  show "hw_entry n s ea = Some (sr_entry g k)"
    if o: "\<not> off" and k: "k < SR_COUNT" and h: "seg_of SEG_256M ea = of_nat k" and v: "slb s (k + 3) \<noteq> slb_invalid"
  proof -
    have e: "slb s (k + 3) = sr_entry g k" using slb_invD(4)[OF i, of "k + 3"] v by simp
    have "j = k + 3" if "slb_match ea (slb s j)" for j
    proof -
      have "(of_nat k :: u64) \<noteq> 0xc00000000" using small[OF k] by auto
      then have "3 \<le> j \<and> j - 3 < SR_COUNT \<and> (of_nat (j - 3) :: u64) = of_nat k"
        using u[OF that] h o t[OF k] by (auto simp: seg_of_1T simp del: of_nat_diff)
      then show ?thesis using k by (auto simp: word_unat_eq_iff unat_of_nat SR_COUNT_def)
    qed
    moreover have "k + 3 < n" using k n by simp
    ultimately show ?thesis using hw_entry_unique[of "k + 3" n ea s] e h matches(4)[OF k] by metis
  qed
qed

section \<open>The code's view of an address is the processor's\<close>

text \<open>
  The SLB serves an address: the segment size, base page size and virtual page the processor uses
  are the ones \<^verbatim>\<open>mmu_map\<close> and \<^verbatim>\<open>mmu_unmap\<close> compute.
\<close>

definition slb_serves :: "nat \<Rightarrow> mmu_t \<Rightarrow> guest_t option \<Rightarrow> ea_t \<Rightarrow> bool" where
  "slb_serves n s guest ea \<longleftrightarrow>
     (case hw_entry n s ea of None \<Rightarrow> False
      | Some e \<Rightarrow> ea_2_seg_size guest ea = Inr (hw_seg e) \<and> ea_2_base_size guest ea = Inr (hw_base e) \<and>
          ea_2_vpn guest ea = Inr (hw_vpn e ea))"

lemma seg_of_bit: "seg_of seg ea = x \<Longrightarrow> sid_shift seg \<le> n \<Longrightarrow> bit ea n = bit x (n - sid_shift seg)"
  by (auto simp: seg_of_def bit_drop_bit_eq)

lemma sid_shifts [simp]: "sid_shift SEG_1T = 40" "sid_shift SEG_256M = 28"
  by (simp_all add: sid_shift_def SID_SHIFT_1T_def SID_SHIFT_256MB_def)

lemma take_bit_split: "x = take_bit k x OR push_bit k (drop_bit k x)" for x :: "'a::len word"
proof (rule bit_eqI)
  fix n
  show "bit x n = bit (take_bit k x OR push_bit k (drop_bit k x)) n"
    by (cases "k \<le> n") (auto simp: bit_or_iff bit_take_bit_iff bit_push_bit_iff bit_drop_bit_eq dest: bit_imp_le_length)
qed

lemma hv_aspace_iff: "seg_of SEG_1T ea = 0x800000 \<Longrightarrow> ea = take_bit 40 ea OR HV_ASPACE"
  using take_bit_split[of ea 40] by (simp add: seg_of_def HV_ASPACE_def)

lemma ail_aspace_iff: "seg_of SEG_256M ea = 0xc00000000 \<Longrightarrow> ea = take_bit 28 ea OR AIL_ASPACE_START"
  using take_bit_split[of ea 28] by (simp add: seg_of_def AIL_ASPACE_START_def)

lemma AIL_bits: "bit AIL_ASPACE_START n \<longleftrightarrow> n = 62 \<or> n = 63"
proof -
  have a: "AIL_ASPACE_START = push_bit 62 (mask 2)" by (simp add: AIL_ASPACE_START_def push_bit_eq_mult mask_eq_exp_minus_1)
  show ?thesis unfolding a by (auto simp: bit_push_bit_iff bit_mask_iff)
qed

lemma hv_region:
  assumes "seg_of SEG_1T ea = 0x800000"
  shows "\<not> (AIL_ASPACE_START \<le> ea)" "ea AND HV_ASPACE \<noteq> 0" "HV_ASPACE \<le> ea" "ea AND NOT HV_ASPACE = take_bit 40 ea"
proof -
  note e = hv_aspace_iff[OF assms]
  have b: "bit ea n \<longleftrightarrow> (n < 40 \<and> bit ea n) \<or> n = 63" for n
    using arg_cong[OF e, of "\<lambda>x. bit x n"] by (auto simp: bit_or_iff bit_take_bit_iff HV_ASPACE_bit)
  show "ea AND HV_ASPACE \<noteq> 0" using b[of 63] by (auto simp: and_zero_bits HV_ASPACE_bit)
  show "HV_ASPACE \<le> ea" using or_HV_ge[of "take_bit 40 ea"] e by simp
  show "ea AND NOT HV_ASPACE = take_bit 40 ea"
    using b by (intro bit_eqI) (auto simp: bit_and_iff bit_not_iff HV_ASPACE_bit bit_take_bit_iff)
  have "\<not> bit ea 62" using b[of 62] by simp
  show "\<not> (AIL_ASPACE_START \<le> ea)"
  proof
    assume "AIL_ASPACE_START \<le> ea"
    then have "drop_bit 62 AIL_ASPACE_START \<le> drop_bit 62 ea"
      by (simp add: word_le_nat_alt drop_bit_eq_div unat_div div_le_mono)
    moreover have "drop_bit 62 ea = 2"
      by (rule bit_eqI) (use b[of "62 + n" for n] in \<open>auto simp: bit_drop_bit_eq bit_2_iff\<close>)
    ultimately show False by (simp add: AIL_ASPACE_START_def)
  qed
qed

lemma serves_hv:
  assumes i: "slb_inv off g s" "SR_COUNT + 3 \<le> n" and h: "seg_of SEG_1T ea = 0x800000"
  shows "slb_serves n s guest ea"
proof -
  note e = entry_for_sel[OF vsids_ok(1), of HV_ASPACE PAGE_16M, folded hv_entry_def]
  have "hw_vpn hv_entry ea = drop_bit 12 (take_bit 40 ea) OR push_bit 28 HV_VSID"
    by (simp add: hw_vpn_def e VPN_SHIFT_def or.commute)
  then show ?thesis
    using hv_region[OF h]
    by (simp add: slb_serves_def hw_entry_cases(1)[OF i h] e ea_2_seg_size_def ea_2_base_size_def ea_2_vpn_def VPN_SHIFT_def)
qed

lemma ail_region:
  assumes "AIL_ASPACE_START \<le> ea" "ea \<le> AIL_ASPACE_END"
  shows "seg_of SEG_256M ea = 0xc00000000" "ea - AIL_ASPACE_START = take_bit 28 ea"
proof -
  let ?d = "ea - AIL_ASPACE_START"
  have u: "unat ?d = unat ea - unat AIL_ASPACE_START" using assms(1) by (simp add: unat_sub)
  have d: "unat ?d < 2 ^ 28"
    using assms(2) unfolding u by (simp add: word_le_nat_alt AIL_ASPACE_START_def AIL_ASPACE_END_def)
  have ue: "unat ea = unat ?d + 0xc000000000000000"
    using assms(1) unfolding u by (simp add: word_le_nat_alt AIL_ASPACE_START_def)
  have "(x + 0xc000000000000000) div 2 ^ 28 = 0xc00000000" "(x + 0xc000000000000000) mod 2 ^ 28 = x"
    if "x < 2 ^ 28" for x :: nat
    using that mod_mult_self1[of x "0xc00000000 :: nat" "2 ^ 28"] by simp_all
  from this[OF d] have "unat ea div 2 ^ 28 = 0xc00000000" "unat ea mod 2 ^ 28 = unat ?d" unfolding ue .
  then show "seg_of SEG_256M ea = 0xc00000000" "?d = take_bit 28 ea"
    by (simp_all add: seg_of_def word_unat_eq_iff drop_bit_eq_div take_bit_eq_mod unat_div unat_mod)
qed

lemma serves_ail:
  assumes i: "slb_inv off g s" "SR_COUNT + 3 \<le> n" and h: "AIL_ASPACE_START \<le> ea" "ea \<le> AIL_ASPACE_END"
  shows "slb_serves n s guest ea"
proof -
  note e = entry_for_sel[OF vsids_ok(2), of AIL_ASPACE_START PAGE_4K, folded ail_entry_def]
  have "hw_vpn ail_entry ea = drop_bit 12 (take_bit 28 ea) OR push_bit 16 AIL_VSID"
    by (simp add: hw_vpn_def e VPN_SHIFT_def or.commute)
  then show ?thesis
    using h ail_region[OF h]
    by (simp add: slb_serves_def hw_entry_cases(2)[OF i] e ea_2_seg_size_def ea_2_base_size_def ea_2_vpn_def VPN_SHIFT_def)
qed

lemma guest_region:
  assumes "ea < LAYOUT_VM_END"
  shows "\<not> LAYOUT_VM_END \<le> ea" "\<not> AIL_ASPACE_START \<le> ea" "ea AND HV_ASPACE = 0" "\<not> HV_ASPACE \<le> ea" "seg_of SEG_1T ea = 0"
    "seg_of SEG_256M ea = of_nat (unat ea div 2 ^ 28)" "unat ea div 2 ^ 28 < SR_COUNT" "ea = take_bit 40 ea"
proof -
  have u: "unat ea < 2 ^ 32" using assms by (simp add: LAYOUT_VM_END_def word_less_nat_alt)
  show "\<not> LAYOUT_VM_END \<le> ea" using assms by simp
  show "\<not> AIL_ASPACE_START \<le> ea" "\<not> HV_ASPACE \<le> ea"
    using u by (simp_all add: word_le_nat_alt AIL_ASPACE_START_def HV_ASPACE_def)
  have b: "n < 32" if "bit ea n" for n
  proof -
    have "(2::nat) ^ n < 2 ^ 32" using unat_ge_of_bit[OF that] u by simp
    then show ?thesis using power_strict_increasing_iff[of "2::nat" n 32] by simp
  qed
  then show "ea AND HV_ASPACE = 0" by (force simp: and_zero_bits HV_ASPACE_bit)
  show "seg_of SEG_1T ea = 0"
    using u by (simp add: seg_of_def word_unat_eq_iff drop_bit_eq_div unat_div)
  show "seg_of SEG_256M ea = of_nat (unat ea div 2 ^ 28)"
    using u by (simp add: seg_of_def word_unat_eq_iff drop_bit_eq_div unat_div unat_of_nat)
  show "unat ea div 2 ^ 28 < SR_COUNT" using u by (simp add: SR_COUNT_def)
  show "ea = take_bit 40 ea"
    using u by (simp add: word_unat_eq_iff take_bit_eq_mod unat_mod)
qed

lemma serves_grm:
  assumes i: "slb_inv True g s" "SR_COUNT + 3 \<le> n" and h: "ea < LAYOUT_VM_END"
    and o: "guest_is_mmu_off (Some g) = Inr True"
  shows "slb_serves n s (Some g) ea"
proof -
  note e = entry_for_sel[OF vsids_ok(3), of LAYOUT_VM_START PAGE_16M, folded grm_entry_def]
  have "hw_vpn grm_entry ea = drop_bit 12 ea OR push_bit 28 GRM_VSID"
    using guest_region(8)[OF h] by (simp add: hw_vpn_def e VPN_SHIFT_def or.commute)
  then show ?thesis
    using h o guest_region[OF h]
    by (simp add: slb_serves_def hw_entry_cases(3)[OF i] e ea_2_seg_size_def ea_2_base_size_def ea_2_vpn_def
        VPN_SHIFT_def LAYOUT_VM_START_def)
qed

text \<open>
  With the guest's MMU on the two views differ in general: \<^verbatim>\<open>ea_2_vpn\<close> keeps 16 bits of the segment
  register and leaves the segment's number in the page number, the SLB entry has 24 bits and no
  number. They agree exactly for segment registers of this form.
\<close>

definition sr_regular :: "nat \<Rightarrow> u32 \<Rightarrow> bool" where
  "sr_regular i sr \<longleftrightarrow> of_nat i AND NOT sr = 0 \<and> sr AND 0xff0000 = 0"

lemma SR_VSID_MASK_bit: "bit SR_VSID_MASK n \<longleftrightarrow> n < 24"
proof -
  have a: "SR_VSID_MASK = mask 24" by (simp add: SR_VSID_MASK_def mask_eq_exp_minus_1)
  show ?thesis unfolding a by (auto simp: bit_mask_iff)
qed

lemma sr_vpn_agree:
  fixes ea :: u64 and sr :: u32
  shows "drop_bit 12 ea OR ucast (push_bit 16 sr) =
       push_bit 16 (ucast (sr AND SR_VSID_MASK)) OR drop_bit 12 (take_bit 28 ea) \<longleftrightarrow>
     (\<forall>m. (bit ea (28 + m) \<longrightarrow> m < 24 \<and> bit sr m) \<and> (16 \<le> m \<and> m < 24 \<and> bit sr m \<longrightarrow> bit ea (28 + m)))"
    (is "?L = ?R \<longleftrightarrow> ?C")
proof -
  have l: "bit ?L n \<longleftrightarrow> bit ea (n + 12) \<or> (16 \<le> n \<and> n < 32 \<and> bit sr (n - 16))" for n
    by (auto simp: bit_or_iff bit_drop_bit_eq bit_ucast_iff bit_push_bit_iff add.commute dest: bit_imp_le_length)
  have r: "bit ?R n \<longleftrightarrow> (16 \<le> n \<and> n < 40 \<and> bit sr (n - 16)) \<or> (n < 16 \<and> bit ea (n + 12))" for n
    by (auto simp: bit_or_iff bit_drop_bit_eq bit_ucast_iff bit_push_bit_iff bit_take_bit_iff bit_and_iff
        SR_VSID_MASK_bit add.commute dest: bit_imp_le_length)
  have step: "(\<forall>n. bit ?L n = bit ?R n) \<longleftrightarrow> (\<forall>m. bit ?L (m + 16) = bit ?R (m + 16))"
  proof
    assume h: "\<forall>m. bit ?L (m + 16) = bit ?R (m + 16)"
    show "\<forall>n. bit ?L n = bit ?R n"
    proof
      fix n show "bit ?L n = bit ?R n" using h[rule_format, of "n - 16"] l[of n] r[of n] by (cases "16 \<le> n") auto
    qed
  qed blast
  have m: "(bit ?L (m + 16) = bit ?R (m + 16)) \<longleftrightarrow>
     (bit ea (28 + m) \<longrightarrow> m < 24 \<and> bit sr m) \<and> (16 \<le> m \<and> m < 24 \<and> bit sr m \<longrightarrow> bit ea (28 + m))" for m
    unfolding l r by auto
  have "?L = ?R \<longleftrightarrow> (\<forall>n. bit ?L n = bit ?R n)" by (auto intro: bit_eqI)
  then show ?thesis unfolding step m .
qed

lemma sr_regular_bits:
  fixes x :: u64
  assumes "x < 16"
  shows "sr_regular (unat x) sr \<longleftrightarrow> (\<forall>m. bit x m \<longrightarrow> bit sr m) \<and> (\<forall>m. 16 \<le> m \<and> m < 24 \<longrightarrow> \<not> bit sr m)"
    and "bit x m \<Longrightarrow> m < 4"
proof -
  show k4: "m < 4" if "bit x m" for m
  proof -
    have "(2::nat) ^ m < 2 ^ 4" using unat_ge_of_bit[OF that] assms by (simp add: word_less_nat_alt)
    then show ?thesis using power_strict_increasing_iff[of "2::nat" m 4] by simp
  qed
  have c: "(0xff0000 :: u32) = push_bit 16 (mask 8)" by (simp add: push_bit_eq_mult mask_eq_exp_minus_1)
  have m: "bit (0xff0000 :: u32) m \<longleftrightarrow> 16 \<le> m \<and> m < 24" for m
    unfolding c bit_push_bit_iff bit_mask_iff by auto
  have i: "bit (of_nat (unat x) :: u32) m \<longleftrightarrow> bit x m" for m
    using k4[of m] by (auto simp: of_nat_unat bit_ucast_iff)
  have "bit (NOT sr) m \<longleftrightarrow> \<not> bit sr m" if "bit x m" for m
    using k4[OF that] by (simp add: bit_not_iff)
  then show "sr_regular (unat x) sr \<longleftrightarrow> (\<forall>m. bit x m \<longrightarrow> bit sr m) \<and> (\<forall>m. 16 \<le> m \<and> m < 24 \<longrightarrow> \<not> bit sr m)"
    unfolding sr_regular_def and_zero_bits m i by metis
qed

lemma small_bits_agree:
  fixes S T :: "nat \<Rightarrow> bool"
  assumes "\<And>m. S m \<Longrightarrow> m < 4"
  shows "(\<forall>m. (S m \<longrightarrow> m < 24 \<and> T m) \<and> (16 \<le> m \<and> m < 24 \<and> T m \<longrightarrow> S m)) \<longleftrightarrow>
    (\<forall>m. S m \<longrightarrow> T m) \<and> (\<forall>m. 16 \<le> m \<and> m < 24 \<longrightarrow> \<not> T m)"
proof -
  have "S m \<Longrightarrow> m < 24" "16 \<le> m \<Longrightarrow> \<not> S m" for m using assms[of m] by auto
  then show ?thesis by blast
qed

lemma serves_sr_iff:
  assumes i: "slb_inv False g s" "SR_COUNT + 3 \<le> n" and h: "ea < LAYOUT_VM_END"
    and o: "guest_is_mmu_off (Some g) = Inr False"
    and v: "slb s (unat (SR_INDEX ea) + 3) \<noteq> slb_invalid"
  shows "slb_serves n s (Some g) ea \<longleftrightarrow> sr_regular (unat (SR_INDEX ea)) (g_sr g ! unat (SR_INDEX ea))"
proof -
  let ?k = "unat (SR_INDEX ea)"
  define sr where "sr = g_sr g ! ?k"
  have "?k = unat ea div 2 ^ 28" by (simp add: SR_INDEX_def drop_bit_eq_div unat_div)
  then have k: "?k < SR_COUNT" "seg_of SEG_256M ea = of_nat ?k"
    using guest_region(6,7)[OF h] by (simp_all add: SR_INDEX_seg_of)
  note e = entry_for_sel[OF vsids_ok(4)[of sr], of "SR_INDEX_TO_EA (of_nat ?k)" PAGE_4K]
  have hw: "hw_entry n s ea =
      Some (slb_entry_for (SR_INDEX_TO_EA (of_nat ?k)) (ucast (sr AND SR_VSID_MASK)) SEG_256M PAGE_4K)"
    using hw_entry_cases(4)[OF i _ k v] by (simp only: sr_entry_def sr_def simp_thms)
  have x: "SR_INDEX ea < 16" using k(1) by (simp add: SR_COUNT_def word_less_nat_alt)
  have ea: "bit ea (28 + m) \<longleftrightarrow> bit (SR_INDEX ea) m" for m by (simp add: SR_INDEX_def bit_drop_bit_eq)
  have vpn: "ea_2_vpn (Some g) ea = Inr (drop_bit 12 ea OR ucast (push_bit 16 sr :: u32))"
    "ea_2_seg_size (Some g) ea = Inr SEG_256M" "ea_2_base_size (Some g) ea = Inr PAGE_4K"
    using o guest_region(1-4)[OF h]
    by (simp_all add: ea_2_seg_size_def ea_2_base_size_def ea_2_vpn_def VPN_SHIFT_def LAYOUT_VM_START_def sr_def)
  have "slb_serves n s (Some g) ea \<longleftrightarrow>
    drop_bit 12 ea OR ucast (push_bit 16 sr :: u32) =
    push_bit 16 (ucast (sr AND SR_VSID_MASK)) OR drop_bit 12 (take_bit 28 ea)"
    unfolding slb_serves_def hw vpn hw_vpn_def by (simp only: option.case e VPN_SHIFT_def sid_shifts) simp
  also have "\<dots> \<longleftrightarrow> sr_regular ?k sr"
    unfolding sr_vpn_agree ea sr_regular_bits(1)[OF x]
    by (rule small_bits_agree) (rule sr_regular_bits(2)[OF x])
  finally show ?thesis by (simp add: sr_def)
qed

end
