(* ===== verification/Mmu_Correct.thy ===== *)
theory Mmu_Correct
  imports Mmu_Slb
begin

text \<open>
  The operations of \<^verbatim>\<open>mmu.c\<close> keep the SLB's layout, and a page mapped by \<^verbatim>\<open>mmu_map\<close> is a page the
  processor translates: the theorems that tie the code's tables to address translation.
\<close>

section \<open>Operations on the SLB\<close>

lemma slb_match_1T: "slb_is_1T hv_entry" "\<not> slb_is_1T ail_entry" "slb_is_1T grm_entry" "\<not> slb_is_1T (sr_entry g i)"
  by (simp_all add: hv_entry_def ail_entry_def grm_entry_def sr_entry_def entry_for_sel)

lemma slb_valid_not_invalid: "slb_is_valid e \<Longrightarrow> e \<noteq> slb_invalid"
  by (auto simp: slb_is_valid_def slb_invalid_def)

lemma entries_valid:
  "hv_entry \<noteq> slb_invalid" "ail_entry \<noteq> slb_invalid" "grm_entry \<noteq> slb_invalid" "sr_entry g i \<noteq> slb_invalid"
  unfolding hv_entry_def ail_entry_def grm_entry_def sr_entry_def
  by (rule slb_valid_not_invalid, rule entry_for_sel(5), rule vsids_ok)+

text \<open>\<^verbatim>\<open>slb_invalidate\<close> drops the segment of its address and size, if it is there.\<close>

definition slb_drops :: "ea_t \<Rightarrow> seg_size_t \<Rightarrow> slb_entry \<Rightarrow> bool" where
  "slb_drops ea seg e \<longleftrightarrow> slb_match ea e \<and> hw_seg e = seg"

lemma slb_match_cong:
  "x AND seg_mask (hw_seg e) = y AND seg_mask (hw_seg e) \<Longrightarrow> slb_match x e = slb_match y e"
  unfolding slb_match_def xor_and_zero by (simp add: seg_mask_def hw_seg_def split: if_splits)

lemma SLBIE_B_1T_bit: "bit SLBIE_B_1T n \<longleftrightarrow> n = 25"
proof -
  have b: "SLBIE_B_1T = push_bit 25 1" by (simp add: SLBIE_B_1T_def push_bit_eq_mult)
  show ?thesis unfolding b by (auto simp: bit_push_bit_1 simp del: push_bit_of_1)
qed

lemma slbie_operand:
  "(SLBIE_B_1T OR (ea AND seg_mask seg)) AND seg_mask seg = ea AND seg_mask seg"
  "(SLBIE_B_1T OR (ea AND seg_mask seg)) AND SLBIE_B_1T \<noteq> 0"
  "(ea AND seg_mask seg) AND SLBIE_B_1T = 0"
proof -
  show "(SLBIE_B_1T OR (ea AND seg_mask seg)) AND seg_mask seg = ea AND seg_mask seg"
    unfolding and_eq_and_bits using sid_shift_ge(1)[of seg]
    by (auto simp: bit_or_iff bit_and_iff SLBIE_B_1T_bit seg_mask_bit)
  show "(SLBIE_B_1T OR (ea AND seg_mask seg)) AND SLBIE_B_1T \<noteq> 0"
    unfolding and_zero_bits by (auto simp: bit_or_iff SLBIE_B_1T_bit)
  show "(ea AND seg_mask seg) AND SLBIE_B_1T = 0"
    unfolding and_zero_bits using sid_shift_ge(1)[of seg] by (auto simp: bit_and_iff SLBIE_B_1T_bit seg_mask_bit)
qed

lemma slbie_slb:
  "slb (slbie v s) i =
     (if slb_match v (slb s i) \<and> (slb_is_1T (slb s i) \<longleftrightarrow> v AND SLBIE_B_1T \<noteq> 0) then slb_invalid else slb s i)"
  by (simp add: slbie_def Let_def)

lemma slb_invalidate_slb:
  "slb (slb_invalidate ea seg s) i = (if slb_drops ea seg (slb s i) then slb_invalid else slb s i)"
proof -
  have d: "slb (slbie v s) i = (if slb_drops ea seg (slb s i) then slb_invalid else slb s i)"
    if v: "v AND seg_mask seg = ea AND seg_mask seg" "v AND SLBIE_B_1T \<noteq> 0 \<longleftrightarrow> seg = SEG_1T" for v
  proof -
    have "slb_match v e = slb_match ea e" if "hw_seg e = seg" for e
      using slb_match_cong[of v e ea] v(1) that by simp
    moreover have "(slb_is_1T e \<longleftrightarrow> seg = SEG_1T) \<longleftrightarrow> hw_seg e = seg" for e
      by (cases seg) (simp_all add: hw_seg_def)
    ultimately show ?thesis unfolding slbie_slb v(2) slb_drops_def by metis
  qed
  show ?thesis
  proof (cases seg)
    case SEG_1T
    have "slb_invalidate ea seg s = slbie (SLBIE_B_1T OR (ea AND seg_mask seg)) s"
      by (simp add: SEG_1T slb_invalidate_def seg_mask_def)
    then show ?thesis using d[OF slbie_operand(1)[of ea seg]] slbie_operand(2)[of ea seg] SEG_1T by metis
  next
    case SEG_256M
    have "slb_invalidate ea seg s = slbie (ea AND seg_mask seg) s"
      by (simp add: SEG_256M slb_invalidate_def seg_mask_def)
    moreover have "(ea AND seg_mask seg) AND seg_mask seg = ea AND seg_mask seg" by (simp add: and.assoc)
    ultimately show ?thesis
      using d[of "ea AND seg_mask seg"] slbie_operand(3)[of ea seg] SEG_256M by (metis seg_size_t.distinct(1))
  qed
qed

lemma slb_invalidate_frame: "\<exists>t. slb_invalidate ea seg s = s\<lparr>slb := t\<rparr>"
  by (auto simp: slb_invalidate_def slbie_def)

lemma slb_invalidate_fold:
  "slb (fold (\<lambda>i. slb_invalidate (f i) seg) is s) j =
     (if \<exists>i \<in> set is. slb_drops (f i) seg (slb s j) then slb_invalid else slb s j)"
proof (induction "is" arbitrary: s)
  case (Cons a xs)
  have "\<not> slb_drops ea seg slb_invalid" for ea by (simp add: slb_drops_def)
  then show ?case by (simp add: Cons slb_invalidate_slb)
qed simp

lemma slb_init_slb: "slb (slb_init s) = (\<lambda>i. if i = 0 then hv_entry else if i = 1 then ail_entry else slb_invalid)"
  by (rule ext) (simp add: slb_init_def Let_def slbmte_make HV_SLOT_def AIL_SLOT_def hv_entry_def ail_entry_def slbia_def)

lemma slb_init_inv: "slb_inv False g (slb_init s)"
  by (simp add: slb_inv_def slb_init_slb)

lemma mmu_guest_update_on_inv:
  assumes "slb_inv True g s" shows "slb_inv False g' (mmu_guest_update True s)"
proof -
  have d: "slb_drops LAYOUT_VM_START SEG_1T e \<longleftrightarrow> False" if "e = hv_entry \<or> e = ail_entry \<or> e = slb_invalid" for e
    using that by (auto simp: slb_drops_def matches hw_seg_def slb_match_1T LAYOUT_VM_START_def seg_of_def)
  have g: "slb_drops LAYOUT_VM_START SEG_1T grm_entry"
    by (auto simp: slb_drops_def matches hw_seg_def slb_match_1T LAYOUT_VM_START_def seg_of_def)
  show ?thesis
    using assms d g
    by (auto simp: slb_inv_def mmu_guest_update_def slb_invalidate_slb)
qed

lemma mmu_guest_update_off_inv:
  assumes "slb_inv off g s" shows "slb_inv True g' (mmu_guest_update False s)"
proof -
  let ?D = "\<lambda>e. \<exists>i \<in> set [0..<SR_COUNT]. slb_drops (SR_INDEX_TO_EA (of_nat i)) SEG_256M e"
  have keep: "\<not> ?D hv_entry" "\<not> ?D ail_entry" "\<not> ?D slb_invalid" "\<not> ?D grm_entry"
    by (auto simp: slb_drops_def matches hw_seg_def slb_match_1T seg_of_SR word_unat_eq_iff unat_of_nat SR_COUNT_def)
  have drop: "?D (sr_entry g i)" if "i < SR_COUNT" for i
    using that by (auto simp: slb_drops_def matches hw_seg_def slb_match_1T seg_of_SR intro!: bexI[of _ i])
  have s: "slb (mmu_guest_update False s) j = (if j = 2 then grm_entry else if ?D (slb s j) then slb_invalid else slb s j)" for j
    by (simp add: mmu_guest_update_def slbmte_make GRM_SLOT_def grm_entry_def slb_invalidate_fold)
  have r: "slb (mmu_guest_update False s) (i + 3) = slb_invalid" if "i < SR_COUNT" for i
    using slb_invD(4)[OF assms, of "i + 3"] drop[OF that] unfolding s by auto
  then show ?thesis
    using assms keep unfolding slb_inv_def by (auto simp: s)
qed

lemma sr_index_small:
  assumes "ea < LAYOUT_VM_END"
  shows "unat (ucast (SR_INDEX ea) :: u32) = unat (SR_INDEX ea)" "unat (SR_INDEX ea) < SR_COUNT"
    "unat (ucast (SR_INDEX_TO_SLB_SLOT (ucast (SR_INDEX ea))) :: u64) = unat (SR_INDEX ea) + 3"
proof -
  show k: "unat (SR_INDEX ea) < SR_COUNT"
    using guest_region(7)[OF assms] by (simp add: SR_INDEX_def drop_bit_eq_div unat_div)
  show u: "unat (ucast (SR_INDEX ea) :: u32) = unat (SR_INDEX ea)"
    using k by (simp add: unsigned_ucast_eq take_bit_nat_eq_self SR_COUNT_def)
  have "unat (ucast (SR_INDEX ea) + 3 :: u32) = unat (SR_INDEX ea) + 3"
    using k u by (subst unat_add_no_wrap) (simp_all add: SR_COUNT_def)
  then show "unat (ucast (SR_INDEX_TO_SLB_SLOT (ucast (SR_INDEX ea))) :: u64) = unat (SR_INDEX ea) + 3"
    using k by (simp add: SR_INDEX_TO_SLB_SLOT_def unsigned_ucast_eq take_bit_nat_eq_self SR_COUNT_def)
qed

lemma sr_entry_ea:
  assumes "ea < LAYOUT_VM_END"
  shows "slb_entry_for ea (ucast (g_sr g ! unat (SR_INDEX ea) AND SR_VSID_MASK)) SEG_256M PAGE_4K =
     sr_entry g (unat (SR_INDEX ea))"
proof -
  have "seg_of SEG_256M (SR_INDEX_TO_EA (of_nat (unat (SR_INDEX ea)))) = seg_of SEG_256M ea"
    using seg_of_SR[OF sr_index_small(2)[OF assms]] by (simp add: SR_INDEX_seg_of)
  then have "ea AND seg_mask SEG_256M = SR_INDEX_TO_EA (of_nat (unat (SR_INDEX ea))) AND seg_mask SEG_256M"
    by (simp only: seg_mask_seg_of)
  then show ?thesis by (simp only: sr_entry_def slb_entry_for_def slb_make_esid_eq)
qed

lemma mmu_guest_fault_seg_eq:
  assumes i: "slb_inv False g s" and h: "ea < LAYOUT_VM_END" and o: "guest_is_mmu_off (Some g) = Inr False"
  defines "k \<equiv> unat (SR_INDEX ea)"
  shows "mmu_guest_fault_seg (Some g) ea s = Inr
    (if slb s (k + 3) = slb_invalid then (ERR_NONE, s\<lparr>slb := (slb s)(k + 3 := sr_entry g k)\<rparr>)
     else (ERR_UNSUPPORTED, s))"
proof -
  let ?slot = "ucast (SR_INDEX_TO_SLB_SLOT (ucast (SR_INDEX ea))) :: u64"
  note x = sr_index_small[OF h]
  have r: "slbmfee ?slot s = slb_esid (slb s (k + 3))"
    using x(2,3) by (simp add: slbmfee_def unat_and_mask k_def SR_COUNT_def)
  have v: "slb_esid (slb s (k + 3)) AND SLB_ESID_V \<noteq> 0 \<longleftrightarrow> slb s (k + 3) \<noteq> slb_invalid"
  proof -
    have "slb_is_valid (sr_entry g k)" unfolding sr_entry_def by (intro entry_for_sel(5) vsids_ok)
    moreover have "\<not> slb_is_valid slb_invalid" using slb_valid_not_invalid by blast
    ultimately show ?thesis
      using slb_invD(4)[OF i, of "k + 3"] unfolding slb_is_valid_def by auto
  qed
  have "slbmte (slb_make_vsid (ucast (g_sr g ! k AND SR_VSID_MASK)) SEG_256M PAGE_4K)
          (slb_make_esid ea SEG_256M ?slot) s = s\<lparr>slb := (slb s)(k + 3 := sr_entry g k)\<rparr>"
    using x(2,3) slbmte_make[of ?slot] by (simp add: sr_entry_ea[OF h] k_def SR_COUNT_def)
  then show ?thesis
    using x(2) v unfolding mmu_guest_fault_seg_def Let_def r x(1) by (simp add: o k_def not_le)
qed

lemma slb_inv_load:
  assumes "slb_inv False g s" "k < SR_COUNT"
  shows "slb_inv False g (s\<lparr>slb := (slb s)(k + 3 := sr_entry g k)\<rparr>)"
  using assms by (auto simp: slb_inv_def)

lemma fault_seg_holds:
  assumes "slb_inv False g s" "ea < LAYOUT_VM_END" "guest_is_mmu_off (Some g) = Inr False" "SR_COUNT + 3 \<le> n"
  shows "\<exists>err s'. mmu_guest_fault_seg (Some g) ea s = Inr (err, s') \<and> slb_inv False g s' \<and>
     hw_entry n s' ea = Some (sr_entry g (unat (SR_INDEX ea))) \<and>
     (err = ERR_NONE \<longleftrightarrow> hw_entry n s ea = None) \<and> (err \<noteq> ERR_NONE \<longrightarrow> err = ERR_UNSUPPORTED \<and> s' = s)"
proof -
  let ?k = "unat (SR_INDEX ea)"
  let ?s = "s\<lparr>slb := (slb s)(?k + 3 := sr_entry g ?k)\<rparr>"
  note k = sr_index_small(2)[OF assms(2)]
  have seg: "seg_of SEG_256M ea = of_nat ?k" by (simp add: SR_INDEX_seg_of)
  note hit = hw_entry_cases(4)[OF _ assms(4) _ k seg]
  have i: "slb_inv False g ?s" by (rule slb_inv_load[OF assms(1) k])
  have miss: "hw_entry n s ea = None" if "slb s (?k + 3) = slb_invalid"
  proof -
    have "\<not> slb_match ea (slb s j)" for j
    proof
      assume m: "slb_match ea (slb s j)"
      have "seg_of SEG_1T ea = 0" by (rule guest_region(5)[OF assms(2)])
      moreover have "(of_nat ?k :: u64) \<noteq> 0xc00000000" using k by (simp add: word_unat_eq_iff SR_COUNT_def)
      ultimately have "3 \<le> j \<and> j - 3 < SR_COUNT \<and> (of_nat (j - 3) :: u64) = of_nat ?k"
        using slb_slot_unique[OF assms(1) m] seg by auto
      then have "j = ?k + 3" using k by (auto simp: word_unat_eq_iff unat_of_nat SR_COUNT_def)
      then show False using m that by simp
    qed
    then show ?thesis by (simp add: hw_entry_def)
  qed
  show ?thesis
    using mmu_guest_fault_seg_eq[OF assms(1-3)] hit[OF assms(1)] hit[OF i] i assms(1) miss entries_valid(4)[of g ?k]
    by (cases "slb s (?k + 3) = slb_invalid") auto
qed

text \<open>
  C19: A segment fault of the guest below 4GB, with its MMU on: the segment register's entry is
  loaded into its own slot and the processor finds exactly that entry for the address, or the entry
  is already there and nothing changes. Either way the SLB keeps its layout.
\<close>
theorem mmu_guest_fault_seg_correct:
  assumes "slb_inv False g s" "ea < LAYOUT_VM_END" "guest_is_mmu_off (Some g) = Inr False" "SR_COUNT + 3 \<le> n"
  shows "\<exists>err s'. mmu_guest_fault_seg (Some g) ea s = Inr (err, s') \<and> slb_inv False g s' \<and>
     hw_entry n s' ea = Some (sr_entry g (unat (SR_INDEX ea))) \<and>
     (err = ERR_NONE \<longleftrightarrow> hw_entry n s ea = None) \<and> (err \<noteq> ERR_NONE \<longrightarrow> err = ERR_UNSUPPORTED \<and> s' = s)"
  by (rule fault_seg_holds[OF assms])

definition guest_example :: guest_t where
  "guest_example = \<lparr>g_sdr1 = 0, g_pvr = 0x00010001, g_msr = 0x30, g_srr0 = 0, g_srr1 = 0,
     g_ibat = replicate 8 0, g_dbat = replicate 8 0, g_sr = map of_nat [0..<16], g_hid0 = 0,
     g_ram_size = 0x2000000, g_ram = 0x8000000030000000,
     g_rom = \<lparr>cif_trampoline = 0, claim_arena_start = 0, claim_arena_ptr = 0, claim_arena_end = 0,
              stack_start = 0, stack_end = 0\<rparr>, g_sprg = replicate 4 0\<rparr>"

lemma guest_example_on: "guest_is_mmu_off (Some guest_example) = Inr False"
  by (simp add: guest_is_mmu_off_def guest_example_def ppc)

theorem mmu_guest_fault_seg_correct_witness:
  "\<exists>err s'. mmu_guest_fault_seg (Some guest_example) 0x80001234 (slb_init mmu_empty) = Inr (err, s') \<and>
     hw_entry 32 s' 0x80001234 = Some (sr_entry guest_example 8)"
proof -
  have "unat (SR_INDEX 0x80001234) = 8" by (simp add: SR_INDEX_def)
  then show ?thesis
    using mmu_guest_fault_seg_correct[where ea = "0x80001234" and n = 32, OF slb_init_inv[of guest_example mmu_empty] _ guest_example_on]
    by (auto simp: LAYOUT_VM_END_def SR_COUNT_def)
qed

section \<open>Mapped pages are translated\<close>

lemma hw_pte_eq:
  assumes "pt_inv s" "sdr1_agrees s"
  shows "hw_pte s seg base vpn =
     (case pt_lookup s (page_key s seg base vpn) of None \<Rightarrow> None
      | Some p \<Rightarrow> if hw_match seg base (avpn_encode vpn base base) p then Some p else None)"
proof (cases "pt_lookup s (page_key s seg base vpn)")
  case None
  have "\<not> pte_matches (avpn_encode vpn base base) (htab_mem s k)"
    if "k \<in> {hw_group s seg base vpn..<hw_group s seg base vpn + PTES_PER_GROUP}" for k
    using None that by (auto simp: page_key_def pt_lookup_None avpn_encode_ok sdr1_agrees_group[OF assms(2)])
  then show ?thesis using None by (auto simp: hw_pte_def find_None_iff hw_match_def)
next
  case (Some p)
  show ?thesis
  proof (cases "hw_match seg base (avpn_encode vpn base base) p")
    case True
    then show ?thesis using Some hw_pte_lookup[OF assms Some True] by simp
  next
    case False
    have "\<not> hw_match seg base (avpn_encode vpn base base) (htab_mem s k)"
      if "k \<in> {hw_group s seg base vpn..<hw_group s seg base vpn + PTES_PER_GROUP}" for k
    proof
      assume m: "hw_match seg base (avpn_encode vpn base base) (htab_mem s k)"
      have "pt_lookup s (page_key s seg base vpn) = Some (htab_mem s k)"
        using that m unfolding page_key_def pt_lookup_Some[OF assms(1)]
        by (auto simp: avpn_encode_ok sdr1_agrees_group[OF assms(2)] hw_match_def)
      then show False using Some m False by simp
    qed
    then show ?thesis using Some False by (auto simp: hw_pte_def find_None_iff)
  qed
qed

definition hw_key :: "mmu_t \<Rightarrow> slb_entry \<Rightarrow> ea_t \<Rightarrow> pt_key" where
  "hw_key s e ea = page_key s (hw_seg e) (hw_base e) (hw_vpn e ea)"

lemma hw_entry_frame: "slb s' = slb s \<Longrightarrow> hw_entry n s' ea = hw_entry n s ea"
  by (simp only: hw_entry_def)

lemma hw_translate_cong:
  assumes "pt_inv s" "pt_inv s'" "sdr1_agrees s" "s' = s\<lparr>htab_mem := m\<rparr>"
    and "\<And>e. hw_entry n s ea = Some e \<Longrightarrow> pt_lookup s' (hw_key s e ea) = pt_lookup s (hw_key s e ea)"
  shows "hw_translate n s' ea = hw_translate n s ea"
proof -
  have "hw_entry n s' ea = hw_entry n s ea" "sdr1_agrees s'" "page_key s' = page_key s"
    using assms(3,4) hw_entry_frame[of s' s] by (simp_all add: sdr1_agrees_def)
  then show ?thesis
    using assms by (auto simp: hw_translate_def hw_key_def hw_pte_eq split: option.splits)
qed

lemma not_mask_eq: "NOT (page_size p - 1) = NOT (mask (page_shift p))"
  by (simp add: page_size_pow2(1) mask_eq_pow_minus_1 del: push_bit_of_1)

text \<open>Addresses of one page have one virtual page.\<close>

lemma hw_vpn_page:
  assumes "ea' AND NOT (mask (page_shift base)) = ea"
  shows "page_no base (hw_vpn e ea') = page_no base (hw_vpn e ea)"
proof -
  have b: "bit ea' n = bit ea n" if "page_shift base \<le> n" for n
    using arg_cong[OF assms, of "\<lambda>x. bit x n"] that
    by (auto simp: bit_and_iff bit_not_iff bit_mask_iff dest: bit_imp_le_length)
  show ?thesis
    unfolding page_no_eq_iff
  proof (intro allI impI)
    fix n assume n: "page_shift base - 12 \<le> n"
    then have "bit ea' (n + 12) = bit ea (n + 12)" using shift_cases(2)[of base] by (intro b) auto
    then show "bit (hw_vpn e ea') n = bit (hw_vpn e ea) n"
      by (auto simp: hw_vpn_def bit_or_iff bit_drop_bit_eq bit_take_bit_iff VPN_SHIFT_def add.commute)
  qed
qed

lemma page_step_count1: "\<not> page_size base < page_size base" "map_count base base = 1"
  by (simp_all, cases base) (simp_all add: map_count_simps)

text \<open>A page lies in one segment.\<close>

lemma hw_entry_page:
  assumes "ea' AND NOT (mask (page_shift base)) = ea"
  shows "hw_entry n s ea' = hw_entry n s ea"
proof -
  have b: "bit ea' n = bit ea n" if "28 \<le> n" for n
    using arg_cong[OF assms, of "\<lambda>x. bit x n"] that shift_cases(2)[of base]
    by (auto simp: bit_and_iff bit_not_iff bit_mask_iff dest: bit_imp_le_length)
  have "ea' AND seg_mask seg = ea AND seg_mask seg" for seg
    unfolding and_eq_and_bits seg_mask_bit using b sid_shift_ge(1)[of seg] by auto
  then have "slb_match ea' = slb_match ea" using slb_match_cong by blast
  then show ?thesis by (simp add: hw_entry_def)
qed

lemma map_translates:
  assumes "pt_inv s" "sdr1_agrees s" "slb_serves n s guest ea" "hw_entry n s ea = Some e"
    "unmapped s (hw_seg e) base base (hw_vpn e ea)" "ea_2_base_size guest ea = Inr base"
    "ea' AND NOT (page_size base - 1) = ea" "prot_ok pp" "mmu_map guest ea ra pp base s = Inr s'"
  shows "pt_inv s' \<and> hw_translate n s' ea' = Some (ra OR take_bit (page_shift base) ea') \<and>
     (\<forall>x e'. hw_entry n s x = Some e' \<and> hw_key s e' x \<noteq> hw_key s e ea \<longrightarrow> hw_translate n s' x = hw_translate n s x)"
proof -
  let ?vpn = "hw_vpn e ea" and ?seg = "hw_seg e"
  have ea: "ea_2_vpn guest ea = Inr ?vpn" "ea_2_seg_size guest ea = Inr ?seg" "hw_base e = base"
    using assms(3,4,6) by (auto simp: slb_serves_def)
  obtain rpn where rpn: "rpn_encode ra base base = Inr rpn" and i: "pt_inv s'" and l:
    "pt_lookup s' = pt_lookup s ++ map_of (page_entries s ?seg base base pp rpn (page_vpns base (map_count base base) ?vpn))"
    using mmu_map_lookup[OF assms(1) sdr1_agrees_mask_ok[OF assms(2)] ea(1,2) assms(6,5,9)] by metis
  have l': "pt_lookup s' = (pt_lookup s)(page_key s ?seg base ?vpn \<mapsto> page_pte ?seg base base pp rpn ?vpn)"
    unfolding l by (simp add: page_step_count1 page_vpns_def page_entries_def)
  obtain m where m: "s' = s\<lparr>htab_mem := m\<rparr>" using mmu_map_frame[OF assms(9)] by blast
  have fr: "hw_entry n s' ea' = Some e" "sdr1_agrees s'" "page_key s' = page_key s"
    using assms(2,4) hw_entry_page[OF assms(7)[unfolded not_mask_eq]] m
      hw_entry_frame[of s' s] by (simp_all add: sdr1_agrees_def)
  have k: "page_key s ?seg base (hw_vpn e ea') = page_key s ?seg base ?vpn"
    using page_key_cong hw_vpn_page assms(7)[unfolded not_mask_eq] by blast
  have "avpn_encode (hw_vpn e ea') base base = avpn_encode ?vpn base base"
    using k by (simp add: page_key_def)
  then have "hw_pte s' ?seg base (hw_vpn e ea') = Some (page_pte ?seg base base pp rpn ?vpn)"
    using page_pte_hw_match[OF rpn assms(8) page_step_count1(1)] by (simp add: hw_pte_eq[OF i fr(2)] fr(3) k l')
  then have "hw_translate n s' ea' = Some (ra OR take_bit (page_shift base) ea')"
    using page_pte_ra[OF rpn assms(8) page_step_count1(1)] by (simp add: hw_translate_def fr(1) ea(3))
  moreover have "hw_translate n s' x = hw_translate n s x"
    if "hw_entry n s x = Some e'" "hw_key s e' x \<noteq> hw_key s e ea" for x e'
    using that by (intro hw_translate_cong[OF assms(1) i assms(2) m]) (auto simp: l' hw_key_def ea(3))
  ultimately show ?thesis using i by blast
qed


text \<open>An empty table and the SLB \<^verbatim>\<open>slb_init\<close> leaves.\<close>

definition mmu_ready :: mmu_t where
  "mmu_ready = slb_init mmu_empty"

lemma mmu_ready_frame: "mmu_ready = mmu_empty\<lparr>slb := slb mmu_ready\<rparr>"
  by (simp add: mmu_ready_def slb_init_def slbia_def slbmte_def Let_def)

lemma mmu_ready_sel: "htab_mem mmu_ready = htab_mem mmu_empty" "htab_hash_mask mmu_ready = 2047" "sdr1 mmu_ready = 0x40000000"
  by (subst mmu_ready_frame, simp add: mmu_empty_def)+

lemma mmu_ready_table: "pt_inv mmu_ready" "sdr1_agrees mmu_ready" "pt_lookup mmu_ready k = None"
proof -
  have "pt_inv mmu_ready = pt_inv mmu_empty" "pt_lookup mmu_ready = pt_lookup mmu_empty"
    by (simp_all only: pt_inv_def pt_lookup_def pteg_find_def mmu_ready_sel)
  then show "pt_inv mmu_ready" "pt_lookup mmu_ready k = None" using mmu_empty_table by simp_all
  show "sdr1_agrees mmu_ready" by (simp add: mmu_ready_sel sdr1_agrees_def mask_eq_exp_minus_1)
qed

lemma mmu_ready_serves: "slb_serves 32 mmu_ready guest 0x8000000021000000"
  "hw_entry 32 mmu_ready 0x8000000021000000 = Some hv_entry"
  using serves_hv[OF slb_init_inv[of guest_example], of 32] hw_entry_cases(1)[OF slb_init_inv[of guest_example], of 32]
  by (simp_all add: mmu_ready_def seg_of_def SR_COUNT_def)

lemma mmu_ready_map:
  "\<exists>s1. mmu_map None 0x8000000021000000 0x21000000 PP_RWXX PAGE_16M mmu_ready = Inr s1"
proof -
  have "pteg_free mmu_ready g = Some g" for g
    by (simp add: pteg_free_def mmu_ready_sel mmu_empty_def pte_valid_def upt_conv_Cons PTES_PER_GROUP_def)
  then show ?thesis
    by (simp add: mmu_map_Inr[OF hv_example] map_count_simps page_size_def PAGE_SIZE_16M_def
        rpn_encode_def PTE_R_RPN_16M_def Let_def)
qed


section \<open>The size of the table\<close>

text \<open>
  The number of groups is at least 2^11 and at most 2^39, as SDR1 requires, and the group index
  the code uses never leaves the table.
\<close>
theorem pteg_count_bounds:
  assumes "ptegs s = pteg_count ram" "htab_hash_mask s = ptegs s - 1" "i < PTES_PER_GROUP"
  shows "MIN_PTEGS \<le> ptegs s \<and> ptegs s \<le> MAX_PTEGS \<and>
     unat (ptegs s * PTEG_SIZE) = unat (ptegs s) * 128 \<and>
     (pteg_index s vpn seg base + i) * 16 < unat (ptegs s * PTEG_SIZE)"
proof -
  have b: "MIN_PTEGS \<le> ptegs s" "ptegs s \<le> MAX_PTEGS"
    unfolding assms(1) pteg_count_def Let_def by (simp_all add: MIN_PTEGS_def MAX_PTEGS_def)
  have u: "unat (ptegs s) \<le> 2 ^ 39" "0 < unat (ptegs s)"
    using b by (simp_all add: word_le_nat_alt MAX_PTEGS_def MIN_PTEGS_def)
  have sz: "unat (ptegs s * PTEG_SIZE) = unat (ptegs s) * 128"
    using u by (simp add: unat_word_ariths PTEG_SIZE_def)
  have "unat (vpn_hash vpn seg base AND htab_hash_mask s) \<le> unat (htab_hash_mask s)"
    by (simp add: word_and_le1 flip: word_le_nat_alt)
  also have "\<dots> = unat (ptegs s) - 1" using u(2) unfolding assms(2) by (simp add: unat_sub word_le_nat_alt)
  finally have "pteg_no s seg base vpn < unat (ptegs s)" using u(2) unfolding pteg_no_def by simp
  then have "(pteg_index s vpn seg base + i) * 16 < unat (ptegs s) * 128"
    using assms(3) by (simp add: pteg_index_eq PTES_PER_GROUP_def)
  then show ?thesis using b sz by simp
qed

theorem pteg_count_bounds_witness:
  "(pteg_index mmu_ready 0x8765432100021000 SEG_1T PAGE_16M + 7) * 16 < (2048 * 128 :: nat)"
proof -
  have "ptegs mmu_ready = pteg_count 0x1000000" "ptegs mmu_ready = 2048"
    by (subst mmu_ready_frame, simp add: mmu_empty_def pteg_count_def Let_def MIN_PTEGS_def MAX_PTEGS_def PAGE_SHIFT_def
        drop_bit_eq_div max_def min_def)+
  then show ?thesis
    using pteg_count_bounds[of mmu_ready "0x1000000" 7 "0x8765432100021000" SEG_1T PAGE_16M]
    by (simp add: mmu_ready_sel PTES_PER_GROUP_def)
qed

text \<open>
  The hash mask \<^verbatim>\<open>mmu_init\<close> uses is the one it tells the processor through SDR1 exactly when the
  number of groups is a power of two; for any other memory size the processor looks for a page in
  other groups than the code puts it.
\<close>
theorem sdr1_agrees_iff:
  assumes "htab_ra AND SDR1_MASK = htab_ra" "n = pteg_count ram"
    "htab_hash_mask s = n - 1" "sdr1 s = htab_ra + word_of_int (ilog2 n) - 11"
  shows "sdr1_agrees s \<longleftrightarrow> (\<exists>k < 64. n = 2 ^ k)"
proof -
  have b: "2 ^ 11 \<le> unat n" "unat n \<le> 2 ^ 39"
    unfolding assms(2) pteg_count_def Let_def
    by (simp_all add: MIN_PTEGS_def MAX_PTEGS_def min_def max_def word_le_nat_alt word_less_nat_alt)
  obtain L where L: "ilog2 n = int L" "L < 64" "2 ^ L \<le> unat n" "unat n < 2 ^ Suc L"
  proof -
    have "n \<noteq> 0" using b(1) by auto
    then show thesis using ilog2_bounds[of n] that by (auto simp del: power_Suc)
  qed
  have L': "11 \<le> L" "L \<le> 39"
  proof -
    have "(2::nat) ^ 11 < 2 ^ Suc L" using b(1) L(4) by linarith
    then show "11 \<le> L" using power_strict_increasing_iff[of "2::nat" 11 "Suc L"] by simp
    have "(2::nat) ^ L \<le> 2 ^ 39" using b(2) L(3) by linarith
    then show "L \<le> 39" using power_increasing_iff[of "2::nat" L 39] by simp
  qed
  have low: "\<not> bit htab_ra m" if "m < 18" for m
  proof -
    have "SDR1_MASK = NOT (mask 18)"
      by (simp add: SDR1_MASK_def HTAB_ALIGN_def MIN_PTEGS_def PTEG_SIZE_def mask_eq_exp_minus_1)
    then have "bit SDR1_MASK m = bit (NOT (mask 18) :: u64) m" by simp
    then show ?thesis using assms(1) that unfolding and_eq_bits by (auto simp: bit_not_iff bit_mask_iff)
  qed
  have "take_bit 5 htab_ra = 0" by (rule bit_eqI) (auto simp: bit_take_bit_iff low)
  moreover have "sdr1 s = htab_ra + of_nat (L - 11)"
    using L' unfolding assms(4) L(1) by (simp add: of_nat_diff)
  moreover have "take_bit 5 (of_nat (L - 11) :: u64) = of_nat (L - 11)"
    using L' by (simp add: take_bit_of_nat take_bit_nat_eq_self del: of_nat_diff)
  moreover have "htab_ra AND of_nat (L - 11) = 0"
  proof -
    have "m < 5" if "bit (of_nat (L - 11) :: u64) m" for m
      using that calculation(3) by (metis bit_take_bit_iff)
    then show ?thesis unfolding and_zero_bits using low by force
  qed
  ultimately have t: "take_bit 5 (sdr1 s) = of_nat (L - 11)"
    by (simp add: disjunctive_add_eq_or take_bit_or)
  have "unat (take_bit 5 (sdr1 s)) = L - 11" unfolding t using L' by (simp add: unat_of_nat del: of_nat_diff)
  then have m: "sdr1_agrees s \<longleftrightarrow> n - 1 = mask L"
    unfolding sdr1_agrees_def assms(3) using L' by simp
  have "n - 1 = mask L \<longleftrightarrow> n = 2 ^ L" by (auto simp: mask_eq_exp_minus_1 eq_diff_eq algebra_simps)
  moreover have "k = L" if "n = 2 ^ k" "k < 64" for k
  proof -
    have "unat n = 2 ^ k" using that by (simp add: unat_pow2)
    then have "(2::nat) ^ L \<le> 2 ^ k" "(2::nat) ^ k < 2 ^ Suc L" using L(3,4) by (simp_all del: power_Suc)
    then show ?thesis
      using power_increasing_iff[of "2::nat" L k] power_strict_increasing_iff[of "2::nat" k "Suc L"] by simp
  qed
  ultimately show ?thesis using m L(2) by auto
qed

text \<open>The 4GB with which \<^verbatim>\<open>cpu_init\<close> calls \<^verbatim>\<open>mmu_init\<close> give a power of two, 3GB do not.\<close>

definition mmu_sized :: "u64 \<Rightarrow> mmu_t" where
  "mmu_sized ram = mmu_empty\<lparr>htab_hash_mask := pteg_count ram - 1,
     sdr1 := 0x40000000 + word_of_int (ilog2 (pteg_count ram)) - 11\<rparr>"

theorem sdr1_agrees_iff_witness:
  "sdr1_agrees (mmu_sized 0x100000000) \<and> \<not> sdr1_agrees (mmu_sized 0xC0000000)"
proof -
  have m: "(0x40000000 :: u64) AND SDR1_MASK = 0x40000000"
    by (simp add: SDR1_MASK_def HTAB_ALIGN_def MIN_PTEGS_def PTEG_SIZE_def)
  note r = sdr1_agrees_iff[OF m refl]
  have c: "pteg_count 0x100000000 = 2 ^ 19" "pteg_count 0xC0000000 = 0x60000"
    by (simp_all add: pteg_count_def Let_def PAGE_SHIFT_def MIN_PTEGS_def MAX_PTEGS_def drop_bit_eq_div max_def min_def)
  have "(0x60000 :: u64) \<noteq> 2 ^ k" if "k < 64" for k
  proof
    assume h: "(0x60000 :: u64) = 2 ^ k"
    have "unat (0x60000 :: u64) = 2 ^ k" unfolding h using that by (rule_tac unat_pow2) simp
    then have "(393216 :: nat) = 2 ^ k" by simp
    then have "(2::nat) ^ 18 < 2 ^ k" "(2::nat) ^ k < 2 ^ 19" by simp_all
    then show False
      using power_strict_increasing_iff[of "2::nat" 18 k] power_strict_increasing_iff[of "2::nat" k 19] by simp
  qed
  moreover have "\<exists>k < 64. (2 ^ 19 :: u64) = 2 ^ k" by (rule exI[of _ 19]) simp
  ultimately show ?thesis
    using r[of "mmu_sized 0x100000000" "0x100000000"] r[of "mmu_sized 0xC0000000" "0xC0000000"]
    by (simp add: mmu_sized_def c)
qed

end
