(* ===== verification/Rom_Correct.thy ===== *)
theory Rom_Correct
  imports Rom Mmu_Correct
begin

text \<open>
  What the services of \<^verbatim>\<open>rom.c\<close> do: terminal input as a decoding of the stream of characters, the
  pages a claim takes out of the available memory and that what is reported as available stays whole
  pages, the disk.
\<close>

section \<open>An example state\<close>

text \<open>32 MB of memory, the top 16 MB the arena; three characters are waiting.\<close>

definition rom_example :: rom_vars where
  "rom_example = \<lparr>cur_file = None, guest_disk = 0x200000, guest_disk_offset = 0, guest_disk_len = 0x10000,
     guest_mem_avail_ranges = [\<lparr>r_base = 0, r_limit = 0x1ffffff\<rparr>],
     guest_mem_reg_ranges = [\<lparr>r_base = 0, r_limit = 0x1ffffff\<rparr>], memory_node = 0x40, csi = False\<rparr>"

definition guest_booted :: guest_t where
  "guest_booted = guest_example\<lparr>g_rom := \<lparr>cif_trampoline = 4, claim_arena_start = 0x1000000,
     claim_arena_ptr = 0x1000100, claim_arena_end = 0x2000000, stack_start = 0xf00000, stack_end = 0x1000000\<rparr>\<rparr>"

definition hv_example :: hv where
  "hv_example = \<lparr>hv_mem = \<lambda>_. 0, hv_guest = Some guest_booted, hv_mmu = mmu_empty, hv_time = time_example,
     hv_con = \<lparr>con_out = [], con_in = [(True, 1, 0x1b), (True, 1, 0x5b), (True, 1, 0x41)]\<rparr>,
     hv_rom = rom_example, hv_fs = filelib_zero (\<lambda>_. 0), hv_dar = 0, hv_dsisr = 0, hv_rtc0 = 0,
     hv_cpu = \<lparr>c_hid0 = 0, c_lpcr = 0, c_hsprg0 = 0, c_slb_size = 32, c_unrec_sp = 0, c_kern_sp = 0\<rparr>,
     hv_pages = mem_boot 0x8000000020000000\<rparr>"

section \<open>Terminal input\<close>

text \<open>
  The characters the firmware has when the loop polls it, and what \<^verbatim>\<open>rom_stdin\<close> makes of them: an
  escape character and a bracket become the one-byte control sequence introducer; an escape character
  and any other one become a lone escape character.
\<close>

definition con_ok :: "bool \<times> u64 \<times> u8 \<Rightarrow> bool" where
  "con_ok r \<longleftrightarrow> fst r \<and> fst (snd r) \<noteq> 0"

definition arrived :: "con_t \<Rightarrow> u8 list" where
  "arrived con = map (\<lambda>r. snd (snd r)) (takeWhile con_ok (con_in con))"

fun esc_decode :: "bool \<Rightarrow> u8 list \<Rightarrow> u8 list" where
  "esc_decode esc [] = []"
| "esc_decode True (c # cs) = (if c = 0x5b then 0x9b else 0x1b) # esc_decode False cs"
| "esc_decode False (c # cs) = (if c = 0x1b then esc_decode True cs else c # esc_decode False cs)"

lemma con_getchar_arrived:
  "con_getchar con = (Some c, con') \<Longrightarrow>
     arrived con = c # arrived con' \<and> con_out con' = con_out con \<and> length (con_in con) = Suc (length (con_in con'))"
  "con_getchar con = (None, con') \<Longrightarrow> arrived con = [] \<and> con_out con' = con_out con"
  by (auto simp: con_getchar_def arrived_def con_ok_def split: list.splits if_splits)

text \<open>The outcome of a round trip of the loop with room for \<open>k\<close> bytes: the bytes stored and the state left.\<close>

definition stdin_result :: "bool \<Rightarrow> con_t \<Rightarrow> u64 \<Rightarrow> nat \<Rightarrow> mem \<Rightarrow> u64 \<times> bool \<times> con_t \<times> mem \<Rightarrow> bool" where
  "stdin_result esc con buf k m r \<longleftrightarrow>
     (\<exists>bs. fst r = buf + of_nat (length bs) \<and> length bs \<le> k \<and> snd (snd (snd r)) = store_bytes buf bs m \<and>
        con_out (fst (snd (snd r))) = con_out con \<and>
        (\<forall>more. esc_decode esc (arrived con @ more) =
           bs @ esc_decode (fst (snd r)) ((if length bs = k then arrived (fst (snd (snd r))) else []) @ more)))"

lemma stdin_result_store:
  assumes "stdin_result False con1 (buf + 1) j (m(buf := d)) r" "con_out con1 = con_out con"
    "\<And>more. esc_decode esc (arrived con @ more) = d # esc_decode False (arrived con1 @ more)"
  shows "stdin_result esc con buf (Suc j) m r"
proof -
  obtain bs where "fst r = buf + 1 + of_nat (length bs)" "length bs \<le> j"
    "snd (snd (snd r)) = store_bytes (buf + 1) bs (m(buf := d))" "con_out (fst (snd (snd r))) = con_out con1"
    "\<And>more. esc_decode False (arrived con1 @ more) =
       bs @ esc_decode (fst (snd r)) ((if length bs = j then arrived (fst (snd (snd r))) else []) @ more)"
    using assms(1) by (auto simp: stdin_result_def)
  then show ?thesis
    using assms(2,3) unfolding stdin_result_def by (intro exI[of _ "d # bs"]) auto
qed

lemma stdin_result_stop:
  "k = 0 \<Longrightarrow> stdin_result esc con buf k m (buf, esc, con, m)"
  "arrived con = [] \<Longrightarrow> con_out con1 = con_out con \<Longrightarrow> 0 < k \<Longrightarrow> stdin_result esc con buf k m (buf, esc, con1, m)"
  unfolding stdin_result_def by (intro exI[of _ "[]"], simp)+

lemma rom_stdin_loop_spec:
  assumes "length (con_in con) < n" "unat buf + k < 2 ^ 64"
  shows "stdin_result esc con buf k m (rom_stdin_loop n buf (buf + of_nat k) esc con m)"
  using assms
proof (induction n arbitrary: buf k esc con m)
  case (Suc n)
  have "unat (buf + of_nat k) = unat buf + k" using Suc.prems(2) by (simp add: unat_word_ariths unat_of_nat)
  then have k: "buf < buf + of_nat k \<longleftrightarrow> 0 < k" by (simp add: word_less_nat_alt)
  obtain r con1 where g: "con_getchar con = (r, con1)" by fastforce
  show ?case
  proof (cases "k = 0 \<or> r = None")
    case True
    then show ?thesis using k g con_getchar_arrived(2)[of con con1] by (auto intro: stdin_result_stop)
  next
    case False
    then obtain j c where j: "k = Suc j" and c: "r = Some c" by (cases k) auto
    note a = con_getchar_arrived(1)[OF g[unfolded c]]
    have n: "length (con_in con1) < n" using a Suc.prems(1) by simp
    have e: "buf + of_nat k = (buf + 1) + of_nat j" by (simp add: j)
    have "unat (buf + 1) + j < 2 ^ 64" using Suc.prems(2) j by (simp add: unat_word_ariths)
    note IH = Suc.IH[OF n this, of False "m(buf := _)", folded e]
    have step: "rom_stdin_loop (Suc n) buf (buf + of_nat k) esc con m =
        (if esc then rom_stdin_loop n (buf + 1) (buf + of_nat k) False con1 (m(buf := if c = 0x5b then 0x9b else 0x1b))
         else if c = 0x1b then rom_stdin_loop n buf (buf + of_nat k) True con1 m
         else rom_stdin_loop n (buf + 1) (buf + of_nat k) False con1 (m(buf := c)))"
      using g c k False by simp
    show ?thesis
    proof (cases "esc \<or> c \<noteq> 0x1b")
      case True
      define d where "d = (if esc then if c = 0x5b then 0x9b else 0x1b else c)"
      have loop: "rom_stdin_loop (Suc n) buf (buf + of_nat k) esc con m =
          rom_stdin_loop n (buf + 1) (buf + of_nat k) False con1 (m(buf := d))"
        unfolding step d_def using True by (cases esc) auto
      have dec: "esc_decode esc (arrived con @ more) = d # esc_decode False (arrived con1 @ more)" for more
        using a True by (cases esc) (auto simp: d_def)
      have "stdin_result esc con buf (Suc j) m (rom_stdin_loop n (buf + 1) (buf + of_nat k) False con1 (m(buf := d)))"
        by (rule stdin_result_store[OF IH _ dec]) (simp add: a)
      then show ?thesis unfolding loop by (simp only: j)
    next
      case False
      then show ?thesis
        using Suc.IH[OF n Suc.prems(2), of True m] a unfolding step stdin_result_def by auto
    qed
  qed
qed simp

text \<open>
  C35: Terminal input. \<^verbatim>\<open>rom_stdin\<close> stores at the buffer the first \<open>len\<close> bytes of the decoded input (all
  there is when less has arrived), returns their number, and leaves a state from which the rest of
  the input decodes as if it had not been interrupted. The decoding loses the character behind an
  escape character that starts no control sequence.
\<close>
theorem rom_stdin_correct:
  assumes "unat buf + unat len < 2 ^ 64" "rom_stdin buf len h = (n, h')"
  shows "\<exists>bs. n = of_nat (length bs) \<and> length bs \<le> unat len \<and>
    hv_mem h' = store_bytes buf bs (hv_mem h) \<and> con_out (hv_con h') = con_out (hv_con h) \<and>
    (\<forall>more. esc_decode (csi (hv_rom h)) (arrived (hv_con h) @ more) =
       bs @ esc_decode (csi (hv_rom h')) ((if length bs = unat len then arrived (hv_con h') else []) @ more))"
proof -
  obtain b c con m where l: "rom_stdin_loop (Suc (length (con_in (hv_con h)))) buf (buf + of_nat (unat len))
      (csi (hv_rom h)) (hv_con h) (hv_mem h) = (b, c, con, m)"
    by (metis prod_cases4)
  have "stdin_result (csi (hv_rom h)) (hv_con h) buf (unat len) (hv_mem h) (b, c, con, m)"
    using rom_stdin_loop_spec[OF lessI assms(1), where con = "hv_con h" and esc = "csi (hv_rom h)" and m = "hv_mem h"]
    unfolding l .
  then obtain bs where bs:
    "b = buf + of_nat (length bs)" "length bs \<le> unat len" "m = store_bytes buf bs (hv_mem h)" "con_out con = con_out (hv_con h)"
    "\<forall>more. esc_decode (csi (hv_rom h)) (arrived (hv_con h) @ more) =
       bs @ esc_decode c ((if length bs = unat len then arrived con else []) @ more)"
    by (auto simp: stdin_result_def)
  have u: "of_nat (unat len) = (ucast len :: u64)" by simp
  have "ucast (of_nat (length bs) :: u64) = (of_nat (length bs) :: u32)"
  proof -
    have "length bs < 2 ^ 32" using bs(2) unat_less_exp[of len] by simp
    then show ?thesis by (simp add: word_unat_eq_iff unsigned_ucast_eq unat_of_nat take_bit_eq_mod)
  qed
  then have "n = of_nat (length bs)" "h' = h\<lparr>hv_con := con, hv_mem := m, hv_rom := (hv_rom h)\<lparr>csi := c\<rparr>\<rparr>"
    using assms(2) l[unfolded u] bs(1) by (auto simp: rom_stdin_def)
  then show ?thesis using bs(2-5) by (intro exI[of _ bs]) simp
qed

theorem rom_stdin_correct_witness:
  "\<exists>bs. length bs \<le> 1 \<and> hv_mem (snd (rom_stdin 0x1000 1 hv_example)) = store_bytes 0x1000 bs (hv_mem hv_example) \<and>
     [0x9b, 0x41] = bs @ esc_decode False (if length bs = 1 then [0x41] else [])"
proof -
  obtain n h' where h': "rom_stdin 0x1000 1 hv_example = (n, h')" by fastforce
  have "csi (hv_rom h') = False" "arrived (hv_con h') = [0x41]"
    using h' by (auto simp: rom_stdin_def hv_example_def rom_example_def con_getchar_def arrived_def con_ok_def)
  moreover have "csi (hv_rom hv_example) = False" "arrived (hv_con hv_example) = [0x1b, 0x5b, 0x41]"
    by (simp_all add: hv_example_def rom_example_def arrived_def con_ok_def)
  ultimately show ?thesis
    using rom_stdin_correct[OF _ h'] h' by (fastforce dest: spec[of _ "[]"])
qed

section \<open>Claiming memory\<close>

text \<open>The next page boundary minus one is the end of the page of the last byte, also at the top of the word.\<close>

lemma and_mask_add:
  fixes x y :: "'a::len word"
  assumes "n < LENGTH('a)"
  shows "(x + y) AND mask n = ((x AND mask n) + (y AND mask n)) AND mask n"
proof -
  have "(2::nat) ^ n dvd 2 ^ LENGTH('a)" using assms by (simp add: le_imp_power_dvd)
  then show ?thesis
    by (simp add: word_unat_eq_iff unat_and_mask unat_word_ariths mod_mod_cancel mod_add_eq)
qed

lemma ALIGN_UP_pred:
  fixes x :: "'a::len word"
  assumes n: "n < LENGTH('a)"
  shows "ALIGN_UP x (2 ^ n) - 1 = ((x - 1) AND NOT (mask n)) + mask n"
proof -
  have up: "ALIGN_UP x (2 ^ n) = (x + mask n) AND NOT (mask n)"
  proof (cases "x AND mask n = 0")
    case True
    then have "(x + mask n) AND mask n = mask n" using and_mask_add[OF n, of x "mask n"] by simp
    moreover have "ALIGN_UP x (2 ^ n) = x" using True by (simp add: ALIGN_UP_def IS_ALIGNED_def mask_eq_pow_minus_1)
    ultimately show ?thesis by (simp only: and_not_mask_sub add_diff_cancel_right')
  next
    case False
    then show ?thesis by (simp add: ALIGN_UP_def IS_ALIGNED_def ALIGN_UP_MASK_def mask_eq_pow_minus_1)
  qed
  have e: "x + mask n = (x - 1) + 2 ^ n" by (simp add: mask_eq_pow_minus_1[symmetric])
  have "(2 ^ n :: 'a word) AND mask n = 0" by (rule bit_word_eqI) (auto simp: bit_simps)
  then have "((x - 1) + 2 ^ n) AND mask n = (x - 1) AND mask n" using and_mask_add[OF n, of "x - 1" "2 ^ n"] by simp
  then have "ALIGN_UP x (2 ^ n) = ((x - 1) AND NOT (mask n)) + 2 ^ n"
    unfolding up e by (simp only: and_not_mask_sub) (simp add: algebra_simps)
  then show ?thesis by (simp only: mask_eq_pow_minus_1[symmetric]) (simp add: algebra_simps)
qed

lemma unat_ucast_64: "unat (ucast x :: u64) = unat x" for x :: u32
  using unat_less_exp[of x] by (simp add: unsigned_ucast_eq take_bit_eq_mod)

definition page_of :: "nat \<Rightarrow> nat" where
  "page_of a = a div 4096"

lemma claim_base: "unat (ucast (ALIGN out (ucast PAGE_SIZE)) :: u64) = page_of (unat out) * 4096" for out :: u32
proof -
  have "(ucast PAGE_SIZE :: u32) = 2 ^ 12" by (simp add: PAGE_SIZE_def)
  moreover have "unat (ALIGN out (2 ^ 12)) = unat out div 4096 * 4096"
    unfolding unat_ALIGN_pow2 by (simp add: minus_mod_eq_div_mult)
  ultimately show ?thesis by (simp add: page_of_def unat_ucast_64)
qed

lemma claim_limit:
  fixes out sz :: u32
  assumes "0 < sz" "unat out + unat sz \<le> 2 ^ 32"
  shows "unat (ucast (ALIGN_UP (out + sz) (ucast PAGE_SIZE) - 1) :: u64) = page_of (unat out + unat sz - 1) * 4096 + 4095"
proof -
  have p: "(ucast PAGE_SIZE :: u32) = 2 ^ 12" by (simp add: PAGE_SIZE_def)
  have l: "unat (out + sz - 1) = unat out + unat sz - 1"
    using assms by (intro unat_interval_end) auto
  let ?y = "out + sz - 1"
  have "unat (?y AND NOT (mask 12)) = unat ?y div 4096 * 4096"
    unfolding unat_and_not_mask by (simp add: minus_mod_eq_div_mult)
  moreover have "unat (mask 12 :: u32) = 4095" by (simp add: unat_mask)
  moreover have "unat ?y div 4096 * 4096 + 4095 < 2 ^ 32"
    using unat_less_exp[of ?y] div_le_mono[of "unat ?y" "2 ^ 32 - 1" 4096] by simp
  ultimately have "unat ((?y AND NOT (mask 12)) + mask 12) = unat ?y div 4096 * 4096 + 4095"
    by (subst unat_add_no_wrap) simp_all
  moreover have "ALIGN_UP (out + sz) (2 ^ 12) - 1 = (?y AND NOT (mask 12)) + mask 12"
    by (rule ALIGN_UP_pred) simp
  ultimately show ?thesis
    unfolding p by (simp only: l page_of_def unat_ucast_64)
qed

text \<open>A list of ranges that are whole pages, and that taking whole pages out keeps it so and never fails.\<close>

definition pages_whole :: "ranges_t \<Rightarrow> bool" where
  "pages_whole rs \<longleftrightarrow> (\<forall>r \<in> set rs. 4096 dvd unat (r_base r) \<and> 4096 dvd Suc (unat (r_limit r)))"

lemma pages_whole_simps [simp]: "pages_whole []"
  "pages_whole (r # rs) \<longleftrightarrow> 4096 dvd unat (r_base r) \<and> 4096 dvd Suc (unat (r_limit r)) \<and> pages_whole rs"
  "pages_whole (rs @ ss) \<longleftrightarrow> pages_whole rs \<and> pages_whole ss"
  by (auto simp: pages_whole_def)

lemma rom_example_pages: "ranges_wf (guest_mem_avail_ranges rom_example)" "pages_whole (guest_mem_avail_ranges rom_example)"
  by (simp_all add: rom_example_def ranges_wf_def)

lemma trim_whole:
  assumes "pages_whole [r]" "4096 dvd unat b" "4096 dvd Suc (unat l)"
  shows "pages_whole (trim b l r)"
proof -
  have "Suc (unat (b - 1)) = unat b" if "r_base r < b"
    using that unat_pred_less[OF that] by (simp add: word_less_nat_alt)
  moreover have "unat (l + 1) = Suc (unat l)" if "l < r_limit r" using unat_Suc_less[OF that] .
  ultimately show ?thesis using assms by (simp add: trim_def)
qed

lemma range_remove_pages:
  assumes "ranges_wf rs" "pages_whole rs" "\<forall>b l. mm b l" "b < l" "4096 dvd unat b" "4096 dvd Suc (unat l)"
  shows "\<exists>rs'. range_remove mm rs b l = Inr rs' \<and> ranges_wf rs' \<and> pages_whole rs' \<and> cover rs' = cover rs - {b..l}"
proof -
  have "\<not> split_fails mm b l r" if "r \<in> set rs" for r
  proof
    assume f: "split_fails mm b l r"
    then have "unat b = Suc (unat (r_base r))"
      using assms(3) unat_pred_less[of "r_base r" b] by (auto simp: split_fails_def word_less_nat_alt)
    moreover have "4096 dvd unat (r_base r)" using that assms(2) by (simp add: pages_whole_def)
    ultimately have "4096 dvd Suc (unat (r_base r)) - unat (r_base r)" using assms(5) by (intro dvd_diff_nat) simp_all
    then show False by simp
  qed
  then have r: "range_remove mm rs b l = Inr (concat (map (trim b l) rs))" by (simp add: range_remove_wf[OF assms(1,4)])
  have "pages_whole (concat (map (trim b l) rs))"
    using assms(2) by (induction rs) (simp_all add: trim_whole[OF _ assms(5,6)])
  with r range_list.remove_inv[OF assms(1) r] range_list.remove_region[OF assms(1) r] show ?thesis
    by (intro exI conjI) assumption+
qed

text \<open>Where a claim is put, whether it fits, and the guest's state after it.\<close>

definition claim_at :: "guest_t \<Rightarrow> u32 \<Rightarrow> u32 \<Rightarrow> u64" where
  "claim_at g addr align = (if align = 0 then ucast addr else ALIGN_UP (claim_arena_ptr (g_rom g)) (ucast align))"

definition claim_fits :: "guest_t \<Rightarrow> u32 \<Rightarrow> u32 \<Rightarrow> u32 \<Rightarrow> bool" where
  "claim_fits g addr sz align \<longleftrightarrow>
     (let e = (if align = 0 then 2 ^ 32 else unat (claim_arena_end (g_rom g)))
      in e \<le> 2 ^ 32 \<and> unat (claim_at g addr align) < e \<and> unat (claim_at g addr align) + unat sz \<le> e)"

definition claim_guest :: "guest_t \<Rightarrow> u32 \<Rightarrow> u32 \<Rightarrow> u32 \<Rightarrow> guest_t" where
  "claim_guest g addr sz align =
     (if align = 0 then g else g\<lparr>g_rom := (g_rom g)\<lparr>claim_arena_ptr := claim_at g addr align + ucast sz\<rparr>\<rparr>)"

definition claimed_pages :: "nat \<Rightarrow> nat \<Rightarrow> u64 set" where
  "claimed_pages a n = {x. page_of a \<le> page_of (unat x) \<and> page_of (unat x) \<le> page_of (a + n - 1)}"

lemma claimed_pages_interval:
  assumes "unat b = page_of a * 4096" "unat l = page_of (a + n - 1) * 4096 + 4095"
  shows "{b..l} = claimed_pages a n"
proof -
  have "b \<le> x \<longleftrightarrow> page_of a \<le> page_of (unat x)" "x \<le> l \<longleftrightarrow> page_of (unat x) \<le> page_of (a + n - 1)" for x
    using assms by (auto simp: word_le_nat_alt page_of_def)
  then show ?thesis by (auto simp: claimed_pages_def)
qed

lemma ucast_32_64: "ucast (ucast x :: u64) = x" for x :: u32
  by (rule bit_word_eqI) (simp add: bit_simps)

lemma hv_guest_same: "hv_guest h = Some g \<Longrightarrow> h\<lparr>hv_guest := Some g, hv_rom := r\<rparr> = h\<lparr>hv_rom := r\<rparr>"
  by (cases h) simp

lemma rom_claim_result:
  assumes "hv_guest h = Some g" "ranges_wf (guest_mem_avail_ranges (hv_rom h))"
    "pages_whole (guest_mem_avail_ranges (hv_rom h))" "\<forall>b l. mm b l" "0 < sz" "claim_fits g addr sz align"
  shows "\<exists>rs. rom_claim mm addr sz align h = Inr (ucast (claim_at g addr align),
      h\<lparr>hv_guest := Some (claim_guest g addr sz align), hv_rom := (hv_rom h)\<lparr>guest_mem_avail_ranges := rs\<rparr>\<rparr>) \<and>
    ranges_wf rs \<and> pages_whole rs \<and>
    cover rs = cover (guest_mem_avail_ranges (hv_rom h)) - claimed_pages (unat (claim_at g addr align)) (unat sz)"
proof -
  let ?p = "claim_at g addr align" let ?o = "ucast ?p :: u32"
  have lt: "unat ?p < 2 ^ 32" "unat ?p + unat sz \<le> 2 ^ 32"
    using assms(6) by (auto simp: claim_fits_def Let_def split: if_splits)
  then have o: "unat ?o = unat ?p" by (simp add: unsigned_ucast_eq take_bit_eq_mod)
  let ?b = "ucast (ALIGN ?o (ucast PAGE_SIZE)) :: u64" let ?l = "ucast (ALIGN_UP (?o + sz) (ucast PAGE_SIZE) - 1) :: u64"
  have b: "unat ?b = page_of (unat ?p) * 4096" using claim_base[of ?o] o by simp
  have l: "unat ?l = page_of (unat ?p + unat sz - 1) * 4096 + 4095"
    using claim_limit[OF assms(5), of ?o] lt o by simp
  have "page_of (unat ?p) \<le> page_of (unat ?p + unat sz - 1)"
    using assms(5) unfolding page_of_def by (intro div_le_mono) (simp add: word_less_nat_alt)
  then have "?b < ?l" unfolding word_less_nat_alt b l by simp
  moreover have "4096 dvd unat ?b" "4096 dvd Suc (unat ?l)" unfolding b l by simp_all
  ultimately obtain rs where rs: "range_remove mm (guest_mem_avail_ranges (hv_rom h)) ?b ?l = Inr rs" "ranges_wf rs"
      "pages_whole rs" "cover rs = cover (guest_mem_avail_ranges (hv_rom h)) - {?b..?l}"
    using range_remove_pages[OF assms(2-4)] by blast
  have "unat (?p + ucast sz) = unat ?p + unat sz"
    using lt by (subst unat_add_no_wrap) (simp_all add: unat_ucast_64)
  then have "align \<noteq> 0 \<Longrightarrow> \<not> claim_arena_end (g_rom g) \<le> ?p \<and> \<not> claim_arena_end (g_rom g) < ?p + ucast sz"
    using assms(6) by (simp add: claim_fits_def Let_def word_le_nat_alt word_less_nat_alt)
  then have "rom_claim mm addr sz align h = Inr (?o, h\<lparr>hv_guest := Some (claim_guest g addr sz align),
      hv_rom := (hv_rom h)\<lparr>guest_mem_avail_ranges := rs\<rparr>\<rparr>)"
    using rs(1) assms(1) by (auto simp: rom_claim_def claim_guest_def claim_at_def Let_def ucast_32_64 hv_guest_same)
  then show ?thesis using rs(2-4) claimed_pages_interval[OF b l] by auto
qed

text \<open>
  C24: Claiming memory. A claim of a positive size that fits (below 4 GB at the given address, or into
  the arena when an alignment is asked for) returns the address or the aligned arena pointer and
  advances the pointer behind it; the available memory loses exactly the pages the claim touches, and
  stays a sorted list of disjoint ranges of whole pages.
\<close>
theorem rom_claim_correct:
  assumes "hv_guest h = Some g" "ranges_wf (guest_mem_avail_ranges (hv_rom h))"
    "pages_whole (guest_mem_avail_ranges (hv_rom h))" "\<forall>b l. mm b l" "0 < sz" "claim_fits g addr sz align"
  shows "\<exists>rs. rom_claim mm addr sz align h = Inr (ucast (claim_at g addr align),
      h\<lparr>hv_guest := Some (claim_guest g addr sz align), hv_rom := (hv_rom h)\<lparr>guest_mem_avail_ranges := rs\<rparr>\<rparr>) \<and>
    ranges_wf rs \<and> pages_whole rs \<and>
    cover rs = cover (guest_mem_avail_ranges (hv_rom h)) - claimed_pages (unat (claim_at g addr align)) (unat sz)"
  by (rule rom_claim_result[OF assms])

theorem rom_claim_correct_witness:
  "\<exists>rs. rom_claim (\<lambda>_ _. True) 0 0x2000 0x1000 hv_example = Inr (0x1001000,
     hv_example\<lparr>hv_guest := Some (claim_guest guest_booted 0 0x2000 0x1000),
       hv_rom := rom_example\<lparr>guest_mem_avail_ranges := rs\<rparr>\<rparr>) \<and> pages_whole rs"
proof -
  have at: "claim_at guest_booted 0 0x1000 = 0x1001000"
    by (simp add: claim_at_def guest_booted_def ALIGN_UP_def IS_ALIGNED_def ALIGN_UP_MASK_def)
  have fit: "claim_fits guest_booted 0 0x2000 0x1000"
    by (simp add: claim_fits_def at) (simp add: guest_booted_def)
  have h: "hv_guest hv_example = Some guest_booted" "hv_rom hv_example = rom_example" by (simp_all add: hv_example_def)
  show ?thesis
    using rom_claim_correct[OF h(1), of "\<lambda>_ _. True" "0x2000" 0 "0x1000"] fit rom_example_pages unfolding h at by auto
qed

section \<open>Reporting memory\<close>

text \<open>A range as the cells of the property: base and size, big-endian.\<close>

definition be_cell :: "u32 \<Rightarrow> u8 list" where
  "be_cell v = [ucast (drop_bit 24 v), ucast (drop_bit 16 v), ucast (drop_bit 8 v), ucast v]"

definition range_cells :: "range_t \<Rightarrow> u8 list" where
  "range_cells r = be_cell (ucast (r_base r)) @ be_cell (ucast (r_limit r - r_base r + 1))"

lemma length_cells [simp]: "length (be_cell v) = 4" "length (range_cells r) = 8"
  by (simp_all add: be_cell_def range_cells_def)

lemma store_be_cell: "store32_le a (cpu_to_be32 v) m = store_bytes a (be_cell v) m"
proof -
  have "ucast (swab32 v) = (ucast (drop_bit 24 v) :: u8)" "ucast (drop_bit 8 (swab32 v)) = (ucast (drop_bit 16 v) :: u8)"
    "ucast (drop_bit 16 (swab32 v)) = (ucast (drop_bit 8 v) :: u8)" "ucast (drop_bit 24 (swab32 v)) = (ucast v :: u8)"
    using swab32_bit[of 0 _ v] swab32_bit[of 1 _ v] swab32_bit[of 2 _ v] swab32_bit[of 3 _ v]
    by (auto intro!: bit_word_eqI simp: bit_simps)
  then show ?thesis
    by (simp add: store32_le_def be_cell_def cpu_to_be32_def add.commute[of _ a])
qed

lemma whole_size:
  assumes "r_base r \<le> r_limit r" "pages_whole [r]"
  shows "(ucast (r_base r) :: u32) mod ucast PAGE_SIZE = 0" "(ucast (r_limit r - r_base r + 1) :: u32) mod ucast PAGE_SIZE = 0"
proof -
  have z: "(ucast x :: u32) mod ucast PAGE_SIZE = 0" if "4096 dvd unat x" for x :: u64
  proof -
    have "(4096::nat) dvd 2 ^ 32" by simp
    with that have "unat x mod 2 ^ 32 mod 4096 = 0" by (simp add: mod_mod_cancel)
    then show ?thesis
      by (simp add: word_unat_eq_iff unat_mod unsigned_ucast_eq take_bit_eq_mod PAGE_SIZE_def)
  qed
  show "(ucast (r_base r) :: u32) mod ucast PAGE_SIZE = 0" using z assms(2) by simp
  have "4096 dvd unat (r_limit r - r_base r + 1)"
  proof -
    have "4096 dvd Suc (unat (r_limit r)) - unat (r_base r)" using assms(2) by (intro dvd_diff_nat) simp_all
    moreover have "Suc (unat (r_limit r)) - unat (r_base r) = unat (r_limit r - r_base r) + 1"
      using assms(1) by (simp add: unat_sub word_le_nat_alt Suc_diff_le)
    moreover have "(4096::nat) dvd 2 ^ 64" by simp
    ultimately show ?thesis by (simp add: unat_word_ariths dvd_mod)
  qed
  then show "(ucast (r_limit r - r_base r + 1) :: u32) mod ucast PAGE_SIZE = 0" by (rule z)
qed

lemma rom_put_ranges_cells:
  assumes "pages \<longrightarrow> ranges_wf rs \<and> pages_whole rs" "8 * length rs < 2 ^ 31"
  shows "rom_put_ranges pages rs (of_nat (8 * length rs)) d m = Inr (store_bytes d (concat (map range_cells rs)) m)"
  using assms
proof (induction rs arbitrary: d m)
  case (Cons r rs)
  let ?n = "length (r # rs)"
  have s: "\<not> sle32 (of_nat (8 * ?n)) 0" "\<not> sle32 (of_nat (8 * ?n) - 4) 0" "of_nat (8 * ?n) - 8 = (of_nat (8 * length rs) :: u32)"
  proof -
    have e: "of_nat (8 * ?n) - 4 = (of_nat (8 * ?n - 4) :: u32)" by (simp add: of_nat_diff)
    show "\<not> sle32 (of_nat (8 * ?n)) 0" "\<not> sle32 (of_nat (8 * ?n) - 4) 0"
      unfolding e using sle32_small[of "8 * ?n" 0] sle32_small[of "8 * ?n - 4" 0] Cons.prems(2) by simp_all
  qed simp
  have w: "\<not> (pages \<and> (ucast (r_base r) :: u32) mod ucast PAGE_SIZE \<noteq> 0)"
    "\<not> (pages \<and> (ucast (r_limit r - r_base r + 1) :: u32) mod ucast PAGE_SIZE \<noteq> 0)"
    using Cons.prems(1) whole_size[of r] by (auto simp: ranges_wf_Cons)
  have IH: "rom_put_ranges pages rs (of_nat (8 * length rs)) (d + 8) m' = Inr (store_bytes (d + 8) (concat (map range_cells rs)) m')" for m'
    using Cons by (auto simp: ranges_wf_Cons)
  have "rom_put_ranges pages (r # rs) (of_nat (8 * ?n)) d m = Inr (store_bytes (d + 8) (concat (map range_cells rs))
      (store32_le (d + 4) (cpu_to_be32 (ucast (r_limit r - r_base r + 1))) (store32_le d (cpu_to_be32 (ucast (r_base r))) m)))"
    unfolding rom_put_ranges.simps Let_def using w s(1,2) by (simp only: bug_on_def if_False s(3) IH)
  also have "\<dots> = Inr (store_bytes d (range_cells r @ concat (map range_cells rs)) m)"
    unfolding store_bytes_append length_cells by (simp add: range_cells_def store_be_cell store_bytes_append)
  finally show ?case by simp
qed simp

lemma rom_available_holds:
  assumes "ranges_wf (guest_mem_avail_ranges (hv_rom h))" "pages_whole (guest_mem_avail_ranges (hv_rom h))"
    "8 * length (guest_mem_avail_ranges (hv_rom h)) < 2 ^ 31" "dest_data \<noteq> 0"
  shows "rom_getprop dtb (memory_node (hv_rom h)) (lit ''available'') dest_len dest_data max_data h =
    Inr (0, h\<lparr>hv_mem := store_bytes dest_data (concat (map range_cells (guest_mem_avail_ranges (hv_rom h))))
      (store32_le dest_len (clamp_len (of_nat (8 * length (guest_mem_avail_ranges (hv_rom h)))) max_data) (hv_mem h))\<rparr>)"
proof -
  let ?rs = "guest_mem_avail_ranges (hv_rom h)"
  have n: "lit ''available'' \<noteq> lit ''name''" "lit ''available'' \<noteq> lit ''reg''" by (simp_all add: lit_def)
  have l: "ucast (range_count ?rs * 4 * 2) = (of_nat (8 * length ?rs) :: u32)"
  proof -
    have "8 * length ?rs < 2 ^ 64" using assms(3) by simp
    moreover have "range_count ?rs * 4 * 2 = of_nat (8 * length ?rs)" by (simp add: range_count_def range_count_from)
    ultimately show ?thesis
      using assms(3) by (simp only: word_unat_eq_iff unsigned_ucast_eq take_bit_eq_mod unat_of_nat) simp
  qed
  have p: "rom_put_ranges True ?rs (of_nat (8 * length ?rs)) dest_data m' =
      Inr (store_bytes dest_data (concat (map range_cells ?rs)) m')" for m'
    using assms(1-3) by (intro rom_put_ranges_cells) simp_all
  have "rom_getprop dtb (memory_node (hv_rom h)) (lit ''available'') dest_len dest_data max_data h =
      rom_ranges_getprop True ?rs dest_len dest_data max_data h"
    using n by (simp only: rom_getprop_def rom_memory_getprop_def if_False refl if_True)
  also have "\<dots> = Inr (0, h\<lparr>hv_mem := store_bytes dest_data (concat (map range_cells ?rs))
      (store32_le dest_len (clamp_len (of_nat (8 * length ?rs)) max_data) (hv_mem h))\<rparr>)"
    unfolding rom_ranges_getprop_def Let_def l put32_def using assms(4) by (simp only: if_True p bindE_simps) simp
  finally show ?thesis .
qed

lemma rom_available_returns:
  assumes "ranges_wf (guest_mem_avail_ranges (hv_rom h))" "pages_whole (guest_mem_avail_ranges (hv_rom h))"
    "8 * length (guest_mem_avail_ranges (hv_rom h)) < 2 ^ 31"
  shows "\<exists>h'. rom_getprop dtb (memory_node (hv_rom h)) (lit ''available'') dest_len dest_data max_data h = Inr (0, h')"
proof (cases "dest_data = 0")
  case True
  have "lit ''available'' \<noteq> lit ''name''" "lit ''available'' \<noteq> lit ''reg''" by (simp_all add: lit_def)
  then show ?thesis
    using True by (simp add: rom_getprop_def rom_memory_getprop_def rom_ranges_getprop_def Let_def)
next
  case False
  then show ?thesis using rom_available_holds[OF assms] by blast
qed

text \<open>
  C36: Reporting memory. As long as the available memory is a list of whole pages, the property
  \<^verbatim>\<open>available\<close> of the memory node is delivered without stopping the machine: the cells of every range
  are stored, whatever the size of the caller's buffer, and the length is stored limited to that
  size unless it is zero.
\<close>
theorem rom_available_correct:
  assumes "ranges_wf (guest_mem_avail_ranges (hv_rom h))" "pages_whole (guest_mem_avail_ranges (hv_rom h))"
    "8 * length (guest_mem_avail_ranges (hv_rom h)) < 2 ^ 31" "dest_data \<noteq> 0"
  shows "rom_getprop dtb (memory_node (hv_rom h)) (lit ''available'') dest_len dest_data max_data h =
    Inr (0, h\<lparr>hv_mem := store_bytes dest_data (concat (map range_cells (guest_mem_avail_ranges (hv_rom h))))
      (store32_le dest_len (clamp_len (of_nat (8 * length (guest_mem_avail_ranges (hv_rom h)))) max_data) (hv_mem h))\<rparr>)"
  by (rule rom_available_holds[OF assms])

theorem rom_available_correct_witness:
  "rom_getprop 0 0x40 (lit ''available'') 0x1000 0x2000 4 hv_example =
     Inr (0, hv_example\<lparr>hv_mem := store_bytes 0x2000 [0, 0, 0, 0, 2, 0, 0, 0] (store32_le 0x1000 4 (\<lambda>_. 0))\<rparr>)"
proof -
  have h: "hv_rom hv_example = rom_example" "hv_mem hv_example = (\<lambda>_. 0)" by (simp_all add: hv_example_def)
  have z: "(512 :: u8) = 0" "(131072 :: u8) = 0" "(33554432 :: u8) = 0" by simp_all
  show ?thesis
    using rom_available_correct[of hv_example "0x2000" 0 "0x1000" 4, unfolded h, OF rom_example_pages]
    by (simp add: rom_example_def range_cells_def be_cell_def clamp_len_def z)
qed

section \<open>The disk\<close>

text \<open>Two areas of \<open>n\<close> bytes that do not meet, modulo the size of the address space.\<close>

definition apart :: "u64 \<Rightarrow> u64 \<Rightarrow> nat \<Rightarrow> bool" where
  "apart p q n \<longleftrightarrow> n \<le> unat (p - q) \<and> n \<le> unat (q - p)"

lemma apart_offset: "apart p q n \<Longrightarrow> unat t < n \<Longrightarrow> n \<le> unat (p + t - q)"
proof -
  assume a: "apart p q n" "unat t < n"
  then have "p \<noteq> q" by (auto simp: apart_def)
  then have "unat (p - q) + unat (q - p) = 2 ^ 64"
    using unat_less_exp[of p] unat_less_exp[of q] by (simp add: unat_sub_if' word_unat_eq_iff)
  then have "unat ((p - q) + t) = unat (p - q) + unat t"
    using a by (intro unat_add_no_wrap) (simp add: apart_def)
  then show ?thesis using a by (simp add: apart_def algebra_simps)
qed

lemma apart_mono: "apart p q n \<Longrightarrow> k \<le> n \<Longrightarrow> apart p q k"
  by (simp add: apart_def)

lemma apart_shift: "apart (p + k) (q + k) n = apart p q n"
  by (simp add: apart_def)

lemma sector_offset:
  fixes s :: u32
  assumes "unat s * 512 + 512 < 2 ^ 32"
  shows "(ucast ((s + 1) * FAT_SECTOR_SIZE) :: u64) = ucast (s * FAT_SECTOR_SIZE) + 512"
proof -
  have "unat (s * 512) = unat s * 512" "unat ((s + 1) * 512) = unat s * 512 + 512"
    using assms by (simp_all add: unat_word_ariths)
  then have "unat (ucast ((s + 1) * FAT_SECTOR_SIZE) :: u64) = unat (ucast (s * FAT_SECTOR_SIZE) :: u64) + 512"
    by (simp add: unat_ucast_64 FAT_SECTOR_SIZE_def)
  moreover have "unat (ucast (s * FAT_SECTOR_SIZE) + 512 :: u64) = unat (ucast (s * FAT_SECTOR_SIZE) :: u64) + 512"
    using unat_less_exp[of "s * FAT_SECTOR_SIZE"] by (subst unat_add_no_wrap) (simp_all add: unat_ucast_64)
  ultimately show ?thesis by (simp only: word_unat_eq_iff)
qed

text \<open>Being in a window that starts one sector later.\<close>

lemma window_shift:
  fixes a buf :: u64
  assumes "n + 512 \<le> 2 ^ 64"
  shows "unat (a - (buf + 512)) < n \<longleftrightarrow> 512 \<le> unat (a - buf) \<and> unat (a - buf) < n + 512"
proof (cases "512 \<le> unat (a - buf)")
  case True
  then have "unat ((a - buf) - 512) = unat (a - buf) - 512" by (simp add: unat_sub word_le_nat_alt)
  then show ?thesis using True by (auto simp: diff_diff_eq)
next
  case False
  then have "unat ((a - buf) - 512) = unat (a - buf) + 2 ^ 64 - 512" by (simp add: unat_sub_if')
  then show ?thesis using False assms by (simp add: diff_diff_eq)
qed

lemma guest_disk_read_loop_spec:
  assumes "0 < i" "0 < c" "(unat s + i) * 512 < 2 ^ 32" "c * 512 < 2 ^ 32" "i \<le> c"
    "apart (disk + ucast (s * FAT_SECTOR_SIZE)) buf ((i - 1 + c) * 512)"
  shows "guest_disk_read_loop i disk s buf (of_nat c) m a =
    (if unat (a - buf) < (i - 1 + c) * 512 then m (disk + ucast (s * FAT_SECTOR_SIZE) + (a - buf)) else m a)"
  using assms
proof (induction i arbitrary: s buf m)
  case (Suc i)
  let ?src = "disk + ucast (s * FAT_SECTOR_SIZE)" let ?n = "ucast (of_nat c * FAT_SECTOR_SIZE) :: u64"
  have n: "unat ?n = c * 512"
    using Suc.prems(4) by (simp add: unat_ucast_64 FAT_SECTOR_SIZE_def unat_word_ariths unat_of_nat)
  have "memcpy_allowed buf ?src ?n"
    using apart_mono[OF Suc.prems(6), of "c * 512"] by (simp add: memcpy_allowed_def copy_up_ok_def n apart_def)
  note cp = cpy.copy_spec[OF this, unfolded unat_lt_iff n]
  have step: "guest_disk_read_loop (Suc i) disk s buf (of_nat c) m =
      guest_disk_read_loop i disk (s + 1) (buf + 512) (of_nat c) (memcpy buf ?src ?n m)"
    by (simp add: FAT_SECTOR_SIZE_def)
  show ?case
  proof (cases "i = 0")
    case True
    then show ?thesis unfolding step by (simp add: cp)
  next
    case False
    have u: "unat (s + 1) = unat s + 1" using Suc.prems(3) by (simp add: unat_word_ariths)
    have so: "disk + ucast ((s + 1) * FAT_SECTOR_SIZE) = ?src + 512"
      using sector_offset[of s] Suc.prems(3) by (simp add: algebra_simps)
    have ap: "apart (?src + 512) (buf + 512) ((i - 1 + c) * 512)"
      unfolding apart_shift by (rule apart_mono[OF Suc.prems(6)]) simp
    have src: "?src + 512 + (a - (buf + 512)) = ?src + (a - buf)" by simp
    have IH: "guest_disk_read_loop i disk (s + 1) (buf + 512) (of_nat c) m' a =
        (if unat (a - (buf + 512)) < (i - 1 + c) * 512 then m' (?src + (a - buf)) else m' a)" for m'
      using Suc.IH[of "s + 1" "buf + 512" m', unfolded so src] Suc.prems(2-5) False ap u by simp
    have keep: "memcpy buf ?src ?n m (?src + (a - buf)) = m (?src + (a - buf))" if "unat (a - buf) < (i + c) * 512"
      using apart_offset[OF Suc.prems(6), of "a - buf"] that by (simp add: cp)
    have "unat (a - (buf + 512)) < (i - 1 + c) * 512 \<longleftrightarrow> 512 \<le> unat (a - buf) \<and> unat (a - buf) < (i + c) * 512"
      using window_shift[of "(i - 1 + c) * 512" a buf] Suc.prems(4,5) False by (cases i) auto
    moreover have "512 \<le> c * 512" using Suc.prems(2) by simp
    ultimately show ?thesis unfolding step IH using keep by (simp add: cp)
  qed
qed simp

lemma guest_disk_read_spec:
  assumes "0 < c" "(unat s + c) * 512 < 2 ^ 32" "apart (disk + ucast (s * FAT_SECTOR_SIZE)) buf ((2 * c - 1) * 512)"
  shows "guest_disk_read disk s buf (of_nat c) m a =
    (if unat (a - buf) < (2 * c - 1) * 512 then m (disk + ucast (s * FAT_SECTOR_SIZE) + (a - buf)) else m a)"
proof -
  have "unat (of_nat c :: u32) = c" using assms(2) by (simp add: unat_of_nat)
  moreover have "c - 1 + c = 2 * c - 1" using assms(1) by simp
  ultimately show ?thesis
    using guest_disk_read_loop_spec[of c c s disk buf m a] assms by (simp add: guest_disk_read_def)
qed

text \<open>
  C37: Reading the guest's disk. A read of \<open>c\<close> sectors delivers the \<open>c\<close> sectors from \<open>s\<close> on, but stores
  \<open>2 c - 1\<close> sectors: each round copies the whole count, so a read of two or more runs \<open>c - 1\<close> sectors
  past the end of the buffer.
\<close>
theorem guest_disk_read_correct:
  assumes "0 < c" "(unat s + c) * 512 < 2 ^ 32" "apart (disk + ucast (s * FAT_SECTOR_SIZE)) buf ((2 * c - 1) * 512)"
  shows "guest_disk_read disk s buf (of_nat c) m a =
    (if unat (a - buf) < (2 * c - 1) * 512 then m (disk + ucast (s * FAT_SECTOR_SIZE) + (a - buf)) else m a)"
  by (rule guest_disk_read_spec[OF assms])

theorem guest_disk_read_correct_witness:
  "guest_disk_read 0x200000 1 0x1000 2 (\<lambda>a. ucast a) 0x1420 = (0x20 :: u8)"
  using guest_disk_read_correct[of 2 1 "0x200000" "0x1000" "\<lambda>a. ucast a" "0x1420"] by (simp add: apart_def FAT_SECTOR_SIZE_def)

end
