(* ===== verification/Rom_Call.thy ===== *)
theory Rom_Call
  imports Rom_Correct
begin

text \<open>
  The firmware interface the guest calls, \<^verbatim>\<open>rom_call\<close> of \<^verbatim>\<open>rom.c\<close>: one definition per service and the
  dispatcher on the service's name. The guest passes the address of an array of words: the name, the
  numbers of arguments and results, the arguments and the results. A service returns the value for
  \<^verbatim>\<open>r3\<close> and the new state; one that leaves \<^verbatim>\<open>r3\<close> returns the value it was given. What \<^verbatim>\<open>ERROR\<close> prints
  and the short-lived copy of a path are not modelled.
\<close>

section \<open>Arguments\<close>

definition cell :: "u64 \<Rightarrow> nat \<Rightarrow> hv \<Rightarrow> u32" where
  "cell cia i h = get32 (cia + of_nat (4 * i)) h"

definition put_cell :: "u64 \<Rightarrow> nat \<Rightarrow> u32 \<Rightarrow> hv \<Rightarrow> hv" where
  "put_cell cia i v h = put32 (cia + of_nat (4 * i)) v h"

text \<open>A guest address, the string at the address an argument holds, and a comparison with a literal.\<close>

definition gptr :: "u64 \<Rightarrow> nat \<Rightarrow> hv \<Rightarrow> u64" where
  "gptr cia i h = ucast (cell cia i h)"

definition cell_str :: "u64 \<Rightarrow> nat \<Rightarrow> hv \<Rightarrow> u8 list outcome" where
  "cell_str cia i h = returns ''string'' (read_cstr (hv_mem h) (gptr cia i h))"

definition cell_is :: "u64 \<Rightarrow> nat \<Rightarrow> string \<Rightarrow> hv \<Rightarrow> bool" where
  "cell_is cia i s h \<longleftrightarrow> bytes (hv_mem h) (gptr cia i h) (length s + 1) = lit s @ [0]"

definition NODE_MUNGE :: "u32 \<Rightarrow> u32" where "NODE_MUNGE x = x + 0x10000000"
definition NODE_DEMUNGE :: "u32 \<Rightarrow> u32" where "NODE_DEMUNGE x = x - 0x10000000"

text \<open>The end of the services that look a node up: \<open>r3\<close> is -1 where there is none.\<close>

definition rom_node_result :: "u64 \<Rightarrow> u32 \<Rightarrow> hv \<Rightarrow> (u64 \<times> hv) outcome" where
  "rom_node_result cia n h = (if neg32 n then Inr (- 1, h) else Inr (0, put_cell cia 4 (NODE_MUNGE n) h))"

section \<open>The services\<close>

definition rom_finddevice :: "u64 \<Rightarrow> u64 \<Rightarrow> hv \<Rightarrow> (u64 \<times> hv) outcome" where
  "rom_finddevice dtb cia h =
     bindE (cell_str cia 3 h) (\<lambda>dev.
     bindE (returns ''fdt_path_offset'' (fdt_path_offset (hv_mem h) dtb dev)) (\<lambda>node.
     Inr (0, put_cell cia 4 (if neg32 node then - 1 else NODE_MUNGE node) h)))"

definition rom_milliseconds :: "u64 \<Rightarrow> hv \<Rightarrow> (u64 \<times> hv) outcome" where
  "rom_milliseconds cia h =
     bindE (mftb (hv_time h)) (\<lambda>(t, ts).
     Inr (0, put_cell cia 3 (ucast (tb_to_ms t ts)) (h\<lparr>hv_time := ts\<rparr>)))"

definition rom_peer :: "u64 \<Rightarrow> u64 \<Rightarrow> hv \<Rightarrow> (u64 \<times> hv) outcome" where
  "rom_peer dtb cia h =
     bindE (if cell cia 3 h = 0 then Inr 0
            else returns ''fdt_sibling'' (fdt_sibling (hv_mem h) dtb (NODE_DEMUNGE (cell cia 3 h)))) (\<lambda>n.
     rom_node_result cia n h)"

definition rom_child :: "u64 \<Rightarrow> u64 \<Rightarrow> hv \<Rightarrow> (u64 \<times> hv) outcome" where
  "rom_child dtb cia h =
     (if cell cia 3 h = 0 then Inr (- 1, h)
      else bindE (returns ''fdt_subnode'' (fdt_subnode (hv_mem h) dtb (NODE_DEMUNGE (cell cia 3 h)))) (\<lambda>n.
           rom_node_result cia n h))"

definition rom_parent :: "u64 \<Rightarrow> u64 \<Rightarrow> hv \<Rightarrow> (u64 \<times> hv) outcome" where
  "rom_parent dtb cia h =
     (if cell cia 3 h = 0 then Inr (- 1, h)
      else bindE (returns ''fdt_parent_offset'' (fdt_parent_offset (hv_mem h) dtb (NODE_DEMUNGE (cell cia 3 h)))) (\<lambda>n.
           rom_node_result cia n h))"

definition rom_write :: "u64 \<Rightarrow> hv \<Rightarrow> (u64 \<times> hv) outcome" where
  "rom_write cia h =
     (let len = cell cia 5 h in Inr (0, put_cell cia 6 len (rom_stdout (gptr cia 4 h) len h)))"

definition rom_read :: "u64 \<Rightarrow> hv \<Rightarrow> (u64 \<times> hv) outcome" where
  "rom_read cia h =
     (let ih = cell cia 3 h; data = gptr cia 4 h; len = cell cia 5 h; v = hv_rom h
      in if ih = 0xffffffff then
           bug_on (cur_file v = None) ''file not open'' (
           let (n, h) = hv_fread data len (cur_file v) h in Inr (0, put_cell cia 6 n h))
         else if ih = 0xdddddddd then
           if ucast (guest_disk_offset v + len) \<le> guest_disk_len v then
             let h = h\<lparr>hv_mem := memcpy data (guest_disk v + scast (guest_disk_offset v)) (ucast len) (hv_mem h),
                       hv_rom := v\<lparr>guest_disk_offset := guest_disk_offset v + len\<rparr>\<rparr>
             in Inr (0, put_cell cia 6 len h)
           else Inr (0, h)
         else if ih = 0xcccccccc then
           Inr (0, h\<lparr>hv_mem := memset data 0xff (ucast (cell cia 6 h)) (hv_mem h)\<rparr>)
         else let (n, h) = rom_stdin data len h in Inr (0, put_cell cia 6 n h))"

definition rom_getproplen :: "u64 \<Rightarrow> u64 \<Rightarrow> hv \<Rightarrow> (u64 \<times> hv) outcome" where
  "rom_getproplen dtb cia h =
     bindE (cell_str cia 4 h) (\<lambda>name.
     bindE (rom_getprop dtb (NODE_DEMUNGE (cell cia 3 h)) name (cia + 20) 0 0 h) (\<lambda>(r, h). Inr (scast r, h)))"

definition rom_getprop_call :: "u64 \<Rightarrow> u64 \<Rightarrow> hv \<Rightarrow> (u64 \<times> hv) outcome" where
  "rom_getprop_call dtb cia h =
     bindE (cell_str cia 4 h) (\<lambda>name.
     bindE (rom_getprop dtb (NODE_DEMUNGE (cell cia 3 h)) name (cia + 28) (gptr cia 5 h) (cell cia 6 h) h)
       (\<lambda>(r, h). Inr (scast r, h)))"

definition rom_map :: "u64 \<Rightarrow> hv \<Rightarrow> (u64 \<times> hv) outcome" where
  "rom_map cia h =
     (let virt = cell cia 7 h; phys = cell cia 8 h; sz = cell cia 6 h
      in if phys = virt then Inr (0, put_cell cia 9 0 h)
         else
           case hv_guest h of None \<Rightarrow> Inl (Bug ''guest NULL'')
           | Some g \<Rightarrow>
               bindE (ptr_2_ra (ucast phys + g_ram g)) (\<lambda>ra.
               bindE (mmu_map_range (hv_guest h) (ucast virt) (ucast (ALIGN_UP (virt + sz) (ucast PAGE_SIZE))) ra
                        PP_RWRW PAGE_4K (hv_mmu h)) (\<lambda>s.
               Inr (0, put_cell cia 9 0 (h\<lparr>hv_mmu := s\<rparr>)))))"

definition rom_call_method :: "malloc_ok \<Rightarrow> u64 \<Rightarrow> u64 \<Rightarrow> hv \<Rightarrow> (u64 \<times> hv) outcome" where
  "rom_call_method mm r3 cia h =
     (if cell_is cia 3 ''claim'' h then
        bindE (rom_claim mm (cell cia 7 h) (cell cia 6 h) (cell cia 5 h) h) (\<lambda>(a, h).
        Inr (0, put_cell cia 9 0 (put_cell cia 8 a h)))
      else if cell_is cia 3 ''map'' h then rom_map cia h
      else Inr (r3, h))"

definition rom_claim_call :: "malloc_ok \<Rightarrow> u64 \<Rightarrow> hv \<Rightarrow> (u64 \<times> hv) outcome" where
  "rom_claim_call mm cia h =
     bindE (rom_claim mm (cell cia 3 h) (cell cia 4 h) (cell cia 5 h) h) (\<lambda>(a, h). Inr (0, put_cell cia 6 a h))"

definition rom_instance_to_package :: "u64 \<Rightarrow> u64 \<Rightarrow> hv \<Rightarrow> (u64 \<times> hv) outcome" where
  "rom_instance_to_package dtb cia h =
     bindE (returns ''fdt_node_offset_by_phandle'' (fdt_node_offset_by_phandle (hv_mem h) dtb (cell cia 3 h))) (\<lambda>n.
     rom_node_result cia n h)"

text \<open>The end of both path services.\<close>

definition rom_put_path :: "u64 \<Rightarrow> u64 \<Rightarrow> u32 \<Rightarrow> hv \<Rightarrow> (u64 \<times> hv) outcome" where
  "rom_put_path dtb cia node h =
     (if neg32 node then Inr (- 1, h)
      else
        bindE (returns ''fdt_get_path'' (fdt_get_path dtb node (gptr cia 4 h) (cell cia 5 h) (hv_mem h))) (\<lambda>(r, m).
        let buflen = cell cia 5 h; h = h\<lparr>hv_mem := m\<rparr>
        in if r = 0 then Inr (0, put_cell cia 6 buflen h) else Inr (- 1, h)))"

definition rom_instance_to_path :: "u64 \<Rightarrow> u64 \<Rightarrow> hv \<Rightarrow> (u64 \<times> hv) outcome" where
  "rom_instance_to_path dtb cia h =
     (if cell cia 5 h = 0 then Inr (0, put_cell cia 6 120 h)
      else bindE (returns ''fdt_node_offset_by_phandle'' (fdt_node_offset_by_phandle (hv_mem h) dtb (cell cia 3 h))) (\<lambda>n.
           rom_put_path dtb cia n h))"

definition rom_package_to_path :: "u64 \<Rightarrow> u64 \<Rightarrow> hv \<Rightarrow> (u64 \<times> hv) outcome" where
  "rom_package_to_path dtb cia h =
     (if cell cia 5 h = 0 then Inr (0, put_cell cia 6 120 h)
      else rom_put_path dtb cia (NODE_DEMUNGE (cell cia 3 h)) h)"

definition str_contains :: "u8 list \<Rightarrow> u8 list \<Rightarrow> bool" where
  "str_contains s n \<longleftrightarrow> list_ex (\<lambda>i. take (length n) (drop i s) = n) [0..<Suc (length s)]"

definition rom_open :: "u64 \<Rightarrow> hv \<Rightarrow> (u64 \<times> hv) outcome" where
  "rom_open cia h =
     bindE (cell_str cia 3 h) (\<lambda>path.
     if str_contains path (lit ''/fake-storage/disk:1,'') then
       bug_on (cur_file (hv_rom h) \<noteq> None) ''1 open allowed at a time'' (
       let npath = 0x2f # tl (drop 20 path)
       in bindE (hv_fopen npath h) (\<lambda>(f, h).
       let h = h\<lparr>hv_rom := (hv_rom h)\<lparr>cur_file := f\<rparr>\<rparr>
       in if f = None then Inr (- 1, h) else Inr (0, put_cell cia 4 0xffffffff h)))
     else if path = lit ''/fake-storage/disk:1'' then
       Inr (0, (put_cell cia 4 0xdddddddd h)\<lparr>hv_rom := (hv_rom h)\<lparr>guest_disk_offset := 0\<rparr>\<rparr>)
     else if path = lit ''/fake-storage/disk:0'' then Inr (0, put_cell cia 4 0xcccccccc h)
     else Inr (- 1, put_cell cia 4 0 h))"

definition rom_close :: "u64 \<Rightarrow> hv \<Rightarrow> (u64 \<times> hv) outcome" where
  "rom_close cia h =
     (let ih = cell cia 3 h; v = hv_rom h
      in if ih = 0xffffffff then
           bug_on (cur_file v = None) ''file not open''
             (Inr (0, (hv_fclose (cur_file v) h)\<lparr>hv_rom := v\<lparr>cur_file := None\<rparr>\<rparr>))
         else if ih = 0xdddddddd then Inr (0, h\<lparr>hv_rom := v\<lparr>guest_disk_offset := 0\<rparr>\<rparr>)
         else if ih = 0xcccccccc then Inr (0, h)
         else Inr (- 1, h))"

definition rom_seek :: "u64 \<Rightarrow> hv \<Rightarrow> (u64 \<times> hv) outcome" where
  "rom_seek cia h =
     (let ih = cell cia 3 h; v = hv_rom h; offset = push_bit 32 (ucast (cell cia 4 h)) OR ucast (cell cia 5 h) :: u64
      in if ih = 0xffffffff then
           bug_on (cur_file v = None) ''file not open'' (
           let (r, h) = hv_fseek (cur_file v) offset SEEK_SET h
           in if r \<noteq> 0 then Inr (- 1, h) else Inr (0, h))
         else if ih = 0xdddddddd then Inr (0, h\<lparr>hv_rom := v\<lparr>guest_disk_offset := ucast offset\<rparr>\<rparr>)
         else if ih = 0xcccccccc then Inr (0, h)
         else Inr (- 1, h))"

section \<open>The dispatcher\<close>

definition rom_service ::
  "malloc_ok \<Rightarrow> u64 \<Rightarrow> u64 \<Rightarrow> hv \<Rightarrow> (u64 \<times> hv) outcome"
where
  "rom_service mm dtb cia h =
     (let is = (\<lambda>s. cell_is cia 0 s h)
      in if is ''finddevice'' then rom_finddevice dtb cia h
         else if is ''milliseconds'' then rom_milliseconds cia h
         else if is ''peer'' then rom_peer dtb cia h
         else if is ''child'' then rom_child dtb cia h
         else if is ''parent'' then rom_parent dtb cia h
         else if is ''exit'' \<or> is ''boot'' then Inl (Hang ''VM reboot requested'')
         else if is ''write'' then rom_write cia h
         else if is ''read'' then rom_read cia h
         else if is ''getproplen'' then rom_getproplen dtb cia h
         else if is ''getprop'' then rom_getprop_call dtb cia h
         else if is ''call-method'' then rom_call_method mm cia cia h
         else if is ''claim'' then rom_claim_call mm cia h
         else if is ''instance-to-package'' then rom_instance_to_package dtb cia h
         else if is ''instance-to-path'' then rom_instance_to_path dtb cia h
         else if is ''package-to-path'' then rom_package_to_path dtb cia h
         else if is ''open'' then rom_open cia h
         else if is ''close'' then rom_close cia h
         else if is ''seek'' then rom_seek cia h
         else Inr (cia, h))"

definition rom_call ::
  "malloc_ok \<Rightarrow> u64 \<Rightarrow> eframe_t \<Rightarrow> hv \<Rightarrow> (err_t \<times> eframe_t \<times> hv) outcome"
where
  "rom_call mm dtb frame h =
     bindE (rom_service mm dtb (gpr frame ! 3) h) (\<lambda>(r3, h).
     Inr (ERR_NONE, (set_r 3 r3 frame)\<lparr>hsrr0 := lr frame\<rparr>, h))"

end
