(* ===== verification/Guest.thy ===== *)
theory Guest
  imports Rom_Call
begin

text \<open>
  The guest, \<^verbatim>\<open>guest.c\<close>: its set-up, the emulation of the privileged instructions it traps on, one
  definition per instruction, and \<^verbatim>\<open>guest_exc_try\<close>. A register number is a field of five bits, so
  \<^verbatim>\<open>R(reg)\<close> is an element of the 32 registers of the frame. \<open>memalign\<close> stands for \<^verbatim>\<open>mem_memalign\<close>, \<open>ok\<close>
  for whether \<^verbatim>\<open>mem_malloc\<close> finds room for the structure. Log output is not modelled, but the checks in
  the arguments of the log calls are.
\<close>

section \<open>The MSR\<close>

definition upd_guest :: "(guest_t \<Rightarrow> guest_t) \<Rightarrow> hv \<Rightarrow> hv" where
  "upd_guest f h = h\<lparr>hv_guest := map_option f (hv_guest h)\<rparr>"

definition guest_update_msr :: "u32 \<Rightarrow> hv \<Rightarrow> hv outcome" where
  "guest_update_msr v h =
     bindE (guest_is_mmu_off (hv_guest h)) (\<lambda>was.
     let h = upd_guest (\<lambda>g. g\<lparr>g_msr := v\<rparr>) h
     in bindE (guest_is_mmu_off (hv_guest h)) (\<lambda>off.
        if was \<noteq> off then Inr (h\<lparr>hv_mmu := mmu_guest_update (\<not> off) (hv_mmu h)\<rparr>) else Inr h))"

section \<open>Set-up\<close>

text \<open>The loop that clears the memory, megabyte after megabyte.\<close>

fun guest_clear_ram :: "nat \<Rightarrow> nat \<Rightarrow> u64 \<Rightarrow> mem \<Rightarrow> mem" where
  "guest_clear_ram 0 i ram m = m"
| "guest_clear_ram (Suc n) i ram m = guest_clear_ram n (Suc i) ram (memset (ram + MB (of_nat i)) 0 (MB 1) m)"

text \<open>Memory is by effective address: once the guest's memory is mapped, the low addresses show it.\<close>

definition show_ram :: "u64 \<Rightarrow> length_t \<Rightarrow> mem \<Rightarrow> mem" where
  "show_ram ram sz m = (\<lambda>a. if a - LAYOUT_VM_START < sz then m (ram + (a - LAYOUT_VM_START)) else m a)"

definition guest_new :: "length_t \<Rightarrow> u64 \<Rightarrow> guest_t" where
  "guest_new ram_size ram =
     \<lparr>g_sdr1 = 0, g_pvr = 0x00010001, g_msr = 0, g_srr0 = 0, g_srr1 = 0, g_ibat = replicate 8 0, g_dbat = replicate 8 0,
      g_sr = map (\<lambda>i. push_bit SR_VSID_SHIFT (of_nat i)) [0..<SR_COUNT], g_hid0 = 0, g_ram_size = ram_size, g_ram = ram,
      g_rom = \<lparr>cif_trampoline = 0, claim_arena_start = 0, claim_arena_ptr = 0, claim_arena_end = 0, stack_start = 0,
               stack_end = 0\<rparr>, g_sprg = replicate 4 0\<rparr>"

definition guest_init :: "bool \<Rightarrow> (u64 \<Rightarrow> u64 \<Rightarrow> u64) \<Rightarrow> length_t \<Rightarrow> hv \<Rightarrow> (err_t \<times> hv) outcome" where
  "guest_init ok memalign ram_size h =
     (if \<not> ok then Inr (ERR_NO_MEM, h\<lparr>hv_guest := None\<rparr>)
      else
        bug_on (ram_size < MB 32) ''too little RAM'' (
        bug_on (ram_size mod MB 16 \<noteq> 0) ''RAM size % 16MB != 0'' (
        let ram = memalign (MB 16) ram_size;
            magic_page = memalign 4096 4096;
            m = memset magic_page 0 4096 (hv_mem h);
            g = guest_new ram_size ram
        in bindE (ptr_2_ra ram) (\<lambda>ra.
           let h = h\<lparr>hv_guest := Some g, hv_mem := guest_clear_ram (unat (ram_size div MB 1)) 0 ram m,
                     hv_mmu := mmu_guest_update False (hv_mmu h)\<rparr>
           in bindE (mmu_map_range (hv_guest h) LAYOUT_VM_START (LAYOUT_VM_START + ram_size) ra PP_RWRW PAGE_16M (hv_mmu h))
                (\<lambda>s.
              let h = h\<lparr>hv_mmu := s, hv_mem := show_ram ram ram_size (hv_mem h)\<rparr>
              in bindE (guest_update_msr (ucast (MSR_IR OR MSR_DR)) h) (\<lambda>h.
                 bindE (mmu_map_range (hv_guest h) LAYOUT_VM_START (LAYOUT_VM_START + ram_size) ra PP_RWRW PAGE_4K (hv_mmu h))
                   (\<lambda>s. Inr (ERR_NONE, h\<lparr>hv_mmu := s\<rparr>))))))))"

section \<open>Privileged instructions\<close>

definition PPC_INST_MASK :: u32 where "PPC_INST_MASK = 0xfc0007fe"
definition PPC_INST_MTSPR :: u32 where "PPC_INST_MTSPR = 0x7c0003a6"
definition PPC_INST_MFSPR :: u32 where "PPC_INST_MFSPR = 0x7c0002a6"
definition PPC_INST_MTMSR :: u32 where "PPC_INST_MTMSR = 0x7c000124"
definition PPC_INST_MFMSR :: u32 where "PPC_INST_MFMSR = 0x7c0000a6"
definition PPC_INST_MFSR :: u32 where "PPC_INST_MFSR = 0x7c0004a6"
definition PPC_INST_RFI :: u32 where "PPC_INST_RFI = 0x4c000064"

definition insn_reg :: "u32 \<Rightarrow> nat" where
  "insn_reg i = unat (MASK_OFF (ucast i) 25 21)"

definition insn_spr :: "u32 \<Rightarrow> u64" where
  "insn_spr i =
     (let spr = MASK_OFF (ucast i) 20 11
      in push_bit 5 (spr AND 0x1f) OR drop_bit 5 (spr AND 0x3e0))"

definition skip_insn :: "eframe_t \<Rightarrow> eframe_t" where
  "skip_insn f = f\<lparr>hsrr0 := hsrr0 f + 4\<rparr>"

definition guest_mfsr :: "u32 \<Rightarrow> guest_t \<Rightarrow> eframe_t \<Rightarrow> eframe_t" where
  "guest_mfsr i g f = skip_insn (set_r (insn_reg i) (ucast (g_sr g ! unat (MASK_OFF (ucast i) 19 16))) f)"

definition guest_mfmsr :: "u32 \<Rightarrow> guest_t \<Rightarrow> eframe_t \<Rightarrow> eframe_t" where
  "guest_mfmsr i g f = skip_insn (set_r (insn_reg i) (ucast (g_msr g)) f)"

definition guest_mtmsr :: "u32 \<Rightarrow> eframe_t \<Rightarrow> hv \<Rightarrow> (eframe_t \<times> hv) outcome" where
  "guest_mtmsr i f h =
     bindE (guest_update_msr (ucast (gpr f ! insn_reg i)) h) (\<lambda>h. Inr (skip_insn f, h))"

text \<open>
  The block address registers are indexed through the first array, the data ones lie behind it in the
  structure.
\<close>

definition set_bat :: "nat \<Rightarrow> u32 \<Rightarrow> guest_t \<Rightarrow> guest_t" where
  "set_bat k v g = (if k < 8 then g\<lparr>g_ibat := (g_ibat g)[k := v]\<rparr> else g\<lparr>g_dbat := (g_dbat g)[k - 8 := v]\<rparr>)"

definition get_bat :: "nat \<Rightarrow> guest_t \<Rightarrow> u32" where
  "get_bat k g = (if k < 8 then g_ibat g ! k else g_dbat g ! (k - 8))"

definition is_bat :: "u64 \<Rightarrow> bool" where
  "is_bat spr \<longleftrightarrow> SPRN_IBAT0U \<le> spr \<and> spr \<le> SPRN_DBAT3L"

definition is_sprg :: "u64 \<Rightarrow> bool" where
  "is_sprg spr \<longleftrightarrow> SPRN_SPRG0 \<le> spr \<and> spr \<le> SPRN_SPRG3"

text \<open>The store to a register, whether its log line checks the MSR, and \<open>None\<close> where the code stops.\<close>

definition spr_store :: "u64 \<Rightarrow> u32 \<Rightarrow> (bool \<times> (guest_t \<Rightarrow> guest_t)) option" where
  "spr_store spr v =
     (if spr = SPRN_SRR0 then Some (False, \<lambda>g. g\<lparr>g_srr0 := v\<rparr>)
      else if spr = SPRN_SRR1 then Some (False, \<lambda>g. g\<lparr>g_srr1 := v\<rparr>)
      else if is_bat spr then Some (True, set_bat (unat (spr - SPRN_IBAT0U)) v)
      else if is_sprg spr then Some (True, \<lambda>g. g\<lparr>g_sprg := (g_sprg g)[unat (spr - SPRN_SPRG0) := v]\<rparr>)
      else if spr = SPRN_SDR1 then Some (True, \<lambda>g. g\<lparr>g_sdr1 := v\<rparr>)
      else if spr = 1008 then Some (False, \<lambda>g. g\<lparr>g_hid0 := v\<rparr>)
      else None)"

definition guest_mtspr :: "u32 \<Rightarrow> eframe_t \<Rightarrow> hv \<Rightarrow> (eframe_t \<times> hv) outcome" where
  "guest_mtspr i f h =
     (case spr_store (insn_spr i) (ucast (gpr f ! insn_reg i)) of
        None \<Rightarrow> Inl (Bug ''unhandled MTSPR'')
      | Some (logged, upd) \<Rightarrow>
          let h = upd_guest upd h
          in if logged then bindE (guest_is_mmu_off (hv_guest h)) (\<lambda>_. Inr (skip_insn f, h))
             else Inr (skip_insn f, h))"

text \<open>
  Reading a register; a read of one of the four software registers also replaces the instruction by a
  load from a low address.
\<close>

definition guest_mfspr :: "u32 \<Rightarrow> guest_t \<Rightarrow> eframe_t \<Rightarrow> hv \<Rightarrow> eframe_t \<times> hv" where
  "guest_mfspr i g f h =
     (let spr = insn_spr i; ret = (\<lambda>v h. (skip_insn (set_r (insn_reg i) (ucast (v :: u32)) f), h))
      in if spr = SPRN_SRR0 then ret (g_srr0 g) h
         else if spr = SPRN_SRR1 then ret (g_srr1 g) h
         else if spr = SPRN_PVR then ret (g_pvr g) h
         else if is_bat spr then ret (get_bat (unat (spr - SPRN_IBAT0U)) g) h
         else if is_sprg spr then
           ret (g_sprg g ! unat (spr - SPRN_SPRG0))
             (put32 (hsrr0 f) (0xe8000000 OR (get32 (hsrr0 f) h AND 0x03e00000) OR (ucast (spr - SPRN_SPRG0) AND 0xfffc)) h)
         else if spr = SPRN_SDR1 then ret (g_sdr1 g) h
         else if spr = 4 then ret (hv_rtc0 h) (h\<lparr>hv_rtc0 := hv_rtc0 h + 1\<rparr>)
         else if spr = 5 then ret 0 h
         else if spr = 1008 then ret (g_hid0 g) h
         else (skip_insn f, h))"

definition guest_rfi :: "guest_t \<Rightarrow> eframe_t \<Rightarrow> hv \<Rightarrow> (eframe_t \<times> hv) outcome" where
  "guest_rfi g f h =
     bindE (guest_update_msr (g_srr1 g) h) (\<lambda>h. Inr (f\<lparr>hsrr0 := ucast (g_srr0 g)\<rparr>, h))"

text \<open>Any other instruction of the primary opcode 31 is taken for \<^verbatim>\<open>cntlzw\<close>.\<close>

definition clz32 :: "u32 \<Rightarrow> nat" where
  "clz32 v = length (takeWhile (\<lambda>k. \<not> bit v (31 - k)) [0..<32])"

definition guest_opcode_31 :: "u32 \<Rightarrow> eframe_t \<Rightarrow> eframe_t" where
  "guest_opcode_31 i f =
     (let rA = unat (MASK_OFF (ucast i) 15 11); rS = unat (MASK_OFF (ucast i) 10 6); rC = MASK_OFF (ucast i) 31 30;
          v = ucast (gpr f ! rS) :: u32;
          f = set_r rA (of_nat (if v \<noteq> 0 then clz32 v else 32)) f
      in skip_insn (if rC \<noteq> 0 then f\<lparr>cr := cr f AND 0\<rparr> else f))"

section \<open>The exception\<close>

definition guest_insn :: "eframe_t \<Rightarrow> hv \<Rightarrow> (err_t \<times> eframe_t \<times> hv) outcome" where
  "guest_insn f h =
     (case hv_guest h of None \<Rightarrow> Inl (Bug ''guest NULL'')
      | Some g \<Rightarrow>
          let i = get32 (hsrr0 f) h; op = i AND PPC_INST_MASK
          in if op = PPC_INST_MFSR then Inr (ERR_NONE, guest_mfsr i g f, h)
             else if op = PPC_INST_MFMSR then Inr (ERR_NONE, guest_mfmsr i g f, h)
             else if op = PPC_INST_MTMSR then bindE (guest_mtmsr i f h) (\<lambda>r. Inr (ERR_NONE, r))
             else if op = PPC_INST_MTSPR then bindE (guest_mtspr i f h) (\<lambda>r. Inr (ERR_NONE, r))
             else if op = PPC_INST_MFSPR then Inr (ERR_NONE, guest_mfspr i g f h)
             else if op = PPC_INST_RFI then bindE (guest_rfi g f h) (\<lambda>r. Inr (ERR_NONE, r))
             else if drop_bit 26 i = 0x1f then Inr (ERR_NONE, guest_opcode_31 i f, h)
             else Inr (ERR_UNSUPPORTED, f, h))"

text \<open>The segment faults; the frame is not changed.\<close>

definition guest_seg_fault :: "eframe_t \<Rightarrow> hv \<Rightarrow> (err_t \<times> bool \<times> hv) outcome" where
  "guest_seg_fault f h =
     (let fault = (\<lambda>ea. if ea \<ge> LAYOUT_VM_END then Inr (ERR_UNSUPPORTED, True, h)
            else bindE (mmu_guest_fault_seg (hv_guest h) ea (hv_mmu h)) (\<lambda>(err, s). Inr (err, False, h\<lparr>hv_mmu := s\<rparr>)))
      in if vec f = EXC_DSEG then fault (hv_dar h)
         else if vec f = EXC_ISEG then fault (hsrr0 f)
         else Inr (ERR_UNSUPPORTED, False, h))"

definition set_msr :: "u64 \<Rightarrow> hv \<Rightarrow> hv" where
  "set_msr v h = h\<lparr>hv_mmu := (hv_mmu h)\<lparr>hv_msr := mtmsrd_1 v (hv_msr (hv_mmu h))\<rparr>\<rparr>"

definition guest_exc_try ::
  "malloc_ok \<Rightarrow> u64 \<Rightarrow> eframe_t \<Rightarrow> hv \<Rightarrow> (err_t \<times> eframe_t \<times> hv) outcome"
where
  "guest_exc_try mm dtb f h =
     bindE (guest_seg_fault f h) (\<lambda>(err, done, h).
     if done \<or> err = ERR_NONE then Inr (err, f, h)
     else if hsrr1 f AND MSR_SF \<noteq> 0 then Inr (ERR_UNSUPPORTED, f, h)
     else
       bug_on (hsrr1 f AND MSR_PR = 0) ''32-bit non-PR'' (
       if vec f = EXC_PROG \<or> vec f = EXC_HEA then guest_insn f h
       else if vec f = EXC_SC then
         bindE (rom_call mm dtb f (set_msr MSR_RI h)) (\<lambda>(err, f, h). Inr (err, f, set_msr 0 h))
       else Inr (ERR_UNSUPPORTED, f, h)))"

end
