(* ===== verification/Exc.thy ===== *)
theory Exc
  imports Guest
begin

text \<open>
  Exceptions, \<^verbatim>\<open>exc.c\<close>, and the start, \<^verbatim>\<open>main.c\<close>. A handled exception ends in \<^verbatim>\<open>exc_rfi\<close>, assembly that
  loads the registers of the frame: \<open>Inr\<close> is the frame it is given and the state. The vectors, the
  image's symbols, the firmware's answers and \<^verbatim>\<open>mem_memalign\<close> are arguments.
\<close>

section \<open>The handler\<close>

definition exc_map_hv :: "ea_t \<Rightarrow> eframe_t \<Rightarrow> hv \<Rightarrow> (eframe_t \<times> hv) outcome" where
  "exc_map_hv ea f h =
     bindE (ptr_2_ra (ea AND PAGE_MASK_16M)) (\<lambda>ra.
     bindE (mmu_map (hv_guest h) (ea AND PAGE_MASK_16M) ra PP_RWXX PAGE_16M (hv_mmu h)) (\<lambda>s.
     Inr (f, h\<lparr>hv_mmu := s\<rparr>)))"

definition exc_handler ::
  "malloc_ok \<Rightarrow> u64 \<Rightarrow> (u64 \<Rightarrow> time_cb) \<Rightarrow> eframe_t \<Rightarrow> hv \<Rightarrow> (eframe_t \<times> hv) outcome"
where
  "exc_handler mm dtb run f h =
     (if hsrr1 f AND MSR_RI = 0 then Inl (Hang ''unrecoverable exception'')
      else
        bindE (guest_exc_try mm dtb f h) (\<lambda>(err, f, h).
        if err = ERR_NONE then Inr (f, h)
        else if vec f = EXC_ISI \<and> hsrr0 f \<ge> HV_ASPACE \<and> hsrr1 f AND SRR1_ISI_NOT_MAPPED \<noteq> 0 then
          exc_map_hv (hsrr0 f) f h
        else if vec f = EXC_DSI \<and> hv_dar h \<ge> HV_ASPACE \<and> hv_dsisr h AND DSISR_NOT_MAPPED \<noteq> 0 then
          exc_map_hv (hv_dar h) f h
        else if vec f = EXC_DEC then bindE (time_handle run (hv_time h)) (\<lambda>s. Inr (f, h\<lparr>hv_time := s\<rparr>))
        else Inl (Hang ''unrecoverable exception'')))"

section \<open>Set-up\<close>

definition EFRAME_SIZE :: u64 where "EFRAME_SIZE = 39 * 8"

definition exc_init :: "(u64 \<Rightarrow> u64 \<Rightarrow> u64) \<Rightarrow> bool \<Rightarrow> image_t \<Rightarrow> u64 \<Rightarrow> hv \<Rightarrow> hv" where
  "exc_init memalign hile_ok img kpcr h =
     (let c = hv_cpu h;
          c = (if hile_ok then c else c\<lparr>c_hid0 := c_hid0 c OR HID0_HILE\<rparr>);
          c = c\<lparr>c_lpcr := (c_lpcr c AND NOT LPCR_LPES) OR LPCR_ILE OR LPCR_AIL0 OR LPCR_AIL1,
                c_unrec_sp := memalign PAGE_SIZE PAGE_SIZE + PAGE_SIZE - EFRAME_SIZE, c_hsprg0 := kpcr\<rparr>
      in set_msr MSR_RI (h\<lparr>hv_cpu := c, hv_mem := memcpy 0 (exc_base img) (exc_end img - exc_base img) (hv_mem h)\<rparr>))"

definition cpu_cell :: "u64 \<Rightarrow> u32 \<Rightarrow> string \<Rightarrow> u32 \<Rightarrow> hv \<Rightarrow> u32 outcome" where
  "cpu_cell fdt node name dflt h =
     bindE (returns name (fdt_getprop (hv_mem h) fdt node (lit name))) (\<lambda>(p, _).
     Inr (if p \<noteq> 0 then fdt32 (hv_mem h) p else dflt))"

definition cpu_init ::
  "(u64 \<Rightarrow> time_cb) \<Rightarrow> (u64 \<Rightarrow> u64 \<Rightarrow> u64) \<Rightarrow> bool \<Rightarrow> image_t \<Rightarrow> u64 \<Rightarrow> u64 \<Rightarrow> u64 \<Rightarrow> hv \<Rightarrow> hv outcome"
where
  "cpu_init run memalign hile_ok img kpcr opal_timer fdt h =
     bindE (returns ''cpu'' (fdt_node_offset_by_dtype (hv_mem h) fdt (- 1) (lit ''cpu''))) (\<lambda>node.
     if neg32 node then Inr h
     else
       bindE (cpu_cell fdt node ''slb-size'' 32 h) (\<lambda>slb_size.
       bindE (cpu_cell fdt node ''timebase-frequency'' 512000000 h) (\<lambda>freq.
       let h = h\<lparr>hv_cpu := (hv_cpu h)\<lparr>c_slb_size := ucast slb_size\<rparr>, hv_time := (hv_time h)\<lparr>tb_freq := ucast freq\<rparr>\<rparr>
       in
       bindE (returns ''compatible'' (fdt_node_check_compatible (hv_mem h) fdt (- 1) (lit ''ibm,opal-v3''))) (\<lambda>node.
       bindE (if neg32 node then Inr 0 else cpu_cell fdt node ''ibm,heartbeat-ms'' 0 h) (\<lambda>opal_ms.
       let h = exc_init memalign hile_ok img kpcr h
       in
       bindE (mmu_init memalign (img_start img) (img_end img) (hv_guest h) (4 * 1024 * 1024 * 1024) (hv_mmu h)) (\<lambda>s.
       let h = h\<lparr>hv_mmu := s, hv_time := time_init (hv_time h)\<rparr>
       in
       bindE (if opal_ms \<noteq> 0 then
                bindE (time_prep_ms (ucast opal_ms) 0 0 (ucast opal_ms) opal_timer (hv_time h)) (\<lambda>ts.
                bindE (time_enqueue run opal_timer (hv_msr (hv_mmu h)) ts) (\<lambda>(msr, ts).
                Inr (h\<lparr>hv_time := ts, hv_mmu := (hv_mmu h)\<lparr>hv_msr := msr\<rparr>\<rparr>)))
              else Inr h) (\<lambda>h.
       Inr (h\<lparr>hv_mmu := (hv_mmu h)\<lparr>hv_msr := exc_enable_ee (hv_msr (hv_mmu h))\<rparr>\<rparr>))))))))"

section \<open>The start\<close>

definition STACKFRAMESIZE :: u64 where "STACKFRAMESIZE = 256"

text \<open>The frame the guest is entered with; \<open>uframe\<close> is its address.\<close>

definition guest_frame :: "guest_t \<Rightarrow> u64 \<Rightarrow> eframe_t" where
  "guest_frame g msr =
     \<lparr>vec = 0, gpr = (replicate 32 0)[1 := LAYOUT_VM_START + stack_end (g_rom g) - STACKFRAMESIZE,
                                       5 := LAYOUT_VM_START + cif_trampoline (g_rom g)],
      lr = 0, ctr = 0, xer = 0, cr = 0, hsrr0 = LAYOUT_VM_START + 0x50000, hsrr1 = (msr XOR MSR_SF) OR MSR_PR\<rparr>"

definition c_main ::
  "malloc_ok \<Rightarrow> (u64 \<Rightarrow> time_cb) \<Rightarrow> (u64 \<Rightarrow> u64 \<Rightarrow> u64) \<Rightarrow> bool \<Rightarrow> bool \<Rightarrow> image_t \<Rightarrow> u64 \<Rightarrow> u64 \<Rightarrow> u64 \<Rightarrow>
   u64 \<Rightarrow> ra_t \<Rightarrow> hv \<Rightarrow> (eframe_t \<times> hv) outcome"
where
  "c_main mm run memalign hile_ok guest_ok img kpcr opal_timer dtb uframe fdt_ra h =
     bindE (ra_2_ptr fdt_ra) (\<lambda>fdt.
     let h = h\<lparr>hv_con := con_puts_len (lit ''Hello, PReP HV!'' @ [0x0a, 0]) (hv_con h)\<rparr>
     in
     bindE (mem_init mm img (hv_mem h) fdt (hv_pages h)) (\<lambda>(err, ps).
     bug_on (err \<noteq> ERR_NONE) ''mem_init failed'' (
     bindE (cpu_init run memalign hile_ok img kpcr opal_timer fdt (h\<lparr>hv_pages := ps\<rparr>)) (\<lambda>h.
     bindE (guest_init guest_ok memalign (MB 32) h) (\<lambda>(err, h).
     bug_on (err \<noteq> ERR_NONE) ''guest init failed'' (
     bindE (rom_init mm dtb fdt h) (\<lambda>(err, h).
     bug_on (err \<noteq> ERR_NONE) ''rom init failed'' (
     case hv_guest h of None \<Rightarrow> Inl (Bug ''guest NULL'')
     | Some g \<Rightarrow>
         Inr (guest_frame g (hv_msr (hv_mmu h)),
           h\<lparr>hv_cpu := (hv_cpu h)\<lparr>c_kern_sp := uframe\<rparr>,
             hv_mmu := (hv_mmu h)\<lparr>hv_msr := snd (exc_disable_ee (hv_msr (hv_mmu h)))\<rparr>\<rparr>)))))))))"

end
