(* ===== verification/Rom_Call_Correct.thy ===== *)
theory Rom_Call_Correct
  imports Rom_Call
begin

text \<open>
  What the guest gets from the firmware interface when the built-in blob holds a device tree:
  \<^verbatim>\<open>finddevice\<close> returns the handle of the node a path names, \<^verbatim>\<open>getprop\<close> the value of a property.
\<close>

section \<open>Strings, handles and copies\<close>

lemma read_cstr_cstr: "cstr m p s \<Longrightarrow> read_cstr m p = Some s"
proof (induction s arbitrary: p)
  case Nil
  then show ?case by (subst read_cstr.simps) simp
next
  case (Cons c s)
  then show ?case by (subst read_cstr.simps) auto
qed

lemma cstr_cell_is: "cstr (hv_mem h) (gptr cia i h) (lit s) \<Longrightarrow> cell_is cia i s h"
  by (simp add: cstr_bytes cell_is_def lit_def del: bytes_Suc)

lemma cell_is_unique:
  assumes "cell_is cia i x h" "cell_is cia i y h" "0 \<notin> set (lit x)" "0 \<notin> set (lit y)"
  shows "lit x = lit y"
proof -
  have "cstr (hv_mem h) (gptr cia i h) (lit x)" "cstr (hv_mem h) (gptr cia i h) (lit y)"
    using assms by (simp_all add: cstr_bytes cell_is_def lit_def del: bytes_Suc)
  then show ?thesis by (metis read_cstr_cstr option.inject)
qed

lemma MUNGE_inverse [simp]: "NODE_DEMUNGE (NODE_MUNGE x) = x"
  by (simp add: NODE_DEMUNGE_def NODE_MUNGE_def)

lemma dt_path_node: "node_at t off n \<Longrightarrow> dt_path off n ss = Some o' \<Longrightarrow> \<exists>n'. node_at t o' n'"
proof (induction ss arbitrary: off n)
  case (Cons s ss)
  then show ?case using kid_find_node_at by (fastforce split: option.splits)
qed auto

lemma node_at_small:
  assumes "fdt_holds m fdt (dt_toks t @ [TFin])" "node_at t off n"
  shows "off < 2 ^ 31"
  using node_at_name[OF assms(2,1)] assms(1) by (simp add: fdt_holds_def)

lemma prop_val_small:
  assumes "fdt_holds m fdt (dt_toks t @ [TFin])" "node_at t off n" "prop_val pn name (dt_props n) = Some d"
  shows "length d < 2 ^ 31"
proof -
  obtain s ps cs where n: "n = Dt s ps cs" by (cases n)
  obtain xs ys where e: "fdt_holds m fdt (xs @ TBegin s # prop_toks ps @ concat (map dt_toks cs) @ TEnd # ys)"
    using node_at_blob[OF assms(1), of off s ps cs] assms(2) n by metis
  obtain k where "(k, d) \<in> set ps"
    using assms(3) n by (auto simp: prop_val_def find_Some_iff) (metis nth_mem snd_conv surj_pair)
  then obtain as bs where "ps = as @ (k, d) # bs" by (meson split_list)
  then have "length d \<le> toks_size (prop_toks ps)" using tok_size_ge[of "TProp k d"] by (simp add: prop_toks_def)
  then show ?thesis using e by (simp add: fdt_holds_def)
qed

lemma memcpy_store_bytes:
  assumes "n < 2 ^ 64" "copy_up_ok d s n"
  shows "memcpy d s (of_nat n) m = store_bytes d (bytes m s n) m"
proof
  fix a
  have u: "unat (of_nat n :: u64) = n" using assms(1) by (simp add: unat_of_nat)
  show "memcpy d s (of_nat n) m a = store_bytes d (bytes m s n) m a"
    using memcpy_loop_spec[OF assms(2,1)] store_bytes_at[of "bytes m s n" d m a] assms(1)
    by (simp add: memcpy_def u bytes_nth)
qed

text \<open>A word stored below the hypervisor's addresses leaves a string of bytes above.\<close>

lemma bytes_store32_low:
  assumes "unat a + 4 \<le> 2 ^ 63" "2 ^ 63 \<le> unat p" "unat p + n < 2 ^ 64"
  shows "bytes (store32_le a v m) p n = bytes m p n"
proof -
  have "store32_le a v m (p + of_nat i) = m (p + of_nat i)" if "i < n" for i
  proof (rule store32_le_other)
    have u: "unat (p + of_nat i) = unat p + i"
      using assms that by (subst unat_add_no_wrap) (simp_all add: unat_of_nat)
    then have "unat (p + of_nat i - a) = unat p + i - unat a"
      using assms by (subst unat_sub) (simp_all add: word_le_nat_alt)
    then have "4 \<le> unat (p + of_nat i - a)" using assms by simp
    then show "p + of_nat i - a \<notin> {0, 1, 2, 3}" by auto
  qed
  then show ?thesis by (simp add: bytes_def)
qed

section \<open>finddevice\<close>

text \<open>
  C23: The service \<^verbatim>\<open>finddevice\<close>. On a blob that holds a tree the guest's call returns to its link
  register with \<^verbatim>\<open>r3\<close> zero, and the result word is the handle of the node the path names, or -1 when
  the tree has no such node; nothing else changes.
\<close>
theorem rom_call_finddevice:
  assumes "fdt_holds (hv_mem h) dtb (dt_toks t @ [TFin])" "cell_is (gpr frame ! 3) 0 ''finddevice'' h"
    "cstr (hv_mem h) (gptr (gpr frame ! 3) 3 h) (path_str ss)" "path_ok ss" "ss \<noteq> []"
  shows "rom_call mm dtb frame h = Inr (ERR_NONE, (set_r 3 0 frame)\<lparr>hsrr0 := lr frame\<rparr>,
    put_cell (gpr frame ! 3) 4 (case dt_path 0 t ss of None \<Rightarrow> - 1 | Some off \<Rightarrow> NODE_MUNGE (of_nat off)) h)"
proof -
  have "neg32 (found (dt_path 0 t ss)) \<longleftrightarrow> dt_path 0 t ss = None"
    using dt_path_node[OF node_at.root] node_at_small[OF assms(1)] neg32_small neg32_err(1)
    by (cases "dt_path 0 t ss") (fastforce simp: found_def)+
  then have f: "(if neg32 (found (dt_path 0 t ss)) then - 1 else NODE_MUNGE (found (dt_path 0 t ss))) =
      (case dt_path 0 t ss of None \<Rightarrow> - 1 | Some off \<Rightarrow> NODE_MUNGE (of_nat off))"
    by (simp add: found_def split: option.splits)
  show ?thesis
    unfolding rom_call_def rom_service_def rom_finddevice_def cell_str_def Let_def
      read_cstr_cstr[OF assms(3)]
    using assms(2) f by (simp add: returns_def path_offset_holds[OF assms(1,4,5)])
qed

section \<open>getprop\<close>

lemma getprop_dispatch:
  assumes "cell_is (gpr frame ! 3) 0 ''getprop'' h" "cstr (hv_mem h) (gptr (gpr frame ! 3) 4 h) name"
    "cell (gpr frame ! 3) 3 h = NODE_MUNGE node"
  shows "rom_call mm dtb frame h =
    bindE (rom_getprop dtb node name (gpr frame ! 3 + 28) (gptr (gpr frame ! 3) 5 h) (cell (gpr frame ! 3) 6 h) h)
      (\<lambda>(r, h). Inr (ERR_NONE, (set_r 3 (scast r) frame)\<lparr>hsrr0 := lr frame\<rparr>, h))"
proof -
  have ne: "\<not> cell_is (gpr frame ! 3) 0 x h" if "lit x \<noteq> lit ''getprop''" "0 \<notin> set (lit x)" for x
    using that assms(1) cell_is_unique[of "gpr frame ! 3" 0 x h "''getprop''"] by (auto simp: lit_def)
  show ?thesis
    unfolding rom_call_def rom_service_def rom_getprop_call_def cell_str_def Let_def read_cstr_cstr[OF assms(2)] assms(3)
    using assms(1) ne by (simp add: returns_def lit_def bindE_assoc case_prod_beta)
qed

text \<open>The delivery of a value that lies above the guest's addresses.\<close>

lemma deliver_value:
  assumes "bytes (hv_mem h) p (length d) = d" "2 ^ 63 \<le> unat p" "unat p + length d < 2 ^ 64" "length d < 2 ^ 31"
    "unat dest_len + 4 \<le> 2 ^ 63" "unat b < 2 ^ 32" "b \<noteq> 0"
  shows "rom_deliver dest_len b k (of_nat (length d)) (\<lambda>n. memcpy b p (of_nat n)) h =
    Inr (0, h\<lparr>hv_mem := store_bytes b (take (unat k) d) (store32_le dest_len (of_nat (length d)) (hv_mem h))\<rparr>)"
proof -
  define j where "j = min (length d) (unat k)"
  let ?m1 = "store32_le dest_len (of_nat (length d)) (hv_mem h)"
  have "unat (of_nat (length d) :: u32) = length d" using assms(4) by (simp add: unat_of_nat)
  then have j: "unat (min (of_nat (length d)) k) = j" by (simp add: j_def min_def word_le_nat_alt)
  have j': "ucast (min (of_nat (length d)) k) = (of_nat j :: u64)" unfolding j[symmetric] by simp
  have hi: "unat p + j < 2 ^ 64" using assms(3) by (simp add: j_def)
  have "bytes ?m1 p j = bytes (hv_mem h) p j" by (rule bytes_store32_low[OF assms(5,2) hi])
  also have "\<dots> = take j (bytes (hv_mem h) p (length d))" by (rule bytes_take) (simp add: j_def)
  finally have "bytes ?m1 p j = take (unat k) d" using assms(1) by (simp add: j_def min_def)
  moreover have "copy_up_ok b p j"
  proof -
    have "unat (b - p) = unat b + 2 ^ 64 - unat p" using assms(2,6) by (simp add: unat_sub_if')
    then have "j \<le> unat (b - p)" using hi by linarith
    then show ?thesis by (simp add: copy_up_ok_def)
  qed
  ultimately have "memcpy b p (of_nat j) ?m1 = store_bytes b (take (unat k) d) ?m1"
    using memcpy_store_bytes[of j b p ?m1] hi by simp
  then show ?thesis using assms(7) by (simp add: rom_deliver_def put32_def Let_def j')
qed

text \<open>
  C22: The service \<^verbatim>\<open>getprop\<close> on a node other than the memory node, for a property other than
  \<^verbatim>\<open>name\<close>. When the node has the property, its length is stored in the result word and its value, cut
  to the size the guest gives, at the guest's buffer, \<^verbatim>\<open>r3\<close> zero; when it has not, \<^verbatim>\<open>r3\<close> is -1 and
  nothing is stored.
\<close>
theorem rom_call_getprop:
  assumes "fdt_holds (hv_mem h) dtb (dt_toks t @ [TFin])" "node_at t off n" "prop_names (hv_mem h) dtb pn (dt_props n)"
    "cell_is (gpr frame ! 3) 0 ''getprop'' h" "cell (gpr frame ! 3) 3 h = NODE_MUNGE (of_nat off)"
    "cstr (hv_mem h) (gptr (gpr frame ! 3) 4 h) name" "length name < 2 ^ 31" "name \<noteq> lit ''name''"
    "of_nat off \<noteq> memory_node (hv_rom h)" "gptr (gpr frame ! 3) 5 h \<noteq> 0"
    "2 ^ 63 \<le> unat (fdt_base (hv_mem h) dtb)" "unat (gpr frame ! 3) + 32 \<le> 2 ^ 63"
  shows "rom_call mm dtb frame h =
    (case prop_val pn name (dt_props n) of
       None \<Rightarrow> Inr (ERR_NONE, (set_r 3 (- 1) frame)\<lparr>hsrr0 := lr frame\<rparr>, h)
     | Some d \<Rightarrow> Inr (ERR_NONE, (set_r 3 0 frame)\<lparr>hsrr0 := lr frame\<rparr>,
         h\<lparr>hv_mem := store_bytes (gptr (gpr frame ! 3) 5 h) (take (unat (cell (gpr frame ! 3) 6 h)) d)
           (store32_le (gpr frame ! 3 + 28) (of_nat (length d)) (hv_mem h))\<rparr>))"
proof -
  let ?cia = "gpr frame ! 3" let ?m = "hv_mem h"
  obtain p l where p: "fdt_getprop ?m dtb (of_nat off) name = Some (p, l)"
    "case prop_val pn name (dt_props n) of None \<Rightarrow> p = 0 \<and> l = - FDT_ERR_NOTFOUND
     | Some d \<Rightarrow> p \<noteq> 0 \<and> l = of_nat (length d) \<and> bytes ?m p (length d) = d \<and> unat p + length d < 2 ^ 64 \<and>
         fdt_base ?m dtb \<le> p"
    using getprop_holds[OF assms(1-3,7)] by blast
  note call = getprop_dispatch[OF assms(4,6,5)]
  show ?thesis
  proof (cases "prop_val pn name (dt_props n)")
    case None
    then show ?thesis
      using p assms(8,9) unfolding call rom_getprop_def by (simp add: returns_def)
  next
    case (Some d)
    have lo: "unat (?cia + 28) + 4 \<le> 2 ^ 63" using assms(12) by (subst unat_add_no_wrap) simp_all
    have b: "unat (gptr ?cia 5 h) < 2 ^ 32" using unat_less_exp[of "cell ?cia 5 h"] by (simp add: gptr_def unat_ucast_64)
    have hi: "2 ^ 63 \<le> unat p" using p(2) Some assms(11) by (auto simp: word_le_nat_alt)
    have v: "bytes ?m p (length d) = d" "unat p + length d < 2 ^ 64" "p \<noteq> 0" "l = of_nat (length d)" using p(2) Some by simp_all
    have "rom_getprop dtb (of_nat off) name (?cia + 28) (gptr ?cia 5 h) (cell ?cia 6 h) h =
        rom_deliver (?cia + 28) (gptr ?cia 5 h) (cell ?cia 6 h) (of_nat (length d)) (\<lambda>n. memcpy (gptr ?cia 5 h) p (of_nat n)) h"
      using p(1) v(3,4) assms(8,9) by (simp add: rom_getprop_def returns_def)
    then show ?thesis
      using deliver_value[OF v(1) hi v(2) prop_val_small[OF assms(1,2) Some] lo b assms(10)] Some
      unfolding call by simp
  qed
qed

section \<open>An example\<close>

text \<open>The example blob at a hypervisor address, and the arguments of two calls in the guest's memory.\<close>

definition call_mem :: mem where
  "call_mem = mem_of [(0x8000000000001000, fdt_example_bytes),
     (0x100, [0, 2, 0, 0, 1, 0, 0, 0, 1, 0, 0, 0, 0x10, 2, 0, 0, 0, 0, 0, 0]),
     (0x140, [0x20, 2, 0, 0, 4, 0, 0, 0, 1, 0, 0, 0, 0x18, 0, 0, 0x10, 0x28, 2, 0, 0, 0, 3, 0, 0, 4, 0, 0, 0, 0, 0, 0, 0]),
     (0x200, lit ''finddevice'' @ [0]), (0x210, lit ''/d'' @ [0]), (0x220, lit ''getprop'' @ [0]), (0x228, lit ''id'' @ [0])]"

definition hv_call :: hv where
  "hv_call = hv_example\<lparr>hv_mem := call_mem\<rparr>"

definition frame_at :: "u64 \<Rightarrow> eframe_t" where
  "frame_at cia = \<lparr>vec = EXC_SC, gpr = (replicate 32 0)[3 := cia], lr = 0x51234, ctr = 0, xer = 0, cr = 0, hsrr0 = 4, hsrr1 = 0\<rparr>"

lemma frame_at_3 [simp]: "gpr (frame_at cia) ! 3 = cia"
  by (simp add: frame_at_def)

lemma hv_call_mem [simp]: "hv_mem hv_call = call_mem" "memory_node (hv_rom hv_call) = 0x40"
  by (simp_all add: hv_call_def hv_example_def rom_example_def)

lemma call_mem_holds: "fdt_holds call_mem 0x8000000000001000 (dt_toks dt_example @ [TFin])"
  and call_mem_base: "fdt_base call_mem 0x8000000000001000 = 0x8000000000001028"
proof -
  note e = call_mem_def mem_of_def fdt_example_bytes_def fdt32_def load32_le_def be32_to_cpu_def swab32_def lit_def
  have off: "fdt_off_dt_struct call_mem 0x8000000000001000 = 40" by (simp add: fdt_off_dt_struct_def e)
  show b: "fdt_base call_mem 0x8000000000001000 = 0x8000000000001028" by (simp add: fdt_base_def off)
  have v: "fdt_check_header call_mem 0x8000000000001000 = 0"
    by (simp add: fdt_check_header_def fdt_magic_def fdt_version_def fdt_last_comp_version_def e FDT_MAGIC_def
        FDT_FIRST_SUPPORTED_VERSION_def FDT_LAST_SUPPORTED_VERSION_def)
  have sz: "fdt_size_dt_struct call_mem 0x8000000000001000 = 60" by (simp add: fdt_size_dt_struct_def e)
  have t: "toks_size (dt_toks dt_example @ [TFin]) = 60"
    by (simp add: dt_example_def prop_toks_def tok_size_def pad4_def)
  have "toks_at call_mem 0x8000000000001028 (dt_toks dt_example @ [TFin])"
    by (simp add: dt_example_def prop_toks_def tok_size_def pad4_def tok_at_def fdt_tags e)
  then show "fdt_holds call_mem 0x8000000000001000 (dt_toks dt_example @ [TFin])"
    by (simp add: fdt_holds_def v b sz t del: toks_size_simps)
qed

lemma call_cells:
  "gptr 0x100 0 hv_call = 0x200" "gptr 0x100 3 hv_call = 0x210" "gptr 0x140 0 hv_call = 0x220" "gptr 0x140 4 hv_call = 0x228"
  "gptr 0x140 5 hv_call = 0x300" "cell 0x140 3 hv_call = 0x10000018" "cell 0x140 6 hv_call = 4"
  by (simp_all add: gptr_def cell_def get32_def call_mem_def mem_of_def load32_le_def lit_def fdt_example_bytes_def)

lemma call_strings:
  "cstr call_mem 0x200 (lit ''finddevice'')" "cstr call_mem 0x210 (path_str [[0x64]])"
  "cstr call_mem 0x220 (lit ''getprop'')" "cstr call_mem 0x228 [0x69, 0x64]"
  by (simp_all add: call_mem_def mem_of_def lit_def path_str_def fdt_example_bytes_def)

theorem rom_call_finddevice_witness:
  "rom_call (\<lambda>_ _. True) 0x8000000000001000 (frame_at 0x100) hv_call =
     Inr (ERR_NONE, (set_r 3 0 (frame_at 0x100))\<lparr>hsrr0 := 0x51234\<rparr>, put_cell 0x100 4 0x10000018 hv_call)"
proof -
  have "dt_path 0 dt_example [[0x64]] = Some 24"
    by (simp add: dt_example_def name_matches_def prop_toks_def tok_size_def pad4_def)
  moreover have "path_ok [[0x64]]" by (simp add: path_ok_def)
  moreover have "cell_is 0x100 0 ''finddevice'' hv_call" by (simp add: cstr_cell_is call_cells call_strings)
  ultimately show ?thesis
    using rom_call_finddevice[of hv_call "0x8000000000001000" dt_example "frame_at 0x100" "[[0x64]]" "\<lambda>_ _. True"]
      call_mem_holds call_strings(2) by (simp add: call_cells NODE_MUNGE_def frame_at_def)
qed

theorem rom_call_getprop_witness:
  "rom_call (\<lambda>_ _. True) 0x8000000000001000 (frame_at 0x140) hv_call =
     Inr (ERR_NONE, (set_r 3 0 (frame_at 0x140))\<lparr>hsrr0 := 0x51234\<rparr>,
       hv_call\<lparr>hv_mem := store_bytes 0x300 [7] (store32_le 0x15c 1 call_mem)\<rparr>)"
proof -
  let ?pn = "\<lambda>n. if n = 0 then [0x72, 0x65, 0x67] else [0x69, 0x64] :: u8 list"
  let ?n = "Dt [0x64, 0x40, 0x31] [(4, [7])] []"
  have n: "node_at dt_example 24 ?n"
    using node_at.kid[OF node_at.root, of dt_example "[]" _ "[]"]
    by (simp add: dt_example_def prop_toks_def tok_size_def pad4_def)
  have "prop_names call_mem 0x8000000000001000 ?pn [(4, [7])]"
    by (simp add: prop_names_def fdt_string_def fdt_off_dt_strings_def call_mem_def mem_of_def fdt_example_bytes_def
        fdt32_def load32_le_def be32_to_cpu_def swab32_def lit_def)
  moreover have "cell_is 0x140 0 ''getprop'' hv_call" by (simp add: cstr_cell_is call_cells call_strings)
  moreover have "[0x69, 0x64] \<noteq> lit ''name''" by (simp add: lit_def)
  moreover have "prop_val ?pn [0x69, 0x64] [(4, [7])] = Some [7]" by (simp add: prop_val_def)
  ultimately show ?thesis
    using rom_call_getprop[of hv_call "0x8000000000001000" dt_example 24 ?n ?pn "frame_at 0x140" "[0x69, 0x64]" "\<lambda>_ _. True"]
      n call_mem_holds call_strings(4) by (simp add: call_cells call_mem_base NODE_MUNGE_def) (simp add: frame_at_def)
qed

end
