(* ===== verification/Guest_Correct.thy ===== *)
theory Guest_Correct
  imports Guest Rom_Call_Correct
begin

text \<open>
  The emulation of the guest's privileged instructions: what is written to a special register is read
  back, and no exception breaks the shape of the guest's state.
\<close>

section \<open>Instruction words\<close>

text \<open>The encoding of the moves to and from a special register: the number's halves are swapped.\<close>

definition spr_field :: "u64 \<Rightarrow> u32" where
  "spr_field spr = push_bit 16 (take_bit 5 (ucast spr)) OR push_bit 11 (take_bit 5 (drop_bit 5 (ucast spr)))"

definition mtspr_insn :: "nat \<Rightarrow> u64 \<Rightarrow> u32" where
  "mtspr_insn r spr = PPC_INST_MTSPR OR push_bit 21 (take_bit 5 (of_nat r)) OR spr_field spr"

definition mfspr_insn :: "nat \<Rightarrow> u64 \<Rightarrow> u32" where
  "mfspr_insn r spr = PPC_INST_MFSPR OR push_bit 21 (take_bit 5 (of_nat r)) OR spr_field spr"

lemma fields_apart:
  "take_bit 5 (drop_bit 21 (spr_field spr)) = 0" "spr_field spr AND PPC_INST_MASK = 0"
  "take_bit 10 (drop_bit 11 (push_bit 21 (take_bit 5 x))) = (0 :: u32)"
  "push_bit 21 (take_bit 5 x) AND PPC_INST_MASK = 0" "take_bit 5 (drop_bit 21 (push_bit 21 (take_bit 5 x))) = take_bit 5 x"
  for x :: u32
proof -
  have m: "PPC_INST_MASK = NOT (push_bit 11 (mask 15) OR 1)"
    by (simp add: PPC_INST_MASK_def mask_eq_exp_minus_1)
  show "take_bit 5 (drop_bit 21 (spr_field spr)) = 0"
    by (rule bit_word_eqI) (auto simp: spr_field_def bit_simps)
  show "spr_field spr AND PPC_INST_MASK = 0" "push_bit 21 (take_bit 5 x) AND PPC_INST_MASK = 0" for x :: u32
    unfolding m by (rule bit_word_eqI, auto simp: spr_field_def bit_simps)+
  show "take_bit 10 (drop_bit 11 (push_bit 21 (take_bit 5 x))) = (0 :: u32)"
    "take_bit 5 (drop_bit 21 (push_bit 21 (take_bit 5 x))) = take_bit 5 x"
    by (rule bit_word_eqI, auto simp: bit_simps)+
qed

lemma MASK_OFF_ucast: "MASK_OFF (ucast i) l s = ucast (take_bit (l + 1 - s) (drop_bit s i))" for i :: u32
  unfolding MASK_OFF_take_drop by (rule bit_word_eqI) (auto simp: bit_simps dest: bit_imp_le_length)

lemma spr_insn_decode:
  assumes "op = PPC_INST_MTSPR \<or> op = PPC_INST_MFSPR" "r < 32" "unat spr < 1024"
  defines "i \<equiv> op OR push_bit 21 (take_bit 5 (of_nat r)) OR spr_field spr"
  shows "i AND PPC_INST_MASK = op" "insn_reg i = r" "insn_spr i = spr"
proof -
  have op: "op AND PPC_INST_MASK = op" "take_bit 5 (drop_bit 21 op) = 0" "take_bit 10 (drop_bit 11 op) = 0"
    using assms(1) by (auto simp: PPC_INST_MTSPR_def PPC_INST_MFSPR_def PPC_INST_MASK_def)
  show "i AND PPC_INST_MASK = op" by (simp add: i_def bit.conj_disj_distrib2 op fields_apart)
  have "take_bit 5 (drop_bit 21 i) = take_bit 5 (of_nat r)"
    by (simp add: i_def drop_bit_or take_bit_or op fields_apart)
  then show "insn_reg i = r"
  proof -
    assume t: "take_bit 5 (drop_bit 21 i) = take_bit 5 (of_nat r)"
    have "unat (take_bit 5 (of_nat r :: u32)) = r"
      unfolding unsigned_take_bit_eq unat_of_nat using assms(2) by (simp add: take_bit_eq_mod)
    then show ?thesis by (simp add: insn_reg_def MASK_OFF_ucast unat_ucast_64 t)
  qed
  have "take_bit 10 (drop_bit 11 i) = take_bit 10 (drop_bit 11 (spr_field spr))"
    by (simp add: i_def drop_bit_or take_bit_or op fields_apart)
  then have "MASK_OFF (ucast i) 20 11 = ucast (take_bit 10 (drop_bit 11 (spr_field spr)))" by (simp add: MASK_OFF_ucast)
  moreover have "bit (ucast (take_bit 10 (drop_bit 11 (spr_field spr))) :: u64) n \<longleftrightarrow>
      n < 10 \<and> bit spr (if n < 5 then n + 5 else n - 5)" for n
    by (cases "n < 10"; cases "n < 5") (auto simp add: spr_field_def bit_simps add.commute)
  ultimately have q: "bit (MASK_OFF (ucast i) 20 11) n \<longleftrightarrow> n < 10 \<and> bit spr (if n < 5 then n + 5 else n - 5)" for n
    by simp
  have hi: "\<not> bit spr n" if "10 \<le> n" for n
    using that assms(3) unat_ge_of_bit[of spr n] power_increasing[of 10 n "2::nat"] by force
  have c: "(0x1f :: u64) = mask 5" "(0x3e0 :: u64) = push_bit 5 (mask 5)" by (simp_all add: mask_eq_exp_minus_1)
  show "insn_spr i = spr"
  proof (rule bit_word_eqI)
    fix n assume n: "n < LENGTH(64)"
    consider "n < 5" | "5 \<le> n" "n < 10" | "10 \<le> n" by linarith
    then show "bit (insn_spr i) n = bit spr n"
      using n hi unfolding insn_spr_def Let_def c by cases (simp_all add: bit_simps q)
  qed
qed

section \<open>Special registers\<close>

text \<open>What \<^verbatim>\<open>mfspr\<close> reads after the store of \<^verbatim>\<open>mtspr\<close>; the memory may change, the registers do not.\<close>

lemma spr_index: "is_bat spr \<Longrightarrow> unat (spr - SPRN_IBAT0U) < 16" "is_sprg spr \<Longrightarrow> unat (spr - SPRN_SPRG0) < 4"
  by (auto simp: is_bat_def is_sprg_def ppc word_le_nat_alt unat_sub)

lemma spr_apart:
  "is_bat spr \<Longrightarrow> spr \<noteq> SPRN_SRR0 \<and> spr \<noteq> SPRN_SRR1 \<and> spr \<noteq> SPRN_PVR"
  "is_sprg spr \<Longrightarrow> spr \<noteq> SPRN_SRR0 \<and> spr \<noteq> SPRN_SRR1 \<and> spr \<noteq> SPRN_PVR \<and> \<not> is_bat spr"
  by (auto simp: is_bat_def is_sprg_def ppc word_le_nat_alt)

lemma get_set_bat: "guest_wf g \<Longrightarrow> k < 16 \<Longrightarrow> get_bat k (set_bat k v g) = v"
  by (simp add: get_bat_def set_bat_def guest_wf_def)

lemma spr_load_store:
  assumes "spr_store (insn_spr i) v = Some (lg, upd)" "guest_wf g"
  shows "\<exists>h'. guest_mfspr i (upd g) f h = (skip_insn (set_r (insn_reg i) (ucast v) f), h')"
proof -
  have c: "\<not> is_bat SPRN_SDR1" "\<not> is_sprg SPRN_SDR1" "\<not> is_bat 1008" "\<not> is_sprg 1008"
    by (simp_all add: is_bat_def is_sprg_def ppc)
  consider "insn_spr i = SPRN_SRR0" | "insn_spr i = SPRN_SRR1" | "is_bat (insn_spr i)" | "is_sprg (insn_spr i)"
    | "insn_spr i = SPRN_SDR1" | "insn_spr i = 1008"
    using assms(1) by (auto simp: spr_store_def split: if_splits)
  then show ?thesis
  proof cases
    case 3
    then show ?thesis
      using assms spr_apart(1)[OF 3] get_set_bat[OF assms(2) spr_index(1)[OF 3]]
      by (auto simp: spr_store_def guest_mfspr_def Let_def)
  next
    case 4
    then show ?thesis
      using assms spr_apart(2)[OF 4] spr_index(2)[OF 4] by (auto simp: spr_store_def guest_mfspr_def Let_def guest_wf_def)
  qed (use assms(1) c in \<open>auto simp: spr_store_def guest_mfspr_def Let_def is_bat_def is_sprg_def ppc\<close>)
qed

text \<open>Stores to special registers keep the MSR and the shape of the state.\<close>

lemma spr_store_keeps:
  assumes "spr_store spr v = Some (lg, upd)"
  shows "g_msr (upd g) = g_msr g" "guest_wf (upd g) = guest_wf g"
  using assms by (auto simp: spr_store_def set_bat_def guest_wf_def split: if_splits)

text \<open>
  C25: Special registers. A guest that moves a register to one of the special registers the code keeps
  (save/restore, the block address registers, the four software registers, SDR1 and HID0) and then
  moves it back reads the low word it wrote, and goes on behind the two instructions.
\<close>
theorem guest_spr_roundtrip:
  assumes "hv_guest h = Some g" "guest_wf g" "ir_on (g_msr g) = dr_on (g_msr g)" "length (gpr f) = 32"
    "rs < 32" "rd < 32" "unat spr < 1024" "spr_store spr 0 \<noteq> None"
    "get32 (hsrr0 f) h = mtspr_insn rs spr" "get32 (hsrr0 f + 4) h = mfspr_insn rd spr"
  shows "\<exists>f1 h1 f2 h2. guest_insn f h = Inr (ERR_NONE, f1, h1) \<and> guest_insn f1 h1 = Inr (ERR_NONE, f2, h2) \<and>
    gpr f2 = (gpr f)[rd := ucast (ucast (gpr f ! rs) :: u32)] \<and> hsrr0 f2 = hsrr0 f + 8"
proof -
  let ?v = "ucast (gpr f ! rs) :: u32" and ?i = "mtspr_insn rs spr" and ?j = "mfspr_insn rd spr"
  note d1 = spr_insn_decode[of PPC_INST_MTSPR rs spr, OF _ assms(5,7), folded mtspr_insn_def, simplified]
  note d2 = spr_insn_decode[of PPC_INST_MFSPR rd spr, OF _ assms(6,7), folded mfspr_insn_def, simplified]
  obtain lg upd where u: "spr_store spr ?v = Some (lg, upd)"
    using assms(8) by (auto simp: spr_store_def split: if_splits)
  let ?h1 = "upd_guest upd h" and ?f1 = "skip_insn f"
  have g1: "hv_guest ?h1 = Some (upd g)" using assms(1) by (simp add: upd_guest_def)
  have "guest_is_mmu_off (hv_guest ?h1) = Inr (\<not> ir_on (g_msr g))"
    unfolding g1 guest_is_mmu_off_eq using assms(3) spr_store_keeps(1)[OF u] by simp
  then have "guest_mtspr ?i f h = Inr (?f1, ?h1)" using u by (simp add: guest_mtspr_def d1 Let_def)
  moreover have n: "PPC_INST_MTSPR \<noteq> PPC_INST_MFSR" "PPC_INST_MTSPR \<noteq> PPC_INST_MFMSR" "PPC_INST_MTSPR \<noteq> PPC_INST_MTMSR"
    "PPC_INST_MFSPR \<noteq> PPC_INST_MFSR" "PPC_INST_MFSPR \<noteq> PPC_INST_MFMSR" "PPC_INST_MFSPR \<noteq> PPC_INST_MTMSR" "PPC_INST_MFSPR \<noteq> PPC_INST_MTSPR"
    by (simp_all add: PPC_INST_MTSPR_def PPC_INST_MFSR_def PPC_INST_MFMSR_def PPC_INST_MTMSR_def PPC_INST_MFSPR_def)
  ultimately have i1: "guest_insn f h = Inr (ERR_NONE, ?f1, ?h1)"
    by (simp add: guest_insn_def assms(1,9) d1 Let_def)
  obtain h2 where "guest_mfspr ?j (upd g) ?f1 ?h1 = (skip_insn (set_r rd (ucast ?v) ?f1), h2)"
    using spr_load_store[of ?j ?v lg upd g ?f1 ?h1] u assms(2) by (auto simp: d2)
  moreover have "get32 (hsrr0 ?f1) ?h1 = ?j" using assms(10) by (simp add: skip_insn_def upd_guest_def get32_def)
  ultimately have "guest_insn ?f1 ?h1 = Inr (ERR_NONE, skip_insn (set_r rd (ucast ?v) ?f1), h2)"
    using n by (simp add: guest_insn_def g1 d2 Let_def)
  with i1 show ?thesis by (fastforce simp: skip_insn_def set_r_def)
qed

section \<open>The invariant\<close>

text \<open>
  The guest exists, its arrays have the lengths of their declarations, instruction and data relocation
  are switched together; the available memory is a sorted list of disjoint ranges of whole pages.
\<close>

definition guest_ok :: "guest_t option \<Rightarrow> bool" where
  "guest_ok o' \<longleftrightarrow> (\<exists>g. o' = Some g \<and> guest_wf g \<and> ir_on (g_msr g) = dr_on (g_msr g))"

definition hv_inv :: "hv \<Rightarrow> bool" where
  "hv_inv h \<longleftrightarrow> guest_ok (hv_guest h) \<and> ranges_wf (guest_mem_avail_ranges (hv_rom h)) \<and>
     pages_whole (guest_mem_avail_ranges (hv_rom h))"

text \<open>The two parts of the state the invariant is about; most services change neither.\<close>

definition core :: "hv \<Rightarrow> guest_t option \<times> ranges_t" where
  "core h = (hv_guest h, guest_mem_avail_ranges (hv_rom h))"

lemma hv_inv_core: "core h = core h' \<Longrightarrow> hv_inv h = hv_inv h'"
  by (simp add: core_def hv_inv_def)

lemma core_simps [simp]:
  "core (put_cell cia i v h) = core h" "core (put32 a v h) = core h" "core (h\<lparr>hv_mem := m\<rparr>) = core h"
  "core (h\<lparr>hv_fs := fs\<rparr>) = core h" "core (h\<lparr>hv_mmu := s\<rparr>) = core h" "core (h\<lparr>hv_time := t\<rparr>) = core h"
  "core (h\<lparr>hv_con := c\<rparr>) = core h" "core (h\<lparr>hv_rtc0 := r\<rparr>) = core h" "core (set_msr w h) = core h"
  "core (h\<lparr>hv_rom := (hv_rom h)\<lparr>guest_disk_offset := d\<rparr>\<rparr>) = core h" "core (h\<lparr>hv_rom := (hv_rom h)\<lparr>cur_file := fl\<rparr>\<rparr>) = core h"
  by (simp_all add: core_def put_cell_def put32_def set_msr_def)

lemma range_remove_whole:
  assumes "ranges_wf rs" "pages_whole rs" "range_remove mm rs b l = Inr rs'" "4096 dvd unat b" "4096 dvd Suc (unat l)"
  shows "ranges_wf rs' \<and> pages_whole rs'"
proof -
  have "rs' = concat (map (trim b l) rs)"
    using assms(3) range_remove_Inr_less[OF assms(3)] by (simp add: range_remove_wf[OF assms(1)])
  moreover have "pages_whole (concat (map (trim b l) rs))"
    using assms(2) by (induction rs) (simp_all add: trim_whole[OF _ assms(4,5)])
  ultimately show ?thesis using range_list.remove_inv[OF assms(1,3)] by simp
qed

lemma page_ends: "4096 dvd unat (ucast (ALIGN x (ucast PAGE_SIZE)) :: u64)"
  "4096 dvd Suc (unat (ucast (ALIGN_UP x (ucast PAGE_SIZE) - 1) :: u64))" for x :: u32
proof -
  show "4096 dvd unat (ucast (ALIGN x (ucast PAGE_SIZE)) :: u64)" by (simp add: claim_base)
  have p: "(ucast PAGE_SIZE :: u32) = 2 ^ 12" by (simp add: PAGE_SIZE_def)
  have a: "ALIGN_UP x (2 ^ 12) - 1 = ((x - 1) AND NOT (mask 12)) + mask 12" by (rule ALIGN_UP_pred) simp
  have "unat ((x - 1) AND NOT (mask 12)) = unat (x - 1) div 4096 * 4096"
    unfolding unat_and_not_mask by (simp add: minus_mod_eq_div_mult)
  moreover have "unat (mask 12 :: u32) = 4095" by (simp add: unat_mask)
  moreover have "unat (x - 1) div 4096 * 4096 + 4095 < 2 ^ 32"
    using unat_less_exp[of "x - 1"] div_le_mono[of "unat (x - 1)" "2 ^ 32 - 1" 4096] by simp
  ultimately have "unat (((x - 1) AND NOT (mask 12)) + mask 12) = unat (x - 1) div 4096 * 4096 + 4095"
    by (subst unat_add_no_wrap) simp_all
  then show "4096 dvd Suc (unat (ucast (ALIGN_UP x (ucast PAGE_SIZE) - 1) :: u64))"
    unfolding p a unat_ucast_64 by simp
qed

lemma rom_claim_steps:
  assumes "rom_claim mm addr sz align h = Inr (out, h')" "hv_guest h = Some g"
  shows "\<exists>h1 r rs. (hv_guest h1 = Some g \<or> hv_guest h1 = Some (g\<lparr>g_rom := r\<rparr>)) \<and> hv_rom h1 = hv_rom h \<and>
    range_remove mm (guest_mem_avail_ranges (hv_rom h)) (ucast (ALIGN out (ucast PAGE_SIZE)))
      (ucast (ALIGN_UP (out + sz) (ucast PAGE_SIZE) - 1)) = Inr rs \<and>
    h' = h1\<lparr>hv_rom := (hv_rom h1)\<lparr>guest_mem_avail_ranges := rs\<rparr>\<rparr>"
proof (cases "align = 0")
  case True
  then show ?thesis using assms by (intro exI[of _ h]) (auto simp: rom_claim_def outcome_simps)
next
  case False
  let ?p = "ALIGN_UP (claim_arena_ptr (g_rom g)) (ucast align)"
  let ?r = "(g_rom g)\<lparr>claim_arena_ptr := ?p + ucast sz\<rparr>"
  have "out = ucast ?p \<and> (\<exists>rs. range_remove mm (guest_mem_avail_ranges (hv_rom h)) (ucast (ALIGN out (ucast PAGE_SIZE)))
      (ucast (ALIGN_UP (out + sz) (ucast PAGE_SIZE) - 1)) = Inr rs \<and>
    h' = h\<lparr>hv_guest := Some (g\<lparr>g_rom := ?r\<rparr>), hv_rom := (hv_rom h)\<lparr>guest_mem_avail_ranges := rs\<rparr>\<rparr>)"
    using assms False unfolding rom_claim_def Let_def by (auto simp: outcome_simps)
  then obtain rs where "range_remove mm (guest_mem_avail_ranges (hv_rom h)) (ucast (ALIGN out (ucast PAGE_SIZE)))
      (ucast (ALIGN_UP (out + sz) (ucast PAGE_SIZE) - 1)) = Inr rs"
    "h' = h\<lparr>hv_guest := Some (g\<lparr>g_rom := ?r\<rparr>), hv_rom := (hv_rom h)\<lparr>guest_mem_avail_ranges := rs\<rparr>\<rparr>" by blast
  then show ?thesis
    by (intro exI[of _ "h\<lparr>hv_guest := Some (g\<lparr>g_rom := ?r\<rparr>)\<rparr>"] exI[of _ ?r] exI[of _ rs]) simp
qed

lemma rom_claim_inv:
  assumes "hv_inv h" "rom_claim mm addr sz align h = Inr (out, h')"
  shows "hv_inv h'"
proof -
  obtain g where g: "hv_guest h = Some g" "guest_wf g" "ir_on (g_msr g) = dr_on (g_msr g)"
    using assms(1) by (auto simp: hv_inv_def guest_ok_def)
  obtain h1 r rs where h1: "hv_guest h1 = Some g \<or> hv_guest h1 = Some (g\<lparr>g_rom := r\<rparr>)"
    and rs: "range_remove mm (guest_mem_avail_ranges (hv_rom h)) (ucast (ALIGN out (ucast PAGE_SIZE)))
      (ucast (ALIGN_UP (out + sz) (ucast PAGE_SIZE) - 1)) = Inr rs" "h' = h1\<lparr>hv_rom := (hv_rom h1)\<lparr>guest_mem_avail_ranges := rs\<rparr>\<rparr>"
    using rom_claim_steps[OF assms(2) g(1)] by blast
  have "ranges_wf rs \<and> pages_whole rs"
    using range_remove_whole[OF _ _ rs(1) page_ends] assms(1) by (simp add: hv_inv_def)
  moreover have "guest_ok (hv_guest h1)" using h1 g by (auto simp: guest_ok_def guest_wf_def)
  ultimately show ?thesis using rs(2) by (simp add: hv_inv_def)
qed

lemma rom_getprop_core: "rom_getprop dtb node name dl dd mx h = Inr (r, h') \<Longrightarrow> core h' = core h"
  by (auto simp: rom_getprop_def rom_memory_getprop_def rom_ranges_getprop_def rom_deliver_def Let_def outcome_simps
      split: if_splits)

lemma rom_stdin_core: "rom_stdin buf len h = (n, h') \<Longrightarrow> core h' = core h"
  by (auto simp: rom_stdin_def core_def split: prod.splits)

lemma rom_services_core:
  "rom_finddevice dtb cia h = Inr (r, h') \<Longrightarrow> core h' = core h"
  "rom_milliseconds cia h = Inr (r, h') \<Longrightarrow> core h' = core h"
  "rom_peer dtb cia h = Inr (r, h') \<Longrightarrow> core h' = core h" "rom_child dtb cia h = Inr (r, h') \<Longrightarrow> core h' = core h"
  "rom_parent dtb cia h = Inr (r, h') \<Longrightarrow> core h' = core h" "rom_write cia h = Inr (r, h') \<Longrightarrow> core h' = core h"
  "rom_instance_to_package dtb cia h = Inr (r, h') \<Longrightarrow> core h' = core h"
  "rom_instance_to_path dtb cia h = Inr (r, h') \<Longrightarrow> core h' = core h"
  "rom_package_to_path dtb cia h = Inr (r, h') \<Longrightarrow> core h' = core h"
  "rom_map cia h = Inr (r, h') \<Longrightarrow> core h' = core h"
  "rom_getproplen dtb cia h = Inr (r, h') \<Longrightarrow> core h' = core h"
  "rom_getprop_call dtb cia h = Inr (r, h') \<Longrightarrow> core h' = core h"
  by (auto simp: rom_finddevice_def rom_milliseconds_def rom_peer_def rom_child_def rom_parent_def rom_write_def
      rom_stdout_def rom_instance_to_package_def rom_node_result_def rom_instance_to_path_def rom_package_to_path_def
      rom_put_path_def rom_map_def rom_getproplen_def rom_getprop_call_def Let_def outcome_simps
      dest!: rom_getprop_core split: if_splits option.splits)

lemma rom_files_core:
  "rom_read cia h = Inr (r, h') \<Longrightarrow> core h' = core h" "rom_open cia h = Inr (r, h') \<Longrightarrow> core h' = core h"
  "rom_close cia h = Inr (r, h') \<Longrightarrow> core h' = core h" "rom_seek cia h = Inr (r, h') \<Longrightarrow> core h' = core h"
  by (auto simp: rom_read_def rom_open_def rom_close_def rom_seek_def hv_lib_ops Let_def outcome_simps core_def put_cell_def put32_def
      dest!: rom_stdin_core[unfolded core_def] split: if_splits prod.splits)

lemmas rom_services_inv = rom_services_core[THEN hv_inv_core] rom_files_core[THEN hv_inv_core]

lemma rom_claim_calls_inv:
  "hv_inv h \<Longrightarrow> rom_claim_call mm cia h = Inr (r, h') \<Longrightarrow> hv_inv h'"
  "hv_inv h \<Longrightarrow> rom_call_method mm r3 cia h = Inr (r, h') \<Longrightarrow> hv_inv h'"
proof -
  have p: "hv_inv (put_cell cia i v h') = hv_inv h'" for i v and h' :: "hv" by (rule hv_inv_core) simp
  show "hv_inv h \<Longrightarrow> rom_claim_call mm cia h = Inr (r, h') \<Longrightarrow> hv_inv h'"
    by (auto simp: rom_claim_call_def outcome_simps p dest: rom_claim_inv)
  show "hv_inv h \<Longrightarrow> rom_call_method mm r3 cia h = Inr (r, h') \<Longrightarrow> hv_inv h'"
    by (auto simp: rom_call_method_def outcome_simps p dest: rom_claim_inv rom_services_inv split: if_splits)
qed

lemma rom_service_inv:
  assumes "hv_inv h" "rom_service mm dtb cia h = Inr (r, h')"
  shows "hv_inv h'"
  using assms(2) assms(1) unfolding rom_service_def Let_def
  by (auto split: if_splits dest: rom_services_inv rom_claim_calls_inv)

lemma rom_call_inv: "hv_inv h \<Longrightarrow> rom_call mm dtb f h = Inr (err, f', h') \<Longrightarrow> hv_inv h'"
  by (auto simp: rom_call_def outcome_simps dest: rom_service_inv)

section \<open>Exceptions keep the invariant\<close>

lemma guest_update_msr_inv:
  assumes "hv_inv h" "guest_update_msr v h = Inr h'"
  shows "hv_inv h'"
proof -
  obtain g where g: "hv_guest h = Some g" "guest_wf g" using assms(1) by (auto simp: hv_inv_def guest_ok_def)
  have "guest_ok (Some (g\<lparr>g_msr := v\<rparr>))" "hv_guest h' = Some (g\<lparr>g_msr := v\<rparr>)" "hv_rom h' = hv_rom h"
    using assms(2) g by (auto simp: guest_update_msr_def Let_def upd_guest_def outcome_simps guest_is_mmu_off_eq guest_ok_def
        guest_wf_def split: if_splits)
  then show ?thesis using assms(1) by (simp add: hv_inv_def)
qed

lemma guest_insn_inv:
  assumes "hv_inv h" "guest_insn f h = Inr (err, f', h')"
  shows "hv_inv h'"
proof -
  obtain g where g: "hv_guest h = Some g" "guest_wf g" "ir_on (g_msr g) = dr_on (g_msr g)"
    using assms(1) by (auto simp: hv_inv_def guest_ok_def)
  have mt: "hv_inv h1" if "guest_mtspr i f h = Inr (f1, h1)" for i f1 h1
    using that assms(1) g by (auto simp: guest_mtspr_def Let_def outcome_simps upd_guest_def hv_inv_def guest_ok_def
        spr_store_keeps split: option.splits if_splits)
  have mf: "hv_inv (snd (guest_mfspr i g f h))" for i
  proof -
    have "core (snd (guest_mfspr i g f h)) = core h" by (simp add: guest_mfspr_def Let_def)
    then show ?thesis using assms(1) hv_inv_core by blast
  qed
  have "h' = snd (f', h')" by simp
  then show ?thesis
    using assms mt mf[of "get32 (hsrr0 f) h"] g(1) guest_update_msr_inv[OF assms(1)]
    by (auto simp: guest_insn_def Let_def guest_mtmsr_def guest_rfi_def outcome_simps split: if_splits)
qed

text \<open>
  No exception breaks the hypervisor's state. When \<^verbatim>\<open>guest_exc_try\<close> returns, with an error or
  without, after an instruction, a segment fault or a firmware call, the guest's arrays still have
  their lengths, its two relocation bits agree, and the memory it may claim is a sorted list of
  disjoint ranges of whole pages; the registers of the frame stay 32.
\<close>
lemma exc_try_inv:
  assumes "hv_inv h" "length (gpr f) = 32" "guest_exc_try mm dtb f h = Inr (err, f', h')"
  shows "hv_inv h' \<and> length (gpr f') = 32"
proof -
  obtain e d h1 where s: "guest_seg_fault f h = Inr (e, d, h1)" using assms(3) by (auto simp: guest_exc_try_def outcome_simps)
  have "core h1 = core h"
    using s by (auto simp: guest_seg_fault_def Let_def outcome_simps split: if_splits)
  then have i1: "hv_inv h1" using assms(1) hv_inv_core by blast
  have m: "hv_inv (set_msr v h2) = hv_inv h2" for v and h2 :: "hv" by (rule hv_inv_core) simp
  have rc: "hv_inv h2" if "rom_call mm dtb f (set_msr MSR_RI h1) = Inr (e', f2, h2)" for e' f2 h2
    using rom_call_inv[OF _ that] i1 m by blast
  have "hv_inv h'"
    using assms(3) i1 s rc by (auto simp: guest_exc_try_def outcome_simps m dest: guest_insn_inv split: if_splits)
  moreover have "length (gpr f1) = length (gpr f)" if "guest_insn f h1 = Inr (err, f1, h2)" for f1 h2
    using that by (auto simp: guest_insn_def guest_mfsr_def guest_mfmsr_def guest_mtmsr_def guest_mtspr_def guest_rfi_def
        guest_mfspr_def guest_opcode_31_def skip_insn_def set_r_def Let_def outcome_simps
        split: option.splits if_splits)
  moreover have "length (gpr f1) = length (gpr f)" if "rom_call mm dtb f h2 = Inr (err, f1, h3)" for f1 h2 h3
    using that by (auto simp: rom_call_def outcome_simps set_r_def)
  ultimately show ?thesis
    using assms(2,3) s by (auto simp: guest_exc_try_def outcome_simps split: if_splits)
qed

section \<open>Examples\<close>

text \<open>The guest moves register 3 to a software register and back to register 4.\<close>

definition insn_mem :: mem where
  "insn_mem = store32_le 0x50004 (mfspr_insn 4 SPRN_SPRG0) (store32_le 0x50000 (mtspr_insn 3 SPRN_SPRG0) (\<lambda>_. 0))"

definition frame_prog :: eframe_t where
  "frame_prog = (frame_at 0x123456789)\<lparr>vec := EXC_PROG, hsrr0 := 0x50000, hsrr1 := MSR_PR OR MSR_RI\<rparr>"

lemma hv_example_ok: "hv_guest (hv_example\<lparr>hv_mem := m\<rparr>) = Some guest_booted" "guest_wf guest_booted"
  "ir_on (g_msr guest_booted) = dr_on (g_msr guest_booted)" "hv_inv hv_example"
proof -
  show g: "hv_guest (hv_example\<lparr>hv_mem := m\<rparr>) = Some guest_booted" for m by (simp add: hv_example_def)
  show w: "guest_wf guest_booted" by (simp add: guest_wf_def guest_booted_def guest_example_def SR_COUNT_def)
  show i: "ir_on (g_msr guest_booted) = dr_on (g_msr guest_booted)"
    by (simp add: ir_on_def dr_on_def guest_booted_def guest_example_def)
  show "hv_inv hv_example"
    using rom_example_pages w i by (simp add: hv_inv_def guest_ok_def hv_example_def)
qed

theorem guest_spr_roundtrip_witness:
  "\<exists>f1 h1 f2 h2. guest_insn frame_prog (hv_example\<lparr>hv_mem := insn_mem\<rparr>) = Inr (ERR_NONE, f1, h1) \<and>
     guest_insn f1 h1 = Inr (ERR_NONE, f2, h2) \<and> gpr f2 ! 4 = 0x23456789 \<and> hsrr0 f2 = 0x50008"
proof -
  have "get32 0x50000 (hv_example\<lparr>hv_mem := insn_mem\<rparr>) = mtspr_insn 3 SPRN_SPRG0"
    "get32 0x50004 (hv_example\<lparr>hv_mem := insn_mem\<rparr>) = mfspr_insn 4 SPRN_SPRG0"
    by (simp_all add: insn_mem_def get32_def load32_le_def store32_le_def mtspr_insn_def mfspr_insn_def spr_field_def
        PPC_INST_MTSPR_def PPC_INST_MFSPR_def SPRN_SPRG0_def)
  moreover have "length (gpr frame_prog) = 32" "gpr frame_prog ! 3 = 0x123456789" "hsrr0 frame_prog = 0x50000"
    by (simp_all add: frame_prog_def frame_at_def)
  moreover have "unat SPRN_SPRG0 < 1024" "spr_store SPRN_SPRG0 0 \<noteq> None"
    by (auto simp: spr_store_def is_sprg_def ppc)
  ultimately show ?thesis
    using guest_spr_roundtrip[OF hv_example_ok(1-3), of frame_prog 3 4 SPRN_SPRG0 insn_mem] by fastforce
qed

end
