(* ===== verification/Exc_Correct.thy ===== *)
theory Exc_Correct
  imports Exc Guest_Correct
begin

text \<open>
  What the exception handler resumes: a fault in the hypervisor's own region is repaired by mapping the
  page, a segment fault of the guest by loading its segment; a nested exception is never resumed.
\<close>

section \<open>Faults of the hypervisor\<close>

text \<open>The page of an address of the hypervisor's first terabyte, and its real address.\<close>

lemma hv_page:
  assumes "seg_of SEG_1T ea = 0x800000"
  defines "p \<equiv> ea AND PAGE_MASK_16M"
  shows "seg_of SEG_1T p = 0x800000" "p AND NOT (page_size PAGE_16M - 1) = p"
    "(p AND NOT HV_ASPACE) AND NOT (page_size PAGE_16M - 1) = p AND NOT HV_ASPACE"
    "(p AND NOT HV_ASPACE) AND PTE_R_RPN_16M = p AND NOT HV_ASPACE"
    "(p AND NOT HV_ASPACE) OR take_bit (page_shift PAGE_16M) ea = ea AND NOT HV_ASPACE"
proof -
  have m: "PAGE_MASK_16M = NOT (mask 24)" "page_size PAGE_16M - 1 = mask 24" "page_shift PAGE_16M = 24"
    by (simp_all add: PAGE_MASK_16M_def page_size_def PAGE_SIZE_16M_def page_shift_def PAGE_SHIFT_16M_def mask_eq_exp_minus_1)
  show seg: "seg_of SEG_1T p = 0x800000"
  proof -
    have "seg_of SEG_1T p = seg_of SEG_1T ea"
      unfolding p_def m seg_of_def sid_shift_def
      by (rule bit_word_eqI) (auto simp: bit_simps SID_SHIFT_1T_def dest: bit_imp_le_length)
    then show ?thesis using assms(1) by simp
  qed
  show "p AND NOT (page_size PAGE_16M - 1) = p" "(p AND NOT HV_ASPACE) AND NOT (page_size PAGE_16M - 1) = p AND NOT HV_ASPACE"
    unfolding p_def m by (rule bit_word_eqI, auto simp: bit_simps)+
  have t: "p AND NOT HV_ASPACE = take_bit 40 p" "ea AND NOT HV_ASPACE = take_bit 40 ea"
    using hv_region(4)[OF seg] hv_region(4)[OF assms(1)] by simp_all
  have r: "PTE_R_RPN_16M = push_bit 24 (mask 36)" by (simp add: PTE_R_RPN_16M_def mask_eq_exp_minus_1)
  show "(p AND NOT HV_ASPACE) AND PTE_R_RPN_16M = p AND NOT HV_ASPACE"
    unfolding t r by (rule bit_word_eqI) (auto simp: p_def m bit_simps)
  show "(p AND NOT HV_ASPACE) OR take_bit (page_shift PAGE_16M) ea = ea AND NOT HV_ASPACE"
    unfolding t by (rule bit_word_eqI) (auto simp: p_def m bit_simps)
qed

text \<open>Mapping the page of such an address returns when its group has a free entry.\<close>

lemma hv_map_returns:
  assumes "slb_inv off g s" "seg_of SEG_1T ea = 0x800000" "SR_COUNT + 3 \<le> n"
    "pteg_free s (pteg_index s (hw_vpn hv_entry (ea AND PAGE_MASK_16M)) SEG_1T PAGE_16M) \<noteq> None"
  shows "\<exists>s'. mmu_map guest (ea AND PAGE_MASK_16M) ((ea AND PAGE_MASK_16M) AND NOT HV_ASPACE) PP_RWXX PAGE_16M s = Inr s'"
    and "ea_2_base_size guest (ea AND PAGE_MASK_16M) = Inr PAGE_16M"
proof -
  let ?p = "ea AND PAGE_MASK_16M"
  note p = hv_page[OF assms(2)]
  have e: "hw_entry n s ?p = Some hv_entry" using hw_entry_cases(1)[OF assms(1,3) p(1)] .
  have sv: "slb_serves n s guest ?p" by (rule serves_hv[OF assms(1,3) p(1)])
  have b: "hw_seg hv_entry = SEG_1T" "hw_base hv_entry = PAGE_16M"
    using entry_for_sel[OF vsids_ok(1), of HV_ASPACE PAGE_16M, folded hv_entry_def] by simp_all
  have v: "ea_2_vpn guest ?p = Inr (hw_vpn hv_entry ?p)" "ea_2_seg_size guest ?p = Inr SEG_1T" "ea_2_base_size guest ?p = Inr PAGE_16M"
    using sv e b by (auto simp: slb_serves_def)
  show "ea_2_base_size guest ?p = Inr PAGE_16M" by (rule v(3))
  obtain rpn where "rpn_encode (?p AND NOT HV_ASPACE) PAGE_16M PAGE_16M = Inr rpn"
    using p(4) by (simp add: rpn_encode_def Let_def)
  then show "\<exists>s'. mmu_map guest ?p (?p AND NOT HV_ASPACE) PP_RWXX PAGE_16M s = Inr s'"
    using p(2,3) assms(4) by (auto simp: mmu_map_Inr[OF v] map_count_simps Let_def)
qed

text \<open>
  C10: A storage fault of the hypervisor. A data or instruction fault for want of a translation, on an
  address of the hypervisor's first terabyte, in 64-bit recoverable code, is resumed with the same
  frame, given a free entry in the page's group; then the processor translates the faulting address
  to the real address without the region's top bit, and the layout of SLB and page table is kept.
\<close>
theorem exc_handler_hv_fault:
  assumes "slb_inv off g (hv_mmu h)" "pt_inv (hv_mmu h)" "sdr1_agrees (hv_mmu h)" "SR_COUNT + 3 \<le> n"
    "hsrr1 f AND MSR_RI \<noteq> 0" "hsrr1 f AND MSR_SF \<noteq> 0" "seg_of SEG_1T ea = 0x800000"
    "vec f = EXC_DSI \<and> ea = hv_dar h \<and> hv_dsisr h AND DSISR_NOT_MAPPED \<noteq> 0 \<or>
     vec f = EXC_ISI \<and> ea = hsrr0 f \<and> hsrr1 f AND SRR1_ISI_NOT_MAPPED \<noteq> 0"
    "unmapped (hv_mmu h) SEG_1T PAGE_16M PAGE_16M (hw_vpn hv_entry (ea AND PAGE_MASK_16M))"
    "pteg_free (hv_mmu h) (pteg_index (hv_mmu h) (hw_vpn hv_entry (ea AND PAGE_MASK_16M)) SEG_1T PAGE_16M) \<noteq> None"
  shows "\<exists>s'. exc_handler mm dtb run f h = Inr (f, h\<lparr>hv_mmu := s'\<rparr>) \<and>
    hw_translate n s' ea = Some (ea AND NOT HV_ASPACE) \<and> pt_inv s' \<and> slb_inv off g s'"
proof -
  let ?p = "ea AND PAGE_MASK_16M" let ?s = "hv_mmu h"
  note p = hv_page[OF assms(7)]
  obtain s' where m: "mmu_map (hv_guest h) ?p (?p AND NOT HV_ASPACE) PP_RWXX PAGE_16M ?s = Inr s'"
    and b: "ea_2_base_size (hv_guest h) ?p = Inr PAGE_16M"
    using hv_map_returns[OF assms(1,7,4,10)] by blast
  have ge: "HV_ASPACE \<le> ea" "HV_ASPACE \<le> ?p" using hv_region(3) assms(7) p(1) by auto
  have "exc_map_hv ea f h = Inr (f, h\<lparr>hv_mmu := s'\<rparr>)" using ge(2) m by (simp add: exc_map_hv_def ptr_2_ra_def not_less[symmetric])
  moreover have "guest_exc_try mm dtb f h = Inr (ERR_UNSUPPORTED, f, h)"
    using assms(6,8) by (auto simp: guest_exc_try_def guest_seg_fault_def Let_def ppc)
  ultimately have "exc_handler mm dtb run f h = Inr (f, h\<lparr>hv_mmu := s'\<rparr>)"
    using assms(5,8) ge(1) by (auto simp: exc_handler_def ppc)
  moreover have e: "hw_entry n ?s ?p = Some hv_entry" using hw_entry_cases(1)[OF assms(1,4) p(1)] .
  have hv: "hw_seg hv_entry = SEG_1T"
    using entry_for_sel[OF vsids_ok(1), of HV_ASPACE PAGE_16M, folded hv_entry_def] by simp
  have "ea AND NOT (page_size PAGE_16M - 1) = ?p"
    by (simp add: PAGE_MASK_16M_def page_size_def PAGE_SIZE_16M_def)
  moreover have "prot_ok PP_RWXX" by (simp add: prot_ok_def PP_RWXX_def)
  ultimately have "pt_inv s' \<and> hw_translate n s' ea = Some ((?p AND NOT HV_ASPACE) OR take_bit (page_shift PAGE_16M) ea)"
    using map_translates[OF assms(2,3) serves_hv[OF assms(1,4) p(1)] e _ b _ _ m] assms(9) hv by auto
  moreover have "slb_inv off g s'" using mmu_map_frame[OF m] assms(1) by (auto simp: slb_inv_def)
  ultimately show ?thesis
    using \<open>exc_handler mm dtb run f h = Inr (f, h\<lparr>hv_mmu := s'\<rparr>)\<close> p(5) by auto
qed

text \<open>The first fault after the set-up of the SLB, with an empty table.\<close>

definition hv_fault :: hv where
  "hv_fault = hv_example\<lparr>hv_mmu := mmu_ready, hv_dar := 0x8000000021234567, hv_dsisr := DSISR_NOT_MAPPED\<rparr>"

definition frame_hv :: "u64 \<Rightarrow> eframe_t" where
  "frame_hv v = (frame_at 0)\<lparr>vec := v, hsrr1 := MSR_SF OR MSR_RI\<rparr>"

theorem exc_handler_hv_fault_witness:
  "\<exists>s'. exc_handler (\<lambda>_ _. True) 0 (\<lambda>_. opal_timer_cb) (frame_hv EXC_DSI) hv_fault =
      Inr (frame_hv EXC_DSI, hv_fault\<lparr>hv_mmu := s'\<rparr>) \<and> hw_translate 32 s' 0x8000000021234567 = Some 0x21234567"
proof -
  have i: "slb_inv False guest_example mmu_ready" unfolding mmu_ready_def by (rule slb_init_inv)
  have s: "hv_mmu hv_fault = mmu_ready" "hv_dar hv_fault = 0x8000000021234567" "hv_dsisr hv_fault = DSISR_NOT_MAPPED"
    by (simp_all add: hv_fault_def)
  have f: "hsrr1 (frame_hv EXC_DSI) AND MSR_RI \<noteq> 0" "hsrr1 (frame_hv EXC_DSI) AND MSR_SF \<noteq> 0" "vec (frame_hv EXC_DSI) = EXC_DSI"
    by (simp_all add: frame_hv_def ppc)
  have seg: "seg_of SEG_1T 0x8000000021234567 = 0x800000" by (simp add: seg_of_def sid_shift_def SID_SHIFT_1T_def)
  have un: "unmapped mmu_ready SEG_1T PAGE_16M PAGE_16M v" for v by (simp add: unmapped_def list_all_iff mmu_ready_table)
  have fr: "pteg_free mmu_ready k \<noteq> None" for k
    by (simp add: pteg_free_def mmu_ready_sel mmu_empty_def pte_valid_def upt_conv_Cons PTES_PER_GROUP_def)
  show ?thesis
    using exc_handler_hv_fault[of False guest_example hv_fault 32 "frame_hv EXC_DSI" "0x8000000021234567"
        "\<lambda>_ _. True" 0 "\<lambda>_. opal_timer_cb"] i mmu_ready_table(1,2) f seg un fr
    unfolding s by (fastforce simp: SR_COUNT_def DSISR_NOT_MAPPED_def HV_ASPACE_def)
qed

section \<open>Segment faults of the guest\<close>

text \<open>
  C11: A segment fault of the guest, on data or on an instruction, with its MMU on and an address no
  SLB entry serves: the handler resumes the guest with the frame it had, the processor then finds the
  entry of the address's segment register, and the SLB keeps its layout.
\<close>
theorem exc_handler_guest_seg:
  assumes "hv_guest h = Some g" "guest_is_mmu_off (Some g) = Inr False" "slb_inv False g (hv_mmu h)" "SR_COUNT + 3 \<le> n"
    "hsrr1 f AND MSR_RI \<noteq> 0" "vec f = EXC_DSEG \<and> ea = hv_dar h \<or> vec f = EXC_ISEG \<and> ea = hsrr0 f"
    "ea < LAYOUT_VM_END" "hw_entry n (hv_mmu h) ea = None"
  shows "\<exists>s'. exc_handler mm dtb run f h = Inr (f, h\<lparr>hv_mmu := s'\<rparr>) \<and>
    hw_entry n s' ea = Some (sr_entry g (unat (SR_INDEX ea))) \<and> slb_inv False g s'"
proof -
  obtain s' where s': "mmu_guest_fault_seg (Some g) ea (hv_mmu h) = Inr (ERR_NONE, s')" "slb_inv False g s'"
    "hw_entry n s' ea = Some (sr_entry g (unat (SR_INDEX ea)))"
    using fault_seg_holds[OF assms(3,7,2,4)] assms(8) by blast
  have "guest_seg_fault f h = Inr (ERR_NONE, False, h\<lparr>hv_mmu := s'\<rparr>)"
    using assms(1,6,7) s'(1) by (auto simp: guest_seg_fault_def Let_def not_le EXC_DSEG_def EXC_ISEG_def)
  then have "exc_handler mm dtb run f h = Inr (f, h\<lparr>hv_mmu := s'\<rparr>)"
    using assms(5) by (simp add: exc_handler_def guest_exc_try_def)
  then show ?thesis using s'(2,3) by blast
qed

theorem exc_handler_guest_seg_witness:
  "\<exists>s'. exc_handler (\<lambda>_ _. True) 0 (\<lambda>_. opal_timer_cb) (frame_hv EXC_DSEG)
       (hv_fault\<lparr>hv_guest := Some guest_example, hv_dar := 0x80001234\<rparr>) =
      Inr (frame_hv EXC_DSEG, hv_fault\<lparr>hv_guest := Some guest_example, hv_dar := 0x80001234, hv_mmu := s'\<rparr>) \<and>
     hw_entry 32 s' 0x80001234 = Some (sr_entry guest_example 8)"
proof -
  let ?h = "hv_fault\<lparr>hv_guest := Some guest_example, hv_dar := 0x80001234\<rparr>"
  have i: "slb_inv False guest_example (hv_mmu ?h)" by (simp add: hv_fault_def mmu_ready_def slb_init_inv)
  have "\<not> slb_match 0x80001234 (slb mmu_ready j)" for j
  proof
    assume m: "slb_match 0x80001234 (slb mmu_ready j)"
    have "j = 0 \<or> j = 1 \<or> slb mmu_ready j = slb_invalid"
      by (simp add: mmu_ready_def slb_init_slb)
    then show False
      using m slb_slot_unique[OF slb_init_inv[of guest_example mmu_empty, folded mmu_ready_def] m] by (auto simp: seg_of_def sid_shift_def SID_SHIFT_1T_def SID_SHIFT_256MB_def)
  qed
  then have "hw_entry 32 (hv_mmu ?h) 0x80001234 = None" by (simp add: hw_entry_def hv_fault_def)
  moreover have "unat (SR_INDEX 0x80001234) = 8" by (simp add: SR_INDEX_def)
  ultimately show ?thesis
    using exc_handler_guest_seg[of ?h guest_example 32 "frame_hv EXC_DSEG" "0x80001234" "\<lambda>_ _. True" 0 "\<lambda>_. opal_timer_cb"]
      i guest_example_on by (auto simp: SR_COUNT_def LAYOUT_VM_END_def frame_hv_def ppc)
qed

section \<open>All runs\<close>

text \<open>
  The states of the hypervisor between exceptions: the guest runs and may change any memory and leave
  any fault address, the terminal delivers any input, time passes; then an exception with any frame is
  handled. A state in which the handler does not return has no successor.
\<close>

inductive reachable ::
  "malloc_ok \<Rightarrow> u64 \<Rightarrow> (u64 \<Rightarrow> time_cb) \<Rightarrow> hv \<Rightarrow> hv \<Rightarrow> bool"
  for mm dtb run h0
where
  start: "reachable mm dtb run h0 h0"
| guest_runs: "reachable mm dtb run h0 h \<Longrightarrow>
     reachable mm dtb run h0 (h\<lparr>hv_mem := m, hv_dar := a, hv_dsisr := d, hv_con := c, hv_time := t\<rparr>)"
| exception: "reachable mm dtb run h0 h \<Longrightarrow> length (gpr f) = 32 \<Longrightarrow> exc_handler mm dtb run f h = Inr (f', h') \<Longrightarrow>
     reachable mm dtb run h0 h'"

lemma exc_handler_inv:
  assumes "hv_inv h" "length (gpr f) = 32" "exc_handler mm dtb run f h = Inr (f', h')"
  shows "hv_inv h' \<and> length (gpr f') = 32"
proof -
  obtain err f1 h1 where t: "guest_exc_try mm dtb f h = Inr (err, f1, h1)"
    using assms(3) by (auto simp: exc_handler_def outcome_simps split: if_splits)
  have i: "hv_inv h1" "length (gpr f1) = 32" using exc_try_inv[OF assms(1,2) t] by simp_all
  have "f' = f1 \<and> core h' = core h1"
    using assms(3) t by (auto simp: exc_handler_def exc_map_hv_def outcome_simps split: if_splits)
  then show ?thesis using i hv_inv_core by blast
qed

lemma reachable_inv: "reachable mm dtb run h0 h \<Longrightarrow> hv_inv h0 \<Longrightarrow> hv_inv h"
proof (induction rule: reachable.induct)
  case (guest_runs h m a d c t)
  then show ?case by (simp add: hv_inv_def)
next
  case (exception h f f' h')
  then show ?case using exc_handler_inv by blast
qed

text \<open>
  C6: Whatever the guest does, in every state the hypervisor reaches from a good one the guest's
  arrays have their lengths and its relocation bits agree, the available memory is a sorted list of
  disjoint ranges of whole pages, and asking for it never stops the machine.
\<close>
theorem reachable_safe:
  assumes "hv_inv h0" "reachable mm dtb run h0 h"
  shows "hv_inv h \<and>
    (8 * length (guest_mem_avail_ranges (hv_rom h)) < 2 ^ 31 \<longrightarrow>
       (\<exists>h'. rom_getprop dtb (memory_node (hv_rom h)) (lit ''available'') dest_len dest_data max_data h = Inr (0, h')))"
  using reachable_inv[OF assms(2,1)] rom_available_returns[of h dtb dest_len dest_data max_data] by (auto simp: hv_inv_def)

theorem reachable_safe_witness:
  "hv_inv hv_example \<and> reachable (\<lambda>_ _. True) 0 (\<lambda>_. opal_timer_cb) hv_example hv_example \<and>
   (\<exists>h'. rom_getprop 0 0x40 (lit ''available'') 0x1000 0 0 hv_example = Inr (0, h'))"
proof -
  have "memory_node (hv_rom hv_example) = 0x40" "length (guest_mem_avail_ranges (hv_rom hv_example)) = 1"
    by (simp_all add: hv_example_def rom_example_def)
  then show ?thesis
    using reachable_safe[OF hv_example_ok(4) reachable.start, of 0 "0x1000" 0 0] hv_example_ok(4) reachable.start by auto
qed

end
