(* ===== verification/Fat_Access_Correct.thy ===== *)
theory Fat_Access_Correct
  imports Fat_Access Fat_Chain Fat_String_Correct
begin

text \<open>
  Reading, as the hypervisor uses the library: no change of the table is pending, which is always so without write access.
  The sectors of a file or directory are those of its cluster chain, and the search in a directory finds the first
  entry of the name.
\<close>

section \<open>The invariant of reading\<close>

definition ro_inv :: "'d fatfs \<Rightarrow> bool" where
  "ro_inv fs \<longleftrightarrow> fat_ok fs \<and> write_reliable (disk_io fs) \<and> (\<forall>b \<in> set (fat_buffers fs). \<not> fb_dirty b)"

definition ro_rel :: "'d fatfs \<Rightarrow> 'd fatfs \<Rightarrow> bool" where
  "ro_rel fs fs' \<longleftrightarrow> fs' = fs\<lparr>fat_buffers := fat_buffers fs'\<rparr> \<and> fat_sector fs' = fat_sector fs"

lemma ro_invI: "fat_ok fs \<Longrightarrow> write_media (disk_io fs) = None \<Longrightarrow> ro_inv fs"
  by (auto simp: ro_inv_def write_reliable_def fat_ok_def buf_ok_def split: if_splits)

lemma ro_inv_fat_inv: "ro_inv fs \<Longrightarrow> fat_inv fs"
  by (simp add: ro_inv_def fat_inv_def)

lemma ro_rel_same_fs: "ro_rel fs fs' \<Longrightarrow> same_fs fs fs'"
  unfolding ro_rel_def same_fs_def by (cases fs, cases fs') simp

lemma ro_rel_media: "ro_rel fs fs' \<Longrightarrow> media fs' = media fs"
  unfolding ro_rel_def by (cases fs, cases fs') simp

lemma fat_read_sector_media:
  assumes "ro_inv fs" "fatfs_fat_read_sector s fs = (r, fs')"
  shows "media fs' = media fs \<and> (\<forall>b \<in> set (fat_buffers fs'). \<not> fb_dirty b)"
proof -
  have clean: "\<not> fb_dirty b" if "b \<in> set (fat_buffers fs)" for b using assms(1) that by (simp add: ro_inv_def)
  have ne: "fat_buffers fs \<noteq> []" using assms(1) by (simp add: ro_inv_def fat_ok_def)
  have last: "\<not> fb_dirty (last (fat_buffers fs))" using clean[of "last (fat_buffers fs)"] ne by simp
  have but: "\<not> fb_dirty b" if "b \<in> set (butlast (fat_buffers fs))" for b using clean in_set_butlastD[OF that] by blast
  show ?thesis
  proof (cases "fat_buffer_find s (fat_buffers fs)")
    case (Some i)
    have "\<not> fb_dirty b" if "b \<in> set ((fat_buffers fs)[i := (fat_buffers fs ! i)\<lparr>fb_ptr := p\<rparr>])" "i < length (fat_buffers fs)" for b p
      using set_update_subset_insert[of "fat_buffers fs" i] that clean nth_mem[OF that(2)] by fastforce
    then show ?thesis
      using assms(2) Some Some[unfolded fat_buffer_find_Some] by (auto simp: fatfs_fat_read_sector_def upd_buf_def)
  next
    case None
    then show ?thesis
      using assms(2) last but by (auto simp: fatfs_fat_read_sector_def upd_buf_def Let_def split: prod.splits if_splits)
  qed
qed

lemma ro_next:
  assumes "ro_inv fs" "fatfs_find_next_cluster c fs = (n, fs')"
  shows "n = fat_next fs c \<and> ro_inv fs' \<and> ro_rel fs fs'"
proof -
  note nx = fat_inv_next[OF ro_inv_fat_inv[OF assms(1)] assms(2)]
  have m: "media fs' = media fs \<and> (\<forall>b \<in> set (fat_buffers fs'). \<not> fb_dirty b)"
    using assms(2) fat_read_sector_media[OF assms(1)]
    by (auto simp: fatfs_find_next_cluster_def Let_def split: option.splits prod.splits if_splits)
  moreover have "same_fs fs fs'" using nx by (simp add: same_view_def)
  ultimately have "fs' = fs\<lparr>fat_buffers := fat_buffers fs'\<rparr>" unfolding same_fs_def by (cases fs, cases fs') simp
  then show ?thesis
    using nx assms(1) m by (auto simp: ro_inv_def ro_rel_def fat_inv_def same_view_def)
qed

interpretation ro: cluster_table fatfs_find_next_cluster fat_next ro_inv ro_rel
proof
  show "ro_rel s s' \<Longrightarrow> fat_next s' = fat_next s" for s s' :: "'a fatfs"
    using ro_rel_same_fs same_fs_entry(2) by (auto simp: ro_rel_def)
  show "ro_rel s t \<Longrightarrow> ro_rel t u \<Longrightarrow> ro_rel s u" for s t u :: "'a fatfs"
    unfolding ro_rel_def by (cases s, cases t, cases u) auto
  show "ro_rel s s" for s :: "'a fatfs" by (simp add: ro_rel_def)
qed (rule ro_next)

lemma fat_follow_spec:
  "ro_inv fs \<Longrightarrow> fat_follow n c fs = (d, fs') \<Longrightarrow> d = (fat_next fs ^^ n) c \<and> ro_inv fs' \<and> ro_rel fs fs'"
  by (rule ro.walk[where it = fat_follow]) auto

lemma ro_rel_disk_read: "ro_rel fs fs' \<Longrightarrow> disk_read fs' = disk_read fs"
  unfolding ro_rel_def by (metis disk_read_bufs)

section \<open>Sectors of a chain\<close>

text \<open>Reference: the address of the sector at an offset into a chain.\<close>

definition sector_addr :: "'d fatfs \<Rightarrow> u32 \<Rightarrow> u32 \<Rightarrow> u32 option" where
  "sector_addr fs start k =
     (if fat_type fs = FAT_TYPE_16 \<and> start = 0 then
        if k < rootdir_sectors fs then Some (lba_begin fs + rootdir_first_sector fs + k) else None
      else let c = (fat_next fs ^^ unat (k div ucast (sectors_per_cluster fs))) start
        in if c = FAT32_LAST_CLUSTER then None
           else Some (fatfs_lba_of_cluster fs c + k mod ucast (sectors_per_cluster fs)))"

lemma fatfs_lba_same: "same_fs fs fs' \<Longrightarrow> fatfs_lba_of_cluster fs' = fatfs_lba_of_cluster fs"
  by (intro ext) (simp add: fatfs_lba_of_cluster_def same_fsD)

lemma sector_lba_spec:
  assumes "ro_inv fs" "sector_lba start k fs = (r, fs')"
  shows "r = sector_addr fs start k \<and> ro_inv fs' \<and> ro_rel fs fs'"
proof (cases "fat_type fs = FAT_TYPE_16 \<and> start = 0")
  case True
  then show ?thesis using assms ro.rel_refl[of fs] by (auto simp: sector_lba_def sector_addr_def split: if_splits)
next
  case False
  obtain c fs1 where f: "fat_follow (unat (k div ucast (sectors_per_cluster fs))) start fs = (c, fs1)" by fastforce
  note sp = fat_follow_spec[OF assms(1) f]
  have "fs' = fs1" using assms(2) f False by (auto simp: sector_lba_def Let_def split: if_splits)
  moreover have "fatfs_lba_of_cluster fs1 = fatfs_lba_of_cluster fs" using sp by (simp add: fatfs_lba_same ro_rel_same_fs)
  moreover have "\<not> (fat_type fs = FAT_TYPE_16 \<and> start = 0)" by (rule False)
  ultimately show ?thesis
    using assms(2) f sp unfolding sector_lba_def sector_addr_def Let_def
    by (auto simp: minus_div_mult_eq_mod split: if_splits)
qed

text \<open>What the working buffer holds.\<close>

definition cur_ok :: "'d fatfs \<Rightarrow> bool" where
  "cur_ok fs \<longleftrightarrow> length (fb_sector (currentsector fs)) = 512 \<and>
     (fb_address (currentsector fs) \<noteq> FAT32_INVALID_CLUSTER \<longrightarrow>
      disk_read fs (fb_address (currentsector fs)) 1 = (True, fb_sector (currentsector fs)))"

definition dir_inv :: "'d fatfs \<Rightarrow> bool" where
  "dir_inv fs \<longleftrightarrow> ro_inv fs \<and> cur_ok fs \<and> (\<forall>lba n. fst (disk_read fs lba n))"

text \<open>Only buffers change, and the view of the medium does not.\<close>

definition dir_rel :: "'d fatfs \<Rightarrow> 'd fatfs \<Rightarrow> bool" where
  "dir_rel fs fs' \<longleftrightarrow> fs' = fs\<lparr>fat_buffers := fat_buffers fs', currentsector := currentsector fs'\<rparr> \<and> fat_sector fs' = fat_sector fs"

lemma dir_rel_trans: "dir_rel a b \<Longrightarrow> dir_rel b c \<Longrightarrow> dir_rel a c"
  unfolding dir_rel_def by (cases a, cases b, cases c) auto

lemma dir_rel_refl [simp]: "dir_rel a a"
  by (simp add: dir_rel_def)

lemma ro_dir_rel: "ro_rel a b \<Longrightarrow> dir_rel a b"
  unfolding dir_rel_def ro_rel_def by (cases a, cases b) auto

lemma disk_read_fs_cur [simp]: "disk_read (fs_cur f fs) = disk_read fs"
  by (intro ext) (simp add: disk_read_def fs_cur_def split: option.split)

lemma fs_cur_fields [simp]:
  "fat_buffers (fs_cur f fs) = fat_buffers fs" "disk_io (fs_cur f fs) = disk_io fs" "fat_begin_lba (fs_cur f fs) = fat_begin_lba fs"
  "fat_sectors (fs_cur f fs) = fat_sectors fs" "currentsector (fs_cur f fs) = f (currentsector fs)"
  by (simp_all add: fs_cur_def)

lemma fs_cur_comp [simp]: "fs_cur f (fs_cur g fs) = fs_cur (\<lambda>b. f (g b)) fs"
  by (simp add: fs_cur_def)

lemma fat_sector_fs_cur [simp]: "fat_sector (fs_cur f fs) = fat_sector fs"
  by (intro ext) (simp add: fat_sector_def cong: option.case_cong)

lemma fs_cur_rel: "dir_rel fs (fs_cur f fs)"
  unfolding dir_rel_def fat_sector_fs_cur by (simp add: fs_cur_def)

lemma ro_inv_fs_cur [simp]: "ro_inv (fs_cur f fs) = ro_inv fs"
  by (simp add: ro_inv_def fat_ok_def buf_ok_def)

lemma dir_relD:
  assumes "dir_rel fs fs'"
  shows "disk_read fs' = disk_read fs" "sector_addr fs' = sector_addr fs" "fat_next fs' = fat_next fs"
    "sectors_per_cluster fs' = sectors_per_cluster fs" "rootdir_first_cluster fs' = rootdir_first_cluster fs"
    "fat_type fs' = fat_type fs" "fatfs_lba_of_cluster fs' = fatfs_lba_of_cluster fs" "disk_io fs' = disk_io fs"
proof -
  obtain bs b where e: "fs' = fs\<lparr>fat_buffers := bs, currentsector := b\<rparr>" and v: "fat_sector fs' = fat_sector fs"
    using assms unfolding dir_rel_def by metis
  show rd: "disk_read fs' = disk_read fs" unfolding e by (intro ext) (simp add: disk_read_def split: option.split)
  show nx: "fat_next fs' = fat_next fs" by (rule fat_entry_cong(2)[OF v]) (simp_all add: e)
  show lba: "fatfs_lba_of_cluster fs' = fatfs_lba_of_cluster fs" unfolding e by (intro ext) (simp add: fatfs_lba_of_cluster_def)
  have f: "fat_type fs' = fat_type fs" "sectors_per_cluster fs' = sectors_per_cluster fs" "rootdir_sectors fs' = rootdir_sectors fs"
    "lba_begin fs' = lba_begin fs" "rootdir_first_sector fs' = rootdir_first_sector fs" by (simp_all add: e)
  show "sector_addr fs' = sector_addr fs"
  proof (intro ext)
    show "sector_addr fs' c k = sector_addr fs c k" for c k
      unfolding sector_addr_def nx lba f by simp
  qed
  show "sectors_per_cluster fs' = sectors_per_cluster fs" "rootdir_first_cluster fs' = rootdir_first_cluster fs"
    "fat_type fs' = fat_type fs" "disk_io fs' = disk_io fs" by (simp_all add: e)
qed

lemma sector_reader_spec:
  assumes "dir_inv fs" "sector_addr fs start k \<noteq> Some FAT32_INVALID_CLUSTER" "fatfs_sector_reader start k False fs = (ok, bs, fs')"
  shows "dir_inv fs'" "dir_rel fs fs'" "ok \<longleftrightarrow> sector_addr fs start k \<noteq> None"
    "ok \<Longrightarrow> fb_sector (currentsector fs') = snd (disk_read fs (the (sector_addr fs start k)) 1)"
proof -
  obtain r fs1 where l: "sector_lba start k fs = (r, fs1)" by fastforce
  have ro: "ro_inv fs" and total: "\<And>lba n. fst (disk_read fs lba n)" using assms(1) by (simp_all add: dir_inv_def)
  note sp = sector_lba_spec[OF ro l]
  have rel1: "dir_rel fs fs1" using sp ro_dir_rel by blast
  have total1: "fst (disk_read fs1 lba n)" for lba n using total by (simp add: dir_relD(1)[OF rel1])
  have "currentsector fs1 = currentsector fs" using sp same_fsD(11)[OF ro_rel_same_fs] by blast
  then have cur1: "cur_ok fs1" using assms(1) unfolding dir_inv_def cur_ok_def dir_relD(1)[OF rel1] by simp
  have m: "media_ok (disk_io fs1)" using sp by (simp add: ro_inv_def fat_ok_def)
  have "dir_inv fs' \<and> dir_rel fs fs' \<and> (ok \<longleftrightarrow> sector_addr fs start k \<noteq> None) \<and>
      (ok \<longrightarrow> fb_sector (currentsector fs') = snd (disk_read fs (the (sector_addr fs start k)) 1))"
  proof (cases r)
    case None
    then show ?thesis
      using assms(3) l sp rel1 cur1 total1 by (auto simp: fatfs_sector_reader_def dir_inv_def)
  next
    case (Some lba)
    have ad: "sector_addr fs start k = Some lba" using sp Some by simp
    have ne: "lba \<noteq> FAT32_INVALID_CLUSTER" using assms(2) ad by auto
    have rd: "disk_read fs1 lba 1 = (True, snd (disk_read fs lba 1))"
      using total[of lba 1] by (metis dir_relD(1)[OF rel1] prod.collapse)
    then have len: "length (snd (disk_read fs lba 1)) = 512" using media_readD[OF m rd] by simp
    show ?thesis
    proof (cases "lba = fb_address (currentsector fs1)")
      case True
      then have "ok \<and> fs' = fs1" using assms(3) l Some by (simp add: fatfs_sector_reader_def)
      moreover have "fb_sector (currentsector fs1) = snd (disk_read fs lba 1)"
        using cur1 True ne rd by (simp add: cur_ok_def)
      ultimately show ?thesis using sp ad rel1 cur1 total1 by (simp add: dir_inv_def)
    next
      case False
      let ?f = "\<lambda>b. b\<lparr>fb_address := lba, fb_sector := snd (disk_read fs lba 1)\<rparr>"
      have l1: "length (fb_sector (currentsector fs1)) = 512" using cur1 by (simp add: cur_ok_def)
      have "ok \<and> fs' = fs_cur (\<lambda>b. b\<lparr>fb_address := lba, fb_sector := overlay (snd (disk_read fs lba 1)) (fb_sector b)\<rparr>) fs1"
        using assms(3) l Some False rd by (simp add: fatfs_sector_reader_def read_current_def Let_def)
      then have "ok \<and> fs' = fs_cur ?f fs1" using len l1 by (simp add: fs_cur_def overlay_def)
      moreover have "cur_ok (fs_cur ?f fs1)" using len rd by (simp add: cur_ok_def)
      ultimately show ?thesis
        using sp ad total1 dir_rel_trans[OF rel1 fs_cur_rel] by (simp add: dir_inv_def)
    qed
  qed
  then show "dir_inv fs'" "dir_rel fs fs'" "ok \<longleftrightarrow> sector_addr fs start k \<noteq> None"
    "ok \<Longrightarrow> fb_sector (currentsector fs') = snd (disk_read fs (the (sector_addr fs start k)) 1)" by simp_all
qed

text \<open>
  C38: A failed read is remembered as done. The address of the working buffer is set before the sector is
  read into it, so when the read fails, the same call once more reports success, with whatever the
  buffer holds.
\<close>
theorem sector_reader_stale:
  assumes "ro_inv fs" "sector_addr fs start k = Some lba" "lba \<noteq> fb_address (currentsector fs)"
    "disk_read fs lba 1 = (False, [])"
  shows "\<exists>fs' fs''. fatfs_sector_reader start k False fs = (False, [], fs') \<and>
    fatfs_sector_reader start k False fs' = (True, [], fs'') \<and>
    fb_sector (currentsector fs'') = fb_sector (currentsector fs)"
proof -
  obtain r fs1 where l: "sector_lba start k fs = (r, fs1)" by fastforce
  note sp = sector_lba_spec[OF assms(1) l]
  have c1: "currentsector fs1 = currentsector fs" using sp same_fsD(11)[OF ro_rel_same_fs] by blast
  have rel1: "dir_rel fs fs1" using sp ro_dir_rel by blast
  let ?fs' = "fs_cur (\<lambda>b. b\<lparr>fb_address := lba\<rparr>) fs1"
  have r1: "fatfs_sector_reader start k False fs = (False, [], ?fs')"
    using l sp assms(2-4) by (simp add: fatfs_sector_reader_def read_current_def overlay_def c1 dir_relD(1)[OF rel1])
  obtain r2 fs2 where l2: "sector_lba start k ?fs' = (r2, fs2)" by fastforce
  have "ro_inv ?fs'" using sp by simp
  note sp2 = sector_lba_spec[OF this l2]
  have "sector_addr ?fs' start k = Some lba"
    using assms(2) dir_relD(2)[OF dir_rel_trans[OF rel1 fs_cur_rel]] by simp
  moreover have c2: "currentsector fs2 = currentsector ?fs'" using sp2 same_fsD(11)[OF ro_rel_same_fs] by blast
  ultimately have "fatfs_sector_reader start k False ?fs' = (True, [], fs2)"
    using l2 sp2 by (simp add: fatfs_sector_reader_def)
  with r1 show ?thesis using c1 c2 by auto
qed

section \<open>Directories\<close>

definition dir_entries :: "u8 list \<Rightarrow> fat_dir_entry list" where
  "dir_entries sec = map (\<lambda>i. dir_entry_at sec (FAT_DIR_ENTRY_SIZE * i)) [0..<FAT_DIR_ENTRIES_PER_SECTOR]"

definition entry_named :: "u8 list \<Rightarrow> fat_dir_entry \<Rightarrow> bool" where
  "entry_named name e \<longleftrightarrow> fatfs_entry_sfn_only e \<and> fatfs_compare_names (short_filename e) name"

text \<open>A chain of \<open>n\<close> sectors, and their contents from the \<open>k\<close>-th on.\<close>

definition has_sectors :: "'d fatfs \<Rightarrow> u32 \<Rightarrow> nat \<Rightarrow> bool" where
  "has_sectors fs start n \<longleftrightarrow> n < 2 ^ 32 \<and> sector_addr fs start (of_nat n) = None \<and>
     (\<forall>k < n. sector_addr fs start (of_nat k) \<noteq> None \<and> sector_addr fs start (of_nat k) \<noteq> Some FAT32_INVALID_CLUSTER)"

definition chain_sector :: "'d fatfs \<Rightarrow> u32 \<Rightarrow> nat \<Rightarrow> u8 list" where
  "chain_sector fs start k = snd (disk_read fs (the (sector_addr fs start (of_nat k))) 1)"

definition dir_contents :: "'d fatfs \<Rightarrow> u32 \<Rightarrow> nat \<Rightarrow> fat_dir_entry list" where
  "dir_contents fs start n = concat (map (\<lambda>k. dir_entries (chain_sector fs start k)) [0..<n])"

lemma find_in_sector_spec:
  "fst (find_in_sector n item sec name lfn) =
     List.find (entry_named name) (map (\<lambda>i. dir_entry_at sec (FAT_DIR_ENTRY_SIZE * i)) [item..<item + n])"
proof (induction n item sec name lfn rule: find_in_sector.induct)
  case (2 n item sec name lfn)
  have "[item..<item + Suc n] = item # [Suc item..<Suc item + n]" by (simp add: upt_conv_Cons)
  with 2 show ?case by (simp add: FATFS_INC_LFN_SUPPORT_def entry_named_def Let_def)
qed simp

lemma find_append: "List.find P (xs @ ys) = (case List.find P xs of None \<Rightarrow> List.find P ys | r \<Rightarrow> r)"
  by (induction xs) auto

lemma has_sectors_rel: "dir_rel fs fs' \<Longrightarrow> has_sectors fs' start n = has_sectors fs start n"
  by (simp add: has_sectors_def dir_relD)

lemma chain_sector_rel: "dir_rel fs fs' \<Longrightarrow> chain_sector fs' = chain_sector fs"
  by (intro ext) (simp add: chain_sector_def dir_relD)

lemma get_file_entry_loop_spec:
  assumes "dir_inv fs" "has_sectors fs start n" "k \<le> n"
  shows "\<exists>fs'. get_file_entry_loop start (of_nat k) name lfn fs =
      Some (List.find (entry_named name) (concat (map (\<lambda>k. dir_entries (chain_sector fs start k)) [k..<n])), fs') \<and>
    dir_inv fs' \<and> dir_rel fs fs'"
  using assms
proof (induction "n - k" arbitrary: k fs lfn)
  case 0
  then have k: "k = n" by simp
  obtain ok bs fs1 where r: "fatfs_sector_reader start (of_nat k) False fs = (ok, bs, fs1)" by (metis prod_cases3)
  have none: "sector_addr fs start (of_nat k) = None" using 0(3) k by (simp add: has_sectors_def)
  note sp = sector_reader_spec[OF 0(2) _ r]
  have "get_file_entry_loop start (of_nat k) name lfn fs = Some (None, fs1)"
    using r sp none by (subst get_file_entry_loop.simps) simp
  then show ?case using sp none k by simp
next
  case (Suc m)
  then have k: "k < n" "m = n - Suc k" by simp_all
  obtain ok bs fs1 where r: "fatfs_sector_reader start (of_nat k) False fs = (ok, bs, fs1)" by (metis prod_cases3)
  have some: "sector_addr fs start (of_nat k) \<noteq> None" "sector_addr fs start (of_nat k) \<noteq> Some FAT32_INVALID_CLUSTER"
    using Suc.prems(2) k(1) by (simp_all add: has_sectors_def)
  note sp = sector_reader_spec[OF Suc.prems(1) some(2) r]
  have sec: "fb_sector (currentsector fs1) = chain_sector fs start k" using sp some by (simp add: chain_sector_def)
  obtain f lfn' where f: "find_in_sector FAT_DIR_ENTRIES_PER_SECTOR 0 (chain_sector fs start k) name lfn = (f, lfn')" by fastforce
  have fe: "f = List.find (entry_named name) (dir_entries (chain_sector fs start k))"
    using find_in_sector_spec[of FAT_DIR_ENTRIES_PER_SECTOR 0 "chain_sector fs start k" name lfn] f by (simp add: dir_entries_def)
  have up: "[k..<n] = k # [Suc k..<n]" using k(1) by (simp add: upt_conv_Cons)
  show ?case
  proof (cases f)
    case None
    have "get_file_entry_loop start (of_nat k) name lfn fs = get_file_entry_loop start (of_nat (Suc k)) name lfn' fs1"
      using r sp some f None sec by (subst get_file_entry_loop.simps) (simp add: add.commute)
    moreover note Suc.hyps(1)[OF k(2) sp(1), of lfn'] Suc.prems(2) k(1)
    ultimately show ?thesis
      using fe None dir_rel_trans[OF sp(2)] by (auto simp: up find_append has_sectors_rel[OF sp(2)] chain_sector_rel[OF sp(2)])
  next
    case (Some e)
    have "get_file_entry_loop start (of_nat k) name lfn fs = Some (Some e, fs1)"
      using r sp some f Some sec by (subst get_file_entry_loop.simps) simp
    then show ?thesis using fe[unfolded Some, symmetric] sp by (simp add: up find_append)
  qed
qed

lemma get_file_entry_spec:
  assumes "dir_inv fs" "has_sectors fs start n"
  shows "\<exists>fs'. fatfs_get_file_entry start name fs = Some (List.find (entry_named name) (dir_contents fs start n), fs') \<and>
    dir_inv fs' \<and> dir_rel fs fs'"
  using get_file_entry_loop_spec[OF assms, of 0 name] by (simp add: fatfs_get_file_entry_def dir_contents_def)


section \<open>On the example\<close>

lemma ex_sector_addr:
  assumes "ex_like fs"
  shows "sector_addr fs 0 0 = Some 2" "sector_addr fs 0 1 = None" "has_sectors fs 0 1" "chain_sector fs 0 0 = ex_dir"
proof -
  show a: "sector_addr fs 0 0 = Some 2" "sector_addr fs 0 1 = None" using assms by (simp_all add: sector_addr_def ex_like_def)
  show "has_sectors fs 0 1" by (simp add: has_sectors_def a FAT32_INVALID_CLUSTER_def)
  show "chain_sector fs 0 0 = ex_dir" using ex_read(2)[OF assms] by (simp add: chain_sector_def a)
qed

definition ex_file :: fat_dir_entry where
  "ex_file = dir_entry_at ex_dir 0"

lemma ex_file_fields: "FileSize ex_file = 0x300" "entry_cluster ex_file = 2" "fatfs_entry_is_file ex_file"
  "entry_named (lit ''veneer.exe'') ex_file"
  by code_simp+

lemma ex_find: "ex_like fs \<Longrightarrow> List.find (entry_named (lit ''veneer.exe'')) (dir_contents fs 0 1) = Some ex_file"
proof -
  assume a: "ex_like fs"
  have "dir_contents fs 0 1 = dir_entries ex_dir" by (simp add: dir_contents_def ex_sector_addr(4)[OF a])
  moreover have "dir_entries ex_dir = ex_file # map (\<lambda>i. dir_entry_at ex_dir (FAT_DIR_ENTRY_SIZE * i)) [1..<FAT_DIR_ENTRIES_PER_SECTOR]"
  proof -
    have "0 < FAT_DIR_ENTRIES_PER_SECTOR" by code_simp
    then show ?thesis by (simp add: dir_entries_def ex_file_def upt_conv_Cons del: upt_Suc)
  qed
  ultimately show ?thesis by (simp add: ex_file_fields)
qed

lemma ex_dir_inv: "dir_inv (ex_fs False)"
proof -
  have "ro_inv (ex_fs False)" by (rule ro_invI) (simp_all add: ex_fat_ok[OF ex_fs_like])
  moreover have "cur_ok (ex_fs False)" by (simp add: cur_ok_def ex_fs_def ex_with_def fat_buffer_reset_def FAT_SECTOR_SIZE_n_def)
  moreover have "fst (disk_read (ex_fs False) s n)" for s n by (simp add: disk_read_def ex_fs_def ex_with_def list_read_def)
  ultimately show ?thesis by (simp add: dir_inv_def)
qed


text \<open>The image with a root directory that cannot be read.\<close>

definition ex_bad :: "(u32 \<Rightarrow> u8 list) fatfs" where
  "ex_bad = (ex_fs False)\<lparr>disk_io := \<lparr>read_media = Some (\<lambda>d s n. if s = 2 then (False, []) else list_read d s n), write_media = None\<rparr>\<rparr>"

theorem sector_reader_stale_witness:
  "\<exists>fs' fs''. fatfs_sector_reader 0 0 False ex_bad = (False, [], fs') \<and> fatfs_sector_reader 0 0 False fs' = (True, [], fs'')"
proof -
  have io: "disk_io ex_bad = \<lparr>read_media = Some (\<lambda>d s n. if s = 2 then (False, []) else list_read d s n), write_media = None\<rparr>"
    by (simp add: ex_bad_def)
  have "media_ok (disk_io ex_bad)" unfolding io by (auto simp: media_ok_def list_read_def split: if_splits)
  then have "ro_inv ex_bad"
    by (intro ro_invI) (simp_all add: fat_ok_def buf_ok_def io, simp add: ex_bad_def ex_fs_def ex_with_def fat_buffer_reset_def FAT_SECTOR_SIZE_n_def)
  moreover have "sector_addr ex_bad 0 0 = Some 2" by (simp add: sector_addr_def ex_bad_def ex_fs_def ex_with_def)
  moreover have "2 \<noteq> fb_address (currentsector ex_bad)" by (simp add: ex_bad_def ex_fs_def ex_with_def fat_buffer_reset_def FAT32_INVALID_CLUSTER_def)
  moreover have "disk_read ex_bad 2 1 = (False, [])" by (simp add: disk_read_def io)
  ultimately show ?thesis using sector_reader_stale[of ex_bad 0 0 2] by blast
qed

end
