(* ===== verification/Fat_Filelib_Correct.thy ===== *)
theory Fat_Filelib_Correct
  imports Fat_Filelib Fat_Access_Correct
begin

text \<open>
  Reading a file delivers its bytes. \<open>file_byte\<close> is the reference: byte \<open>i\<close> of the chain a file starts at.
  The remembered cluster and the sector buffer of an open file are only shortcuts (\<open>file_inv\<close>).
\<close>

section \<open>The bytes of a chain\<close>

definition disk_sector :: "'d fatfs \<Rightarrow> u32 \<Rightarrow> u8 list" where
  "disk_sector fs lba = snd (disk_read fs lba 1)"

text \<open>
  A read of up to 255 sectors, as many as a cluster can have, succeeds and stores these sectors first.
  \<^verbatim>\<open>guest_disk_read\<close> stores more than it is asked for, up to twice as much less one sector, so what follows
  them is left open.
\<close>

definition multi_read :: "'d fatfs \<Rightarrow> bool" where
  "multi_read fs \<longleftrightarrow> (\<forall>lba n. 0 < n \<longrightarrow> n \<le> 255 \<longrightarrow> (\<exists>rest. length rest \<le> 512 * (unat n - 1) \<and> disk_read fs lba n =
     (True, concat (map (\<lambda>i. disk_sector fs (lba + of_nat i)) [0..<unat n]) @ rest)))"

definition chain_cluster :: "'d fatfs \<Rightarrow> u32 \<Rightarrow> nat \<Rightarrow> u32" where
  "chain_cluster fs start k = (fat_next fs ^^ (k div unat (sectors_per_cluster fs))) start"

definition file_sector :: "'d fatfs \<Rightarrow> u32 \<Rightarrow> nat \<Rightarrow> u8 list" where
  "file_sector fs start k = disk_sector fs (fatfs_lba_of_cluster fs (chain_cluster fs start k) +
     of_nat (k mod unat (sectors_per_cluster fs)))"

definition file_byte :: "'d fatfs \<Rightarrow> u32 \<Rightarrow> nat \<Rightarrow> u8" where
  "file_byte fs start i = file_sector fs start (i div 512) ! (i mod 512)"

text \<open>The chain is long enough for the bytes.\<close>

definition chain_covers :: "'d fatfs \<Rightarrow> u32 \<Rightarrow> nat \<Rightarrow> bool" where
  "chain_covers fs start n \<longleftrightarrow> sectors_per_cluster fs \<noteq> 0 \<and>
     (\<forall>k. k * 512 < n \<longrightarrow> chain_cluster fs start k \<noteq> FAT32_LAST_CLUSTER)"

definition file_inv :: "'d fatfs \<Rightarrow> FL_FILE \<Rightarrow> bool" where
  "file_inv fs f \<longleftrightarrow> length (file_data_sector f) = 512 \<and> cluster_cache f = [] \<and>
     (last_ClusterIdx f \<noteq> 0xFFFFFFFF \<longrightarrow>
        last_CurrentCluster f = (fat_next fs ^^ unat (last_ClusterIdx f)) (startcluster f)) \<and>
     (file_data_address f \<noteq> 0xFFFFFFFF \<longrightarrow>
        file_data_sector f = file_sector fs (startcluster f) (unat (file_data_address f)))"

text \<open>Only the shortcuts change.\<close>

definition same_file :: "FL_FILE \<Rightarrow> FL_FILE \<Rightarrow> bool" where
  "same_file f f' \<longleftrightarrow> f' = f\<lparr>last_ClusterIdx := last_ClusterIdx f', last_CurrentCluster := last_CurrentCluster f',
     file_data_sector := file_data_sector f', file_data_address := file_data_address f',
     file_data_dirty := file_data_dirty f', bytenum := bytenum f'\<rparr>"

lemma same_fileD: "same_file f f' \<Longrightarrow> startcluster f' = startcluster f \<and> filelength f' = filelength f \<and> f_flags f' = f_flags f"
  unfolding same_file_def by (cases f, cases f') simp

lemma same_file_refl [simp]: "same_file f f"
  by (simp add: same_file_def)

lemma same_file_trans: "same_file f g \<Longrightarrow> same_file g h \<Longrightarrow> same_file f h"
  unfolding same_file_def by (cases f, cases g, cases h) simp

lemma length_disk_sector:
  assumes "ro_inv fs" "multi_read fs"
  shows "disk_read fs lba 1 = (True, disk_sector fs lba)" "length (disk_sector fs lba) = 512"
proof -
  have "fst (disk_read fs lba 1)" using assms(2)[unfolded multi_read_def, rule_format, of 1 lba] by auto
  then show rd: "disk_read fs lba 1 = (True, disk_sector fs lba)" by (simp add: disk_sector_def prod_eq_iff)
  have "media_ok (disk_io fs)" using assms(1) by (simp add: ro_inv_def fat_ok_def)
  then show "length (disk_sector fs lba) = 512" using media_readD[OF _ rd] by simp
qed

lemma multi_readD:
  assumes "multi_read fs" "0 < n" "n \<le> 255"
  shows "\<exists>rest. disk_read fs lba n = (True, concat (map (\<lambda>i. disk_sector fs (lba + of_nat i)) [0..<unat n]) @ rest) \<and>
    length rest \<le> 130048 \<and> (n = 1 \<longrightarrow> rest = [])"
proof -
  obtain rest where "disk_read fs lba n = (True, concat (map (\<lambda>i. disk_sector fs (lba + of_nat i)) [0..<unat n]) @ rest)"
    "length rest \<le> 512 * (unat n - 1)" using assms unfolding multi_read_def by blast
  moreover from assms(3) have "unat n \<le> 255" by (simp add: word_le_nat_alt)
  then have "512 * (unat n - 1) \<le> 130048" by simp
  ultimately show ?thesis by (intro exI[of _ rest]) auto
qed

lemma length_file_sector: "ro_inv fs \<Longrightarrow> multi_read fs \<Longrightarrow> length (file_sector fs c k) = 512"
  by (simp add: file_sector_def length_disk_sector)

lemma dir_rel_bytes:
  assumes "dir_rel fs fs'"
  shows "disk_read fs' = disk_read fs" "multi_read fs' = multi_read fs" "file_sector fs' = file_sector fs"
    "chain_covers fs' = chain_covers fs" "file_byte fs' = file_byte fs" "file_inv fs' = file_inv fs" "fat_next fs' = fat_next fs"
    "chain_cluster fs' = chain_cluster fs"
proof -
  note d = dir_relD[OF assms]
  show r: "disk_read fs' = disk_read fs" "fat_next fs' = fat_next fs" by (simp_all add: d)
  have s: "disk_sector fs' = disk_sector fs" by (intro ext) (simp add: disk_sector_def r)
  show "multi_read fs' = multi_read fs" by (simp add: multi_read_def r s)
  show c: "chain_cluster fs' = chain_cluster fs" by (intro ext) (simp add: chain_cluster_def d)
  show fsec: "file_sector fs' = file_sector fs" by (intro ext) (simp add: file_sector_def s c d)
  show "file_byte fs' = file_byte fs" by (intro ext) (simp add: file_byte_def fsec)
  show "chain_covers fs' = chain_covers fs" by (intro ext) (simp add: chain_covers_def c d)
  show "file_inv fs' = file_inv fs" by (intro ext) (simp add: file_inv_def fsec d)
qed

lemmas ro_relD = dir_rel_bytes[OF ro_dir_rel]

lemma concat_blocks:
  assumes "\<And>i. length (g i) = 512"
  shows "length (concat (map g [0..<n])) = 512 * n"
    "j < 512 * n \<Longrightarrow> concat (map g [0..<n]) ! j = g (j div 512) ! (j mod 512)"
proof -
  show len: "length (concat (map g [0..<n])) = 512 * n" for n by (induction n) (simp_all add: assms)
  show "j < 512 * n \<Longrightarrow> concat (map g [0..<n]) ! j = g (j div 512) ! (j mod 512)"
  proof (induction n)
    case (Suc n)
    show ?case
    proof (cases "j < 512 * n")
      case False
      then have q: "j div 512 = n" using Suc.prems by (auto intro!: div_nat_eqI)
      have "j - 512 * n = j mod 512" unfolding q[symmetric] by (simp add: minus_mult_div_eq_mod)
      note q this
      then show ?thesis using False by (simp add: nth_append len)
    qed (simp add: Suc.IH nth_append len)
  qed simp
qed

lemma unat_ucast_up: "unat (ucast x :: u32) = unat x" for x :: u8
  using unat_less_exp[of x] by (simp add: unsigned_ucast_eq take_bit_eq_mod)

section \<open>One call to the medium\<close>

lemma follow_cached_spec:
  "cluster_cache f = [] \<Longrightarrow> ro_inv fs \<Longrightarrow> follow_cached n i c f fs = (d, f', fs') \<Longrightarrow>
   d = (fat_next fs ^^ n) c \<and> f' = f \<and> ro_inv fs' \<and> ro_rel fs fs'"
proof (induction n arbitrary: i c fs)
  case 0
  then show ?case using ro.rel_refl by auto
next
  case (Suc n)
  obtain e t where st: "fatfs_find_next_cluster c fs = (e, t)" by fastforce
  note ok = ro_next[OF Suc.prems(2) st]
  have "follow_cached n (i + 1) e f t = (d, f', fs')"
    using Suc.prems(1,3) st by (simp add: fatfs_cache_get_next_cluster_def fatfs_cache_set_next_cluster_def)
  from Suc.IH[OF Suc.prems(1) _ this] ok show ?case
    by (auto simp: ro_relD funpow_swap1 intro: ro.rel_trans)
qed

lemma file_cluster_spec:
  assumes "ro_inv fs" "file_inv fs f" "idx \<noteq> 0xFFFFFFFF" "file_cluster idx f fs = (c, f', fs')"
  shows "c = (fat_next fs ^^ unat idx) (startcluster f) \<and> ro_inv fs' \<and> ro_rel fs fs' \<and> file_inv fs' f' \<and>
    f' = f\<lparr>last_ClusterIdx := last_ClusterIdx f', last_CurrentCluster := last_CurrentCluster f'\<rparr>"
proof (cases "idx = last_ClusterIdx f")
  case True
  then show ?thesis using assms ro.rel_refl by (auto simp: file_cluster_def file_inv_def)
next
  case False
  let ?near = "idx \<noteq> 0 \<and> idx = last_ClusterIdx f + 1"
  define i where "i = (if ?near then last_ClusterIdx f else 0)"
  define c0 where "c0 = (if ?near then last_CurrentCluster f else startcluster f)"
  obtain d g fs1 where fl: "follow_cached (unat (idx - i)) i c0 f fs = (d, g, fs1)" by (metis prod_cases3)
  have "cluster_cache f = []" using assms(2) by (simp add: file_inv_def)
  note sp = follow_cached_spec[OF this assms(1) fl]
  have c0: "c0 = (fat_next fs ^^ unat i) (startcluster f)"
    using assms(2) by (auto simp: c0_def i_def file_inv_def)
  have "unat (idx - i) + unat i = unat idx"
  proof (cases ?near)
    case True
    then have "1 + i \<noteq> 0" and e: "idx = 1 + i" by (auto simp: i_def add.commute)
    then show ?thesis using unatSuc[of i] by simp
  next
    case False then show ?thesis by (simp only: i_def if_False) simp
  qed
  then have d: "d = (fat_next fs ^^ unat idx) (startcluster f)"
    using sp c0 by (metis funpow_add comp_apply)
  have "(c, f', fs') = (d, if d \<noteq> FAT32_LAST_CLUSTER then f\<lparr>last_CurrentCluster := d, last_ClusterIdx := idx\<rparr> else f, fs1)"
    using assms(4) False fl sp by (auto simp: file_cluster_def c0_def i_def Let_def split: if_splits)
  then show ?thesis using d sp assms(2) by (auto simp: ro_relD file_inv_def)
qed

text \<open>
  The number of sectors delivered is cut at the end of the cluster, and they are the file's.
\<close>

lemma read_sectors_spec:
  assumes inv: "ro_inv fs" "file_inv fs f" "multi_read fs"
    and cov: "chain_covers fs (startcluster f) n" "512 * unat off < n" "n < 2 ^ 32"
    and cnt: "0 < count" "unat off + unat count < 2 ^ 32"
    and run: "read_sectors off count f fs = (r, bs, f', fs')"
  shows "0 < r \<and> r \<le> count \<and> ro_inv fs' \<and> ro_rel fs fs' \<and> file_inv fs' f' \<and>
    f' = f\<lparr>last_ClusterIdx := last_ClusterIdx f', last_CurrentCluster := last_CurrentCluster f'\<rparr> \<and>
    (\<exists>rest. bs = concat (map (\<lambda>i. file_sector fs (startcluster f) (unat off + i)) [0..<unat r]) @ rest \<and>
      length rest \<le> 130048 \<and> (r = 1 \<longrightarrow> rest = []))"
proof -
  let ?spc = "ucast (sectors_per_cluster fs) :: u32" let ?s = "unat (sectors_per_cluster fs)"
  have us: "unat ?spc = ?s" by (simp add: unat_ucast_up)
  have s0: "0 < ?s" "?s < 256" using cov(1) unat_less_exp[of "sectors_per_cluster fs"]
    by (auto simp: chain_covers_def word_neq_0_conv[symmetric] unat_gt_0)
  let ?idx = "off div ?spc" let ?sec = "off - ?idx * ?spc"
  have sec: "?sec = off mod ?spc" by (simp add: minus_div_mult_eq_mod)
  have idx: "unat ?idx = unat off div ?s" by (simp add: unat_div unat_ucast_up)
  have usec: "unat ?sec = unat off mod ?s" unfolding sec by (simp add: unat_mod unat_ucast_up)
  have lt: "unat ?sec < ?s" unfolding usec using s0 by simp
  have "unat ?idx \<le> unat off" unfolding idx by simp
  then have "unat ?idx < unat (0xFFFFFFFF :: u32)" using cov(2,3) by simp
  then have "?idx \<noteq> 0xFFFFFFFF" by (metis less_irrefl)
  moreover obtain c g fs1 where fc: "file_cluster ?idx f fs = (c, g, fs1)" by (metis prod_cases3)
  ultimately have fcs: "c = (fat_next fs ^^ unat ?idx) (startcluster f) \<and> ro_inv fs1 \<and> ro_rel fs fs1 \<and> file_inv fs1 g \<and>
      g = f\<lparr>last_ClusterIdx := last_ClusterIdx g, last_CurrentCluster := last_CurrentCluster g\<rparr>"
    using file_cluster_spec[OF inv(1,2) _ fc] by blast
  then have sp: "c = chain_cluster fs (startcluster f) (unat off)" "ro_inv fs1" "ro_rel fs fs1"
    unfolding chain_cluster_def idx by blast+
  have cl: "c \<noteq> FAT32_LAST_CLUSTER" using cov sp(1) by (simp add: chain_covers_def mult.commute)
  define m where "m = (if ?sec + count > ?spc then ?spc - ?sec else count)"
  have "unat ?sec \<le> unat off" unfolding usec by simp
  then have nw: "unat (?sec + count) = unat ?sec + unat count"
    using cnt(2) by (simp add: unat_word_ariths)
  have um: "unat m = (if unat ?sec + unat count > ?s then ?s - unat ?sec else unat count)"
    unfolding m_def using lt nw us by (simp add: word_less_nat_alt unat_sub word_le_nat_alt)
  have m0: "0 < m" "m \<le> 255" "m \<le> count" "unat ?sec + unat m \<le> ?s"
    using um lt s0 cnt(1) by (auto simp: word_less_nat_alt word_le_nat_alt split: if_splits)
  let ?lba = "fatfs_lba_of_cluster fs c + ?sec"
  have lba: "fatfs_lba_of_cluster fs1 c = fatfs_lba_of_cluster fs c"
    using dir_relD(7)[OF ro_dir_rel[OF sp(3)]] by simp
  obtain rest where rd: "disk_read fs ?lba m = (True, concat (map (\<lambda>i. disk_sector fs (?lba + of_nat i)) [0..<unat m]) @ rest)"
    and one: "length rest \<le> 130048 \<and> (m = 1 \<longrightarrow> rest = [])"
    using multi_readD[OF inv(3) m0(1,2)] by blast
  have each: "disk_sector fs (?lba + of_nat i) = file_sector fs (startcluster f) (unat off + i)" if "i < unat m" for i
  proof -
    have "unat off mod ?s + i < ?s" using that m0(4) usec by simp
    moreover have "unat off + i = (unat off mod ?s + i) + (unat off div ?s) * ?s"
      using div_mult_mod_eq[of "unat off" ?s] by linarith
    ultimately have q: "(unat off + i) div ?s = unat off div ?s" "(unat off + i) mod ?s = unat off mod ?s + i"
      using s0(1) by (simp_all only: div_mult_self1 mod_mult_self1 div_less mod_less)
    have "of_nat (unat off mod ?s) = ?sec" unfolding usec[symmetric] by simp
    then have "of_nat ((unat off + i) mod ?s) = ?sec + of_nat i" unfolding q(2) of_nat_add by (simp only:)
    moreover have "chain_cluster fs (startcluster f) (unat off + i) = c" unfolding sp(1) chain_cluster_def q(1) ..
    ultimately show ?thesis unfolding file_sector_def by (simp only: add.assoc)
  qed
  have "map (\<lambda>i. disk_sector fs (?lba + of_nat i)) [0..<unat m] = map (\<lambda>i. file_sector fs (startcluster f) (unat off + i)) [0..<unat m]"
    by (rule map_cong) (simp_all only: set_upt atLeastLessThan_iff each)
  note rd' = rd[unfolded this]
  have "read_sectors off count f fs =
      (m, concat (map (\<lambda>i. file_sector fs (startcluster f) (unat off + i)) [0..<unat m]) @ rest, g, fs1)"
    using fc cl unfolding read_sectors_def m_def[symmetric] Let_def
    by (simp add: fatfs_sector_read_def lba ro_relD(1)[OF sp(3)] rd')
  note this[unfolded run prod.inject]
  then have e: "r = m" "f' = g" "fs' = fs1"
    "bs = concat (map (\<lambda>i. file_sector fs (startcluster f) (unat off + i)) [0..<unat r]) @ rest" by (blast, blast, blast, simp)
  show ?thesis using m0(1,3) fcs e(4) one unfolding e(1-3) by blast
qed

section \<open>The loop of a read\<close>

lemma sle32_nat: "unat a < 2 ^ 31 \<Longrightarrow> unat b < 2 ^ 31 \<Longrightarrow> sle32 a b \<longleftrightarrow> unat a \<le> unat b"
  by (simp add: sle32_def word_le_nat_alt unat_word_ariths)

lemma file_bytes_sector:
  assumes "ro_inv fs" "multi_read fs" "j + n \<le> 512"
  shows "take n (drop j (file_sector fs c k)) = map (file_byte fs c) [512 * k + j..<512 * k + j + n]"
proof (rule nth_equalityI)
  fix i assume "i < length (take n (drop j (file_sector fs c k)))"
  then have "i < n" by simp
  then have "j + i < 512" using assms(3) by simp
  then have "(512 * k + j + i) div 512 = k" "(512 * k + j + i) mod 512 = j + i" by (simp_all add: add.assoc)
  then show "take n (drop j (file_sector fs c k)) ! i = map (file_byte fs c) [512 * k + j..<512 * k + j + n] ! i"
    using \<open>i < n\<close> assms length_file_sector[OF assms(1,2), of c k] by (simp add: file_byte_def)
qed (use assms length_file_sector[OF assms(1,2), of c k] in simp)

lemma file_bytes_sectors:
  assumes "ro_inv fs" "multi_read fs"
  shows "concat (map (\<lambda>i. file_sector fs c (k + i)) [0..<n]) = map (file_byte fs c) [512 * k..<512 * k + 512 * n]"
proof (induction n)
  case (Suc n)
  have "file_sector fs c (k + n) = map (file_byte fs c) [512 * (k + n)..<512 * (k + n) + 512]"
    using file_bytes_sector[OF assms, of 0 512 c "k + n"] length_file_sector[OF assms, of c "k + n"] by simp
  moreover have "[512 * k..<512 * k + 512 * Suc n] = [512 * k..<512 * k + 512 * n] @ [512 * (k + n)..<512 * (k + n) + 512]"
    using upt_add_eq_append[of "512 * k" "512 * k + 512 * n" 512] by (simp add: algebra_simps del: upt_Suc)
  ultimately show ?case using Suc by simp
qed simp

text \<open>What a round of the loop achieves at byte \<open>p\<close> of the file.\<close>

definition gains ::
  "'d fatfs \<Rightarrow> FL_FILE \<Rightarrow> nat \<Rightarrow> u32 \<Rightarrow> (u32 \<times> u32) option \<Rightarrow> u8 list \<Rightarrow> FL_FILE \<Rightarrow> 'd fatfs \<Rightarrow> bool" where
  "gains fs f p rest res bs f' fs' \<longleftrightarrow> (\<exists>copy sec. res = Some (copy, sec) \<and> 0 < unat copy \<and> unat copy \<le> unat rest \<and>
     (copy = rest \<or> 512 * unat sec = p + unat copy) \<and>
     take (unat copy) bs = map (file_byte fs (startcluster f)) [p..<p + unat copy] \<and>
     length bs \<le> unat copy + 130048 \<and>
     ro_inv fs' \<and> ro_rel fs fs' \<and> file_inv fs' f' \<and> same_file f f' \<and> bytenum f' = bytenum f)"

lemma fread_step_sectors:
  assumes inv: "ro_inv fs" "file_inv fs f" "multi_read fs"
    and cov: "chain_covers fs (startcluster f) n" "n < 2 ^ 31"
    and pos: "512 \<le> unat rest" "512 * unat sector + unat rest \<le> n"
    and run: "fread_step rest sector 0 f fs = (res, bs, f', fs')"
  shows "gains fs f (512 * unat sector) rest res bs f' fs'"
proof -
  let ?c = "startcluster f"
  have s: "512 * unat sector < n" "n < 2 ^ 32" "unat rest < 2 ^ 31" using cov(2) pos by auto
  obtain r b g fs1 where rs: "read_sectors sector (rest div 512) f fs = (r, b, g, fs1)" by (metis prod_cases4)
  have d: "unat (rest div 512) = unat rest div 512" by (simp add: unat_div)
  have "0 < rest div 512" "unat sector + unat (rest div 512) < 2 ^ 32"
    using pos(1) d s by (simp_all add: word_less_nat_alt div_greater_zero_iff)
  note sp = read_sectors_spec[OF inv cov(1) s(1,2) this rs]
  then obtain rst where b: "b = concat (map (\<lambda>i. file_sector fs ?c (unat sector + i)) [0..<unat r]) @ rst"
    and lr: "length rst \<le> 130048" by blast
  have r: "0 < unat r" "unat r * 512 \<le> unat rest" using sp d by (auto simp: word_less_nat_alt word_le_nat_alt)
  have m: "unat (512 * r) = 512 * unat r" "unat (sector + r) = unat sector + unat r"
    using r s pos(2) by (simp_all add: unat_word_ariths)
  have "take (512 * unat r) b = map (file_byte fs ?c) [512 * unat sector..<512 * unat sector + 512 * unat r]"
    unfolding b file_bytes_sectors[OF inv(1,3)] by simp
  moreover have "length b \<le> unat (512 * r) + 130048" unfolding b file_bytes_sectors[OF inv(1,3)] using lr m by simp
  moreover have "r \<noteq> 0" using r(1) by auto
  then have "res = Some (512 * r, sector + r)" "bs = b" "f' = g" "fs' = fs1"
    using run rs pos(1) s(3) by (auto simp: fread_step_def sle32_nat)
  moreover have "same_file f g" "bytenum g = bytenum f" using sp unfolding same_file_def by (cases f, cases g, simp)+
  ultimately show ?thesis using sp r m unfolding gains_def by (auto simp: distrib_left)
qed

lemma fread_step_buffer:
  assumes inv: "ro_inv fs" "file_inv fs f" "multi_read fs"
    and cov: "chain_covers fs (startcluster f) n" "n < 2 ^ 31"
    and pos: "unat off < 512" "0 < unat rest" "512 * unat sector + unat off + unat rest \<le> n"
    and part: "\<not> (off = 0 \<and> 512 \<le> unat rest)"
    and run: "fread_step rest sector off f fs = (res, bs, f', fs')"
  shows "gains fs f (512 * unat sector + unat off) rest res bs f' fs'"
proof -
  let ?c = "startcluster f" let ?sec = "file_sector fs ?c (unat sector)"
  have s: "512 * unat sector < n" "n < 2 ^ 32" "unat rest < 2 ^ 31" using cov(2) pos by auto
  have part': "\<not> (off = 0 \<and> sle32 512 rest)" using part s(3) by (simp add: sle32_nat)
  define copy where "copy = (if \<not> sle32 (512 - off) rest then rest else 512 - off)"
  have o: "unat (512 - off) = 512 - unat off" using pos(1) by (simp add: unat_sub word_le_nat_alt)
  then have uc: "unat copy = min (512 - unat off) (unat rest)" using s(3) by (auto simp: copy_def sle32_nat)
  have "res = Some (copy, sector + 1) \<and> ro_inv fs' \<and> ro_rel fs fs' \<and> file_inv fs' f' \<and> same_file f f' \<and>
      bytenum f' = bytenum f \<and> bs = take (unat copy) (drop (unat off) ?sec)"
  proof (cases "file_data_address f = sector")
    case True
    have "unat sector < unat (0xFFFFFFFF :: u32)" using s by simp
    then have "sector \<noteq> 0xFFFFFFFF" by (metis less_irrefl)
    then have "file_data_sector f = ?sec" using inv(2) True by (simp add: file_inv_def)
    then show ?thesis using run part' True inv ro.rel_refl[of fs] unfolding fread_step_def copy_def by (auto simp: Let_def)
  next
    case miss: False
    obtain r b g fs1 where rs: "read_sectors sector 1 f fs = (r, b, g, fs1)" by (metis prod_cases4)
    have "0 < (1::u32)" "unat sector + unat (1::u32) < 2 ^ 32" using s by simp_all
    note sp = read_sectors_spec[OF inv cov(1) s(1,2) this rs]
    have "unat r = 1" using sp by (auto simp: word_less_nat_alt word_le_nat_alt)
    then have r: "r = 1" by (metis unsigned_1 word_unat_eq_iff)
    then have b: "b = ?sec" using sp by auto
    have g: "g = f\<lparr>last_ClusterIdx := last_ClusterIdx g, last_CurrentCluster := last_CurrentCluster g\<rparr>" using sp by blast
    have sc: "startcluster g = ?c" by (subst g) simp
    have len: "length ?sec = 512" "length (file_data_sector g) = 512"
      using inv sp by (auto simp: length_file_sector file_inv_def)
    let ?h = "g\<lparr>file_data_sector := ?sec, file_data_address := sector, file_data_dirty := False\<rparr>"
    have "res = Some (copy, sector + 1) \<and> f' = ?h \<and> fs' = fs1 \<and> bs = take (unat copy) (drop (unat off) ?sec)"
      using run rs part' miss r b len unfolding fread_step_def copy_def by (auto simp: overlay_def Let_def)
    moreover have "file_inv fs1 ?h" using sp len sc ro_relD(3)[of fs fs1] by (simp add: file_inv_def)
    moreover have "same_file f ?h" "bytenum ?h = bytenum f" by (subst g, simp add: same_file_def)+
    ultimately show ?thesis using sp by simp
  qed
  moreover have "take (unat copy) bs = map (file_byte fs ?c) [512 * unat sector + unat off..<512 * unat sector + unat off + unat copy]"
    if "bs = take (unat copy) (drop (unat off) ?sec)"
    unfolding that using file_bytes_sector[OF inv(1,3), of "unat off" "unat copy" ?c "unat sector"] uc pos(1) by simp
  moreover have "copy = rest \<or> 512 * unat (sector + 1) = 512 * unat sector + unat off + unat copy"
    using s o pos(1) by (auto simp: unat_word_ariths copy_def sle32_nat)
  moreover have "0 < unat copy" "unat copy \<le> unat rest" using uc pos by auto
  moreover have "length bs \<le> unat copy + 130048" if "bs = take (unat copy) (drop (unat off) ?sec)" using that by simp
  ultimately show ?thesis unfolding gains_def by blast
qed

lemma fread_step_spec:
  assumes "ro_inv fs" "file_inv fs f" "multi_read fs" "chain_covers fs (startcluster f) n" "n < 2 ^ 31"
    "unat off < 512" "0 < unat rest" "512 * unat sector + unat off + unat rest \<le> n"
    "fread_step rest sector off f fs = (res, bs, f', fs')"
  shows "gains fs f (512 * unat sector + unat off) rest res bs f' fs'"
proof (cases "off = 0 \<and> 512 \<le> unat rest")
  case True
  then show ?thesis using fread_step_sectors[of fs f n rest sector res bs f' fs'] assms by auto
next
  case False
  then show ?thesis by (rule fread_step_buffer[OF assms(1-8) _ assms(9)])
qed

lemma take_put_at: "i \<le> length b \<Longrightarrow> take n bs = xs \<Longrightarrow> length xs = n \<Longrightarrow> take (i + n) (put_at i bs b) = take i b @ xs"
  by (auto simp: put_at_def overlay_def)

lemma fread_loop_spec:
  assumes "ro_inv fs" "file_inv fs f" "multi_read fs" "chain_covers fs (startcluster f) n" "n < 2 ^ 31" "unat off < 512"
    "unat done \<le> unat count" "p + unat count \<le> n" "unat count - unat done \<le> fuel"
    "unat done < unat count \<longrightarrow> 512 * unat sector + unat off = p + unat done"
    "take (unat done) out = map (file_byte fs (startcluster f)) [p..<p + unat done]"
    "length out \<le> unat done + 130048" "fread_loop fuel count done sector off out f fs = (m, out', f', fs')"
  shows "m = count \<and> length out' \<le> unat count + 130048 \<and> take (unat count) out' = map (file_byte fs (startcluster f)) [p..<p + unat count] \<and>
    ro_inv fs' \<and> ro_rel fs fs' \<and> file_inv fs' f' \<and> same_file f f' \<and> bytenum f' = bytenum f + (count - done)"
  using assms
proof (induction fuel arbitrary: "done" sector off out f fs)
  case 0
  then have "done = count" by (simp add: word_unat_eq_iff)
  then show ?case using 0 ro.rel_refl by auto
next
  case (Suc fuel)
  have sle: "sle32 count done \<longleftrightarrow> unat count \<le> unat done" using Suc.prems(5,7,8) by (simp add: sle32_nat)
  show ?case
  proof (cases "unat count \<le> unat done")
    case True
    then have "done = count" using Suc.prems(7) by (simp add: word_unat_eq_iff)
    then show ?thesis using Suc.prems sle True ro.rel_refl by auto
  next
    case False
    let ?rest = "count - done"
    have rest: "unat ?rest = unat count - unat done" using False by (simp add: unat_sub word_le_nat_alt)
    obtain res bs g fs1 where st: "fread_step ?rest sector off f fs = (res, bs, g, fs1)" by (metis prod_cases4)
    have at: "512 * unat sector + unat off = p + unat done" using Suc.prems(10) False by simp
    have "gains fs f (p + unat done) ?rest res bs g fs1"
      unfolding at[symmetric] by (rule fread_step_spec[OF Suc.prems(1-6) _ _ st]) (use rest False at Suc.prems(8) in auto)
    then obtain copy sec where g: "res = Some (copy, sec)" "0 < unat copy" "unat copy \<le> unat ?rest"
      "copy = ?rest \<or> 512 * unat sec = p + unat done + unat copy"
      "take (unat copy) bs = map (file_byte fs (startcluster f)) [p + unat done..<p + unat done + unat copy]"
      "length bs \<le> unat copy + 130048"
      "ro_inv fs1" "ro_rel fs fs1" "file_inv fs1 g" "same_file f g" "bytenum g = bytenum f"
      unfolding gains_def by blast
    have d: "unat (done + copy) = unat done + unat copy"
      using g(3) rest False Suc.prems(5,8) by (simp add: unat_word_ariths)
    let ?h = "g\<lparr>bytenum := bytenum g + copy\<rparr>" let ?out = "put_at (unat done) bs out"
    have run: "fread_loop fuel count (done + copy) sec 0 ?out ?h fs1 = (m, out', f', fs')"
      using Suc.prems(13) False sle st g(1) by simp
    have h: "startcluster ?h = startcluster f" "same_file f ?h" using g(10) same_fileD[of f g] unfolding same_file_def by (auto, cases f, cases g, simp)
    note eq = ro_relD[OF g(8)]
    have fi: "file_inv fs1 ?h" using g(9) by (simp add: file_inv_def)
    have more: "unat done \<le> length out" using Suc.prems(11) by (metis length_map length_upt diff_add_inverse length_take min.cobounded1)
    have out: "take (unat (done + copy)) ?out = map (file_byte fs1 (startcluster ?h)) [p..<p + unat (done + copy)]"
    proof -
      have "take (unat done + unat copy) ?out = take (unat done) out @
          map (file_byte fs (startcluster f)) [p + unat done..<p + unat done + unat copy]"
        by (rule take_put_at[OF more g(5)]) simp
      then show ?thesis
        unfolding d h(1) eq Suc.prems(11) by (simp add: upt_add_eq_append[of p "p + unat done"] flip: map_append add.assoc)
    qed
    have lo: "length ?out \<le> unat (done + copy) + 130048"
      using Suc.prems(12) g(6) d more by (simp add: put_at_def overlay_def)
    have "m = count \<and> length out' \<le> unat count + 130048 \<and> take (unat count) out' = map (file_byte fs1 (startcluster ?h)) [p..<p + unat count] \<and>
      ro_inv fs' \<and> ro_rel fs1 fs' \<and> file_inv fs' f' \<and> same_file ?h f' \<and> bytenum f' = bytenum ?h + (count - (done + copy))"
      by (rule Suc.IH[OF g(7) fi _ _ Suc.prems(5) _ _ Suc.prems(8) _ _ out lo run])
        (use Suc.prems(3,4,9) g(2-4) rest False in \<open>auto simp: eq h(1) d\<close>)
    then show ?thesis
      using g(8,11) h ro.rel_trans[OF g(8)] same_file_trans[OF h(2)] by (auto simp: eq)
  qed
qed

section \<open>Open files\<close>

definition file_bytes :: "'d fatfs \<Rightarrow> FL_FILE \<Rightarrow> u8 list" where
  "file_bytes fs f = map (file_byte fs (startcluster f)) [0..<unat (filelength f)]"

text \<open>A file system that can be read, and a file that is open for reading and has all its clusters.\<close>

definition fs_ready :: "'d fatfs \<Rightarrow> bool" where
  "fs_ready fs \<longleftrightarrow> dir_inv fs \<and> multi_read fs"

definition file_ready :: "'d fatfs \<Rightarrow> FL_FILE \<Rightarrow> bool" where
  "file_ready fs f \<longleftrightarrow> file_inv fs f \<and> unat (filelength f) < 2 ^ 31 \<and>
     chain_covers fs (startcluster f) (unat (filelength f))"

lemma fs_ready_rel:
  assumes "fs_ready fs" "ro_inv fs'" "ro_rel fs fs'"
  shows "fs_ready fs'"
proof -
  have "currentsector fs' = currentsector fs" using assms(3) same_fsD(11)[OF ro_rel_same_fs] by blast
  then show ?thesis using assms ro_relD(1,2)[OF assms(3)] by (simp add: fs_ready_def dir_inv_def cur_ok_def)
qed

lemma file_read_spec:
  assumes "fs_ready fs" "file_ready fs f" "f_flags f AND FILE_READ \<noteq> 0" "0 < unat count" "unat count < 2 ^ 31" "bytenum f < filelength f"
    "file_read count f fs = (m, out, f', fs')"
  shows "unat m = min (unat count) (unat (filelength f) - unat (bytenum f)) \<and>
    take (unat m) out = take (unat m) (drop (unat (bytenum f)) (file_bytes fs f)) \<and>
    length out \<le> unat m + 130048 \<and> bytenum f' = bytenum f + m \<and> same_file f f' \<and> ro_rel fs fs' \<and> fs_ready fs' \<and> file_ready fs' f'"
proof -
  have ro: "ro_inv fs" "multi_read fs" using assms(1) by (simp_all add: fs_ready_def dir_inv_def)
  have fr: "file_inv fs f" "unat (filelength f) < 2 ^ 31" "chain_covers fs (startcluster f) (unat (filelength f))"
    using assms(2) by (simp_all add: file_ready_def)
  have lt: "unat (bytenum f) < unat (filelength f)" using assms(6) by (simp add: word_less_nat_alt)
  define c where "c = (if bytenum f + count > filelength f then filelength f - bytenum f else count)"
  have "unat (bytenum f + count) = unat (bytenum f) + unat count" using lt fr(2) assms(5) by (simp add: unat_word_ariths)
  then have c: "unat c = min (unat count) (unat (filelength f) - unat (bytenum f))"
    unfolding c_def using lt by (auto simp: word_less_nat_alt unat_sub word_le_nat_alt)
  have "count \<noteq> 0" using assms(4) by auto
  then have "fread_loop (unat c) c 0 (bytenum f div 512) (bytenum f mod 512) [] f fs = (m, out, f', fs')"
    using assms(2,3,6,7) by (simp add: file_read_def file_ready_def c_def Let_def split: if_splits)
  then have "m = c \<and> length out \<le> unat c + 130048 \<and> take (unat c) out = map (file_byte fs (startcluster f)) [unat (bytenum f)..<unat (bytenum f) + unat c] \<and>
      ro_inv fs' \<and> ro_rel fs fs' \<and> file_inv fs' f' \<and> same_file f f' \<and> bytenum f' = bytenum f + (c - 0)"
    by (rule fread_loop_spec[OF ro(1) fr(1) ro(2) fr(3,2), rotated -1])
      (use c lt in \<open>auto simp: unat_div unat_mod\<close>)
  then have l: "m = c" "take (unat m) out = map (file_byte fs (startcluster f)) [unat (bytenum f)..<unat (bytenum f) + unat c]"
    "ro_inv fs'" "ro_rel fs fs'" "file_inv fs' f'" "same_file f f'" "bytenum f' = bytenum f + m"
    "length out \<le> unat m + 130048" by auto
  have "take (unat m) (drop (unat (bytenum f)) (file_bytes fs f)) =
      map (file_byte fs (startcluster f)) [unat (bytenum f)..<unat (bytenum f) + unat c]"
    unfolding file_bytes_def l(1) using c lt by (simp add: take_map drop_map take_upt)
  moreover have "file_ready fs' f'" using assms(2) l(5) same_fileD[OF l(6)] ro_relD(4)[OF l(4)] by (simp add: file_ready_def)
  ultimately show ?thesis using l c fs_ready_rel[OF assms(1) l(3,4)] by simp
qed

section \<open>The open-file table\<close>

lemma purge_clean: "(\<forall>b \<in> set (fat_buffers fs). \<not> fb_dirty b) \<Longrightarrow> i + n \<le> length (fat_buffers fs) \<Longrightarrow> fat_purge_from i n fs = (True, fs)"
  by (induction n arbitrary: i) auto

lemma purge_ro: "ro_inv fs \<Longrightarrow> fatfs_fat_purge fs = (True, fs)"
  unfolding fatfs_fat_purge_def
  by (rule purge_clean) (auto simp: ro_inv_def)

definition table_ok :: "'d filelib \<Rightarrow> bool" where
  "table_ok l \<longleftrightarrow> filelib_init l \<and> length (lib_files l) = FATFS_MAX_OPEN_FILES \<and>
     distinct (open_files l @ free_files l) \<and> set (open_files l @ free_files l) = {..<FATFS_MAX_OPEN_FILES}"

text \<open>\<open>lib_ok_but l X\<close>: the library works and every open file is ready to be read, those in \<open>X\<close> apart.\<close>

definition lib_ok_but :: "'d filelib \<Rightarrow> nat set \<Rightarrow> bool" where
  "lib_ok_but l X \<longleftrightarrow> table_ok l \<and> filelib_valid l \<and> fs_ready (lib_fs l) \<and>
     (\<forall>i \<in> set (open_files l) - X. file_ready (lib_fs l) (lib_files l ! i)) \<and>
     (\<forall>f \<in> set (lib_files l). length (file_data_sector f) = 512)"

definition lib_ok :: "'d filelib \<Rightarrow> bool" where
  "lib_ok l \<longleftrightarrow> lib_ok_but l {}"

lemma lib_ok_butI:
  assumes "lib_ok l"
  shows "lib_ok_but l X"
  using assms by (auto simp: lib_ok_def lib_ok_but_def)

lemma init_ok [simp]: "lib_ok_but l X \<Longrightarrow> CHECK_FL_INIT l = l"
  by (simp add: lib_ok_but_def table_ok_def CHECK_FL_INIT_def)

lemma open_slot: "table_ok l \<Longrightarrow> i \<in> set (open_files l) \<Longrightarrow> i < length (lib_files l) \<and> i < FATFS_MAX_OPEN_FILES"
  by (auto simp: table_ok_def set_eq_iff)

lemma upd_file_fields [simp]:
  "lib_fs (upd_file i f l) = lib_fs l" "open_files (upd_file i f l) = open_files l" "free_files (upd_file i f l) = free_files l"
  "filelib_valid (upd_file i f l) = filelib_valid l" "filelib_init (upd_file i f l) = filelib_init l"
  "length (lib_files (upd_file i f l)) = length (lib_files l)"
  by (simp_all add: upd_file_def)

lemma upd_file_nth: "lib_files (upd_file i f l) ! j = (if i = j \<and> i < length (lib_files l) then f (lib_files l ! i) else lib_files l ! j)"
  by (cases "i < length (lib_files l)") (auto simp: upd_file_def nth_list_update list_update_beyond not_less)

lemma lib_ok_upd:
  assumes "lib_ok_but l {i}" "i < length (lib_files l)" "length (file_data_sector (f (lib_files l ! i))) = 512"
  shows "lib_ok_but (upd_file i f l) {i}"
  using assms set_update_subset_insert[of "lib_files l" i "f (lib_files l ! i)"]
  by (auto simp: lib_ok_but_def table_ok_def upd_file_nth) (auto simp: upd_file_def)

lemma lib_ok_fs:
  assumes "lib_ok_but l X" "dir_rel (lib_fs l) fs'" "dir_inv fs'"
  shows "lib_ok_but (l\<lparr>lib_fs := fs'\<rparr>) X"
  using assms dir_rel_bytes[OF assms(2)]
  by (auto simp: lib_ok_but_def table_ok_def fs_ready_def file_ready_def)

lemma lib_ok_done: "lib_ok_but l {i} \<Longrightarrow> file_ready (lib_fs l) (lib_files l ! i) \<Longrightarrow> lib_ok l"
  by (auto simp: lib_ok_but_def lib_ok_def)

lemma lib_ok_allocate:
  assumes "lib_ok l" "free_files l = i # is"
  shows "allocate_file l = (Some i, l\<lparr>free_files := is, open_files := open_files l @ [i]\<rparr>)"
    "lib_ok_but (l\<lparr>free_files := is, open_files := open_files l @ [i]\<rparr>) {i}" "i < length (lib_files l)"
  using assms by (auto simp: lib_ok_but_def lib_ok_def table_ok_def allocate_file_def set_eq_iff)

lemma lib_ok_free:
  assumes "lib_ok_but l {i}" "i \<in> set (open_files l)"
  shows "lib_ok (free_file i l)"
  using assms by (auto simp: lib_ok_but_def lib_ok_def table_ok_def free_file_def distinct_remove1)

section \<open>Attaching a medium\<close>

text \<open>A reader that delivers every sector of a medium, and up to 255 at once.\<close>

definition reads_all :: "('d \<Rightarrow> u32 \<Rightarrow> u32 \<Rightarrow> bool \<times> u8 list) \<Rightarrow> 'd \<Rightarrow> bool" where
  "reads_all rd d \<longleftrightarrow> (\<forall>s n. fst (rd d s n)) \<and> (\<forall>s n. 0 < n \<longrightarrow> n \<le> 255 \<longrightarrow> (\<exists>rest. length rest \<le> 512 * (unat n - 1) \<and>
     rd d s n = (True, concat (map (\<lambda>i. snd (rd d (s + of_nat i) 1)) [0..<unat n]) @ rest)))"

lemma read_current_fields:
  assumes "media_ok (disk_io fs)" "read_current lba fs = (ok, fs')" "length (fb_sector (currentsector fs)) = 512"
  shows "disk_io fs' = disk_io fs" "media fs' = media fs" "fat_buffers fs' = fat_buffers fs"
    "fb_address (currentsector fs') = fb_address (currentsector fs)" "length (fb_sector (currentsector fs')) = 512"
proof -
  obtain r bs where d: "disk_read fs lba 1 = (r, bs)" by fastforce
  then have "fs' = fs_cur (\<lambda>b. b\<lparr>fb_sector := overlay bs (fb_sector b)\<rparr>) fs" using assms(2) by (simp add: read_current_def)
  then show "disk_io fs' = disk_io fs" "media fs' = media fs" "fat_buffers fs' = fat_buffers fs"
    "fb_address (currentsector fs') = fb_address (currentsector fs)" "length (fb_sector (currentsector fs')) = 512"
    using media_readD[OF assms(1) d] assms(3) by (simp_all add: fs_cur_def overlay_def)
qed

lemma fatfs_init_fields:
  assumes "media_ok (disk_io fs)" "length (fb_sector (currentsector fs)) = 512" "fatfs_init fs = (FAT_INIT_OK, fs')"
  shows "disk_io fs' = disk_io fs" "media fs' = media fs" "fat_buffers fs' = [fat_buffer_reset]"
    "fb_address (currentsector fs') = FAT32_INVALID_CLUSTER" "length (fb_sector (currentsector fs')) = 512"
proof -
  define fs0 where "fs0 = fatfs_fat_init ((fs_cur (\<lambda>b. b\<lparr>fb_address := FAT32_INVALID_CLUSTER, fb_dirty := False\<rparr>) fs)\<lparr>next_free_cluster := 0\<rparr>)"
  have f0: "disk_io fs0 = disk_io fs" "media fs0 = media fs" "fat_buffers fs0 = [fat_buffer_reset]"
    "fb_address (currentsector fs0) = FAT32_INVALID_CLUSTER" "length (fb_sector (currentsector fs0)) = 512"
    using assms(2) by (simp_all add: fs0_def fatfs_fat_init_def fs_cur_def FAT_BUFFERS_def)
  obtain ok1 fs1 where r1: "read_current 0 fs0 = (ok1, fs1)" by fastforce
  have m0: "media_ok (disk_io fs0)" using assms(1) f0(1) by simp
  note f1 = read_current_fields[OF m0 r1 f0(5)]
  define fs2 where "fs2 = fs1\<lparr>lba_begin := (if valid_partition (fb_sector (currentsector fs1) ! PARTITION1_TYPECODE_LOCATION)
                  then GET_32BIT_WORD (fb_sector (currentsector fs1)) PARTITION1_LBA_BEGIN_LOCATION else 0)\<rparr>"
  have f2: "media_ok (disk_io fs2)" "length (fb_sector (currentsector fs2)) = 512" using f1 m0 by (simp_all add: fs2_def)
  obtain ok3 fs3 where r3: "read_current (lba_begin fs2) fs2 = (ok3, fs3)" by fastforce
  note f3 = read_current_fields[OF f2(1) r3 f2(2)]
  have e: "fs' = (load_bpb fs3)\<lparr>rootdir_first_cluster := 0, fat_type := FAT_TYPE_16\<rparr> \<or> fs' = (load_bpb fs3)\<lparr>fat_type := FAT_TYPE_32\<rparr>"
    using assms(3) unfolding fatfs_init_def fs0_def[symmetric] Let_def r1 prod.case fs2_def[symmetric] r3
    by (auto simp: fat_init_codes split: if_splits)
  have "disk_io fs' = disk_io fs3 \<and> media fs' = media fs3 \<and> fat_buffers fs' = fat_buffers fs3 \<and> currentsector fs' = currentsector fs3"
    using e by (auto simp: load_bpb_def Let_def)
  then show "disk_io fs' = disk_io fs" "media fs' = media fs" "fat_buffers fs' = [fat_buffer_reset]"
    "fb_address (currentsector fs') = FAT32_INVALID_CLUSTER" "length (fb_sector (currentsector fs')) = 512"
    using f0 f1 f3 by (simp_all add: fs2_def)
qed

lemma attach_spec:
  assumes "reads_all rd (media (lib_fs l))" "media_ok \<lparr>read_media = Some rd, write_media = None\<rparr>"
    "length (fb_sector (currentsector (lib_fs l))) = 512" "table_ok (CHECK_FL_INIT l)" "open_files (CHECK_FL_INIT l) = []"
    "\<forall>f \<in> set (lib_files l). length (file_data_sector f) = 512" "fl_attach_media (Some rd) None l = (FAT_INIT_OK, l')"
    "unat (fat_begin_lba (lib_fs l')) + unat (fat_sectors (lib_fs l')) < 2 ^ 32"
  shows "lib_ok l'"
proof -
  define l0 where "l0 = CHECK_FL_INIT l"
  have l0: "lib_fs l0 = lib_fs l" "lib_files l0 = lib_files l" by (simp_all add: l0_def CHECK_FL_INIT_def fl_init_def)
  obtain res fs where i: "fatfs_init ((lib_fs l)\<lparr>disk_io := \<lparr>read_media = Some rd, write_media = None\<rparr>\<rparr>) = (res, fs)" by fastforce
  have r: "res = FAT_INIT_OK" "l' = l0\<lparr>lib_fs := fs, filelib_valid := True\<rparr>"
    using assms(7) i l0 unfolding fl_attach_media_def l0_def[symmetric] by (auto simp: Let_def split: if_splits)
  note f = fatfs_init_fields[OF _ _ i[unfolded r(1)], simplified, OF assms(2,3)]
  have io: "read_media (disk_io fs) = Some rd" "write_media (disk_io fs) = None" using f(1) by simp_all
  have rd: "disk_read fs s n = rd (media (lib_fs l)) s n" for s n using f(2) by (simp add: disk_read_def io(1))
  have "fat_ok fs"
    using assms(2,8) r(2) f(1,3)
    by (simp add: fat_ok_def buf_ok_def fat_buffer_reset_def FAT_SECTOR_SIZE_n_def FAT32_INVALID_CLUSTER_def)
  then have "ro_inv fs" using io(2) by (rule ro_invI)
  then have "dir_inv fs" using assms(1) f(4,5) by (simp add: dir_inv_def cur_ok_def rd reads_all_def)
  moreover have "multi_read fs" using assms(1) by (simp add: multi_read_def disk_sector_def rd reads_all_def)
  moreover have "table_ok l'" "open_files l' = []" using assms(4,5) by (simp_all add: r(2) l0_def[symmetric] table_ok_def)
  ultimately show ?thesis using assms(6) l0 by (simp add: lib_ok_def lib_ok_but_def fs_ready_def r(2))
qed

section \<open>Operations on open files\<close>

lemma fl_fread_spec:
  assumes "lib_ok l" "i \<in> set (open_files l)" "f = lib_files l ! i" "f_flags f AND FILE_READ \<noteq> 0"
    "bytenum f < filelength f" "0 < unat (sz * len)" "unat (sz * len) < 2 ^ 31"
    "fl_fread False sz len (Some i) l = (m, out, l')"
  shows "unat m = min (unat (sz * len)) (unat (filelength f) - unat (bytenum f)) \<and>
    take (unat m) out = take (unat m) (drop (unat (bytenum f)) (file_bytes (lib_fs l) f)) \<and>
    length out \<le> unat m + 130048 \<and> bytenum (lib_files l' ! i) = bytenum f + m \<and> same_file f (lib_files l' ! i) \<and>
    file_bytes (lib_fs l') (lib_files l' ! i) = file_bytes (lib_fs l) f \<and> open_files l' = open_files l \<and> lib_ok l'"
proof -
  have ok: "lib_ok_but l {i}" using assms(1) by (rule lib_ok_butI)
  have lt: "i < length (lib_files l)" using open_slot[of l i] ok assms(2) by (simp add: lib_ok_but_def)
  have r: "fs_ready (lib_fs l)" "file_ready (lib_fs l) f" using assms(1-3) by (simp_all add: lib_ok_def lib_ok_but_def)
  obtain n bs g fs' where fr: "file_read (sz * len) f (lib_fs l) = (n, bs, g, fs')" by (metis prod_cases4)
  note sp = file_read_spec[OF r assms(4,6,7,5) fr]
  have l': "l' = upd_file i (\<lambda>_. g) (l\<lparr>lib_fs := fs'\<rparr>)" "m = n" "out = bs"
    using assms(3,8) fr ok by (auto simp: fl_fread_def)
  have g: "lib_files l' ! i = g" using lt by (simp add: l' upd_file_nth)
  have "lib_ok_but (l\<lparr>lib_fs := fs'\<rparr>) {i}"
    using sp by (intro lib_ok_fs[OF ok]) (auto simp: ro_dir_rel fs_ready_def)
  then have "lib_ok_but l' {i}"
    unfolding l' using lt sp by (intro lib_ok_upd) (auto simp: file_ready_def file_inv_def)
  then have "lib_ok l'" by (rule lib_ok_done) (use sp g in \<open>simp add: l'\<close>)
  moreover have "file_bytes fs' g = file_bytes (lib_fs l) f"
    using sp same_fileD[of f g] ro_relD(5)[of "lib_fs l" fs'] by (simp add: file_bytes_def)
  moreover have "open_files l' = open_files l" "lib_fs l' = fs'" by (simp_all add: l'(1))
  ultimately show ?thesis using sp unfolding g l'(2,3) by blast
qed

text \<open>
  C8: Reading. \<^verbatim>\<open>fl_fread\<close> on an open file that is not at its end returns the number of bytes wanted, or the
  number left in the file when that is less; the buffer begins with that many bytes of the file from the
  position on, the position moves on by as much, and the file and the library stay fit for the next call.
  Behind these bytes the medium may make it store up to 254 sectors more.
  The bytes are those of the cluster chain, wherever the remembered cluster and the sector buffer come from.
\<close>
theorem fl_fread_correct:
  assumes "lib_ok l" "i \<in> set (open_files l)" "f = lib_files l ! i" "f_flags f AND FILE_READ \<noteq> 0"
    "bytenum f < filelength f" "0 < unat (sz * len)" "unat (sz * len) < 2 ^ 31"
    "fl_fread False sz len (Some i) l = (m, out, l')"
  shows "unat m = min (unat (sz * len)) (unat (filelength f) - unat (bytenum f)) \<and>
    take (unat m) out = take (unat m) (drop (unat (bytenum f)) (file_bytes (lib_fs l) f)) \<and>
    length out \<le> unat m + 130048 \<and> bytenum (lib_files l' ! i) = bytenum f + m \<and> same_file f (lib_files l' ! i) \<and>
    file_bytes (lib_fs l') (lib_files l' ! i) = file_bytes (lib_fs l) f \<and> open_files l' = open_files l \<and> lib_ok l'"
  by (rule fl_fread_spec[OF assms])

lemma word_diff_le: "x \<le> b \<Longrightarrow> b \<le> c \<Longrightarrow> b - x \<le> c" for x b c :: "'a::len word"
  by (metis word_sub_le order_trans)

lemma fl_fseek_spec:
  assumes "lib_ok l" "i \<in> set (open_files l)" "f = lib_files l ! i" "bytenum f \<le> filelength f"
    "fl_fseek (Some i) offset origin l = (r, l')"
  shows "lib_ok l' \<and> lib_fs l' = lib_fs l \<and> open_files l' = open_files l \<and> same_file f (lib_files l' ! i) \<and>
    bytenum (lib_files l' ! i) \<le> filelength f \<and>
    (origin = SEEK_SET \<longrightarrow> r = 0 \<and> bytenum (lib_files l' ! i) = min (ucast offset) (filelength f)) \<and>
    (origin = SEEK_END \<and> offset = 0 \<longrightarrow> r = 0 \<and> bytenum (lib_files l' ! i) = filelength f) \<and>
    (origin = SEEK_END \<and> offset \<noteq> 0 \<longrightarrow> r = - 1 \<and> l' = l) \<and> (origin \<notin> {SEEK_SET, SEEK_CUR, SEEK_END} \<longrightarrow> r = - 1)"
proof (cases "origin = SEEK_END \<and> offset \<noteq> 0")
  case True
  have "CHECK_FL_INIT l = l" using assms(1) init_ok lib_ok_butI by blast
  then show ?thesis using True assms by (auto simp: fl_fseek_def SEEK_SET_def SEEK_END_def)
next
  case False
  have ok: "lib_ok_but l {i}" using assms(1) by (rule lib_ok_butI)
  have lt: "i < length (lib_files l)" using open_slot[of l i] ok assms(2) by (simp add: lib_ok_but_def)
  have fr: "file_ready (lib_fs l) f" using assms(1-3) by (simp add: lib_ok_def lib_ok_but_def)
  obtain s g where fs: "file_seek offset origin f = (s, g)" by fastforce
  then have l': "l' = upd_file i (\<lambda>_. g) l" "r = s" using assms(3,5) ok False by (auto simp: fl_fseek_def)
  have g: "lib_files l' ! i = g" using lt by (simp add: l' upd_file_nth)
  have sf: "same_file f g" using fs by (auto simp: file_seek_def same_file_def Let_def split: if_splits)
  have gr: "file_ready (lib_fs l) g" using fs fr by (auto simp: file_seek_def file_ready_def file_inv_def Let_def split: if_splits)
  have "lib_ok_but l' {i}" unfolding l' using gr by (intro lib_ok_upd[OF ok lt]) (simp add: file_ready_def file_inv_def)
  then have "lib_ok l'" by (rule lib_ok_done) (use gr g in \<open>simp add: l'\<close>)
  moreover have "bytenum g \<le> filelength f \<and> (origin = SEEK_SET \<longrightarrow> s = 0 \<and> bytenum g = min (ucast offset) (filelength f)) \<and>
      (origin = SEEK_END \<longrightarrow> s = 0 \<and> bytenum g = filelength f) \<and> (origin \<notin> {SEEK_SET, SEEK_CUR, SEEK_END} \<longrightarrow> s = - 1)"
    using fs assms(4)
    by (auto simp: file_seek_def SEEK_SET_def SEEK_CUR_def SEEK_END_def Let_def min_def not_less split: if_splits
        intro: word_diff_le)
  ultimately show ?thesis using sf g False by (auto simp: l')
qed

text \<open>
  Positions. \<^verbatim>\<open>fl_fseek\<close> on an open file leaves a position within the file: the offset, the position moved by
  it, or the end, never past the end and never before the start. The offset is cut to 32 bits first.
\<close>
theorem fl_fseek_correct:
  assumes "lib_ok l" "i \<in> set (open_files l)" "f = lib_files l ! i" "bytenum f \<le> filelength f"
    "fl_fseek (Some i) offset origin l = (r, l')"
  shows "lib_ok l' \<and> lib_fs l' = lib_fs l \<and> open_files l' = open_files l \<and> same_file f (lib_files l' ! i) \<and>
    bytenum (lib_files l' ! i) \<le> filelength f \<and>
    (origin = SEEK_SET \<longrightarrow> r = 0 \<and> bytenum (lib_files l' ! i) = min (ucast offset) (filelength f)) \<and>
    (origin = SEEK_END \<and> offset = 0 \<longrightarrow> r = 0 \<and> bytenum (lib_files l' ! i) = filelength f) \<and>
    (origin = SEEK_END \<and> offset \<noteq> 0 \<longrightarrow> r = - 1 \<and> l' = l) \<and> (origin \<notin> {SEEK_SET, SEEK_CUR, SEEK_END} \<longrightarrow> r = - 1)"
  by (rule fl_fseek_spec[OF assms])

section \<open>Opening a file\<close>

text \<open>Reference: the directory that a list of names leads to.\<close>

fun resolves :: "'d fatfs \<Rightarrow> u8 list list \<Rightarrow> u32 \<Rightarrow> u32 \<Rightarrow> bool" where
  "resolves fs [] c c' \<longleftrightarrow> c = c'"
| "resolves fs (d # ds) c c' \<longleftrightarrow> (\<exists>n e. has_sectors fs c n \<and> List.find (entry_named d) (dir_contents fs c n) = Some e \<and>
     fatfs_entry_is_dir e \<and> resolves fs ds (entry_cluster e) c')"

lemma dir_contents_rel: "dir_rel fs fs' \<Longrightarrow> dir_contents fs' = dir_contents fs"
  by (intro ext) (simp add: dir_contents_def chain_sector_rel)

lemma resolves_rel: "dir_rel fs fs' \<Longrightarrow> resolves fs' ds c c' = resolves fs ds c c'"
  by (induction ds arbitrary: c) (simp_all add: has_sectors_rel dir_contents_rel)

lemma length_join: "d \<in> set ds \<Longrightarrow> length d < length (join e ds)"
  by (induction ds) auto

lemma open_directory_loop_spec:
  assumes "\<forall>d \<in> set (x # xs). name_ok d" "int (length (join 0x2f (x # xs))) < int FATFS_MAX_LONG_FILENAME"
  shows "dir_inv fs \<Longrightarrow> drop k (x # xs) = ds \<Longrightarrow> resolves fs ds c c' \<Longrightarrow>
    \<exists>fs'. open_directory_loop (length ds) (int k) (join 0x2f (x # xs)) c fs = Some (Some c', fs') \<and> dir_inv fs' \<and> dir_rel fs fs'"
proof (induction ds arbitrary: k c fs)
  case (Cons d ds)
  have k: "k < length (x # xs)" using Cons.prems(2) by (metis drop_eq_Nil list.distinct(1) not_less)
  then have at: "(x # xs) ! k = d" "drop (Suc k) (x # xs) = ds" using Cons.prems(2) by (metis Cons_nth_drop_Suc list.inject)+
  have "length d < length (join 0x2f (x # xs))" using length_join at k nth_mem by metis
  then have sub: "fatfs_get_substring (join 0x2f (x # xs)) (int k) (int FATFS_MAX_LONG_FILENAME) = (0, Some d)"
    using get_substring_join[OF assms(1), of k "int FATFS_MAX_LONG_FILENAME"] assms(2) k at(1) by simp
  obtain n e where e: "has_sectors fs c n" "List.find (entry_named d) (dir_contents fs c n) = Some e"
    "fatfs_entry_is_dir e" "resolves fs ds (entry_cluster e) c'" using Cons.prems(3) by auto
  obtain fs1 where g: "fatfs_get_file_entry c d fs = Some (Some e, fs1)" "dir_inv fs1" "dir_rel fs fs1"
    using get_file_entry_spec[OF Cons.prems(1) e(1), of d] e(2) by auto
  have "resolves fs1 ds (entry_cluster e) c'" using e(4) resolves_rel[OF g(3)] by blast
  from Cons.IH[OF g(2) at(2) this] obtain fs2 where
    "open_directory_loop (length ds) (int (Suc k)) (join 0x2f (x # xs)) (entry_cluster e) fs1 = Some (Some c', fs2)"
    "dir_inv fs2" "dir_rel fs1 fs2" by blast
  then show ?case using sub g e(3) dir_rel_trans[OF g(3)] by (auto simp: add.commute)
qed auto

lemma parent_directory_spec:
  assumes "dir_inv fs" "\<forall>d \<in> set ds. name_ok d" "int (length (join 0x2f ds)) < int FATFS_MAX_LONG_FILENAME"
    "resolves fs ds (fatfs_get_root_cluster fs) c"
  shows "\<exists>fs'. parent_directory (join 0x2f ds) fs = Some (Some c, fs') \<and> dir_inv fs' \<and> dir_rel fs fs'"
proof (cases ds)
  case Nil
  then show ?thesis using assms by (simp add: parent_directory_def)
next
  case (Cons x xs)
  then have lv: "fatfs_total_path_levels (join 0x2f ds) + 1 = int (length ds)" using total_levels_join[of x xs] assms(2) by simp
  have "parent_directory (join 0x2f ds) fs = open_directory_loop (length ds) (int 0) (join 0x2f ds) (fatfs_get_root_cluster fs) fs"
    unfolding parent_directory_def open_directory_def lv nat_int of_nat_0 using Cons by (simp only: join.simps list.distinct if_False) (simp del: open_directory_loop.simps)
  then show ?thesis
    using open_directory_loop_spec[of x xs fs 0 ds "fatfs_get_root_cluster fs" c] assms unfolding Cons drop_0 by metis
qed

text \<open>What the slot of a file opened from the entry \<open>e\<close> holds.\<close>

definition opened_as :: "fat_dir_entry \<Rightarrow> FL_FILE \<Rightarrow> bool" where
  "opened_as e g \<longleftrightarrow> startcluster g = entry_cluster e \<and> filelength g = FileSize e \<and> bytenum g = 0"

definition entry_ok :: "'d fatfs \<Rightarrow> fat_dir_entry \<Rightarrow> bool" where
  "entry_ok fs e \<longleftrightarrow> unat (FileSize e) < 2 ^ 31 \<and> chain_covers fs (entry_cluster e) (unat (FileSize e))"

lemma file_opened_ready:
  "entry_ok fs e \<Longrightarrow> length (file_data_sector f) = 512 \<Longrightarrow> file_ready fs (file_opened e f) \<and> opened_as e (file_opened e f)"
  by (simp add: entry_ok_def file_ready_def file_inv_def file_opened_def fatfs_cache_init_def FAT_CLUSTER_CACHE_ENTRIES_def opened_as_def)

lemma file_opened_sector [simp]: "file_data_sector (file_opened e f) = file_data_sector f"
  by (simp add: file_opened_def fatfs_cache_init_def)

lemma lib_ok_but_sector: "lib_ok_but l X \<Longrightarrow> i < length (lib_files l) \<Longrightarrow> length (file_data_sector (lib_files l ! i)) = 512"
  by (simp add: lib_ok_but_def)

lemma lib_ok_opened:
  assumes "lib_ok_but l {i}" "i < length (lib_files l)" "entry_ok (lib_fs l) e"
  defines "l' \<equiv> upd_file i (file_opened e) l"
  shows "lib_ok l' \<and> l'\<lparr>lib_fs := snd (fatfs_fat_purge (lib_fs l'))\<rparr> = l' \<and> opened_as e (lib_files l' ! i)"
proof -
  have sec: "length (file_data_sector (lib_files l ! i)) = 512" by (rule lib_ok_but_sector[OF assms(1,2)])
  note ready = file_opened_ready[OF assms(3) sec]
  have ok: "lib_ok_but l' {i}" unfolding l'_def by (rule lib_ok_upd[OF assms(1,2)]) (simp add: sec)
  have at: "lib_files l' ! i = file_opened e (lib_files l ! i)" using assms(2) by (simp add: l'_def upd_file_nth)
  have fs': "lib_fs l' = lib_fs l" by (simp add: l'_def)
  have "lib_ok l'" by (rule lib_ok_done[OF ok]) (use ready in \<open>simp add: at fs'\<close>)
  moreover have "ro_inv (lib_fs l')" using ok by (simp add: lib_ok_but_def fs_ready_def dir_inv_def)
  then have "l'\<lparr>lib_fs := snd (fatfs_fat_purge (lib_fs l'))\<rparr> = l'" by (simp add: purge_ro)
  ultimately show ?thesis using ready at by simp
qed

lemma entry_ok_rel: "dir_rel fs fs' \<Longrightarrow> entry_ok fs' = entry_ok fs"
  by (intro ext) (simp add: entry_ok_def dir_rel_bytes)

lemma open_file_spec:
  assumes ok: "lib_ok l" and slot: "free_files l = i # is"
    and names: "\<forall>d \<in> set (ds @ [f]). name_ok d" "int (length (join 0x2f ds)) < int FATFS_MAX_LONG_FILENAME"
      "int (length f) < int FATFS_MAX_LONG_FILENAME"
    and dir: "resolves (lib_fs l) ds (fatfs_get_root_cluster (lib_fs l)) c" "has_sectors (lib_fs l) c n"
      "found = List.find (entry_named f) (dir_contents (lib_fs l) c n)"
    and entry: "\<And>e. found = Some e \<Longrightarrow> fatfs_entry_is_file e \<Longrightarrow> entry_ok (lib_fs l) e"
    and new: "\<forall>j \<in> set (open_files l). \<not> (fatfs_compare_names (f_path (lib_files l ! j)) (join 0x2f ds) \<and>
      fatfs_compare_names (f_filename (lib_files l ! j)) f)"
  shows "\<exists>l'. lib_ok l' \<and> dir_rel (lib_fs l) (lib_fs l') \<and>
    (case found of
       Some e \<Rightarrow> if fatfs_entry_is_file e
         then open_file (join 0x2f (ds @ [f])) l = Some (Some i, l') \<and> open_files l' = open_files l @ [i] \<and> free_files l' = is \<and>
           opened_as e (lib_files l' ! i) \<and> (\<forall>j. j \<noteq> i \<longrightarrow> lib_files l' ! j = lib_files l ! j)
         else open_file (join 0x2f (ds @ [f])) l = Some (None, l') \<and> open_files l' = open_files l
     | None \<Rightarrow> open_file (join 0x2f (ds @ [f])) l = Some (None, l') \<and> open_files l' = open_files l)"
proof -
  define l1 where "l1 = l\<lparr>free_files := is, open_files := open_files l @ [i]\<rparr>"
  define l2 where "l2 = upd_file i (set_names (Some (join 0x2f ds)) (Some f)) l1"
  note al = lib_ok_allocate[OF ok slot, folded l1_def]
  have lt: "i < length (lib_files l1)" "i < length (lib_files l)" "i < length (lib_files l2)" using al(3) by (simp_all add: l1_def l2_def)
  have ok2: "lib_ok_but l2 {i}"
    unfolding l2_def by (rule lib_ok_upd[OF al(2) lt(1)]) (simp add: set_names_def lib_ok_but_sector[OF al(2) lt(1)])
  have fs2: "lib_fs l2 = lib_fs l" by (simp add: l2_def l1_def)
  have di: "dir_inv (lib_fs l)" using ok by (simp add: lib_ok_def lib_ok_but_def fs_ready_def)
  have sp: "fatfs_split_path (join 0x2f (ds @ [f])) (int FATFS_MAX_LONG_FILENAME) (int FATFS_MAX_LONG_FILENAME) =
      (0, Some (join 0x2f ds), Some f)" by (rule split_path_join[OF names])
  have nm: "f_path (lib_files l2 ! i) = join 0x2f ds" "f_filename (lib_files l2 ! i) = f"
    using lt by (simp_all add: l2_def upd_file_nth set_names_def)
  have oth: "j \<noteq> i \<Longrightarrow> lib_files l2 ! j = lib_files l ! j" for j by (simp add: l2_def l1_def upd_file_nth)
  have op: "open_files l2 = open_files l @ [i]" "free_files l2 = is" by (simp_all add: l2_def l1_def)
  have no: "\<not> check_file_open i l2"
    unfolding check_file_open_def op nm using new by (auto simp: list_ex_iff oth)
  obtain fs3 where pd: "parent_directory (join 0x2f ds) (lib_fs l) = Some (Some c, fs3)" "dir_inv fs3" "dir_rel (lib_fs l) fs3"
    using parent_directory_spec[OF di _ names(2) dir(1)] names(1) by auto
  define l3 where "l3 = upd_file i (\<lambda>f. f\<lparr>parentcluster := c\<rparr>) (l2\<lparr>lib_fs := fs3\<rparr>)"
  have ok3': "lib_ok_but (l2\<lparr>lib_fs := fs3\<rparr>) {i}" by (rule lib_ok_fs[OF ok2 _ pd(2)]) (simp add: fs2 pd(3))
  have ok3: "lib_ok_but l3 {i}"
    unfolding l3_def by (rule lib_ok_upd[OF ok3']) (use lib_ok_but_sector[OF ok2 lt(3)] lt in simp_all)
  obtain fs4 where g: "fatfs_get_file_entry c f fs3 = Some (found, fs4)" "dir_inv fs4" "dir_rel fs3 fs4"
    using get_file_entry_spec[OF pd(2), of c n f] dir(2,3) by (auto simp: has_sectors_rel[OF pd(3)] dir_contents_rel[OF pd(3)])
  define l4 where "l4 = l3\<lparr>lib_fs := fs4\<rparr>"
  have ok4: "lib_ok_but l4 {i}" unfolding l4_def by (rule lib_ok_fs[OF ok3 _ g(2)]) (simp add: l3_def g(3))
  have lt4: "i < length (lib_files l4)" using lt(3) by (simp add: l4_def l3_def)
  have in4: "i \<in> set (open_files l4)" "open_files l4 = open_files l @ [i]" "free_files l4 = is" by (simp_all add: l4_def l3_def op)
  have ni: "i \<notin> set (open_files l)" using al(2) by (simp add: lib_ok_but_def table_ok_def l1_def)
  have rel: "dir_rel (lib_fs l) (lib_fs l4)" using dir_rel_trans[OF pd(3) g(3)] by (simp add: l4_def)
  have run: "open_file (join 0x2f (ds @ [f])) l =
      (case found of None \<Rightarrow> Some (None, free_file i l4)
       | Some e \<Rightarrow> if fatfs_entry_is_file e then
             let l = upd_file i (file_opened e) l4 in Some (Some i, l\<lparr>lib_fs := snd (fatfs_fat_purge (lib_fs l))\<rparr>)
           else Some (None, free_file i l4))"
    unfolding open_file_def al(1) prod.case option.case sp Let_def l2_def[symmetric]
    using no pd(1) g(1) nm lt(3) by (simp add: fs2 upd_file_nth) (simp only: l4_def l3_def)
  show ?thesis
  proof (cases "\<exists>e. found = Some e \<and> fatfs_entry_is_file e")
    case True
    then obtain e where e: "found = Some e" "fatfs_entry_is_file e" by blast
    have "entry_ok (lib_fs l4) e" using entry[OF e] by (simp only: entry_ok_rel[OF rel])
    define l5 where "l5 = upd_file i (file_opened e) l4"
    note fin = lib_ok_opened[OF ok4 lt4 \<open>entry_ok (lib_fs l4) e\<close>, folded l5_def]
    have r5: "open_file (join 0x2f (ds @ [f])) l = Some (Some i, l5)"
      unfolding run e(1) option.case if_P[OF e(2)] Let_def l5_def[symmetric] using fin by (simp only:)
    have "lib_files l5 ! j = lib_files l ! j" if "j \<noteq> i" for j
      using that oth by (simp add: upd_file_nth l5_def l4_def l3_def)
    moreover have "open_files l5 = open_files l @ [i]" "free_files l5 = is" "lib_fs l5 = lib_fs l4"
      by (simp_all add: l5_def in4)
    ultimately show ?thesis
      unfolding e(1) option.case if_P[OF e(2)] using fin r5 rel by (intro exI[of _ l5]) simp
  next
    case False
    define l5 where "l5 = free_file i l4"
    have "lib_ok l5" unfolding l5_def by (rule lib_ok_free[OF ok4 in4(1)])
    moreover have "open_files l5 = open_files l" using in4(2) ni by (simp add: l5_def free_file_def remove1_append)
    moreover have "open_file (join 0x2f (ds @ [f])) l = Some (None, l5)"
      unfolding run l5_def[symmetric] using False by (cases found) simp_all
    moreover have "lib_fs l5 = lib_fs l4" by (simp add: l5_def free_file_def)
    ultimately show ?thesis
      using rel False by (intro exI[of _ l5]) (cases found, simp_all)
  qed
qed

lemma mode_r: "fold mode_flag (lit ''r'') 0 = FILE_READ"
  by (simp add: lit_def mode_flag_def)

lemma fl_fopen_spec:
  assumes "lib_ok l" "free_files l = i # is" "\<forall>d \<in> set (ds @ [f]). name_ok d"
    "int (length (join 0x2f ds)) < int FATFS_MAX_LONG_FILENAME" "int (length f) < int FATFS_MAX_LONG_FILENAME"
    "resolves (lib_fs l) ds (fatfs_get_root_cluster (lib_fs l)) c" "has_sectors (lib_fs l) c n"
    "found = List.find (entry_named f) (dir_contents (lib_fs l) c n)"
    "\<And>e. found = Some e \<Longrightarrow> fatfs_entry_is_file e \<Longrightarrow> entry_ok (lib_fs l) e"
    "\<forall>j \<in> set (open_files l). \<not> (fatfs_compare_names (f_path (lib_files l ! j)) (join 0x2f ds) \<and>
      fatfs_compare_names (f_filename (lib_files l ! j)) f)"
  shows "\<exists>r l'. fl_fopen (join 0x2f (ds @ [f])) (lit ''r'') l = Some (r, l') \<and> lib_ok l' \<and> dir_rel (lib_fs l) (lib_fs l') \<and>
    (r = Some i \<and> (\<exists>e. found = Some e \<and> fatfs_entry_is_file e \<and> opened_as e (lib_files l' ! i)) \<and>
       f_flags (lib_files l' ! i) = FILE_READ \<and> open_files l' = open_files l @ [i] \<and>
       (\<forall>j. j \<noteq> i \<longrightarrow> lib_files l' ! j = lib_files l ! j) \<or>
     r = None \<and> \<not> (\<exists>e. found = Some e \<and> fatfs_entry_is_file e) \<and> open_files l' = open_files l)"
proof -
  have v: "CHECK_FL_INIT l = l" "filelib_valid l" using assms(1) init_ok[of l "{}"] by (simp_all add: lib_ok_def lib_ok_but_def)
  have flags: "FILE_READ AND NOT (FILE_CREATE OR FILE_WRITE OR FILE_APPEND) = FILE_READ" "FILE_READ \<noteq> 0"
    by (simp_all add: file_flags)
  have run: "fl_fopen (join 0x2f (ds @ [f])) (lit ''r'') l =
      map_option (\<lambda>(file, l). case file of None \<Rightarrow> (None, l) | Some i \<Rightarrow> (Some i, upd_file i (\<lambda>f. f\<lparr>f_flags := FILE_READ\<rparr>) l))
        (open_file (join 0x2f (ds @ [f])) l)"
    unfolding fl_fopen_def v(1) mode_r Let_def using v(2) flags
    by (cases "open_file (join 0x2f (ds @ [f])) l") (simp_all add: FATFS_INC_WRITE_SUPPORT_def file_flags split: option.split prod.split)
  obtain l1 where l1: "lib_ok l1" "dir_rel (lib_fs l) (lib_fs l1)"
    "case found of
       Some e \<Rightarrow> if fatfs_entry_is_file e
         then open_file (join 0x2f (ds @ [f])) l = Some (Some i, l1) \<and> open_files l1 = open_files l @ [i] \<and> free_files l1 = is \<and>
           opened_as e (lib_files l1 ! i) \<and> (\<forall>j. j \<noteq> i \<longrightarrow> lib_files l1 ! j = lib_files l ! j)
         else open_file (join 0x2f (ds @ [f])) l = Some (None, l1) \<and> open_files l1 = open_files l
     | None \<Rightarrow> open_file (join 0x2f (ds @ [f])) l = Some (None, l1) \<and> open_files l1 = open_files l"
    using open_file_spec[OF assms] by blast
  show ?thesis
  proof (cases "\<exists>e. found = Some e \<and> fatfs_entry_is_file e")
    case True
    then obtain e where e: "found = Some e" "fatfs_entry_is_file e" by blast
    note o = l1(3)[unfolded e(1) option.case if_P[OF e(2)]]
    define l2 where "l2 = upd_file i (\<lambda>f. f\<lparr>f_flags := FILE_READ\<rparr>) l1"
    have ok: "lib_ok_but l1 {i}" by (rule lib_ok_butI[OF l1(1)])
    have lt: "i < length (lib_files l1)" using open_slot[of l1 i] ok o by (simp add: lib_ok_but_def)
    have rd: "file_ready (lib_fs l1) (lib_files l1 ! i)" using l1(1) o by (simp add: lib_ok_def lib_ok_but_def)
    have at: "lib_files l2 ! i = (lib_files l1 ! i)\<lparr>f_flags := FILE_READ\<rparr>" using lt by (simp add: l2_def upd_file_nth)
    have oth: "lib_files l2 ! j = lib_files l1 ! j" if "j \<noteq> i" for j using that by (simp add: l2_def upd_file_nth)
    have "lib_ok_but l2 {i}" unfolding l2_def by (rule lib_ok_upd[OF ok lt]) (simp add: lib_ok_but_sector[OF ok lt])
    moreover have l2: "lib_fs l2 = lib_fs l1" "open_files l2 = open_files l1" by (simp_all add: l2_def)
    moreover have "file_ready (lib_fs l2) (lib_files l2 ! i)"
      unfolding at l2 using rd by (simp add: file_ready_def file_inv_def)
    ultimately have "lib_ok l2" using lib_ok_done[of l2 i] by blast
    moreover have "fl_fopen (join 0x2f (ds @ [f])) (lit ''r'') l = Some (Some i, l2)" using run o by (simp add: l2_def)
    ultimately show ?thesis
      using o e l1(2) l2 at oth by (intro exI[of _ "Some i"] exI[of _ l2]) (simp add: opened_as_def)
  next
    case False
    then have o: "open_file (join 0x2f (ds @ [f])) l = Some (None, l1) \<and> open_files l1 = open_files l"
      using l1(3) by (cases found) simp_all
    then show ?thesis using run l1(1,2) False by (intro exI[of _ None] exI[of _ l1]) simp
  qed
qed

text \<open>
  C9: Opening. With a free slot and no open file of the same path, \<^verbatim>\<open>fl_fopen\<close> of a path for reading returns;
  it gives the first free slot exactly when the path leads, through the first entry of each name, to an
  entry that the library takes for a file. The slot then has the entry's first cluster and size and stands at
  its start; the other files are untouched, and the library is fit for reading.
\<close>
theorem fl_fopen_correct:
  assumes "lib_ok l" "free_files l = i # is" "\<forall>d \<in> set (ds @ [f]). name_ok d"
    "int (length (join 0x2f ds)) < int FATFS_MAX_LONG_FILENAME" "int (length f) < int FATFS_MAX_LONG_FILENAME"
    "resolves (lib_fs l) ds (fatfs_get_root_cluster (lib_fs l)) c" "has_sectors (lib_fs l) c n"
    "found = List.find (entry_named f) (dir_contents (lib_fs l) c n)"
    "\<And>e. found = Some e \<Longrightarrow> fatfs_entry_is_file e \<Longrightarrow> entry_ok (lib_fs l) e"
    "\<forall>j \<in> set (open_files l). \<not> (fatfs_compare_names (f_path (lib_files l ! j)) (join 0x2f ds) \<and>
      fatfs_compare_names (f_filename (lib_files l ! j)) f)"
  shows "\<exists>r l'. fl_fopen (join 0x2f (ds @ [f])) (lit ''r'') l = Some (r, l') \<and> lib_ok l' \<and> dir_rel (lib_fs l) (lib_fs l') \<and>
    (r = Some i \<and> (\<exists>e. found = Some e \<and> fatfs_entry_is_file e \<and> opened_as e (lib_files l' ! i)) \<and>
       f_flags (lib_files l' ! i) = FILE_READ \<and> open_files l' = open_files l @ [i] \<and>
       (\<forall>j. j \<noteq> i \<longrightarrow> lib_files l' ! j = lib_files l ! j) \<or>
     r = None \<and> \<not> (\<exists>e. found = Some e \<and> fatfs_entry_is_file e) \<and> open_files l' = open_files l)"
  by (rule fl_fopen_spec[OF assms])

lemma fl_fclose_spec:
  assumes "lib_ok l" "i \<in> set (open_files l)"
  shows "lib_ok (fl_fclose (Some i) l) \<and> open_files (fl_fclose (Some i) l) = remove1 i (open_files l) \<and>
    free_files (fl_fclose (Some i) l) = free_files l @ [i] \<and> lib_fs (fl_fclose (Some i) l) = lib_fs l \<and>
    (\<forall>j. j \<noteq> i \<longrightarrow> lib_files (fl_fclose (Some i) l) ! j = lib_files l ! j)"
proof -
  let ?f = "\<lambda>f. f\<lparr>bytenum := 0, filelength := 0, startcluster := 0, file_data_address := 0xFFFFFFFF,
                   file_data_dirty := False, filelength_changed := False\<rparr>"
  have ok: "lib_ok_but l {i}" by (rule lib_ok_butI[OF assms(1)])
  have lt: "i < length (lib_files l)" using open_slot[of l i] ok assms(2) by (simp add: lib_ok_but_def)
  have "lib_ok_but (upd_file i ?f l) {i}" by (rule lib_ok_upd[OF ok lt]) (simp add: lib_ok_but_sector[OF ok lt])
  then have fr: "lib_ok (free_file i (upd_file i ?f l))" by (rule lib_ok_free) (simp add: assms(2))
  have f: "lib_fs (free_file i (upd_file i ?f l)) = lib_fs l" by (simp add: free_file_def)
  have "ro_inv (lib_fs l)" using ok by (simp add: lib_ok_but_def fs_ready_def dir_inv_def)
  then have "fl_fclose (Some i) l = (free_file i (upd_file i ?f l))\<lparr>lib_fs := lib_fs l\<rparr>"
    by (simp add: fl_fclose_def init_ok[OF ok] f purge_ro Let_def)
  also have "\<dots> = free_file i (upd_file i ?f l)" by (simp add: free_file_def)
  finally show ?thesis using fr f by (simp add: free_file_def upd_file_nth)
qed

text \<open>
  Closing. \<^verbatim>\<open>fl_fclose\<close> gives the slot back, as the last of the free ones, and leaves the other files as they are.
\<close>
theorem fl_fclose_correct:
  assumes "lib_ok l" "i \<in> set (open_files l)"
  shows "lib_ok (fl_fclose (Some i) l) \<and> open_files (fl_fclose (Some i) l) = remove1 i (open_files l) \<and>
    free_files (fl_fclose (Some i) l) = free_files l @ [i] \<and> lib_fs (fl_fclose (Some i) l) = lib_fs l \<and>
    (\<forall>j. j \<noteq> i \<longrightarrow> lib_files (fl_fclose (Some i) l) ! j = lib_files l ! j)"
  by (rule fl_fclose_spec[OF assms])

section \<open>On the example\<close>

lemma ex_bytes:
  assumes "ex_like fs"
  shows "entry_ok fs ex_file" "file_byte fs 2 512 = 0xde" "file_byte fs 2 513 = 0xad"
proof -
  have f: "sectors_per_cluster fs = 1" "fat_type fs = FAT_TYPE_16" "cluster_begin_lba fs = 2" "root_entry_count fs = 16"
    using assms by (simp_all add: ex_like_def)
  have c: "chain_cluster fs 2 0 = 2" "chain_cluster fs 2 1 = 3" by (simp_all add: chain_cluster_def f ex_next[OF assms])
  have "chain_cluster fs 2 k \<noteq> FAT32_LAST_CLUSTER" if "k * 512 < 768" for k
  proof -
    have "k = 0 \<or> k = 1" using that by auto
    then show ?thesis using c by (auto simp: FAT32_LAST_CLUSTER_def)
  qed
  then show "entry_ok fs ex_file" by (simp add: entry_ok_def ex_file_fields chain_covers_def f)
  have "fatfs_lba_of_cluster fs 3 = 4" by (simp add: fatfs_lba_of_cluster_def f)
  then have "file_sector fs 2 1 = ex_data" unfolding file_sector_def c(2) using ex_read(3)[OF assms] by (simp add: disk_sector_def f)
  then show "file_byte fs 2 512 = 0xde" "file_byte fs 2 513 = 0xad" by (simp_all add: file_byte_def ex_data_def)
qed

text \<open>The library with no file open, and with \<^verbatim>\<open>VENEER.EXE\<close> open at its second sector.\<close>

definition ex_lib :: "'d fatfs \<Rightarrow> 'd filelib" where
  "ex_lib fs = \<lparr>lib_files = [FL_FILE_zero], filelib_init = True, filelib_valid = True, lib_fs = fs, open_files = [], free_files = [0]\<rparr>"

definition ex_opened :: FL_FILE where
  "ex_opened = (file_opened ex_file FL_FILE_zero)\<lparr>f_flags := FILE_READ, bytenum := 0x200\<rparr>"

definition ex_lib_open :: "'d fatfs \<Rightarrow> 'd filelib" where
  "ex_lib_open fs = (ex_lib fs)\<lparr>lib_files := [ex_opened], open_files := [0], free_files := []\<rparr>"

lemma FL_FILE_zero_sector [simp]: "length (file_data_sector FL_FILE_zero) = 512"
  by (simp add: FL_FILE_zero_def FAT_SECTOR_SIZE_n_def)

lemma ex_opened_fields [simp]:
  "filelength ex_opened = 0x300" "startcluster ex_opened = 2" "bytenum ex_opened = 0x200" "f_flags ex_opened = FILE_READ"
  "length (file_data_sector ex_opened) = 512"
  by (simp_all add: ex_opened_def file_opened_def fatfs_cache_init_def ex_file_fields)

lemma ex_lib_ok:
  assumes "fs_ready fs"
  shows "lib_ok (ex_lib fs)" "ex_like fs \<Longrightarrow> lib_ok (ex_lib_open fs)"
proof -
  show "lib_ok (ex_lib fs)"
    using assms by (simp add: lib_ok_def lib_ok_but_def table_ok_def ex_lib_def FATFS_MAX_OPEN_FILES_def lessThan_Suc)
  assume e: "ex_like fs"
  have "file_ready fs (file_opened ex_file FL_FILE_zero)" using file_opened_ready[OF ex_bytes(1)[OF e]] by simp
  then have "file_ready fs ex_opened" by (simp add: ex_opened_def file_ready_def file_inv_def)
  then show "lib_ok (ex_lib_open fs)"
    using assms by (simp add: lib_ok_def lib_ok_but_def table_ok_def ex_lib_open_def ex_lib_def FATFS_MAX_OPEN_FILES_def lessThan_Suc)
qed

lemma ex_fs_ready: "fs_ready (ex_fs False)"
proof -
  have "disk_read (ex_fs False) s n = (True, concat (map (\<lambda>i. disk_sector (ex_fs False) (s + of_nat i)) [0..<unat n]) @ [])" for s n
    by (simp add: disk_sector_def disk_read_def ex_fs_def ex_with_def list_read_def)
  then have "multi_read (ex_fs False)" unfolding multi_read_def by (metis le0 list.size(3))
  then show ?thesis by (simp add: fs_ready_def ex_dir_inv)
qed

lemma ex_lib_simps [simp]:
  "open_files (ex_lib_open fs) = [0]" "lib_files (ex_lib_open fs) = [ex_opened]" "lib_fs (ex_lib_open fs) = fs"
  "open_files (ex_lib fs) = []" "free_files (ex_lib fs) = [0]" "lib_fs (ex_lib fs) = fs"
  by (simp_all add: ex_lib_open_def ex_lib_def)

lemma ex_file_bytes: "ex_like fs \<Longrightarrow> take 2 (drop 512 (file_bytes fs ex_opened)) = [0xde, 0xad]"
proof -
  assume e: "ex_like fs"
  have "take 2 (drop 512 (file_bytes fs ex_opened)) = map (file_byte fs 2) [512..<514]"
    by (simp add: file_bytes_def take_map drop_map take_upt del: upt_Suc upt_rec_numeral)
  also have "[512..<514::nat] = [512, 513]" by (simp add: upt_rec_numeral)
  finally show ?thesis using ex_bytes[OF e] by simp
qed

theorem fl_fread_correct_witness:
  "\<exists>m out l'. fl_fread False 2 1 (Some 0) (ex_lib_open (ex_fs False)) = (m, out, l') \<and> unat m = 2 \<and> take 2 out = [0xde, 0xad] \<and> lib_ok l'"
proof -
  let ?l = "ex_lib_open (ex_fs False)"
  obtain m out l' where r: "fl_fread False 2 1 (Some 0) ?l = (m, out, l')" by (metis prod_cases3)
  have p: "0 \<in> set (open_files ?l)" "ex_opened = lib_files ?l ! 0" "f_flags ex_opened AND FILE_READ \<noteq> 0"
    "bytenum ex_opened < filelength ex_opened" "0 < unat (2 * 1 :: u32)" "unat (2 * 1 :: u32) < 2 ^ 31"
    by (simp_all add: FILE_READ_def)
  from fl_fread_correct[OF ex_lib_ok(2)[OF ex_fs_ready ex_fs_like] p r] ex_file_bytes[OF ex_fs_like[of False]] r
  show ?thesis by auto
qed

theorem fl_fseek_correct_witness:
  "\<exists>l'. fl_fseek (Some 0) 0x1000 SEEK_SET (ex_lib_open (ex_fs False)) = (0, l') \<and> bytenum (lib_files l' ! 0) = 0x300"
proof -
  let ?l = "ex_lib_open (ex_fs False)"
  obtain r l' where r: "fl_fseek (Some 0) 0x1000 SEEK_SET ?l = (r, l')" by fastforce
  have p: "0 \<in> set (open_files ?l)" "ex_opened = lib_files ?l ! 0" "bytenum ex_opened \<le> filelength ex_opened" by simp_all
  from fl_fseek_correct[OF ex_lib_ok(2)[OF ex_fs_ready ex_fs_like] p r] r show ?thesis by (auto simp: SEEK_SET_def SEEK_END_def)
qed

theorem fl_fopen_correct_witness:
  "\<exists>l'. fl_fopen (lit ''/veneer.exe'') (lit ''r'') (ex_lib (ex_fs False)) = Some (Some 0, l') \<and> lib_ok l' \<and>
     startcluster (lib_files l' ! 0) = 2 \<and> filelength (lib_files l' ! 0) = 0x300"
proof -
  let ?l = "ex_lib (ex_fs False)"
  have root: "fatfs_get_root_cluster (ex_fs False) = 0" by (simp add: fatfs_get_root_cluster_def ex_fs_def ex_with_def)
  have path: "join 0x2f ([] @ [lit ''veneer.exe'']) = lit ''/veneer.exe''" by (simp add: lit_def)
  have p: "free_files ?l = 0 # []" "\<forall>d \<in> set ([] @ [lit ''veneer.exe'']). name_ok d"
    "int (length (join 0x2f [])) < int FATFS_MAX_LONG_FILENAME" "int (length (lit ''veneer.exe'')) < int FATFS_MAX_LONG_FILENAME"
    "resolves (lib_fs ?l) [] (fatfs_get_root_cluster (lib_fs ?l)) 0" "has_sectors (lib_fs ?l) 0 1"
    "Some ex_file = List.find (entry_named (lit ''veneer.exe'')) (dir_contents (lib_fs ?l) 0 1)"
    using ex_sector_addr(3)[OF ex_fs_like[of False]] ex_find[OF ex_fs_like[of False]]
    by (simp_all add: lit_def name_ok_def FATFS_MAX_LONG_FILENAME_def root)
  have e: "Some ex_file = Some e \<Longrightarrow> fatfs_entry_is_file e \<Longrightarrow> entry_ok (lib_fs ?l) e" for e
    using ex_bytes(1)[OF ex_fs_like[of False]] by simp
  show ?thesis
    using fl_fopen_correct[OF ex_lib_ok(1)[OF ex_fs_ready] p e] ex_file_fields unfolding path by (auto simp: opened_as_def)
qed

theorem fl_fclose_correct_witness: "free_files (fl_fclose (Some 0) (ex_lib_open (ex_fs False))) = [0]"
  using fl_fclose_correct[OF ex_lib_ok(2)[OF ex_fs_ready ex_fs_like], of 0] by (simp add: ex_lib_open_def)

end
