(* ===== verification/Rom_File.thy ===== *)
theory Rom_File
  imports Rom_Call_Correct Fat_Filelib_Correct
begin

text \<open>
  The firmware on top of the file library: \<^verbatim>\<open>guest_disk_read\<close> is a medium in the library's sense, and what the
  guest reads through the firmware are the bytes of the file on the disk image.
\<close>

section \<open>The medium\<close>

definition image_sector :: "u64 \<Rightarrow> mem \<Rightarrow> u32 \<Rightarrow> u8 list" where
  "image_sector disk m s = bytes m (disk + ucast (s * FAT_SECTOR_SIZE)) 512"

lemma fat_sector_size: "unat FAT_SECTOR_SIZE = 512"
  by (simp add: FAT_SECTOR_SIZE_def)

lemma take_bytes_prefix: "n \<le> k \<Longrightarrow> take n (bytes m a k) = bytes m a n"
  by (simp add: bytes_def take_map take_upt)

lemma guest_media_loop_length:
  "unat (c * FAT_SECTOR_SIZE) = 512 * k \<Longrightarrow> 0 < k \<Longrightarrow> length out = (if pos = 0 then 0 else pos - 512 + 512 * k) \<Longrightarrow>
   0 < i \<Longrightarrow> length (guest_media_loop i disk s pos c m out) = pos + 512 * i - 512 + 512 * k"
proof (induction i arbitrary: s pos out)
  case (Suc i)
  let ?out = "put_at pos (bytes m (disk + ucast (s * FAT_SECTOR_SIZE)) (unat (c * FAT_SECTOR_SIZE))) out"
  have "length ?out = pos + 512 * k" using Suc.prems(1-3) by (auto simp: put_at_def overlay_def bytes_def split: if_splits)
  then show ?case using Suc.IH[where pos = "pos + 512" and out = ?out and s = "s + 1"] Suc.prems(1,2) by (cases "i = 0") (auto simp: fat_sector_size)
qed simp

lemma guest_media_loop_take:
  assumes "512 \<le> unat (c * FAT_SECTOR_SIZE)"
  shows "pos \<le> length out \<Longrightarrow> take (pos + 512 * i) (guest_media_loop i disk s pos c m out) =
    take pos out @ concat (map (\<lambda>j. image_sector disk m (s + of_nat j)) [0..<i])"
proof (induction i arbitrary: s pos out)
  case (Suc i)
  let ?b = "bytes m (disk + ucast (s * FAT_SECTOR_SIZE)) (unat (c * FAT_SECTOR_SIZE))"
  let ?out = "put_at pos ?b out"
  have "length ?b \<ge> 512" using assms by (simp add: bytes_def)
  then have len: "pos + 512 \<le> length ?out" using Suc.prems by (simp add: put_at_def overlay_def)
  have "take 512 ?b = image_sector disk m s" using assms by (simp add: image_sector_def take_bytes_prefix)
  then have tk: "take (pos + 512) ?out = take pos out @ image_sector disk m s"
    by (rule take_put_at[OF Suc.prems]) (simp add: image_sector_def bytes_def)
  have "map (\<lambda>j. image_sector disk m (s + of_nat j)) [0..<Suc i] =
      image_sector disk m s # map (\<lambda>j. image_sector disk m (s + 1 + of_nat j)) [0..<i]"
    by (simp add: map_upt_Suc add.commute add.left_commute del: upt_Suc)
  then show ?case using Suc.IH[where s = "s + 1", OF len] tk by (simp add: fat_sector_size add.assoc)
qed simp

text \<open>A read of \<open>n\<close> sectors is these sectors and, behind them, \<open>n - 1\<close> more.\<close>

lemma guest_media_sectors:
  assumes "0 < n" "n \<le> 255"
  shows "\<exists>rest. guest_media disk m s n = (True, concat (map (\<lambda>j. image_sector disk m (s + of_nat j)) [0..<unat n]) @ rest) \<and>
    length rest = 512 * (unat n - 1)"
proof -
  have n: "0 < unat n" "unat n \<le> 255" using assms by (simp_all add: word_less_nat_alt word_le_nat_alt)
  have c: "unat (n * FAT_SECTOR_SIZE) = 512 * unat n" using n by (simp add: unat_word_ariths FAT_SECTOR_SIZE_def)
  let ?out = "guest_media_loop (unat n) disk s 0 n m []"
  have tk: "take (512 * unat n) ?out = concat (map (\<lambda>j. image_sector disk m (s + of_nat j)) [0..<unat n])"
    using guest_media_loop_take[of n 0 "[]" "unat n" disk s m] c n by simp
  have "length ?out = 512 * unat n - 512 + 512 * unat n"
    using guest_media_loop_length[OF c n(1), of "[]" 0 "unat n" disk s m] n by simp
  then have "length (drop (512 * unat n) ?out) = 512 * (unat n - 1)" by (simp add: diff_mult_distrib2)
  then show ?thesis
    unfolding guest_media_def tk[symmetric] by (intro exI[of _ "drop (512 * unat n) ?out"]) simp
qed

lemma guest_media_1: "guest_media disk m s 1 = (True, image_sector disk m s)"
  using guest_media_sectors[of 1 disk m s] by auto

lemma length_image_sector [simp]: "length (image_sector disk m s) = 512"
  by (simp add: image_sector_def)

lemma guest_media_ok: "media_ok \<lparr>read_media = Some (guest_media disk), write_media = None\<rparr>"
  by (simp add: media_ok_def guest_media_1)

text \<open>On the image every read succeeds, and reading several sectors is lawful for the library.\<close>

definition on_image :: "u64 \<Rightarrow> mem fatfs \<Rightarrow> bool" where
  "on_image disk fs \<longleftrightarrow> disk_io fs = \<lparr>read_media = Some (guest_media disk), write_media = None\<rparr>"

lemma on_image_reads:
  assumes "on_image disk fs"
  shows "disk_read fs s n = guest_media disk (media fs) s n" "disk_sector fs s = image_sector disk (media fs) s" "multi_read fs"
proof -
  show r: "disk_read fs s n = guest_media disk (media fs) s n" for s n using assms by (simp add: disk_read_def on_image_def)
  show d: "disk_sector fs s = image_sector disk (media fs) s" for s by (simp add: disk_sector_def r guest_media_1)
  show "multi_read fs" unfolding multi_read_def r d using guest_media_sectors by (metis le_refl)
qed

lemma put_bytes: "p \<le> l \<Longrightarrow> l \<le> p + k \<Longrightarrow> put_at p (bytes m (d + of_nat p) k) (bytes m d l) = bytes m d (p + k)"
  by (simp add: put_at_def overlay_def take_bytes_prefix bytes_append)

lemma guest_media_loop_image:
  assumes "unat (n * FAT_SECTOR_SIZE) = 512 * c" "0 < c"
  shows "(unat s + i) * 512 < 2 ^ 32 \<Longrightarrow> d + of_nat pos = disk + ucast (s * FAT_SECTOR_SIZE) \<Longrightarrow> pos \<le> l \<Longrightarrow> l \<le> pos + 512 * c \<Longrightarrow>
    guest_media_loop i disk s pos n m (bytes m d l) = bytes m d (if i = 0 then l else pos + 512 * (i - 1 + c))"
proof (induction i arbitrary: s pos l)
  case (Suc i)
  have st: "put_at pos (bytes m (disk + ucast (s * FAT_SECTOR_SIZE)) (512 * c)) (bytes m d l) = bytes m d (pos + 512 * c)"
    using put_bytes[of pos l "512 * c" m d] Suc.prems by simp
  show ?case
  proof (cases "i = 0")
    case True
    then show ?thesis by (simp add: assms(1) st)
  next
    case False
    have "d + of_nat (pos + 512) = disk + ucast ((s + 1) * FAT_SECTOR_SIZE)"
      using sector_offset[of s] Suc.prems(1,2) False by (simp add: add.assoc[symmetric])
    moreover have "unat (s + 1) = unat s + 1" using Suc.prems(1) by (simp add: unat_word_ariths)
    ultimately have "guest_media_loop i disk (s + 1) (pos + 512) n m (bytes m d (pos + 512 * c)) =
        bytes m d (pos + 512 + 512 * (i - 1 + c))"
      using Suc.IH[of "s + 1" "pos + 512" "pos + 512 * c"] Suc.prems(1) False assms(2) by simp
    moreover have "pos + 512 + 512 * (i - 1 + c) = pos + 512 * (i + c)" using False by simp
    ultimately have "guest_media_loop i disk (s + 1) (pos + 512) n m (bytes m d (pos + 512 * c)) = bytes m d (pos + 512 * (i + c))"
      by (simp only:)
    then show ?thesis by (simp add: assms(1) st fat_sector_size)
  qed
qed simp



section \<open>Files of the guest\<close>

lemma rom_read_steps:
  assumes "lib_ok (hv_lib h)" "i \<in> set (open_files (hv_fs h))" "f = lib_files (hv_fs h) ! i" "f_flags f AND FILE_READ \<noteq> 0"
    "bytenum f < filelength f" "0 < unat len" "unat len < 2 ^ 31" "buf \<noteq> 0" "hv_fread buf len (Some i) h = (n, h')"
  shows "unat n = min (unat len) (unat (filelength f) - unat (bytenum f)) \<and>
    bytes (hv_mem h') buf (unat n) = take (unat n) (drop (unat (bytenum f)) (file_bytes (lib_fs (hv_lib h)) f)) \<and>
    (\<forall>a. unat n + 130048 \<le> unat (a - buf) \<longrightarrow> hv_mem h' a = hv_mem h a) \<and>
    bytenum (lib_files (hv_fs h') ! i) = bytenum f + n \<and> open_files (hv_fs h') = open_files (hv_fs h) \<and> lib_ok (hv_fs h') \<and>
    (\<exists>l m. h' = h\<lparr>hv_fs := l, hv_mem := m\<rparr>)"
proof -
  have l: "lib_files (hv_lib h) = lib_files (hv_fs h)" "open_files (hv_lib h) = open_files (hv_fs h)" by (simp_all add: hv_lib_def)
  obtain m bs l' where r: "fl_fread False len 1 (Some i) (hv_lib h) = (m, bs, l')" by (metis prod_cases3)
  have h': "n = m" "h' = h\<lparr>hv_fs := l', hv_mem := store_bytes buf bs (hv_mem h)\<rparr>"
    using assms(8,9) r by (simp_all add: hv_fread_def)
  have "f = lib_files (hv_lib h) ! i" "i \<in> set (open_files (hv_lib h))" using assms(2,3) l by simp_all
  note sp = fl_fread_spec[OF assms(1) this(2,1) assms(4,5) _ _ r, unfolded mult_1_right, OF assms(6,7)]
  have lt: "unat m < 2 ^ 31" using sp assms(7) by simp
  then have big: "length bs < 2 ^ 64" using sp by (auto intro: le_less_trans)
  have lm: "unat m \<le> length bs"
  proof -
    have "unat m \<le> length (take (unat m) (drop (unat (bytenum f)) (file_bytes (lib_fs (hv_lib h)) f)))"
      using sp assms(5) by (simp add: file_bytes_def word_less_nat_alt)
    then show ?thesis using sp by (metis length_take min.bounded_iff)
  qed
  have "bytes (hv_mem h') buf (unat m) = take (unat m) bs"
  proof (rule nth_equalityI)
    fix k assume "k < length (bytes (hv_mem h') buf (unat m))"
    then have k: "k < unat m" "unat (of_nat k :: u64) = k" using lt by (simp_all add: unat_of_nat)
    then show "bytes (hv_mem h') buf (unat m) ! k = take (unat m) bs ! k"
      using lm by (simp add: h' bytes_def store_bytes_at[OF big])
  qed (use lm in simp)
  moreover have "hv_mem h' a = hv_mem h a" if "unat m + 130048 \<le> unat (a - buf)" for a
    using that sp by (simp add: h' store_bytes_at[OF big])
  ultimately show ?thesis using sp l h' by auto
qed

text \<open>
  C7: Reading a file through the firmware. When the guest has a file open and calls \<^verbatim>\<open>read\<close>, its buffer receives
  the bytes of the file on the disk image from the position on, the call answers with their number, and
  no memory further than 254 sectors behind them changes.
\<close>
theorem rom_read_file:
  assumes "lib_ok (hv_lib h)" "cur_file (hv_rom h) = Some i" "i \<in> set (open_files (hv_fs h))" "f = lib_files (hv_fs h) ! i"
    "f_flags f AND FILE_READ \<noteq> 0" "bytenum f < filelength f" "cell cia 3 h = 0xffffffff" "gptr cia 4 h \<noteq> 0"
    "0 < unat (cell cia 5 h)" "unat (cell cia 5 h) < 2 ^ 31"
  shows "\<exists>n h'. rom_read cia h = Inr (0, put_cell cia 6 n h') \<and>
    unat n = min (unat (cell cia 5 h)) (unat (filelength f) - unat (bytenum f)) \<and>
    bytes (hv_mem h') (gptr cia 4 h) (unat n) = take (unat n) (drop (unat (bytenum f)) (file_bytes (lib_fs (hv_lib h)) f)) \<and>
    (\<forall>a. unat n + 130048 \<le> unat (a - gptr cia 4 h) \<longrightarrow> hv_mem h' a = hv_mem h a) \<and>
    bytenum (lib_files (hv_fs h') ! i) = bytenum f + n"
proof -
  obtain n h' where r: "hv_fread (gptr cia 4 h) (cell cia 5 h) (Some i) h = (n, h')" by fastforce
  note sp = rom_read_steps[OF assms(1,3,4,5,6,9,10,8) r]
  have "rom_read cia h = Inr (0, put_cell cia 6 n h')" using assms(2,7) r by (simp add: rom_read_def Let_def)
  then show ?thesis using sp by blast
qed

lemma dir_rel_media: "dir_rel fs fs' \<Longrightarrow> media fs' = media fs"
  unfolding dir_rel_def by (cases fs, cases fs') simp

lemma hv_lib_media [simp]: "media (lib_fs (hv_lib h)) = hv_mem h"
  by (simp add: hv_lib_def)

lemma hv_lib_set: "media (lib_fs l) = hv_mem h \<Longrightarrow> hv_lib (h\<lparr>hv_fs := l\<rparr>) = l"
  by (simp add: hv_lib_def)

lemma hv_seek_steps:
  assumes "lib_ok l" "media (lib_fs l) = hv_mem h" "i \<in> set (open_files l)" "bytenum (lib_files l ! i) \<le> filelength (lib_files l ! i)"
    "fl_fseek (Some i) offset origin l = (r, l')"
  shows "hv_fseek (Some i) offset origin (h\<lparr>hv_fs := l\<rparr>) = (r, h\<lparr>hv_fs := l'\<rparr>)" "media (lib_fs l') = hv_mem h"
  using assms fl_fseek_spec[OF assms(1,3) refl assms(4,5)] by (simp_all add: hv_fseek_def hv_lib_set)

lemma rom_claim_fs:
  "rom_claim mm a s 0 h = Inr (out, hc) \<Longrightarrow> rom_claim mm a s 0 (h\<lparr>hv_fs := l\<rparr>) = Inr (out, hc\<lparr>hv_fs := l\<rparr>) \<and>
    hv_mem hc = hv_mem h"
  by (auto simp: rom_claim_def outcome_simps)

text \<open>The file opened, measured and set to its offset 0x200: the library then, and the state around it.\<close>

lemma veneer_opened:
  assumes "lib_ok (hv_lib h)" "free_files (hv_fs h) = i # is" "open_files (hv_fs h) = []"
    "has_sectors (lib_fs (hv_lib h)) (fatfs_get_root_cluster (lib_fs (hv_lib h))) n"
    "List.find (entry_named (lit ''veneer.exe'')) (dir_contents (lib_fs (hv_lib h)) (fatfs_get_root_cluster (lib_fs (hv_lib h))) n) = Some e"
    "fatfs_entry_is_file e" "entry_ok (lib_fs (hv_lib h)) e" "0x200 < FileSize e"
  shows "\<exists>l1 l2 l3. hv_fopen (lit ''/veneer.exe'') h = Inr (Some i, h\<lparr>hv_fs := l1\<rparr>) \<and>
    hv_fseek (Some i) 0 SEEK_END (h\<lparr>hv_fs := l1\<rparr>) = (0, h\<lparr>hv_fs := l2\<rparr>) \<and>
    fl_ftell (Some i) (hv_lib (h\<lparr>hv_fs := l2\<rparr>)) = ucast (FileSize e) \<and>
    hv_fseek (Some i) 0x200 SEEK_SET (h\<lparr>hv_fs := l2\<rparr>) = (0, h\<lparr>hv_fs := l3\<rparr>) \<and>
    lib_ok l3 \<and> media (lib_fs l3) = hv_mem h \<and> dir_rel (lib_fs (hv_lib h)) (lib_fs l3) \<and> open_files l3 = [i] \<and>
    bytenum (lib_files l3 ! i) = 0x200 \<and> filelength (lib_files l3 ! i) = FileSize e \<and>
    startcluster (lib_files l3 ! i) = entry_cluster e \<and> f_flags (lib_files l3 ! i) = FILE_READ"
proof -
  have path: "lit ''/veneer.exe'' = join 0x2f ([] @ [lit ''veneer.exe''])" by (simp add: lit_def)
  have nm: "\<forall>d \<in> set ([] @ [lit ''veneer.exe'']). name_ok d" "int (length (join 0x2f [])) < int FATFS_MAX_LONG_FILENAME"
    "int (length (lit ''veneer.exe'')) < int FATFS_MAX_LONG_FILENAME"
    by (simp_all add: lit_def name_ok_def FATFS_MAX_LONG_FILENAME_def)
  have ff: "free_files (hv_lib h) = i # is" "open_files (hv_lib h) = []" using assms(2,3) by (simp_all add: hv_lib_def)
  obtain r l1 where o: "fl_fopen (lit ''/veneer.exe'') (lit ''r'') (hv_lib h) = Some (r, l1)" "lib_ok l1"
      "dir_rel (lib_fs (hv_lib h)) (lib_fs l1)" "r = Some i" "opened_as e (lib_files l1 ! i)" "f_flags (lib_files l1 ! i) = FILE_READ"
      "open_files l1 = [i]"
    using fl_fopen_spec[OF assms(1) ff(1) nm, of "fatfs_get_root_cluster (lib_fs (hv_lib h))" n "Some e"] assms(4-7)
    unfolding path ff(2) by auto
  have m1: "media (lib_fs l1) = hv_mem h" using dir_rel_media[OF o(3)] by simp
  have i1: "i \<in> set (open_files l1)" using o(7) by simp
  have b1: "bytenum (lib_files l1 ! i) \<le> filelength (lib_files l1 ! i)" using o(5) by (simp add: opened_as_def)
  obtain r2 l2 where s2: "fl_fseek (Some i) 0 SEEK_END l1 = (r2, l2)" by fastforce
  note sp2 = fl_fseek_spec[OF o(2) i1 refl b1 s2] and h2 = hv_seek_steps[OF o(2) m1 i1 b1 s2]
  have f2: "filelength (lib_files l2 ! i) = FileSize e" "startcluster (lib_files l2 ! i) = entry_cluster e"
    "f_flags (lib_files l2 ! i) = FILE_READ" "bytenum (lib_files l2 ! i) = FileSize e" "r2 = 0"
    using sp2 same_fileD[of "lib_files l1 ! i" "lib_files l2 ! i"] o(5,6) by (auto simp: opened_as_def SEEK_END_def)
  have i2: "i \<in> set (open_files l2)" and ok2: "lib_ok l2" and b2: "bytenum (lib_files l2 ! i) \<le> filelength (lib_files l2 ! i)"
    using sp2 i1 f2 by auto
  obtain r3 l3 where s3: "fl_fseek (Some i) 0x200 SEEK_SET l2 = (r3, l3)" by fastforce
  note sp3 = fl_fseek_spec[OF ok2 i2 refl b2 s3] and h3 = hv_seek_steps[OF ok2 h2(2) i2 b2 s3]
  have f3: "filelength (lib_files l3 ! i) = FileSize e" "startcluster (lib_files l3 ! i) = entry_cluster e"
    "f_flags (lib_files l3 ! i) = FILE_READ" "bytenum (lib_files l3 ! i) = 0x200" "r3 = 0"
    using sp3 same_fileD[of "lib_files l2 ! i" "lib_files l3 ! i"] f2 assms(8) by (auto simp: min_def less_imp_le)
  have "hv_fopen (lit ''/veneer.exe'') h = Inr (Some i, h\<lparr>hv_fs := l1\<rparr>)" using o(1,4) by (simp add: hv_fopen_def returns_def)
  moreover have "fl_ftell (Some i) (hv_lib (h\<lparr>hv_fs := l2\<rparr>)) = ucast (FileSize e)"
    using f2(4) by (simp add: hv_lib_set[OF h2(2)] fl_ftell_def fl_fgetpos_def)
  moreover have "lib_fs l3 = lib_fs l1" "open_files l3 = [i]" using sp2 sp3 o(7) by auto
  ultimately show ?thesis using h2(1) h3 f2(5) f3 sp3 o(3) by (intro exI[of _ l1] exI[of _ l2] exI[of _ l3]) simp
qed

lemma unat_minus_header: "0x200 < v \<Longrightarrow> unat (ucast v - 0x200 :: u64) = unat v - 0x200" for v :: u32
  by (subst unat_sub) (simp_all add: word_le_nat_alt word_less_nat_alt unat_ucast_64)

lemma veneer_length: "0x200 < v \<Longrightarrow> ucast (ucast v - 0x200 :: u64) = v - 0x200" for v :: u32
proof -
  assume v: "0x200 < v"
  have "unat (ucast (ucast v - 0x200 :: u64) :: u32) = (unat v - 0x200) mod 2 ^ 32"
    unfolding unsigned_ucast_eq unat_minus_header[OF v] by (simp add: take_bit_eq_mod)
  then have "unat (ucast (ucast v - 0x200 :: u64) :: u32) = unat v - 0x200" using unat_less_exp[of v] by simp
  then show ?thesis using v by (simp add: word_unat_eq_iff unat_sub word_le_nat_alt word_less_nat_alt)
qed

lemma scast_len: "unat k < 2 ^ 31 \<Longrightarrow> (scast k :: u64) = ucast k" for k :: u32
proof (rule bit_word_eqI)
  fix n assume k: "unat k < 2 ^ 31" and "n < LENGTH(64)"
  then have "\<not> bit k 31" using unat_ge_of_bit[of k 31] by auto
  then show "bit (scast k :: u64) n \<longleftrightarrow> bit (ucast k :: u64) n"
    using \<open>n < LENGTH(64)\<close> by (cases "n < 31"; cases "n = 31") (auto simp: bit_simps min_def dest: bit_imp_le_length)
qed

text \<open>
  C5: Loading the veneer. With \<^verbatim>\<open>/veneer.exe\<close> on the image, larger than its header of 0x200 bytes, and room for it
  in the guest's memory, \<^verbatim>\<open>rom_load_veneer\<close> succeeds, and the guest's memory from 0x50000 on holds the file
  without its header.
\<close>
theorem rom_load_veneer_correct:
  assumes "lib_ok (hv_lib h)" "free_files (hv_fs h) = i # is" "open_files (hv_fs h) = []"
    "has_sectors (lib_fs (hv_lib h)) (fatfs_get_root_cluster (lib_fs (hv_lib h))) n"
    "List.find (entry_named (lit ''veneer.exe'')) (dir_contents (lib_fs (hv_lib h)) (fatfs_get_root_cluster (lib_fs (hv_lib h))) n) = Some e"
    "fatfs_entry_is_file e" "entry_ok (lib_fs (hv_lib h)) e" "0x200 < FileSize e"
    "rom_claim mm 0x50000 (FileSize e - 0x200) 0 h = Inr (out, hc)"
  shows "\<exists>h'. rom_load_veneer mm h = Inr (ERR_NONE, h') \<and>
    bytes (hv_mem h') (LAYOUT_VM_START + 0x50000) (unat (FileSize e) - 0x200) =
      map (file_byte (lib_fs (hv_lib h)) (entry_cluster e)) [0x200..<unat (FileSize e)] \<and>
    guest_mem_avail_ranges (hv_rom h') = guest_mem_avail_ranges (hv_rom hc)"
proof -
  obtain l1 l2 l3 where v: "hv_fopen (lit ''/veneer.exe'') h = Inr (Some i, h\<lparr>hv_fs := l1\<rparr>)"
    "hv_fseek (Some i) 0 SEEK_END (h\<lparr>hv_fs := l1\<rparr>) = (0, h\<lparr>hv_fs := l2\<rparr>)"
    "fl_ftell (Some i) (hv_lib (h\<lparr>hv_fs := l2\<rparr>)) = ucast (FileSize e)"
    "hv_fseek (Some i) 0x200 SEEK_SET (h\<lparr>hv_fs := l2\<rparr>) = (0, h\<lparr>hv_fs := l3\<rparr>)"
    "lib_ok l3" "media (lib_fs l3) = hv_mem h" "dir_rel (lib_fs (hv_lib h)) (lib_fs l3)" "open_files l3 = [i]"
    "bytenum (lib_files l3 ! i) = 0x200" "filelength (lib_files l3 ! i) = FileSize e"
    "startcluster (lib_files l3 ! i) = entry_cluster e" "f_flags (lib_files l3 ! i) = FILE_READ"
    using veneer_opened[OF assms(1-8)] by blast
  let ?len = "FileSize e - 0x200" let ?h3 = "hc\<lparr>hv_fs := l3\<rparr>" let ?buf = "LAYOUT_VM_START + 0x50000"
  note cl = rom_claim_fs[OF assms(9), of l3]
  have lib3: "hv_lib ?h3 = l3" using cl v(6) by (simp add: hv_lib_set)
  have ul: "unat ?len = unat (FileSize e) - 0x200" using assms(8) by (simp add: unat_sub word_le_nat_alt word_less_nat_alt)
  have sz: "unat (FileSize e) < 2 ^ 31" "0x200 < unat (FileSize e)"
    using assms(7,8) by (simp_all add: entry_ok_def word_less_nat_alt)
  obtain k h4 where r: "hv_fread ?buf ?len (Some i) ?h3 = (k, h4)" by fastforce
  have f: "lib_ok (hv_lib ?h3)" "i \<in> set (open_files (hv_fs ?h3))" "f_flags (lib_files (hv_fs ?h3) ! i) AND FILE_READ \<noteq> 0"
    "bytenum (lib_files (hv_fs ?h3) ! i) < filelength (lib_files (hv_fs ?h3) ! i)" "0 < unat ?len" "unat ?len < 2 ^ 31" "?buf \<noteq> 0"
    using v assms(8) ul sz by (simp_all add: lib3 FILE_READ_def LAYOUT_VM_START_def)
  note sp = rom_read_steps[OF f(1,2) refl f(3-7) r]
  have k: "k = ?len" using sp v(9,10) ul by (simp add: word_unat_eq_iff)
  have sk: "scast k = (ucast (FileSize e) - 0x200 :: u64)" 
    using unat_minus_header[OF assms(8)] ul f(6) by (simp add: k scast_len word_unat_eq_iff unat_ucast_64)
  have run: "rom_load_veneer mm h = Inr (ERR_NONE, hv_fclose (Some i) h4)"
    using v(1-4) cl r sk veneer_length[OF assms(8)] by (simp add: rom_load_veneer_def Let_def)
  have "bytes (hv_mem h4) ?buf (unat ?len) = take (unat ?len) (drop 0x200 (file_bytes (lib_fs l3) (lib_files l3 ! i)))"
    using sp v(9) lib3 k by simp
  also have "\<dots> = map (file_byte (lib_fs (hv_lib h)) (entry_cluster e)) [0x200..<unat (FileSize e)]"
    using sz v(10,11) by (simp add: file_bytes_def take_map drop_map ul take_upt dir_rel_bytes(5)[OF v(7)])
  finally have "bytes (hv_mem h4) ?buf (unat ?len) = map (file_byte (lib_fs (hv_lib h)) (entry_cluster e)) [0x200..<unat (FileSize e)]" .
  moreover obtain l m where "h4 = ?h3\<lparr>hv_fs := l, hv_mem := m\<rparr>" using sp by blast
  ultimately show ?thesis using run ul by (intro exI[of _ "hv_fclose (Some i) h4"]) (simp add: hv_fclose_def)
qed

section \<open>On the example\<close>

definition ex_mem :: mem where
  "ex_mem a = (let k = unat (a - 0x200000) in
     if k < 2560 then ex_sectors ! (k div 512) ! (k mod 512)
     else mem_of [(0x10c, [0xff, 0xff, 0xff, 0xff, 0, 3, 0, 0, 2, 0, 0, 0])] a)"

definition ex_rom_fs :: "mem fatfs" where
  "ex_rom_fs = ex_with \<lparr>read_media = Some (guest_media 0x200000), write_media = None\<rparr> ex_mem"

lemma ex_image_sector: "s < 5 \<Longrightarrow> image_sector 0x200000 ex_mem s = ex_sectors ! unat s"
proof (rule nth_equalityI)
  assume "s < 5"
  then have s: "unat s < 5" by (simp add: word_less_nat_alt)
  then show "length (image_sector 0x200000 ex_mem s) = length (ex_sectors ! unat s)" by (simp add: ex_sectors_length)
  fix k assume "k < length (image_sector 0x200000 ex_mem s)"
  then have k: "k < 512" by simp
  have "unat (s * FAT_SECTOR_SIZE) = 512 * unat s" using s by (simp add: unat_word_ariths FAT_SECTOR_SIZE_def)
  then have "unat (ucast (s * FAT_SECTOR_SIZE) + of_nat k :: u64) = 512 * unat s + k"
    using s k by (subst unat_add_no_wrap) (simp_all add: unat_ucast_64 unat_of_nat)
  then have "ex_mem (0x200000 + ucast (s * FAT_SECTOR_SIZE) + of_nat k) = ex_sectors ! unat s ! k"
    using s k by (simp add: ex_mem_def add.assoc Let_def)
  then show "image_sector 0x200000 ex_mem s ! k = ex_sectors ! unat s ! k" using k by (simp add: image_sector_def bytes_def)
qed

lemma ex_rom_like: "ex_like ex_rom_fs" and ex_rom_ready: "fs_ready ex_rom_fs"
proof -
  show "ex_like ex_rom_fs" unfolding ex_rom_fs_def
    by (rule ex_with_like[OF guest_media_ok, where rd = "guest_media 0x200000"]) (simp_all add: guest_media_1 ex_image_sector)
  then have "fat_ok ex_rom_fs" by (rule ex_fat_ok)
  moreover have im: "on_image 0x200000 ex_rom_fs" by (simp add: on_image_def ex_rom_fs_def ex_with_def)
  moreover have "fst (disk_read ex_rom_fs s n)" for s n by (simp add: on_image_reads(1)[OF im] guest_media_def)
  moreover have "cur_ok ex_rom_fs" by (simp add: cur_ok_def ex_rom_fs_def ex_with_def fat_buffer_reset_def FAT_SECTOR_SIZE_n_def)
  moreover have "write_media (disk_io ex_rom_fs) = None" using im by (simp add: on_image_def)
  ultimately show "fs_ready ex_rom_fs" by (simp add: fs_ready_def dir_inv_def ro_invI on_image_reads(3)[OF im])
qed

definition ex_hv :: "mem filelib \<Rightarrow> hv" where
  "ex_hv l = hv_example\<lparr>hv_mem := ex_mem, hv_fs := l, hv_rom := rom_example\<lparr>cur_file := Some 0\<rparr>\<rparr>"

lemma ex_hv_fields [simp]: "hv_mem (ex_hv l) = ex_mem" "hv_fs (ex_hv l) = l" "cur_file (hv_rom (ex_hv l)) = Some 0"
  by (simp_all add: ex_hv_def)

lemma ex_hv_lib: "lib_fs l = ex_rom_fs \<Longrightarrow> hv_lib (ex_hv l) = l"
  by (simp add: hv_lib_def ex_rom_fs_def ex_with_def)

theorem rom_read_file_witness:
  "\<exists>n h'. rom_read 0x100 (ex_hv (ex_lib_open ex_rom_fs)) = Inr (0, put_cell 0x100 6 n h') \<and> unat n = 2 \<and>
     bytes (hv_mem h') 0x300 2 = [0xde, 0xad]"
proof -
  let ?h = "ex_hv (ex_lib_open ex_rom_fs)"
  have lib: "hv_lib ?h = ex_lib_open ex_rom_fs" by (rule ex_hv_lib) simp
  have ok: "lib_ok (hv_lib ?h)" unfolding lib by (rule ex_lib_ok(2)[OF ex_rom_ready ex_rom_like])
  have c: "cell 0x100 3 ?h = 0xffffffff" "gptr 0x100 4 ?h = 0x300" "cell 0x100 5 ?h = 2"
    by (simp_all add: cell_def gptr_def get32_def load32_le_def ex_mem_def mem_of_def Let_def)
  have p: "0 \<in> set (open_files (hv_fs ?h))" "ex_opened = lib_files (hv_fs ?h) ! 0" "f_flags ex_opened AND FILE_READ \<noteq> 0"
    "bytenum ex_opened < filelength ex_opened" "gptr 0x100 4 ?h \<noteq> 0" "0 < unat (cell 0x100 5 ?h)" "unat (cell 0x100 5 ?h) < 2 ^ 31"
    by (simp_all add: FILE_READ_def c)
  have "unat (2 :: u32) = 2" "unat (filelength ex_opened) - unat (bytenum ex_opened) = 256" by simp_all
  with rom_read_file[OF ok ex_hv_fields(3) p(1-4) c(1) p(5-7)] obtain n h' where
    "rom_read 0x100 ?h = Inr (0, put_cell 0x100 6 n h')" "unat n = 2"
    "bytes (hv_mem h') 0x300 (unat n) = take (unat n) (drop (unat (bytenum ex_opened)) (file_bytes ex_rom_fs ex_opened))"
    unfolding lib c(2,3) ex_lib_simps by auto
  then show ?thesis using ex_file_bytes[OF ex_rom_like] by (intro exI[of _ n] exI[of _ h']) simp
qed

theorem rom_load_veneer_correct_witness:
  "\<exists>h'. rom_load_veneer (\<lambda>_ _. True) (ex_hv (ex_lib ex_rom_fs)) = Inr (ERR_NONE, h') \<and>
     bytes (hv_mem h') (LAYOUT_VM_START + 0x50000) 2 = [0xde, 0xad]"
proof -
  let ?h = "ex_hv (ex_lib ex_rom_fs)"
  have lib: "hv_lib ?h = ex_lib ex_rom_fs" by (rule ex_hv_lib) simp
  have root: "fatfs_get_root_cluster ex_rom_fs = 0" by (simp add: fatfs_get_root_cluster_def ex_rom_fs_def ex_with_def)
  have ok: "lib_ok (hv_lib ?h)" unfolding lib by (rule ex_lib_ok(1)[OF ex_rom_ready])
  have p: "free_files (hv_fs ?h) = 0 # []" "open_files (hv_fs ?h) = []"
    "has_sectors (lib_fs (hv_lib ?h)) (fatfs_get_root_cluster (lib_fs (hv_lib ?h))) 1"
    "List.find (entry_named (lit ''veneer.exe'')) (dir_contents (lib_fs (hv_lib ?h)) (fatfs_get_root_cluster (lib_fs (hv_lib ?h))) 1) = Some ex_file"
    "fatfs_entry_is_file ex_file" "entry_ok (lib_fs (hv_lib ?h)) ex_file" "0x200 < FileSize ex_file"
    using ex_sector_addr(3)[OF ex_rom_like] ex_find[OF ex_rom_like] ex_bytes(1)[OF ex_rom_like] ex_file_fields
    unfolding lib by (simp_all add: root)
  have h: "hv_guest ?h = Some guest_booted" "ranges_wf (guest_mem_avail_ranges (hv_rom ?h))" "pages_whole (guest_mem_avail_ranges (hv_rom ?h))"
    using rom_example_pages by (simp_all add: ex_hv_def hv_example_def)
  have "claim_fits guest_booted 0x50000 0x100 0" by (simp add: claim_fits_def claim_at_def)
  then obtain out hc where cl: "rom_claim (\<lambda>_ _. True) 0x50000 (FileSize ex_file - 0x200) 0 ?h = Inr (out, hc)"
    using rom_claim_result[OF h, of "\<lambda>_ _. True" "0x100" "0x50000" 0] by (auto simp: ex_file_fields)
  obtain h' where r: "rom_load_veneer (\<lambda>_ _. True) ?h = Inr (ERR_NONE, h')" and
    b: "bytes (hv_mem h') (LAYOUT_VM_START + 0x50000) (unat (FileSize ex_file) - 0x200) =
      map (file_byte ex_rom_fs 2) [0x200..<unat (FileSize ex_file)]"
    using rom_load_veneer_correct[OF ok p cl] unfolding lib ex_lib_simps ex_file_fields(2) by blast
  have "take 2 (bytes (hv_mem h') (LAYOUT_VM_START + 0x50000) 256) = [0xde, 0xad]"
  proof -
    have "[512..<768::nat] = [512, 513] @ [514..<768]" by (simp add: upt_rec[of 512] upt_rec[of 513])
    then show ?thesis using b ex_bytes(2,3)[OF ex_rom_like] by (simp add: ex_file_fields del: upt_rec_numeral)
  qed
  then have "bytes (hv_mem h') (LAYOUT_VM_START + 0x50000) 2 = [0xde, 0xad]" by (simp only: take_bytes_prefix)
  then show ?thesis using r by blast
qed

section \<open>Attaching the image\<close>

lemma guest_media_reads_all: "reads_all (guest_media disk) m"
  using guest_media_sectors[of _ disk m] unfolding reads_all_def by (simp add: guest_media_1) (metis fst_conv guest_media_def le_refl)


lemma ex_boot_nth: "i < 512 \<Longrightarrow> ex_boot ! i = (if i = 12 then 2 else if i = 13 \<or> i = 14 \<or> i = 16 \<or> i = 22 then 1 else
    if i = 17 then 16 else if i = 20 then 0x20 else if i = 510 then 0x55 else if i = 511 then 0xaa else 0)"
  by (simp add: ex_boot_def nth_list_update)

lemma ex_init:
  fixes d :: 'd
  assumes "rd d 0 1 = (True, ex_boot)"
  shows "fatfs_init ((fatfs_zero d)\<lparr>disk_io := \<lparr>read_media = Some rd, write_media = None\<rparr>\<rparr>) =
    (FAT_INIT_OK, (ex_with \<lparr>read_media = Some rd, write_media = None\<rparr> d)\<lparr>currentsector := fat_buffer_reset\<lparr>fb_sector := ex_boot\<rparr>\<rparr>)"
proof -
  let ?io = "\<lparr>read_media = Some rd, write_media = None\<rparr>"
  define fs1 where "fs1 = (fatfs_zero d)\<lparr>disk_io := ?io, fat_buffers := [fat_buffer_reset], currentsector := fat_buffer_reset\<lparr>fb_sector := ex_boot\<rparr>\<rparr>"
  have len: "length ex_boot = 512" by (simp add: ex_boot_def)
  have io: "disk_io fs1 = ?io" "media fs1 = d" "fb_sector (currentsector fs1) = ex_boot" "lba_begin fs1 = 0"
    by (simp_all add: fs1_def fatfs_zero_def)
  have r0: "read_current 0 (fatfs_fat_init ((fs_cur (\<lambda>b. b\<lparr>fb_address := FAT32_INVALID_CLUSTER, fb_dirty := False\<rparr>)
      ((fatfs_zero d)\<lparr>disk_io := ?io\<rparr>))\<lparr>next_free_cluster := 0\<rparr>)) = (True, fs1)"
    using assms by (simp add: read_current_def disk_read_def fatfs_fat_init_def fs_cur_def fatfs_zero_def FAT_BUFFERS_def fs1_def
        overlay_def len fat_buffer_reset_def FAT_SECTOR_SIZE_n_def)
  have r1: "read_current 0 fs1 = (True, fs1)"
    using assms by (simp add: read_current_def disk_read_def io fs_cur_def overlay_def len)
  have b: "ex_boot ! 510 = 0x55" "ex_boot ! 511 = 0xaa" "ex_boot ! 450 = 0" by (simp_all add: ex_boot_nth)
  have g: "GET_16BIT_WORD ex_boot 510 = 0xaa55" "GET_16BIT_WORD ex_boot 11 = 512" "GET_16BIT_WORD ex_boot 14 = 1"
    "GET_16BIT_WORD ex_boot 17 = 16" "GET_16BIT_WORD ex_boot 19 = 0x2000" "GET_16BIT_WORD ex_boot 22 = 1"
    "GET_16BIT_WORD ex_boot 48 = 0" "GET_32BIT_WORD ex_boot 44 = 0" "ex_boot ! 13 = 1" "ex_boot ! 16 = 1"
    by (simp_all add: GET_16BIT_WORD_def GET_32BIT_WORD_def ex_boot_nth)
  have pk: "length (dir_entry_bytes (dir_entry_at ex_boot 0)) = FAT_DIR_ENTRY_SIZE"
    by (simp add: dir_entry_at_def dir_entry_bytes_def Let_def len le16_def bytes_le_def FAT_DIR_ENTRY_SIZE_def)
  have ld: "load_bpb fs1 = fs1\<lparr>sectors_per_cluster := 1, root_entry_count := 16, fat_sectors := 1, rootdir_first_cluster := 0,
      fs_info_sector := 0, rootdir_first_sector := 2, rootdir_sectors := 1, fat_begin_lba := 1, cluster_begin_lba := 2\<rparr>"
    by (simp add: load_bpb_def Let_def io bpb_offsets g)
  have cl: "bpb_clusters (load_bpb fs1) = 0x1ffd"
    by (simp add: bpb_clusters_def Let_def ld io bpb_offsets g)
  have lb: "fs1\<lparr>lba_begin := 0\<rparr> = fs1" by (simp add: fs1_def fatfs_zero_def)
  show ?thesis
    unfolding fatfs_init_def r0 Let_def prod.case io(3)
    by (simp add: r1 b g bpb_offsets pk cl[unfolded ld] valid_partition_def lb io ld fatfs_fat_init_def fs_cur_def)
      (simp add: fs1_def fatfs_zero_def ex_with_def)
qed


end
