(* ===== verification/Vsprintf.thy ===== *)
theory Vsprintf
  imports Console
begin

text \<open>
  \<^verbatim>\<open>lib/vsprintf.c\<close>: formatted output and input. Output goes to memory as in the code: a function takes the position
  \<^verbatim>\<open>buf\<close> and the memory and returns both, a byte is stored only while the position lies before \<^verbatim>\<open>end\<close>. Format strings
  and the text to be scanned are read only and are lists of their bytes; strings to be printed are read from
  memory as it is when they are printed. \<^verbatim>\<open>char\<close> has no sign on this machine, \<^verbatim>\<open>long\<close> has 64 bits.

  A \<^verbatim>\<open>va_list\<close> is the list of the arguments still to come, each in a word of 64 bits; to ask for one more stops
  the machine. What \<^verbatim>\<open>struct va_format\<close> holds at an address, a format and a \<^verbatim>\<open>va_list\<close>, is up to the compiler and the
  parameter \<open>vaf\<close>. The part of the file under \<^verbatim>\<open>CONFIG_BINARY_PRINTF\<close>, which is not defined, is left out.
\<close>

type_synonym u16 = "16 word"

declare bindE_cong [fundef_cong]

section \<open>Numbers from text\<close>

definition TOLOWER :: "u8 \<Rightarrow> u8" where
  "TOLOWER x = x OR 0x20"

text \<open>The byte a pointer into a string is at, 0 at its end.\<close>

definition at :: "nat \<Rightarrow> u8 list \<Rightarrow> u8" where
  "at i s = (if i < length s then s ! i else 0)"

definition simple_guess_base :: "u8 list \<Rightarrow> u32" where
  "simple_guess_base cp = (if at 0 cp = 0x30 then (if TOLOWER (at 1 cp) = 0x78 \<and> isxdigit (at 2 cp) then 16 else 8) else 10)"

definition digit_value :: "u8 \<Rightarrow> u32" where
  "digit_value c = (if isdigit c then ucast c - 0x30 else ucast (TOLOWER c) - 0x61 + 10)"

fun strtoull_loop :: "u32 \<Rightarrow> u64 \<Rightarrow> u8 list \<Rightarrow> u64 \<times> u8 list" where
  "strtoull_loop base result [] = (result, [])"
| "strtoull_loop base result (c # cp) =
     (if isxdigit c \<and> digit_value c < base
      then strtoull_loop base (result * ucast base + ucast (digit_value c)) cp else (result, c # cp))"

text \<open>The value and \<^verbatim>\<open>*endp\<close>.\<close>

definition simple_strtoull :: "u8 list \<Rightarrow> u32 \<Rightarrow> u64 \<times> u8 list" where
  "simple_strtoull cp base =
     (let base = (if base = 0 then simple_guess_base cp else base);
          cp = (if base = 16 \<and> at 0 cp = 0x30 \<and> TOLOWER (at 1 cp) = 0x78 then drop 2 cp else cp)
      in strtoull_loop base 0 cp)"

definition simple_strtoul :: "u8 list \<Rightarrow> u32 \<Rightarrow> u64 \<times> u8 list" where
  "simple_strtoul cp base = simple_strtoull cp base"

definition simple_strtol :: "u8 list \<Rightarrow> u32 \<Rightarrow> u64 \<times> u8 list" where
  "simple_strtol cp base =
     (if at 0 cp = 0x2d then let (v, e) = simple_strtoul (drop 1 cp) base in (- v, e) else simple_strtoul cp base)"

definition simple_strtoll :: "u8 list \<Rightarrow> u32 \<Rightarrow> u64 \<times> u8 list" where
  "simple_strtoll cp base =
     (if at 0 cp = 0x2d then let (v, e) = simple_strtoull (drop 1 cp) base in (- v, e) else simple_strtoull cp base)"

fun skip_atoi :: "u32 \<Rightarrow> u8 list \<Rightarrow> u32 \<times> u8 list" where
  "skip_atoi i [] = (i, [])"
| "skip_atoi i (c # s) = (if isdigit c then skip_atoi (i * 10 + ucast c - 0x30) s else (i, c # s))"

section \<open>Decimal digits, the least significant first\<close>

definition put_dec_trunc :: "u32 \<Rightarrow> u8 list" where
  "put_dec_trunc q =
     (let d1 = drop_bit 4 q AND 0xf; d2 = drop_bit 8 q AND 0xf; d3 = drop_bit 12 q;
          d0 = 6 * (d3 + d2 + d1) + (q AND 0xf); q = drop_bit 11 (d0 * 0xcd); d0 = d0 - 10 * q;
          d1 = q + 9 * d3 + 5 * d2 + d1
      in ucast (d0 + 0x30) #
         (if d1 \<noteq> 0 then
            let q = drop_bit 11 (d1 * 0xcd); d1 = d1 - 10 * q; d2 = q + 2 * d2
            in ucast (d1 + 0x30) #
               (if d2 \<noteq> 0 \<or> d3 \<noteq> 0 then
                  let q = drop_bit 7 (d2 * 0xd); d2 = d2 - 10 * q; d3 = q + 4 * d3
                  in ucast (d2 + 0x30) #
                     (if d3 \<noteq> 0 then
                        let q = drop_bit 11 (d3 * 0xcd); d3 = d3 - 10 * q
                        in ucast (d3 + 0x30) # (if q \<noteq> 0 then [ucast (q + 0x30)] else [])
                      else [])
                else [])
          else []))"

definition put_dec_full :: "u32 \<Rightarrow> u8 list" where
  "put_dec_full q =
     (let d1 = drop_bit 4 q AND 0xf; d2 = drop_bit 8 q AND 0xf; d3 = drop_bit 12 q;
          d0 = 6 * (d3 + d2 + d1) + (q AND 0xf); q = drop_bit 11 (d0 * 0xcd); d0 = d0 - 10 * q;
          d1 = q + 9 * d3 + 5 * d2 + d1; q = drop_bit 11 (d1 * 0xcd); d1 = d1 - 10 * q;
          d2 = q + 2 * d2; q = drop_bit 7 (d2 * 0xd); d2 = d2 - 10 * q;
          d3 = q + 4 * d3; q = drop_bit 11 (d3 * 0xcd); d3 = d3 - 10 * q
      in [ucast (d0 + 0x30), ucast (d1 + 0x30), ucast (d2 + 0x30), ucast (d3 + 0x30), ucast (q + 0x30)])"

function put_dec :: "u64 \<Rightarrow> u8 list" where
  "put_dec num =
     (if num < 100000 then put_dec_trunc (ucast num)
      else put_dec_full (ucast (num mod 100000)) @ put_dec (num div 100000))"
  by pat_completeness auto
termination by (relation "measure unat") (auto simp: unat_div word_less_nat_alt not_less)

section \<open>Specifications\<close>

definition ZEROPAD :: u8 where "ZEROPAD = 1"
definition SIGN :: u8 where "SIGN = 2"
definition PLUS :: u8 where "PLUS = 4"
definition SPACE :: u8 where "SPACE = 8"
definition LEFT :: u8 where "LEFT = 16"
definition SMALL :: u8 where "SMALL = 32"
definition SPECIAL :: u8 where "SPECIAL = 64"

lemmas number_flags = ZEROPAD_def SIGN_def PLUS_def SPACE_def LEFT_def SMALL_def SPECIAL_def

datatype format_type =
    FORMAT_TYPE_NONE | FORMAT_TYPE_WIDTH | FORMAT_TYPE_PRECISION | FORMAT_TYPE_CHAR | FORMAT_TYPE_STR
  | FORMAT_TYPE_PTR | FORMAT_TYPE_ERROR | FORMAT_TYPE_PERCENT_CHAR | FORMAT_TYPE_INVALID | FORMAT_TYPE_LONG_LONG
  | FORMAT_TYPE_ULONG | FORMAT_TYPE_LONG | FORMAT_TYPE_UBYTE | FORMAT_TYPE_BYTE | FORMAT_TYPE_USHORT
  | FORMAT_TYPE_SHORT | FORMAT_TYPE_UINT | FORMAT_TYPE_INT | FORMAT_TYPE_NRCHARS | FORMAT_TYPE_LENGTH_T

text \<open>Width and precision are \<^verbatim>\<open>int16_t\<close>.\<close>

record printf_spec =
  sp_type :: format_type
  sp_flags :: u8
  sp_base :: u8
  sp_qualifier :: u8
  field_width :: u16
  precision :: u16

definition spec_zero :: printf_spec where
  "spec_zero = \<lparr>sp_type = FORMAT_TYPE_NONE, sp_flags = 0, sp_base = 0, sp_qualifier = 0, field_width = 0, precision = 0\<rparr>"

definition has :: "u8 \<Rightarrow> u8 \<Rightarrow> bool" where
  "has flags x \<longleftrightarrow> flags AND x \<noteq> 0"

section \<open>Bounded output\<close>

type_synonym outpos = "u64 \<times> mem"

definition emit :: "u64 \<Rightarrow> u8 \<Rightarrow> outpos \<Rightarrow> outpos" where
  "emit e c out = (fst out + 1, if fst out < e then (snd out)(fst out := c) else snd out)"

text \<open>\<^verbatim>\<open>while (--w >= lim)\<close>, and \<^verbatim>\<open>while (len < w--)\<close> in \<open>string\<close>; both leave the counter decremented.\<close>

function pad_dec :: "u64 \<Rightarrow> u8 \<Rightarrow> nat \<Rightarrow> u16 \<Rightarrow> outpos \<Rightarrow> u16 \<times> outpos" where
  "pad_dec e c lim w out = (if int lim \<le> sint (w - 1) then pad_dec e c lim (w - 1) (emit e c out) else (w - 1, out))"
  by pat_completeness auto
termination
proof (relation "measure (\<lambda>(e, c, lim, w, out). unat w)"; clarsimp)
  fix lim :: nat and w :: u16 assume "int lim \<le> sint (w - 1)"
  then have "w \<noteq> 0" by auto
  then show "unat (w - 1) < unat w" by (simp add: unat_minus_one unat_gt_0)
qed

lemma sint_minus_one: "- 0x8000 < sint w \<Longrightarrow> sint (w - 1) = sint w - 1" for w :: u16
  using sint_lt[of w] by (simp add: sint_word_ariths signed_take_bit_int_eq_self)

function pad_str :: "u64 \<Rightarrow> int \<Rightarrow> u16 \<Rightarrow> outpos \<Rightarrow> u16 \<times> outpos" where
  "pad_str e len w out =
     (if - 0x8000 \<le> len \<and> len < sint w then pad_str e len (w - 1) (emit e 0x20 out) else (w - 1, out))"
  by pat_completeness auto
termination by (relation "measure (\<lambda>(e, len, w, out). nat (sint w + 0x8000))") (auto simp: sint_minus_one)

declare pad_dec.simps [simp del] pad_str.simps [simp del] put_dec.simps [simp del]

section \<open>A number\<close>

definition digits :: "u8 list" where
  "digits = lit ''0123456789ABCDEF''"

definition digit_shift :: "u8 \<Rightarrow> nat" where
  "digit_shift base = (if base = 16 then 4 else 3)"

function digits_loop :: "u8 \<Rightarrow> u8 \<Rightarrow> u64 \<Rightarrow> u8 list" where
  "digits_loop base locase num =
     (digits ! unat (ucast num AND (base - 1)) OR locase) #
     (let num = drop_bit (digit_shift base) num in if num \<noteq> 0 then digits_loop base locase num else [])"
  by pat_completeness auto
termination
proof (relation "measure (\<lambda>(base, locase, num). unat num)"; clarsimp)
  fix base :: u8 and num :: u64 assume "drop_bit (digit_shift base) num \<noteq> 0"
  then have "num \<noteq> 0" by auto
  then show "unat (drop_bit (digit_shift base) num) < unat num"
    by (cases "base = 16") (simp_all add: digit_shift_def drop_bit_eq_div unat_div unat_gt_0)
qed

declare digits_loop.simps [simp del]

text \<open>The digits of the number in \<^verbatim>\<open>tmp\<close>, reversed.\<close>

definition number_digits :: "u8 \<Rightarrow> u8 \<Rightarrow> u64 \<Rightarrow> u8 list" where
  "number_digits base locase num =
     (if num = 0 then [0x30] else if base \<noteq> 10 then digits_loop base locase num else put_dec num)"

definition number_sign :: "u8 \<Rightarrow> u64 \<Rightarrow> u8" where
  "number_sign flags num =
     (if has flags SIGN then
        if sint num < 0 then 0x2d else if has flags PLUS then 0x2b else if has flags SPACE then 0x20 else 0
      else 0)"

definition number :: "u64 \<Rightarrow> u64 \<Rightarrow> printf_spec \<Rightarrow> outpos \<Rightarrow> outpos" where
  "number e num spec out =
     (let need_pfx = has (sp_flags spec) SPECIAL \<and> sp_base spec \<noteq> 10;
          locase = sp_flags spec AND SMALL;
          flags = (if has (sp_flags spec) LEFT then sp_flags spec AND NOT ZEROPAD else sp_flags spec);
          sign = number_sign flags num;
          num = (if sign = 0x2d then - num else num);
          w = field_width spec - (if sign \<noteq> 0 then 1 else 0) - (if need_pfx then if sp_base spec = 16 then 2 else 1 else 0);
          tmp = number_digits (sp_base spec) locase num; i = length tmp;
          prec = (if int i > sint (precision spec) then of_nat i else precision spec);
          w = w - prec;
          (w, out) = (if \<not> has flags (ZEROPAD OR LEFT) then pad_dec e 0x20 0 w out else (w, out));
          out = (if sign \<noteq> 0 then emit e sign out else out);
          out = (if need_pfx then let out = emit e 0x30 out in if sp_base spec = 16 then emit e (0x58 OR locase) out else out else out);
          (w, out) = (if \<not> has flags LEFT then pad_dec e (if has flags ZEROPAD then 0x30 else 0x20) 0 w out else (w, out));
          (_, out) = pad_dec e 0x30 i prec out;
          out = fold (emit e) (rev tmp) out;
          (_, out) = pad_dec e 0x20 0 w out
      in out)"

section \<open>A string\<close>

text \<open>
  The characters come from memory or from a literal: \<open>get i m\<close> is character \<open>i\<close>, \<open>n\<close> the result of \<^verbatim>\<open>strnlen\<close>. A
  length that is below every \<^verbatim>\<open>int16_t\<close> as an \<^verbatim>\<open>int\<close> makes the last loop endless.
\<close>

fun copy_chars :: "u64 \<Rightarrow> (nat \<Rightarrow> mem \<Rightarrow> u8) \<Rightarrow> nat \<Rightarrow> nat \<Rightarrow> outpos \<Rightarrow> outpos" where
  "copy_chars e get i 0 out = out"
| "copy_chars e get i (Suc n) out = copy_chars e get (i + 1) n (emit e (get i (snd out)) out)"

definition string_chars :: "u64 \<Rightarrow> (nat \<Rightarrow> mem \<Rightarrow> u8) \<Rightarrow> u64 \<Rightarrow> printf_spec \<Rightarrow> outpos \<Rightarrow> outpos outcome" where
  "string_chars e get n spec out =
     (let len = sint (ucast n :: u32)
      in if len < - 0x8000 then Inl (Hang ''string'')
         else
           let (w, out) = (if \<not> has (sp_flags spec) LEFT then pad_str e len (field_width spec) out else (field_width spec, out));
               out = copy_chars e get 0 (nat len) out;
               (_, out) = pad_str e len w out
           in Inr out)"

definition string_lit :: "u64 \<Rightarrow> u8 list \<Rightarrow> printf_spec \<Rightarrow> outpos \<Rightarrow> outpos outcome" where
  "string_lit e s spec out =
     string_chars e (\<lambda>i m. s ! i) (min (of_nat (length s)) (scast (precision spec))) spec out"

definition string :: "u64 \<Rightarrow> u64 \<Rightarrow> printf_spec \<Rightarrow> outpos \<Rightarrow> outpos outcome" where
  "string e s spec out =
     (if s = 0 then string_lit e (lit ''(null)'') spec out
      else string_chars e (\<lambda>i m. m (s + of_nat i)) (strnlen (snd out) s (scast (precision spec))) spec out)"

text \<open>\<^verbatim>\<open>err_t\<close> is an unsigned enumeration.\<close>

definition err_strings :: "u8 list list" where
  "err_strings = map lit [''no error'', ''not ready'', ''not supported'', ''no memory'', ''not found'', ''invalid error, likely a bug'']"

definition err_string :: "u32 \<Rightarrow> u8 list" where
  "err_string error = (if error < 5 then err_strings ! unat error else err_strings ! 5)"

section \<open>Pointers\<close>

definition hex_asc :: "u8 list" where
  "hex_asc = lit ''0123456789abcdef''"

definition pack_hex_byte :: "u8 \<Rightarrow> u8 list" where
  "pack_hex_byte byte = [hex_asc ! unat (drop_bit 4 (byte AND 0xf0)), hex_asc ! unat (byte AND 0x0f)]"

definition uuid_le :: "nat list" where
  "uuid_le = [3, 2, 1, 0, 5, 4, 7, 6, 8, 9, 10, 11, 12, 13, 14, 15]"

definition uuid_text :: "nat list \<Rightarrow> u64 \<Rightarrow> mem \<Rightarrow> u8 list" where
  "uuid_text index addr m =
     concat (map (\<lambda>i. pack_hex_byte (m (addr + of_nat (index ! i))) @ (if i \<in> {3, 5, 7, 9} then [0x2d] else [])) [0..<16])"

definition uuid_string :: "u64 \<Rightarrow> u64 \<Rightarrow> printf_spec \<Rightarrow> u8 list \<Rightarrow> outpos \<Rightarrow> outpos outcome" where
  "uuid_string e addr spec fmt out =
     (let c = at 1 fmt;
          index = (if c = 0x4c \<or> c = 0x6c then uuid_le else [0..<16]);
          uuid = uuid_text index addr (snd out);
          uuid = (if c = 0x4c \<or> c = 0x42 then map toupper uuid else uuid)
      in string_lit e uuid spec out)"

text \<open>\<open>pv\<close> is the recursive call of \<^verbatim>\<open>vsnprintf\<close>: buffer, size, address of the \<^verbatim>\<open>struct va_format\<close>, memory.\<close>

type_synonym nested = "u64 \<Rightarrow> u64 \<Rightarrow> u64 \<Rightarrow> mem \<Rightarrow> (u32 \<times> mem) outcome"

definition pointer :: "nested \<Rightarrow> u8 list \<Rightarrow> u64 \<Rightarrow> u64 \<Rightarrow> printf_spec \<Rightarrow> outpos \<Rightarrow> outpos outcome" where
  "pointer pv fmt e ptr spec out =
     (if ptr = 0 then
        string_lit e (lit ''(null)'') (if field_width spec = - 1 then spec\<lparr>field_width := 16\<rparr> else spec) out
      else if at 0 fmt = 0x55 then uuid_string e ptr spec fmt out
      else if at 0 fmt = 0x56 then
        bindE (pv (fst out) (e - fst out) ptr (snd out)) (\<lambda>(n, m). Inr (fst out + scast n, m))
      else
        let spec = spec\<lparr>sp_flags := sp_flags spec OR SMALL\<rparr>;
            spec = (if field_width spec = - 1 then spec\<lparr>field_width := 16, sp_flags := sp_flags spec OR ZEROPAD\<rparr> else spec)
        in Inr (number e ptr (spec\<lparr>sp_base := 16\<rparr>) out))"

section \<open>Decoding a format\<close>

fun decode_flags :: "u8 list \<Rightarrow> u8 \<Rightarrow> u8 \<times> u8 list" where
  "decode_flags [] flags = (flags, [])"
| "decode_flags (c # fmt) flags =
     (if c = 0x2d then decode_flags fmt (flags OR LEFT)
      else if c = 0x2b then decode_flags fmt (flags OR PLUS)
      else if c = 0x20 then decode_flags fmt (flags OR SPACE)
      else if c = 0x23 then decode_flags fmt (flags OR SPECIAL)
      else if c = 0x30 then decode_flags fmt (flags OR ZEROPAD)
      else (flags, c # fmt))"

text \<open>The end of \<^verbatim>\<open>format_decode\<close>: the specification and the rest of the format.\<close>

definition int_type :: "printf_spec \<Rightarrow> format_type" where
  "int_type spec =
     (let q = sp_qualifier spec; sign = has (sp_flags spec) SIGN
      in if q = 0x4c then FORMAT_TYPE_LONG_LONG
         else if q = 0x6c then if sign then FORMAT_TYPE_LONG else FORMAT_TYPE_ULONG
         else if TOLOWER q = 0x7a then FORMAT_TYPE_LENGTH_T
         else if q = 0x48 then if sign then FORMAT_TYPE_BYTE else FORMAT_TYPE_UBYTE
         else if q = 0x68 then if sign then FORMAT_TYPE_SHORT else FORMAT_TYPE_USHORT
         else if sign then FORMAT_TYPE_INT else FORMAT_TYPE_UINT)"

definition decode_conversion :: "u8 list \<Rightarrow> printf_spec \<Rightarrow> printf_spec \<times> u8 list" where
  "decode_conversion fmt spec =
     (let c = at 0 fmt; spec = spec\<lparr>sp_base := 10\<rparr>; int = (\<lambda>spec. (spec\<lparr>sp_type := int_type spec\<rparr>, drop 1 fmt))
      in if c = 0x63 then (spec\<lparr>sp_type := FORMAT_TYPE_CHAR\<rparr>, drop 1 fmt)
         else if c = 0x72 then (spec\<lparr>sp_type := FORMAT_TYPE_ERROR\<rparr>, drop 1 fmt)
         else if c = 0x73 then (spec\<lparr>sp_type := FORMAT_TYPE_STR\<rparr>, drop 1 fmt)
         else if c = 0x70 then (spec\<lparr>sp_type := FORMAT_TYPE_PTR\<rparr>, fmt)
         else if c = 0x6e then (spec\<lparr>sp_type := FORMAT_TYPE_NRCHARS\<rparr>, drop 1 fmt)
         else if c = 0x25 then (spec\<lparr>sp_type := FORMAT_TYPE_PERCENT_CHAR\<rparr>, drop 1 fmt)
         else if c = 0x6f then int (spec\<lparr>sp_base := 8\<rparr>)
         else if c = 0x78 then int (spec\<lparr>sp_flags := sp_flags spec OR SMALL, sp_base := 16\<rparr>)
         else if c = 0x58 then int (spec\<lparr>sp_base := 16\<rparr>)
         else if c = 0x64 \<or> c = 0x69 then int (spec\<lparr>sp_flags := sp_flags spec OR SIGN\<rparr>)
         else if c = 0x75 then int spec
         else (spec\<lparr>sp_type := FORMAT_TYPE_INVALID\<rparr>, fmt))"

definition is_qualifier :: "u8 \<Rightarrow> bool" where
  "is_qualifier c \<longleftrightarrow> c = 0x68 \<or> TOLOWER c = 0x6c \<or> TOLOWER c = 0x7a"

definition decode_qualifier :: "u8 list \<Rightarrow> printf_spec \<Rightarrow> printf_spec \<times> u8 list" where
  "decode_qualifier fmt spec =
     (let c = at 0 fmt
      in if is_qualifier c \<or> c = 0x74 then
           if at 1 fmt = c \<and> c = 0x6c then decode_conversion (drop 2 fmt) (spec\<lparr>sp_qualifier := 0x4c\<rparr>)
           else if at 1 fmt = c \<and> c = 0x68 then decode_conversion (drop 2 fmt) (spec\<lparr>sp_qualifier := 0x48\<rparr>)
           else decode_conversion (drop 1 fmt) (spec\<lparr>sp_qualifier := c\<rparr>)
         else decode_conversion fmt (spec\<lparr>sp_qualifier := - 1\<rparr>))"

definition decode_precision :: "u8 list \<Rightarrow> printf_spec \<Rightarrow> printf_spec \<times> u8 list" where
  "decode_precision fmt spec =
     (let spec = spec\<lparr>precision := - 1\<rparr>
      in if at 0 fmt = 0x2e then
           if isdigit (at 1 fmt) then
             let (i, rest) = skip_atoi 0 (drop 1 fmt); p = ucast i :: u16
             in decode_qualifier rest (spec\<lparr>precision := (if sint p < 0 then 0 else p)\<rparr>)
           else if at 1 fmt = 0x2a then (spec\<lparr>sp_type := FORMAT_TYPE_PRECISION\<rparr>, drop 2 fmt)
           else decode_qualifier (drop 1 fmt) spec
         else decode_qualifier fmt spec)"

definition decode_width :: "u8 list \<Rightarrow> printf_spec \<Rightarrow> printf_spec \<times> u8 list" where
  "decode_width fmt spec =
     (let spec = spec\<lparr>field_width := - 1\<rparr>
      in if isdigit (at 0 fmt) then let (i, rest) = skip_atoi 0 fmt in decode_precision rest (spec\<lparr>field_width := ucast i\<rparr>)
         else if at 0 fmt = 0x2a then (spec\<lparr>sp_type := FORMAT_TYPE_WIDTH\<rparr>, drop 1 fmt)
         else decode_precision fmt spec)"

text \<open>The first result is the number of characters read.\<close>

definition format_decode :: "u8 list \<Rightarrow> printf_spec \<Rightarrow> nat \<times> printf_spec" where
  "format_decode fmt spec =
     (let read = (\<lambda>(spec, rest). (length fmt - length rest, spec))
      in if sp_type spec = FORMAT_TYPE_WIDTH then
           let spec = (if sint (field_width spec) < 0
                       then spec\<lparr>field_width := - field_width spec, sp_flags := sp_flags spec OR LEFT\<rparr> else spec)
           in read (decode_precision fmt (spec\<lparr>sp_type := FORMAT_TYPE_NONE\<rparr>))
         else if sp_type spec = FORMAT_TYPE_PRECISION then
           let spec = (if sint (precision spec) < 0 then spec\<lparr>precision := 0\<rparr> else spec)
           in read (decode_qualifier fmt (spec\<lparr>sp_type := FORMAT_TYPE_NONE\<rparr>))
         else
           let spec = spec\<lparr>sp_type := FORMAT_TYPE_NONE\<rparr>; n = length (takeWhile (\<lambda>c. c \<noteq> 0x25) fmt)
           in if n \<noteq> 0 \<or> fmt = [] then (n, spec)
              else let (flags, rest) = decode_flags (drop 1 fmt) 0 in read (decode_width rest (spec\<lparr>sp_flags := flags\<rparr>)))"

section \<open>Formatted output\<close>

fun va_arg :: "u64 list \<Rightarrow> (u64 \<times> u64 list) outcome" where
  "va_arg [] = Inl (Bug ''va_arg'')"
| "va_arg (a # args) = Inr (a, args)"

definition int_arg :: "format_type \<Rightarrow> u64 \<Rightarrow> u64" where
  "int_arg t a =
     (case t of FORMAT_TYPE_LONG_LONG \<Rightarrow> a | FORMAT_TYPE_ULONG \<Rightarrow> a | FORMAT_TYPE_LONG \<Rightarrow> a | FORMAT_TYPE_LENGTH_T \<Rightarrow> a
      | FORMAT_TYPE_UBYTE \<Rightarrow> ucast (ucast a :: u8) | FORMAT_TYPE_BYTE \<Rightarrow> scast (ucast a :: u8)
      | FORMAT_TYPE_USHORT \<Rightarrow> ucast (ucast a :: u16) | FORMAT_TYPE_SHORT \<Rightarrow> scast (ucast a :: u16)
      | FORMAT_TYPE_INT \<Rightarrow> scast (ucast a :: u32) | _ \<Rightarrow> ucast (ucast a :: u32))"

definition put_char :: "u64 \<Rightarrow> u8 \<Rightarrow> printf_spec \<Rightarrow> outpos \<Rightarrow> printf_spec \<times> outpos" where
  "put_char e c spec out =
     (let count = (if 0 \<le> sint (precision spec) then nat (sint (precision spec)) else 1)
      in if count = 0 then (spec, out)
         else
           let (w, out) = (if \<not> has (sp_flags spec) LEFT then pad_dec e 0x20 1 (field_width spec) out else (field_width spec, out));
               out = (emit e c ^^ count) out;
               (w, out) = pad_dec e 0x20 1 w out
           in (spec\<lparr>field_width := w\<rparr>, out))"

definition put_text :: "u64 \<Rightarrow> u8 list \<Rightarrow> outpos \<Rightarrow> outpos" where
  "put_text e cs out =
     (fst out + of_nat (length cs),
      if fst out < e then store_bytes (fst out) (take (unat (e - fst out)) cs) (snd out) else snd out)"

definition store64_le :: "u64 \<Rightarrow> u64 \<Rightarrow> mem \<Rightarrow> mem" where
  "store64_le a v m = store32_le (a + 4) (ucast (drop_bit 32 v)) (store32_le a (ucast v) m)"

definition store_count :: "u8 \<Rightarrow> u64 \<Rightarrow> u64 \<Rightarrow> mem \<Rightarrow> mem" where
  "store_count qualifier ip n m =
     (if qualifier = 0x6c \<or> TOLOWER qualifier = 0x7a then store64_le ip n m else store32_le ip (ucast n) m)"

text \<open>One round of the loop: the format and the arguments left, the specification and the output.\<close>

type_synonym fmt_state = "u8 list \<times> u64 list \<times> printf_spec \<times> outpos"

definition vsnprintf_step :: "nested \<Rightarrow> u64 \<Rightarrow> u64 \<Rightarrow> fmt_state \<Rightarrow> fmt_state outcome" where
  "vsnprintf_step pv buf e = (\<lambda>(old_fmt, args, spec, out).
     let (read, spec) = format_decode old_fmt spec; fmt = drop read old_fmt
     in case sp_type spec of
          FORMAT_TYPE_NONE \<Rightarrow> Inr (fmt, args, spec, put_text e (take read old_fmt) out)
        | FORMAT_TYPE_WIDTH \<Rightarrow> bindE (va_arg args) (\<lambda>(a, args). Inr (fmt, args, spec\<lparr>field_width := ucast a\<rparr>, out))
        | FORMAT_TYPE_PRECISION \<Rightarrow> bindE (va_arg args) (\<lambda>(a, args). Inr (fmt, args, spec\<lparr>precision := ucast a\<rparr>, out))
        | FORMAT_TYPE_CHAR \<Rightarrow> bindE (va_arg args) (\<lambda>(a, args).
            let (spec, out) = put_char e (ucast a) spec out in Inr (fmt, args, spec, out))
        | FORMAT_TYPE_STR \<Rightarrow> bindE (va_arg args) (\<lambda>(a, args).
            bindE (string e a spec out) (\<lambda>out. Inr (fmt, args, spec, out)))
        | FORMAT_TYPE_ERROR \<Rightarrow> bindE (va_arg args) (\<lambda>(a, args).
            bindE (string_lit e (err_string (ucast a)) spec out) (\<lambda>out. Inr (fmt, args, spec, out)))
        | FORMAT_TYPE_PTR \<Rightarrow> bindE (va_arg args) (\<lambda>(a, args).
            bindE (pointer pv (drop 1 fmt) e a spec out) (\<lambda>out. Inr (dropWhile isalnum fmt, args, spec, out)))
        | FORMAT_TYPE_PERCENT_CHAR \<Rightarrow> Inr (fmt, args, spec, emit e 0x25 out)
        | FORMAT_TYPE_INVALID \<Rightarrow> Inr (fmt, args, spec, emit e 0x25 out)
        | FORMAT_TYPE_NRCHARS \<Rightarrow> bindE (va_arg args) (\<lambda>(a, args).
            Inr (fmt, args, spec, fst out, store_count (sp_qualifier spec) a (fst out - buf) (snd out)))
        | _ \<Rightarrow> bindE (va_arg args) (\<lambda>(a, args). Inr (fmt, args, spec, number e (int_arg (sp_type spec) a) spec out)))"

text \<open>Every round takes from the format, except the one that ends a directive whose width or precision was an argument.\<close>

definition pending :: "printf_spec \<Rightarrow> nat" where
  "pending spec = (if sp_type spec = FORMAT_TYPE_WIDTH \<or> sp_type spec = FORMAT_TYPE_PRECISION then 1 else 0)"

lemma skip_atoi_length: "skip_atoi i s = (v, rest) \<Longrightarrow> length rest \<le> length s"
  by (induction i s rule: skip_atoi.induct) (auto split: if_splits)

lemma skip_atoi_digit: "skip_atoi i s = (v, rest) \<Longrightarrow> isdigit (at 0 s) \<Longrightarrow> s \<noteq> [] \<Longrightarrow> length rest < length s"
  by (cases s) (auto simp: at_def dest!: skip_atoi_length)

lemma decode_flags_length: "length (snd (decode_flags fmt flags)) \<le> length fmt"
  by (induction fmt flags rule: decode_flags.induct) auto

lemma pending_type: "pending (spec\<lparr>sp_type := t\<rparr>) = (if t = FORMAT_TYPE_WIDTH \<or> t = FORMAT_TYPE_PRECISION then 1 else 0)"
  by (simp add: pending_def)

lemma int_type_pending: "int_type spec \<noteq> FORMAT_TYPE_WIDTH" "int_type spec \<noteq> FORMAT_TYPE_PRECISION"
  by (simp_all add: int_type_def Let_def)

lemma decode_conversion_end:
  "length (snd (decode_conversion fmt spec)) \<le> length fmt \<and> pending (fst (decode_conversion fmt spec)) = 0"
  by (simp add: decode_conversion_def Let_def pending_type int_type_pending)

lemma decode_conversion_length:
  "decode_conversion fmt spec = (spec', rest) \<Longrightarrow> length rest \<le> length fmt \<and> pending spec' = 0"
  using decode_conversion_end[of fmt spec] by simp

lemma decode_qualifier_length:
  "decode_qualifier fmt spec = (spec', rest) \<Longrightarrow> length rest \<le> length fmt \<and> pending spec' = 0"
  by (auto simp: decode_qualifier_def Let_def split: if_splits dest!: decode_conversion_length)

lemma decode_precision_length:
  assumes "decode_precision fmt spec = (spec', rest)"
  shows "2 * length rest + pending spec' \<le> 2 * length fmt"
proof -
  have "length rest \<le> length fmt \<and> pending spec' = 0 \<or> rest = drop 2 fmt \<and> fmt \<noteq> [] \<and> pending spec' \<le> 1"
    using assms
    by (auto simp: decode_precision_def Let_def at_def pending_def split: if_splits prod.splits
        dest!: decode_qualifier_length skip_atoi_length)
  then show ?thesis by (cases fmt) auto
qed

lemma decode_width_length:
  assumes "decode_width fmt spec = (spec', rest)"
  shows "2 * length rest + pending spec' \<le> 2 * length fmt"
proof (cases "isdigit (at 0 fmt)")
  case True
  obtain i r where s: "skip_atoi 0 fmt = (i, r)" by fastforce
  then show ?thesis
    using assms True skip_atoi_length[OF s] by (auto simp: decode_width_def Let_def dest!: decode_precision_length)
next
  case False
  then show ?thesis
    using assms by (cases fmt) (auto simp: decode_width_def Let_def at_def pending_def split: if_splits dest!: decode_precision_length)
qed

lemma format_decode_progress:
  assumes "format_decode fmt spec = (n, spec')" "fmt \<noteq> []"
  shows "2 * length (drop n fmt) + pending spec' < 2 * length fmt + pending spec"
proof (cases "pending spec = 0")
  case True
  then have ty: "sp_type spec \<noteq> FORMAT_TYPE_WIDTH" "sp_type spec \<noteq> FORMAT_TYPE_PRECISION" by (auto simp: pending_def split: if_splits)
  show ?thesis
  proof (cases "takeWhile (\<lambda>c. c \<noteq> 0x25) fmt = []")
    case False
    then have "0 < n" "pending spec' = 0" using assms ty by (auto simp: format_decode_def Let_def pending_def)
    moreover have "0 < length fmt" using assms(2) by simp
    ultimately show ?thesis unfolding length_drop by linarith
  next
    case none: True
    obtain flags rest where f: "decode_flags (drop 1 fmt) 0 = (flags, rest)" by fastforce
    obtain s r where w: "decode_width rest ((spec\<lparr>sp_type := FORMAT_TYPE_NONE\<rparr>)\<lparr>sp_flags := flags\<rparr>) = (s, r)" by fastforce
    have "n = length fmt - length r" "spec' = s" using assms ty none f w by (auto simp: format_decode_def Let_def)
    moreover have "2 * length r + pending s \<le> 2 * length rest" by (rule decode_width_length[OF w])
    moreover have "length rest < length fmt" using decode_flags_length[of "drop 1 fmt" 0] f assms(2) by (cases fmt) auto
    ultimately show ?thesis by simp
  qed
next
  case False
  then have ty: "sp_type spec = FORMAT_TYPE_WIDTH \<or> sp_type spec = FORMAT_TYPE_PRECISION" "pending spec = 1"
    by (auto simp: pending_def split: if_splits)
  have "2 * length (drop n fmt) + pending spec' \<le> 2 * length fmt"
  proof (cases "sp_type spec = FORMAT_TYPE_WIDTH")
    case True
    then show ?thesis
      using assms(1) by (auto simp: format_decode_def Let_def split: prod.splits dest!: decode_precision_length)
  next
    case False
    then have "sp_type spec = FORMAT_TYPE_PRECISION" using ty by simp
    then show ?thesis
      using assms(1) by (auto simp: format_decode_def Let_def split: prod.splits dest!: decode_qualifier_length)
  qed
  then show ?thesis using ty(2) by auto
qed

lemma pending_update [simp]: "pending (spec\<lparr>field_width := w\<rparr>) = pending spec" "pending (spec\<lparr>precision := w\<rparr>) = pending spec"
  by (simp_all add: pending_def)

lemma put_char_pending: "put_char e c spec out = (spec', out') \<Longrightarrow> pending spec' = pending spec"
  by (auto simp: put_char_def Let_def split: if_splits prod.splits)

definition fmt_measure :: "fmt_state \<Rightarrow> nat" where
  "fmt_measure = (\<lambda>(fmt, args, spec, out). 2 * length fmt + pending spec)"

lemma vsnprintf_step_progress:
  assumes "vsnprintf_step pv buf e st = Inr st'" "fst st \<noteq> []"
  shows "fmt_measure st' < fmt_measure st"
proof -
  obtain fmt args spec out where st: "st = (fmt, args, spec, out)" by (cases st) auto
  obtain n spec1 where d: "format_decode fmt spec = (n, spec1)" by fastforce
  obtain fmt' args' spec' out' where st': "st' = (fmt', args', spec', out')" by (cases st') auto
  have "length fmt' \<le> length (drop n fmt) \<and> pending spec' = pending spec1"
    using assms(1) unfolding st st' vsnprintf_step_def prod.case d Let_def
    by (cases "sp_type spec1")
       (auto simp: outcome_simps put_char_pending split: prod.splits intro: order_trans[OF length_dropWhile_le])
  then show ?thesis using format_decode_progress[OF d] assms(2) by (simp add: st st' fmt_measure_def)
qed

function vsnprintf_loop :: "nested \<Rightarrow> u64 \<Rightarrow> u64 \<Rightarrow> fmt_state \<Rightarrow> outpos outcome" where
  "vsnprintf_loop pv buf e st =
     (if fst st = [] then Inr (snd (snd (snd st)))
      else bindE (vsnprintf_step pv buf e st) (\<lambda>st. vsnprintf_loop pv buf e st))"
  by pat_completeness auto
termination by (relation "measure (\<lambda>(pv, buf, e, st). fmt_measure st)") (auto intro: vsnprintf_step_progress)

declare vsnprintf_loop.simps [simp del]

definition vsnprintf_with :: "nested \<Rightarrow> u64 \<Rightarrow> u64 \<Rightarrow> u8 list \<Rightarrow> u64 list \<Rightarrow> mem \<Rightarrow> (u32 \<times> mem) outcome" where
  "vsnprintf_with pv buf sz fmt args m =
     bug_on (neg32 (ucast sz)) ''< 0'' (
     let e = buf + sz; (e, sz) = (if e < buf then (- 1, - 1 - buf) else (e, sz))
     in bindE (vsnprintf_loop pv buf e (fmt, args, spec_zero, buf, m)) (\<lambda>(str, m).
        Inr (ucast (str - buf), if 0 < sz then m((if str < e then str else e - 1) := 0) else m)))"

text \<open>The nesting of \<^verbatim>\<open>%pV\<close> is counted; deeper than the count is taken for without end.\<close>

fun vsnprintf :: "nat \<Rightarrow> (mem \<Rightarrow> u64 \<Rightarrow> u8 list \<times> u64 list) \<Rightarrow> u64 \<Rightarrow> u64 \<Rightarrow> u8 list \<Rightarrow> u64 list \<Rightarrow> mem \<Rightarrow> (u32 \<times> mem) outcome" where
  "vsnprintf 0 vaf buf sz fmt args m = Inl (Hang ''%pV'')"
| "vsnprintf (Suc d) vaf buf sz fmt args m =
     vsnprintf_with (\<lambda>buf sz ptr m. let (fmt, args) = vaf m ptr in vsnprintf d vaf buf sz fmt args m) buf sz fmt args m"

definition vscnprintf :: "nat \<Rightarrow> (mem \<Rightarrow> u64 \<Rightarrow> u8 list \<times> u64 list) \<Rightarrow> u64 \<Rightarrow> u64 \<Rightarrow> u8 list \<Rightarrow> u64 list \<Rightarrow> mem \<Rightarrow> (u32 \<times> mem) outcome" where
  "vscnprintf d vaf buf sz fmt args m =
     bindE (vsnprintf d vaf buf sz fmt args m) (\<lambda>(i, m).
     Inr (if scast i < sz then i else if sz \<noteq> 0 then ucast (sz - 1) else 0, m))"

definition snprintf :: "nat \<Rightarrow> (mem \<Rightarrow> u64 \<Rightarrow> u8 list \<times> u64 list) \<Rightarrow> u64 \<Rightarrow> u64 \<Rightarrow> u8 list \<Rightarrow> u64 list \<Rightarrow> mem \<Rightarrow> (u32 \<times> mem) outcome" where
  "snprintf d vaf buf sz fmt args m = vsnprintf d vaf buf sz fmt args m"

definition scnprintf :: "nat \<Rightarrow> (mem \<Rightarrow> u64 \<Rightarrow> u8 list \<times> u64 list) \<Rightarrow> u64 \<Rightarrow> u64 \<Rightarrow> u8 list \<Rightarrow> u64 list \<Rightarrow> mem \<Rightarrow> (u32 \<times> mem) outcome" where
  "scnprintf d vaf buf sz fmt args m = vscnprintf d vaf buf sz fmt args m"

definition vsprintf :: "nat \<Rightarrow> (mem \<Rightarrow> u64 \<Rightarrow> u8 list \<times> u64 list) \<Rightarrow> u64 \<Rightarrow> u8 list \<Rightarrow> u64 list \<Rightarrow> mem \<Rightarrow> (u32 \<times> mem) outcome" where
  "vsprintf d vaf buf fmt args m = vsnprintf d vaf buf 0x7fffffff fmt args m"

definition sprintf :: "nat \<Rightarrow> (mem \<Rightarrow> u64 \<Rightarrow> u8 list \<times> u64 list) \<Rightarrow> u64 \<Rightarrow> u8 list \<Rightarrow> u64 list \<Rightarrow> mem \<Rightarrow> (u32 \<times> mem) outcome" where
  "sprintf d vaf buf fmt args m = vsnprintf d vaf buf 0x7fffffff fmt args m"

section \<open>Formatted input\<close>

text \<open>The format, the text and the arguments left, the number of conversions and the memory.\<close>

type_synonym scan_state = "u8 list \<times> u8 list \<times> u64 list \<times> nat \<times> mem"

text \<open>
  How a round ends: \<^verbatim>\<open>continue\<close>, \<^verbatim>\<open>return num\<close>, or \<^verbatim>\<open>break\<close>, there with the number of characters by which \<^verbatim>\<open>str\<close> has gone
  past the end of the text.
\<close>

datatype scan_end = Continue scan_state | Return scan_state | Break nat scan_state

definition store16_le :: "u64 \<Rightarrow> u16 \<Rightarrow> mem \<Rightarrow> mem" where
  "store16_le a v m = m(a := ucast v, a + 1 := ucast (drop_bit 8 v))"

definition scan_store :: "u8 \<Rightarrow> u64 \<Rightarrow> u64 \<Rightarrow> mem \<Rightarrow> mem" where
  "scan_store qualifier p v m =
     (if qualifier = 0x48 then m(p := ucast v)
      else if qualifier = 0x68 then store16_le p (ucast v) m
      else if qualifier = 0x6c \<or> qualifier = 0x4c \<or> qualifier = 0x5a \<or> qualifier = 0x7a then store64_le p v m
      else store32_le p (ucast v) m)"

definition scan_value :: "u8 \<Rightarrow> bool \<Rightarrow> u8 list \<Rightarrow> u32 \<Rightarrow> u64 \<times> u8 list" where
  "scan_value qualifier is_sign str base =
     (if qualifier = 0x5a \<or> qualifier = 0x7a then simple_strtoul str base
      else if qualifier = 0x4c then if is_sign then simple_strtoll str base else simple_strtoull str base
      else if is_sign then simple_strtol str base else simple_strtoul str base)"

fun scan_chars :: "u16 \<Rightarrow> u8 list \<Rightarrow> u64 \<Rightarrow> mem \<Rightarrow> u8 list \<times> mem" where
  "scan_chars w [] s m = ([], m)"
| "scan_chars w (c # str) s m =
     (if 0 < sint (w - 1) \<and> str \<noteq> [] then scan_chars (w - 1) str (s + 1) (m(s := c)) else (str, m(s := c)))"

fun scan_word :: "u16 \<Rightarrow> u8 list \<Rightarrow> u64 \<Rightarrow> mem \<Rightarrow> u8 list \<times> mem" where
  "scan_word w [] s m = ([], m(s := 0))"
| "scan_word w (c # str) s m =
     (if \<not> isspace c \<and> w \<noteq> 0 then scan_word (w - 1) str (s + 1) (m(s := c)) else (c # str, m(s := 0)))"

definition scan_int :: "u32 \<Rightarrow> bool \<Rightarrow> u8 \<Rightarrow> scan_state \<Rightarrow> scan_end outcome" where
  "scan_int base is_sign qualifier = (\<lambda>(fmt, str, args, num, m).
     let str = dropWhile isspace str;
         digit = (if is_sign \<and> at 0 str = 0x2d then at 1 str else at 0 str)
     in if digit = 0 \<or> (base = 16 \<and> \<not> isxdigit digit) \<or> (base = 10 \<and> \<not> isdigit digit) \<or>
           (base = 8 \<and> (\<not> isdigit digit \<or> digit > 0x37)) \<or> (base = 0 \<and> \<not> isdigit digit)
        then Inr (Break 0 (fmt, str, args, num, m))
        else
          bindE (va_arg args) (\<lambda>(p, args).
          let (v, next) = scan_value qualifier is_sign str base
          in Inr (Continue (fmt, next, args, num + 1, scan_store qualifier p v m))))"

text \<open>The \<^verbatim>\<open>switch\<close>; \<open>len\<close> is the length of the whole text.\<close>

definition scan_conversion :: "nat \<Rightarrow> u16 \<Rightarrow> u8 \<Rightarrow> scan_state \<Rightarrow> scan_end outcome" where
  "scan_conversion len w qualifier = (\<lambda>(fmt, str, args, num, m).
     let c = at 0 fmt; fmt = drop 1 fmt
     in if c = 0x63 then
          bindE (va_arg args) (\<lambda>(s, args).
          let (str, m) = scan_chars (if w = - 1 then 1 else w) str s m in Inr (Continue (fmt, str, args, num + 1, m)))
        else if c = 0x73 then
          bindE (va_arg args) (\<lambda>(s, args).
          let (str, m) = scan_word (if w = - 1 then 0x7fff else w) (dropWhile isspace str) s m
          in Inr (Continue (fmt, str, args, num + 1, m)))
        else if c = 0x6e then
          bindE (va_arg args) (\<lambda>(p, args).
          Inr (Continue (fmt, str, args, num, store32_le p (of_nat (len - length str)) m)))
        else if c = 0x6f then scan_int 8 False qualifier (fmt, str, args, num, m)
        else if c = 0x78 \<or> c = 0x58 then scan_int 16 False qualifier (fmt, str, args, num, m)
        else if c = 0x69 then scan_int 0 True qualifier (fmt, str, args, num, m)
        else if c = 0x64 then scan_int 10 True qualifier (fmt, str, args, num, m)
        else if c = 0x75 then scan_int 10 False qualifier (fmt, str, args, num, m)
        else if c = 0x25 then
          Inr (if at 0 str \<noteq> 0x25 then Return (fmt, drop 1 str, args, num, m) else Continue (fmt, drop 1 str, args, num, m))
        else Inr (Return (fmt, str, args, num, m)))"

definition scan_qualifier :: "u8 list \<Rightarrow> u8 \<times> u8 list" where
  "scan_qualifier fmt =
     (let c = at 0 fmt
      in if is_qualifier c then
           if at 1 fmt = c \<and> c = 0x68 then (0x48, drop 2 fmt)
           else if at 1 fmt = c \<and> c = 0x6c then (0x4c, drop 2 fmt)
           else (c, drop 1 fmt)
         else (- 1, fmt))"

text \<open>A round behind the percent sign.\<close>

definition scan_directive :: "nat \<Rightarrow> scan_state \<Rightarrow> scan_end outcome" where
  "scan_directive len = (\<lambda>(fmt, str, args, num, m).
     if at 0 fmt = 0x2a then
       Inr (Continue (dropWhile (\<lambda>c. \<not> isspace c \<and> c \<noteq> 0x25) fmt, dropWhile (\<lambda>c. \<not> isspace c) str, args, num, m))
     else
       let (w, fmt) = (if isdigit (at 0 fmt) then let (i, r) = skip_atoi 0 fmt in (ucast i, r) else (- 1, fmt));
           (qualifier, fmt) = scan_qualifier fmt
       in if fmt = [] \<or> str = [] then Inr (Break 0 (fmt, str, args, num, m))
          else scan_conversion len w qualifier (fmt, str, args, num, m))"

definition vsscanf_step :: "nat \<Rightarrow> scan_state \<Rightarrow> scan_end outcome" where
  "vsscanf_step len = (\<lambda>(fmt, str, args, num, m).
     let (fmt, str) = (if isspace (at 0 fmt) then (dropWhile isspace (drop 1 fmt), dropWhile isspace str) else (fmt, str))
     in case fmt of
          [] \<Rightarrow> Inr (Break 0 (fmt, str, args, num, m))
        | c # fmt \<Rightarrow>
            if c \<noteq> 0x25 then
              Inr (if str = [] then Break 1 (fmt, str, args, num, m)
                   else if c \<noteq> hd str then Break 0 (fmt, tl str, args, num, m)
                   else Continue (fmt, tl str, args, num, m))
            else scan_directive len (fmt, str, args, num, m))"

lemma scan_int_progress: "scan_int base sg q (fmt, rest) = Inr (Continue st) \<Longrightarrow> fst st = fmt"
  by (cases rest) (auto simp: scan_int_def Let_def outcome_simps split: if_splits prod.splits)

lemma scan_conversion_progress:
  "scan_conversion len w q (fmt, rest) = Inr (Continue st) \<Longrightarrow> length (fst st) \<le> length fmt"
  by (cases rest)
     (auto simp: scan_conversion_def Let_def outcome_simps case_prod_unfold split: if_splits dest!: scan_int_progress)

lemma scan_qualifier_length: "scan_qualifier fmt = (q, rest) \<Longrightarrow> length rest \<le> length fmt"
  by (auto simp: scan_qualifier_def Let_def split: if_splits)

lemma scan_directive_progress:
  assumes "scan_directive len (fmt, rest) = Inr (Continue st)"
  shows "length (fst st) \<le> length fmt"
proof -
  obtain str args num m where r: "rest = (str, args, num, m)" by (cases rest) auto
  show ?thesis
  proof (cases "at 0 fmt = 0x2a")
    case True
    then show ?thesis using assms by (auto simp: scan_directive_def r length_dropWhile_le)
  next
    case False
    obtain w f1 where w: "(if isdigit (at 0 fmt) then let (i, r) = skip_atoi 0 fmt in (ucast i, r) else (- 1 :: u16, fmt)) = (w, f1)"
      by fastforce
    obtain q f2 where q: "scan_qualifier f1 = (q, f2)" by fastforce
    have "length f1 \<le> length fmt" using w by (auto split: if_splits prod.splits dest!: skip_atoi_length)
    moreover have "scan_conversion len w q (f2, str, args, num, m) = Inr (Continue st)"
      using assms False w q by (auto simp: scan_directive_def r split: if_splits)
    ultimately show ?thesis using scan_qualifier_length[OF q] by (auto dest!: scan_conversion_progress)
  qed
qed

lemma vsscanf_step_progress:
  assumes "vsscanf_step len st = Inr (Continue st')"
  shows "length (fst st') < length (fst st)"
proof -
  obtain fmt str args num m where st: "st = (fmt, str, args, num, m)" by (cases st) auto
  have sp: "length (dropWhile isspace (drop 1 fmt)) \<le> length fmt - 1" using length_dropWhile_le[of isspace "drop 1 fmt"] by simp
  show ?thesis
    using assms sp
    by (auto simp: st vsscanf_step_def Let_def split: if_splits list.splits dest!: scan_directive_progress)
qed

function vsscanf_loop :: "nat \<Rightarrow> scan_state \<Rightarrow> scan_end outcome" where
  "vsscanf_loop len st =
     (if fst st = [] \<or> fst (snd st) = [] then Inr (Break 0 st)
      else bindE (vsscanf_step len st) (\<lambda>r. case r of Continue st \<Rightarrow> vsscanf_loop len st | _ \<Rightarrow> Inr r))"
  by pat_completeness auto
termination by (relation "measure (\<lambda>(len, st). length (fst st))") (auto dest: vsscanf_step_progress)

declare vsscanf_loop.simps [simp del]

definition vsscanf :: "u8 list \<Rightarrow> u8 list \<Rightarrow> u64 list \<Rightarrow> mem \<Rightarrow> (nat \<times> mem) outcome" where
  "vsscanf text fmt args m =
     bindE (vsscanf_loop (length text) (fmt, text, args, 0, m)) (\<lambda>r.
     case r of
       Continue (fmt, str, args, num, m) \<Rightarrow> Inr (num, m)
     | Return (fmt, str, args, num, m) \<Rightarrow> Inr (num, m)
     | Break past (fmt, str, args, num, m) \<Rightarrow>
         if at 0 fmt = 0x25 \<and> at 1 fmt = 0x6e then
           bindE (va_arg args) (\<lambda>(p, _). Inr (num, store32_le p (of_nat (length text - length str + past)) m))
         else Inr (num, m))"

definition sscanf :: "u8 list \<Rightarrow> u8 list \<Rightarrow> u64 list \<Rightarrow> mem \<Rightarrow> (nat \<times> mem) outcome" where
  "sscanf text fmt args m = vsscanf text fmt args m"

end
