(* ===== verification/Vsprintf_Digits.thy ===== *)
theory Vsprintf_Digits
  imports Vsprintf
begin

text \<open>
  The digits of numbers: those the conversions of \<^verbatim>\<open>vsprintf.c\<close> produce are the digits of a reference that divides by
  the base, and reading them gives the number back.
\<close>

section \<open>Character classes\<close>

text \<open>The table of \<^verbatim>\<open>ctype.c\<close> as ranges, which is quicker to evaluate.\<close>

lemma ismask_range [code]:
  "ismask c =
     (let n = unat c in if n < 9 then ctype_C else if n < 14 then ctype_C OR ctype_S else if n < 32 then ctype_C
      else if n < 33 then ctype_S OR ctype_SP else if n < 48 then ctype_P else if n < 58 then ctype_D else if n < 65 then ctype_P
      else if n < 71 then ctype_U OR ctype_X else if n < 91 then ctype_U else if n < 97 then ctype_P
      else if n < 103 then ctype_L OR ctype_X else if n < 123 then ctype_L else if n < 127 then ctype_P else if n < 128 then ctype_C
      else if n < 160 then 0 else if n < 161 then ctype_S OR ctype_SP else if n < 192 then ctype_P else if n < 215 then ctype_U
      else if n < 216 then ctype_P else if n < 223 then ctype_U else if n < 247 then ctype_L else if n < 248 then ctype_P else ctype_L)"
proof -
  have "unat c < 2 ^ LENGTH(8)" by (rule unsigned_less)
  then have "unat c < 256" by simp
  have e: "m - k = 0 \<longleftrightarrow> m < Suc k" for m k :: nat by auto
  then show ?thesis using \<open>unat c < 256\<close>
    unfolding ismask_def ctype_table_def Let_def
    by (simp add: nth_append less_diff_conv2 nth_Cons' e cong: if_cong del: diff_is_0_eq split del: if_split)
qed

lemma isdigit_range: "isdigit c \<longleftrightarrow> 48 \<le> unat c \<and> unat c < 58"
  by (simp add: isdigit_def ismask_range Let_def ctype_flags)

lemma isxdigit_range: "isxdigit c \<longleftrightarrow> 48 \<le> unat c \<and> unat c < 58 \<or> 65 \<le> unat c \<and> unat c < 71 \<or> 97 \<le> unat c \<and> unat c < 103"
  by (simp add: isxdigit_def ismask_range Let_def ctype_flags)

lemma isspace_range: "isspace c \<longleftrightarrow> 9 \<le> unat c \<and> unat c < 14 \<or> unat c = 32 \<or> unat c = 160"
  by (simp add: isspace_def ismask_range Let_def ctype_flags)

section \<open>Digits\<close>

text \<open>Reference: the digits of a number in a base, the most significant first.\<close>

fun base_digits :: "nat \<Rightarrow> nat \<Rightarrow> nat list" where
  "base_digits b n = (if n < b \<or> b < 2 then [n] else base_digits b (n div b) @ [n mod b])"

declare base_digits.simps [simp del]

lemma base_digits_small: "n < b \<Longrightarrow> base_digits b n = [n]"
  by (simp add: base_digits.simps)

lemma base_digits_step: "2 \<le> b \<Longrightarrow> b \<le> n \<Longrightarrow> base_digits b n = base_digits b (n div b) @ [n mod b]"
  by (subst base_digits.simps) simp

lemma base_digits_less: "2 \<le> b \<Longrightarrow> d \<in> set (base_digits b n) \<Longrightarrow> d < b"
proof (induction b n rule: base_digits.induct)
  case (1 b n)
  then show ?case by (cases "n < b") (auto simp: base_digits_small base_digits_step)
qed

text \<open>A byte of a digit below ten, and of any digit by the table, with the bit for lower case.\<close>

definition dec_char :: "nat \<Rightarrow> u8" where
  "dec_char d = of_nat d + 0x30"

definition digit_char :: "u8 \<Rightarrow> nat \<Rightarrow> u8" where
  "digit_char locase d = digits ! d OR locase"

text \<open>The fast divisions by ten.\<close>

lemma div10_205: "(10 * a + b) * 205 div 2048 = (a::nat)" if "b < 10" "a < 100"
  using that by (intro div_nat_eqI) simp_all

lemma div10_13: "(10 * a + b) * 13 div 128 = (a::nat)" if "b < 10" "10 * a + b < 64"
  using that by (intro div_nat_eqI) simp_all

lemma drop_bit_of_nat: "n < 2 ^ 32 \<Longrightarrow> drop_bit k (of_nat n :: u32) = of_nat (n div 2 ^ k)"
proof (rule word_unat_eq_iff[THEN iffD2])
  assume n: "n < 2 ^ 32"
  then have "n div 2 ^ k < 2 ^ 32" by (rule order.strict_trans1[OF div_le_dividend])
  then show "unat (drop_bit k (of_nat n :: u32)) = unat (of_nat (n div 2 ^ k) :: u32)"
    using n drop_bit_eq_div[of k n] by (simp add: unat_drop_bit_eq unat_of_nat)
qed

lemma fast_div_10:
  "x = 10 * a + b \<Longrightarrow> b < 10 \<Longrightarrow> a < 100 \<Longrightarrow> drop_bit 11 (of_nat x * 0xcd :: u32) = of_nat a"
  "x = 10 * a + b \<Longrightarrow> b < 10 \<Longrightarrow> x < 64 \<Longrightarrow> drop_bit 7 (of_nat x * 0xd :: u32) = of_nat a"
proof -
  assume x: "x = 10 * a + b" "b < 10" "a < 100"
  have "drop_bit 11 (of_nat (x * 205) :: u32) = of_nat (x * 205 div 2048)" using x by (subst drop_bit_of_nat) simp_all
  then show "drop_bit 11 (of_nat x * 0xcd :: u32) = of_nat a" using div10_205[OF x(2,3)] x(1) by simp
next
  assume x: "x = 10 * a + b" "b < 10" "x < 64"
  have "drop_bit 7 (of_nat (x * 13) :: u32) = of_nat (x * 13 div 128)" using x by (subst drop_bit_of_nat) simp_all
  then show "drop_bit 7 (of_nat x * 0xd :: u32) = of_nat a" using div10_13[OF x(2)] x by simp
qed

lemma fast_mod_10: "x = 10 * a + b \<Longrightarrow> of_nat x - 10 * of_nat a = (of_nat b :: u32)" for x :: nat
  by simp

lemma dec_char_ucast: "ucast (of_nat d + 0x30 :: u32) = dec_char d"
proof -
  have "ucast (of_nat k :: u32) = (of_nat k :: u8)" for k by (rule bit_word_eqI) (auto simp: bit_simps)
  from this[of "d + 48"] show ?thesis by (simp add: dec_char_def)
qed

text \<open>The digits of a number below 100000, as the code finds them.\<close>

lemma bcd_parts:
  assumes "n < 100000"
  obtains a b c d q0 r0 q1 r1 q2 r2 q3 r3 :: nat where
    "drop_bit 12 (of_nat n :: u32) = of_nat a" "drop_bit 8 (of_nat n :: u32) AND 0xf = of_nat b"
    "drop_bit 4 (of_nat n :: u32) AND 0xf = of_nat c" "(of_nat n :: u32) AND 0xf = of_nat d"
    "6 * (a + b + c) + d = 10 * q0 + r0" "q0 + 9 * a + 5 * b + c = 10 * q1 + r1" "q1 + 2 * b = 10 * q2 + r2" "q2 + 4 * a = 10 * q3 + r3"
    "r0 < 10" "r1 < 10" "r2 < 10" "r3 < 10" "q0 < 100" "q1 < 100" "q2 < 100" "q3 < 10" "q1 + 2 * b < 64"
    "n = 10 * (10 * (10 * (10 * q3 + r3) + r2) + r1) + r0" "a < 25" "b < 16" "c < 16"
proof -
  obtain m d where m: "n = 16 * m + d" "d < 16" by (metis add.commute div_mult_mod_eq mod_less_divisor mult.commute zero_less_numeral)
  obtain l c where l: "m = 16 * l + c" "c < 16" by (metis add.commute div_mult_mod_eq mod_less_divisor mult.commute zero_less_numeral)
  obtain a b where a: "l = 16 * a + b" "b < 16" by (metis add.commute div_mult_mod_eq mod_less_divisor mult.commute zero_less_numeral)
  have split: "\<exists>q r. x = 10 * q + r \<and> r < 10" for x :: nat
    by (metis add.commute div_mult_mod_eq mod_less_divisor mult.commute zero_less_numeral)
  obtain q0 r0 where 0: "6 * (a + b + c) + d = 10 * q0 + r0" "r0 < 10" using split by blast
  obtain q1 r1 where 1: "q0 + 9 * a + 5 * b + c = 10 * q1 + r1" "r1 < 10" using split by blast
  obtain q2 r2 where 2: "q1 + 2 * b = 10 * q2 + r2" "r2 < 10" using split by blast
  obtain q3 r3 where 3: "q2 + 4 * a = 10 * q3 + r3" "r3 < 10" using split by blast
  have n: "n = 4096 * a + 256 * b + 16 * c + d" using m l a by simp
  have a25: "a < 25" using n assms by simp
  have dig: "n = 10 * (10 * (10 * (10 * q3 + r3) + r2) + r1) + r0" using 0 1 2 3 n by simp
  have w: "drop_bit k (of_nat n :: u32) = of_nat (n div 2 ^ k)" for k using assms by (intro drop_bit_of_nat) simp
  have f: "(of_nat x :: u32) AND 0xf = of_nat (x mod 16)" for x
  proof -
    have "(of_nat x :: u32) AND 0xf = take_bit 4 (of_nat x)" by (simp add: take_bit_eq_mask mask_eq_exp_minus_1)
    also have "\<dots> = of_nat (take_bit 4 x)" by (rule take_bit_of_nat)
    finally show ?thesis by (simp add: take_bit_eq_mod)
  qed
  have q: "n div 16 = m" "m div 16 = l" "l div 16 = a" using m l a by simp_all
  have qd: "n mod 16 = d" using m by (simp only: mod_mult_self4 mod_less)
  have q': "m mod 16 = c" "l mod 16 = b" using l a by (simp_all only: mod_mult_self4 mod_less)
  have dv: "n div 4096 = a" "n div 256 mod 16 = b" "n div 16 mod 16 = c" "n mod 16 = d"
    using q q' qd div_mult2_eq[of n 16 16] div_mult2_eq[of n 256 16] by simp_all
  show thesis
  proof (rule that[of a b c d q0 r0 q1 r1 q2 r2 q3 r3])
    show q0: "q0 < 100" using 0 a25 a(2) l(2) m(2) by simp
    show q1: "q1 < 100" using q0 1 a25 a(2) l(2) by simp
    show q2: "q2 < 100" using q1 2 a(2) by simp
    show "q1 + 2 * b < 64" using 0 1 a25 a(2) l(2) m(2) by simp
    show "q3 < 10" using dig assms by simp
    show "(of_nat n :: u32) AND 0xf = of_nat d" using f[of n] dv(4) by simp
    show "drop_bit 12 (of_nat n :: u32) = of_nat a" "drop_bit 8 (of_nat n :: u32) AND 0xf = of_nat b"
      "drop_bit 4 (of_nat n :: u32) AND 0xf = of_nat c" unfolding w f using dv by simp_all
  qed (fact 0 1 2 3 dig a25 a l)+
qed

lemma dec5_digits:
  fixes n :: nat
  assumes n: "n = 10 * (10 * (10 * (10 * q3 + r3) + r2) + r1) + r0" and d: "r0 < 10" "r1 < 10" "r2 < 10" "r3 < 10"
  shows "n mod 10 = r0" "n div 10 mod 10 = r1" "n div 100 mod 10 = r2" "n div 1000 mod 10 = r3" "n div 10000 = q3"
proof -
  have q: "n div 10 = 10 * (10 * (10 * q3 + r3) + r2) + r1" "n div 100 = 10 * (10 * q3 + r3) + r2"
    "n div 1000 = 10 * q3 + r3" "n div 10000 = q3" using n d by simp_all
  have q0: "n mod 10 = r0" using n d by (simp only: mod_mult_self4 mod_less)
  show "n mod 10 = r0" "n div 10 mod 10 = r1" "n div 100 mod 10 = r2" "n div 1000 mod 10 = r3" "n div 10000 = q3"
    unfolding q q0 by (simp_all only: mod_mult_self4 mod_less d)
qed

lemma put_dec_full_digits:
  assumes "n < 100000"
  shows "put_dec_full (of_nat n) = map dec_char [n mod 10, n div 10 mod 10, n div 100 mod 10, n div 1000 mod 10, n div 10000]"
proof -
  from assms show ?thesis
  proof (rule bcd_parts)
    fix a b c d q0 r0 q1 r1 q2 r2 q3 r3 :: nat
    assume w: "drop_bit 12 (of_nat n :: u32) = of_nat a" "drop_bit 8 (of_nat n :: u32) AND 0xf = of_nat b"
      "drop_bit 4 (of_nat n :: u32) AND 0xf = of_nat c" "(of_nat n :: u32) AND 0xf = of_nat d"
      and s: "6 * (a + b + c) + d = 10 * q0 + r0" "q0 + 9 * a + 5 * b + c = 10 * q1 + r1" "q1 + 2 * b = 10 * q2 + r2" "q2 + 4 * a = 10 * q3 + r3"
      and d: "r0 < 10" "r1 < 10" "r2 < 10" "r3 < 10" "q0 < 100" "q1 < 100" "q2 < 100" "q3 < 10" "q1 + 2 * b < 64"
      and n: "n = 10 * (10 * (10 * (10 * q3 + r3) + r2) + r1) + r0"
    have e: "6 * (of_nat a + of_nat b + of_nat c) + of_nat d = (of_nat (6 * (a + b + c) + d) :: u32)"
      "of_nat q0 + 9 * of_nat a + 5 * of_nat b + of_nat c = (of_nat (q0 + 9 * a + 5 * b + c) :: u32)"
      "of_nat q1 + 2 * of_nat b = (of_nat (q1 + 2 * b) :: u32)" "of_nat q2 + 4 * of_nat a = (of_nat (q2 + 4 * a) :: u32)" by simp_all
    have q3: "q3 < 100" using d by simp
    note f = fast_div_10(1)[OF s(1) d(1,5)] fast_mod_10[OF s(1)] fast_div_10(1)[OF s(2) d(2,6)] fast_mod_10[OF s(2)]
      fast_div_10(2)[OF s(3) d(3,9)] fast_mod_10[OF s(3)] fast_div_10(1)[OF s(4) d(4) q3] fast_mod_10[OF s(4)]
    have "put_dec_full (of_nat n) = map dec_char [r0, r1, r2, r3, q3]"
      by (simp only: put_dec_full_def Let_def w e f dec_char_ucast list.map)
    moreover have "n mod 10 = r0" "n div 10 mod 10 = r1" "n div 100 mod 10 = r2" "n div 1000 mod 10 = r3" "n div 10000 = q3"
      using dec5_digits[OF n d(1-4)] by simp_all
    ultimately show ?thesis by simp
  qed
qed

lemma base_digits_10:
  assumes "d < 10"
  shows "base_digits 10 (10 * m + d) = (if m = 0 then [d] else base_digits 10 m @ [d])"
proof (cases "m = 0")
  case False
  have "(10 * m + d) div 10 = m" "(10 * m + d) mod 10 = d" using assms by (simp, simp only: mod_mult_self4 mod_less)
  then show ?thesis using False base_digits_step[of 10 "10 * m + d"] by simp
qed (simp add: base_digits_small assms)

lemma put_dec_trunc_digits:
  assumes "n < 100000"
  shows "put_dec_trunc (of_nat n) = map dec_char (rev (base_digits 10 n))"
proof -
  from assms show ?thesis
  proof (rule bcd_parts)
    fix a b c d q0 r0 q1 r1 q2 r2 q3 r3 :: nat
    assume w: "drop_bit 12 (of_nat n :: u32) = of_nat a" "drop_bit 8 (of_nat n :: u32) AND 0xf = of_nat b"
      "drop_bit 4 (of_nat n :: u32) AND 0xf = of_nat c" "(of_nat n :: u32) AND 0xf = of_nat d"
      and s: "6 * (a + b + c) + d = 10 * q0 + r0" "q0 + 9 * a + 5 * b + c = 10 * q1 + r1" "q1 + 2 * b = 10 * q2 + r2" "q2 + 4 * a = 10 * q3 + r3"
      and d: "r0 < 10" "r1 < 10" "r2 < 10" "r3 < 10" "q0 < 100" "q1 < 100" "q2 < 100" "q3 < 10" "q1 + 2 * b < 64"
      and n: "n = 10 * (10 * (10 * (10 * q3 + r3) + r2) + r1) + r0" and abc: "a < 25" "b < 16" "c < 16"
    have e: "6 * (of_nat a + of_nat b + of_nat c) + of_nat d = (of_nat (6 * (a + b + c) + d) :: u32)"
      "of_nat q0 + 9 * of_nat a + 5 * of_nat b + of_nat c = (of_nat (q0 + 9 * a + 5 * b + c) :: u32)"
      "of_nat q1 + 2 * of_nat b = (of_nat (q1 + 2 * b) :: u32)" "of_nat q2 + 4 * of_nat a = (of_nat (q2 + 4 * a) :: u32)" by simp_all
    have q3: "q3 < 100" using d by simp
    note f = fast_div_10(1)[OF s(1) d(1,5)] fast_mod_10[OF s(1)] fast_div_10(1)[OF s(2) d(2,6)] fast_mod_10[OF s(2)]
      fast_div_10(2)[OF s(3) d(3,9)] fast_mod_10[OF s(3)] fast_div_10(1)[OF s(4) d(4) q3] fast_mod_10[OF s(4)]
    have nz: "(of_nat k :: u32) \<noteq> 0 \<longleftrightarrow> k \<noteq> 0" if "k < 2 ^ 32" for k using that by (cases "k = 0") (auto simp: word_of_nat_eq_0_iff dest: nat_dvd_not_less)
    have z: "(of_nat (q0 + 9 * a + 5 * b + c) :: u32) \<noteq> 0 \<longleftrightarrow> 10 * (10 * (10 * q3 + r3) + r2) + r1 \<noteq> 0"
      "(of_nat (q1 + 2 * b) :: u32) \<noteq> 0 \<or> (of_nat a :: u32) \<noteq> 0 \<longleftrightarrow> 10 * (10 * q3 + r3) + r2 \<noteq> 0"
      "(of_nat (q2 + 4 * a) :: u32) \<noteq> 0 \<longleftrightarrow> 10 * q3 + r3 \<noteq> 0" "(of_nat q3 :: u32) \<noteq> 0 \<longleftrightarrow> q3 \<noteq> 0"
    proof -
      have "q0 + 9 * a + 5 * b + c = 0 \<longleftrightarrow> 10 * (10 * (10 * q3 + r3) + r2) + r1 = 0" by (rule iffI; use s in simp)
      then have n1: "q0 + 9 * a + 5 * b + c \<noteq> 0 \<longleftrightarrow> 10 * (10 * (10 * q3 + r3) + r2) + r1 \<noteq> 0" by (rule arg_cong)
      have "q1 + 2 * b = 0 \<and> a = 0 \<longleftrightarrow> 10 * (10 * q3 + r3) + r2 = 0" by (rule iffI; use s in simp)
      then have n2: "q1 + 2 * b \<noteq> 0 \<or> a \<noteq> 0 \<longleftrightarrow> 10 * (10 * q3 + r3) + r2 \<noteq> 0" by (simp only: de_Morgan_conj[symmetric])
      have "q2 + 4 * a = 0 \<longleftrightarrow> 10 * q3 + r3 = 0" using s by simp
      then have n3: "q2 + 4 * a \<noteq> 0 \<longleftrightarrow> 10 * q3 + r3 \<noteq> 0" by (rule arg_cong)
      have "q0 + 9 * a + 5 * b + c < 2 ^ 32" "q1 + 2 * b < 2 ^ 32" "a < 2 ^ 32" "q2 + 4 * a < 2 ^ 32" "q3 < 2 ^ 32"
        using d abc by simp_all
      then show "(of_nat (q0 + 9 * a + 5 * b + c) :: u32) \<noteq> 0 \<longleftrightarrow> 10 * (10 * (10 * q3 + r3) + r2) + r1 \<noteq> 0"
        "(of_nat (q1 + 2 * b) :: u32) \<noteq> 0 \<or> (of_nat a :: u32) \<noteq> 0 \<longleftrightarrow> 10 * (10 * q3 + r3) + r2 \<noteq> 0"
        "(of_nat (q2 + 4 * a) :: u32) \<noteq> 0 \<longleftrightarrow> 10 * q3 + r3 \<noteq> 0" "(of_nat q3 :: u32) \<noteq> 0 \<longleftrightarrow> q3 \<noteq> 0"
        unfolding n1[symmetric] n2[symmetric] n3[symmetric] by (simp_all only: nz)
    qed
    have "put_dec_trunc (of_nat n) = map dec_char (r0 # (if 10 * (10 * (10 * q3 + r3) + r2) + r1 \<noteq> 0 then
        r1 # (if 10 * (10 * q3 + r3) + r2 \<noteq> 0 then r2 # (if 10 * q3 + r3 \<noteq> 0 then r3 # (if q3 \<noteq> 0 then [q3] else []) else []) else []) else []))"
      by (simp only: put_dec_trunc_def Let_def w e f z dec_char_ucast list.map if_distrib[of "map dec_char"])
    also have "\<dots> = map dec_char (rev (base_digits 10 n))"
      unfolding n by (simp only: base_digits_10 d base_digits_small if_distrib[of rev] rev_append rev.simps append.simps) simp
    finally show ?thesis .
  qed
qed

lemma split_10: "\<exists>q r. x = 10 * q + r \<and> r < 10" for x :: nat
  by (metis add.commute div_mult_mod_eq mod_less_divisor mult.commute zero_less_numeral)

lemma base_digits_app:
  assumes "m \<noteq> 0" "n = 100000 * m + r" "r < 100000"
  shows "rev (base_digits 10 n) = [r mod 10, r div 10 mod 10, r div 100 mod 10, r div 1000 mod 10, r div 10000] @ rev (base_digits 10 m)"
proof -
  obtain a d0 where 0: "r = 10 * a + d0" "d0 < 10" using split_10 by blast
  obtain b d1 where 1: "a = 10 * b + d1" "d1 < 10" using split_10 by blast
  obtain c d2 where 2: "b = 10 * c + d2" "d2 < 10" using split_10 by blast
  obtain d4 d3 where 3: "c = 10 * d4 + d3" "d3 < 10" using split_10 by blast
  have r: "r = 10 * (10 * (10 * (10 * d4 + d3) + d2) + d1) + d0" unfolding 0 1 2 3 ..
  have d4: "d4 < 10" using r assms(3) by simp
  have n: "n = 10 * (10 * (10 * (10 * (10 * m + d4) + d3) + d2) + d1) + d0" using assms(2) r by simp
  have "rev (base_digits 10 n) = [d0, d1, d2, d3, d4] @ rev (base_digits 10 m)"
    using assms(1) unfolding n by (simp add: base_digits_10 0(2) 1(2) 2(2) 3(2) d4 del: distrib_left_numeral)
  then show ?thesis by (simp only: dec5_digits[OF r 0(2) 1(2) 2(2) 3(2)])
qed

lemma put_dec_digits: "put_dec num = map dec_char (rev (base_digits 10 (unat num)))"
proof (induction num rule: put_dec.induct)
  case (1 num)
  show ?case
  proof (cases "num < 100000")
    case True
    then have "unat num < 100000" "ucast num = (of_nat (unat num) :: u32)" by (simp_all add: word_less_nat_alt)
    then show ?thesis using True put_dec_trunc_digits[of "unat num"] by (simp add: put_dec.simps)
  next
    case False
    let ?r = "unat num mod 100000" let ?m = "unat num div 100000"
    have big: "100000 \<le> unat num" using False by (simp add: word_less_nat_alt)
    have "ucast (num mod 100000) = (of_nat (unat (num mod 100000)) :: u32)" by simp
    then have r: "ucast (num mod 100000) = (of_nat ?r :: u32)" by (simp only: unat_mod unat_numeral) simp
    have "put_dec num = put_dec_full (of_nat ?r) @ put_dec (num div 100000)" using False r by (subst put_dec.simps) simp
    also have "put_dec (num div 100000) = map dec_char (rev (base_digits 10 ?m))" using 1 False by (simp add: unat_div)
    also have "put_dec_full (of_nat ?r) = map dec_char [?r mod 10, ?r div 10 mod 10, ?r div 100 mod 10, ?r div 1000 mod 10, ?r div 10000]"
      by (rule put_dec_full_digits) simp
    finally show ?thesis using base_digits_app[of ?m "unat num" ?r] big by simp
  qed
qed

lemma digits_nth: "d < 16 \<Longrightarrow> digits ! d = (if d < 10 then dec_char d else of_nat d + 0x37)"
proof -
  have "\<forall>d < 16. digits ! d = (if d < 10 then dec_char d else of_nat d + 0x37)" by code_simp
  then show "d < 16 \<Longrightarrow> digits ! d = (if d < 10 then dec_char d else of_nat d + 0x37)" by blast
qed

text \<open>The bit for lower case changes no digit below ten.\<close>

lemma digit_char_10: "d < 10 \<Longrightarrow> locase \<in> {0, SMALL} \<Longrightarrow> digit_char locase d = dec_char d"
proof -
  have "\<forall>d < 10. \<forall>l \<in> {0, SMALL}. digit_char l d = dec_char d" by code_simp
  then show "d < 10 \<Longrightarrow> locase \<in> {0, SMALL} \<Longrightarrow> digit_char locase d = dec_char d" by blast
qed

lemma digits_loop_digits:
  assumes "base = 8 \<or> base = 16"
  shows "digits_loop base locase num = map (digit_char locase) (rev (base_digits (unat base) (unat num)))"
  using assms
proof (induction base locase num rule: digits_loop.induct)
  case (1 base locase num)
  have b: "base = 8 \<or> base = 16" "2 \<le> unat base" using "1.prems" by auto
  have "ucast num AND (base - 1) = (take_bit (digit_shift base) (ucast num) :: u8)"
    using b by (auto simp: digit_shift_def take_bit_eq_mask mask_eq_exp_minus_1)
  then have "unat (ucast num AND (base - 1)) = take_bit (min (digit_shift base) 8) (unat num)"
    by (simp only: unsigned_take_bit_eq unsigned_ucast_eq take_bit_take_bit) simp
  then have d: "unat (ucast num AND (base - 1)) = unat num mod unat base"
    using b(1) by (auto simp: digit_shift_def take_bit_eq_mod)
  have s: "unat (drop_bit (digit_shift base) num) = unat num div unat base"
    using b(1) by (auto simp: drop_bit_eq_div unat_div digit_shift_def)
  show ?case
  proof (cases "drop_bit (digit_shift base) num = 0")
    case True
    then have "unat num div unat base = 0" using s by simp
    then have "unat num < unat base" using b(2) by (simp add: div_eq_0_iff)
    then show ?thesis using True d by (subst digits_loop.simps) (simp add: base_digits_small digit_char_def)
  next
    case False
    then have "unat num div unat base \<noteq> 0" unfolding s[symmetric] by (simp add: unat_eq_0)
    then have "unat base \<le> unat num" using b(2) by (simp add: div_eq_0_iff not_less)
    then have "base_digits (unat base) (unat num) = base_digits (unat base) (unat num div unat base) @ [unat num mod unat base]"
      by (rule base_digits_step[OF b(2)])
    then show ?thesis
      using False "1.IH"[OF refl False b(1)] d s by (subst digits_loop.simps) (simp add: digit_char_def)
  qed
qed

text \<open>The digits in \<^verbatim>\<open>tmp\<close> are those of the reference, for every base and case the code uses.\<close>

lemma number_digits_base:
  assumes "base \<in> {8, 10, 16}" "locase \<in> {0, SMALL}"
  shows "number_digits base locase num = map (digit_char locase) (rev (base_digits (unat base) (unat num)))"
proof (cases "num = 0")
  case True
  then show ?thesis using assms digit_char_10[of 0 locase] by (auto simp: number_digits_def base_digits_small dec_char_def)
next
  case False
  show ?thesis
  proof (cases "base = 10")
    case True
    have "digit_char locase d = dec_char d" if "d \<in> set (base_digits 10 (unat num))" for d
      using digit_char_10[OF base_digits_less[OF _ that] assms(2)] by simp
    then show ?thesis using True False by (simp add: number_digits_def put_dec_digits)
  next
    case False
    then show ?thesis using \<open>num \<noteq> 0\<close> assms(1) by (simp add: number_digits_def digits_loop_digits)
  qed
qed

text \<open>
  C39: Decimal digits. The conversion of \<^verbatim>\<open>vsprintf.c\<close>, which multiplies by reciprocals and takes five digits at a time,
  produces for every 64-bit number the digits of repeated division by ten, the last one first.
\<close>
theorem put_dec_reference: "put_dec num = map dec_char (rev (base_digits 10 (unat num)))"
  by (rule put_dec_digits)

section \<open>Reading digits\<close>

lemma byte_of_nat: "unat c = k \<Longrightarrow> c = of_nat k" for c :: u8
  by auto

lemma unat_digit_char:
  assumes "d < 16" "locase \<in> {0, SMALL}"
  shows "unat (digit_char locase d) = (if d < 10 then 48 + d else if locase = 0 then 55 + d else 87 + d)"
    "digit_value (digit_char locase d) = of_nat d"
proof -
  have "\<forall>d < 16. \<forall>l \<in> {0, SMALL}. unat (digit_char l d) = (if d < 10 then 48 + d else if l = 0 then 55 + d else 87 + d)" by code_simp
  then show u: "unat (digit_char locase d) = (if d < 10 then 48 + d else if locase = 0 then 55 + d else 87 + d)" using assms by blast
  have digit: "isdigit (digit_char locase d) \<longleftrightarrow> d < 10" using assms by (auto simp: isdigit_range u)
  have "\<forall>d < 16. \<forall>l \<in> {0, SMALL}. 10 \<le> d \<longrightarrow> unat (TOLOWER (digit_char l d)) = d + 87" by code_simp
  then have low: "10 \<le> d \<Longrightarrow> TOLOWER (digit_char locase d) = of_nat (d + 87)" using assms by (intro byte_of_nat) blast
  have "ucast (of_nat k :: u8) = (of_nat k :: u32)" if "k < 256" for k
    using that by (simp add: word_unat_eq_iff unsigned_ucast_eq unat_of_nat take_bit_eq_mod)
  then have uc: "ucast (of_nat (48 + d) :: u8) = (of_nat (48 + d) :: u32)" "ucast (of_nat (d + 87) :: u8) = (of_nat (d + 87) :: u32)"
    using assms(1) by (auto simp del: of_nat_add)
  have "digit_char locase d = of_nat (48 + d)" if "d < 10" using u that by (intro byte_of_nat) simp
  then have "ucast (if d < 10 then digit_char locase d else TOLOWER (digit_char locase d)) = (of_nat (if d < 10 then 48 + d else d + 87) :: u32)"
    using low uc by (cases "d < 10") (simp_all del: of_nat_add)
  then show "digit_value (digit_char locase d) = of_nat d" by (auto simp: digit_value_def digit split: if_splits)
qed

lemma hex_digit_char:
  assumes "d < 16" "locase \<in> {0, SMALL}"
  shows "isxdigit (digit_char locase d) \<and> digit_value (digit_char locase d) = of_nat d \<and> (isdigit (digit_char locase d) \<longleftrightarrow> d < 10)"
  using assms unat_digit_char[OF assms] by (auto simp: isxdigit_range isdigit_range)

fun digits_val :: "nat \<Rightarrow> nat \<Rightarrow> nat list \<Rightarrow> nat" where
  "digits_val b v [] = v"
| "digits_val b v (d # ds) = digits_val b (v * b + d) ds"

lemma digits_val_app: "digits_val b v (xs @ ys) = digits_val b (digits_val b v xs) ys"
  by (induction xs arbitrary: v) auto

lemma digits_val_base: "2 \<le> b \<Longrightarrow> digits_val b 0 (base_digits b n) = n"
proof (induction b n rule: base_digits.induct)
  case (1 b n)
  then show ?case by (cases "n < b") (auto simp: base_digits_small base_digits_step digits_val_app)
qed

text \<open>The loop reads digits as long as there are some, and computes modulo \<open>2 ^ 64\<close>.\<close>

lemma strtoull_loop_digits:
  assumes "\<forall>d \<in> set ds. d < unat base" "unat base \<le> 16" "locase \<in> {0, SMALL}"
    "rest = [] \<or> \<not> (isxdigit (hd rest) \<and> digit_value (hd rest) < base)"
  shows "strtoull_loop base (of_nat v) (map (digit_char locase) ds @ rest) = (of_nat (digits_val (unat base) v ds), rest)"
  using assms(1)
proof (induction ds arbitrary: v)
  case Nil
  then show ?case using assms(4) by (cases rest) auto
next
  case (Cons d ds)
  have d: "d < unat base" "d < 16" using Cons.prems assms(2) by auto
  have dv: "of_nat d < base" using d by (simp add: word_less_nat_alt unat_of_nat)
  have u: "ucast (of_nat d :: u32) = (of_nat d :: u64)"
    using d by (simp add: word_unat_eq_iff unsigned_ucast_eq unat_of_nat take_bit_eq_mod)
  show ?case using hex_digit_char[OF d(2) assms(3)] dv Cons.IH[of "v * unat base + d"] Cons.prems u by simp
qed

lemma digit_char_not_x: "d < 16 \<Longrightarrow> locase \<in> {0, SMALL} \<Longrightarrow> TOLOWER (digit_char locase d) \<noteq> 0x78"
proof -
  have "\<forall>d < 16. \<forall>l \<in> {0, SMALL}. TOLOWER (digit_char l d) \<noteq> 0x78" by code_simp
  then show "d < 16 \<Longrightarrow> locase \<in> {0, SMALL} \<Longrightarrow> TOLOWER (digit_char locase d) \<noteq> 0x78" by blast
qed

text \<open>What may follow a number so that it is read alone.\<close>

definition number_ends :: "u32 \<Rightarrow> u8 list \<Rightarrow> bool" where
  "number_ends base rest \<longleftrightarrow> rest = [] \<or> \<not> (isxdigit (hd rest) \<and> digit_value (hd rest) < base) \<and> TOLOWER (hd rest) \<noteq> 0x78"

lemma strtoull_digits:
  assumes "base \<in> {8, 10, 16}" "locase \<in> {0, SMALL}" "number_ends (ucast base) rest"
  shows "simple_strtoull (rev (number_digits base locase n) @ rest) (ucast base) = (n, rest)"
proof -
  let ?ds = "base_digits (unat base) (unat n)"
  have b: "2 \<le> unat base" "unat base \<le> 16" "(ucast base :: u32) \<noteq> 0" "unat (ucast base :: u32) = unat base" using assms(1) by auto
  have ds: "d < unat base" "d < 16" if "d \<in> set ?ds" for d using base_digits_less[OF b(1) that] b(2) by simp_all
  have t: "rev (number_digits base locase n) = map (digit_char locase) ?ds"
    by (simp add: number_digits_base[OF assms(1,2)] rev_map)
  have no_prefix: "TOLOWER (at 1 (map (digit_char locase) ?ds @ rest)) \<noteq> 0x78"
  proof (cases "1 < length ?ds")
    case True
    then show ?thesis using digit_char_not_x[OF ds(2) assms(2), of "?ds ! 1"] by (simp add: at_def nth_append)
  next
    case False
    moreover have "?ds \<noteq> []" by (subst base_digits.simps) simp
    ultimately have "length ?ds = 1" by (cases ?ds) auto
    then show ?thesis using assms(3) by (auto simp: at_def nth_append number_ends_def TOLOWER_def hd_conv_nth)
  qed
  have "strtoull_loop (ucast base) (of_nat 0) (map (digit_char locase) ?ds @ rest) = (of_nat (digits_val (unat base) 0 ?ds), rest)"
    using strtoull_loop_digits[of ?ds "ucast base" locase rest 0] ds assms(2,3) b by (auto simp: number_ends_def)
  then show ?thesis
    using no_prefix b by (simp add: simple_strtoull_def Let_def t digits_val_base)
qed

end
