(* ===== verification/Vsprintf_Output.thy ===== *)
theory Vsprintf_Output
  imports Vsprintf_Digits
begin

text \<open>
  What formatted output does to the buffer. Every directive appends a text, of which the bytes before the end of the
  buffer are stored; \<open>renders\<close> is the text of a format with its arguments, and \<^verbatim>\<open>vsnprintf\<close> leaves as much of it in the
  buffer as there is room for.
\<close>

section \<open>Appending\<close>

abbreviation puts :: "u64 \<Rightarrow> u8 list \<Rightarrow> outpos \<Rightarrow> outpos" where
  "puts e cs \<equiv> fold (emit e) cs"

lemma puts_store:
  assumes "unat p + length cs < 2 ^ 64"
  shows "puts e cs (p, m) = (p + of_nat (length cs), store_bytes p (take (unat e - unat p) cs) m)"
  using assms
proof (induction cs arbitrary: p m)
  case (Cons c cs)
  have p: "unat (p + 1) = unat p + 1" using Cons.prems by (simp add: unat_word_ariths)
  have IH: "puts e cs (p + 1, m') = (p + 1 + of_nat (length cs), store_bytes (p + 1) (take (unat e - (unat p + 1)) cs) m')" for m'
    using Cons.IH[of "p + 1"] Cons.prems by (simp add: p)
  show ?case
  proof (cases "p < e")
    case True
    then have "unat e - unat p = Suc (unat e - (unat p + 1))" by (simp add: word_less_nat_alt)
    then show ?thesis using True by (simp add: emit_def[of e c] IH[simplified] add.assoc)
  next
    case False
    then have "unat e - unat p = 0" "unat e - (unat p + 1) = 0" by (simp_all add: word_less_nat_alt)
    then show ?thesis using False by (simp add: emit_def[of e c] IH[simplified] add.assoc)
  qed
qed simp

lemma puts_replicate: "(emit e c ^^ n) out = puts e (replicate n c) out"
  by (induction n arbitrary: out) (simp_all add: funpow_swap1)

lemma put_text_puts:
  assumes "unat p + length cs < 2 ^ 64"
  shows "put_text e cs (p, m) = puts e cs (p, m)"
proof (cases "p < e")
  case True
  then have "unat (e - p) = unat e - unat p" by (simp add: unat_sub)
  then show ?thesis using True by (simp add: put_text_def puts_store[OF assms])
next
  case False
  then have "unat e - unat p = 0" by (simp add: word_less_nat_alt)
  then show ?thesis using False by (simp add: put_text_def puts_store[OF assms])
qed

section \<open>Padding\<close>

text \<open>How often the loops run, from a counter of any value.\<close>

definition pad_count :: "nat \<Rightarrow> u16 \<Rightarrow> nat" where
  "pad_count lim w = nat (sint (w - 1) - int lim + 1)"

lemma pad_dec_puts: "pad_dec e c lim w out = (w - 1 - of_nat (pad_count lim w), puts e (replicate (pad_count lim w) c) out)"
proof (induction e c lim w out rule: pad_dec.induct)
  case (1 e c lim w out)
  show ?case
  proof (cases "int lim \<le> sint (w - 1)")
    case True
    then have "sint (w - 1 - 1) = sint (w - 1) - 1" by (intro sint_minus_one) simp
    then have "pad_count lim w = Suc (pad_count lim (w - 1))" using True by (simp add: pad_count_def)
    then show ?thesis using 1 True by (subst pad_dec.simps) (simp add: algebra_simps)
  next
    case False
    then show ?thesis by (subst pad_dec.simps) (simp add: pad_count_def)
  qed
qed

lemma pad_str_puts:
  assumes "0 \<le> len"
  shows "pad_str e len w out = (w - 1 - of_nat (nat (sint w - len)), puts e (replicate (nat (sint w - len)) 0x20) out)"
  using assms
proof (induction e len w out rule: pad_str.induct)
  case (1 e len w out)
  show ?case
  proof (cases "len < sint w")
    case True
    then have "sint (w - 1) = sint w - 1" using "1.prems" by (intro sint_minus_one) simp
    then have "nat (sint w - len) = Suc (nat (sint (w - 1) - len))" using True by simp
    then show ?thesis using 1 True by (subst pad_str.simps) (simp add: algebra_simps)
  next
    case False
    then show ?thesis using "1.prems" by (subst pad_str.simps) simp
  qed
qed

section \<open>A number\<close>

definition number_prefix :: "printf_spec \<Rightarrow> u8 list" where
  "number_prefix spec =
     (if has (sp_flags spec) SPECIAL \<and> sp_base spec \<noteq> 10 then
        0x30 # (if sp_base spec = 16 then [0x58 OR sp_flags spec AND SMALL] else [])
      else [])"

definition sign_text :: "u64 \<Rightarrow> printf_spec \<Rightarrow> u8 list" where
  "sign_text num spec = (if number_sign (sp_flags spec) num \<noteq> 0 then [number_sign (sp_flags spec) num] else [])"

definition number_tmp :: "u64 \<Rightarrow> printf_spec \<Rightarrow> u8 list" where
  "number_tmp num spec =
     rev (number_digits (sp_base spec) (sp_flags spec AND SMALL)
       (if number_sign (sp_flags spec) num = 0x2d then - num else num))"

definition number_prec :: "u64 \<Rightarrow> printf_spec \<Rightarrow> u16" where
  "number_prec num spec =
     (if int (length (number_tmp num spec)) > sint (precision spec) then of_nat (length (number_tmp num spec)) else precision spec)"

text \<open>The text, with the counters as they are.\<close>

definition number_text :: "u64 \<Rightarrow> printf_spec \<Rightarrow> u8 list" where
  "number_text num spec =
     (let left = has (sp_flags spec) LEFT; zero = \<not> left \<and> has (sp_flags spec) ZEROPAD; prec = number_prec num spec;
          w = field_width spec - of_nat (length (sign_text num spec)) - of_nat (length (number_prefix spec)) - prec;
          n1 = (if left \<or> zero then 0 else pad_count 0 w); w1 = (if left \<or> zero then w else w - 1 - of_nat n1);
          n2 = (if left then 0 else pad_count 0 w1); w2 = (if left then w1 else w1 - 1 - of_nat n2)
      in replicate n1 0x20 @ sign_text num spec @ number_prefix spec @ replicate n2 (if zero then 0x30 else 0x20) @
         replicate (pad_count (length (number_tmp num spec)) prec) 0x30 @ number_tmp num spec @ replicate (pad_count 0 w2) 0x20)"

lemma has_without_zeropad:
  "has (f AND NOT ZEROPAD) SIGN = has f SIGN" "has (f AND NOT ZEROPAD) PLUS = has f PLUS"
  "has (f AND NOT ZEROPAD) SPACE = has f SPACE" "has (f AND NOT ZEROPAD) LEFT = has f LEFT"
proof -
  have "has (f AND NOT ZEROPAD) x \<longleftrightarrow> has f (NOT ZEROPAD AND x)" for x by (simp add: has_def and.assoc)
  then show "has (f AND NOT ZEROPAD) SIGN = has f SIGN" "has (f AND NOT ZEROPAD) PLUS = has f PLUS"
    "has (f AND NOT ZEROPAD) SPACE = has f SPACE" "has (f AND NOT ZEROPAD) LEFT = has f LEFT"
    by (simp_all add: number_flags)
qed

lemma has_or: "has f (x OR y) \<longleftrightarrow> has f x \<or> has f y"
  unfolding has_def bit.conj_disj_distrib by (simp add: or_eq_0_iff)

lemma number_sign_flags: "number_sign (f AND NOT ZEROPAD) num = number_sign f num"
  by (simp add: number_sign_def has_without_zeropad)

lemma has_zeropad_not: "\<not> has (f AND NOT ZEROPAD) ZEROPAD"
  by (simp add: has_def number_flags and.assoc)

lemma number_parts:
  "(if number_sign (sp_flags spec) num \<noteq> 0 then emit e (number_sign (sp_flags spec) num) x else x) = puts e (sign_text num spec) x"
  "(if number_sign (sp_flags spec) num \<noteq> 0 then 1 else 0) = (of_nat (length (sign_text num spec)) :: u16)"
  "(if has (sp_flags spec) SPECIAL \<and> sp_base spec \<noteq> 10 then
      if sp_base spec = 16 then emit e (0x58 OR sp_flags spec AND SMALL) (emit e 0x30 x) else emit e 0x30 x else x) =
    puts e (number_prefix spec) x"
  "(if has (sp_flags spec) SPECIAL \<and> sp_base spec \<noteq> 10 then if sp_base spec = 16 then 2 else 1 else 0) =
    (of_nat (length (number_prefix spec)) :: u16)"
  "number_digits (sp_base spec) (sp_flags spec AND SMALL) (if number_sign (sp_flags spec) num = 0x2d then - num else num) =
    rev (number_tmp num spec)"
  "(if int (length (number_tmp num spec)) > sint (precision spec) then of_nat (length (number_tmp num spec)) else precision spec) =
    number_prec num spec"
  by (simp_all add: sign_text_def number_prefix_def number_tmp_def number_prec_def)

lemmas number_rules = number_def number_text_def Let_def number_sign_flags has_without_zeropad number_parts has_or has_zeropad_not
  pad_dec_puts length_rev rev_rev_ident simp_thms if_True if_False prod.case comp_def fold_append fold_simps fold_replicate replicate_0

lemma number_puts: "number e num spec out = puts e (number_text num spec) out"
proof (cases "has (sp_flags spec) LEFT")
  case True
  show ?thesis
    by (simp only: number_rules True)
next
  case False
  show ?thesis
  proof (cases "has (sp_flags spec) ZEROPAD")
    case z: True
    show ?thesis
      by (simp only: number_rules False z)
  next
    case z: False
    show ?thesis
      by (simp only: number_rules False z)
  qed
qed

text \<open>Reference: the text a conversion asks for. Sign, prefix, at least as many digits as the precision, filled up to the width.\<close>

definition number_value :: "u64 \<Rightarrow> printf_spec \<Rightarrow> nat" where
  "number_value num spec = (if has (sp_flags spec) SIGN then nat \<bar>sint num\<bar> else unat num)"

definition number_layout :: "u64 \<Rightarrow> printf_spec \<Rightarrow> u8 list" where
  "number_layout num spec =
     (let ds = map (digit_char (sp_flags spec AND SMALL)) (base_digits (unat (sp_base spec)) (number_value num spec));
          zeros = replicate (nat (sint (precision spec)) - length ds) 0x30;
          front = sign_text num spec @ number_prefix spec;
          fill = nat (sint (field_width spec)) - length (front @ zeros @ ds)
      in if has (sp_flags spec) LEFT then front @ zeros @ ds @ replicate fill 0x20
         else if has (sp_flags spec) ZEROPAD then front @ replicate fill 0x30 @ zeros @ ds
         else replicate fill 0x20 @ front @ zeros @ ds)"

lemma unat_sint:
  fixes w :: u64
  shows "0 \<le> sint w \<Longrightarrow> int (unat w) = sint w" "sint w < 0 \<Longrightarrow> int (unat w) = sint w + 2 ^ 64"
proof -
  have u: "int (unat w) = sint w mod 2 ^ 64" by (simp only: of_nat_unat uint_sint take_bit_eq_mod) simp
  show "0 \<le> sint w \<Longrightarrow> int (unat w) = sint w" unfolding u using sint_less[of w] by (intro mod_pos_pos_trivial) simp_all
  have "sint w mod 2 ^ 64 = (sint w + 2 ^ 64) mod 2 ^ 64" by (simp only: mod_add_self2)
  moreover have "(sint w + 2 ^ 64) mod 2 ^ 64 = sint w + 2 ^ 64" if "sint w < 0"
    using that sint_greater_eq[of w] by (intro mod_pos_pos_trivial) simp_all
  ultimately show "sint w < 0 \<Longrightarrow> int (unat w) = sint w + 2 ^ 64" unfolding u by simp
qed

lemma unat_neg_sint: "unat (- w) = nat (- sint w)" if "sint w < 0" for w :: u64
proof -
  have u: "int (unat w) = sint w + 2 ^ 64" by (rule unat_sint(2)[OF that])
  have "w \<noteq> 0" using that by auto
  then have "unat (- w) = 2 ^ 64 - unat w" using unat_sub_if'[of 0 w] by (simp add: unat_gt_0)
  moreover have "unat w < 2 ^ LENGTH(64)" by (rule unsigned_less)
  ultimately have "int (unat (- w)) = 2 ^ 64 - int (unat w)" by (simp only: of_nat_diff) simp
  then have "int (unat (- w)) = - sint w" unfolding u by simp
  then show ?thesis by (metis nat_int)
qed

lemma small_locase: "f AND SMALL \<in> {0, SMALL}" for f :: u8
proof -
  have "bit SMALL n \<longleftrightarrow> n = 5" for n using bit_push_bit_1[of 5 n, where 'a = 8] by (simp add: SMALL_def)
  then have "f AND SMALL = (if bit f 5 then SMALL else 0)" by (intro bit_word_eqI) (auto simp: bit_and_iff)
  then show ?thesis by simp
qed

lemma sint_diff: "- 0x8000 \<le> sint a - sint b \<Longrightarrow> sint a - sint b < 0x8000 \<Longrightarrow> sint (a - b) = sint a - sint b" for a b :: u16
  by (simp add: sint_word_ariths signed_take_bit_int_eq_self)

lemma sint_of_nat_16: "n < 0x8000 \<Longrightarrow> sint (of_nat n :: u16) = int n"
  by (simp add: sint_uint unsigned_of_nat signed_take_bit_int_eq_self take_bit_eq_mod)

lemma pad_count_sint: "- 0x8000 < sint w \<Longrightarrow> pad_count lim w = nat (sint w) - lim"
  by (simp add: pad_count_def sint_minus_one)

lemma length_base_digits: "2 \<le> b \<Longrightarrow> n < b ^ Suc k \<Longrightarrow> length (base_digits b n) \<le> Suc k"
proof (induction k arbitrary: n)
  case (Suc k)
  show ?case
  proof (cases "n < b")
    case False
    have "n div b < b ^ Suc k" using Suc.prems by (simp add: less_mult_imp_div_less mult.commute)
    then show ?thesis using Suc False by (simp add: base_digits_step)
  qed (simp add: base_digits_small)
qed (simp add: base_digits_small)

lemma number_tmp_digits:
  assumes "sp_base spec \<in> {8, 10, 16}"
  shows "number_tmp num spec = map (digit_char (sp_flags spec AND SMALL)) (base_digits (unat (sp_base spec)) (number_value num spec))"
proof -
  have "number_value num spec = unat (if number_sign (sp_flags spec) num = 0x2d then - num else num)"
  proof (cases "has (sp_flags spec) SIGN \<and> sint num < 0")
    case True
    then show ?thesis by (simp add: number_value_def number_sign_def unat_neg_sint)
  next
    case False
    then have "0 \<le> sint num" if "has (sp_flags spec) SIGN" using that by simp
    moreover have "nat (sint num) = unat num" if "0 \<le> sint num" using unat_sint(1)[OF that] by (metis nat_int)
    ultimately show ?thesis using False by (auto simp: number_value_def number_sign_def)
  qed
  then show ?thesis unfolding number_tmp_def number_digits_base[OF assms small_locase] by (simp add: rev_map)
qed

lemma number_tmp_length:
  assumes "sp_base spec \<in> {8, 10, 16}"
  shows "0 < length (number_tmp num spec)" "length (number_tmp num spec) \<le> 22"
proof -
  let ?n = "unat (if number_sign (sp_flags spec) num = 0x2d then - num else num)" let ?b = "unat (sp_base spec)"
  have b: "8 \<le> ?b" "2 \<le> ?b" using assms by auto
  have "?n < 2 ^ 64" by (rule order.strict_trans2[OF unsigned_less]) simp
  also have "(2::nat) ^ 64 \<le> 8 ^ 22" by simp
  also have "(8::nat) ^ 22 \<le> ?b ^ 22" by (rule power_mono[OF b(1)]) simp
  finally have "length (base_digits ?b ?n) \<le> Suc 21" using b by (intro length_base_digits) simp_all
  moreover have "base_digits ?b ?n \<noteq> []" by (subst base_digits.simps) simp
  ultimately show "0 < length (number_tmp num spec)" "length (number_tmp num spec) \<le> 22"
    unfolding number_tmp_def number_digits_base[OF assms small_locase] by simp_all
qed

lemma pad_done:
  assumes "- 0x7ff0 \<le> sint w"
  shows "pad_count 0 (w - 1 - of_nat (pad_count 0 w)) = 0" "pad_count 0 (w - 1 - of_nat (pad_count 0 w) - 1 - of_nat 0) = 0"
proof -
  have "- 0x7ff1 \<le> sint (w - 1 - of_nat (pad_count 0 w)) \<and> sint (w - 1 - of_nat (pad_count 0 w)) < 0"
  proof (cases "0 \<le> sint w")
    case True
    then have "of_nat (pad_count 0 w) = w"
      using pad_count_sint[of w 0] sint_lt[of w] by (intro signed_word_eqI) (simp add: sint_of_nat_16)
    then show ?thesis by simp
  next
    case False
    then have "pad_count 0 w = 0" "sint (w - 1) = sint w - 1" using assms by (simp_all add: pad_count_sint sint_minus_one)
    then show ?thesis using assms False by simp
  qed
  then show "pad_count 0 (w - 1 - of_nat (pad_count 0 w)) = 0" "pad_count 0 (w - 1 - of_nat (pad_count 0 w) - 1 - of_nat 0) = 0"
    using sint_minus_one[of "w - 1 - of_nat (pad_count 0 w)"] by (simp_all add: pad_count_sint)
qed

lemma number_text_layout:
  assumes "sp_base spec \<in> {8, 10, 16}" "- 1 \<le> sint (field_width spec)" "sint (precision spec) \<le> 32000"
  shows "number_text num spec = number_layout num spec"
proof -
  note ds = number_tmp_digits[OF assms(1), of num] number_tmp_length[OF assms(1), of num]
  let ?l = "int (length (sign_text num spec)) + int (length (number_prefix spec))"
  have l: "?l \<le> 3" "length (sign_text num spec) \<le> 1" "length (number_prefix spec) \<le> 2" 
    by (auto simp: sign_text_def number_prefix_def)
  have p: "sint (number_prec num spec) = max (sint (precision spec)) (int (length (number_tmp num spec)))"
    using ds(3) by (auto simp: number_prec_def sint_of_nat_16)
  have P: "1 \<le> sint (number_prec num spec)" "sint (number_prec num spec) \<le> 32000" using p ds(2,3) assms(3) by linarith+
  define w where "w = field_width spec - of_nat (length (sign_text num spec)) - of_nat (length (number_prefix spec)) - number_prec num spec"
  have w1: "sint (field_width spec - of_nat (length (sign_text num spec))) = sint (field_width spec) - int (length (sign_text num spec))"
    using l assms(2) sint_lt[of "field_width spec"] by (subst sint_diff) (simp_all add: sint_of_nat_16)
  have w2: "sint (field_width spec - of_nat (length (sign_text num spec)) - of_nat (length (number_prefix spec))) = sint (field_width spec) - ?l"
    using l assms(2) w1 sint_lt[of "field_width spec"] by (subst sint_diff) (simp_all add: sint_of_nat_16)
  have w: "sint w = sint (field_width spec) - ?l - sint (number_prec num spec)"
    using l assms(2) w2 P sint_lt[of "field_width spec"] unfolding w_def by (subst sint_diff) simp_all
  then have lo: "- 0x7ff0 \<le> sint w" using l assms(2) P by simp
  let ?zeros = "replicate (nat (sint (precision spec)) - length (number_tmp num spec)) 0x30"
  have z: "replicate (pad_count (length (number_tmp num spec)) (number_prec num spec)) 0x30 = ?zeros"
    "length ?zeros + length (number_tmp num spec) = nat (sint (number_prec num spec))"
    using P p by (simp_all add: pad_count_sint)
  have fill: "pad_count 0 w = nat (sint (field_width spec)) - length ((sign_text num spec @ number_prefix spec) @ ?zeros @ number_tmp num spec)"
    unfolding length_append z(2) using lo w P by (simp add: pad_count_sint)
  show ?thesis
    unfolding number_layout_def number_text_def Let_def ds(1)[symmetric] w_def[symmetric] z fill[symmetric]
    by (simp add: pad_done[OF lo, simplified])
qed

text \<open>
  A conversion. For the bases and specifications that a format can give, \<^verbatim>\<open>number\<close> appends the sign, the prefix and
  the digits of the value in its base, with zeros up to the precision, and fills up to the width on the side, and with
  the character, that the flags ask for.
\<close>
theorem number_correct:
  assumes "sp_base spec \<in> {8, 10, 16}" "- 1 \<le> sint (field_width spec)" "sint (precision spec) \<le> 32000"
  shows "number e num spec out = puts e (number_layout num spec) out"
  by (simp add: number_puts number_text_layout[OF assms])

theorem number_correct_witness:
  "number 0x1010 (- 42) (spec_zero\<lparr>sp_base := 10, sp_flags := SIGN OR ZEROPAD, field_width := 8, precision := - 1\<rparr>) (0x1000, \<lambda>_. 0) =
    puts 0x1010 (lit ''-0000042'') (0x1000, \<lambda>_. 0)"
proof -
  have "number_layout (- 42) (spec_zero\<lparr>sp_base := 10, sp_flags := SIGN OR ZEROPAD, field_width := 8, precision := - 1\<rparr>) = lit ''-0000042''"
    by code_simp
  then show ?thesis
    using number_correct[of "spec_zero\<lparr>sp_base := 10, sp_flags := SIGN OR ZEROPAD, field_width := 8, precision := - 1\<rparr>" "0x1010" "- 42"] by simp
qed

section \<open>Strings\<close>

text \<open>Strings that are printed lie apart from the buffer, so that writing does not change them.\<close>

definition outside :: "u64 \<Rightarrow> u64 \<Rightarrow> u64 \<Rightarrow> bool" where
  "outside buf e a \<longleftrightarrow> \<not> (buf \<le> a \<and> a < e)"

definition readable :: "(u64 \<Rightarrow> u8 list option) \<Rightarrow> u64 \<Rightarrow> u64 \<Rightarrow> mem \<Rightarrow> bool" where
  "readable strings buf e m \<longleftrightarrow> (\<forall>s xs. strings s = Some xs \<longrightarrow>
     s \<noteq> 0 \<and> cstr m s xs \<and> length xs < 2 ^ 31 \<and> (\<forall>j \<le> length xs. outside buf e (s + of_nat j)))"

lemma puts_other:
  assumes "unat p + length cs < 2 ^ 64" "\<not> (p \<le> a \<and> a < e)"
  shows "snd (puts e cs (p, m)) a = m a"
  using assms
proof (induction cs arbitrary: p m)
  case (Cons c cs)
  have p: "unat (p + 1) = unat p + 1" using Cons.prems(1) by (simp add: unat_word_ariths)
  have "\<not> (p + 1 \<le> a \<and> a < e)" using Cons.prems(2) by (auto simp: word_le_nat_alt word_less_nat_alt p)
  then have "snd (puts e cs (p + 1, m')) a = m' a" for m' using Cons.IH[of "p + 1" m'] Cons.prems(1) by (simp add: p)
  moreover have "a \<noteq> p \<or> \<not> p < e" using Cons.prems(2) by auto
  ultimately show ?case by (auto simp: emit_def[of e c])
qed simp

lemma cstr_cong: "(\<And>j. j \<le> length xs \<Longrightarrow> m' (s + of_nat j) = m (s + of_nat j)) \<Longrightarrow> cstr m s xs \<Longrightarrow> cstr m' s xs"
proof (induction xs arbitrary: s)
  case (Cons x xs)
  have "m' (s + 1 + of_nat j) = m (s + 1 + of_nat j)" if "j \<le> length xs" for j
    using Cons.prems(1)[of "Suc j"] that by (simp add: add.assoc)
  then show ?case using Cons Cons.prems(1)[of 0] by simp
qed (use Cons in simp)

lemma puts_readable:
  assumes "readable strings buf e m" "buf \<le> p" "unat p + length cs < 2 ^ 64"
  shows "readable strings buf e (snd (puts e cs (p, m)))"
proof -
  have "snd (puts e cs (p, m)) a = m a" if "outside buf e a" for a
    using that assms(2) by (intro puts_other[OF assms(3)]) (auto simp: outside_def)
  then show ?thesis using assms(1) unfolding readable_def by (blast intro: cstr_cong)
qed

lemma copy_chars_puts:
  assumes "\<And>j k. j < n \<Longrightarrow> k \<le> j \<Longrightarrow> get (i + j) (snd (puts e (take k xs) out)) = xs ! j" "length xs = n"
  shows "copy_chars e get i n out = puts e xs out"
  using assms
proof (induction n arbitrary: i xs out)
  case (Suc n)
  obtain x ys where xs: "xs = x # ys" "length ys = n" using Suc.prems(2) by (cases xs) auto
  have x: "get i (snd out) = x" using Suc.prems(1)[of 0 0] xs by simp
  have "get (i + 1 + j) (snd (puts e (take k ys) (emit e x out))) = ys ! j" if "j < n" "k \<le> j" for j k
    using Suc.prems(1)[of "Suc j" "Suc k"] that xs by simp
  then show ?case using Suc.IH[of "i + 1" ys "emit e x out"] xs x by simp
qed simp

text \<open>The text of a string, with the counter as it is.\<close>

definition string_cut :: "u8 list \<Rightarrow> printf_spec \<Rightarrow> u8 list" where
  "string_cut xs spec = (if sint (precision spec) < 0 then xs else take (nat (sint (precision spec))) xs)"

definition string_text :: "u8 list \<Rightarrow> printf_spec \<Rightarrow> u8 list" where
  "string_text xs spec =
     (let t = string_cut xs spec; left = has (sp_flags spec) LEFT; w = field_width spec;
          n1 = (if left then 0 else nat (sint w - int (length t))); w = (if left then w else w - 1 - of_nat n1)
      in replicate n1 0x20 @ t @ replicate (nat (sint w - int (length t))) 0x20)"

lemma string_chars_puts:
  assumes "length t < 2 ^ 31" "unat n = length t"
    "\<And>j out'. j < length t \<Longrightarrow> (\<exists>cs. out' = puts e cs out \<and> length cs \<le> 0x8000 + j) \<Longrightarrow> get j (snd out') = t ! j"
    "string_cut xs spec = t"
  shows "string_chars e get n spec out = Inr (puts e (string_text xs spec) out)"
proof -
  have n: "sint (ucast n :: u32) = int (length t)"
    using assms(1,2) by (simp add: sint_uint unsigned_ucast_eq signed_take_bit_int_eq_self take_bit_eq_mod uint_nat)
  let ?n1 = "if has (sp_flags spec) LEFT then 0 else nat (sint (field_width spec) - int (length t))"
  let ?out1 = "puts e (replicate ?n1 0x20) out"
  have n1: "?n1 \<le> 0x8000" using sint_lt[of "field_width spec"] by auto
  have "copy_chars e get 0 (length t) ?out1 = puts e t ?out1"
  proof (rule copy_chars_puts)
    fix j k assume j: "j < length t" "k \<le> j"
    have "puts e (take k t) ?out1 = puts e (replicate ?n1 0x20 @ take k t) out" by simp
    moreover have "length (replicate ?n1 0x20 @ take k t) \<le> 0x8000 + j" using n1 j by simp
    ultimately show "get (0 + j) (snd (puts e (take k t) ?out1)) = t ! j" using assms(3)[OF j(1)] by (metis add_0)
  qed simp
  then show ?thesis
    by (cases "has (sp_flags spec) LEFT") (simp_all add: string_chars_def Let_def n pad_str_puts string_text_def assms(4))
qed

lemma string_cut_count:
  assumes "length xs < 2 ^ 31"
  shows "min (unat (scast (precision spec) :: u64)) (length xs) = length (string_cut xs spec)"
    "string_cut xs spec = take (length (string_cut xs spec)) xs" "length (string_cut xs spec) < 2 ^ 31"
proof -
  have s: "sint (scast (precision spec) :: u64) = sint (precision spec)"
    using sint_ge[of "precision spec"] sint_lt[of "precision spec"] by (simp add: signed_scast_eq signed_take_bit_int_eq_self)
  have "unat (scast (precision spec) :: u64) = nat (sint (precision spec))" if "0 \<le> sint (precision spec)"
    using unat_sint(1)[of "scast (precision spec)"] that s by (metis nat_int)
  moreover have "2 ^ 31 \<le> unat (scast (precision spec) :: u64)" if "sint (precision spec) < 0"
  proof -
    have "int (unat (scast (precision spec) :: u64)) = sint (precision spec) + 2 ^ 64"
      using unat_sint(2)[of "scast (precision spec)"] that s by metis
    then have "int (2 ^ 31) \<le> int (unat (scast (precision spec) :: u64))" using sint_ge[of "precision spec"] by simp
    then show ?thesis by (simp only: of_nat_le_iff)
  qed
  ultimately show "min (unat (scast (precision spec) :: u64)) (length xs) = length (string_cut xs spec)"
    using assms by (cases "sint (precision spec) < 0") (auto simp: string_cut_def)
qed (use assms in \<open>auto simp: string_cut_def min_def\<close>)

lemma string_lit_puts:
  assumes "length xs < 2 ^ 31"
  shows "string_lit e xs spec out = Inr (puts e (string_text xs spec) out)"
  unfolding string_lit_def
proof (rule string_chars_puts)
  note c = string_cut_count[OF assms, of spec]
  show "length (string_cut xs spec) < 2 ^ 31" by (rule c(3))
  have "unat (of_nat (length xs) :: u64) = length xs" using assms by (simp add: unat_of_nat_less)
  then show "unat (min (of_nat (length xs)) (scast (precision spec)) :: u64) = length (string_cut xs spec)"
    unfolding c(1)[symmetric] by (simp add: min_def word_le_nat_alt)
  show "xs ! j = string_cut xs spec ! j" if "j < length (string_cut xs spec)" for j
    using that by (subst c(2)) simp
qed simp

lemma string_puts:
  assumes "readable strings buf e m" "strings s = Some xs" "buf \<le> p" "unat p + 0x8000 + length xs < 2 ^ 64"
  shows "string e s spec (p, m) = Inr (puts e (string_text xs spec) (p, m))"
proof -
  have s: "s \<noteq> 0" "cstr m s xs" "length xs < 2 ^ 31" "\<And>j. j \<le> length xs \<Longrightarrow> outside buf e (s + of_nat j)"
    using assms(1,2) by (auto simp: readable_def)
  note c = string_cut_count[OF s(3), of spec]
  have "string_chars e (\<lambda>i m. m (s + of_nat i)) (strnlen m s (scast (precision spec))) spec (p, m) =
      Inr (puts e (string_text xs spec) (p, m))"
  proof (rule string_chars_puts)
    show "length (string_cut xs spec) < 2 ^ 31" by (rule c(3))
    show "unat (strnlen m s (scast (precision spec))) = length (string_cut xs spec)"
      using c(1,3) by (simp add: strnlen_def strnlen_loop_cstr[OF s(2)] unat_of_nat_less)
    fix j out' assume j: "j < length (string_cut xs spec)" and o': "\<exists>cs. out' = puts e cs (p, m) \<and> length cs \<le> 0x8000 + j"
    then obtain cs where cs: "out' = puts e cs (p, m)" "length cs \<le> 0x8000 + j" by blast
    have jx: "j < length xs" using j c(1) by linarith
    have "snd out' (s + of_nat j) = m (s + of_nat j)"
      unfolding cs(1) using s(4)[of j] jx cs(2) assms(3,4) by (intro puts_other) (auto simp: outside_def)
    also have "\<dots> = bytes m s (length xs) ! j" using jx by (simp add: bytes_def)
    also have "\<dots> = xs ! j" by (simp only: cstr_bytes_prefix[OF s(2) order_refl] take_all)
    also have "\<dots> = string_cut xs spec ! j" using j by (subst c(2)) simp
    finally show "snd out' (s + of_nat j) = string_cut xs spec ! j" .
  qed simp
  then show ?thesis using s(1) by (simp add: string_def)
qed

section \<open>The text of a format\<close>

definition char_text :: "u8 \<Rightarrow> printf_spec \<Rightarrow> u8 list" where
  "char_text c spec =
     (let count = (if 0 \<le> sint (precision spec) then nat (sint (precision spec)) else 1); left = has (sp_flags spec) LEFT;
          w = field_width spec; n1 = (if left then 0 else pad_count 1 w); w = (if left then w else w - 1 - of_nat n1)
      in if count = 0 then [] else replicate n1 0x20 @ replicate count c @ replicate (pad_count 1 w) 0x20)"

definition char_spec :: "printf_spec \<Rightarrow> printf_spec" where
  "char_spec spec =
     (let w = field_width spec; w = (if has (sp_flags spec) LEFT then w else w - 1 - of_nat (pad_count 1 w))
      in if precision spec = 0 then spec else spec\<lparr>field_width := w - 1 - of_nat (pad_count 1 w)\<rparr>)"

lemma put_char_puts: "put_char e c spec out = (char_spec spec, puts e (char_text c spec) out)"
proof -
  have z: "(if 0 \<le> sint (precision spec) then nat (sint (precision spec)) else 1) = 0 \<longleftrightarrow> precision spec = 0"
    by (auto intro: signed_eq_0_iff[THEN iffD1])
  show ?thesis
    by (cases "has (sp_flags spec) LEFT")
       (simp_all add: put_char_def char_text_def char_spec_def Let_def z pad_dec_puts puts_replicate del: fold_replicate)
qed

definition pointer_spec :: "printf_spec \<Rightarrow> printf_spec" where
  "pointer_spec spec =
     (let spec = spec\<lparr>sp_flags := sp_flags spec OR SMALL\<rparr>;
          spec = (if field_width spec = - 1 then spec\<lparr>field_width := 16, sp_flags := sp_flags spec OR ZEROPAD\<rparr> else spec)
      in spec\<lparr>sp_base := 16\<rparr>)"

text \<open>
  Reference: one step of a format gives the text, the rest of the format, the arguments left and the specification. \<^verbatim>\<open>%n\<close>
  and the formats that read other memory, \<^verbatim>\<open>%pU\<close> and \<^verbatim>\<open>%pV\<close>, have none.
\<close>

type_synonym render_state = "u8 list \<times> u64 list \<times> printf_spec"

fun render_arg :: "(u64 \<Rightarrow> u8 list option) \<Rightarrow> u8 list \<Rightarrow> u64 \<Rightarrow> printf_spec \<Rightarrow> (u8 list \<times> u8 list \<times> printf_spec) option" where
  "render_arg strings fmt a spec =
     (case sp_type spec of
        FORMAT_TYPE_WIDTH \<Rightarrow> Some ([], fmt, spec\<lparr>field_width := ucast a\<rparr>)
      | FORMAT_TYPE_PRECISION \<Rightarrow> Some ([], fmt, spec\<lparr>precision := ucast a\<rparr>)
      | FORMAT_TYPE_CHAR \<Rightarrow> Some (char_text (ucast a) spec, fmt, char_spec spec)
      | FORMAT_TYPE_STR \<Rightarrow>
          if a = 0 then Some (string_text (lit ''(null)'') spec, fmt, spec)
          else map_option (\<lambda>xs. (string_text xs spec, fmt, spec)) (strings a)
      | FORMAT_TYPE_ERROR \<Rightarrow> Some (string_text (err_string (ucast a)) spec, fmt, spec)
      | FORMAT_TYPE_PTR \<Rightarrow>
          if a = 0 then
            Some (string_text (lit ''(null)'') (if field_width spec = - 1 then spec\<lparr>field_width := 16\<rparr> else spec), dropWhile isalnum fmt, spec)
          else if at 1 fmt \<in> {0x55, 0x56} then None
          else Some (number_text a (pointer_spec spec), dropWhile isalnum fmt, spec)
      | FORMAT_TYPE_NRCHARS \<Rightarrow> None
      | FORMAT_TYPE_NONE \<Rightarrow> None | FORMAT_TYPE_PERCENT_CHAR \<Rightarrow> None | FORMAT_TYPE_INVALID \<Rightarrow> None
      | t \<Rightarrow> Some (number_text (int_arg t a) spec, fmt, spec))"

definition render_step :: "(u64 \<Rightarrow> u8 list option) \<Rightarrow> render_state \<Rightarrow> (u8 list \<times> render_state) option" where
  "render_step strings = (\<lambda>(fmt, args, spec).
     let (n, spec) = format_decode fmt spec; rest = drop n fmt
     in if sp_type spec = FORMAT_TYPE_NONE then Some (take n fmt, rest, args, spec)
        else if sp_type spec = FORMAT_TYPE_PERCENT_CHAR \<or> sp_type spec = FORMAT_TYPE_INVALID then Some ([0x25], rest, args, spec)
        else case args of [] \<Rightarrow> None
             | a # args \<Rightarrow> map_option (\<lambda>(t, rest, spec). (t, rest, args, spec)) (render_arg strings rest a spec))"

inductive renders :: "(u64 \<Rightarrow> u8 list option) \<Rightarrow> render_state \<Rightarrow> u8 list \<Rightarrow> bool" for strings where
  renders_end: "renders strings ([], args, spec) []"
| renders_step: "fmt \<noteq> [] \<Longrightarrow> render_step strings (fmt, args, spec) = Some (t, st) \<Longrightarrow> renders strings st ts \<Longrightarrow>
    renders strings (fmt, args, spec) (t @ ts)"

text \<open>The text computed, with a bound on the number of steps.\<close>

fun render :: "(u64 \<Rightarrow> u8 list option) \<Rightarrow> nat \<Rightarrow> render_state \<Rightarrow> u8 list option" where
  "render strings 0 st = None"
| "render strings (Suc k) st =
     (if fst st = [] then Some []
      else case render_step strings st of None \<Rightarrow> None | Some (t, st) \<Rightarrow> map_option (\<lambda>ts. t @ ts) (render strings k st))"

lemma render_renders: "render strings k st = Some ts \<Longrightarrow> renders strings st ts"
proof (induction strings k st arbitrary: ts rule: render.induct)
  case (2 strings k st)
  then show ?case
    by (cases st) (auto split: if_splits option.splits intro: renders.intros)
qed simp

lemma err_string_length: "length (err_string a) < 2 ^ 31"
proof -
  have s: "\<forall>s \<in> set err_strings. length s < 64" by (simp add: err_strings_def lit_def)
  moreover have "unat a < 5" if "a < 5" using that by (simp add: word_less_nat_alt)
  moreover have "length err_strings = 6" by (simp add: err_strings_def)
  ultimately have "err_string a \<in> set err_strings" by (auto simp: err_string_def intro!: nth_mem less_trans[of _ 5 6])
  then show ?thesis using s by fastforce
qed

lemma string_null_length: "length (lit ''(null)'') < 2 ^ 31"
  by (simp add: lit_def)

lemma string_null_puts: "string e 0 spec out = Inr (puts e (string_text (lit ''(null)'') spec) out)"
  by (simp add: string_def string_lit_puts[OF string_null_length])

text \<open>One round of the loop.\<close>

lemma step_renders:
  assumes "render_step strings (fmt, args, spec) = Some (t, fmt', args', spec')" "readable strings buf e m" "buf \<le> p"
    "unat p + length t < 2 ^ 64" "unat p + 2 ^ 32 < 2 ^ 64"
  shows "vsnprintf_step pv buf e (fmt, args, spec, p, m) = Inr (fmt', args', spec', puts e t (p, m))"
proof -
  obtain n s where d: "format_decode fmt spec = (n, s)" by fastforce
  note defs = vsnprintf_step_def render_step_def d prod.case Let_def
  consider "sp_type s = FORMAT_TYPE_NONE" | "sp_type s = FORMAT_TYPE_PERCENT_CHAR \<or> sp_type s = FORMAT_TYPE_INVALID"
    | a as where "args = a # as" "sp_type s \<noteq> FORMAT_TYPE_NONE" "sp_type s \<noteq> FORMAT_TYPE_PERCENT_CHAR" "sp_type s \<noteq> FORMAT_TYPE_INVALID"
      "render_arg strings (drop n fmt) a s = Some (t, fmt', spec')" "args' = as"
    using assms(1) unfolding defs by (auto split: if_splits list.splits)
  then show ?thesis
  proof cases
    case 1
    then show ?thesis using assms(1,4) unfolding defs by (simp add: put_text_puts)
  next
    case 2
    then show ?thesis using assms(1) unfolding defs by auto
  next
    case 3
    have str: "string e a s (p, m) = Inr (puts e (string_text xs s) (p, m))" if "strings a = Some xs" for xs
    proof (rule string_puts[of strings, OF assms(2) that assms(3)])
      have "length xs < 2 ^ 31" using assms(2) that by (auto simp: readable_def)
      then show "unat p + 0x8000 + length xs < 2 ^ 64" using assms(5) by simp
    qed
    show ?thesis
      using 3(1-4,6) 3(5)[unfolded render_arg.simps] str
      unfolding defs
      by (cases "sp_type s")
         (auto simp: put_char_puts string_null_puts string_lit_puts[OF string_null_length] string_lit_puts[OF err_string_length] pointer_def
           number_puts pointer_spec_def at_def Let_def split: if_splits)
  qed
qed

lemma loop_renders:
  assumes "renders strings st txt" "readable strings buf e m" "buf \<le> p" "unat p + length txt + 2 ^ 32 < 2 ^ 64"
  shows "vsnprintf_loop pv buf e (fst st, fst (snd st), snd (snd st), p, m) = Inr (puts e txt (p, m))"
  using assms
proof (induction arbitrary: p m rule: renders.induct)
  case (renders_end args spec)
  then show ?case by (simp add: vsnprintf_loop.simps)
next
  case (renders_step fmt args spec t st ts)
  obtain fmt' args' spec' where st: "st = (fmt', args', spec')" by (cases st) auto
  have len: "unat p + length t < 2 ^ 64" "unat p + 2 ^ 32 < 2 ^ 64" using renders_step.prems(3) by simp_all
  have step: "vsnprintf_step pv buf e (fmt, args, spec, p, m) = Inr (fmt', args', spec', puts e t (p, m))"
    using step_renders[OF renders_step.hyps(2)[unfolded st] renders_step.prems(1,2) len] .
  obtain p' m' where pm: "puts e t (p, m) = (p', m')" by fastforce
  have p': "p' = p + of_nat (length t)" "unat p' = unat p + length t"
    using pm puts_store[OF len(1), of e m] len(1) by (auto simp: unat_word_ariths unat_of_nat)
  have "readable strings buf e m'" using puts_readable[OF renders_step.prems(1,2) len(1)] pm by simp
  moreover have "buf \<le> p'" using renders_step.prems(2) p'(2) by (simp add: word_le_nat_alt)
  moreover have "unat p' + length ts + 2 ^ 32 < 2 ^ 64" using renders_step.prems(3) p'(2) by simp
  ultimately have "vsnprintf_loop pv buf e (fmt', args', spec', p', m') = Inr (puts e ts (p', m'))"
    using renders_step.IH[of m' p'] by (simp add: st)
  then show ?case using renders_step.hyps(1) step pm by (subst vsnprintf_loop.simps) simp
qed

lemma vsnprintf_renders:
  assumes "renders strings (fmt, args, spec_zero) txt" "readable strings buf (buf + sz) m"
    "unat sz < 2 ^ 31" "unat buf + unat sz < 2 ^ 64" "unat buf + length txt + 2 ^ 32 < 2 ^ 64" "length txt < 2 ^ 32"
  shows "vsnprintf (Suc d) vaf buf sz fmt args m =
    Inr (of_nat (length txt), store_bytes buf (if sz = 0 then [] else take (unat sz - 1) txt @ [0]) m)"
proof -
  let ?e = "buf + sz"
  have e: "unat ?e = unat buf + unat sz" using assms(4) by (simp add: unat_word_ariths)
  then have le: "\<not> ?e < buf" by (simp add: word_less_nat_alt)
  have neg: "\<not> neg32 (ucast sz)" using assms(3) by (simp add: neg32_def word_le_nat_alt unsigned_ucast_eq take_bit_eq_mod)
  let ?p = "buf + of_nat (length txt)" let ?m = "store_bytes buf (take (unat sz) txt) m"
  have o1: "puts ?e txt (buf, m) = (?p, ?m)" using puts_store[of buf "txt" ?e m] assms(5) e by simp
  have p: "unat ?p = unat buf + length txt" using assms(5) by (simp add: unat_word_ariths unat_of_nat)
  have m: "(if 0 < sz then ?m((if ?p < ?e then ?p else ?e - 1) := 0) else ?m) =
      store_bytes buf (if sz = 0 then [] else take (unat sz - 1) txt @ [0]) m"
  proof (cases "sz = 0")
    case False
    then have k: "0 < unat sz" by (simp add: unat_gt_0)
    let ?q = "buf + of_nat (min (length txt) (unat sz - 1))"
    have q: "(if ?p < ?e then ?p else ?e - 1) = ?q"
      using k by (auto simp: word_less_nat_alt p e min_def of_nat_diff)
    have "?m(?q := 0) = (store_bytes buf (take (unat sz - 1) txt) m)(?q := 0)"
    proof (cases "length txt \<le> unat sz - 1")
      case False
      then have "take (unat sz) txt = take (unat sz - 1) txt @ [txt ! (unat sz - 1)]"
        using k take_Suc_conv_app_nth[of "unat sz - 1" "txt"] by simp
      then show ?thesis using False by (simp add: store_bytes_append min_def)
    qed simp
    then show ?thesis using False unfolding q by (simp add: store_bytes_append unat_gt_0 word_gt_0)
  qed simp
  have n: "ucast (?p - buf) = (of_nat (length txt) :: u32)" by (simp, rule bit_word_eqI) (auto simp: bit_simps)
  have loop: "vsnprintf_loop pv buf ?e (fmt, args, spec_zero, buf, m) = Inr (?p, ?m)" for pv
    using loop_renders[OF assms(1,2) order_refl] assms(5) o1 by simp
  show ?thesis
    unfolding vsnprintf.simps vsnprintf_with_def using neg le loop n m by (simp add: Let_def)
qed

text \<open>
  C1: Bounded output. On a format whose text is \<open>txt\<close>, with the strings it prints apart from the buffer, \<^verbatim>\<open>vsnprintf\<close> returns.
  Its result is the length of the whole text, whatever the size; of the memory it changes only the buffer, which
  then holds as much of the text as fits with the terminator behind it, or nothing when the size is 0.
\<close>
theorem vsnprintf_correct:
  assumes "renders strings (fmt, args, spec_zero) txt" "readable strings buf (buf + sz) m"
    "unat sz < 2 ^ 31" "unat buf + unat sz < 2 ^ 64" "unat buf + length txt + 2 ^ 32 < 2 ^ 64" "length txt < 2 ^ 32"
  shows "vsnprintf (Suc d) vaf buf sz fmt args m =
    Inr (of_nat (length txt), store_bytes buf (if sz = 0 then [] else take (unat sz - 1) txt @ [0]) m)"
  by (rule vsnprintf_renders[OF assms])

text \<open>A format for the witness: a width in the arguments, a string, a number in hexadecimal.\<close>

definition ex_strings :: "u64 \<Rightarrow> u8 list option" where
  "ex_strings = [0x100 \<mapsto> lit ''ab'']"

definition ex_text_mem :: mem where
  "ex_text_mem a = (if a = 0x100 then 0x61 else if a = 0x101 then 0x62 else 0)"

definition ex_format :: "u8 list" where
  "ex_format = lit ''%*s=%#x%%''"

lemma ex_renders: "renders ex_strings (ex_format, [4, 0x100, 255], spec_zero) (lit ''  ab=0xff%'')"
  by (rule render_renders[of _ 6]) code_simp

lemma ex_readable: "readable ex_strings 0x1000 0x1008 ex_text_mem"
proof -
  have "outside 0x1000 0x1008 (0x100 + of_nat j)" if "j \<le> 2" for j
  proof -
    have "j \<in> {0, 1, 2}" using that by auto
    then show ?thesis by (auto simp: outside_def)
  qed
  then show ?thesis by (auto simp: readable_def ex_strings_def lit_def ex_text_mem_def split: if_splits)
qed

theorem vsnprintf_correct_witness:
  "vsnprintf 1 (\<lambda>_ _. ([], [])) 0x1000 8 ex_format [4, 0x100, 255] ex_text_mem = Inr (10, store_bytes 0x1000 (lit ''  ab=0x'' @ [0]) ex_text_mem)"
  using vsnprintf_correct[OF ex_renders, of "0x1000" 8 ex_text_mem 0 "\<lambda>_ _. ([], [])"] ex_readable by (simp add: lit_def)

text \<open>
  Nested formats. Once the output has passed the end of the buffer, \<^verbatim>\<open>%pV\<close> stops the machine: the size it passes
  on is the distance to the end, by then negative, which \<^verbatim>\<open>vsnprintf\<close> takes for a bug.
\<close>
theorem nested_format_stops:
  assumes "ptr \<noteq> 0" "at 0 fmt = 0x56" "e < str" "unat (str - e) \<le> 2 ^ 31"
  shows "pointer (\<lambda>buf sz ptr m. let (fmt, args) = vaf m ptr in vsnprintf (Suc d) vaf buf sz fmt args m) fmt e ptr spec (str, m) =
    Inl (Bug ''< 0'')"
proof -
  have "str - e \<noteq> 0" using assms(3) by auto
  then have "0 < unat (str - e)" "unat (e - str) = 2 ^ 64 - unat (str - e)"
    using unat_sub_if'[of 0 "str - e"] by (simp_all add: unat_gt_0)
  moreover from this have "unat (e - str) = 2 ^ 32 - unat (str - e) + 2 ^ 32 * (2 ^ 32 - 1)" using assms(4) by simp
  then have "unat (e - str) mod 2 ^ 32 = (2 ^ 32 - unat (str - e)) mod 2 ^ 32" by (simp only: mod_mult_self2)
  ultimately have "2 ^ 31 \<le> unat (e - str) mod 2 ^ 32" using assms(4) by simp
  then have "neg32 (ucast (e - str))" by (simp add: neg32_def word_le_nat_alt unsigned_ucast_eq take_bit_eq_mod)
  then show ?thesis using assms(1,2) by (simp add: pointer_def vsnprintf_with_def case_prod_unfold)
qed

theorem nested_format_stops_witness:
  "pointer (\<lambda>buf sz ptr m. let (fmt, args) = ([], []) in vsnprintf 1 (\<lambda>_ _. ([], [])) buf sz fmt args m) (lit ''V'') 0x1000 0x2000 spec_zero
     (0x1001, ex_text_mem) = Inl (Bug ''< 0'')"
  using nested_format_stops[of "0x2000" "lit ''V''" "0x1000" "0x1001" "\<lambda>_ _. ([], [])" 0 spec_zero ex_text_mem]
  by (simp add: lit_def at_def)

end
