(* ===== verification/Vsprintf_Scan.thy ===== *)
theory Vsprintf_Scan
  imports Vsprintf_Output
begin

text \<open>Formatted input reads back what formatted output has written.\<close>

section \<open>Numbers printed and scanned\<close>

lemma digit_char_class:
  assumes "d < 16" "locase \<in> {0, SMALL}"
  shows "\<not> isspace (digit_char locase d)" "digit_char locase d \<noteq> 0" "digit_char locase d \<noteq> 0x2d"
    "d < 8 \<Longrightarrow> digit_char locase d \<le> 0x37"
proof -
  note u = unat_digit_char(1)[OF assms]
  show "\<not> isspace (digit_char locase d)" using assms(1) by (auto simp: isspace_range u)
  show "digit_char locase d \<noteq> 0" "digit_char locase d \<noteq> 0x2d" using assms(1) u by (auto split: if_splits)
  show "d < 8 \<Longrightarrow> digit_char locase d \<le> 0x37" by (simp add: word_le_nat_alt u)
qed

text \<open>The specification of a conversion with neither width nor precision.\<close>

definition plain_spec :: "u8 \<Rightarrow> u8 \<Rightarrow> format_type \<Rightarrow> printf_spec" where
  "plain_spec flags base t = \<lparr>sp_type = t, sp_flags = flags, sp_base = base, sp_qualifier = 0x6c, field_width = - 1, precision = - 1\<rparr>"

definition printed :: "u8 \<Rightarrow> u8 \<Rightarrow> u64 \<Rightarrow> u8 list" where
  "printed flags base n = number_text n (plain_spec flags base FORMAT_TYPE_LONG)"

lemma printed_eq:
  assumes "base \<in> {8, 10, 16}" "flags \<in> {0, SIGN, SMALL}"
  shows "printed flags base n =
    (if flags = SIGN \<and> sint n < 0 then 0x2d # rev (number_digits base 0 (- n)) else rev (number_digits base (flags AND SMALL) n))"
proof -
  let ?s = "plain_spec flags base FORMAT_TYPE_LONG"
  have f: "\<not> has flags LEFT" "\<not> has flags ZEROPAD" "\<not> has flags PLUS" "\<not> has flags SPACE" "\<not> has flags SPECIAL"
    "has flags SIGN \<longleftrightarrow> flags = SIGN" "flags = SIGN \<Longrightarrow> flags AND SMALL = 0"
    using assms(2) by (auto simp: has_def number_flags)
  have t: "number_tmp n ?s = map (digit_char (sp_flags ?s AND SMALL)) (base_digits (unat (sp_base ?s)) (number_value n ?s))"
    by (rule number_tmp_digits) (use assms(1) in \<open>simp add: plain_spec_def\<close>)
  have "printed flags base n = number_layout n ?s"
    unfolding printed_def by (rule number_text_layout) (use assms(1) in \<open>simp_all add: plain_spec_def\<close>)
  also have "\<dots> = sign_text n ?s @ number_tmp n ?s"
    unfolding number_layout_def Let_def t[symmetric] using f by (simp add: plain_spec_def number_prefix_def)
  finally show ?thesis using f by (auto simp: sign_text_def number_tmp_def number_sign_def plain_spec_def)
qed


text \<open>The four conversions that print and read all of a \<^verbatim>\<open>long\<close>: flags, base and type of output; base and sign of input.\<close>

datatype long_conv = Ld | Lu | Lx | Lo

definition conv_fmt :: "long_conv \<Rightarrow> u8 list" where
  "conv_fmt c = lit (case c of Ld \<Rightarrow> ''%ld'' | Lu \<Rightarrow> ''%lu'' | Lx \<Rightarrow> ''%lx'' | Lo \<Rightarrow> ''%lo'')"

definition conv_flags :: "long_conv \<Rightarrow> u8" where
  "conv_flags c = (case c of Ld \<Rightarrow> SIGN | Lx \<Rightarrow> SMALL | _ \<Rightarrow> 0)"

definition conv_base :: "long_conv \<Rightarrow> u8" where
  "conv_base c = (case c of Lx \<Rightarrow> 16 | Lo \<Rightarrow> 8 | _ \<Rightarrow> 10)"

lemma conv_ok: "conv_base c \<in> {8, 10, 16}" "conv_flags c \<in> {0, SIGN, SMALL}" "conv_flags c = SIGN \<longleftrightarrow> c = Ld"
  "conv_flags c AND SMALL \<in> {0, SMALL}"
  by (cases c; simp add: conv_base_def conv_flags_def number_flags)+

lemma conv_decode:
  "format_decode (conv_fmt c) spec_zero =
    (3, plain_spec (conv_flags c) (conv_base c) (if c = Ld then FORMAT_TYPE_LONG else FORMAT_TYPE_ULONG))"
proof -
  have "format_decode (conv_fmt Ld) spec_zero = (3, plain_spec (conv_flags Ld) (conv_base Ld) FORMAT_TYPE_LONG)" by code_simp
  moreover have "format_decode (conv_fmt Lu) spec_zero = (3, plain_spec (conv_flags Lu) (conv_base Lu) FORMAT_TYPE_ULONG)" by code_simp
  moreover have "format_decode (conv_fmt Lx) spec_zero = (3, plain_spec (conv_flags Lx) (conv_base Lx) FORMAT_TYPE_ULONG)" by code_simp
  moreover have "format_decode (conv_fmt Lo) spec_zero = (3, plain_spec (conv_flags Lo) (conv_base Lo) FORMAT_TYPE_ULONG)" by code_simp
  ultimately show ?thesis by (cases c) simp_all
qed

lemma printed_type: "number_text n (plain_spec flags base t) = printed flags base n"
  by (simp add: printed_def number_text_def number_prec_def number_tmp_def sign_text_def number_prefix_def plain_spec_def)

lemma conv_renders: "renders strings (conv_fmt c, [n], spec_zero) (printed (conv_flags c) (conv_base c) n)"
proof -
  have l: "length (conv_fmt c) = 3" by (cases c) (simp_all add: conv_fmt_def lit_def)
  have "render strings 2 (conv_fmt c, [n], spec_zero) = Some (printed (conv_flags c) (conv_base c) n)"
    unfolding numeral_2_eq_2 using l
    by (auto simp: render_step_def conv_decode Let_def plain_spec_def int_arg_def printed_type[unfolded plain_spec_def])
  then show ?thesis by (rule render_renders)
qed

text \<open>The text starts with a digit or with the sign and a digit.\<close>

lemma digits_Cons:
  assumes "base \<in> {8, 10, 16}" "locase \<in> {0, SMALL}"
  obtains d ds where "rev (number_digits base locase n) = digit_char locase d # ds" "d < unat base" "0 \<notin> set ds"
    "length ds \<le> 21"
proof -
  let ?ds = "base_digits (unat base) (unat n)"
  have b: "2 \<le> unat base" "8 \<le> unat base" "unat base \<le> 16" using assms(1) by auto
  have t: "rev (number_digits base locase n) = map (digit_char locase) ?ds"
    by (simp add: number_digits_base[OF assms] rev_map)
  have "?ds \<noteq> []" by (subst base_digits.simps) simp
  then obtain x xs where x: "?ds = x # xs" by (cases ?ds) auto
  have less: "y < unat base" if "y \<in> set ?ds" for y by (rule base_digits_less[OF b(1) that])
  have "unat n < 2 ^ 64" by (rule order.strict_trans2[OF unsigned_less]) simp
  also have "(2::nat) ^ 64 \<le> 8 ^ 22" by simp
  also have "(8::nat) ^ 22 \<le> unat base ^ 22" by (rule power_mono[OF b(2)]) simp
  finally have "length ?ds \<le> Suc 21" using b by (intro length_base_digits) simp_all
  moreover have "digit_char locase y \<noteq> 0" if "y \<in> set xs" for y
    using less[of y] that x b(3) by (intro digit_char_class(2)[OF _ assms(2)]) simp
  ultimately show thesis using x less[of x] by (intro that[of x "map (digit_char locase) xs"]) (auto simp: t)
qed

lemma printed_nz: "0 \<notin> set (printed (conv_flags c) (conv_base c) n)" "length (printed (conv_flags c) (conv_base c) n) \<le> 23"
proof -
  have "0 \<notin> set (rev (number_digits (conv_base c) l k)) \<and> length (rev (number_digits (conv_base c) l k)) \<le> 22"
    if l: "l \<in> {0, SMALL}" for l k
  proof -
    obtain d ds where d: "rev (number_digits (conv_base c) l k) = digit_char l d # ds" "d < unat (conv_base c)" "0 \<notin> set ds" "length ds \<le> 21"
      using digits_Cons[OF conv_ok(1) l] .
    have "d < 16" using d(2) conv_ok(1)[of c] by auto
    then show ?thesis using digit_char_class(2)[OF _ l, of d] d by auto
  qed
  note digs = this[of 0] this[OF conv_ok(4)]
  from digs show "0 \<notin> set (printed (conv_flags c) (conv_base c) n)" "length (printed (conv_flags c) (conv_base c) n) \<le> 23"
    unfolding printed_eq[OF conv_ok(1,2)] using digs(2)[of c n] by (auto intro: le_trans[of _ 22])
qed


text \<open>Reading: the value, and that the text passes the check of its first character.\<close>

definition scannable :: "u32 \<Rightarrow> bool \<Rightarrow> u8 list \<Rightarrow> bool" where
  "scannable base sg str \<longleftrightarrow> \<not> isspace (at 0 str) \<and>
     (let digit = (if sg \<and> at 0 str = 0x2d then at 1 str else at 0 str)
      in digit \<noteq> 0 \<and> (base = 16 \<longrightarrow> isxdigit digit) \<and> (base = 10 \<longrightarrow> isdigit digit) \<and> (base = 8 \<longrightarrow> isdigit digit \<and> digit \<le> 0x37) \<and>
         base \<noteq> 0)"

lemma isspace_minus: "\<not> isspace 0x2d"
  by (simp add: isspace_range)

lemma first_digit:
  fixes base :: u8
  assumes "base \<in> {8, 10, 16}" "locase \<in> {0, SMALL}" "d < unat base"
  shows "\<not> isspace (digit_char locase d)" "digit_char locase d \<noteq> 0" "digit_char locase d \<noteq> 0x2d" "isxdigit (digit_char locase d)"
    "base = 10 \<Longrightarrow> isdigit (digit_char locase d)" "base = 8 \<Longrightarrow> isdigit (digit_char locase d) \<and> digit_char locase d \<le> 0x37"
proof -
  have d: "d < 16" using assms(1,3) by auto
  note h = hex_digit_char[OF d assms(2)] digit_char_class[OF d assms(2)]
  show "\<not> isspace (digit_char locase d)" "digit_char locase d \<noteq> 0" "digit_char locase d \<noteq> 0x2d" "isxdigit (digit_char locase d)"
    "base = 10 \<Longrightarrow> isdigit (digit_char locase d)" "base = 8 \<Longrightarrow> isdigit (digit_char locase d) \<and> digit_char locase d \<le> 0x37"
    using h assms(3) by auto
qed

lemma printed_cases:
  obtains neg l k d ds where "printed (conv_flags c) (conv_base c) n = (if neg then [0x2d] else []) @ rev (number_digits (conv_base c) l k)"
    "rev (number_digits (conv_base c) l k) = digit_char l d # ds" "d < unat (conv_base c)" "l \<in> {0, SMALL}" "neg \<longrightarrow> c = Ld"
    "n = (if neg then - k else k)"
proof -
  define neg where "neg \<longleftrightarrow> c = Ld \<and> sint n < 0"
  define l where "l = (if neg then 0 else conv_flags c AND SMALL)"
  define k where "k = (if neg then - n else n)"
  have l: "l \<in> {0, SMALL}" using conv_ok(4) by (simp add: l_def)
  obtain d ds where d: "rev (number_digits (conv_base c) l k) = digit_char l d # ds" "d < unat (conv_base c)"
    using digits_Cons[OF conv_ok(1) l] .
  show thesis
    by (rule that[of neg l k, OF _ d l]) (auto simp: printed_eq[OF conv_ok(1,2)] conv_ok(3) neg_def l_def k_def)
qed

lemma printed_scan:
  "scannable (ucast (conv_base c)) (c = Ld) (printed (conv_flags c) (conv_base c) n)"
  "scan_value 0x6c (c = Ld) (printed (conv_flags c) (conv_base c) n) (ucast (conv_base c)) = (n, [])"
proof -
  let ?b = "conv_base c"
  obtain neg l k d ds where t: "printed (conv_flags c) ?b n = (if neg then [0x2d] else []) @ rev (number_digits ?b l k)"
    and d: "rev (number_digits ?b l k) = digit_char l d # ds" "d < unat ?b" and l: "l \<in> {0, SMALL}" and n: "neg \<longrightarrow> c = Ld"
      "n = (if neg then - k else k)"
    by (rule printed_cases)
  note f = first_digit[OF conv_ok(1)[of c] l d(2)]
  have base: "ucast ?b \<noteq> (0 :: u32)" "ucast ?b = (10 :: u32) \<Longrightarrow> ?b = 10" "ucast ?b = (8 :: u32) \<Longrightarrow> ?b = 8"
    by (cases c; simp add: conv_base_def)+
  have g: "ucast ?b = (10 :: u32) \<Longrightarrow> isdigit (digit_char l d)" "ucast ?b = (8 :: u32) \<Longrightarrow> isdigit (digit_char l d)"
    "ucast ?b = (8 :: u32) \<Longrightarrow> digit_char l d \<le> 0x37" using f(5,6) base(2,3) by blast+
  show "scannable (ucast ?b) (c = Ld) (printed (conv_flags c) ?b n)"
    unfolding t d(1)
  proof (cases neg)
    case True
    then have "c = Ld" "at 0 ((if neg then [0x2d] else []) @ digit_char l d # ds) = 0x2d"
      "at 1 ((if neg then [0x2d] else []) @ digit_char l d # ds) = digit_char l d" using n(1) by (simp_all add: at_def)
    then show "scannable (ucast ?b) (c = Ld) ((if neg then [0x2d] else []) @ digit_char l d # ds)"
      unfolding scannable_def Let_def using f(2,4) g base(1) isspace_minus by simp
  next
    case False
    then have "at 0 ((if neg then [0x2d] else []) @ digit_char l d # ds) = digit_char l d" by (simp add: at_def)
    then show "scannable (ucast ?b) (c = Ld) ((if neg then [0x2d] else []) @ digit_char l d # ds)"
      unfolding scannable_def Let_def using f(1-4) g base(1) by simp
  qed
  have v: "simple_strtoull (digit_char l d # ds) (ucast ?b) = (k, [])"
    using strtoull_digits[OF conv_ok(1)[of c] l, of "[]" k] by (simp add: number_ends_def d(1))
  show "scan_value 0x6c (c = Ld) (printed (conv_flags c) ?b n) (ucast ?b) = (n, [])"
    unfolding t d(1) using v f(3) n(1) by (cases neg; cases "c = Ld") (simp_all add: scan_value_def simple_strtol_def simple_strtoul_def at_def n(2))
qed

lemma scan_int_ok:
  assumes "scannable base sg str" "scan_value q sg str base = (v, rest)"
  shows "scan_int base sg q (fmt, str, p # args, num, m) = Inr (Continue (fmt, rest, args, num + 1, scan_store q p v m))"
proof -
  have "dropWhile isspace str = str" using assms(1) by (cases str) (auto simp: scannable_def at_def)
  then show ?thesis using assms by (auto simp: scan_int_def Let_def scannable_def va_arg.simps not_less)
qed

lemma conv_step:
  assumes "scannable (ucast (conv_base c)) (c = Ld) str" "scan_value 0x6c (c = Ld) str (ucast (conv_base c)) = (v, rest)"
  shows "vsscanf_step len (conv_fmt c, str, p # args, num, m) = Inr (Continue ([], rest, args, num + 1, scan_store 0x6c p v m))"
proof -
  have "str \<noteq> []" using assms(1) by (auto simp: scannable_def at_def Let_def split: if_splits)
  moreover have "\<not> isspace 0x25" "\<not> isdigit 0x6c" by (simp_all add: isspace_range isdigit_range)
  ultimately show ?thesis
    using scan_int_ok[OF assms, of "[]" p args num m]
    by (cases c) (simp_all add: conv_fmt_def lit_def vsscanf_step_def at_def scan_directive_def scan_qualifier_def is_qualifier_def TOLOWER_def
        scan_conversion_def conv_base_def)
qed

lemma conv_scan:
  "vsscanf (printed (conv_flags c) (conv_base c) n) (conv_fmt c) [p] m = Inr (1, store64_le p n m)"
proof -
  let ?t = "printed (conv_flags c) (conv_base c) n"
  have "?t \<noteq> []" using printed_scan(1)[of c n] by (auto simp: scannable_def at_def Let_def split: if_splits)
  moreover have "conv_fmt c \<noteq> []" by (cases c) (simp_all add: conv_fmt_def lit_def)
  ultimately have "vsscanf_loop (length ?t) (conv_fmt c, ?t, [p], 0, m) = Inr (Break 0 ([], [], [], 1, store64_le p n m))"
    by (subst vsscanf_loop.simps) (simp add: conv_step[OF printed_scan] vsscanf_loop.simps scan_store_def)
  then show ?thesis by (simp add: vsscanf_def at_def)
qed

text \<open>
  C3: Round trip. Whatever \<^verbatim>\<open>long\<close> is printed by \<^verbatim>\<open>%ld\<close>, \<^verbatim>\<open>%lu\<close>, \<^verbatim>\<open>%lx\<close> or \<^verbatim>\<open>%lo\<close> into a buffer of at least 24 bytes, the
  buffer then holds a string, its length is the result, and \<^verbatim>\<open>vsscanf\<close> with the same format reads that very number back.
\<close>
theorem print_scan_roundtrip:
  assumes "24 \<le> unat sz" "unat sz < 2 ^ 31" "unat buf + 2 ^ 33 < 2 ^ 64"
  shows "\<exists>txt m'. vsnprintf (Suc d) vaf buf sz (conv_fmt c) [n] m = Inr (of_nat (length txt), m') \<and>
    cstr m' buf txt \<and> vsscanf txt (conv_fmt c) [p] m' = Inr (1, store64_le p n m')"
proof -
  let ?t = "printed (conv_flags c) (conv_base c) n"
  let ?m = "store_bytes buf (?t @ [0]) m"
  have take: "(if sz = 0 then [] else take (unat sz - 1) ?t @ [0]) = ?t @ [0]"
    using assms(1) printed_nz(2)[of c n] by auto
  have r: "readable (\<lambda>_. None) buf (buf + sz) m" by (simp add: readable_def)
  have "vsnprintf (Suc d) vaf buf sz (conv_fmt c) [n] m = Inr (of_nat (length ?t), ?m)"
    using vsnprintf_renders[OF conv_renders r assms(2), of c n d vaf] printed_nz(2)[of c n] assms(2,3) unfolding take by simp
  moreover have "bytes ?m buf (length ?t + 1) = ?t @ [0]"
  proof (rule nth_equalityI)
    fix i assume i: "i < length (bytes ?m buf (length ?t + 1))"
    then have "unat (of_nat i :: u64) = i" using printed_nz(2)[of c n] by (simp add: unat_of_nat_less)
    then show "bytes ?m buf (length ?t + 1) ! i = (?t @ [0]) ! i"
      using i printed_nz(2)[of c n] by (simp add: bytes_def store_bytes_at del: upt_Suc)
  qed simp
  then have "cstr ?m buf ?t" using printed_nz(1) by (simp add: cstr_bytes)
  ultimately show ?thesis using conv_scan by blast
qed

theorem print_scan_roundtrip_witness:
  "\<exists>txt m'. vsnprintf 1 (\<lambda>_ _. ([], [])) 0x1000 24 (conv_fmt Ld) [- 42] (\<lambda>_. 0) = Inr (of_nat (length txt), m') \<and>
    cstr m' 0x1000 txt \<and> vsscanf txt (conv_fmt Ld) [0x2000] m' = Inr (1, store64_le 0x2000 (- 42) m')"
  using print_scan_roundtrip[of 24 "0x1000" 0 "\<lambda>_ _. ([], [])" Ld "- 42"] by simp

end
