(* ===== verification/Log.thy ===== *)
theory Log
  imports Vsprintf_Output
begin

text \<open>
  \<^verbatim>\<open>_log\<close> as a whole: the message is formatted into the buffer on the stack and what the buffer then holds is written to
  the console. The console's part is \<open>log_msg\<close>, formatting is \<open>vsnprintf\<close>; here they meet.
\<close>

definition LOG_BUF :: nat where "LOG_BUF = 512"

text \<open>The loop ends at the first zero byte or with the buffer. \<open>buf\<close> is where the compiler put the buffer.\<close>

definition log_fmt ::
  "nat \<Rightarrow> (mem \<Rightarrow> u64 \<Rightarrow> u8 list \<times> u64 list) \<Rightarrow> u64 \<Rightarrow> nat \<Rightarrow> nat \<Rightarrow> u8 list \<Rightarrow> u8 list \<Rightarrow> u64 list \<Rightarrow> mem \<Rightarrow> con_t \<Rightarrow>
    con_t \<times> mem \<times> halt option" where
  "log_fmt d vaf buf level log_lvl pfx fmt args m s =
     (if level > log_lvl \<and> level \<noteq> LOG_ERROR \<and> level \<noteq> LOG_FATAL then (s, m, None)
      else case vsnprintf d vaf buf (of_nat LOG_BUF) fmt args m of
             Inl h \<Rightarrow> (s, m, Some h)
           | Inr (_, m) \<Rightarrow>
               let (s, h) = log_msg level log_lvl pfx (takeWhile (\<lambda>c. c \<noteq> 0) (bytes m buf LOG_BUF)) s in (s, m, h))"

lemma bytes_store:
  assumes "length bs \<le> n" "n < 2 ^ 64"
  shows "\<exists>rest. bytes (store_bytes a bs m) a n = bs @ rest"
proof -
  have "bytes (store_bytes a bs m) a n ! i = (bs @ drop (length bs) (bytes (store_bytes a bs m) a n)) ! i" if "i < n" for i
  proof (cases "i < length bs")
    case True
    then show ?thesis using that assms by (simp add: bytes_def store_bytes_at unat_of_nat_less nth_append del: upt_Suc)
  next
    case False
    then show ?thesis using that assms by (simp add: nth_append)
  qed
  then have "bytes (store_bytes a bs m) a n = bs @ drop (length bs) (bytes (store_bytes a bs m) a n)"
    using assms(1) by (intro nth_equalityI) simp_all
  then show ?thesis by blast
qed

text \<open>
  C17: The log. A message that is to be shown, of a level the array of colours has and not fatal, appears on the console as
  its colour, the first 511 bytes of the formatted text up to a zero byte, with a prefix in front and behind each newline,
  and the reset; besides the console only the buffer changes, and the call returns. A message that is not to be
  shown does nothing, whatever its format.
\<close>
theorem log_fmt_correct:
  assumes "level \<le> log_lvl \<or> level = LOG_ERROR \<Longrightarrow> level < LOG_MAX \<and> renders strings (fmt, args, spec_zero) txt \<and>
      readable strings buf (buf + 512) m \<and> unat buf + 2 ^ 33 < 2 ^ 64 \<and> length txt < 2 ^ 32" "level \<noteq> LOG_FATAL"
  shows "log_fmt (Suc d) vaf buf level log_lvl pfx fmt args m s =
    (if level \<le> log_lvl \<or> level = LOG_ERROR then
       (s\<lparr>con_out := con_out s @ crlf (colors ! level) @
            log_body (log_mark pfx (colors ! level)) (takeWhile (\<lambda>c. c \<noteq> 0) (take 511 txt)) @ crlf (ansi ''0'' @ [0x0a])\<rparr>,
        store_bytes buf (take 511 txt @ [0]) m, None)
     else (s, m, None))"
proof (cases "level \<le> log_lvl \<or> level = LOG_ERROR")
  case True
  note a = assms(1)[OF True]
  have v: "vsnprintf (Suc d) vaf buf (of_nat LOG_BUF) fmt args m = Inr (of_nat (length txt), store_bytes buf (take 511 txt @ [0]) m)"
    using vsnprintf_renders[of strings fmt args "txt" buf 512 m d vaf] a by (simp add: LOG_BUF_def)
  obtain rest where r: "bytes (store_bytes buf (take 511 txt @ [0]) m) buf LOG_BUF = (take 511 txt @ [0]) @ rest"
    using bytes_store[of "take 511 txt @ [0]" LOG_BUF buf m] by (auto simp: LOG_BUF_def)
  have t: "takeWhile (\<lambda>c. c \<noteq> 0) (xs @ 0 # rest) = takeWhile (\<lambda>c. c \<noteq> 0) xs" for xs :: "u8 list" by (induction xs) auto
  have w: "takeWhile (\<lambda>c. c \<noteq> 0) (bytes (store_bytes buf (take 511 txt @ [0]) m) buf LOG_BUF) = takeWhile (\<lambda>c. c \<noteq> 0) (take 511 txt)"
    unfolding r by (simp add: t)
  show ?thesis
    using a True assms(2) unfolding log_fmt_def v log_msg_correct Let_def by (auto simp: w)
next
  case False
  then show ?thesis using assms(2) by (simp add: log_fmt_def)
qed

theorem log_fmt_correct_witness:
  "fst (log_fmt 1 (\<lambda>_ _. ([], [])) 0x1000 LOG_WARN LOG_NORMAL (lit ''p'') ex_format [4, 0x100, 255] ex_text_mem \<lparr>con_out = [], con_in = []\<rparr>) =
    \<lparr>con_out = crlf (ansi ''93'') @ log_body (log_mark (lit ''p'') (ansi ''93'')) (lit ''  ab=0xff%'') @ crlf (ansi ''0'' @ [0x0a]), con_in = []\<rparr>"
proof -
  have "readable ex_strings 0x1000 (0x1000 + 512) ex_text_mem"
  proof -
    have "outside 0x1000 (0x1000 + 512) (0x100 + of_nat j)" if "j \<le> 2" for j
    proof -
      have "j \<in> {0, 1, 2}" using that by auto
      then show ?thesis by (auto simp: outside_def)
    qed
    then show ?thesis by (auto simp: readable_def ex_strings_def lit_def ex_text_mem_def split: if_splits)
  qed
  moreover have "colors ! LOG_WARN = ansi ''93''" by (simp add: colors_def LOG_WARN_def)
  ultimately show ?thesis
    using log_fmt_correct[of LOG_WARN LOG_NORMAL ex_strings ex_format "[4, 0x100, 255]" "lit ''  ab=0xff%''" "0x1000" ex_text_mem 0 "\<lambda>_ _. ([], [])"
        "lit ''p''" "\<lparr>con_out = [], con_in = []\<rparr>"] ex_renders
    by (simp add: LOG_WARN_def LOG_NORMAL_def LOG_MAX_def LOG_FATAL_def LOG_ERROR_def lit_def)
qed

end
