(* ===== verification/Fat_Format.thy ===== *)
theory Fat_Format
  imports Fat_Filelib
begin

text \<open>
  \<^verbatim>\<open>fat_format.c\<close>: the boot sector, the table and the root directory of a new volume. The file is compiled when
  \<^verbatim>\<open>FATFS_INC_FORMAT_SUPPORT\<close> is set and modelled as if it were. The fields \<^verbatim>\<open>reserved_sectors\<close> and \<^verbatim>\<open>num_of_fats\<close> of
  the file system structure are set and read here only, and are constants of the kind of volume. The bytes of the boot
  sector, which the code stores one by one in the order of the sector, are written as the list they make up.
\<close>

section \<open>Sizes\<close>

definition cluster_size_table16 :: "(u32 \<times> u8) list" where
  "cluster_size_table16 = [(32680, 2), (262144, 4), (524288, 8), (1048576, 16), (2097152, 32), (4194304, 64), (8388608, 128)]"

definition cluster_size_table32 :: "(u32 \<times> u8) list" where
  "cluster_size_table32 = [(532480, 1), (16777216, 8), (33554432, 16), (67108864, 32), (0xFFFFFFFF, 64)]"

definition fatfs_calc_cluster_size :: "u32 \<Rightarrow> bool \<Rightarrow> u8" where
  "fatfs_calc_cluster_size sectors is_fat32 =
     (case List.find (\<lambda>(limit, _). sectors \<le> limit) (if is_fat32 then cluster_size_table32 else cluster_size_table16) of
        Some (_, spc) \<Rightarrow> spc | None \<Rightarrow> 0)"

definition reserved_sectors :: "bool \<Rightarrow> u16" where
  "reserved_sectors is_fat32 = (if is_fat32 then 32 else 8)"

definition num_of_fats :: u8 where "num_of_fats = 2"

definition root_entries :: "bool \<Rightarrow> u16" where
  "root_entries is_fat32 = (if is_fat32 then 0 else 512)"

definition table_sectors :: "u32 \<Rightarrow> u8 \<Rightarrow> bool \<Rightarrow> u32" where
  "table_sectors vol_sectors spc is_fat32 =
     (let total_clusters = vol_sectors div ucast spc + 1 in total_clusters div (if is_fat32 then 128 else 256) + 1)"

section \<open>Writing\<close>

text \<open>\<^verbatim>\<open>memset(fs->currentsector.sector, 0, FAT_SECTOR_SIZE)\<close>, and the loops that write the working buffer to a run of sectors.\<close>

definition set_cur :: "u8 list \<Rightarrow> 'd fatfs \<Rightarrow> 'd fatfs" where
  "set_cur s fs = fs_cur (\<lambda>b. b\<lparr>fb_sector := s\<rparr>) fs"

definition zero_sector :: "u8 list" where
  "zero_sector = replicate FAT_SECTOR_SIZE_n 0"

definition write_cur :: "u32 \<Rightarrow> 'd fatfs \<Rightarrow> bool \<times> 'd fatfs" where
  "write_cur lba fs = disk_write lba (fb_sector (currentsector fs)) 1 fs"

fun write_run :: "nat \<Rightarrow> u32 \<Rightarrow> 'd fatfs \<Rightarrow> bool \<times> 'd fatfs" where
  "write_run 0 lba fs = (True, fs)"
| "write_run (Suc n) lba fs = (let (ok, fs) = write_cur lba fs in if ok then write_run n (lba + 1) fs else (False, fs))"

definition fatfs_erase_sectors :: "u32 \<Rightarrow> nat \<Rightarrow> 'd fatfs \<Rightarrow> bool \<times> 'd fatfs" where
  "fatfs_erase_sectors lba count fs = write_run count lba (set_cur zero_sector fs)"

section \<open>The boot sector\<close>

text \<open>Jump code, \<^verbatim>\<open>MSDOS5.0\<close> and the bytes per sector.\<close>

definition boot_head :: "u8 list" where
  "boot_head = [0xEB, 0x3C, 0x90, 0x4D, 0x53, 0x44, 0x4F, 0x53, 0x35, 0x2E, 0x30, 0x00, 0x02]"

definition boot_name :: "u8 list \<Rightarrow> u8 list" where
  "boot_name name = map (\<lambda>i. if i < length name then name ! i else 0x20) [0..<11]"

definition boot_common :: "u8 \<Rightarrow> bool \<Rightarrow> u8 list" where
  "boot_common spc is_fat32 = boot_head @ [spc] @ le16 (reserved_sectors is_fat32) @ [num_of_fats] @ le16 (root_entries is_fat32) @ [0, 0, 0xF8]"

text \<open>Sectors per track, heads, hidden sectors; total sectors; drive, signature, identity.\<close>

definition boot_fat16 :: "u32 \<Rightarrow> u32 \<Rightarrow> u8 list \<Rightarrow> u8 list" where
  "boot_fat16 sectors vol_sectors name =
     le16 (ucast sectors) @ [0, 0, 0, 0, 0x20, 0, 0, 0] @ bytes_le vol_sectors @ [0, 0, 0x29, 0x12, 0x34, 0x56, 0x78] @
     boot_name name @ lit ''FAT16   '' @ replicate 448 0 @ [0x55, 0xAA]"

text \<open>The same for FAT32, with the size of the table, the root cluster, the information sector and the backup sector.\<close>

definition boot_fat32 :: "u32 \<Rightarrow> u32 \<Rightarrow> u32 \<Rightarrow> u16 \<Rightarrow> u8 list \<Rightarrow> u8 list" where
  "boot_fat32 sectors vol_sectors root_cluster info_sector name =
     [0, 0, 0x3F, 0, 0xFF, 0, 0, 0, 0, 0] @ bytes_le vol_sectors @ bytes_le sectors @ [0, 0, 0, 0] @ bytes_le root_cluster @
     le16 info_sector @ [6, 0] @ replicate 12 0 @ [0, 0, 0x29, 0x12, 0x34, 0x56, 0x78] @
     boot_name name @ lit ''FAT32   '' @ replicate 420 0 @ [0x55, 0xAA]"

definition fatfs_create_boot_sector :: "u32 \<Rightarrow> u32 \<Rightarrow> u8 list \<Rightarrow> bool \<Rightarrow> 'd fatfs \<Rightarrow> bool \<times> 'd fatfs" where
  "fatfs_create_boot_sector boot_sector_lba vol_sectors name is_fat32 fs =
     (let spc = fatfs_calc_cluster_size vol_sectors is_fat32;
          fs = fs\<lparr>sectors_per_cluster := spc\<rparr>
      in if spc = 0 then (False, set_cur (boot_head @ replicate 499 0) fs)
         else
           let sectors = table_sectors vol_sectors spc is_fat32;
               fs = fs\<lparr>root_entry_count := root_entries is_fat32, fat_sectors := sectors\<rparr>;
               details = (if is_fat32 then boot_fat32 sectors vol_sectors (rootdir_first_cluster fs) (fs_info_sector fs) name
                          else boot_fat16 sectors vol_sectors name)
           in write_cur boot_sector_lba (set_cur (boot_common spc is_fat32 @ details) fs))"

section \<open>The table\<close>

definition fsinfo_sector :: "u8 list" where
  "fsinfo_sector = [0x52, 0x52, 0x61, 0x41] @ replicate 480 0 @ [0x72, 0x72, 0x41, 0x61] @ replicate 8 0xFF @ replicate 14 0 @ [0x55, 0xAA]"

definition fatfs_create_fsinfo_sector :: "u32 \<Rightarrow> 'd fatfs \<Rightarrow> bool \<times> 'd fatfs" where
  "fatfs_create_fsinfo_sector lba fs = write_cur lba (set_cur fsinfo_sector fs)"

definition first_table_sector :: "bool \<Rightarrow> u8 list" where
  "first_table_sector is_fat32 =
     (if \<not> is_fat32 then SET_16BIT_WORD 2 0xFFFF (SET_16BIT_WORD 0 0xFFF8 zero_sector)
      else SET_32BIT_WORD 8 0x0FFFFFFF (SET_32BIT_WORD 4 0xFFFFFFFF (SET_32BIT_WORD 0 0x0FFFFFF8 zero_sector)))"

definition fatfs_erase_fat :: "bool \<Rightarrow> 'd fatfs \<Rightarrow> bool \<times> 'd fatfs" where
  "fatfs_erase_fat is_fat32 fs =
     (let (ok, fs) = write_cur (fat_begin_lba fs) (set_cur (first_table_sector is_fat32) fs)
      in if \<not> ok then (False, fs)
         else write_run (unat (fat_sectors fs * ucast num_of_fats) - 1) (fat_begin_lba fs + 1) (set_cur zero_sector fs))"

section \<open>A volume\<close>

text \<open>The start that both kinds have in common; the first result is whether the medium can be read and written.\<close>

definition format_start :: "tFatType \<Rightarrow> u16 \<Rightarrow> u32 \<Rightarrow> 'd fatfs \<Rightarrow> bool \<times> 'd fatfs" where
  "format_start kind info_sector root_cluster fs =
     (let fs = fs_cur (\<lambda>b. b\<lparr>fb_address := FAT32_INVALID_CLUSTER, fb_dirty := False\<rparr>) fs;
          fs = fatfs_fat_init (fs\<lparr>next_free_cluster := 0\<rparr>)
      in if read_media (disk_io fs) = None \<or> write_media (disk_io fs) = None then (False, fs)
         else (True, fs\<lparr>fat_type := kind, fs_info_sector := info_sector, rootdir_first_cluster := root_cluster, lba_begin := 0\<rparr>))"

definition fatfs_format_fat16 :: "u32 \<Rightarrow> u8 list \<Rightarrow> 'd fatfs \<Rightarrow> int \<times> 'd fatfs" where
  "fatfs_format_fat16 volume_sectors name fs =
     (let (media_ok, fs) = format_start FAT_TYPE_16 0 0 fs
      in if \<not> media_ok then (FAT_INIT_MEDIA_ACCESS_ERROR, fs)
         else
           let (ok, fs) = fatfs_create_boot_sector (lba_begin fs) volume_sectors name False fs
           in if \<not> ok then (0, fs)
              else
                let tables = ucast num_of_fats * fat_sectors fs;
                    fs = fs\<lparr>rootdir_first_sector := ucast (reserved_sectors False) + tables,
                            rootdir_sectors := (ucast (root_entry_count fs) * 32 + 511) div 512,
                            fat_begin_lba := lba_begin fs + ucast (reserved_sectors False),
                            cluster_begin_lba := lba_begin fs + ucast (reserved_sectors False) + tables\<rparr>;
                    (ok, fs) = fatfs_erase_fat False fs
                in if \<not> ok then (0, fs)
                   else
                     let (ok, fs) = fatfs_erase_sectors (lba_begin fs + rootdir_first_sector fs) (unat (rootdir_sectors fs)) fs
                     in (if ok then 1 else 0, fs))"

definition fatfs_format_fat32 :: "u32 \<Rightarrow> u8 list \<Rightarrow> 'd fatfs \<Rightarrow> int \<times> 'd fatfs" where
  "fatfs_format_fat32 volume_sectors name fs =
     (let (media_ok, fs) = format_start FAT_TYPE_32 1 2 fs
      in if \<not> media_ok then (FAT_INIT_MEDIA_ACCESS_ERROR, fs)
         else
           let (ok, fs) = fatfs_create_boot_sector (lba_begin fs) volume_sectors name True fs
           in if \<not> ok then (0, fs)
              else
                let fs = fs\<lparr>fat_begin_lba := lba_begin fs + ucast (reserved_sectors True),
                            cluster_begin_lba := lba_begin fs + ucast (reserved_sectors True) + ucast num_of_fats * fat_sectors fs\<rparr>;
                    (ok, fs) = fatfs_create_fsinfo_sector (ucast (fs_info_sector fs)) fs
                in if \<not> ok then (0, fs)
                   else
                     let (ok, fs) = fatfs_erase_fat True fs
                     in if \<not> ok then (0, fs)
                        else
                          let (ok, fs) = fatfs_erase_sectors (fatfs_lba_of_cluster fs (rootdir_first_cluster fs)) (unat (sectors_per_cluster fs)) fs
                          in (if ok then 1 else 0, fs))"

definition fatfs_format :: "u32 \<Rightarrow> u8 list \<Rightarrow> 'd fatfs \<Rightarrow> int \<times> 'd fatfs" where
  "fatfs_format volume_sectors name fs =
     (if volume_sectors \<le> 4194304 then fatfs_format_fat16 volume_sectors name fs else fatfs_format_fat32 volume_sectors name fs)"

definition fl_format :: "u32 \<Rightarrow> u8 list \<Rightarrow> 'd filelib \<Rightarrow> int \<times> 'd filelib" where
  "fl_format volume_sectors name l = (let (res, fs) = fatfs_format volume_sectors name (lib_fs l) in (res, l\<lparr>lib_fs := fs\<rparr>))"

end
