(* ===== verification/Fat_Write.thy ===== *)
theory Fat_Write
  imports Fat_Access
begin

text \<open>
  \<^verbatim>\<open>fat_write.c\<close>: new clusters for files, free places in directories and new entries in them. The file is compiled when
  \<^verbatim>\<open>FATFS_INC_WRITE_SUPPORT\<close> is set and modelled as if it were. Pointers to results are results; the loops over the
  sectors of a directory are partial functions, as those of \<^verbatim>\<open>fat_access.c\<close>.
\<close>

section \<open>Clusters\<close>

definition forget_free_hint :: "'d fatfs \<Rightarrow> 'd fatfs" where
  "forget_free_hint fs =
     (if next_free_cluster fs \<noteq> FAT32_LAST_CLUSTER then fatfs_set_fs_info_next_free_cluster FAT32_LAST_CLUSTER fs else fs)"

text \<open>The loop; \<open>first\<close> is \<open>i == 0\<close>, the second result \<^verbatim>\<open>*startCluster\<close>.\<close>

fun add_free_loop :: "nat \<Rightarrow> bool \<Rightarrow> u32 \<Rightarrow> u32 \<Rightarrow> 'd fatfs \<Rightarrow> (bool \<times> u32 \<times> 'd fatfs) option" where
  "add_free_loop 0 first start startCluster fs = Some (True, startCluster, fs)"
| "add_free_loop (Suc n) first start startCluster fs =
     (case fatfs_find_blank_cluster (rootdir_first_cluster fs) fs of
        None \<Rightarrow> None
      | Some (None, fs) \<Rightarrow> Some (False, startCluster, fs)
      | Some (Some nextcluster, fs) \<Rightarrow>
          let (_, fs) = fatfs_fat_set_cluster start nextcluster fs;
              (_, fs) = fatfs_fat_set_cluster nextcluster FAT32_LAST_CLUSTER fs
          in add_free_loop n False nextcluster (if first then nextcluster else startCluster) fs)"

definition fatfs_add_free_space :: "u32 \<Rightarrow> u32 \<Rightarrow> 'd fatfs \<Rightarrow> (bool \<times> u32 \<times> 'd fatfs) option" where
  "fatfs_add_free_space startCluster clusters fs =
     add_free_loop (unat clusters) True startCluster startCluster (forget_free_hint fs)"

definition fatfs_allocate_free_space :: "bool \<Rightarrow> u32 \<Rightarrow> u32 \<Rightarrow> 'd fatfs \<Rightarrow> (bool \<times> u32 \<times> 'd fatfs) option" where
  "fatfs_allocate_free_space newFile startCluster sz fs =
     (if sz = 0 then Some (False, startCluster, fs)
      else
        let fs = forget_free_hint fs;
            clusterSize = ucast (sectors_per_cluster fs) * 512 :: u32;
            clusterCount = sz div clusterSize;
            clusterCount = (if sz - clusterSize * clusterCount \<noteq> 0 then clusterCount + 1 else clusterCount);
            extend = (\<lambda>nextcluster fs. map_option (\<lambda>(ok, _, fs). (ok, startCluster, fs)) (fatfs_add_free_space nextcluster clusterCount fs))
        in if newFile then
             (case fatfs_find_blank_cluster (rootdir_first_cluster fs) fs of
                None \<Rightarrow> None
              | Some (None, fs) \<Rightarrow> Some (False, startCluster, fs)
              | Some (Some nextcluster, fs) \<Rightarrow>
                  if clusterCount = 1 then Some (True, nextcluster, snd (fatfs_fat_set_cluster nextcluster FAT32_LAST_CLUSTER fs))
                  else extend nextcluster fs)
           else extend startCluster fs)"

section \<open>A free place in a directory\<close>

text \<open>What the search has so far: the free entries in a row, whether their start is recorded, and the start.\<close>

record dir_free =
  possible_spaces :: nat
  start_recorded :: bool
  pSector :: u32
  pOffset :: u8

definition note_free :: "u32 \<Rightarrow> nat \<Rightarrow> dir_free \<Rightarrow> dir_free" where
  "note_free sector item d =
     (let d = (if possible_spaces d = 0 then d\<lparr>pSector := sector, pOffset := of_nat item, start_recorded := True\<rparr> else d)
      in d\<lparr>possible_spaces := possible_spaces d + 1\<rparr>)"

text \<open>The loop over the entries of a sector; the first result is whether the space is found.\<close>

fun free_in_sector :: "nat \<Rightarrow> nat \<Rightarrow> nat \<Rightarrow> u32 \<Rightarrow> u8 list \<Rightarrow> dir_free \<Rightarrow> bool \<times> dir_free" where
  "free_in_sector 0 item entryCount sector sec d = (False, d)"
| "free_in_sector (Suc n) item entryCount sector sec d =
     (let recordoffset = FAT_DIR_ENTRY_SIZE * item
      in if fatfs_entry_lfn_text (dir_entry_at sec recordoffset) then
           free_in_sector n (Suc item) entryCount sector sec (note_free sector item d)
         else if sec ! recordoffset = FILE_HEADER_DELETED \<or> sec ! recordoffset = FILE_HEADER_BLANK then
           let d = note_free sector item d
           in if possible_spaces d \<ge> entryCount then (True, d) else free_in_sector n (Suc item) entryCount sector sec d
         else free_in_sector n (Suc item) entryCount sector sec (d\<lparr>possible_spaces := 0, start_recorded := False\<rparr>))"

text \<open>The loop that erases the new cluster.\<close>

fun erase_cluster :: "nat \<Rightarrow> u32 \<Rightarrow> u32 \<Rightarrow> 'd fatfs \<Rightarrow> bool \<times> 'd fatfs" where
  "erase_cluster 0 newCluster i fs = (True, fs)"
| "erase_cluster (Suc n) newCluster i fs =
     (let (ok, fs) = fatfs_write_sector newCluster i None fs in if ok then erase_cluster n newCluster (i + 1) fs else (False, fs))"

text \<open>The directory is full: it is extended. \<open>x\<close> is the number of the sector that could not be read.\<close>

definition extend_directory :: "u32 \<Rightarrow> u32 \<Rightarrow> dir_free \<Rightarrow> 'd fatfs \<Rightarrow> (bool \<times> dir_free \<times> 'd fatfs) option" where
  "extend_directory dirCluster x d fs =
     (case fatfs_find_blank_cluster (rootdir_first_cluster fs) fs of
        None \<Rightarrow> None
      | Some (None, fs) \<Rightarrow> Some (False, d, fs)
      | Some (Some newCluster, fs) \<Rightarrow>
          (case fatfs_fat_add_cluster_to_chain dirCluster newCluster fs of
             None \<Rightarrow> None
           | Some (ok, fs) \<Rightarrow>
               if \<not> ok then Some (False, d, fs)
               else
                 let fs = fs_cur (\<lambda>b. b\<lparr>fb_sector := replicate FAT_SECTOR_SIZE_n 0\<rparr>) fs;
                     (ok, fs) = erase_cluster (unat (sectors_per_cluster fs)) newCluster 0 fs
                 in if \<not> ok then Some (False, d, fs)
                    else Some (True, if start_recorded d then d else d\<lparr>pSector := x, pOffset := 0, start_recorded := True\<rparr>, fs)))"

partial_function (option) find_free_loop :: "u32 \<Rightarrow> nat \<Rightarrow> u32 \<Rightarrow> dir_free \<Rightarrow> 'd fatfs \<Rightarrow> (bool \<times> dir_free \<times> 'd fatfs) option" where
  "find_free_loop dirCluster entryCount x d fs =
     (case fatfs_sector_reader dirCluster x False fs of
        (ok, _, fs) \<Rightarrow>
          if ok then
            (case free_in_sector FAT_DIR_ENTRIES_PER_SECTOR 0 entryCount x (fb_sector (currentsector fs)) d of
               (found, d) \<Rightarrow> if found then Some (True, d, fs) else find_free_loop dirCluster entryCount (x + 1) d fs)
          else extend_directory dirCluster x d fs)"

definition fatfs_find_free_dir_offset :: "u32 \<Rightarrow> nat \<Rightarrow> dir_free \<Rightarrow> 'd fatfs \<Rightarrow> (bool \<times> dir_free \<times> 'd fatfs) option" where
  "fatfs_find_free_dir_offset dirCluster entryCount d fs =
     (if entryCount = 0 then Some (False, d, fs)
      else find_free_loop dirCluster entryCount 0 (d\<lparr>possible_spaces := 0, start_recorded := False\<rparr>) fs)"

section \<open>A new entry\<close>

definition sfn_checksum :: "u8 list \<Rightarrow> u8" where
  "sfn_checksum shortfilename =
     fold (\<lambda>c checksum. (if checksum AND 1 \<noteq> 0 then 0x80 else 0) + drop_bit 1 checksum + c) (take 11 shortfilename) 0"

text \<open>
  The loop over the entries of a sector. Either the short entry has been stored, or the loop goes on with whether the
  place has been reached, the long entries still to store and whether the sector has changed.
\<close>

fun add_in_sector ::
  "nat \<Rightarrow> nat \<Rightarrow> bool \<Rightarrow> nat \<Rightarrow> (nat \<Rightarrow> u8 list) \<Rightarrow> u8 list \<Rightarrow> bool \<times> nat \<Rightarrow> u8 list \<times> bool \<Rightarrow> bool \<times> (bool \<times> nat) \<times> u8 list \<times> bool" where
  "add_in_sector 0 item here dirOffset long short st sd = (False, st, sd)"
| "add_in_sector (Suc n) item here dirOffset long short (foundEnd, entryCount) (sec, dirty) =
     (let foundEnd = (foundEnd \<or> here \<and> dirOffset = item)
      in if foundEnd then
           if entryCount = 0 then (True, (foundEnd, entryCount), put_at (FAT_DIR_ENTRY_SIZE * item) short sec, dirty)
           else add_in_sector n (Suc item) here dirOffset long short (foundEnd, entryCount - 1)
                  (put_at (FAT_DIR_ENTRY_SIZE * item) (long (entryCount - 1)) sec, True)
         else add_in_sector n (Suc item) here dirOffset long short (foundEnd, entryCount) (sec, dirty))"

partial_function (option) add_entry_loop ::
  "u32 \<Rightarrow> dir_free \<Rightarrow> (nat \<Rightarrow> u8 list) \<Rightarrow> u8 list \<Rightarrow> u32 \<Rightarrow> bool \<times> nat \<Rightarrow> 'd fatfs \<Rightarrow> (bool \<times> 'd fatfs) option" where
  "add_entry_loop dirCluster d long short x st fs =
     (case fatfs_sector_reader dirCluster x False fs of
        (ok, _, fs) \<Rightarrow>
          if \<not> ok then Some (False, fs)
          else
            (case add_in_sector FAT_DIR_ENTRIES_PER_SECTOR 0 (pSector d = x) (unat (pOffset d)) long short st
                    (fb_sector (currentsector fs), False) of
               (done, st, sec, dirty) \<Rightarrow>
                 let fs = fs_cur (\<lambda>b. b\<lparr>fb_sector := sec\<rparr>) fs;
                     (ok, fs) = (if done \<or> dirty then disk_write (fb_address (currentsector fs)) (fb_sector (currentsector fs)) 1 fs
                                 else (True, fs))
                 in if done then Some (ok, fs)
                    else if \<not> ok then Some (False, fs)
                    else add_entry_loop dirCluster d long short (x + 1) st fs))"

definition fatfs_add_file_entry :: "u32 \<Rightarrow> u8 list \<Rightarrow> u8 list \<Rightarrow> u32 \<Rightarrow> u32 \<Rightarrow> bool \<Rightarrow> 'd fatfs \<Rightarrow> (bool \<times> 'd fatfs) option" where
  "fatfs_add_file_entry dirCluster filename shortfilename startCluster sz dir fs =
     (if write_media (disk_io fs) = None then Some (False, fs)
      else
        let entryCount = (if FATFS_INC_LFN_SUPPORT then nat (fatfs_lfn_entries_required filename) else 0)
        in if FATFS_INC_LFN_SUPPORT \<and> entryCount = 0 then Some (False, fs)
           else
             (case fatfs_find_free_dir_offset dirCluster (entryCount + 1)
                     \<lparr>possible_spaces = 0, start_recorded = False, pSector = 0, pOffset = 0\<rparr> fs of
                None \<Rightarrow> None
              | Some (ok, d, fs) \<Rightarrow>
                  if \<not> ok then Some (False, fs)
                  else
                    let short = dir_entry_bytes (fatfs_sfn_create_entry shortfilename sz startCluster dir);
                        long = (\<lambda>k. fatfs_filename_to_lfn filename (int k) (sfn_checksum shortfilename))
                    in add_entry_loop dirCluster d long short (pSector d) (False, entryCount) fs))"

end
