(* ===== verification/Fat_Write_Correct.thy ===== *)
theory Fat_Write_Correct
  imports Fat_Write Fat_Access_Correct
begin

text \<open>
  What \<^verbatim>\<open>fat_write.c\<close> does to the table and to directories: a file grows by clusters that were free, and a new entry
  takes the first free place of the directory, where a search then finds it.
\<close>

section \<open>Clusters\<close>

text \<open>A table whose entries can all be read, as large as the numbers of clusters, with its first entry in use.\<close>

definition table_complete :: "'d fatfs \<Rightarrow> bool" where
  "table_complete fs \<longleftrightarrow> (\<forall>c. fat_sector_offset fs c < fat_sectors fs \<longrightarrow> fat_entry fs c \<noteq> None) \<and>
     unat (fat_sectors fs) * clusters_per_sector fs \<le> (if fat_type fs = FAT_TYPE_16 then 0xFFF8 else 0x0FFFFFF8) \<and>
     fat_entry fs 0 \<noteq> Some 0"

lemma table_complete_small: "table_complete fs \<Longrightarrow> unat (fat_sectors fs) * clusters_per_sector fs < 2 ^ 32"
  by (auto simp: table_complete_def split: if_splits)

lemma table_complete_readable: "table_complete fs \<Longrightarrow> fat_sector_offset fs c < fat_sectors fs \<Longrightarrow> fat_entry fs c \<noteq> None"
  by (auto simp: table_complete_def)

lemma fat_value_small:
  assumes "unat c < (if fat_type fs = FAT_TYPE_16 then 0xFFF8 else 0x0FFFFFF8)"
  shows "fat_value fs c = c"
proof (cases "fat_type fs = FAT_TYPE_16")
  case True
  then have "unat c < 2 ^ 16" using assms by simp
  then show ?thesis using True by (simp add: fat_value_def word_unat_eq_iff unsigned_ucast_eq take_bit_eq_mod unat_mod)
next
  case False
  then have "unat c < 2 ^ 28" using assms by simp
  moreover have "c AND 0x0FFFFFFF = take_bit 28 c" by (simp add: take_bit_eq_mask mask_eq_exp_minus_1)
  ultimately show ?thesis using False by (simp add: fat_value_def word_unat_eq_iff unsigned_take_bit_eq take_bit_eq_mod unat_mod)
qed

text \<open>A free cluster can be put at the end of a chain.\<close>

lemma free_cluster:
  assumes "table_complete fs" "fat_sector_offset fs c < fat_sectors fs" "fat_entry fs c = Some 0"
  shows "cluster_ok fs c" "link_ok fs c"
proof -
  have u: "unat c < (if fat_type fs = FAT_TYPE_16 then 0xFFF8 else 0x0FFFFFF8)"
    using assms(1,2) unfolding table_complete_def fat_sector_offset_less by linarith
  then have "c \<noteq> FAT32_LAST_CLUSTER" by (auto simp: FAT32_LAST_CLUSTER_def split: if_splits)
  moreover have "c \<noteq> 0" using assms(1,3) by (auto simp: table_complete_def)
  ultimately show "cluster_ok fs c" using assms(2,3) by (simp add: cluster_ok_def in_fat_def)
  show "link_ok fs c" using fat_value_small[OF u] u by (simp add: link_ok_def word_less_nat_alt split: if_splits)
qed

text \<open>A cluster of a chain is not free.\<close>

lemma chain_used:
  assumes "is_chain fs cs" "\<forall>c \<in> set cs. cluster_ok fs c" "c \<in> set cs"
  shows "fat_entry fs c \<noteq> Some 0"
  using assms
proof (induction cs rule: induct_list012)
  case (2 d)
  then show ?case by (auto simp: fat_next_def cluster_ok_def FAT32_LAST_CLUSTER_def split: if_splits)
next
  case (3 d e cs)
  have "d \<noteq> 0" "e \<noteq> 0" "fat_next fs d = e" using "3.prems" by (auto simp: cluster_ok_def)
  then have "fat_entry fs d \<noteq> Some 0" by (auto simp: fat_next_def split: if_splits)
  then show ?case using 3 by auto
qed simp

lemma table_complete_update:
  assumes "table_complete fs" "same_fs fs fs'" "fat_entry fs' = (fat_entry fs)(a := Some v, b := Some w)" "a \<noteq> 0" "b \<noteq> 0"
  shows "table_complete fs'"
proof -
  have o: "fat_sector_offset fs' = fat_sector_offset fs" by (intro ext) (simp add: fat_sector_offset_def same_fsD[OF assms(2)])
  show ?thesis using assms(1,4,5) by (auto simp: table_complete_def o assms(3) clusters_per_sector_def same_fsD[OF assms(2)])
qed

lemma same_fs_offset: "same_fs fs fs' \<Longrightarrow> fat_sector_offset fs' = fat_sector_offset fs"
  by (intro ext) (simp add: fat_sector_offset_def same_fsD)

lemma same_view_fields:
  assumes "same_view fs fs'"
  shows "table_complete fs' = table_complete fs" "link_ok fs' = link_ok fs" "write_media (disk_io fs') = write_media (disk_io fs)"
    "fat_value fs' = fat_value fs" "rootdir_first_cluster fs' = rootdir_first_cluster fs"
proof -
  have sf: "same_fs fs fs'" using assms by (simp add: same_view_def)
  show "table_complete fs' = table_complete fs" by (simp add: table_complete_def blank_result_view[OF assms] same_fsD[OF sf])
  show v: "fat_value fs' = fat_value fs" by (intro ext) (simp add: fat_value_def same_fsD[OF sf])
  show "link_ok fs' = link_ok fs" by (intro ext) (simp add: link_ok_def v same_fsD[OF sf])
  show "write_media (disk_io fs') = write_media (disk_io fs)" "rootdir_first_cluster fs' = rootdir_first_cluster fs"
    using sf by (simp_all add: same_fsD)
qed

text \<open>A chain that has grown by clusters that were free.\<close>

definition grown :: "'d fatfs \<Rightarrow> u32 list \<Rightarrow> u32 list \<Rightarrow> 'd fatfs \<Rightarrow> bool" where
  "grown fs cs ns fs' \<longleftrightarrow> fat_inv fs' \<and> same_fs fs fs' \<and> is_chain fs' (cs @ ns) \<and> distinct (cs @ ns) \<and>
     (\<forall>c \<in> set ns. fat_entry fs c = Some 0) \<and>
     (\<forall>d. d \<noteq> last cs \<longrightarrow> d \<notin> set ns \<longrightarrow> fat_entry fs' d = fat_entry fs d)"

definition no_free :: "'d fatfs \<Rightarrow> bool" where
  "no_free fs \<longleftrightarrow> (\<forall>d. rootdir_first_cluster fs \<le> d \<and> fat_sector_offset fs d < fat_sectors fs \<longrightarrow> fat_entry fs d \<noteq> Some 0)"

text \<open>One round of the loop.\<close>

lemma add_free_round:
  assumes "fat_inv fs" "write_media (disk_io fs) \<noteq> None" "table_complete fs" "is_chain fs cs" "distinct cs" "\<forall>c \<in> set cs. cluster_ok fs c"
  shows "\<exists>fs'. fat_inv fs' \<and> same_fs fs fs' \<and>
    (add_free_loop (Suc n) first (last cs) sc fs = Some (False, sc, fs') \<and> same_view fs fs' \<and> no_free fs' \<or>
     (\<exists>c. add_free_loop (Suc n) first (last cs) sc fs = add_free_loop n False c (if first then c else sc) fs' \<and>
        grown fs cs [c] fs' \<and> table_complete fs' \<and> (\<forall>d \<in> set (cs @ [c]). cluster_ok fs' d)))"
proof -
  obtain r fs1 where f: "fatfs_find_blank_cluster (rootdir_first_cluster fs) fs = Some (r, fs1)" "fat_inv fs1" "same_view fs fs1"
    "blank_result fs (rootdir_first_cluster fs) r"
    using find_blank_spec[OF assms(1) table_complete_readable[OF assms(3)] table_complete_small[OF assms(3)]] by blast
  have sf: "same_fs fs fs1" using f(3) by (simp add: same_view_def)
  note v = blank_result_view[OF f(3)] same_view_fields[OF f(3)]
  show ?thesis
  proof (cases r)
    case None
    then have "no_free fs1" using f(4) by (simp add: no_free_def blank_result_def v)
    then show ?thesis using f None sf by auto
  next
    case (Some c)
    have c: "fat_sector_offset fs c < fat_sectors fs" "fat_entry fs c = Some 0" using f(4) Some by (simp_all add: blank_result_def)
    note ok = free_cluster[OF assms(3) c]
    have new: "c \<notin> set cs" using chain_used[OF assms(4,6)] c(2) by blast
    obtain r1 fs2 where w1: "fatfs_fat_set_cluster (last cs) c fs1 = (r1, fs2)" by fastforce
    obtain r2 fs3 where w2: "fatfs_fat_set_cluster c FAT32_LAST_CLUSTER fs2 = (r2, fs3)" by fastforce
    have pre: "write_media (disk_io fs1) \<noteq> None" "is_chain fs1 cs" "\<forall>c \<in> set cs. cluster_ok fs1 c" "cluster_ok fs1 c" "link_ok fs1 c"
      using assms ok by (simp_all add: v same_view_is_chain[OF f(3)] same_view_cluster_ok[OF f(3)])
    note l = link_new[OF f(2) pre(1,2) assms(5) pre(3,4) new pre(5) w1 w2]
    have same: "same_fs fs fs3" using same_fs_trans[OF sf l(2)] .
    have ne: "cs \<noteq> []" using assms(4) by auto
    have nz: "last cs \<noteq> 0" "c \<noteq> 0" using assms(6) ne ok by (auto simp: cluster_ok_def)
    have "grown fs cs [c] fs3" using l same new c(2) assms(5) by (auto simp: grown_def v)
    moreover have "table_complete fs3" using table_complete_update[OF _ l(2,4) nz] assms(3) by (simp add: v)
    moreover have "cluster_ok fs3 d" if "d \<in> set (cs @ [c])" for d
      using cluster_ok_cong[OF l(2), of d] pre(3,4) that by (auto simp: l(4) cluster_ok_def in_fat_def)
    moreover have "add_free_loop (Suc n) first (last cs) sc fs = add_free_loop n False c (if first then c else sc) fs3"
      using f(1) Some w1 w2 by simp
    ultimately show ?thesis using l(1) same by blast
  qed
qed

lemma grown_trans:
  assumes "grown fs cs [c] fs1" "grown fs1 (cs @ [c]) ns fs2" "cs \<noteq> []"
  shows "grown fs cs (c # ns) fs2"
proof -
  have e: "fat_entry fs1 d = fat_entry fs d" if "d \<noteq> last cs" "d \<noteq> c" for d using assms(1) that by (simp add: grown_def)
  have "is_chain fs1 (cs @ [c])" using assms(1) by (simp add: grown_def)
  have d: "distinct (cs @ c # ns)" using assms(2) by (simp add: grown_def)
  have "fat_entry fs x = Some 0" if "x \<in> set ns" for x
  proof -
    have "x \<noteq> last cs" "x \<noteq> c" using d that last_in_set[OF assms(3)] by auto
    then show ?thesis using assms(2) that e by (auto simp: grown_def)
  qed
  then show ?thesis using assms e d by (auto simp: grown_def intro: same_fs_trans)
qed

lemma add_free_loop_spec:
  assumes "fat_inv fs" "write_media (disk_io fs) \<noteq> None" "table_complete fs" "is_chain fs cs" "distinct cs" "\<forall>c \<in> set cs. cluster_ok fs c"
  shows "\<exists>r ns fs'. add_free_loop n first (last cs) sc fs = Some (r, if first \<and> ns \<noteq> [] then hd ns else sc, fs') \<and> grown fs cs ns fs' \<and>
    (if r then length ns = n else length ns < n \<and> no_free fs')"
  using assms
proof (induction n arbitrary: first cs sc fs)
  case 0
  then show ?case by (intro exI[of _ True] exI[of _ "[]"] exI[of _ fs]) (simp add: grown_def)
next
  case (Suc n)
  obtain fs1 where fs1: "fat_inv fs1" "same_fs fs fs1" and alt:
    "add_free_loop (Suc n) first (last cs) sc fs = Some (False, sc, fs1) \<and> same_view fs fs1 \<and> no_free fs1 \<or>
     (\<exists>c. add_free_loop (Suc n) first (last cs) sc fs = add_free_loop n False c (if first then c else sc) fs1 \<and>
        grown fs cs [c] fs1 \<and> table_complete fs1 \<and> (\<forall>d \<in> set (cs @ [c]). cluster_ok fs1 d))"
    using add_free_round[OF Suc.prems] by blast
  show ?case
  proof (cases "\<exists>c. grown fs cs [c] fs1 \<and> table_complete fs1 \<and> (\<forall>d \<in> set (cs @ [c]). cluster_ok fs1 d) \<and>
      add_free_loop (Suc n) first (last cs) sc fs = add_free_loop n False c (if first then c else sc) fs1")
    case True
    then obtain c where c: "grown fs cs [c] fs1" "table_complete fs1" "\<forall>d \<in> set (cs @ [c]). cluster_ok fs1 d"
      "add_free_loop (Suc n) first (last cs) sc fs = add_free_loop n False c (if first then c else sc) fs1" by blast
    have ne: "cs \<noteq> []" using Suc.prems(4) by auto
    have g: "is_chain fs1 (cs @ [c])" "distinct (cs @ [c])" using c(1) by (simp_all add: grown_def)
    have wm: "write_media (disk_io fs1) \<noteq> None" using Suc.prems(2) by (simp add: same_fsD[OF fs1(2)])
    obtain r ns fs2 where "add_free_loop n False (last (cs @ [c])) (if first then c else sc) fs1 =
        Some (r, if False \<and> ns \<noteq> [] then hd ns else if first then c else sc, fs2)"
      "grown fs1 (cs @ [c]) ns fs2" "if r then length ns = n else length ns < n \<and> no_free fs2"
      using Suc.IH[OF fs1(1) wm c(2) g c(3)] by blast
    then show ?thesis using c(4) grown_trans[OF c(1)] ne
      by (intro exI[of _ r] exI[of _ "c # ns"] exI[of _ fs2]) (simp split: if_splits)
  next
    case False
    then have a: "add_free_loop (Suc n) first (last cs) sc fs = Some (False, sc, fs1)" "same_view fs fs1" "no_free fs1" using alt by blast+
    have "grown fs cs [] fs1" using Suc.prems(4,5) fs1 a(2) by (simp add: grown_def same_view_is_chain blank_result_view)
    then show ?thesis using a by (intro exI[of _ False] exI[of _ "[]"] exI[of _ fs1]) simp
  qed
qed


section \<open>A free place in a directory\<close>

definition slot_free :: "fat_dir_entry \<Rightarrow> bool" where
  "slot_free e \<longleftrightarrow> \<not> fatfs_entry_lfn_text e \<and> (Name e ! 0 = FILE_HEADER_DELETED \<or> Name e ! 0 = FILE_HEADER_BLANK)"

text \<open>The long entries at the end of a list, and the place of an entry: sector and number.\<close>

definition lfn_run :: "fat_dir_entry list \<Rightarrow> nat" where
  "lfn_run es = length (takeWhile fatfs_entry_lfn_text (rev es))"

definition place :: "dir_free \<Rightarrow> nat \<Rightarrow> bool" where
  "place d g \<longleftrightarrow> pSector d = of_nat (g div 16) \<and> pOffset d = of_nat (g mod 16)"

text \<open>What the search knows behind the entries \<open>es\<close>.\<close>

definition tracks :: "dir_free \<Rightarrow> fat_dir_entry list \<Rightarrow> bool" where
  "tracks d es \<longleftrightarrow> possible_spaces d = lfn_run es \<and> (0 < lfn_run es \<longrightarrow> place d (length es - lfn_run es))"

lemma lfn_run_le: "lfn_run es \<le> length es"
  unfolding lfn_run_def using length_takeWhile_le[of fatfs_entry_lfn_text "rev es"] by simp

lemma lfn_run_snoc: "lfn_run (es @ [e]) = (if fatfs_entry_lfn_text e then Suc (lfn_run es) else 0)"
  by (simp add: lfn_run_def)

lemma note_free_place:
  assumes "tracks d es" "length es = 16 * k + item" "item < 16"
  shows "place (note_free (of_nat k) item d) (length es - lfn_run es)" "possible_spaces (note_free (of_nat k) item d) = Suc (lfn_run es)"
proof -
  have "length es div 16 = k" "length es mod 16 = item" using assms(2,3) by simp_all
  then show "place (note_free (of_nat k) item d) (length es - lfn_run es)" "possible_spaces (note_free (of_nat k) item d) = Suc (lfn_run es)"
    using assms(1) by (auto simp: note_free_def tracks_def place_def Let_def)
qed

lemma dir_entry_first: "length sec = 512 \<Longrightarrow> item < 16 \<Longrightarrow> Name (dir_entry_at sec (FAT_DIR_ENTRY_SIZE * item)) ! 0 = sec ! (FAT_DIR_ENTRY_SIZE * item)"
  by (simp add: dir_entry_at_def FAT_DIR_ENTRY_SIZE_def Let_def)

text \<open>One sector: the search stops at the first free entry, with the start of the long entries in front of it.\<close>

lemma free_in_sector_spec:
  assumes "length sec = 512" "item + n = 16" "tracks d es" "length es = 16 * k + item"
    "new = map (\<lambda>i. dir_entry_at sec (FAT_DIR_ENTRY_SIZE * i)) [item..<16]" "pre = takeWhile (\<lambda>e. \<not> slot_free e) new"
  shows "\<exists>d'. free_in_sector n item 1 (of_nat k) sec d = (pre \<noteq> new, d') \<and>
    (if pre = new then tracks d' (es @ new) else place d' (length (es @ pre) - lfn_run (es @ pre)))"
  using assms
proof (induction n arbitrary: item d es new pre)
  case 0
  then show ?case by auto
next
  case (Suc n)
  let ?e = "dir_entry_at sec (FAT_DIR_ENTRY_SIZE * item)"
  let ?new = "map (\<lambda>i. dir_entry_at sec (FAT_DIR_ENTRY_SIZE * i)) [Suc item..<16]"
  have i: "item < 16" "Suc item + n = 16" using Suc.prems(2) by simp_all
  have new: "new = ?e # ?new" using i Suc.prems(5) by (simp add: upt_conv_Cons)
  have first: "Name ?e ! 0 = sec ! (FAT_DIR_ENTRY_SIZE * item)" by (rule dir_entry_first[OF Suc.prems(1) i(1)])
  note np = note_free_place[OF Suc.prems(3,4) i(1)]
  have len: "length (es @ [?e]) = 16 * k + Suc item" using Suc.prems(4) by simp
  show ?case
  proof (cases "slot_free ?e")
    case True
    then have "pre = []" using Suc.prems(6) new by simp
    moreover have "free_in_sector (Suc n) item 1 (of_nat k) sec d = (True, note_free (of_nat k) item d)"
      using True np(2) first by (auto simp: slot_free_def Let_def)
    ultimately show ?thesis using np(1) new by simp
  next
    case False
    let ?d = "if fatfs_entry_lfn_text ?e then note_free (of_nat k) item d else d\<lparr>possible_spaces := 0, start_recorded := False\<rparr>"
    have pre: "pre = ?e # takeWhile (\<lambda>e. \<not> slot_free e) ?new" using Suc.prems(6) new False by simp
    have tr: "tracks ?d (es @ [?e])" using np lfn_run_le[of es] by (auto simp: tracks_def lfn_run_snoc)
    let ?pre = "takeWhile (\<lambda>e. \<not> slot_free e) ?new"
    have run: "free_in_sector (Suc n) item 1 (of_nat k) sec d = free_in_sector n (Suc item) 1 (of_nat k) sec ?d"
      using False first by (auto simp: slot_free_def Let_def)
    obtain d' where d': "free_in_sector n (Suc item) 1 (of_nat k) sec ?d = (?pre \<noteq> ?new, d')"
      "if ?pre = ?new then tracks d' ((es @ [?e]) @ ?new) else place d' (length ((es @ [?e]) @ ?pre) - lfn_run ((es @ [?e]) @ ?pre))"
      using Suc.IH[OF Suc.prems(1) i(2) tr len refl refl] by blast
    have app: "es @ new = (es @ [?e]) @ ?new" "es @ pre = (es @ [?e]) @ ?pre" "pre = new \<longleftrightarrow> ?pre = ?new"
      by (simp_all only: pre new append_assoc append_Cons append_Nil list.inject simp_thms)
    show ?thesis using run d' by (intro exI[of _ d']) (simp only: app simp_thms)
  qed
qed

lemma dir_entries_16: "dir_entries sec = map (\<lambda>i. dir_entry_at sec (FAT_DIR_ENTRY_SIZE * i)) [0..<16]"
proof -
  have "FAT_DIR_ENTRIES_PER_SECTOR = 16" by (simp add: FAT_DIR_ENTRIES_PER_SECTOR_def FAT_SECTOR_SIZE_n_def FAT_DIR_ENTRY_SIZE_def)
  then show ?thesis by (simp add: dir_entries_def)
qed

lemma dir_contents_Suc: "dir_contents fs start (Suc k) = dir_contents fs start k @ dir_entries (chain_sector fs start k)"
  by (simp add: dir_contents_def)

lemma length_dir_contents: "length (dir_contents fs start k) = 16 * k"
  by (induction k) (simp_all add: dir_contents_Suc dir_entries_16, simp add: dir_contents_def)

lemma dir_contents_split: "k \<le> n \<Longrightarrow> dir_contents fs start n = dir_contents fs start k @ concat (map (\<lambda>k. dir_entries (chain_sector fs start k)) [k..<n])"
  unfolding dir_contents_def by (metis concat_append le_add_diff_inverse map_append upt_add_eq_append zero_le)

text \<open>The root directory of FAT16 is read without the table.\<close>

definition in_root :: "'d fatfs \<Rightarrow> u32 \<Rightarrow> bool" where
  "in_root fs start \<longleftrightarrow> fat_type fs = FAT_TYPE_16 \<and> start = 0"

lemma root_reader:
  assumes "in_root fs start" "fatfs_sector_reader start k False fs = (ok, bs, fs')"
  shows "fat_buffers fs' = fat_buffers fs"
  using assms by (auto simp: in_root_def fatfs_sector_reader_def sector_lba_def read_current_def Let_def split: if_splits prod.splits)

lemma chain_sector_length: "dir_inv fs \<Longrightarrow> length (chain_sector fs start k) = 512"
proof -
  assume d: "dir_inv fs"
  have "media_ok (disk_io fs)" using d by (simp add: dir_inv_def ro_inv_def fat_ok_def)
  moreover have "disk_read fs s 1 = (True, snd (disk_read fs s 1))" for s using d by (metis dir_inv_def prod.collapse)
  ultimately show ?thesis using media_readD unfolding chain_sector_def by blast
qed

text \<open>The entries that are not free in front of the first free one, and where the search ends.\<close>

definition before_free :: "fat_dir_entry list \<Rightarrow> fat_dir_entry list" where
  "before_free es = takeWhile (\<lambda>e. \<not> slot_free e) es"

definition new_place :: "fat_dir_entry list \<Rightarrow> nat" where
  "new_place es = length (before_free es) - lfn_run (before_free es)"

lemma before_free_append: "\<forall>e \<in> set es. \<not> slot_free e \<Longrightarrow> before_free (es @ fs) = es @ before_free fs"
  by (simp add: before_free_def takeWhile_append2)

lemma before_free_prefix: "before_free es \<noteq> es \<Longrightarrow> before_free (es @ fs) = before_free es"
  unfolding before_free_def by (metis takeWhile_append1 takeWhile_eq_all_conv)

lemma before_free_all: "before_free es = es \<longleftrightarrow> (\<forall>e \<in> set es. \<not> slot_free e)"
  unfolding before_free_def by (rule takeWhile_eq_all_conv)

lemma before_free_more: "before_free es \<noteq> es \<Longrightarrow> before_free (es @ fs) \<noteq> es @ fs"
  by (auto simp: before_free_all)

lemma entries_16: "FAT_DIR_ENTRIES_PER_SECTOR = 16"
  by (simp add: FAT_DIR_ENTRIES_PER_SECTOR_def FAT_SECTOR_SIZE_n_def FAT_DIR_ENTRY_SIZE_def)

text \<open>One round of the loop over the sectors.\<close>

lemma find_free_round:
  assumes "dir_inv fs" "has_sectors fs start n" "k < n" "tracks d (dir_contents fs start k)"
    "before_free (dir_contents fs start k) = dir_contents fs start k" "es = dir_contents fs start (Suc k)"
  shows "\<exists>d' fs'. dir_inv fs' \<and> dir_rel fs fs' \<and> (in_root fs start \<longrightarrow> fat_buffers fs' = fat_buffers fs) \<and>
    (if before_free es \<noteq> es then find_free_loop start 1 (of_nat k) d fs = Some (True, d', fs') \<and> place d' (new_place es)
     else find_free_loop start 1 (of_nat k) d fs = find_free_loop start 1 (of_nat (Suc k)) d' fs' \<and> tracks d' es)"
proof -
  let ?es = "dir_contents fs start k" and ?new = "dir_entries (chain_sector fs start k)"
  obtain ok bs fs1 where r: "fatfs_sector_reader start (of_nat k) False fs = (ok, bs, fs1)" by (metis prod_cases3)
  have some: "sector_addr fs start (of_nat k) \<noteq> None" "sector_addr fs start (of_nat k) \<noteq> Some FAT32_INVALID_CLUSTER"
    using assms(2,3) by (simp_all add: has_sectors_def)
  note sp = sector_reader_spec[OF assms(1) some(2) r]
  have sec: "fb_sector (currentsector fs1) = chain_sector fs start k" using sp some by (simp add: chain_sector_def)
  obtain d' where f: "free_in_sector 16 0 1 (of_nat k) (chain_sector fs start k) d = (before_free ?new \<noteq> ?new, d')"
    "if before_free ?new = ?new then tracks d' (?es @ ?new)
     else place d' (length (?es @ before_free ?new) - lfn_run (?es @ before_free ?new))"
    using free_in_sector_spec[OF chain_sector_length[OF assms(1), of start k], where item = 0 and n = 16 and d = d and es = ?es and k = k and
        new = ?new and pre = "before_free ?new"] assms(4) length_dir_contents[of fs start k] dir_entries_16 before_free_def by auto
  have free: "\<forall>e \<in> set ?es. \<not> slot_free e" using assms(5) by (simp only: before_free_all)
  have es: "es = ?es @ ?new" "before_free es = ?es @ before_free ?new" unfolding assms(6) dir_contents_Suc using before_free_append[OF free] by simp_all
  have run: "find_free_loop start 1 (of_nat k) d fs =
      (if before_free ?new \<noteq> ?new then Some (True, d', fs1) else find_free_loop start 1 (of_nat (Suc k)) d' fs1)"
    using r sp some f sec by (subst find_free_loop.simps) (simp add: entries_16 add.commute)
  have "before_free es = es \<longleftrightarrow> before_free ?new = ?new" using es by (metis same_append_eq)
  moreover have "if before_free ?new = ?new then tracks d' es else place d' (new_place es)"
    using f(2) unfolding new_place_def es(2) es(1)[symmetric] .
  ultimately show ?thesis using run sp(1,2) root_reader[OF _ r] by (intro exI[of _ d'] exI[of _ fs1]) simp
qed

lemma find_free_loop_spec:
  assumes "dir_inv fs" "has_sectors fs start n" "k \<le> n" "tracks d (dir_contents fs start k)"
    "before_free (dir_contents fs start k) = dir_contents fs start k" "es = dir_contents fs start n"
  shows "\<exists>d' fs'. dir_inv fs' \<and> dir_rel fs fs' \<and> (in_root fs start \<longrightarrow> fat_buffers fs' = fat_buffers fs) \<and>
    (if before_free es \<noteq> es then find_free_loop start 1 (of_nat k) d fs = Some (True, d', fs') \<and> place d' (new_place es)
     else find_free_loop start 1 (of_nat k) d fs = extend_directory start (of_nat n) d' fs' \<and> tracks d' es)"
  using assms
proof (induction "n - k" arbitrary: k d fs)
  case 0
  then have k: "k = n" by simp
  obtain ok bs fs1 where r: "fatfs_sector_reader start (of_nat k) False fs = (ok, bs, fs1)" by (metis prod_cases3)
  have none: "sector_addr fs start (of_nat k) = None" using 0(3) k by (simp add: has_sectors_def)
  note sp = sector_reader_spec[OF 0(2) _ r]
  have "find_free_loop start 1 (of_nat k) d fs = extend_directory start (of_nat k) d fs1"
    using r sp none by (subst find_free_loop.simps) simp
  then show ?case using sp none root_reader[OF _ r] 0 k by auto
next
  case (Suc m)
  then have k: "k < n" "m = n - Suc k" "Suc k \<le> n" by simp_all
  let ?c = "dir_contents fs start (Suc k)"
  obtain rest where all: "es = ?c @ rest" using dir_contents_split[OF k(3), of fs start] Suc.prems(6) by blast
  obtain d' fs1 where r: "dir_inv fs1" "dir_rel fs fs1" "in_root fs start \<longrightarrow> fat_buffers fs1 = fat_buffers fs"
    "if before_free ?c \<noteq> ?c then find_free_loop start 1 (of_nat k) d fs = Some (True, d', fs1) \<and> place d' (new_place ?c)
     else find_free_loop start 1 (of_nat k) d fs = find_free_loop start 1 (of_nat (Suc k)) d' fs1 \<and> tracks d' ?c"
    using find_free_round[OF Suc.prems(1,2) k(1) Suc.prems(4,5) refl] by blast
  show ?case
  proof (cases "before_free ?c = ?c")
    case False
    then have "before_free es \<noteq> es" "new_place es = new_place ?c"
      unfolding all new_place_def using before_free_more[OF False, of rest] before_free_prefix[OF False, of rest] by simp_all
    then show ?thesis using r False by (intro exI[of _ d'] exI[of _ fs1]) simp
  next
    case True
    have c1: "dir_contents fs1 start = dir_contents fs start" by (intro ext) (simp add: dir_contents_def chain_sector_rel[OF r(2)])
    have root1: "in_root fs1 start = in_root fs start" by (simp add: in_root_def dir_relD[OF r(2)])
    have pre: "has_sectors fs1 start n" "tracks d' (dir_contents fs1 start (Suc k))"
      "before_free (dir_contents fs1 start (Suc k)) = dir_contents fs1 start (Suc k)" "es = dir_contents fs1 start n"
      using Suc.prems(2,6) r True by (simp_all add: c1 has_sectors_rel)
    obtain d2 fs2 where "dir_inv fs2" "dir_rel fs1 fs2" "in_root fs1 start \<longrightarrow> fat_buffers fs2 = fat_buffers fs1"
      "if before_free es \<noteq> es then find_free_loop start 1 (of_nat (Suc k)) d' fs1 = Some (True, d2, fs2) \<and> place d2 (new_place es)
       else find_free_loop start 1 (of_nat (Suc k)) d' fs1 = extend_directory start (of_nat n) d2 fs2 \<and> tracks d2 es"
      using Suc.hyps(1)[OF k(2) r(1) pre(1) k(3) pre(2-4)] by blast
    then show ?thesis using r True dir_rel_trans[OF r(2)] root1 by (intro exI[of _ d2] exI[of _ fs2]) (simp split: if_splits)
  qed
qed

section \<open>A new entry\<close>

lemma overlay_length: "length bs \<le> length b \<Longrightarrow> length (overlay bs b) = length b"
  by (simp add: overlay_def)

lemma put_at_slot:
  assumes "length sec = 512" "length bs = 32" "i < 16" "j < 16"
  shows "take 32 (drop (32 * j) (put_at (32 * i) bs sec)) = (if j = i then bs else take 32 (drop (32 * j) sec))"
    "length (put_at (32 * i) bs sec) = 512"
proof -
  have p: "put_at (32 * i) bs sec = take (32 * i) sec @ bs @ drop (32 * i + 32) sec"
    using assms by (simp add: put_at_def overlay_def add.commute)
  show "length (put_at (32 * i) bs sec) = 512" using assms by (simp add: p)
  consider "j = i" | "j < i" | "i < j" by linarith
  then show "take 32 (drop (32 * j) (put_at (32 * i) bs sec)) = (if j = i then bs else take 32 (drop (32 * j) sec))"
  proof cases
    case 1
    then show ?thesis using assms by (simp add: p)
  next
    case 2
    then have "32 \<le> 32 * i - 32 * j" by simp
    then show ?thesis using 2 assms by (simp add: p drop_take min_def)
  next
    case 3
    then have "32 * i + 32 \<le> 32 * j" by simp
    then show ?thesis using 3 assms by (simp add: p min_def)
  qed
qed

text \<open>An entry depends on its 32 bytes only, and is what its bytes say.\<close>

lemma dir_entry_slot:
  assumes "off + 32 \<le> length b"
  shows "dir_entry_at b off = dir_entry_at (take 32 (drop off b)) 0"
  using assms by (simp add: dir_entry_at_def Let_def GET_16BIT_WORD_def GET_32BIT_WORD_def drop_take take_take)

lemma sfn_entry_roundtrip:
  assumes "length shortname = 11"
  shows "dir_entry_at (dir_entry_bytes (fatfs_sfn_create_entry shortname sz c dir)) 0 = fatfs_sfn_create_entry shortname sz c dir"
    "length (dir_entry_bytes (fatfs_sfn_create_entry shortname sz c dir)) = 32"
proof -
  let ?e = "fatfs_sfn_create_entry shortname sz c dir"
  have n: "take 11 shortname = shortname" using assms by simp
  have b: "dir_entry_bytes ?e = shortname @ [Attr ?e, 0, 0, 0, 0, 0x20, 0, 0x20, 0] @ le16 (FstClusHI ?e) @ [0, 0, 0x20, 0] @ le16 (FstClusLO ?e) @
      bytes_le sz"
    by (simp add: dir_entry_bytes_def fatfs_sfn_create_entry_def n FAT_SFN_SIZE_FULL_def)
  show "length (dir_entry_bytes ?e) = 32" unfolding b using assms by (simp add: le16_def bytes_le_def)
  show "dir_entry_at (dir_entry_bytes ?e) 0 = ?e"
    unfolding dir_entry_at_def b Let_def using assms le_bytes_16 le_bytes_32
    by (simp add: nth_append GET_16BIT_WORD_def GET_32BIT_WORD_def le16_def bytes_le_def)
       (simp add: fatfs_sfn_create_entry_def FAT_SFN_SIZE_FULL_def numeral_nat)
qed

lemma nth_dir_contents:
  assumes "i < 16 * n"
  shows "dir_contents fs start n ! i = dir_entry_at (chain_sector fs start (i div 16)) (32 * (i mod 16))"
  using assms
proof (induction n)
  case (Suc n)
  show ?case
  proof (cases "i < 16 * n")
    case True
    then show ?thesis using Suc.IH by (simp add: dir_contents_Suc nth_append length_dir_contents)
  next
    case False
    then have q: "i div 16 = n" using Suc.prems by (intro div_nat_eqI) simp_all
    then have i: "i div 16 = n" "i mod 16 = i - 16 * n" "i - 16 * n < 16" using minus_mult_div_eq_mod[of i 16] Suc.prems by auto
    then show ?thesis using False by (simp add: dir_contents_Suc nth_append length_dir_contents dir_entries_16 FAT_DIR_ENTRY_SIZE_def)
  qed
qed simp

text \<open>Storing an entry into a sector changes the directory in one place.\<close>

lemma dir_contents_update:
  assumes "\<And>k. k < n \<Longrightarrow> length (chain_sector fs start k) = 512" "length bs = 32" "g < 16 * n"
    "\<And>k. k < n \<Longrightarrow> chain_sector fs' start k = (if k = g div 16 then put_at (32 * (g mod 16)) bs (chain_sector fs start k) else chain_sector fs start k)"
  shows "dir_contents fs' start n = (dir_contents fs start n)[g := dir_entry_at bs 0]"
proof (rule nth_equalityI)
  fix i assume "i < length (dir_contents fs' start n)"
  then have i: "i < 16 * n" by (simp add: length_dir_contents)
  let ?k = "i div 16" and ?j = "i mod 16"
  have k: "?k < n" using i by (simp add: less_mult_imp_div_less mult.commute)
  have gi: "i = g \<longleftrightarrow> ?k = g div 16 \<and> ?j = g mod 16" by (metis div_mult_mod_eq)
  have j: "?j < 16" "g mod 16 < 16" by simp_all
  note slot = put_at_slot[OF assms(1)[OF k] assms(2) j(2) j(1)]
  have "dir_entry_at (chain_sector fs' start ?k) (32 * ?j) = (if i = g then dir_entry_at bs 0 else dir_entry_at (chain_sector fs start ?k) (32 * ?j))"
  proof (cases "?k = g div 16")
    case True
    have "32 * ?j + 32 \<le> 512" using j(1) by simp
    then show ?thesis
      using True gi slot dir_entry_slot[of "32 * ?j" "put_at (32 * (g mod 16)) bs (chain_sector fs start ?k)"]
        dir_entry_slot[of "32 * ?j" "chain_sector fs start ?k"] assms(1)[OF k] assms(4)[OF k] by (simp split: if_splits)
  next
    case False
    then show ?thesis using gi assms(4)[OF k] by simp
  qed
  then show "dir_contents fs' start n ! i = (dir_contents fs start n)[g := dir_entry_at bs 0] ! i"
    using i assms(3) by (simp add: nth_dir_contents nth_list_update length_dir_contents)
qed (simp add: length_dir_contents)

text \<open>The place is reached in the sector where the search ended; only the short entry is stored.\<close>

lemma add_in_sector_place:
  "item + n = 16 \<Longrightarrow> item \<le> off \<Longrightarrow> off < 16 \<Longrightarrow>
   add_in_sector n item True off long short (False, 0) (sec, dirty) = (True, (True, 0), put_at (32 * off) short sec, dirty)"
proof (induction n arbitrary: item)
  case (Suc n)
  then show ?case by (cases "off = item") (simp_all add: FAT_DIR_ENTRY_SIZE_def)
qed simp

lemma sector_reader_address:
  assumes "ro_inv fs" "fatfs_sector_reader start k False fs = (True, bs, fs')"
  shows "fb_address (currentsector fs') = the (sector_addr fs start k)"
proof -
  obtain r fs1 where l: "sector_lba start k fs = (r, fs1)" by fastforce
  note sp = sector_lba_spec[OF assms(1) l]
  show ?thesis
    using assms(2) l sp by (auto simp: fatfs_sector_reader_def read_current_def Let_def split: option.splits if_splits prod.splits)
qed

definition always_reads :: "'d disk_if \<Rightarrow> bool" where
  "always_reads io \<longleftrightarrow> (\<forall>rd d s n. read_media io = Some rd \<longrightarrow> fst (rd d s n))"

text \<open>Storing the working buffer: the medium changes in one sector, and the buffers of the table stay true to it.\<close>

lemma store_current:
  assumes "dir_inv fs" "write_media (disk_io fs) \<noteq> None" "always_reads (disk_io fs)" "length sec = 512"
    "a = fb_address (currentsector fs)" "a \<notin> fb_address ` set (fat_buffers fs)" "a \<noteq> FAT32_INVALID_CLUSTER"
    "disk_write a sec 1 (fs_cur (\<lambda>b. b\<lparr>fb_sector := sec\<rparr>) fs) = (ok, fs')"
  shows "ok" "dir_inv fs'" "disk_read fs' s 1 = (if s = a then (True, sec) else disk_read fs s 1)"
    "\<exists>d. fs' = fs_cur (\<lambda>b. b\<lparr>fb_sector := sec\<rparr>) fs\<lparr>media := d\<rparr>"
proof -
  let ?fs = "fs_cur (\<lambda>b. b\<lparr>fb_sector := sec\<rparr>) fs"
  obtain wr where wr: "write_media (disk_io fs) = Some wr" using assms(2) by blast
  obtain d where d: "wr (media ?fs) a sec 1 = (ok, d)" "fs' = ?fs\<lparr>media := d\<rparr>"
    using assms(8) wr by (auto simp: disk_write_def split: prod.splits)
  have inv: "fat_ok fs" "write_reliable (disk_io fs)" "\<forall>b \<in> set (fat_buffers fs). \<not> fb_dirty b" "media_ok (disk_io fs)"
    using assms(1) by (simp_all add: dir_inv_def ro_inv_def fat_ok_def)
  show ok: "ok" using inv(2) wr d(1) by (metis fst_conv write_reliable_def)
  show "\<exists>d. fs' = ?fs\<lparr>media := d\<rparr>" using d(2) by blast
  have io: "disk_io fs' = disk_io fs" unfolding d(2) by simp
  have rd: "disk_read fs' s 1 = (if s = a then (True, sec) else disk_read fs s 1)" for s
    using media_writeD[of ?fs sec a ok fs' s] assms(4,8) inv(4) ok by simp
  then show "disk_read fs' s 1 = (if s = a then (True, sec) else disk_read fs s 1)" .
  have buf: "buf_ok fs' b" if "b \<in> set (fat_buffers fs)" for b
    using inv(1,3) that assms(6) rd[of "fb_address b"] unfolding fat_ok_def buf_ok_def by auto
  have f: "fat_buffers fs' = fat_buffers fs" "fat_begin_lba fs' = fat_begin_lba fs" "fat_sectors fs' = fat_sectors fs"
    "currentsector fs' = (currentsector fs)\<lparr>fb_sector := sec\<rparr>" unfolding d(2) by simp_all
  have "fat_ok fs'" using inv(1) buf unfolding fat_ok_def io f by blast
  moreover have "cur_ok fs'" using assms(4,5) rd[of a] by (simp add: cur_ok_def f(4))
  moreover have "fst (disk_read fs' s n)" for s n
    using assms(1,3) inv(4) unfolding disk_read_def io always_reads_def media_ok_def by auto
  ultimately show "dir_inv fs'" using inv(2,3) by (simp add: dir_inv_def ro_inv_def io f(1))
qed

text \<open>The sectors of the root directory lie apart from the table and from what its buffers hold.\<close>

definition root_apart :: "'d fatfs \<Rightarrow> nat \<Rightarrow> bool" where
  "root_apart fs n \<longleftrightarrow> (\<forall>k < n. \<forall>a. sector_addr fs 0 (of_nat k) = Some a \<longrightarrow>
     a \<notin> fb_address ` set (fat_buffers fs) \<and> \<not> a - fat_begin_lba fs < fat_sectors fs)"

lemma root_addr: "fat_type fs = FAT_TYPE_16 \<Longrightarrow> sector_addr fs 0 k = (if k < rootdir_sectors fs then Some (lba_begin fs + rootdir_first_sector fs + k) else None)"
  by (simp add: sector_addr_def)

lemma entry_in_fs: "fat_type fs' = fat_type fs \<Longrightarrow> entry_in fs' = entry_in fs"
  by (intro ext) (simp add: entry_in_def fat_position_def fat_sector_offset_def)

lemma new_place_less:
  assumes "before_free es \<noteq> es"
  shows "new_place es < length es"
proof -
  have "es = before_free es @ dropWhile (\<lambda>e. \<not> slot_free e) es" by (simp add: before_free_def)
  then have "length es = length (before_free es) + length (dropWhile (\<lambda>e. \<not> slot_free e) es)" by (metis length_append)
  moreover have "dropWhile (\<lambda>e. \<not> slot_free e) es \<noteq> []" using assms by (auto simp: before_free_all)
  ultimately show ?thesis unfolding new_place_def by (simp add: less_imp_diff_less)
qed

text \<open>The second half: the entry is stored at the place that has been found.\<close>

lemma store_entry:
  assumes "dir_inv fs" "fat_type fs = FAT_TYPE_16" "write_media (disk_io fs) \<noteq> None" "always_reads (disk_io fs)"
    "has_sectors fs 0 n" "root_apart fs n" "g < 16 * n" "place d g" "length short = 32"
  shows "\<exists>fs'. add_entry_loop 0 d long short (pSector d) (False, 0) fs = Some (True, fs') \<and> dir_inv fs' \<and> has_sectors fs' 0 n \<and>
    dir_contents fs' 0 n = (dir_contents fs 0 n)[g := dir_entry_at short 0] \<and>
    (\<forall>c. fat_sector_offset fs c < fat_sectors fs \<longrightarrow> fat_entry fs' c = fat_entry fs c)"
proof -
  let ?k = "g div 16" and ?j = "g mod 16"
  have k: "?k < n" "?j < 16" using assms(7) by (simp_all add: less_mult_imp_div_less mult.commute)
  have d: "pSector d = of_nat ?k" "unat (pOffset d) = ?j" using assms(8) by (simp_all add: place_def unat_of_nat)
  obtain a where a: "sector_addr fs 0 (of_nat ?k) = Some a" "a \<noteq> FAT32_INVALID_CLUSTER"
    using assms(5) k(1) unfolding has_sectors_def by auto
  have apart: "a \<notin> fb_address ` set (fat_buffers fs)" "\<not> a - fat_begin_lba fs < fat_sectors fs"
    using assms(6) k(1) a(1) unfolding root_apart_def by blast+
  obtain ok bs fs1 where r: "fatfs_sector_reader 0 (of_nat ?k) False fs = (ok, bs, fs1)" by (metis prod_cases3)
  have ninv: "sector_addr fs 0 (of_nat ?k) \<noteq> Some FAT32_INVALID_CLUSTER" using a by simp
  note sp = sector_reader_spec[OF assms(1) ninv r]
  have "ok" using sp(3) a by simp
  have r': "fatfs_sector_reader 0 (of_nat ?k) False fs = (True, bs, fs1)" using r \<open>ok\<close> by simp
  let ?sec = "put_at (32 * ?j) short (chain_sector fs 0 ?k)"
  have ro: "ro_inv fs" using assms(1) by (simp add: dir_inv_def)
  have cur: "fb_sector (currentsector fs1) = chain_sector fs 0 ?k" using sp(4) \<open>ok\<close> by (simp add: chain_sector_def)
  have addr: "fb_address (currentsector fs1) = a" using sector_reader_address[OF ro r'] a by simp
  have bufs: "fat_buffers fs1 = fat_buffers fs" using root_reader[OF _ r] assms(2) by (simp add: in_root_def)
  have io: "disk_io fs1 = disk_io fs" by (simp add: dir_relD[OF sp(2)])
  note slen = chain_sector_length[OF assms(1)]
  have len: "length ?sec = 512" using put_at_slot(2)[OF slen assms(9) k(2) k(2)] .
  obtain st fs2 where w: "disk_write a ?sec 1 (fs_cur (\<lambda>b. b\<lparr>fb_sector := ?sec\<rparr>) fs1) = (st, fs2)" by fastforce
  have pre: "write_media (disk_io fs1) \<noteq> None" "always_reads (disk_io fs1)" "a = fb_address (currentsector fs1)"
    "a \<notin> fb_address ` set (fat_buffers fs1)" using assms(3,4) apart by (simp_all add: io addr bufs)
  note s = store_current[OF sp(1) pre(1,2) len pre(3,4) a(2) w]
  obtain m where fs2: "fs2 = fs_cur (\<lambda>b. b\<lparr>fb_sector := ?sec\<rparr>) fs1\<lparr>media := m\<rparr>" using s(4) by blast
  have "add_entry_loop 0 d long short (pSector d) (False, 0) fs = Some (True, fs2)"
    using r' w s(1) add_in_sector_place[of 0 16 ?j long short "chain_sector fs 0 ?k" False] k(2)
    by (subst add_entry_loop.simps) (simp add: d cur entries_16 addr)
  moreover obtain bf b where fs1: "fs1 = fs\<lparr>fat_buffers := bf, currentsector := b\<rparr>" using sp(2) unfolding dir_rel_def by metis
  have eq: "sector_addr fs2 0 = sector_addr fs 0" "fat_type fs2 = fat_type fs" "fat_buffers fs2 = fat_buffers fs"
    "fat_begin_lba fs2 = fat_begin_lba fs"
    using assms(2) bufs by (simp_all add: fs2 sector_addr_def fs1 fun_eq_iff fs_cur_def)
  have read: "disk_read fs2 t 1 = (if t = a then (True, ?sec) else disk_read fs t 1)" for t
    using s(3)[of t] by (simp add: dir_relD[OF sp(2)])
  have sect: "chain_sector fs2 0 i = (if i = ?k then ?sec else chain_sector fs 0 i)" if i: "i < n" for i
  proof -
    obtain b where b: "sector_addr fs 0 (of_nat i) = Some b" using assms(5) i unfolding has_sectors_def by auto
    have small: "n < 2 ^ 32" using assms(5) by (simp add: has_sectors_def)
    have "b = a \<longleftrightarrow> (of_nat i :: u32) = of_nat ?k" using a b by (auto simp: root_addr[OF assms(2)] split: if_splits)
    also have "\<dots> \<longleftrightarrow> i = ?k" using i k(1) small by (simp add: word_unat_eq_iff unat_of_nat)
    finally show ?thesis using a b by (auto simp: chain_sector_def eq(1) read)
  qed
  have "dir_contents fs2 0 n = (dir_contents fs 0 n)[g := dir_entry_at short 0]"
    by (rule dir_contents_update[OF _ assms(9,7)]) (simp_all add: slen sect)
  moreover have "fat_entry fs2 c = fat_entry fs c" if c: "fat_sector_offset fs c < fat_sectors fs" for c
  proof -
    have "fat_begin_lba fs + fat_sector_offset fs c \<noteq> a" using apart(2) c by auto
    then have "fat_sector fs2 (fat_begin_lba fs + fat_sector_offset fs c) = fat_sector fs (fat_begin_lba fs + fat_sector_offset fs c)"
      by (simp add: fat_sector_def read eq(3) split: option.split)
    moreover have "fat_sector_offset fs2 c = fat_sector_offset fs c" by (simp add: fat_sector_offset_def eq(2))
    ultimately show ?thesis by (simp add: fat_entry_def eq(4) entry_in_fs[OF eq(2)])
  qed
  moreover have "has_sectors fs2 0 n" using assms(5) by (simp add: has_sectors_def eq(1))
  ultimately show ?thesis using s(2) by blast
qed




section \<open>On the example\<close>

text \<open>The image with a table whose first entry is in use, as on a real medium.\<close>

definition grow_fs :: "(u32 \<Rightarrow> u8 list) fatfs" where
  "grow_fs = (ex_fs True)\<lparr>media := ex_image(1 := ex_table[0 := 0xf8, 1 := 0xff])\<rparr>"

lemma grow_entry:
  assumes "unat c < 256"
  shows "fat_entry grow_fs c = Some (if c = 0 then 0xfff8 else if c = 2 then 3 else if c = 3 then 0xffff else 0)"
proof -
  let ?t = "ex_table[0 := 0xf8, 1 := 0xff]"
  have len: "length ex_table = 512" by (simp add: ex_table_def)
  have f: "fat_type grow_fs = FAT_TYPE_16" "fat_begin_lba grow_fs = 1" "fat_buffers grow_fs = [fat_buffer_reset]"
    by (simp_all add: grow_fs_def ex_fs_def ex_with_def)
  have "fat_buffer_find 1 [fat_buffer_reset] = None"
    by (simp add: fat_buffer_reset_def FAT32_INVALID_CLUSTER_def FAT_BUFFER_SECTORS_def word_le_nat_alt)
  moreover have "disk_read grow_fs 1 1 = (True, ?t)"
    by (simp add: grow_fs_def ex_fs_def ex_with_def disk_read_def list_read_def ex_image_def len)
  ultimately have s: "fat_sector grow_fs 1 = Some ?t" by (simp add: fat_sector_def f)
  have "unat (c div 256) = 0" using assms by (simp add: unat_div)
  then have o: "fat_sector_offset grow_fs c = 0" by (simp add: fat_sector_offset_def f unat_eq_zero)
  have p: "unat (fat_position grow_fs c) = 2 * unat c" using assms by (simp add: fat_position_def f o unat_word_ariths)
  have nth: "?t ! i = (if i = 0 then 0xf8 else if i = 1 then 0xff else ex_table ! i)" if "i < 512" for i
    using that by (auto simp: nth_list_update len)
  have fe: "fat_entry grow_fs c = Some (ucast (GET_16BIT_WORD ?t (2 * unat c)))" by (simp add: fat_entry_def s o f(1,2) entry_in_def p)
  show ?thesis
  proof (cases "c = 0")
    case True
    then have "GET_16BIT_WORD ?t (2 * unat c) = 0xfff8" by (simp add: GET_16BIT_WORD_def ex_table_def)
    then show ?thesis unfolding fe using True by simp
  next
    case False
    then have pos: "0 < unat c" by (simp add: unat_gt_0)
    have "2 * unat c < 512" "2 * unat c + 1 < 512" using assms by simp_all
    then have "GET_16BIT_WORD ?t (2 * unat c) = GET_16BIT_WORD ex_table (2 * unat c)"
      using pos by (simp add: GET_16BIT_WORD_def nth)
    moreover have "fat_entry (ex_fs True) c = Some (ucast (GET_16BIT_WORD ex_table (2 * unat c)))"
    proof -
      have g: "fat_type (ex_fs True) = FAT_TYPE_16" "fat_begin_lba (ex_fs True) = 1" by (simp_all add: ex_fs_def ex_with_def)
      have "fat_position (ex_fs True) c = fat_position grow_fs c" by (simp add: fat_position_def fat_sector_offset_def g f)
      then show ?thesis using ex_entry_in(2)[OF ex_fs_like assms] ex_table_sector[OF ex_fs_like]
        by (simp add: fat_entry_def g entry_in_def p)
    qed
    ultimately show ?thesis unfolding fe using ex_entry_in(1)[OF ex_fs_like assms, of True] False by simp
  qed
qed

lemma grow_offset: "fat_sector_offset grow_fs c < fat_sectors grow_fs \<longleftrightarrow> unat c < 256"
proof -
  have "fat_type grow_fs = FAT_TYPE_16" "fat_sectors grow_fs = 1" by (simp_all add: grow_fs_def)
  then show ?thesis unfolding fat_sector_offset_less clusters_per_sector_def by simp
qed

lemma grow_pre:
  "fat_inv grow_fs" "write_media (disk_io grow_fs) \<noteq> None" "table_complete grow_fs" "is_chain grow_fs [2, 3]"
  "\<forall>c \<in> set [2, 3]. cluster_ok grow_fs c" "fat_type grow_fs = FAT_TYPE_16"
proof -
  have ok: "fat_ok (ex_fs True)" by (rule ex_fat_ok[OF ex_fs_like])
  have b: "fat_buffers (ex_fs True) = [fat_buffer_reset]" using ex_fs_like[of True] by (simp add: ex_like_def)
  show t: "fat_type grow_fs = FAT_TYPE_16" and "write_media (disk_io grow_fs) \<noteq> None" by (simp_all add: grow_fs_def)
  show "fat_inv grow_fs"
    using ok ex_reliable[of True] by (simp add: fat_inv_def fat_ok_def grow_fs_def b buf_ok_def fat_buffer_reset_def)
  note e = grow_entry[of 0] grow_entry[of 2] grow_entry[of 3]
  show "is_chain grow_fs [2, 3]" using e by (simp add: fat_next_def t)
  have "in_fat grow_fs 2" "in_fat grow_fs 3" using e grow_offset by (simp_all add: in_fat_def)
  then show "\<forall>c \<in> set [2, 3]. cluster_ok grow_fs c" by (simp add: cluster_ok_def FAT32_LAST_CLUSTER_def)
  have "fat_sectors grow_fs = 1" by (simp add: grow_fs_def)
  then show "table_complete grow_fs"
    using e(1) unfolding table_complete_def grow_offset by (auto simp: clusters_per_sector_def t grow_entry)
qed


lemma ex_write_pre:
  "dir_inv (ex_fs True)" "always_reads (disk_io (ex_fs True))" "root_apart (ex_fs True) 1"
proof -
  have rd: "read_media (disk_io (ex_fs w)) = Some list_read" for w by (simp add: ex_fs_def ex_with_def)
  then show "always_reads (disk_io (ex_fs True))" by (simp add: always_reads_def list_read_def)
  have "ro_inv (ex_fs True)" using ex_fat_ok[OF ex_fs_like[of True]] ex_reliable[of True] ex_fs_like[of True]
    by (simp add: ro_inv_def ex_like_def fat_buffer_reset_def)
  moreover have "cur_ok (ex_fs True)" by (simp add: cur_ok_def ex_fs_def ex_with_def fat_buffer_reset_def FAT_SECTOR_SIZE_n_def)
  moreover have "fst (disk_read (ex_fs True) s n)" for s n by (simp add: disk_read_def rd list_read_def)
  ultimately show "dir_inv (ex_fs True)" by (simp add: dir_inv_def)
  show "root_apart (ex_fs True) 1" using ex_sector_addr(1)[OF ex_fs_like[of True]] ex_fs_like[of True]
    by (simp add: root_apart_def ex_like_def fat_buffer_reset_def FAT32_INVALID_CLUSTER_def)
qed

lemma ex_free_slot: "\<exists>e \<in> set (dir_contents (ex_fs True) 0 1). slot_free e"
proof -
  have c: "dir_contents (ex_fs True) 0 1 = dir_entries ex_dir" using ex_sector_addr(4)[OF ex_fs_like] by (simp add: dir_contents_def)
  have "slot_free (dir_entry_at ex_dir (FAT_DIR_ENTRY_SIZE * 1))" by code_simp
  moreover have "dir_entry_at ex_dir (FAT_DIR_ENTRY_SIZE * 1) \<in> set (dir_entries ex_dir)" unfolding dir_entries_16 set_map by (rule imageI) simp
  ultimately show ?thesis unfolding c by blast
qed


end
