(* ===== verification/Fat_Format_Correct.thy ===== *)
theory Fat_Format_Correct
  imports Fat_Format Fat_Write_Correct
begin

text \<open>
  What \<^verbatim>\<open>fatfs_format\<close> leaves on the medium is a file system for \<^verbatim>\<open>fatfs_init\<close>: an empty FAT16 volume for the sizes it can
  hold. At the largest sizes for FAT16 the volume is taken for FAT32 when it is attached.
\<close>

section \<open>Writing runs of sectors\<close>

definition can_write :: "'d fatfs \<Rightarrow> bool" where
  "can_write fs \<longleftrightarrow> media_ok (disk_io fs) \<and> write_reliable (disk_io fs) \<and> write_media (disk_io fs) \<noteq> None"

text \<open>The sectors \<open>lba\<close>, \<open>\<dots>\<close>, \<open>lba + n - 1\<close> hold \<open>sec\<close>, the others are as before.\<close>

definition filled :: "'d fatfs \<Rightarrow> u32 \<Rightarrow> nat \<Rightarrow> u8 list \<Rightarrow> 'd fatfs \<Rightarrow> bool" where
  "filled fs lba n sec fs' \<longleftrightarrow> (\<exists>m. fs' = fs\<lparr>media := m\<rparr>) \<and>
     (\<forall>s. disk_read fs' s 1 = (if unat (s - lba) < n then (True, sec) else disk_read fs s 1))"

lemma write_cur_spec:
  assumes "can_write fs" "length (fb_sector (currentsector fs)) = 512"
  shows "\<exists>fs'. write_cur lba fs = (True, fs') \<and> filled fs lba 1 (fb_sector (currentsector fs)) fs'"
proof -
  obtain ok fs' where w: "disk_write lba (fb_sector (currentsector fs)) 1 fs = (ok, fs')" by fastforce
  obtain wr where wr: "write_media (disk_io fs) = Some wr" using assms(1) by (auto simp: can_write_def)
  have ok: "ok" using w wr assms(1) by (auto simp: disk_write_def can_write_def write_reliable_def split: prod.splits) (metis fst_conv)
  have "\<exists>m. fs' = fs\<lparr>media := m\<rparr>" using w wr by (auto simp: disk_write_def split: prod.splits)
  moreover have "unat (s - lba) < 1 \<longleftrightarrow> s = lba" for s by (simp add: unat_eq_zero)
  ultimately show ?thesis
    using w ok media_writeD[OF _ assms(2) w] assms(1) by (auto simp: write_cur_def filled_def can_write_def)
qed

lemma filled_can_write: "filled fs lba n sec fs' \<Longrightarrow> can_write fs \<Longrightarrow> can_write fs'"
  by (auto simp: filled_def can_write_def)

lemma write_run_spec:
  assumes "can_write fs" "length (fb_sector (currentsector fs)) = 512" "n < 2 ^ 32"
  shows "\<exists>fs'. write_run n lba fs = (True, fs') \<and> filled fs lba n (fb_sector (currentsector fs)) fs'"
  using assms
proof (induction n arbitrary: lba fs)
  case 0
  have "\<exists>m. fs = fs\<lparr>media := m\<rparr>" by (rule exI[of _ "media fs"]) simp
  then show ?case by (simp add: filled_def)
next
  case (Suc n)
  obtain fs1 where w: "write_cur lba fs = (True, fs1)" "filled fs lba 1 (fb_sector (currentsector fs)) fs1"
    using write_cur_spec[OF Suc.prems(1,2)] by blast
  have c: "currentsector fs1 = currentsector fs" using w(2) by (auto simp: filled_def)
  obtain fs2 where r: "write_run n (lba + 1) fs1 = (True, fs2)" "filled fs1 (lba + 1) n (fb_sector (currentsector fs)) fs2"
    using Suc.IH[OF filled_can_write[OF w(2) Suc.prems(1)]] Suc.prems by (auto simp: c)
  have u: "unat (s - lba) < Suc n \<longleftrightarrow> unat (s - lba) < 1 \<or> unat (s - (lba + 1)) < n" for s
  proof (cases "s = lba")
    case False
    then have "s - lba \<noteq> 0" by simp
    then have "unat (s - lba - 1) = unat (s - lba) - 1" by (rule unat_minus_one)
    moreover have "s - (lba + 1) = s - lba - 1" by simp
    moreover have "0 < unat (s - lba)" using \<open>s - lba \<noteq> 0\<close> by (simp add: unat_gt_0)
    ultimately show ?thesis by (simp only:) linarith
  qed simp
  have "filled fs lba (Suc n) (fb_sector (currentsector fs)) fs2"
    using w(2) r(2) unfolding filled_def u by auto
  then show ?case using w(1) r(1) by simp
qed

lemma set_cur_fields [simp]:
  "can_write (set_cur s fs) = can_write fs" "fb_sector (currentsector (set_cur s fs)) = s" "disk_read (set_cur s fs) = disk_read fs"
  unfolding set_cur_def by (simp_all only: disk_read_fs_cur) (simp_all add: can_write_def fs_cur_def)

lemma zero_sector_length [simp]: "length zero_sector = 512"
  by (simp add: zero_sector_def FAT_SECTOR_SIZE_n_def)

section \<open>The boot sector\<close>

lemma boot16_bytes:
  fixes sectors vol :: u32 and name :: "u8 list" and spc :: u8
  defines "b \<equiv> boot_common spc False @ boot_fat16 sectors vol name"
  shows "length b = 512" "b ! 510 = 0x55" "b ! 511 = 0xAA" "b ! 450 = 0" "b ! 13 = spc" "b ! 16 = 2" "GET_16BIT_WORD b 11 = 512"
    "GET_16BIT_WORD b 14 = 8" "GET_16BIT_WORD b 17 = 512" "GET_16BIT_WORD b 19 = 0" "GET_16BIT_WORD b 22 = ucast sectors"
    "GET_32BIT_WORD b 32 = vol" "GET_16BIT_WORD b 510 = 0xAA55"
proof -
  have n: "length (boot_name name) = 11" by (simp add: boot_name_def)
  have e: "b = [0xEB, 0x3C, 0x90, 0x4D, 0x53, 0x44, 0x4F, 0x53, 0x35, 0x2E, 0x30, 0x00, 0x02, spc, 8, 0, 2, 0, 2, 0, 0, 0xF8] @
      le16 (ucast sectors) @ [0, 0, 0, 0, 0x20, 0, 0, 0] @ bytes_le vol @ [0, 0, 0x29, 0x12, 0x34, 0x56, 0x78] @
      boot_name name @ lit ''FAT16   '' @ replicate 448 0 @ [0x55, 0xAA]"
    by (simp add: b_def boot_common_def boot_head_def boot_fat16_def reserved_sectors_def root_entries_def num_of_fats_def le16_def)
  have l: "length (le16 x) = 2" "length (bytes_le y) = 4" for x and y :: u32 by (simp_all add: le16_def bytes_le_def)
  show "length b = 512" by (simp add: e n l lit_def)
  show "b ! 510 = 0x55" "b ! 511 = 0xAA" "b ! 450 = 0" "b ! 13 = spc" "b ! 16 = 2"
    by (simp_all add: e nth_append n l lit_def)
  show "GET_16BIT_WORD b 11 = 512" "GET_16BIT_WORD b 14 = 8" "GET_16BIT_WORD b 17 = 512" "GET_16BIT_WORD b 19 = 0" "GET_16BIT_WORD b 510 = 0xAA55"
    by (simp_all add: GET_16BIT_WORD_def e nth_append n l lit_def)
  show "GET_16BIT_WORD b 22 = ucast sectors"
    using le_bytes_16[of "ucast sectors"] by (simp add: GET_16BIT_WORD_def e nth_append le16_def)
  show "GET_32BIT_WORD b 32 = vol"
    using le_bytes_32[of vol] by (simp add: GET_32BIT_WORD_def e nth_append l bytes_le_def)
qed

section \<open>Sizes\<close>

lemma calc_cluster_size16:
  assumes "vol \<le> 4194304"
  shows "fatfs_calc_cluster_size vol False \<in> {2, 4, 8, 16, 32, 64}"
    "unat vol \<le> 65536 * unat (fatfs_calc_cluster_size vol False)"
    "fatfs_calc_cluster_size vol False = 2 \<longleftrightarrow> unat vol \<le> 32680"
    "fatfs_calc_cluster_size vol False = 64 \<longleftrightarrow> 2097152 < unat vol"
    "fatfs_calc_cluster_size vol False \<noteq> 2 \<Longrightarrow> 8170 * unat (fatfs_calc_cluster_size vol False) < unat vol"
  using assms by (auto simp: fatfs_calc_cluster_size_def cluster_size_table16_def word_le_nat_alt)

text \<open>The table is large enough for the clusters, and their number that of FAT16 below 4194152 sectors.\<close>

lemma format_arith:
  fixes n spc :: nat
  defines "f \<equiv> (n div spc + 1) div 256 + 1"
  assumes "spc \<in> {2, 4, 8, 16, 32, 64}" "n \<le> 65536 * spc" "8244 \<le> n" "spc \<noteq> 2 \<Longrightarrow> 8170 * spc < n" "n \<le> 4194304"
  shows "40 + 2 * f \<le> n" "1 \<le> f" "f \<le> 257" "4085 \<le> (n - (40 + 2 * f)) div spc" "(n - (40 + 2 * f)) div spc < 65525 \<longleftrightarrow> n < 4194152"
proof -
  have s: "0 < spc" using assms(2) by auto
  define q where "q = n div spc"
  have "n = spc * q + n mod spc" "n mod spc < spc" using s by (simp_all add: q_def)
  then have q: "spc * q \<le> n" "n < spc * q + spc" by linarith+
  have q2: "q \<le> 65536" using q(1) assms(3) s by (metis mult.commute mult_le_cancel1 le_trans)
  have f: "f = (q + 1) div 256 + 1" by (simp add: f_def q_def)
  define d m where "d = (q + 1) div 256" and "m = (q + 1) mod 256"
  have "d * 256 + m = q + 1" "m < 256" unfolding d_def m_def by (rule div_mult_mod_eq) simp
  moreover have "f = d + 1" by (simp add: f d_def)
  ultimately have fb: "256 * f \<ge> q + 2" "256 * f \<le> q + 257" by linarith+
  show "1 \<le> f" "f \<le> 257" using fb q2 by linarith+
  show "40 + 2 * f \<le> n" using fb(2) q2 assms(4) \<open>f \<le> 257\<close> by linarith
  have "4085 * spc \<le> n - (40 + 2 * f)"
  proof (cases "spc = 2")
    case True
    have q2: "2 * q \<le> n" using q(1) True by simp
    then have "f \<le> 17" if "n < 8700" using fb(2) that by presburger
    then show ?thesis using True fb(2) q2 assms(4) by (cases "n < 8700") linarith+
  next
    case False
    then have "8170 * spc < n" "4 \<le> spc" using assms(2,5) by auto
    moreover have "4 * q \<le> n" using q(1) mult_le_mono1[OF \<open>4 \<le> spc\<close>, of q] by linarith
    ultimately show ?thesis using fb(2) by linarith
  qed
  then show "4085 \<le> (n - (40 + 2 * f)) div spc" using s by (simp add: less_eq_div_iff_mult_less_eq mult.commute)
  have "n - (40 + 2 * f) < 65525 * spc \<longleftrightarrow> n < 4194152"
    using assms(2)
  proof (elim insertE emptyE)
    assume spc: "spc = 64"
    then have q64: "64 * q \<le> n" "n < 64 * q + 64" using q by simp_all
    have "f \<le> 256" if "q \<le> 65534" using fb(2) that by presburger
    then have "n < 4194152" if "n - (40 + 2 * f) < 65525 * 64"
      using q64 fb(2) \<open>f \<le> 257\<close> that by (cases "q \<le> 65534") linarith+
    moreover have "n - (40 + 2 * f) < 65525 * 64" if "n < 4194152" using q64 fb(1) that by linarith
    ultimately show ?thesis using spc by auto
  qed (use q fb assms(3) in \<open>simp, linarith?\<close>)+
  then show "(n - (40 + 2 * f)) div spc < 65525 \<longleftrightarrow> n < 4194152" using s by (simp add: div_less_iff_less_mult mult.commute)
qed

section \<open>Attaching a volume without partitions\<close>

definition init_base :: "u8 list \<Rightarrow> 'd fatfs \<Rightarrow> 'd fatfs" where
  "init_base s fs = fs\<lparr>next_free_cluster := 0, fat_buffers := [fat_buffer_reset], lba_begin := 0,
     currentsector := (currentsector fs)\<lparr>fb_sector := s, fb_address := FAT32_INVALID_CLUSTER, fb_dirty := False\<rparr>\<rparr>"

lemma disk_read_same: "disk_io fs' = disk_io fs \<Longrightarrow> media fs' = media fs \<Longrightarrow> disk_read fs' = disk_read fs"
  by (intro ext) (simp add: disk_read_def split: option.split)

lemma init_no_mbr:
  assumes "disk_read fs 0 1 = (True, s)" "length s = 512" "length (fb_sector (currentsector fs)) = 512"
    "s ! 510 = 0x55" "s ! 511 = 0xAA" "s ! 450 = 0" "GET_16BIT_WORD s 510 = 0xAA55" "GET_16BIT_WORD s 11 = 512" "s ! 13 \<noteq> 0"
    "g = load_bpb (init_base s fs)"
  shows "fatfs_init fs =
    (if bpb_clusters g < 4085 then (FAT_INIT_WRONG_FILESYS_TYPE, g)
     else if bpb_clusters g < 65525 then (FAT_INIT_OK, g\<lparr>rootdir_first_cluster := 0, fat_type := FAT_TYPE_16\<rparr>)
     else (FAT_INIT_OK, g\<lparr>fat_type := FAT_TYPE_32\<rparr>))"
proof -
  have io: "read_media (disk_io fs) \<noteq> None" using assms(1) by (auto simp: disk_read_def split: option.splits)
  let ?fs0 = "fatfs_fat_init ((fs_cur (\<lambda>b. b\<lparr>fb_address := FAT32_INVALID_CLUSTER, fb_dirty := False\<rparr>) fs)\<lparr>next_free_cluster := 0\<rparr>)"
  let ?fs1 = "(init_base s fs)\<lparr>lba_begin := lba_begin fs\<rparr>"
  have "disk_read ?fs0 = disk_read fs" "disk_read (init_base s fs) = disk_read fs"
    by (rule disk_read_same; simp add: fatfs_fat_init_def fs_cur_def init_base_def)+
  then have rd: "disk_read ?fs0 0 1 = (True, s)" "disk_read (init_base s fs) 0 1 = (True, s)"
    using assms(1) by simp_all
  have r0: "read_current 0 ?fs0 = (True, ?fs1)"
    using assms(2,3) unfolding read_current_def rd by (simp add: fatfs_fat_init_def fs_cur_def init_base_def FAT_BUFFERS_def overlay_def)
  have l1: "?fs1\<lparr>lba_begin := 0\<rparr> = init_base s fs" "fb_sector (currentsector ?fs1) = s" by (simp_all add: init_base_def)
  have r1: "read_current 0 (init_base s fs) = (True, init_base s fs)"
    using assms(2) unfolding read_current_def rd by (simp add: fs_cur_def init_base_def overlay_def)
  have pk: "length (dir_entry_bytes (dir_entry_at s 0)) = FAT_DIR_ENTRY_SIZE"
    by (simp add: dir_entry_at_def dir_entry_bytes_def Let_def assms(2) le16_def bytes_le_def FAT_DIR_ENTRY_SIZE_def)
  have b: "fb_sector (currentsector (init_base s fs)) = s" "lba_begin (init_base s fs) = 0" by (simp_all add: init_base_def)
  have spc: "sectors_per_cluster g = s ! 13" by (simp add: assms(10) load_bpb_def Let_def b bpb_offsets)
  have rm: "(read_media (disk_io ?fs0) = None) = False" using io by (simp add: fatfs_fat_init_def fs_cur_def)
  show ?thesis
    unfolding fatfs_init_def r0 Let_def prod.case l1 rm if_False
    using assms(4-9) spc[unfolded assms(10)]
    by (simp add: bpb_offsets pk valid_partition_def l1 b r1 assms(10))
qed

text \<open>The parameters the boot sector of a FAT16 volume holds.\<close>

lemma boot16_load:
  fixes spc :: u8 and f vol :: u32
  assumes "unat f \<le> 257" "f \<noteq> 0" "s = boot_common spc False @ boot_fat16 f vol name"
  shows "\<exists>rc fi. load_bpb (init_base s fs) = (init_base s fs)\<lparr>sectors_per_cluster := spc, root_entry_count := 512, fat_sectors := f,
      rootdir_first_cluster := rc, fs_info_sector := fi, rootdir_first_sector := 8 + 2 * f, rootdir_sectors := 32,
      fat_begin_lba := 8, cluster_begin_lba := 8 + 2 * f\<rparr>"
    "bpb_clusters (load_bpb (init_base s fs)) = (vol - (40 + 2 * f)) div ucast spc"
proof -
  have b: "s ! 13 = spc" "s ! 16 = 2" "GET_16BIT_WORD s 11 = 512" "GET_16BIT_WORD s 14 = 8" "GET_16BIT_WORD s 17 = 512" "GET_16BIT_WORD s 19 = 0"
    "GET_16BIT_WORD s 22 = ucast f" "GET_32BIT_WORD s 32 = vol" unfolding assms(3) by (rule boot16_bytes)+
  have i: "fb_sector (currentsector (init_base s fs)) = s" "lba_begin (init_base s fs) = 0" by (simp_all add: init_base_def)
  have f: "ucast (ucast f :: u16) = f" using assms(1) by (simp add: word_unat_eq_iff unsigned_ucast_eq take_bit_eq_mod unat_mod)
  then have nz: "(ucast f :: u16) \<noteq> 0" using assms(2) by auto
  have ld: "load_bpb (init_base s fs) = (init_base s fs)\<lparr>sectors_per_cluster := spc, root_entry_count := 512, fat_sectors := f,
      rootdir_first_cluster := GET_32BIT_WORD s 44, fs_info_sector := GET_16BIT_WORD s 48, rootdir_first_sector := 8 + 2 * f,
      rootdir_sectors := 32, fat_begin_lba := 8, cluster_begin_lba := 8 + 2 * f\<rparr>"
    using f nz by (simp add: load_bpb_def Let_def i bpb_offsets b)
  then show "\<exists>rc fi. load_bpb (init_base s fs) = (init_base s fs)\<lparr>sectors_per_cluster := spc, root_entry_count := 512, fat_sectors := f,
      rootdir_first_cluster := rc, fs_info_sector := fi, rootdir_first_sector := 8 + 2 * f, rootdir_sectors := 32,
      fat_begin_lba := 8, cluster_begin_lba := 8 + 2 * f\<rparr>" by blast
  show "bpb_clusters (load_bpb (init_base s fs)) = (vol - (40 + 2 * f)) div ucast spc"
    using f nz by (simp add: bpb_clusters_def Let_def ld i bpb_offsets b)
qed

section \<open>What formatting stores\<close>

definition sector_of :: "'d disk_if \<Rightarrow> 'd \<Rightarrow> u32 \<Rightarrow> bool \<times> u8 list" where
  "sector_of io m s = (case read_media io of Some rd \<Rightarrow> rd m s 1 | None \<Rightarrow> (False, []))"

lemma disk_read_sector_of: "disk_read fs s 1 = sector_of (disk_io fs) (media fs) s"
  by (simp add: disk_read_def sector_of_def)

lemma set_cur_io [simp]: "disk_io (set_cur s fs) = disk_io fs" "media (set_cur s fs) = media fs"
  by (simp_all add: set_cur_def fs_cur_def)

lemma put_spec:
  assumes "can_write fs" "length sec = 512"
  shows "\<exists>m. write_cur lba (set_cur sec fs) = (True, (set_cur sec fs)\<lparr>media := m\<rparr>) \<and>
    sector_of (disk_io fs) m = (sector_of (disk_io fs) (media fs))(lba := (True, sec))"
proof -
  obtain fs' m where w: "write_cur lba (set_cur sec fs) = (True, fs')" "fs' = (set_cur sec fs)\<lparr>media := m\<rparr>"
    "\<forall>s. disk_read fs' s 1 = (if unat (s - lba) < 1 then (True, sec) else disk_read (set_cur sec fs) s 1)"
    using write_cur_spec[of "set_cur sec fs" lba] assms by (auto simp: filled_def)
  have "unat (s - lba) < 1 \<longleftrightarrow> s = lba" for s by (simp add: unat_eq_zero)
  then show ?thesis using w by (auto simp: disk_read_sector_of fun_eq_iff)
qed

lemma run_spec:
  assumes "can_write fs" "length sec = 512" "n < 2 ^ 32"
  shows "\<exists>m. write_run n lba (set_cur sec fs) = (True, (set_cur sec fs)\<lparr>media := m\<rparr>) \<and>
    sector_of (disk_io fs) m = (\<lambda>s. if unat (s - lba) < n then (True, sec) else sector_of (disk_io fs) (media fs) s)"
proof -
  obtain fs' m where w: "write_run n lba (set_cur sec fs) = (True, fs')" "fs' = (set_cur sec fs)\<lparr>media := m\<rparr>"
    "\<forall>s. disk_read fs' s 1 = (if unat (s - lba) < n then (True, sec) else disk_read (set_cur sec fs) s 1)"
    using write_run_spec[of "set_cur sec fs" n lba] assms by (auto simp: filled_def)
  then show ?thesis by (auto simp: disk_read_sector_of fun_eq_iff)
qed

lemma can_write_io: "disk_io fs' = disk_io fs \<Longrightarrow> can_write fs' = can_write fs"
  by (simp add: can_write_def)

lemma first_table_sector_length [simp]: "length (first_table_sector False) = 512"
  by (simp add: first_table_sector_def SET_16BIT_WORD_def)

text \<open>The parameters of a volume of FAT16.\<close>

definition geometry16 :: "u8 \<Rightarrow> u32 \<Rightarrow> 'd fatfs \<Rightarrow> bool" where
  "geometry16 spc f fs \<longleftrightarrow> sectors_per_cluster fs = spc \<and> fat_sectors fs = f \<and> root_entry_count fs = 512 \<and> lba_begin fs = 0 \<and>
     fat_begin_lba fs = 8 \<and> rootdir_first_sector fs = 8 + 2 * f \<and> rootdir_sectors fs = 32 \<and> cluster_begin_lba fs = 8 + 2 * f"

text \<open>The sectors of an empty volume: boot sector, both tables, root directory.\<close>

definition volume16 :: "u8 list \<Rightarrow> u32 \<Rightarrow> (u32 \<Rightarrow> bool \<times> u8 list) \<Rightarrow> bool" where
  "volume16 boot f rd \<longleftrightarrow> rd 0 = (True, boot) \<and> rd 8 = (True, first_table_sector False) \<and>
     (\<forall>s. 8 < s \<and> s < 40 + 2 * f \<longrightarrow> rd s = (True, zero_sector))"

lemma format16_spec:
  fixes vol :: u32
  assumes "can_write fs" "spc = fatfs_calc_cluster_size vol False" "spc \<noteq> 0" "f = table_sectors vol spc False"
    "1 \<le> unat f" "unat f \<le> 257"
  shows "\<exists>fs1. fatfs_format_fat16 vol name fs = (1, fs1) \<and> geometry16 spc f fs1 \<and> fat_type fs1 = FAT_TYPE_16 \<and> disk_io fs1 = disk_io fs \<and>
    fb_sector (currentsector fs1) = zero_sector \<and>
    volume16 (boot_common spc False @ boot_fat16 f vol name) f (sector_of (disk_io fs) (media fs1))"
proof -
  let ?io = "disk_io fs" and ?boot = "boot_common spc False @ boot_fat16 f vol name"
  obtain g0 where g0: "format_start FAT_TYPE_16 0 0 fs = (True, g0)" "disk_io g0 = ?io" "lba_begin g0 = 0" "fat_type g0 = FAT_TYPE_16"
    using assms(1) by (auto simp: format_start_def Let_def can_write_def media_ok_def fatfs_fat_init_def fs_cur_def)
  define g1 where "g1 = g0\<lparr>sectors_per_cluster := spc, root_entry_count := 512, fat_sectors := f\<rparr>"
  have c1: "can_write g1" using assms(1) g0(2) by (simp add: g1_def can_write_def)
  obtain m1 where m1: "write_cur 0 (set_cur ?boot g1) = (True, (set_cur ?boot g1)\<lparr>media := m1\<rparr>)"
    "sector_of ?io m1 = (sector_of ?io (media g1))(0 := (True, ?boot))"
    using put_spec[OF c1 boot16_bytes(1)[of spc f vol name], of 0] g0(2) by (auto simp: g1_def)
  define g2 where "g2 = (set_cur ?boot g1)\<lparr>media := m1, rootdir_first_sector := 8 + 2 * f, rootdir_sectors := 32, fat_begin_lba := 8,
      cluster_begin_lba := 8 + 2 * f\<rparr>"
  have c2: "can_write g2" using c1 by (simp add: g2_def can_write_def)
  have io2: "disk_io g2 = ?io" "media g2 = m1" using g0(2) by (simp_all add: g2_def g1_def)
  obtain m2 where m2: "write_cur 8 (set_cur (first_table_sector False) g2) = (True, (set_cur (first_table_sector False) g2)\<lparr>media := m2\<rparr>)"
    "sector_of ?io m2 = (sector_of ?io m1)(8 := (True, first_table_sector False))"
    using put_spec[OF c2 first_table_sector_length] io2 by auto
  define g3 where "g3 = (set_cur (first_table_sector False) g2)\<lparr>media := m2\<rparr>"
  have c3: "can_write g3" using c2 by (simp add: g3_def can_write_def)
  have io3: "disk_io g3 = ?io" "media g3 = m2" using io2 by (simp_all add: g3_def)
  have bnd: "2 * unat f - 1 < 2 ^ 32" using assms(6) by simp
  obtain m3 where m3: "write_run (2 * unat f - 1) 9 (set_cur zero_sector g3) = (True, (set_cur zero_sector g3)\<lparr>media := m3\<rparr>)"
    "sector_of ?io m3 = (\<lambda>s. if unat (s - 9) < 2 * unat f - 1 then (True, zero_sector) else sector_of ?io m2 s)"
    using run_spec[OF c3 zero_sector_length bnd, of 9] unfolding io3 by blast
  define g4 where "g4 = (set_cur zero_sector g3)\<lparr>media := m3\<rparr>"
  have c4: "can_write g4" using c3 by (simp add: g4_def can_write_def)
  have io4: "disk_io g4 = ?io" "media g4 = m3" using io3 by (simp_all add: g4_def)
  obtain m4 where m4: "write_run 32 (8 + 2 * f) (set_cur zero_sector g4) = (True, (set_cur zero_sector g4)\<lparr>media := m4\<rparr>)"
    "sector_of ?io m4 = (\<lambda>s. if unat (s - (8 + 2 * f)) < 32 then (True, zero_sector) else sector_of ?io m3 s)"
    using run_spec[OF c4 zero_sector_length, of 32 "8 + 2 * f"] unfolding io4 by auto
  define fs1 where "fs1 = (set_cur zero_sector g4)\<lparr>media := m4\<rparr>"
  have boot: "fatfs_create_boot_sector 0 vol name False g0 = (True, (set_cur ?boot g1)\<lparr>media := m1\<rparr>)"
    using m1(1) assms(3) by (simp add: fatfs_create_boot_sector_def Let_def assms(2,4)[symmetric] root_entries_def g1_def)
  have l1: "lba_begin ((set_cur ?boot g1)\<lparr>media := m1\<rparr>) = 0" "fat_sectors ((set_cur ?boot g1)\<lparr>media := m1\<rparr>) = f"
    "root_entry_count ((set_cur ?boot g1)\<lparr>media := m1\<rparr>) = 512"
    using g0(3) by (simp_all add: set_cur_def fs_cur_def g1_def)
  have f2: "fat_begin_lba g2 = 8" "fat_sectors g2 = f" "fat_sectors g3 = f" "fat_begin_lba g3 = 8" "lba_begin g4 = 0"
    "rootdir_first_sector g4 = 8 + 2 * f" "rootdir_sectors g4 = 32"
    using g0(3) by (simp_all add: g4_def g3_def g2_def g1_def set_cur_def fs_cur_def)
  have n: "unat (f * ucast num_of_fats) = 2 * unat f" using assms(6) by (simp add: num_of_fats_def unat_word_ariths)
  have fat: "fatfs_erase_fat False g2 = (True, g4)"
    using m2(1) m3(1) f2 by (simp add: fatfs_erase_fat_def Let_def n g3_def[symmetric] g4_def[symmetric])
  have root: "fatfs_erase_sectors (8 + 2 * f) 32 g4 = (True, fs1)" using m4(1) by (simp add: fatfs_erase_sectors_def fs1_def)
  have "fatfs_format_fat16 vol name fs = (1, fs1)"
    unfolding fatfs_format_fat16_def g0(1) Let_def prod.case
    using boot g0(3) fat root f2 l1 by (simp add: reserved_sectors_def num_of_fats_def g2_def[symmetric])
  moreover have "geometry16 spc f fs1" "fat_type fs1 = FAT_TYPE_16" "disk_io fs1 = ?io" "fb_sector (currentsector fs1) = zero_sector"
    "media fs1 = m4"
    using g0(2-4) by (simp_all add: geometry16_def fs1_def g4_def g3_def g2_def g1_def set_cur_def fs_cur_def)
  moreover have "volume16 ?boot f (sector_of ?io m4)"
    unfolding volume16_def
  proof (intro conjI allI impI)
    have u: "unat (8 + 2 * f) = 8 + 2 * unat f" "unat (40 + 2 * f) = 40 + 2 * unat f" using assms(6) by (simp_all add: unat_word_ariths)
    have d: "unat (s - t) = (if t \<le> s then unat s - unat t else unat s + 2 ^ 32 - unat t)" for s t :: u32
      by (simp add: unat_sub_if' word_le_nat_alt)
    have small: "\<not> 4294967287 < 2 * unat f - Suc 0" "\<not> 4294967295 < 2 * unat f - Suc 0" "\<not> 4294967288 - 2 * unat f < 32"
      "\<not> 4294967296 - 2 * unat f < 32" using assms(6) by simp_all
    show "sector_of ?io m4 0 = (True, ?boot)" "sector_of ?io m4 8 = (True, first_table_sector False)"
      using small assms(5) by (simp_all add: m4(2) m3(2) m2(2) m1(2) d u word_le_nat_alt)
    fix s :: u32 assume s: "8 < s \<and> s < 40 + 2 * f"
    then have s1: "8 < unat s" "unat s < 40 + 2 * unat f" by (simp_all add: word_less_nat_alt u)
    show "sector_of ?io m4 s = (True, zero_sector)"
    proof (cases "unat s < 8 + 2 * unat f")
      case True
      then have "unat (s - 9) < 2 * unat f - 1" using s1 by (simp add: d word_le_nat_alt)
      then show ?thesis by (simp add: m4(2) m3(2))
    next
      case False
      then have "unat (s - (8 + 2 * f)) < 32" using s1 by (simp add: d u word_le_nat_alt)
      then show ?thesis by (simp add: m4(2))
    qed
  qed
  ultimately show ?thesis by auto
qed

section \<open>A new volume, attached\<close>

text \<open>The parameters of a volume of the size, and the number of clusters found in them.\<close>

lemma format16_sizes:
  fixes vol :: u32
  defines "spc \<equiv> fatfs_calc_cluster_size vol False"
  defines "f \<equiv> table_sectors vol spc False"
  assumes "8244 \<le> vol" "vol \<le> 4194304"
  shows "spc \<noteq> 0" "1 \<le> unat f" "unat f \<le> 257" "4085 \<le> (vol - (40 + 2 * f)) div ucast spc"
    "(vol - (40 + 2 * f)) div ucast spc < 65525 \<longleftrightarrow> vol < 4194152"
proof -
  note c = calc_cluster_size16[OF assms(4), folded spc_def]
  have n: "8244 \<le> unat vol" "unat vol \<le> 4194304" using assms(3,4) by (simp_all add: word_le_nat_alt)
  show "spc \<noteq> 0" using c(1) by auto
  have sp: "unat spc \<in> {2, 4, 8, 16, 32, 64}" "unat spc \<noteq> 2 \<Longrightarrow> 8170 * unat spc < unat vol" using c(1,5) by auto
  note a = format_arith[OF sp(1) c(2) n(1) sp(2) n(2)]
  have us: "unat (ucast spc :: u32) = unat spc" using unat_less_exp[of spc] by (simp add: unsigned_ucast_eq take_bit_eq_mod)
  have "unat vol div unat spc < 2 ^ 32 - 1" using n(2) le_trans[OF div_le_dividend[of "unat vol" "unat spc"] n(2)] by simp
  then have uf: "unat f = (unat vol div unat spc + 1) div 256 + 1"
    by (simp add: f_def table_sectors_def Let_def unat_word_ariths unat_div us)
  show "1 \<le> unat f" "unat f \<le> 257" using a(2,3) unfolding uf by simp_all
  have w: "unat (40 + 2 * f) = 40 + 2 * unat f" using \<open>unat f \<le> 257\<close> by (simp add: unat_word_ariths)
  have "40 + 2 * f \<le> vol" unfolding word_le_nat_alt w uf using a(1) .
  then have q: "unat ((vol - (40 + 2 * f)) div ucast spc) = (unat vol - (40 + 2 * unat f)) div unat spc"
    by (simp add: unat_div us unat_sub w)
  show "4085 \<le> (vol - (40 + 2 * f)) div ucast spc" unfolding word_le_nat_alt q uf using a(4) by simp
  show "(vol - (40 + 2 * f)) div ucast spc < 65525 \<longleftrightarrow> vol < 4194152"
    unfolding word_less_nat_alt q uf using a(5) by simp
qed

text \<open>What attaching finds on a medium that holds a new volume.\<close>

lemma attach16:
  fixes vol :: u32
  assumes "8244 \<le> vol" "vol \<le> 4194304" "spc = fatfs_calc_cluster_size vol False" "f = table_sectors vol spc False"
    "volume16 (boot_common spc False @ boot_fat16 f vol name) f (sector_of (disk_io fs) (media fs))" "length (fb_sector (currentsector fs)) = 512"
  shows "\<exists>fs'. fatfs_init fs = (FAT_INIT_OK, fs') \<and> fat_type fs' = (if vol < 4194152 then FAT_TYPE_16 else FAT_TYPE_32) \<and>
    (vol < 4194152 \<longrightarrow> rootdir_first_cluster fs' = 0) \<and> geometry16 spc f fs' \<and>
    disk_io fs' = disk_io fs \<and> media fs' = media fs \<and> fat_buffers fs' = [fat_buffer_reset] \<and>
    fb_address (currentsector fs') = FAT32_INVALID_CLUSTER \<and> length (fb_sector (currentsector fs')) = 512"
proof -
  let ?boot = "boot_common spc False @ boot_fat16 f vol name"
  note z = format16_sizes[OF assms(1,2), folded assms(3), folded assms(4)]
  note b = boot16_bytes[of spc f vol name]
  have rd: "disk_read fs 0 1 = (True, ?boot)" using assms(5) by (simp add: disk_read_sector_of volume16_def)
  have nz: "f \<noteq> 0" using z(2) by auto
  obtain rc fi where g: "load_bpb (init_base ?boot fs) = (init_base ?boot fs)\<lparr>sectors_per_cluster := spc, root_entry_count := 512, fat_sectors := f,
      rootdir_first_cluster := rc, fs_info_sector := fi, rootdir_first_sector := 8 + 2 * f, rootdir_sectors := 32,
      fat_begin_lba := 8, cluster_begin_lba := 8 + 2 * f\<rparr>" and
    c: "bpb_clusters (load_bpb (init_base ?boot fs)) = (vol - (40 + 2 * f)) div ucast spc"
    using boot16_load[OF z(3) nz refl] by blast
  have "fatfs_init fs =
    (if vol < 4194152 then (FAT_INIT_OK, (load_bpb (init_base ?boot fs))\<lparr>rootdir_first_cluster := 0, fat_type := FAT_TYPE_16\<rparr>)
     else (FAT_INIT_OK, (load_bpb (init_base ?boot fs))\<lparr>fat_type := FAT_TYPE_32\<rparr>))"
    using init_no_mbr[OF rd b(1) assms(6) b(2-4) b(13) b(7) _ refl] z(1,4,5) unfolding b(5) c by (simp add: not_less[symmetric])
  then show ?thesis unfolding g using b(1) by (simp add: geometry16_def init_base_def)
qed

text \<open>The table and the root directory of a new volume.\<close>

lemma zero_word: "i < 511 \<Longrightarrow> GET_16BIT_WORD zero_sector i = 0"
  by (simp add: GET_16BIT_WORD_def zero_sector_def FAT_SECTOR_SIZE_n_def)

lemma first_table_word:
  assumes "i < 256"
  shows "GET_16BIT_WORD (first_table_sector False) (2 * i) = (if i = 0 then 0xFFF8 else if i = 1 then 0xFFFF else 0)"
proof -
  have t: "first_table_sector False ! j = (if j = 0 then 0xF8 else if j = 1 \<or> j = 2 \<or> j = 3 then 0xFF else 0)" if "j < 512" for j
    using that by (auto simp: first_table_sector_def SET_16BIT_WORD_def zero_sector_def FAT_SECTOR_SIZE_n_def nth_list_update)
  consider "i = 0" | "i = 1" | "1 < i" by linarith
  then show ?thesis
  proof cases
    case 3
    then show ?thesis using assms by (simp add: GET_16BIT_WORD_def t)
  qed (simp_all add: GET_16BIT_WORD_def t)
qed

lemma zero_sector_free: "e \<in> set (dir_entries zero_sector) \<Longrightarrow> slot_free e"
proof -
  assume "e \<in> set (dir_entries zero_sector)"
  then obtain i where i: "i < 16" "e = dir_entry_at zero_sector (32 * i)" unfolding dir_entries_16 FAT_DIR_ENTRY_SIZE_def by auto
  then have "drop (32 * i) zero_sector = replicate (512 - 32 * i) 0" by (simp add: zero_sector_def FAT_SECTOR_SIZE_n_def)
  moreover have "11 < 512 - 32 * i" using i(1) by simp
  ultimately show ?thesis unfolding i(2) by (simp add: slot_free_def dir_entry_at_def Let_def fatfs_entry_lfn_text_def file_attrs)
qed

lemma new_volume_entries:
  assumes "volume16 boot f (sector_of (disk_io fs) (media fs))" "geometry16 spc f fs" "fat_type fs = FAT_TYPE_16"
    "fat_buffers fs = [fat_buffer_reset]" "unat f \<le> 257" "fat_sector_offset fs c < fat_sectors fs"
  shows "fat_entry fs c = Some (if c = 0 then 0xFFF8 else if c = 1 then 0xFFFF else 0)"
proof -
  have geo: "fat_begin_lba fs = 8" "fat_sectors fs = f" using assms(2) by (simp_all add: geometry16_def)
  let ?q = "c div 256"
  have q: "fat_sector_offset fs c = ?q" "?q < f" using assms(3,6) geo by (simp_all add: fat_sector_offset_def)
  have uq: "unat ?q = unat c div 256" "unat ?q < unat f" using q(2) by (simp_all add: unat_div word_less_nat_alt)
  have "fat_buffer_find (8 + ?q) [fat_buffer_reset] = None"
  proof -
    have "unat (8 + ?q) < 300" using uq(2) assms(5) by (simp add: unat_word_ariths)
    then have "8 + ?q \<noteq> 0xFFFFFFFF" by auto
    then show ?thesis unfolding fat_buffer_find_None by (simp add: fat_buffer_reset_def FAT32_INVALID_CLUSTER_def)
  qed
  then have s: "fat_sector fs (8 + ?q) = Some (if ?q = 0 then first_table_sector False else zero_sector)"
  proof -
    have "sector_of (disk_io fs) (media fs) (8 + ?q) = (True, if ?q = 0 then first_table_sector False else zero_sector)"
    proof (cases "?q = 0")
      case False
      then have "0 < unat ?q" by (simp add: unat_gt_0)
      then have "8 < 8 + ?q" "8 + ?q < 40 + 2 * f" using uq(2) assms(5) by (simp_all add: word_less_nat_alt unat_word_ariths)
      then show ?thesis using assms(1) False by (simp add: volume16_def)
    qed (use assms(1) in \<open>simp add: volume16_def\<close>)
    then show ?thesis using \<open>fat_buffer_find (8 + ?q) [fat_buffer_reset] = None\<close> by (simp add: fat_sector_def assms(4) disk_read_sector_of)
  qed
  let ?j = "unat c mod 256"
  have p: "unat (fat_position fs c) = 2 * ?j" by (simp add: fat_position_unat assms(3))
  have e: "fat_entry fs c = Some (ucast (GET_16BIT_WORD (if ?q = 0 then first_table_sector False else zero_sector) (2 * ?j)))"
    using s by (simp add: fat_entry_def geo q(1) entry_in_def assms(3) p)
  show ?thesis
  proof (cases "?q = 0")
    case True
    then have "unat c div 256 = 0" using uq(1) by simp
    then have "unat c < 256" "?j = unat c" by (simp_all add: div_eq_0_iff)
    moreover have "unat c = 0 \<longleftrightarrow> c = 0" "unat c = 1 \<longleftrightarrow> c = 1" by (auto simp: word_unat_eq_iff)
    ultimately show ?thesis unfolding e using True first_table_word[of "unat c"] by auto
  next
    case False
    then have "c \<noteq> 0" "c \<noteq> 1" by auto
    moreover have "GET_16BIT_WORD zero_sector (2 * ?j) = 0" by (rule zero_word) (use mod_less_divisor[of 256 "unat c"] in linarith)
    ultimately show ?thesis unfolding e using False by simp
  qed
qed

lemma new_volume_ready:
  assumes "volume16 boot f (sector_of (disk_io fs) (media fs))" "geometry16 spc f fs" "fat_type fs = FAT_TYPE_16" "can_write fs"
    "always_reads (disk_io fs)" "fat_buffers fs = [fat_buffer_reset]" "unat f \<le> 257" "1 \<le> unat f"
    "fb_address (currentsector fs) = FAT32_INVALID_CLUSTER" "length (fb_sector (currentsector fs)) = 512"
  shows "dir_inv fs" "has_sectors fs 0 32" "root_apart fs 32" "\<forall>e \<in> set (dir_contents fs 0 32). slot_free e"
proof -
  have geo: "fat_begin_lba fs = 8" "fat_sectors fs = f" "lba_begin fs = 0" "rootdir_first_sector fs = 8 + 2 * f" "rootdir_sectors fs = 32"
    using assms(2) by (simp_all add: geometry16_def)
  have "fat_ok fs" using assms(4,7) by (simp add: fat_ok_def can_write_def assms(6) geo buf_ok_def fat_buffer_reset_def FAT_SECTOR_SIZE_n_def)
  then have "ro_inv fs" using assms(4) by (simp add: ro_inv_def can_write_def assms(6) fat_buffer_reset_def)
  moreover obtain rd where rd: "read_media (disk_io fs) = Some rd" using assms(4) by (auto simp: can_write_def media_ok_def)
  then have "fst (disk_read fs s n)" for s n using assms(5) by (simp add: disk_read_def always_reads_def)
  ultimately show "dir_inv fs" using assms(9,10) by (simp add: dir_inv_def cur_ok_def)
  have addr: "sector_addr fs 0 k = (if k < 32 then Some (8 + 2 * f + k) else None)" for k by (simp add: root_addr[OF assms(3)] geo)
  have ua: "unat (8 + 2 * f + of_nat k) = 8 + 2 * unat f + k" if "k < 32" for k :: nat
    using that assms(7) by (simp add: unat_word_ariths unat_of_nat)
  have small: "(of_nat k :: u32) < 32" if "k < 32" for k using that by (simp add: word_less_nat_alt unat_of_nat)
  have valid: "8 + 2 * f + of_nat k \<noteq> FAT32_INVALID_CLUSTER" if "k < 32" for k :: nat
  proof -
    have "unat (8 + 2 * f + of_nat k) \<noteq> unat FAT32_INVALID_CLUSTER" using ua[OF that] that assms(7) by (simp add: FAT32_INVALID_CLUSTER_def)
    then show ?thesis by metis
  qed
  show "has_sectors fs 0 32" using small valid by (simp add: has_sectors_def addr)
  have "\<not> 8 + 2 * f + of_nat k - 8 < f" if "k < 32" for k :: nat
  proof -
    have "unat (2 * f + of_nat k) = 2 * unat f + k" using that assms(7) by (simp add: unat_word_ariths unat_of_nat)
    then show ?thesis by (simp add: word_less_nat_alt)
  qed
  then show "root_apart fs 32" using small valid by (auto simp: root_apart_def addr assms(6) fat_buffer_reset_def geo)
  have "chain_sector fs 0 k = zero_sector" if "k < 32" for k
  proof -
    have "8 < 8 + 2 * f + of_nat k" "8 + 2 * f + of_nat k < 40 + 2 * f"
      using ua[OF that] that assms(7,8) by (simp_all add: word_less_nat_alt unat_word_ariths)
    then have "sector_of (disk_io fs) (media fs) (8 + 2 * f + of_nat k) = (True, zero_sector)" using assms(1) by (simp add: volume16_def)
    then show ?thesis using small[OF that] by (simp add: chain_sector_def addr disk_read_sector_of)
  qed
  then show "\<forall>e \<in> set (dir_contents fs 0 32). slot_free e" using zero_sector_free by (auto simp: dir_contents_def)
qed

text \<open>
  C14: Formatting. On a medium that stores what is written, \<^verbatim>\<open>fatfs_format\<close> for 8244 sectors or more, but fewer than 4194152, succeeds, and
  \<^verbatim>\<open>fatfs_init\<close> then accepts the volume as FAT16 with the parameters that formatting worked with. It is empty: every
  entry of the root directory is free, and so is every cluster of the table from 2 on. The state is fit for creating files.
\<close>
theorem format_attach_correct:
  fixes vol :: u32
  assumes "can_write fs" "always_reads (disk_io fs)" "8244 \<le> vol" "vol < 4194152"
  shows "\<exists>fs1 fs2 spc f. fatfs_format vol name fs = (1, fs1) \<and> fatfs_init fs1 = (FAT_INIT_OK, fs2) \<and> fat_type fs2 = FAT_TYPE_16 \<and>
    geometry16 spc f fs1 \<and> geometry16 spc f fs2 \<and> dir_inv fs2 \<and> has_sectors fs2 0 32 \<and> root_apart fs2 32 \<and>
    (\<forall>e \<in> set (dir_contents fs2 0 32). slot_free e) \<and>
    (\<forall>c. fat_sector_offset fs2 c < fat_sectors fs2 \<longrightarrow> fat_entry fs2 c = Some (if c = 0 then 0xFFF8 else if c = 1 then 0xFFFF else 0))"
proof -
  define spc f where "spc = fatfs_calc_cluster_size vol False" and "f = table_sectors vol spc False"
  have le: "vol \<le> 4194304" using assms(4) by (simp add: word_le_nat_alt word_less_nat_alt)
  note z = format16_sizes[OF assms(3) le, folded spc_def, folded f_def]
  obtain fs1 where fs1: "fatfs_format_fat16 vol name fs = (1, fs1)" "geometry16 spc f fs1" "disk_io fs1 = disk_io fs"
    "fb_sector (currentsector fs1) = zero_sector"
    "volume16 (boot_common spc False @ boot_fat16 f vol name) f (sector_of (disk_io fs) (media fs1))"
    using format16_spec[OF assms(1) spc_def z(1) f_def z(2,3)] by blast
  have l: "length (fb_sector (currentsector fs1)) = 512" using fs1(4) by simp
  obtain fs2 where fs2: "fatfs_init fs1 = (FAT_INIT_OK, fs2)" "fat_type fs2 = FAT_TYPE_16" "geometry16 spc f fs2" "disk_io fs2 = disk_io fs1"
    "media fs2 = media fs1" "fat_buffers fs2 = [fat_buffer_reset]" "fb_address (currentsector fs2) = FAT32_INVALID_CLUSTER"
    "length (fb_sector (currentsector fs2)) = 512"
    using attach16[OF assms(3) le spc_def f_def fs1(5)[folded fs1(3)] l] assms(4) by auto
  have v: "volume16 (boot_common spc False @ boot_fat16 f vol name) f (sector_of (disk_io fs2) (media fs2))"
    using fs1(3,5) fs2(4,5) by simp
  have w: "can_write fs2" "always_reads (disk_io fs2)" using assms(1,2) fs1(3) fs2(4) by (simp_all add: can_write_def)
  have "fatfs_format vol name fs = (1, fs1)" using fs1(1) le by (simp add: fatfs_format_def)
  with fs1(2) fs2(1-3) show ?thesis
    using new_volume_ready[OF v fs2(3,2) w fs2(6) z(3,2) fs2(7,8)] new_volume_entries[OF v fs2(3,2,6) z(3)]
    by (intro exI[of _ fs1] exI[of _ fs2] exI[of _ spc] exI[of _ f]) blast
qed

lemma ex_can_write: "can_write (ex_fs True)"
  using ex_fs_like[of True] ex_reliable[of True] by (simp add: can_write_def ex_like_def)

theorem format_attach_correct_witness:
  "\<exists>fs1 fs2. fatfs_format 65536 (lit ''DATA'') (ex_fs True) = (1, fs1) \<and> fatfs_init fs1 = (FAT_INIT_OK, fs2) \<and>
    (\<forall>e \<in> set (dir_contents fs2 0 32). slot_free e)"
  using format_attach_correct[OF ex_can_write ex_write_pre(2), of 65536 "lit ''DATA''"] by auto

text \<open>
  C40: Volumes of the wrong kind. From 4194152 to 4194304 sectors \<^verbatim>\<open>fatfs_format\<close> succeeds in making a FAT16 volume, whose clusters
  \<^verbatim>\<open>fatfs_init\<close> then finds too many for FAT16: the volume is attached as FAT32.
\<close>
theorem format_attach_mistaken:
  fixes vol :: u32
  assumes "can_write fs" "4194152 \<le> vol" "vol \<le> 4194304"
  shows "\<exists>fs1 fs2. fatfs_format vol name fs = (1, fs1) \<and> fat_type fs1 = FAT_TYPE_16 \<and> fatfs_init fs1 = (FAT_INIT_OK, fs2) \<and> fat_type fs2 = FAT_TYPE_32"
proof -
  define spc f where "spc = fatfs_calc_cluster_size vol False" and "f = table_sectors vol spc False"
  have ge: "8244 \<le> vol" using assms(2) by (simp add: word_le_nat_alt)
  note z = format16_sizes[OF ge assms(3), folded spc_def, folded f_def]
  obtain fs1 where fs1: "fatfs_format_fat16 vol name fs = (1, fs1)" "fat_type fs1 = FAT_TYPE_16" "disk_io fs1 = disk_io fs"
    "fb_sector (currentsector fs1) = zero_sector"
    "volume16 (boot_common spc False @ boot_fat16 f vol name) f (sector_of (disk_io fs) (media fs1))"
    using format16_spec[OF assms(1) spc_def z(1) f_def z(2,3)] by blast
  have l: "length (fb_sector (currentsector fs1)) = 512" using fs1(4) by simp
  obtain fs2 where "fatfs_init fs1 = (FAT_INIT_OK, fs2)" "fat_type fs2 = FAT_TYPE_32"
    using attach16[OF ge assms(3) spc_def f_def fs1(5)[folded fs1(3)] l] assms(2) by (auto simp: not_less[symmetric])
  then show ?thesis using fs1(1,2) assms(3) by (simp add: fatfs_format_def)
qed

theorem format_attach_mistaken_witness:
  "\<exists>fs1 fs2. fatfs_format 4194304 (lit ''DATA'') (ex_fs True) = (1, fs1) \<and> fat_type fs1 = FAT_TYPE_16 \<and>
    fatfs_init fs1 = (FAT_INIT_OK, fs2) \<and> fat_type fs2 = FAT_TYPE_32"
  by (rule format_attach_mistaken[OF ex_can_write]) simp_all

end
