(* ===== verification/Fat_File_Write.thy ===== *)
theory Fat_File_Write
  imports Fat_Filelib Fat_Write
begin

text \<open>
  The functions of \<^verbatim>\<open>fat_filelib.c\<close> that create, write and remove files. They are compiled when
  \<^verbatim>\<open>FATFS_INC_WRITE_SUPPORT\<close> is set and modelled as if it were, with long names and time stamps off, as the options have them.
\<close>

section \<open>Creating\<close>

text \<open>The start common to files and directories: a slot with the names, the directory known and the name not yet in it.\<close>

definition new_slot :: "u8 list \<Rightarrow> 'd filelib \<Rightarrow> (nat option \<times> 'd filelib) option" where
  "new_slot path l =
     (case allocate_file l of (None, l) \<Rightarrow> Some (None, l)
      | (Some i, l) \<Rightarrow>
          let (r, p, n) = fatfs_split_path path (int FATFS_MAX_LONG_FILENAME) (int FATFS_MAX_LONG_FILENAME);
              l = upd_file i (set_names p n) l
          in if r = - 1 then Some (None, free_file i l)
             else if check_file_open i l then Some (None, free_file i l)
             else do {
               (parent, fs) \<leftarrow> parent_directory (f_path (lib_files l ! i)) (lib_fs l);
               let l = l\<lparr>lib_fs := fs\<rparr>;
               case parent of None \<Rightarrow> Some (None, free_file i l)
               | Some c \<Rightarrow> do {
                   let l = upd_file i (\<lambda>f. f\<lparr>parentcluster := c\<rparr>) l;
                   (entry, fs) \<leftarrow> fatfs_get_file_entry c (f_filename (lib_files l ! i)) (lib_fs l);
                   let l = l\<lparr>lib_fs := fs\<rparr>;
                   Some (if entry \<noteq> None then (None, free_file i l) else (Some i, l))
                 }
             })"

text \<open>The first cluster.\<close>

definition first_cluster :: "nat \<Rightarrow> 'd filelib \<Rightarrow> (bool \<times> 'd filelib) option" where
  "first_cluster i l = do {
     (ok, c, fs) \<leftarrow> fatfs_allocate_free_space True 0 1 (lib_fs l);
     let l = upd_file i (\<lambda>f. f\<lparr>startcluster := c\<rparr>) (l\<lparr>lib_fs := fs\<rparr>);
     Some (if ok then (True, l) else (False, free_file i l))
   }"

text \<open>The cluster is given back with the slot.\<close>

definition undo_create :: "nat \<Rightarrow> 'd filelib \<Rightarrow> (bool \<times> 'd filelib) option" where
  "undo_create i l = do {
     (_, fs) \<leftarrow> fatfs_free_cluster_chain (startcluster (lib_files l ! i)) (lib_fs l);
     Some (False, free_file i (l\<lparr>lib_fs := fs\<rparr>))
   }"

text \<open>The short name and the entry.\<close>

definition enter_file :: "bool \<Rightarrow> nat \<Rightarrow> 'd filelib \<Rightarrow> (bool \<times> 'd filelib) option" where
  "enter_file dir i l =
     (case fatfs_lfn_create_sfn (f_filename (lib_files l ! i)) of None \<Rightarrow> undo_create i l
      | Some shortFilename \<Rightarrow> do {
          let l = upd_file i (\<lambda>f. f\<lparr>shortfilename := shortFilename\<rparr>) l;
          let f = lib_files l ! i;
          (found, fs) \<leftarrow> fatfs_sfn_exists (parentcluster f) shortFilename (lib_fs l);
          let l = l\<lparr>lib_fs := fs\<rparr>;
          if found then undo_create i l
          else do {
            (ok, fs) \<leftarrow> fatfs_add_file_entry (parentcluster f) (f_filename f) shortFilename (startcluster f) 0 dir (lib_fs l);
            let l = l\<lparr>lib_fs := fs\<rparr>;
            if ok then Some (True, l) else undo_create i l
          }
        })"

definition file_created :: "FL_FILE \<Rightarrow> FL_FILE" where
  "file_created f = f\<lparr>filelength := 0, bytenum := 0, file_data_address := 0xFFFFFFFF, file_data_dirty := False,
     filelength_changed := False, last_ClusterIdx := 0xFFFFFFFF, last_CurrentCluster := 0xFFFFFFFF\<rparr>"

definition create_file :: "u8 list \<Rightarrow> 'd filelib \<Rightarrow> (nat option \<times> 'd filelib) option" where
  "create_file filename l =
     (if write_media (disk_io (lib_fs l)) = None then Some (None, l)
      else do {
        (slot, l) \<leftarrow> new_slot filename l;
        case slot of None \<Rightarrow> Some (None, l)
        | Some i \<Rightarrow> do {
            (ok, l) \<leftarrow> first_cluster i (upd_file i (\<lambda>f. f\<lparr>startcluster := 0\<rparr>) l);
            if \<not> ok then Some (None, l)
            else do {
              (ok, l) \<leftarrow> enter_file False i l;
              if \<not> ok then Some (None, l)
              else
                let l = upd_file i (\<lambda>f. fatfs_cache_init (file_created f)) l
                in Some (Some i, l\<lparr>lib_fs := snd (fatfs_fat_purge (lib_fs l))\<rparr>)
            }
          }
      })"

text \<open>The loop that erases the cluster of a new directory with the data of the slot.\<close>

fun erase_directory :: "nat \<Rightarrow> u32 \<Rightarrow> u32 \<Rightarrow> u8 list \<Rightarrow> 'd fatfs \<Rightarrow> bool \<times> 'd fatfs" where
  "erase_directory 0 cluster i data fs = (True, fs)"
| "erase_directory (Suc n) cluster i data fs =
     (let (ok, fs) = fatfs_write_sector cluster i (Some data) fs
      in if ok then erase_directory n cluster (i + 1) data fs else (False, fs))"

definition create_directory :: "u8 list \<Rightarrow> 'd filelib \<Rightarrow> (bool \<times> 'd filelib) option" where
  "create_directory path l = do {
     (slot, l) \<leftarrow> new_slot path l;
     case slot of None \<Rightarrow> Some (False, l)
     | Some i \<Rightarrow> do {
         (ok, l) \<leftarrow> first_cluster i (upd_file i (\<lambda>f. f\<lparr>startcluster := 0\<rparr>) l);
         if \<not> ok then Some (False, l)
         else
           let l = upd_file i (\<lambda>f. f\<lparr>file_data_sector := replicate FAT_SECTOR_SIZE_n 0\<rparr>) l; f = lib_files l ! i;
               (ok, fs) = erase_directory (unat (sectors_per_cluster (lib_fs l))) (startcluster f) 0 (file_data_sector f) (lib_fs l);
               l = l\<lparr>lib_fs := fs\<rparr>
           in if \<not> ok then Some (False, free_file i l)
              else do {
                (ok, l) \<leftarrow> enter_file True i l;
                if \<not> ok then Some (False, l)
                else
                  let l = upd_file i file_created l
                  in Some (True, free_file i (l\<lparr>lib_fs := snd (fatfs_fat_purge (lib_fs l))\<rparr>))
              }
       }
   }"

definition fl_createdirectory :: "u8 list \<Rightarrow> 'd filelib \<Rightarrow> (bool \<times> 'd filelib) option" where
  "fl_createdirectory path l = create_directory path (CHECK_FL_INIT l)"

section \<open>Writing\<close>

text \<open>The loop along the chain: it stops at the end and remembers the last cluster before it.\<close>

fun follow_to_write :: "nat \<Rightarrow> u32 \<Rightarrow> u32 \<Rightarrow> u32 \<Rightarrow> FL_FILE \<Rightarrow> 'd fatfs \<Rightarrow> u32 \<times> u32 \<times> FL_FILE \<times> 'd fatfs" where
  "follow_to_write 0 i Cluster LastCluster f fs = (Cluster, LastCluster, f, fs)"
| "follow_to_write (Suc n) i Cluster LastCluster f fs =
     (let (next, f, fs) = (case fatfs_cache_get_next_cluster f i of
            Some next \<Rightarrow> (next, f, fs)
          | None \<Rightarrow> let (next, fs) = fatfs_find_next_cluster Cluster fs in (next, fatfs_cache_set_next_cluster i next f, fs))
      in if next = FAT32_LAST_CLUSTER then (next, Cluster, f, fs) else follow_to_write n (i + 1) next Cluster f fs)"

text \<open>The cluster to write to: nothing when the file cannot be extended.\<close>

definition write_cluster :: "u32 \<Rightarrow> u32 \<Rightarrow> FL_FILE \<Rightarrow> 'd fatfs \<Rightarrow> (u32 option \<times> FL_FILE \<times> 'd fatfs) option" where
  "write_cluster ClusterIdx TotalWriteCount f fs =
     (if ClusterIdx = last_ClusterIdx f then Some (Some (last_CurrentCluster f), f, fs)
      else
        let (i, c) = (if ClusterIdx \<noteq> 0 \<and> ClusterIdx = last_ClusterIdx f + 1 then (last_ClusterIdx f, last_CurrentCluster f)
              else (0, startcluster f));
            (c, lastc, f, fs) = follow_to_write (unat (ClusterIdx - i)) i c FAT32_LAST_CLUSTER f fs;
            spc = ucast (sectors_per_cluster fs) :: u32
        in do {
          (ok, c, fs) \<leftarrow> (if c = FAT32_LAST_CLUSTER then fatfs_add_free_space lastc ((TotalWriteCount + spc - 1) div spc) fs
                          else Some (True, c, fs));
          Some (if ok then (Some c, f\<lparr>last_CurrentCluster := c, last_ClusterIdx := ClusterIdx\<rparr>, fs) else (None, f, fs))
        })"

text \<open>The number of sectors written; \<open>buf\<close> are the bytes from the pointer on.\<close>

definition write_sectors :: "u32 \<Rightarrow> u8 list \<Rightarrow> u32 \<Rightarrow> FL_FILE \<Rightarrow> 'd fatfs \<Rightarrow> (u32 \<times> FL_FILE \<times> 'd fatfs) option" where
  "write_sectors off buf count f fs =
     (let TotalWriteCount = count; spc = ucast (sectors_per_cluster fs); ClusterIdx = off div spc; SectorNumber = off - ClusterIdx * spc;
          count = (if SectorNumber + count > spc then spc - SectorNumber else count)
      in do {
        (c, f, fs) \<leftarrow> write_cluster ClusterIdx TotalWriteCount f fs;
        Some (case c of None \<Rightarrow> (0, f, fs)
          | Some c \<Rightarrow>
              let (ok, fs) = fatfs_sector_write (fatfs_lba_of_cluster fs c + SectorNumber) (take (512 * unat count) buf) count fs
              in (if ok then count else 0, f, fs))
      })"

text \<open>\<^verbatim>\<open>fl_fflush\<close>, on the file.\<close>

definition file_flush :: "FL_FILE \<Rightarrow> 'd fatfs \<Rightarrow> (FL_FILE \<times> 'd fatfs) option" where
  "file_flush f fs =
     (if file_data_dirty f then do {
        (n, f, fs) \<leftarrow> write_sectors (file_data_address f) (file_data_sector f) 1 f fs;
        Some (if n \<noteq> 0 then f\<lparr>file_data_dirty := False\<rparr> else f, fs)
      } else Some (f, fs))"

definition fl_fflush :: "nat option \<Rightarrow> 'd filelib \<Rightarrow> 'd filelib option" where
  "fl_fflush file l =
     (let l = CHECK_FL_INIT l
      in case file of None \<Rightarrow> Some l
         | Some i \<Rightarrow> do { (f, fs) \<leftarrow> file_flush (lib_files l ! i) (lib_fs l); Some (upd_file i (\<lambda>_. f) (l\<lparr>lib_fs := fs\<rparr>)) })"

text \<open>
  One round of the loop of \<^verbatim>\<open>fl_fwrite\<close> on the bytes still to be written: nothing when it breaks off, else the bytes taken and the
  next sector.
\<close>

definition fwrite_step :: "u8 list \<Rightarrow> u32 \<Rightarrow> u32 \<Rightarrow> FL_FILE \<Rightarrow> 'd fatfs \<Rightarrow> ((u32 \<times> u32) option \<times> FL_FILE \<times> 'd fatfs) option" where
  "fwrite_step rest sector off f fs =
     (if off = 0 \<and> (of_nat (length rest) :: u32) \<ge> 512 then do {
        (f, fs) \<leftarrow> (if file_data_address f \<noteq> 0xFFFFFFFF then do {
                      (f, fs) \<leftarrow> file_flush f fs;
                      Some (f\<lparr>file_data_address := 0xFFFFFFFF, file_data_dirty := False\<rparr>, fs)
                    } else Some (f, fs));
        (n, f, fs) \<leftarrow> write_sectors sector rest (of_nat (length rest) div 512) f fs;
        Some (if n \<noteq> 0 then Some (512 * n, sector + n) else None, f\<lparr>bytenum := bytenum f + 512 * n\<rparr>, fs)
      } else
        let copyCount = 512 - off;
            copyCount = (if copyCount > of_nat (length rest) then of_nat (length rest) else copyCount)
        in do {
          (f, fs) \<leftarrow> (if file_data_address f \<noteq> sector then do {
                        (f, fs) \<leftarrow> file_flush f fs;
                        let (f, fs) = (if copyCount \<noteq> 512 then
                              (case read_sectors sector 1 f fs of (n, bs, f, fs) \<Rightarrow>
                                 (f\<lparr>file_data_sector := (if n = 0 then replicate FAT_SECTOR_SIZE_n 0 else overlay bs (file_data_sector f))\<rparr>, fs))
                              else (f, fs));
                        Some (f\<lparr>file_data_address := sector, file_data_dirty := False\<rparr>, fs)
                      } else Some (f, fs));
          Some (Some (copyCount, sector + 1),
            f\<lparr>file_data_sector := put_at (unat off) (take (unat copyCount) rest) (file_data_sector f), file_data_dirty := True,
              bytenum := bytenum f + copyCount\<rparr>, fs)
        })"

text \<open>The loop; every round that goes on takes a byte or more, so as many rounds as bytes are enough.\<close>

fun fwrite_loop :: "nat \<Rightarrow> u8 list \<Rightarrow> u32 \<Rightarrow> u32 \<Rightarrow> FL_FILE \<Rightarrow> 'd fatfs \<Rightarrow> (FL_FILE \<times> 'd fatfs) option" where
  "fwrite_loop 0 rest sector off f fs = Some (f, fs)"
| "fwrite_loop (Suc n) rest sector off f fs =
     (if rest \<noteq> [] then do {
        (r, f, fs) \<leftarrow> fwrite_step rest sector off f fs;
        case r of None \<Rightarrow> Some (f, fs)
        | Some (copy, sector) \<Rightarrow> fwrite_loop n (drop (unat copy) rest) sector 0 f fs
      } else Some (f, fs))"

text \<open>\<^verbatim>\<open>fl_fwrite\<close>, on the file; \<open>data\<close> are the \<^verbatim>\<open>size * count\<close> bytes, less than \<open>2 ^ 32\<close>.\<close>

definition file_write :: "u8 list \<Rightarrow> FL_FILE \<Rightarrow> 'd fatfs \<Rightarrow> (u32 \<times> FL_FILE \<times> 'd fatfs) option" where
  "file_write data f fs =
     (if f_flags f AND FILE_WRITE = 0 then Some (- 1, f, fs)
      else
        let f = (if f_flags f AND FILE_APPEND \<noteq> 0 then f\<lparr>bytenum := filelength f\<rparr> else f)
        in do {
          (f, fs) \<leftarrow> fwrite_loop (length data) data (bytenum f div 512) (bytenum f mod 512) f fs;
          Some (of_nat (length data), if bytenum f > filelength f then f\<lparr>filelength := bytenum f, filelength_changed := True\<rparr> else f, fs)
        })"

definition fl_fwrite :: "u8 list \<Rightarrow> nat option \<Rightarrow> 'd filelib \<Rightarrow> (u32 \<times> 'd filelib) option" where
  "fl_fwrite data file l =
     (let l = CHECK_FL_INIT l
      in case file of None \<Rightarrow> Some (- 1, l)
         | Some i \<Rightarrow> do {
             (n, f, fs) \<leftarrow> file_write data (lib_files l ! i) (lib_fs l);
             Some (n, upd_file i (\<lambda>_. f) (l\<lparr>lib_fs := fs\<rparr>))
           })"

definition fl_fputc :: "u32 \<Rightarrow> nat option \<Rightarrow> 'd filelib \<Rightarrow> (u32 \<times> 'd filelib) option" where
  "fl_fputc c file l = do { (res, l) \<leftarrow> fl_fwrite [ucast c] file l; Some (if res = 1 then c else res, l) }"

definition fl_fputs :: "u8 list \<Rightarrow> nat option \<Rightarrow> 'd filelib \<Rightarrow> (u32 \<times> 'd filelib) option" where
  "fl_fputs str file l = fl_fwrite str file l"

section \<open>Removing\<close>

definition fl_remove :: "u8 list \<Rightarrow> 'd filelib \<Rightarrow> (int \<times> 'd filelib) option" where
  "fl_remove filename l = do {
     (file, l) \<leftarrow> fl_fopen filename (lit ''r'') l;
     case file of None \<Rightarrow> Some (- 1, l)
     | Some i \<Rightarrow> do {
         (ok, fs) \<leftarrow> fatfs_free_cluster_chain (startcluster (lib_files l ! i)) (lib_fs l);
         let l = l\<lparr>lib_fs := fs\<rparr>;
         let f = lib_files l ! i;
         if \<not> ok then Some (- 1, l)
         else do {
           (ok, fs) \<leftarrow> fatfs_mark_file_deleted (parentcluster f) (shortfilename f) (lib_fs l);
           let l = l\<lparr>lib_fs := fs\<rparr>;
           Some (if ok then (0, fl_fclose (Some i) l) else (- 1, l))
         }
       }
   }"

end
