(* ===== verification/Spec2Isabelle.thy ===== *)
theory Spec2Isabelle
  imports List_Head Cstring_Correct Fdt_Safe Fat_Misc_Correct Exc_Correct Rom_File Vsprintf_Scan Log Fat_Format_Correct Fat_File_Write
begin

text \<open>
  \<^bold>\<open>prephv\<close> is a 64-bit little-endian hypervisor for PowerPC that runs one 32-bit little-endian guest and
  plays the Open Firmware of a PReP machine for it. The firmware OPAL starts it with a flattened device
  tree. It takes the free memory from the tree, sets up the exception vectors, the segment lookaside
  buffer (SLB) and the hashed page table, builds the guest and its firmware state, loads a boot program
  from a FAT image and enters the guest in problem state. From then on it runs only in exceptions:
  storage and segment faults, the decrementer, the guest's privileged instructions and its firmware
  calls.

  \<^bold>\<open>How the program is modelled.\<close> Every C function is one definition with its branches, early returns and
  calls in the order of the source; a loop is a recursive function of its own. Machine integers are words
  of their width, pointers are 64-bit addresses. \<^verbatim>\<open>BUG_ON\<close>, \<^verbatim>\<open>FATAL\<close> and the endless loops on purpose stop the
  machine: functions that may do so return \<open>halt + 'a\<close>. Firmware, linker symbols, the heap
  (\<^verbatim>\<open>lib/malloc.c\<close>) and the tree compiled into the image are arguments.

  \<^bold>\<open>Theories and sources.\<close>
  \<^item> \<open>Prelude\<close>, \<open>Defs\<close>, \<open>Ppc_Defs\<close>: outcomes, words, the macros of \<^verbatim>\<open>defs.h\<close> and \<^verbatim>\<open>endian.h\<close>, constants of
    \<^verbatim>\<open>ppc-defs.h\<close>, \<^verbatim>\<open>layout.h\<close>, conversions between real addresses and pointers of \<^verbatim>\<open>mmu.h\<close>.
  \<^item> \<open>List_Head\<close>: the linked lists of \<^verbatim>\<open>list.h\<close> on a heap of links; they implement lists, which the other
    theories use in their place.
  \<^item> \<open>Ranges\<close> (\<^verbatim>\<open>lib/ranges.c\<close>): lists of address ranges; the locale \<open>region_set\<close> is their contract with the
    allocators, interpreted on \<^verbatim>\<open>range_add\<close> and \<^verbatim>\<open>range_remove\<close>.
  \<^item> \<open>Mem\<close>, \<open>Mem_Init\<close> (\<^verbatim>\<open>mem.c\<close>): the page allocator and its set-up from the device tree.
  \<^item> \<open>Cstring\<close>, \<open>Cstring_Correct\<close> (\<^verbatim>\<open>lib/string.c\<close>, \<^verbatim>\<open>lib/ctype.c\<close>): strings on a memory of bytes; the locale
    \<open>byte_copy\<close> is the contract of a copy, interpreted on \<^verbatim>\<open>memcpy\<close> and \<^verbatim>\<open>memmove\<close>.
  \<^item> \<open>Fdt\<close>, \<open>Fdt_Ro\<close> (\<^verbatim>\<open>fdt.c\<close>, \<^verbatim>\<open>fdt_ro.c\<close>): the flattened tree. \<open>Fdt_Tok\<close> relates a blob to its tags,
    \<open>Fdt_Tree\<close> and \<open>Fdt_Search\<close> to a tree, on which the queries are specified; \<open>Fdt_Safe\<close> is about blobs of
    any contents.
  \<^item> \<open>Guest_State\<close>, \<open>Mmu\<close> (\<^verbatim>\<open>guest.h\<close>, \<^verbatim>\<open>mmu.c\<close>): SLB and page table. \<open>Mmu_Table\<close> abstracts the table to a partial
    function, \<open>Mmu_Map\<close> shows what mapping and unmapping do to it, \<open>Mmu_Slb\<close> and \<open>Mmu_Walk\<close> define the
    processor's walk, \<open>Mmu_Correct\<close> shows that the walk finds what the code maps.
  \<^item> \<open>Time\<close> (\<^verbatim>\<open>time.c\<close>): timers and the decrementer.
  \<^item> \<open>Console\<close> (\<^verbatim>\<open>console.c\<close>, \<^verbatim>\<open>log.c\<close> behind the formatting), \<open>Vsprintf\<close> (\<^verbatim>\<open>lib/vsprintf.c\<close>) and \<open>Log\<close>, where the two meet.
    \<open>Vsprintf_Digits\<close> relates the conversions of numbers to division by the base, \<open>Vsprintf_Output\<close> gives the text of
    a format (\<open>renders\<close>) and what \<^verbatim>\<open>vsnprintf\<close> leaves of it in memory, \<open>Vsprintf_Scan\<close> reads it back.
  \<^item> \<open>Fat_Defs\<close>, \<open>Fat_Table\<close>, \<open>Fat_String\<close>, \<open>Fat_Misc\<close>, \<open>Fat_Access\<close>, \<open>Fat_Filelib\<close> (\<^verbatim>\<open>fat/\<close>): the FAT library, one theory
    for each of its files (\<open>Fat_Filelib\<close> has \<^verbatim>\<open>fat_cache.c\<close> too). The medium is a parameter of its state: a pair
    of functions, as the code is given them. \<open>Fat_Table_Correct\<close> and \<open>Fat_Chain\<close> abstract the buffered table to
    a function from clusters to entries, \<open>Fat_Access_Correct\<close> a directory to the list of its entries,
    \<open>Fat_Filelib_Correct\<close> an open file to the bytes of its cluster chain; \<open>Fat_String_Correct\<close>, \<open>Fat_Misc_Correct\<close>
    are about paths, names and dates. \<open>Fat_Example\<close> is a small disk on which the witnesses run.
  \<^item> \<open>Fat_Write\<close>, \<open>Fat_File_Write\<close>, \<open>Fat_Format\<close> (\<^verbatim>\<open>fat_write.c\<close>, the writing part of \<^verbatim>\<open>fat_filelib.c\<close>, \<^verbatim>\<open>fat_format.c\<close>): what the
    options of \<^verbatim>\<open>fat_opts.h\<close> leave out of the binary, modelled as if switched on. \<open>Fat_Write_Correct\<close> is about chains
    that grow and new entries in directories, \<open>Fat_Format_Correct\<close> about what a new volume is when it is attached.
  \<^item> \<open>Hv_State\<close>: the state of the whole, with the exception frame of \<^verbatim>\<open>exc.h\<close>; the FAT library's medium in it is
    the memory that holds the disk image.
  \<^item> \<open>Rom\<close>, \<open>Rom_Call\<close> (\<^verbatim>\<open>rom.c\<close>): the firmware services and the dispatcher of the guest's calls;
    \<open>Rom_Correct\<close>, \<open>Rom_Call_Correct\<close> their properties, \<open>Rom_File\<close> those of files on the guest's disk.
  \<^item> \<open>Guest\<close> (\<^verbatim>\<open>guest.c\<close>), \<open>Exc\<close> (\<^verbatim>\<open>exc.c\<close>, \<^verbatim>\<open>main.c\<close>): emulation, exceptions and start; \<open>Guest_Correct\<close>,
    \<open>Exc_Correct\<close> their properties.

  \<^bold>\<open>What is shown.\<close>
  \<^item> Address translation: after a mapping the processor translates the page's addresses to the mapped
    ones and others as before; unmapping undoes it; spills are detected; segment faults load exactly the
    guest's segment; a storage fault in the hypervisor's region is resumed with the address mapped.
  \<^item> Memory: the free ranges stay sorted and disjoint and cover what they should; allocations never
    overlap each other, the image, the reservations or the initrd; a claim takes exactly its pages.
  \<^item> Device tree: path, property, sibling and type queries return what the tree has; which blobs make the
    walk end, and one on which it does not.
  \<^item> Firmware interface: \<^verbatim>\<open>finddevice\<close> and \<^verbatim>\<open>getprop\<close> deliver nodes and values of the tree to the guest;
    terminal input is decoded without loss across calls; what the disk and memory properties store.
  \<^item> Guest: special registers read back what was written; in every state reachable by guest actions and
    handled exceptions the guest's state is well formed, its relocation bits agree and the memory it may
    claim is whole pages.
  \<^item> Timers: the queue stays ordered, due timers are run, the decrementer is set to the next one.
  \<^item> Files: the write-back buffers of the table are transparent and lose nothing; chains are followed,
    freed and extended as chains; a directory search finds the first live entry of the name, long or
    short; opening follows a path, seeking stays within the file, reading delivers the bytes of the chain.
    Composed with the firmware: the disk image is the medium, the library accepts it in a fit state, a
    guest's read gets the bytes of its file, and the boot program lands in guest memory.
  \<^item> Writing files: a chain grows by clusters that were free, a new entry takes the first free place and is
    found afterwards; a volume that is formatted and attached is an empty FAT16 volume, fit for both.
  \<^item> Formatting: \<^verbatim>\<open>vsnprintf\<close> never writes outside its buffer, leaves what fits of the text of the format and
    returns the length of all of it; what it prints of a \<^verbatim>\<open>long\<close>, \<^verbatim>\<open>vsscanf\<close> reads back; a log message appears on the
    console as its formatted text with prefix and colour.
  \<^item> Strings, copies and list operations meet their specifications.

  Some properties state what the code does where it falls short of its intent: a read of several sectors
  overruns its buffer, memory properties ignore the size of the buffer, input loses the character behind
  an escape, a log level indexes behind its array, the allocator returns a null pointer when it is
  exhausted, a split that leaves one unit stops the machine, a sector whose
  read failed counts as read, a joined path may take a byte more than its buffer, a nested format past the end of
  its buffer stops the machine, the largest volumes formatted as FAT16 are attached as FAT32.

  \<^bold>\<open>Bounds.\<close> Loops over memory that need not end (\<^verbatim>\<open>strlen\<close> and the walks of the tree) are partial functions with
  \<open>None\<close> for not returning. \<open>time_handle_loop\<close> and \<open>rom_stdin_loop\<close> count the readings of the time base and
  the results of the terminal still to come, each round takes one, so the count never runs out. The loop
  of \<^verbatim>\<open>mmu_map_range\<close> has the number of pages as its count. The walks of a cluster chain and of a directory, which a
  cyclic table makes endless, are partial functions as well; that they return is part of their properties.
  \<^verbatim>\<open>vsnprintf\<close> has the depth of nested formats as its count; a format without \<^verbatim>\<open>%pV\<close> needs 1. The loop of \<^verbatim>\<open>fl_fwrite\<close>
  has the number of bytes as its count, each round but the last writes one at least.

  \<^bold>\<open>Memory.\<close> Contents are by effective address; the code never reaches one byte under two addresses, save
  for the guest's memory, which is cleared through the hypervisor's address and seen at the guest's
  address once it is mapped (\<open>show_ram\<close>).

  \<^bold>\<open>Not modelled.\<close> The heap \<^verbatim>\<open>lib/malloc.c\<close> (third-party), the part of \<^verbatim>\<open>lib/vsprintf.c\<close> under \<^verbatim>\<open>CONFIG_BINARY_PRINTF\<close>, which
  nothing defines, the branches for long names and time stamps in the writing part of the FAT library (switched off by
  options of their own), the texts and arguments of the log messages in the other modules, the assembly, the table of
  error strings of the tree library, and exceptions taken while an exception is handled.
\<close>

end
